(* ===== verification/Go_Prelude.thy ===== *)
theory Go_Prelude
  imports Main
begin

text \<open>
  Shared vocabulary of the development: the parts of the Go language and of its standard
  library that the modelled packages use, and the generic lemmas their proofs share.

  \<^item> \<open>time.Time\<close> is an \<open>int\<close>: nanoseconds since the zero value of the type, which is
    January 1 of year 1, 00:00 UTC. So \<open>IsZero\<close> is equality with 0, and the day count of an
    instant is a division. \<open>time.Duration\<close> is an \<open>int\<close> of nanoseconds; the one place where
    Go's 64 bits show is \<open>Time.Sub\<close>, which saturates, and \<open>time_sub\<close> does.
  \<^item> A Go \<open>string\<close> is a \<open>string\<close>: its bytes. A typed string such as
    \<open>type State string\<close> is an open set in Go, whose unknown and zero values the code
    treats on purpose; it stays a \<open>string\<close> here, with its constants as abbreviations.
  \<^item> An \<open>error\<close> result is a sum, \<open>Inl\<close> the error.
\<close>

named_theorems go_time_simps \<open>unfolding of the clock arithmetic\<close>

section \<open>Instants and durations\<close>

type_synonym go_time = int
type_synonym go_duration = int

abbreviation time_zero :: go_time where "time_zero \<equiv> 0"

definition IsZero :: "go_time \<Rightarrow> bool" where
  "IsZero t \<longleftrightarrow> t = time_zero"

abbreviation duration_second :: go_duration where "duration_second \<equiv> 1000000000"
abbreviation duration_minute :: go_duration where "duration_minute \<equiv> 60000000000"
abbreviation duration_hour :: go_duration where "duration_hour \<equiv> 3600000000000"
abbreviation duration_day :: go_duration where "duration_day \<equiv> 86400000000000"

abbreviation max_duration :: go_duration where "max_duration \<equiv> 9223372036854775807"
abbreviation min_duration :: go_duration where "min_duration \<equiv> - 9223372036854775808"

definition time_sub :: "go_time \<Rightarrow> go_time \<Rightarrow> go_duration" where
  "time_sub t u = max min_duration (min max_duration (t - u))"

text \<open>Comparing a saturated difference with an ordinary duration is comparing the instants.\<close>

lemma time_sub_less_iff [go_time_simps]:
  "min_duration < d \<Longrightarrow> d \<le> max_duration \<Longrightarrow> time_sub t u < d \<longleftrightarrow> t < u + d"
  by (auto simp: time_sub_def)

lemma time_sub_pos_iff [go_time_simps]: "0 < time_sub t u \<longleftrightarrow> u < t"
  by (auto simp: time_sub_def)

lemma time_sub_le_iff [go_time_simps]: "time_sub t u \<le> 0 \<longleftrightarrow> t \<le> u"
  by (auto simp: time_sub_def)

lemma time_sub_exact:
  "min_duration \<le> t - u \<Longrightarrow> t - u \<le> max_duration \<Longrightarrow> time_sub t u = t - u"
  by (auto simp: time_sub_def)

section \<open>Strings\<close>

text \<open>\<open>strings.Join\<close> and \<open>strings.Split\<close> with a one-byte separator.\<close>

fun go_join :: "char \<Rightarrow> string list \<Rightarrow> string" where
  "go_join c [] = []"
| "go_join c [s] = s"
| "go_join c (s # t # ss) = s @ c # go_join c (t # ss)"

fun go_split :: "char \<Rightarrow> string \<Rightarrow> string list" where
  "go_split c [] = [[]]"
| "go_split c (x # xs) =
     (if x = c then [] # go_split c xs
      else case go_split c xs of
             [] \<Rightarrow> [[x]]
           | s # ss \<Rightarrow> (x # s) # ss)"

lemma go_split_not_Nil [simp]: "go_split c s \<noteq> []"
  by (cases s) (auto split: list.splits)

lemma go_split_no_sep: "c \<notin> set s \<Longrightarrow> go_split c s = [s]"
  by (induction s) auto

lemma go_split_append_sep: "c \<notin> set s \<Longrightarrow> go_split c (s @ c # t) = s # go_split c t"
  by (induction s) auto

lemma go_split_join:
  "ss \<noteq> [] \<Longrightarrow> \<forall>s \<in> set ss. c \<notin> set s \<Longrightarrow> go_split c (go_join c ss) = ss"
  by (induction c ss rule: go_join.induct) (auto simp: go_split_no_sep go_split_append_sep)

lemma go_join_length:
  "length (go_join c ss) = sum_list (map length ss) + (length ss - 1)"
  by (induction c ss rule: go_join.induct) auto

lemma go_join_Nil_iff: "\<forall>s \<in> set ss. s \<noteq> [] \<Longrightarrow> go_join c ss = [] \<longleftrightarrow> ss = []"
  by (cases "(c, ss)" rule: go_join.cases) auto

text \<open>
  \<open>strings.TrimSpace\<close>: the UTF-8 encodings of the code points of Unicode's White_Space set
  are stripped from both ends. Matching whole encodings is what decoding the first and the
  last rune amounts to, because none of them is a suffix of a longer valid encoding.
\<close>

definition go_space_encodings :: "string list" where
  "go_space_encodings =
     [[CHR 0x09], [CHR 0x0A], [CHR 0x0B], [CHR 0x0C], [CHR 0x0D], [CHR 0x20],
      [CHR 0xC2, CHR 0x85], [CHR 0xC2, CHR 0xA0], [CHR 0xE1, CHR 0x9A, CHR 0x80],
      [CHR 0xE2, CHR 0x80, CHR 0x80], [CHR 0xE2, CHR 0x80, CHR 0x81],
      [CHR 0xE2, CHR 0x80, CHR 0x82], [CHR 0xE2, CHR 0x80, CHR 0x83],
      [CHR 0xE2, CHR 0x80, CHR 0x84], [CHR 0xE2, CHR 0x80, CHR 0x85],
      [CHR 0xE2, CHR 0x80, CHR 0x86], [CHR 0xE2, CHR 0x80, CHR 0x87],
      [CHR 0xE2, CHR 0x80, CHR 0x88], [CHR 0xE2, CHR 0x80, CHR 0x89],
      [CHR 0xE2, CHR 0x80, CHR 0x8A], [CHR 0xE2, CHR 0x80, CHR 0xA8],
      [CHR 0xE2, CHR 0x80, CHR 0xA9], [CHR 0xE2, CHR 0x80, CHR 0xAF],
      [CHR 0xE2, CHR 0x81, CHR 0x9F], [CHR 0xE3, CHR 0x80, CHR 0x80]]"

lemma go_space_encodings_nonempty: "w \<in> set go_space_encodings \<Longrightarrow> w \<noteq> []"
  by (auto simp: go_space_encodings_def)

function strip_any :: "string list \<Rightarrow> string \<Rightarrow> string" where
  "strip_any ws s =
     (case find (\<lambda>w. w \<noteq> [] \<and> take (length w) s = w) ws of
        None \<Rightarrow> s
      | Some w \<Rightarrow> strip_any ws (drop (length w) s))"
  by pat_completeness auto
termination
proof (relation "measure (\<lambda>(ws, s). length s)")
  fix ws :: "string list" and s w
  assume "find (\<lambda>w. w \<noteq> [] \<and> take (length w) s = w) ws = Some w"
  then have "w \<noteq> []" and "take (length w) s = w"
    by (auto simp: find_Some_iff)
  then show "((ws, drop (length w) s), ws, s) \<in> measure (\<lambda>(ws, s). length s)"
    by (cases s) auto
qed simp

declare strip_any.simps [simp del]

lemma strip_any_Nil [simp]: "strip_any ws [] = []"
  by (subst strip_any.simps) (auto simp: find_None_iff split: option.splits simp: find_Some_iff)

definition go_trim_space :: "string \<Rightarrow> string" where
  "go_trim_space s =
     rev (strip_any (map rev go_space_encodings) (rev (strip_any go_space_encodings s)))"

lemma strip_any_length: "length (strip_any ws s) \<le> length s"
proof (induction ws s rule: strip_any.induct)
  case (1 ws s)
  show ?case
  proof (cases "find (\<lambda>w. w \<noteq> [] \<and> take (length w) s = w) ws")
    case None
    then show ?thesis by (subst strip_any.simps) simp
  next
    case (Some w)
    with 1 [OF Some] show ?thesis by (subst strip_any.simps) simp
  qed
qed

lemma go_trim_space_length: "length (go_trim_space s) \<le> length s"
  using strip_any_length [of "map rev go_space_encodings" "rev (strip_any go_space_encodings s)"]
    strip_any_length [of go_space_encodings s]
  by (simp add: go_trim_space_def)

lemma go_trim_space_Nil [simp]: "go_trim_space [] = []"
  by (simp add: go_trim_space_def)

section \<open>Options and sums\<close>

text \<open>The Go idiom \<open>if err != nil { return err }\<close>.\<close>

definition bind_err :: "'e + 'a \<Rightarrow> ('a \<Rightarrow> 'e + 'b) \<Rightarrow> 'e + 'b" where
  "bind_err m f = (case m of Inl e \<Rightarrow> Inl e | Inr a \<Rightarrow> f a)"

lemma bind_err_simps [simp]:
  "bind_err (Inl e) f = Inl e"
  "bind_err (Inr a) f = f a"
  by (simp_all add: bind_err_def)

lemma bind_err_Inr_iff: "bind_err m f = Inr b \<longleftrightarrow> (\<exists>a. m = Inr a \<and> f a = Inr b)"
  by (cases m) auto

lemma bind_err_Inl_iff: "bind_err m f = Inl e \<longleftrightarrow> m = Inl e \<or> (\<exists>a. m = Inr a \<and> f a = Inl e)"
  by (cases m) auto

lemma bind_err_cong [fundef_cong]:
  "m = m' \<Longrightarrow> (\<And>a. m' = Inr a \<Longrightarrow> f a = g a) \<Longrightarrow> bind_err m f = bind_err m' g"
  by (cases m') auto

text \<open>What a query that reads one row answers.\<close>

lemma find_SomeD: "find P xs = Some x \<Longrightarrow> x \<in> set xs \<and> P x"
  by (auto simp: find_Some_iff)

end
