(* ===== verification/Work_Schedule.thy ===== *)
theory Work_Schedule
  imports Go_Prelude
begin

text \<open>
  The weekly work schedule, \<open>libs/go/platform/workschedule\<close>: validation of a schedule
  (\<open>New\<close>) and evaluation of an instant against it (\<open>Evaluate\<close>), which resolves civil
  intervals into absolute windows under the offsets the zone actually held.

  \<^item> A \<open>*time.Location\<close> is what the package uses of it: its name and, for an instant, the
    answer of \<open>Zone\<close> and \<open>ZoneBounds\<close>, a \<open>zonePeriod\<close>. The locale \<open>time_zone\<close> states
    what that answer promises; \<open>tx_location\<close> builds a location from a transition list, as
    the time zone database does, and satisfies it (\<open>tx_zone\<close>).
  \<^item> A civil date is its day number, counted from January 1 of year 1. Go's \<open>Date\<close> and
    \<open>time.Date\<close> convert between the two, and \<open>time.Date\<close> normalises a day past the end of
    its month, so adding to the day is adding to the day number.
  \<^item> \<open>Days\<close>, an array indexed by \<open>time.Weekday\<close>, is a function on weekday numbers, Sunday 0.
\<close>

section \<open>Schedules\<close>

abbreviation SourceOrganization :: string where "SourceOrganization \<equiv> ''organization''"
abbreviation SourcePersonal :: string where "SourcePersonal \<equiv> ''personal''"

definition sources :: "string list" where
  "sources = [SourceOrganization, SourcePersonal]"

definition Source_Valid :: "string \<Rightarrow> bool" where
  "Source_Valid s \<longleftrightarrow> s \<in> set sources"

definition Source_ReadOnly :: "string \<Rightarrow> bool" where
  "Source_ReadOnly s \<longleftrightarrow> s \<noteq> SourcePersonal"

type_synonym Minutes = int

abbreviation MinutesPerDay :: Minutes where "MinutesPerDay \<equiv> 1440"

definition At :: "int \<Rightarrow> int \<Rightarrow> Minutes" where
  "At hour minute = hour * 60 + minute"

record Interval =
  iv_Start :: Minutes
  iv_End :: Minutes

type_synonym Days = "nat \<Rightarrow> Interval list"

record zonePeriod =
  zp_start :: go_time
  zp_end :: go_time
  zp_offset :: go_duration

record Location =
  loc_name :: string
  loc_zone :: "go_time \<Rightarrow> zonePeriod"

record Schedule =
  sch_source :: string
  sch_location :: "Location option"
  sch_days :: Days

definition Schedule_zero :: Schedule where
  "Schedule_zero = \<lparr>sch_source = '''', sch_location = None, sch_days = (\<lambda>_. [])\<rparr>"

text \<open>Every constructor is \<open>ErrInvalidSchedule\<close> with its detail.\<close>

datatype schedule_error =
    UnknownSource string
  | TimezoneRequired
  | ServerZone string
  | NotAnIANAZone string
  | TooManyIntervals nat nat
  | OverlapsOrTouches nat Minutes
  | StartOutsideDay nat Minutes
  | EmptyReversedOrPastMidnight nat Minutes Minutes

abbreviation maxIntervalsPerDay :: nat where "maxIntervalsPerDay \<equiv> 720"

definition validateInterval :: "nat \<Rightarrow> Interval \<Rightarrow> schedule_error + unit" where
  "validateInterval weekday interval =
     (if iv_Start interval < 0 \<or> iv_Start interval \<ge> MinutesPerDay
        then Inl (StartOutsideDay weekday (iv_Start interval))
      else if iv_End interval \<le> iv_Start interval \<or> iv_End interval > MinutesPerDay
        then Inl (EmptyReversedOrPastMidnight weekday (iv_Start interval) (iv_End interval))
      else Inr ())"

text \<open>The loop of \<open>validateDay\<close>, with \<open>previousEnd\<close> as its state.\<close>

fun validateDay_loop :: "nat \<Rightarrow> Minutes \<Rightarrow> Interval list \<Rightarrow> schedule_error + unit" where
  "validateDay_loop weekday previousEnd [] = Inr ()"
| "validateDay_loop weekday previousEnd (interval # rest) =
     bind_err (validateInterval weekday interval) (\<lambda>_.
       if iv_Start interval \<le> previousEnd
         then Inl (OverlapsOrTouches weekday (iv_Start interval))
       else validateDay_loop weekday (iv_End interval) rest)"

definition validateDay :: "nat \<Rightarrow> Interval list \<Rightarrow> schedule_error + unit" where
  "validateDay weekday intervals = validateDay_loop weekday (- 1) intervals"

text \<open>
  One weekday of the loop of \<open>normalizeDays\<close>. \<open>slices.SortFunc\<close> compares starts only;
  intervals of a day that passes validation have distinct starts, so the order of ties
  never shows in an accepted schedule.
\<close>

definition normalizeDay :: "nat \<Rightarrow> Interval list \<Rightarrow> schedule_error + Interval list" where
  "normalizeDay weekday intervals =
     (if intervals = [] then Inr []
      else if length intervals > maxIntervalsPerDay
        then Inl (TooManyIntervals weekday (length intervals))
      else let sorted = sort_key iv_Start intervals
           in bind_err (validateDay weekday sorted) (\<lambda>_. Inr sorted))"

fun normalizeDays_loop :: "nat list \<Rightarrow> Days \<Rightarrow> Days \<Rightarrow> schedule_error + Days" where
  "normalizeDays_loop [] days normalized = Inr normalized"
| "normalizeDays_loop (weekday # rest) days normalized =
     bind_err (normalizeDay weekday (days weekday)) (\<lambda>sorted.
       normalizeDays_loop rest days (normalized(weekday := sorted)))"

definition normalizeDays :: "Days \<Rightarrow> schedule_error + Days" where
  "normalizeDays days = normalizeDays_loop [0..<7] days (\<lambda>_. [])"

text \<open>\<open>load\<close> is the time zone database behind \<open>time.LoadLocation\<close>.\<close>

definition loadLocation :: "(string \<rightharpoonup> Location) \<Rightarrow> string \<Rightarrow> schedule_error + Location" where
  "loadLocation load timezone =
     (let name = go_trim_space timezone in
      if name = '''' then Inl TimezoneRequired
      else if name = ''Local'' then Inl (ServerZone name)
      else case load name of
             None \<Rightarrow> Inl (NotAnIANAZone name)
           | Some location \<Rightarrow> Inr location)"

definition New :: "(string \<rightharpoonup> Location) \<Rightarrow> string \<Rightarrow> string \<Rightarrow> Days \<Rightarrow> schedule_error + Schedule" where
  "New load source timezone days =
     (if \<not> Source_Valid source then Inl (UnknownSource source)
      else bind_err (loadLocation load timezone) (\<lambda>location.
           bind_err (normalizeDays days) (\<lambda>normalized.
             Inr \<lparr>sch_source = source, sch_location = Some location, sch_days = normalized\<rparr>)))"

definition IsConfigured :: "Schedule \<Rightarrow> bool" where
  "IsConfigured s \<longleftrightarrow> sch_location s \<noteq> None"

definition Timezone :: "Schedule \<Rightarrow> string" where
  "Timezone s = (case sch_location s of None \<Rightarrow> '''' | Some l \<Rightarrow> loc_name l)"

section \<open>Evaluation\<close>

abbreviation StateNotConfigured :: string where "StateNotConfigured \<equiv> ''not_configured''"
abbreviation StateWithinWorkHours :: string where "StateWithinWorkHours \<equiv> ''within_work_hours''"
abbreviation StateOutsideWorkHours :: string where "StateOutsideWorkHours \<equiv> ''outside_work_hours''"

record Evaluation =
  ev_State :: string
  ev_Interval :: Interval
  ev_NextTransition :: go_time

abbreviation Interval_zero :: Interval where
  "Interval_zero \<equiv> \<lparr>iv_Start = 0, iv_End = 0\<rparr>"

abbreviation searchHorizonDays :: nat where "searchHorizonDays \<equiv> 15"
abbreviation zoneProbeMargin :: go_duration where "zoneProbeMargin \<equiv> 24 * duration_hour"
abbreviation maxZonePeriods :: nat where "maxZonePeriods \<equiv> 8"

record window =
  w_interval :: Interval
  w_start :: go_time
  w_end :: go_time

definition window_contains :: "window \<Rightarrow> go_time \<Rightarrow> bool" where
  "window_contains w instant \<longleftrightarrow> \<not> instant < w_start w \<and> instant < w_end w"

text \<open>The walk of \<open>periodsAround\<close> over zone transitions; the first argument is the bound left.\<close>

fun periodsAround_loop :: "nat \<Rightarrow> (go_time \<Rightarrow> zonePeriod) \<Rightarrow> go_time \<Rightarrow> go_time \<Rightarrow> zonePeriod list" where
  "periodsAround_loop 0 zone cursor lim = []"
| "periodsAround_loop (Suc n) zone cursor lim =
     (let p = zone cursor in
      p # (if IsZero (zp_end p) \<or> zp_end p > lim then []
           else periodsAround_loop n zone (zp_end p) lim))"

definition periodsAround :: "(go_time \<Rightarrow> zonePeriod) \<Rightarrow> go_time \<Rightarrow> zonePeriod list" where
  "periodsAround zone civilMidnight =
     periodsAround_loop maxZonePeriods zone (civilMidnight - zoneProbeMargin)
       (civilMidnight + (zoneProbeMargin + zoneProbeMargin))"

definition absolute :: "go_time \<Rightarrow> Minutes \<Rightarrow> go_duration \<Rightarrow> go_time" where
  "absolute civilMidnight minute offset = civilMidnight + (minute * duration_minute - offset)"

definition resolve :: "Interval \<Rightarrow> go_time \<Rightarrow> zonePeriod \<Rightarrow> window option" where
  "resolve interval civilMidnight lived =
     (let start0 = absolute civilMidnight (iv_Start interval) (zp_offset lived);
          end0 = absolute civilMidnight (iv_End interval) (zp_offset lived);
          start = (if \<not> IsZero (zp_start lived) \<and> start0 < zp_start lived then zp_start lived
                   else start0);
          end' = (if \<not> IsZero (zp_end lived) \<and> end0 > zp_end lived then zp_end lived else end0)
      in if \<not> start < end' then None
         else Some \<lparr>w_interval = interval, w_start = start, w_end = end'\<rparr>)"

text \<open>Day 0 is January 1 of year 1, a Monday.\<close>

definition weekday_of :: "int \<Rightarrow> nat" where
  "weekday_of day = nat ((day + 1) mod 7)"

definition windowsOn :: "Days \<Rightarrow> (go_time \<Rightarrow> zonePeriod) \<Rightarrow> int \<Rightarrow> window list" where
  "windowsOn days zone day =
     (let civilMidnight = day * duration_day;
          intervals = days (weekday_of day)
      in if intervals = [] then []
         else sort_key w_start
                (concat (map (\<lambda>lived. List.map_filter (\<lambda>interval. resolve interval civilMidnight lived) intervals)
                   (periodsAround zone civilMidnight))))"

text \<open>The civil date of an instant in a zone, as a day number.\<close>

definition local_day :: "(go_time \<Rightarrow> zonePeriod) \<Rightarrow> go_time \<Rightarrow> int" where
  "local_day zone t = (t + zp_offset (zone t)) div duration_day"

definition upcomingWindows :: "Days \<Rightarrow> (go_time \<Rightarrow> zonePeriod) \<Rightarrow> go_time \<Rightarrow> window list" where
  "upcomingWindows days zone instant =
     concat (map (\<lambda>offset. windowsOn days zone (local_day zone instant + int offset))
       [0..<searchHorizonDays])"

text \<open>The loop of \<open>Evaluate\<close>: \<open>runEnd\<close> is its state, the evaluation built so far its result.\<close>

fun Evaluate_loop :: "go_time \<Rightarrow> Evaluation \<Rightarrow> go_time \<Rightarrow> window list \<Rightarrow> Evaluation" where
  "Evaluate_loop instant evaluation runEnd [] = evaluation\<lparr>ev_NextTransition := runEnd\<rparr>"
| "Evaluate_loop instant evaluation runEnd (current # rest) =
     (if \<not> IsZero runEnd \<and> w_start current \<noteq> runEnd
        then evaluation\<lparr>ev_NextTransition := runEnd\<rparr>
      else if \<not> IsZero runEnd
        then Evaluate_loop instant evaluation (w_end current) rest
      else if window_contains current instant
        then Evaluate_loop instant
               (evaluation\<lparr>ev_State := StateWithinWorkHours, ev_Interval := w_interval current\<rparr>)
               (w_end current) rest
      else if w_start current > instant
        then evaluation\<lparr>ev_NextTransition := w_start current\<rparr>
      else Evaluate_loop instant evaluation runEnd rest)"

definition Schedule_Evaluate :: "Schedule \<Rightarrow> go_time \<Rightarrow> Evaluation" where
  "Schedule_Evaluate s instant =
     (case sch_location s of
        None \<Rightarrow> \<lparr>ev_State = StateNotConfigured, ev_Interval = Interval_zero,
                  ev_NextTransition = time_zero\<rparr>
      | Some location \<Rightarrow>
          Evaluate_loop instant
            \<lparr>ev_State = StateOutsideWorkHours, ev_Interval = Interval_zero,
              ev_NextTransition = time_zero\<rparr>
            time_zero (upcomingWindows (sch_days s) (loc_zone location) instant))"

section \<open>Time zones from a transition list\<close>

text \<open>
  \<open>tx_lookup start offset tx u\<close> is \<open>Location.lookup\<close> over the remaining transitions: the
  period that began at \<open>start\<close> holds until the first transition after \<open>u\<close>. The zero time
  marks a period with no beginning or no end.
\<close>

fun tx_lookup :: "go_time \<Rightarrow> go_duration \<Rightarrow> (go_time \<times> go_duration) list \<Rightarrow> go_time \<Rightarrow> zonePeriod" where
  "tx_lookup start off [] u = \<lparr>zp_start = start, zp_end = time_zero, zp_offset = off\<rparr>"
| "tx_lookup start off ((when, off') # tx) u =
     (if u < when then \<lparr>zp_start = start, zp_end = when, zp_offset = off\<rparr>
      else tx_lookup when off' tx u)"

definition tx_location :: "string \<Rightarrow> go_duration \<Rightarrow> (go_time \<times> go_duration) list \<Rightarrow> Location" where
  "tx_location name off tx = \<lparr>loc_name = name, loc_zone = tx_lookup time_zero off tx\<rparr>"

text \<open>
  The transitions of a usable zone are at least twelve hours apart and its offsets within a
  day of UTC, which is more permissive than anything the package assumes of the database.
\<close>

fun tx_spaced :: "(go_time \<times> go_duration) list \<Rightarrow> bool" where
  "tx_spaced [] = True"
| "tx_spaced [(w, off)] = True"
| "tx_spaced ((w, off) # (w', off') # tx) \<longleftrightarrow>
     w + 12 * duration_hour \<le> w' \<and> tx_spaced ((w', off') # tx)"

definition tx_wf :: "go_duration \<Rightarrow> (go_time \<times> go_duration) list \<Rightarrow> bool" where
  "tx_wf off tx \<longleftrightarrow>
     \<bar>off\<bar> \<le> duration_day \<and> list_all (\<lambda>(w, off'). 0 < w \<and> \<bar>off'\<bar> \<le> duration_day) tx \<and> tx_spaced tx"

section \<open>Validation\<close>

definition interval_ok :: "Interval \<Rightarrow> bool" where
  "interval_ok i \<longleftrightarrow> 0 \<le> iv_Start i \<and> iv_Start i < iv_End i \<and> iv_End i \<le> MinutesPerDay"

text \<open>The intervals of an accepted day: in order, with at least a minute between two of them.\<close>

definition day_ok :: "Interval list \<Rightarrow> bool" where
  "day_ok is \<longleftrightarrow> list_all interval_ok is \<and> sorted_wrt (\<lambda>a b. iv_End a < iv_Start b) is"

definition days_ok :: "Days \<Rightarrow> bool" where
  "days_ok days \<longleftrightarrow> (\<forall>wd. day_ok (days wd))"

lemma days_ok_interval: "days_ok days \<Longrightarrow> i \<in> set (days wd) \<Longrightarrow> interval_ok i"
  by (auto simp: days_ok_def day_ok_def list_all_iff)

lemma validateInterval_iff: "validateInterval wd i = Inr () \<longleftrightarrow> interval_ok i"
  by (auto simp: validateInterval_def interval_ok_def)

lemma validateDay_loop_iff:
  "validateDay_loop wd e is = Inr () \<longleftrightarrow> day_ok is \<and> list_all (\<lambda>i. e < iv_Start i) is"
proof (induction wd e "is" rule: validateDay_loop.induct)
  case (2 wd e i rest)
  show ?case
  proof (cases "validateInterval wd i")
    case (Inl err)
    then have "\<not> interval_ok i" by (auto simp flip: validateInterval_iff [of wd])
    with Inl show ?thesis by (simp add: day_ok_def)
  next
    case (Inr u)
    then have ok: "interval_ok i" by (simp add: validateInterval_iff [of wd, symmetric])
    show ?thesis
    proof (cases "iv_Start i \<le> e")
      case True
      with Inr show ?thesis by simp
    next
      case False
      with 2 Inr ok show ?thesis
        by (force simp: day_ok_def list_all_iff interval_ok_def)
    qed
  qed
qed (simp add: day_ok_def)

lemma validateDay_iff: "validateDay wd is = Inr () \<longleftrightarrow> day_ok is"
  by (auto simp: validateDay_def validateDay_loop_iff day_ok_def list_all_iff interval_ok_def)

lemma normalizeDay_Inr_iff:
  "normalizeDay wd is = Inr js \<longleftrightarrow>
     js = sort_key iv_Start is \<and> day_ok js \<and> length is \<le> maxIntervalsPerDay"
  by (auto simp: normalizeDay_def Let_def bind_err_Inr_iff validateDay_iff day_ok_def)

lemma normalizeDays_loop_Inr_iff:
  "distinct wds \<Longrightarrow>
   normalizeDays_loop wds days acc = Inr r \<longleftrightarrow>
     (\<forall>wd \<in> set wds. normalizeDay wd (days wd) = Inr (sort_key iv_Start (days wd))) \<and>
     r = (\<lambda>wd. if wd \<in> set wds then sort_key iv_Start (days wd) else acc wd)"
proof (induction wds days acc rule: normalizeDays_loop.induct)
  case (2 wd rest days acc)
  show ?case
  proof (cases "normalizeDay wd (days wd)")
    case (Inl e)
    then show ?thesis by simp
  next
    case (Inr js)
    then have "js = sort_key iv_Start (days wd)" by (simp add: normalizeDay_Inr_iff)
    moreover have "(\<lambda>v. if v \<in> set rest then sort_key iv_Start (days v)
        else (acc(wd := sort_key iv_Start (days wd))) v) =
      (\<lambda>v. if v \<in> set (wd # rest) then sort_key iv_Start (days v) else acc v)"
      using 2 by auto
    ultimately show ?thesis using Inr 2 by (simp add: fun_upd_def)
  qed
qed auto

text \<open>What \<open>New\<close> stores for each weekday.\<close>

definition normalized_days :: "Days \<Rightarrow> Days" where
  "normalized_days days = (\<lambda>wd. if wd < 7 then sort_key iv_Start (days wd) else [])"

lemma normalizeDays_Inr_iff:
  "normalizeDays days = Inr r \<longleftrightarrow>
     r = normalized_days days \<and>
     (\<forall>wd < 7. day_ok (sort_key iv_Start (days wd)) \<and> length (days wd) \<le> maxIntervalsPerDay)"
  by (auto simp: normalizeDays_def normalizeDays_loop_Inr_iff normalizeDay_Inr_iff
      normalized_days_def fun_eq_iff)

lemma loadLocation_Inr_iff:
  "loadLocation load tz = Inr l \<longleftrightarrow>
     go_trim_space tz \<noteq> '''' \<and> go_trim_space tz \<noteq> ''Local'' \<and> load (go_trim_space tz) = Some l"
  by (auto simp: loadLocation_def Let_def split: option.splits)

lemma New_Inr_iff:
  "New load src tz days = Inr s \<longleftrightarrow>
     Source_Valid src \<and>
     (\<exists>l. loadLocation load tz = Inr l \<and>
       s = \<lparr>sch_source = src, sch_location = Some l, sch_days = normalized_days days\<rparr>) \<and>
     (\<forall>wd < 7. day_ok (sort_key iv_Start (days wd)) \<and> length (days wd) \<le> maxIntervalsPerDay)"
  by (auto simp: New_def bind_err_Inr_iff normalizeDays_Inr_iff)

text \<open>Intervals accepted in one day are separated whichever two are taken.\<close>

lemma day_ok_separated:
  assumes "day_ok is" and "i \<in> set is" and "j \<in> set is" and "i \<noteq> j"
  shows "iv_End i < iv_Start j \<or> iv_End j < iv_Start i"
  using assms
proof (induction "is")
  case (Cons a as)
  then show ?case by (auto simp: day_ok_def)
qed simp

section \<open>What a time zone promises\<close>

text \<open>An instant lies in a period; a zero bound is no bound.\<close>

definition in_period :: "zonePeriod \<Rightarrow> go_time \<Rightarrow> bool" where
  "in_period p u \<longleftrightarrow>
     (IsZero (zp_start p) \<or> zp_start p \<le> u) \<and> (IsZero (zp_end p) \<or> u < zp_end p)"

text \<open>
  The working time of a day read off the local clock: the specification of \<open>Evaluate\<close>,
  which never resolves a window.
\<close>

definition clock_in :: "(go_time \<Rightarrow> zonePeriod) \<Rightarrow> go_time \<Rightarrow> Interval \<Rightarrow> bool" where
  "clock_in zone t i \<longleftrightarrow>
     (let clock = (t + zp_offset (zone t)) mod duration_day
      in iv_Start i * duration_minute \<le> clock \<and> clock < iv_End i * duration_minute)"

definition at_work :: "Days \<Rightarrow> (go_time \<Rightarrow> zonePeriod) \<Rightarrow> go_time \<Rightarrow> bool" where
  "at_work days zone t \<longleftrightarrow> (\<exists>i \<in> set (days (weekday_of (local_day zone t))). clock_in zone t i)"

text \<open>
  The documented behaviour of \<open>Zone\<close> and \<open>ZoneBounds\<close>: an instant is in the period it
  reports, every instant of that period reports the same one, offsets are within a day of
  UTC, and a period that follows a transition lasts half a day.
\<close>

locale time_zone =
  fixes zone :: "go_time \<Rightarrow> zonePeriod"
  assumes inside: "in_period (zone u) u"
    and stable: "in_period (zone u) v \<Longrightarrow> zone v = zone u"
    and offset_bound: "\<bar>zp_offset (zone u)\<bar> \<le> zoneProbeMargin"
    and sparse: "\<not> IsZero (zp_end (zone u)) \<Longrightarrow>
      IsZero (zp_end (zone (zp_end (zone u)))) \<or>
      zp_end (zone u) + 12 * duration_hour \<le> zp_end (zone (zp_end (zone u)))"
begin

lemma periodsAround_loop_range:
  "p \<in> set (periodsAround_loop n zone cursor lim) \<Longrightarrow> \<exists>v. p = zone v"
  by (induction n zone cursor lim rule: periodsAround_loop.induct)
     (auto simp: Let_def split: if_splits)

lemma before_end_same_period:
  assumes "cursor \<le> u" and "IsZero (zp_end (zone cursor)) \<or> u < zp_end (zone cursor)"
  shows "zone u = zone cursor"
  using assms inside [of cursor] by (intro stable) (auto simp: in_period_def)

lemma periodsAround_loop_covers:
  assumes "cursor \<le> u" and "u \<le> lim"
    and "IsZero (zp_end (zone cursor)) \<or> u < zp_end (zone cursor) + int n * (12 * duration_hour)"
  shows "zone u \<in> set (periodsAround_loop (Suc n) zone cursor lim)"
  using assms
proof (induction n arbitrary: cursor)
  case 0
  then show ?case using before_end_same_period [of cursor u] by (auto simp: Let_def)
next
  case (Suc n)
  let ?e = "zp_end (zone cursor)"
  show ?case
  proof (cases "IsZero ?e \<or> u < ?e")
    case True
    then show ?thesis using before_end_same_period [of cursor u] Suc.prems
      by (simp add: Let_def)
  next
    case False
    then have "IsZero (zp_end (zone ?e)) \<or> u < zp_end (zone ?e) + int n * (12 * duration_hour)"
      using sparse [of cursor] Suc.prems(3) by (auto simp: algebra_simps)
    with False Suc.prems(2) have "zone u \<in> set (periodsAround_loop (Suc n) zone ?e lim)"
      by (intro Suc.IH) auto
    with False Suc.prems(2) show ?thesis
      by (subst periodsAround_loop.simps) (simp del: periodsAround_loop.simps add: Let_def)
  qed
qed

text \<open>No offset a civil date is lived under is missed by the bounded probe.\<close>

lemma periodsAround_covers:
  assumes "cm - zoneProbeMargin \<le> u" and "u \<le> cm + (zoneProbeMargin + zoneProbeMargin)"
  shows "zone u \<in> set (periodsAround zone cm)"
proof -
  let ?c = "cm - zoneProbeMargin"
  have "IsZero (zp_end (zone ?c)) \<or> ?c < zp_end (zone ?c)"
    using inside [of ?c] by (auto simp: in_period_def)
  then have "zone u \<in> set (periodsAround_loop (Suc 7) zone ?c (cm + (zoneProbeMargin + zoneProbeMargin)))"
    using assms by (intro periodsAround_loop_covers) auto
  then show ?thesis by (simp add: periodsAround_def eval_nat_numeral del: periodsAround_loop.simps)
qed

lemma periodsAround_range: "p \<in> set (periodsAround zone cm) \<Longrightarrow> \<exists>v. p = zone v"
  by (simp add: periodsAround_def periodsAround_loop_range)

end

text \<open>Resolving an interval keeps exactly the instants the period lived it.\<close>

lemma resolve_contains:
  "(\<exists>w. resolve i cm p = Some w \<and> window_contains w t) \<longleftrightarrow>
     in_period p t \<and> cm + iv_Start i * duration_minute \<le> t + zp_offset p \<and>
     t + zp_offset p < cm + iv_End i * duration_minute"
  by (auto simp: resolve_def Let_def window_contains_def absolute_def in_period_def)

lemma resolve_Some:
  assumes "resolve i cm p = Some w"
  shows "w_start w < w_end w" and "w_interval w = i"
  using assms by (auto simp: resolve_def Let_def split: if_splits)

lemma set_windowsOn:
  "set (windowsOn days zone d) =
     {w. \<exists>p i. p \<in> set (periodsAround zone (d * duration_day)) \<and>
        i \<in> set (days (weekday_of d)) \<and> resolve i (d * duration_day) p = Some w}"
  by (force simp: windowsOn_def Let_def map_filter_def)

lemma sorted_windowsOn: "sorted (map w_start (windowsOn days zone d))"
  by (simp add: windowsOn_def Let_def)

context time_zone
begin

lemma windowsOn_contains:
  assumes ok: "\<And>i. i \<in> set (days (weekday_of d)) \<Longrightarrow> interval_ok i"
  shows "(\<exists>w \<in> set (windowsOn days zone d). window_contains w t \<and> w_interval w = i) \<longleftrightarrow>
     i \<in> set (days (weekday_of d)) \<and>
     d * duration_day + iv_Start i * duration_minute \<le> t + zp_offset (zone t) \<and>
     t + zp_offset (zone t) < d * duration_day + iv_End i * duration_minute"
    (is "?L \<longleftrightarrow> ?R")
proof
  assume ?L
  then obtain w p where i: "i \<in> set (days (weekday_of d))"
    and p: "p \<in> set (periodsAround zone (d * duration_day))"
    and w: "resolve i (d * duration_day) p = Some w" "window_contains w t"
    by (auto simp: set_windowsOn dest: resolve_Some(2))
  from w have lived: "in_period p t \<and> d * duration_day + iv_Start i * duration_minute \<le> t + zp_offset p \<and>
      t + zp_offset p < d * duration_day + iv_End i * duration_minute"
    using resolve_contains by blast
  moreover obtain v where "p = zone v" using periodsAround_range [OF p] by blast
  ultimately have "zone t = p" using stable [of v t] by simp
  with i lived show ?R by simp
next
  assume R: ?R
  with ok have "interval_ok i" by blast
  with R have "zone t \<in> set (periodsAround zone (d * duration_day))"
    using offset_bound [of t] by (intro periodsAround_covers) (auto simp: interval_ok_def abs_le_iff)
  moreover from R inside [of t] obtain w where
    "resolve i (d * duration_day) (zone t) = Some w" "window_contains w t"
    using resolve_contains [of i "d * duration_day" "zone t" t] by blast
  ultimately show ?L using R by (auto simp: set_windowsOn dest: resolve_Some(2))
qed

text \<open>A window only holds instants of its own civil date.\<close>

lemma windowsOn_local_day:
  assumes ok: "\<And>i. i \<in> set (days (weekday_of d)) \<Longrightarrow> interval_ok i"
    and w: "w \<in> set (windowsOn days zone d)" "window_contains w t"
  shows "local_day zone t = d"
proof -
  let ?i = "w_interval w" and ?r = "t + zp_offset (zone t)"
  have i: "?i \<in> set (days (weekday_of d))"
    and lo: "d * duration_day + iv_Start ?i * duration_minute \<le> ?r"
    and hi: "?r < d * duration_day + iv_End ?i * duration_minute"
    using windowsOn_contains [OF ok, where t = t and i = ?i] w by blast+
  have "interval_ok ?i" using ok [OF i] .
  with lo hi have "d * duration_day \<le> ?r" and "?r < d * duration_day + duration_day"
    by (auto simp: interval_ok_def)
  then show ?thesis by (simp add: local_day_def)
qed

lemma windowsOn_clock_in:
  assumes ok: "\<And>i. i \<in> set (days (weekday_of (local_day zone t))) \<Longrightarrow> interval_ok i"
  shows "(\<exists>w \<in> set (windowsOn days zone (local_day zone t)). window_contains w t \<and> w_interval w = i) \<longleftrightarrow>
     i \<in> set (days (weekday_of (local_day zone t))) \<and> clock_in zone t i"
proof -
  let ?r = "t + zp_offset (zone t)" and ?d = "local_day zone t"
  have eq: "?r = ?d * duration_day + ?r mod duration_day"
    by (simp add: local_day_def)
  have clip: "(?d * duration_day + a \<le> ?r \<longleftrightarrow> a \<le> ?r mod duration_day) \<and>
      (?r < ?d * duration_day + b \<longleftrightarrow> ?r mod duration_day < b)" for a b
    using eq by linarith
  show ?thesis
    by (subst windowsOn_contains) (auto simp: ok clip clock_in_def Let_def)
qed

lemma windowsOn_at_work:
  assumes ok: "\<And>i. i \<in> set (days (weekday_of (local_day zone t))) \<Longrightarrow> interval_ok i"
  shows "(\<exists>w \<in> set (windowsOn days zone (local_day zone t)). window_contains w t) \<longleftrightarrow>
     at_work days zone t"
  using windowsOn_clock_in [of days t] ok unfolding at_work_def by blast

end

section \<open>The state an evaluation reports\<close>

abbreviation outside_evaluation :: Evaluation where
  "outside_evaluation \<equiv>
     \<lparr>ev_State = StateOutsideWorkHours, ev_Interval = Interval_zero, ev_NextTransition = time_zero\<rparr>"

lemma Evaluate_loop_running:
  assumes "0 \<le> t" and "t < runEnd" and "\<forall>w \<in> set ws. w_start w < w_end w"
  shows "ev_State (Evaluate_loop t e runEnd ws) = ev_State e \<and>
    ev_Interval (Evaluate_loop t e runEnd ws) = ev_Interval e"
  using assms
  by (induction t e runEnd ws rule: Evaluate_loop.induct) (auto simp: IsZero_def)

lemma Evaluate_loop_none:
  assumes "\<forall>w \<in> set ws. \<not> window_contains w t"
  shows "ev_State (Evaluate_loop t e time_zero ws) = ev_State e \<and>
    ev_Interval (Evaluate_loop t e time_zero ws) = ev_Interval e"
  using assms by (induction ws) (auto simp: IsZero_def)

lemma Evaluate_loop_found:
  assumes "0 \<le> t" and "sorted (map w_start ws)" and "\<exists>w \<in> set ws. window_contains w t"
    and "\<forall>w \<in> set ws \<union> set ws'. w_start w < w_end w"
  shows "ev_State (Evaluate_loop t e time_zero (ws @ ws')) = StateWithinWorkHours \<and>
    (\<exists>w \<in> set ws. window_contains w t \<and> ev_Interval (Evaluate_loop t e time_zero (ws @ ws')) = w_interval w)"
  using assms
proof (induction ws)
  case (Cons a ws)
  show ?case
  proof (cases "window_contains a t")
    case True
    let ?e = "e\<lparr>ev_State := StateWithinWorkHours, ev_Interval := w_interval a\<rparr>"
    from True have "Evaluate_loop t e time_zero ((a # ws) @ ws') = Evaluate_loop t ?e (w_end a) (ws @ ws')"
      by (simp add: IsZero_def)
    moreover have "t < w_end a" using True by (simp add: window_contains_def)
    ultimately show ?thesis
      using Evaluate_loop_running [of t "w_end a" "ws @ ws'" ?e] Cons.prems True by auto
  next
    case False
    then obtain w where "w \<in> set ws" "window_contains w t" using Cons.prems(3) by auto
    with Cons.prems(2) have "\<not> t < w_start a" by (force simp: window_contains_def)
    with False have "Evaluate_loop t e time_zero ((a # ws) @ ws') = Evaluate_loop t e time_zero (ws @ ws')"
      by (simp add: IsZero_def)
    with Cons False show ?thesis by auto
  qed
qed simp

lemma upcomingWindows_Cons:
  "upcomingWindows days zone t = windowsOn days zone (local_day zone t) @
     concat (map (\<lambda>k. windowsOn days zone (local_day zone t + int k)) [1..<searchHorizonDays])"
  by (simp add: upcomingWindows_def upt_conv_Cons del: upt_Suc)

lemma windowsOn_nonempty: "w \<in> set (windowsOn days zone d) \<Longrightarrow> w_start w < w_end w"
  by (auto simp: set_windowsOn dest: resolve_Some(1))

lemma upcomingWindows_nonempty:
  "w \<in> set (upcomingWindows days zone t) \<Longrightarrow> w_start w < w_end w"
  by (auto simp: upcomingWindows_def dest: windowsOn_nonempty)

context time_zone
begin

lemma upcomingWindows_contains:
  assumes ok: "\<And>wd i. i \<in> set (days wd) \<Longrightarrow> interval_ok i"
  shows "(\<exists>w \<in> set (upcomingWindows days zone t). window_contains w u) \<longleftrightarrow>
     local_day zone t \<le> local_day zone u \<and>
     local_day zone u < local_day zone t + int searchHorizonDays \<and> at_work days zone u"
    (is "?L \<longleftrightarrow> ?R")
proof
  assume ?L
  then obtain w k where w: "w \<in> set (windowsOn days zone (local_day zone t + int k))"
      "window_contains w u" "k < searchHorizonDays"
    by (auto simp: upcomingWindows_def)
  then have "local_day zone u = local_day zone t + int k"
    using windowsOn_local_day ok by blast
  with w ok windowsOn_at_work [of days u] show ?R by auto
next
  assume R: ?R
  let ?k = "nat (local_day zone u - local_day zone t)"
  from R have "local_day zone t + int ?k = local_day zone u" "?k \<in> set [0..<searchHorizonDays]"
    by auto
  moreover from R ok windowsOn_at_work [of days u] obtain w where
    "w \<in> set (windowsOn days zone (local_day zone u))" "window_contains w u" by blast
  ultimately show ?L unfolding upcomingWindows_def set_concat set_map by force
qed

lemma Evaluate_state:
  assumes "days_ok days" and t: "0 \<le> t"
  defines "r \<equiv> Evaluate_loop t outside_evaluation time_zero (upcomingWindows days zone t)"
  shows "ev_State r = (if at_work days zone t then StateWithinWorkHours else StateOutsideWorkHours)"
    and "at_work days zone t \<Longrightarrow>
      ev_Interval r \<in> set (days (weekday_of (local_day zone t))) \<and> clock_in zone t (ev_Interval r)"
    and "\<not> at_work days zone t \<Longrightarrow> ev_Interval r = Interval_zero"
proof -
  note ok = days_ok_interval [OF assms(1)]
  let ?d = "local_day zone t"
  have nonempty: "\<forall>w \<in> set (windowsOn days zone ?d) \<union>
      set (concat (map (\<lambda>k. windowsOn days zone (?d + int k)) [1..<searchHorizonDays])). w_start w < w_end w"
    by (auto dest: windowsOn_nonempty)
  have found: "ev_State r = StateWithinWorkHours \<and>
      (\<exists>w \<in> set (windowsOn days zone ?d). window_contains w t \<and> ev_Interval r = w_interval w)"
    if "at_work days zone t"
    unfolding r_def upcomingWindows_Cons
    using that windowsOn_at_work [of days t] ok
    by (intro Evaluate_loop_found [OF t sorted_windowsOn _ nonempty]) blast
  have none: "ev_State r = StateOutsideWorkHours \<and> ev_Interval r = Interval_zero"
    if "\<not> at_work days zone t"
  proof -
    have "\<forall>w \<in> set (upcomingWindows days zone t). \<not> window_contains w t"
      using that upcomingWindows_contains [of days t t] ok by blast
    from Evaluate_loop_none [OF this, of outside_evaluation] show ?thesis by (simp add: r_def)
  qed
  show "ev_State r = (if at_work days zone t then StateWithinWorkHours else StateOutsideWorkHours)"
    using found none by auto
  show "\<not> at_work days zone t \<Longrightarrow> ev_Interval r = Interval_zero" using none by blast
  assume "at_work days zone t"
  then obtain w where w: "w \<in> set (windowsOn days zone ?d)" "window_contains w t" "ev_Interval r = w_interval w"
    using found by blast
  then show "ev_Interval r \<in> set (days (weekday_of ?d)) \<and> clock_in zone t (ev_Interval r)"
    using windowsOn_clock_in [of days t "ev_Interval r"] ok by auto
qed

end

section \<open>The transition an evaluation reports\<close>

definition covered :: "window list \<Rightarrow> go_time \<Rightarrow> bool" where
  "covered ws u \<longleftrightarrow> (\<exists>w \<in> set ws. window_contains w u)"

definition windows_ordered :: "window list \<Rightarrow> bool" where
  "windows_ordered ws \<longleftrightarrow>
     sorted_wrt (\<lambda>a b. w_end a \<le> w_start b) ws \<and> list_all (\<lambda>w. w_start w < w_end w) ws"

lemma covered_Cons [simp]: "covered (w # ws) u \<longleftrightarrow> window_contains w u \<or> covered ws u"
  by (simp add: covered_def)

lemma covered_Nil [simp]: "\<not> covered [] u"
  by (simp add: covered_def)

lemma windows_ordered_Cons [simp]:
  "windows_ordered (w # ws) \<longleftrightarrow>
     w_start w < w_end w \<and> (\<forall>v \<in> set ws. w_end w \<le> w_start v) \<and> windows_ordered ws"
  by (auto simp: windows_ordered_def)

lemma not_covered_before: "\<forall>w \<in> set ws. u < w_start w \<Longrightarrow> \<not> covered ws u"
  by (auto simp: covered_def window_contains_def)

text \<open>Once a stretch of work is found it is followed to its end, across windows that meet.\<close>

lemma Evaluate_loop_run:
  fixes e :: Evaluation
  assumes "0 \<le> t" and "t < runEnd" and "windows_ordered ws" and "\<forall>w \<in> set ws. runEnd \<le> w_start w"
  defines "n \<equiv> ev_NextTransition (Evaluate_loop t e runEnd ws)"
  shows "runEnd \<le> n \<and> (\<forall>u. runEnd \<le> u \<and> u < n \<longrightarrow> covered ws u) \<and> \<not> covered ws n \<and>
    (n = runEnd \<or> (\<exists>w \<in> set ws. n = w_end w))"
  using assms(1-4) unfolding n_def
proof (induction ws arbitrary: runEnd)
  case (Cons a ws)
  show ?case
  proof (cases "w_start a = runEnd")
    case False
    with Cons.prems have "\<forall>w \<in> set (a # ws). runEnd < w_start w" by force
    from not_covered_before [OF this] False Cons.prems show ?thesis by (auto simp: IsZero_def)
  next
    case True
    let ?n = "ev_NextTransition (Evaluate_loop t e (w_end a) ws)"
    have "ev_NextTransition (Evaluate_loop t e runEnd (a # ws)) = ?n"
      using True Cons.prems by (simp add: IsZero_def)
    moreover have IH: "w_end a \<le> ?n \<and> (\<forall>u. w_end a \<le> u \<and> u < ?n \<longrightarrow> covered ws u) \<and> \<not> covered ws ?n \<and>
        (?n = w_end a \<or> (\<exists>w \<in> set ws. ?n = w_end w))"
      using True Cons.prems by (intro Cons.IH) auto
    moreover have "window_contains a u \<or> covered ws u" if "runEnd \<le> u" "u < ?n" for u
      using IH that True by (cases "u < w_end a") (auto simp: window_contains_def)
    moreover have "\<not> window_contains a ?n" using IH by (simp add: window_contains_def)
    ultimately show ?thesis using True Cons.prems by auto
  qed
qed simp

text \<open>\<open>n\<close> is the first instant after \<open>t\<close> where \<open>P\<close> differs from what it is at \<open>t\<close>.\<close>

definition first_change :: "(go_time \<Rightarrow> bool) \<Rightarrow> go_time \<Rightarrow> go_time \<Rightarrow> bool" where
  "first_change P t n \<longleftrightarrow> t < n \<and> (\<forall>u. t \<le> u \<and> u < n \<longrightarrow> P u = P t) \<and> P n \<noteq> P t"

text \<open>
  Over ordered windows the reported transition is the first change of coverage after the
  instant, and none is reported exactly when no window is left.
\<close>

lemma Evaluate_loop_transition:
  assumes "0 \<le> t" and "windows_ordered ws"
  defines "n \<equiv> ev_NextTransition (Evaluate_loop t outside_evaluation time_zero ws)"
  shows "if n = 0 then \<forall>u \<ge> t. \<not> covered ws u
    else first_change (covered ws) t n \<and> (\<exists>w \<in> set ws. n = w_start w \<or> n = w_end w)"
  using assms(1-2) unfolding n_def
proof (induction ws)
  case (Cons a ws)
  let ?next = "\<lambda>ws. ev_NextTransition (Evaluate_loop t outside_evaluation time_zero ws)"
  consider (inside) "window_contains a t" | (ahead) "t < w_start a" | (over) "w_end a \<le> t"
    by (cases "t < w_start a"; cases "t < w_end a") (simp_all add: window_contains_def)
  then show ?case
  proof cases
    case inside
    let ?e = "outside_evaluation\<lparr>ev_State := StateWithinWorkHours, ev_Interval := w_interval a\<rparr>"
    let ?n = "ev_NextTransition (Evaluate_loop t ?e (w_end a) ws)"
    have n: "?next (a # ws) = ?n"
      using inside by (simp add: IsZero_def)
    have run: "w_end a \<le> ?n \<and> (\<forall>u. w_end a \<le> u \<and> u < ?n \<longrightarrow> covered ws u) \<and> \<not> covered ws ?n \<and>
        (?n = w_end a \<or> (\<exists>w \<in> set ws. ?n = w_end w))"
      using inside Cons.prems by (intro Evaluate_loop_run) (auto simp: window_contains_def)
    have "covered (a # ws) u" if "t \<le> u" "u < ?n" for u
      using run that inside by (cases "u < w_end a") (auto simp: window_contains_def)
    moreover have "t < ?n" "\<not> covered (a # ws) ?n"
      using run inside by (auto simp: window_contains_def)
    ultimately have "first_change (covered (a # ws)) t ?n" by (simp add: first_change_def)
    with \<open>t < ?n\<close> run Cons.prems(1) show ?thesis unfolding n by auto
  next
    case ahead
    then have none: "\<not> covered (a # ws) u" if "u < w_start a" for u
      using that Cons.prems by (intro not_covered_before) force
    have n: "?next (a # ws) = w_start a"
      using ahead by (simp add: IsZero_def window_contains_def)
    have "covered (a # ws) (w_start a)" using Cons.prems by (simp add: window_contains_def)
    with none ahead have "first_change (covered (a # ws)) t (w_start a)" by (simp add: first_change_def)
    with ahead Cons.prems(1) show ?thesis unfolding n by auto
  next
    case over
    then have cov: "covered (a # ws) u = covered ws u" if "t \<le> u" for u
      using that by (simp add: window_contains_def)
    have n: "?next (a # ws) = ?next ws"
      using over Cons.prems by (simp add: IsZero_def window_contains_def)
    have "first_change (covered (a # ws)) t m = first_change (covered ws) t m" for m
      unfolding first_change_def using cov by (metis order.refl less_imp_le)
    then show ?thesis unfolding n using Cons cov by (simp split: if_splits del: covered_Cons)
  qed
qed simp

section \<open>Ordered timelines\<close>

lemma sorted_wrt_concat_map:
  assumes "sorted_wrt P xs" and "\<And>x. x \<in> set xs \<Longrightarrow> sorted_wrt Q (f x)"
    and "\<And>x y a b. P x y \<Longrightarrow> x \<in> set xs \<Longrightarrow> y \<in> set xs \<Longrightarrow> a \<in> set (f x) \<Longrightarrow> b \<in> set (f y) \<Longrightarrow> Q a b"
  shows "sorted_wrt Q (concat (map f xs))"
  using assms by (induction xs) (auto simp: sorted_wrt_append)

lemma sorted_wrt_map_filter:
  assumes "sorted_wrt P xs" and "\<And>x y a b. P x y \<Longrightarrow> f x = Some a \<Longrightarrow> f y = Some b \<Longrightarrow> Q a b"
  shows "sorted_wrt Q (List.map_filter f xs)"
  using assms by (induction xs) (auto simp: map_filter_simps map_filter_def split: option.splits)

definition window_before :: "window \<Rightarrow> window \<Rightarrow> bool" where
  "window_before w w' \<longleftrightarrow> (\<forall>u u'. window_contains w u \<longrightarrow> window_contains w' u' \<longrightarrow> u < u')"

lemma window_before_iff:
  assumes "w_start w < w_end w" and "w_start w' < w_end w'"
  shows "window_before w w' \<longleftrightarrow> w_end w \<le> w_start w'"
proof
  assume "window_before w w'"
  moreover have "window_contains w (w_end w - 1)" "window_contains w' (w_start w')"
    using assms by (auto simp: window_contains_def)
  ultimately have "w_end w - 1 < w_start w'" unfolding window_before_def by blast
  then show "w_end w \<le> w_start w'" by simp
qed (auto simp: window_before_def window_contains_def)

text \<open>
  The calendar of a zone that never returns to a date it has left. Zones that turn the clock
  back across midnight do, and there the transition of an evaluation is not always a change
  of state.
\<close>

locale dated_zone = time_zone +
  assumes dated: "u \<le> v \<Longrightarrow> local_day zone u \<le> local_day zone v"

context time_zone
begin

lemma periodsAround_loop_from:
  "q \<in> set (periodsAround_loop n zone cursor lim) \<Longrightarrow> \<exists>c \<ge> cursor. q = zone c"
proof (induction n arbitrary: cursor)
  case (Suc n)
  have "IsZero (zp_end (zone cursor)) \<or> cursor < zp_end (zone cursor)"
    using inside [of cursor] by (simp add: in_period_def)
  moreover have "q = zone cursor \<or> \<not> IsZero (zp_end (zone cursor)) \<and> (\<exists>c \<ge> zp_end (zone cursor). q = zone c)"
    using Suc by (auto simp: Let_def split: if_splits)
  ultimately show ?case
    by (metis (no_types, lifting) less_le_trans less_imp_le order_refl)
qed simp

text \<open>Periods met later hold later instants.\<close>

lemma period_order:
  assumes c: "\<not> IsZero (zp_end (zone b))" "zp_end (zone b) \<le> c"
    and u: "in_period (zone b) u" and v: "in_period (zone c) v"
  shows "u < v"
proof (rule ccontr)
  assume "\<not> u < v"
  with c u v inside [of c] have "in_period (zone c) u" by (auto simp: in_period_def)
  with u stable have "zone b = zone c" by metis
  with c inside [of c] show False by (auto simp: in_period_def)
qed

lemma periodsAround_sorted:
  "sorted_wrt (\<lambda>p q. \<forall>u v. in_period p u \<longrightarrow> in_period q v \<longrightarrow> u < v)
     (periodsAround_loop n zone cursor lim)"
proof (induction n arbitrary: cursor)
  case (Suc n)
  have "u < v" if "\<not> IsZero (zp_end (zone cursor))"
    "q \<in> set (periodsAround_loop n zone (zp_end (zone cursor)) lim)"
    "in_period (zone cursor) u" "in_period q v" for q u v
    using that periodsAround_loop_from period_order by blast
  with Suc show ?case by (auto simp: Let_def)
qed simp

lemma resolve_in_period:
  "resolve i cm p = Some w \<Longrightarrow> window_contains w u \<Longrightarrow> in_period p u"
  using resolve_contains by blast

lemma windowsOn_sorted:
  assumes "day_ok (days (weekday_of d))"
  shows "sorted_wrt window_before (windowsOn days zone d)"
proof -
  let ?cm = "d * duration_day"
  let ?ws = "concat (map (\<lambda>p. List.map_filter (\<lambda>i. resolve i ?cm p) (days (weekday_of d)))
    (periodsAround zone ?cm))"
  have one: "sorted_wrt window_before (List.map_filter (\<lambda>i. resolve i ?cm p) (days (weekday_of d)))" for p
  proof (rule sorted_wrt_map_filter)
    show "sorted_wrt (\<lambda>a b. iv_End a < iv_Start b) (days (weekday_of d))"
      using assms by (simp add: day_ok_def)
  next
    fix i j w w' assume "iv_End i < iv_Start j" "resolve i ?cm p = Some w" "resolve j ?cm p = Some w'"
    then show "window_before w w'"
      unfolding window_before_def using resolve_contains [of i ?cm p] resolve_contains [of j ?cm p]
      by (smt (verit) option.inject)
  qed
  have sorted: "sorted_wrt window_before ?ws"
    unfolding periodsAround_def
    by (rule sorted_wrt_concat_map [OF periodsAround_sorted one])
       (auto simp: window_before_def map_filter_def, meson resolve_in_period)
  moreover have "\<forall>w \<in> set ?ws. w_start w < w_end w"
    by (auto simp: map_filter_def dest: resolve_Some(1))
  ultimately have "sorted_wrt (\<lambda>a b. w_start a \<le> w_start b) ?ws"
    by (elim sorted_wrt_mono_rel [rotated]) (force simp: window_before_iff)
  then have "sort_key w_start ?ws = ?ws"
    by (intro sort_key_id_if_sorted) (simp add: sorted_wrt_map)
  with sorted show ?thesis by (simp add: windowsOn_def Let_def)
qed

end

context dated_zone
begin

lemma upcomingWindows_ordered:
  assumes ok: "days_ok days"
  shows "windows_ordered (upcomingWindows days zone t)"
proof -
  note intervals = days_ok_interval [OF ok]
  have later: "window_before w w'" if "d < d'" "w \<in> set (windowsOn days zone d)"
    "w' \<in> set (windowsOn days zone d')" for d d' w w'
    unfolding window_before_def
  proof (intro allI impI)
    fix u u' assume "window_contains w u" "window_contains w' u'"
    then have "local_day zone u = d" "local_day zone u' = d'"
      using that windowsOn_local_day intervals by blast+
    with \<open>d < d'\<close> show "u < u'" using dated [of u' u] by force
  qed
  have "sorted_wrt window_before (upcomingWindows days zone t)"
    unfolding upcomingWindows_def
  proof (rule sorted_wrt_concat_map [where P = "(<)"])
    show "sorted_wrt (<) [0..<searchHorizonDays]" by (rule sorted_wrt_upt)
    show "sorted_wrt window_before (windowsOn days zone (local_day zone t + int k))" for k
      using ok by (intro windowsOn_sorted) (simp add: days_ok_def)
  qed (rule later [rotated], auto)
  then have "sorted_wrt (\<lambda>a b. w_end a \<le> w_start b) (upcomingWindows days zone t)"
    by (rule sorted_wrt_mono_rel [rotated]) (simp add: window_before_iff upcomingWindows_nonempty)
  then show ?thesis by (auto simp: windows_ordered_def list_all_iff dest: upcomingWindows_nonempty)
qed

lemma Evaluate_transition:
  assumes ok: "days_ok days" and t: "0 \<le> t"
  defines "n \<equiv> ev_NextTransition
    (Evaluate_loop t outside_evaluation time_zero (upcomingWindows days zone t))"
    and "horizon \<equiv> \<lambda>u. local_day zone u < local_day zone t + int searchHorizonDays"
  shows "n = 0 \<Longrightarrow> t \<le> u \<Longrightarrow> horizon u \<Longrightarrow> \<not> at_work days zone u"
    and "n \<noteq> 0 \<Longrightarrow> t < n"
    and "n \<noteq> 0 \<Longrightarrow> t \<le> u \<Longrightarrow> u < n \<Longrightarrow> at_work days zone u = at_work days zone t"
    and "n \<noteq> 0 \<Longrightarrow> horizon n \<Longrightarrow> at_work days zone n \<noteq> at_work days zone t"
proof -
  let ?ws = "upcomingWindows days zone t"
  note intervals = days_ok_interval [OF ok]
  have cov: "covered ?ws v \<longleftrightarrow> local_day zone t \<le> local_day zone v \<and> horizon v \<and> at_work days zone v" for v
    unfolding covered_def horizon_def by (rule upcomingWindows_contains) (rule intervals)
  have cov': "covered ?ws v = at_work days zone v" if "t \<le> v" "horizon v" for v
    using cov dated that by blast
  have ordered: "windows_ordered ?ws" by (rule upcomingWindows_ordered) (rule ok)
  note spec = Evaluate_loop_transition [OF t ordered, folded n_def]
  show "\<not> at_work days zone u" if "n = 0" "t \<le> u" "horizon u"
    using spec that cov' by simp
  assume n: "n \<noteq> 0"
  then have first: "first_change (covered ?ws) t n" and edge: "\<exists>w \<in> set ?ws. n = w_start w \<or> n = w_end w"
    using spec by simp_all
  show tn: "t < n" using first by (simp add: first_change_def)
  have here: "horizon t" by (simp add: horizon_def)
  from edge have "covered ?ws n \<or> covered ?ws (n - 1)"
  proof (elim bexE disjE)
    fix w assume w: "w \<in> set ?ws"
    note ne = upcomingWindows_nonempty [OF w]
    have "n = w_start w \<Longrightarrow> window_contains w n" "n = w_end w \<Longrightarrow> window_contains w (n - 1)"
      using ne by (simp_all add: window_contains_def)
    then show "n = w_start w \<Longrightarrow> ?thesis" "n = w_end w \<Longrightarrow> ?thesis"
      using w unfolding covered_def by blast+
  qed
  then have "horizon n \<or> horizon (n - 1)" using cov by blast
  then have "horizon (n - 1)" using dated [of "n - 1" n] unfolding horizon_def by linarith
  then have before: "horizon v" if "v < n" for v
    using that dated [of v "n - 1"] unfolding horizon_def by linarith
  show "at_work days zone u = at_work days zone t" if "t \<le> u" "u < n"
  proof -
    have "covered ?ws u = covered ?ws t" using first that unfolding first_change_def by blast
    then show ?thesis
      using cov' [OF that(1) before [OF that(2)]] cov' [OF order_refl here] by argo
  qed
  show "at_work days zone n \<noteq> at_work days zone t" if "horizon n"
  proof -
    have "covered ?ws n \<noteq> covered ?ws t" using first unfolding first_change_def by blast
    then show ?thesis
      using cov' [OF less_imp_le [OF tn] that] cov' [OF order_refl here] by argo
  qed
qed

end

section \<open>Transition lists are time zones\<close>

lemma tx_lookup_period:
  assumes "tx_spaced tx" and "list_all (\<lambda>(w, off'). 0 < w) tx" and "s = 0 \<or> s \<le> u"
  shows "in_period (tx_lookup s off tx u) u"
  using assms by (induction s off tx u rule: tx_lookup.induct) (auto simp: in_period_def IsZero_def elim: tx_spaced.elims)

lemma tx_lookup_start:
  assumes "tx_spaced ((s, x) # tx)"
  shows "s \<le> zp_start (tx_lookup s off tx u)"
  using assms
proof (induction s off tx u arbitrary: x rule: tx_lookup.induct)
  case (2 start off "when" off' tx u)
  then have "u < when \<or> when \<le> zp_start (tx_lookup when off' tx u)" by auto
  with 2 show ?case by auto
qed simp

lemma tx_spaced_tail: "tx_spaced (a # tx) \<Longrightarrow> tx_spaced tx"
  by (cases "a # tx" rule: tx_spaced.cases) auto

lemma tx_lookup_stable:
  assumes "tx_spaced tx" and "list_all (\<lambda>(w, off'). 0 < w) tx"
    and "in_period (tx_lookup s off tx u) v"
  shows "tx_lookup s off tx v = tx_lookup s off tx u"
  using assms
proof (induction s off tx u rule: tx_lookup.induct)
  case (2 start off "when" off' tx u)
  show ?case
  proof (cases "u < when")
    case True
    with 2 show ?thesis by (auto simp: in_period_def IsZero_def)
  next
    case False
    have "when \<le> zp_start (tx_lookup when off' tx u)"
      using 2 by (intro tx_lookup_start) auto
    with 2 False have "when \<le> v" by (auto simp: in_period_def IsZero_def)
    with 2 False show ?thesis by (auto dest: tx_spaced_tail)
  qed
qed simp

lemma tx_lookup_offset:
  assumes "\<bar>off\<bar> \<le> b" and "list_all (\<lambda>(w, off'). \<bar>off'\<bar> \<le> b) tx"
  shows "\<bar>zp_offset (tx_lookup s off tx u)\<bar> \<le> b"
  using assms by (induction s off tx u rule: tx_lookup.induct) auto

text \<open>At the transition itself the next period begins, and it ends no sooner than the next one.\<close>

lemma tx_lookup_at:
  assumes "tx_spaced ((w, x) # tx)"
  shows "zp_offset (tx_lookup s off tx w) = off \<and>
    (IsZero (zp_end (tx_lookup s off tx w)) \<or> w + 12 * duration_hour \<le> zp_end (tx_lookup s off tx w))"
  using assms by (cases tx) (auto simp: IsZero_def)

lemma tx_lookup_sparse:
  assumes "tx_spaced tx" and "list_all (\<lambda>(w, off'). 0 < w) tx"
    and "\<not> IsZero (zp_end (tx_lookup s off tx u))"
  defines "e \<equiv> zp_end (tx_lookup s off tx u)"
  shows "IsZero (zp_end (tx_lookup s off tx e)) \<or> e + 12 * duration_hour \<le> zp_end (tx_lookup s off tx e)"
  using assms(1-3) unfolding e_def
proof (induction s off tx u rule: tx_lookup.induct)
  case (2 start off "when" off' tx u)
  show ?case
  proof (cases "u < when")
    case True
    then show ?thesis using tx_lookup_at [OF 2(2), of "when" off'] by simp
  next
    case False
    let ?p = "tx_lookup when off' tx u"
    have "in_period ?p u" using 2 False by (intro tx_lookup_period) (auto dest: tx_spaced_tail)
    with 2 False have "when < zp_end ?p" by (auto simp: in_period_def)
    with False 2 show ?thesis by (auto dest: tx_spaced_tail)
  qed
qed (simp add: IsZero_def)

text \<open>No transition of the list returns to a date the local clock has left.\<close>

fun tx_dated :: "go_duration \<Rightarrow> (go_time \<times> go_duration) list \<Rightarrow> bool" where
  "tx_dated off [] = True"
| "tx_dated off ((w, off') # tx) \<longleftrightarrow>
     (w - 1 + off) div duration_day \<le> (w + off') div duration_day \<and> tx_dated off' tx"

lemma tx_lookup_dated:
  assumes "tx_spaced tx" and "tx_dated off tx" and "u \<le> v"
  shows "local_day (tx_lookup s off tx) u \<le> local_day (tx_lookup s off tx) v"
  using assms
proof (induction tx arbitrary: s off u)
  case Nil
  then show ?case by (simp add: local_day_def zdiv_mono1)
next
  case (Cons a tx)
  obtain w off' where a: "a = (w, off')" by fastforce
  have tail: "tx_spaced tx" using Cons.prems(1) by (rule tx_spaced_tail)
  consider "v < w" | "w \<le> u" | "u < w" "w \<le> v" by linarith
  then show ?case
  proof cases
    case 1
    with Cons.prems show ?thesis by (simp add: a local_day_def zdiv_mono1)
  next
    case 2
    with Cons.prems Cons.IH [OF tail, of off' u w] show ?thesis by (simp add: a local_day_def)
  next
    case 3
    have "(u + off) div duration_day \<le> (w - 1 + off) div duration_day"
      using 3 by (simp add: zdiv_mono1)
    also have "\<dots> \<le> (w + off') div duration_day" using Cons.prems by (simp add: a)
    also have "\<dots> = local_day (tx_lookup w off' tx) w"
      using tx_lookup_at [of w off' tx w off'] Cons.prems by (simp add: a local_day_def)
    also have "\<dots> \<le> local_day (tx_lookup w off' tx) v"
      using Cons.prems 3 by (intro Cons.IH [OF tail]) (auto simp: a)
    finally show ?thesis using 3 by (simp add: a local_day_def)
  qed
qed

locale tx_zone =
  fixes off :: go_duration and tx :: "(go_time \<times> go_duration) list"
  assumes wf: "tx_wf off tx"

sublocale tx_zone \<subseteq> tz: time_zone "tx_lookup time_zero off tx"
proof
  have sp: "tx_spaced tx" and pos: "list_all (\<lambda>(w, off'). 0 < w) tx"
    and b: "\<bar>off\<bar> \<le> duration_day" "list_all (\<lambda>(w, off'). \<bar>off'\<bar> \<le> duration_day) tx"
    using wf by (auto simp: tx_wf_def list_all_iff)
  show "in_period (tx_lookup time_zero off tx u) u" for u
    using sp pos by (intro tx_lookup_period) auto
  show "tx_lookup time_zero off tx v = tx_lookup time_zero off tx u"
    if "in_period (tx_lookup time_zero off tx u) v" for u v
    using sp pos that by (rule tx_lookup_stable)
  show "\<bar>zp_offset (tx_lookup time_zero off tx u)\<bar> \<le> zoneProbeMargin" for u
    using tx_lookup_offset [OF b] by simp
  show "IsZero (zp_end (tx_lookup time_zero off tx (zp_end (tx_lookup time_zero off tx u)))) \<or>
      zp_end (tx_lookup time_zero off tx u) + 12 * duration_hour
      \<le> zp_end (tx_lookup time_zero off tx (zp_end (tx_lookup time_zero off tx u)))"
    if "\<not> IsZero (zp_end (tx_lookup time_zero off tx u))" for u
    using sp pos that by (rule tx_lookup_sparse)
qed

locale tx_dated_zone = tx_zone +
  assumes tx_dated: "tx_dated off tx"

sublocale tx_dated_zone \<subseteq> tdz: dated_zone "tx_lookup time_zero off tx"
proof
  show "local_day (tx_lookup time_zero off tx) u \<le> local_day (tx_lookup time_zero off tx) v" if "u \<le> v" for u v
    using wf tx_dated that by (auto simp: tx_wf_def intro: tx_lookup_dated)
qed

text \<open>
  Two zones of the database, by their last transitions. America/Sao_Paulo left and re-entered
  UTC-3 at midnight; America/St_Johns turned its clock back at 00:01, to 23:01 of a date
  already over.
\<close>

definition Sao_Paulo_tx :: "(go_time \<times> go_duration) list" where
  "Sao_Paulo_tx =
     [(63676897200000000000, - 2 * duration_hour), (63685965600000000000, - 3 * duration_hour)]"

definition Sao_Paulo :: Location where
  "Sao_Paulo = tx_location ''America/Sao_Paulo'' (- 3 * duration_hour) Sao_Paulo_tx"

definition St_Johns :: Location where
  "St_Johns = tx_location ''America/St_Johns'' (- 210 * duration_minute)
     [(63404134260000000000, - 150 * duration_minute), (63424693860000000000, - 210 * duration_minute)]"

interpretation sao_paulo: tx_dated_zone "- 3 * duration_hour" Sao_Paulo_tx
  by unfold_locales (simp_all add: tx_wf_def Sao_Paulo_tx_def)

lemma time_zone_Sao_Paulo: "time_zone (loc_zone Sao_Paulo)"
  unfolding Sao_Paulo_def tx_location_def Location.simps by (rule sao_paulo.tz.time_zone_axioms)

lemma dated_zone_Sao_Paulo: "dated_zone (loc_zone Sao_Paulo)"
  unfolding Sao_Paulo_def tx_location_def Location.simps by (rule sao_paulo.tdz.dated_zone_axioms)

section \<open>Properties\<close>

lemma weekday_of_less: "weekday_of d < 7"
  by (simp add: weekday_of_def)

lemma New_days:
  assumes "New load src tz days = Inr s"
  shows "days_ok (sch_days s)" and "wd < 7 \<Longrightarrow> set (sch_days s wd) = set (days wd)"
  using assms by (auto simp: New_Inr_iff normalized_days_def days_ok_def day_ok_def)

lemma New_at_work:
  assumes "New load src tz days = Inr s"
  shows "at_work (sch_days s) zone t = at_work days zone t"
  using New_days(2) [OF assms weekday_of_less] by (simp add: at_work_def)

lemma New_location:
  assumes "New load src tz days = Inr s" and "load (go_trim_space tz) = Some l"
  shows "Schedule_Evaluate s t =
    Evaluate_loop t outside_evaluation time_zero (upcomingWindows (sch_days s) (loc_zone l) t)"
  using assms by (auto simp: New_Inr_iff loadLocation_Inr_iff Schedule_Evaluate_def)

text \<open>
  Claim C15. An instant evaluated against a schedule that \<open>New\<close> accepted is reported within
  working hours exactly when the clock of the schedule's zone, read at that instant, stands
  inside an interval given for that local weekday, and the reported interval is then such an
  interval, whatever offsets the zone holds around the date.
\<close>

theorem Evaluate_reads_local_clock:
  assumes "New load src tz days = Inr s" and "load (go_trim_space tz) = Some l"
    and "time_zone (loc_zone l)" and "0 \<le> t"
  shows "ev_State (Schedule_Evaluate s t) =
      (if at_work days (loc_zone l) t then StateWithinWorkHours else StateOutsideWorkHours) \<and>
    (if at_work days (loc_zone l) t
     then ev_Interval (Schedule_Evaluate s t) \<in> set (days (weekday_of (local_day (loc_zone l) t))) \<and>
          clock_in (loc_zone l) t (ev_Interval (Schedule_Evaluate s t))
     else ev_Interval (Schedule_Evaluate s t) = Interval_zero)"
  using time_zone.Evaluate_state [OF assms(3) New_days(1) [OF assms(1)] assms(4)]
  unfolding New_location [OF assms(1,2)] New_at_work [OF assms(1)]
    New_days(2) [OF assms(1) weekday_of_less] by simp

text \<open>
  Where the zone never returns to a date it has left, \<open>NextTransition\<close> is exactly
  the first change of state: the state is constant from the evaluated instant up to it and
  differs at it, if it falls within the fifteen dates searched; and when it is zero nobody is
  at work at any later instant of those dates.
\<close>

theorem Evaluate_NextTransition:
  assumes "New load src tz days = Inr s" and "load (go_trim_space tz) = Some l"
    and "dated_zone (loc_zone l)" and "0 \<le> t"
  shows "let n = ev_NextTransition (Schedule_Evaluate s t); work = at_work days (loc_zone l);
             horizon = (\<lambda>u. local_day (loc_zone l) u < local_day (loc_zone l) t + int searchHorizonDays)
         in if IsZero n then \<forall>u. t \<le> u \<and> horizon u \<longrightarrow> \<not> work u
            else t < n \<and> (\<forall>u. t \<le> u \<and> u < n \<longrightarrow> work u = work t) \<and> (horizon n \<longrightarrow> work n \<noteq> work t)"
proof -
  note spec = dated_zone.Evaluate_transition [OF assms(3) New_days(1) [OF assms(1)] assms(4),
      unfolded New_at_work [OF assms(1)], folded New_location [OF assms(1,2)]]
  show ?thesis unfolding Let_def IsZero_def using spec by presburger
qed

text \<open>
  \<open>New\<close> accepts exactly a known source, a zone the database knows that is neither
  empty nor the server's own, and days of at most 720 intervals which, taken in order of
  their starts, lie within the day and leave a gap between two neighbours; it stores each
  day's intervals sorted and unchanged otherwise.
\<close>

theorem New_accepts:
  "New load src tz days = Inr s \<longleftrightarrow>
     Source_Valid src \<and> go_trim_space tz \<noteq> '''' \<and> go_trim_space tz \<noteq> ''Local'' \<and>
     (case load (go_trim_space tz) of
        None \<Rightarrow> False
      | Some l \<Rightarrow> s = \<lparr>sch_source = src, sch_location = Some l, sch_days = normalized_days days\<rparr>) \<and>
     list_all (\<lambda>wd. day_ok (sort_key iv_Start (days wd)) \<and> length (days wd) \<le> maxIntervalsPerDay) [0..<7]"
  by (auto simp: New_Inr_iff loadLocation_Inr_iff list_all_iff split: option.splits simp del: upt_Suc)

section \<open>Concrete schedules\<close>

definition zone_db :: "string \<rightharpoonup> Location" where
  "zone_db = map_of [(''America/Sao_Paulo'', Sao_Paulo), (''America/St_Johns'', St_Johns)]"

text \<open>Wednesdays from nine to noon and from one to six.\<close>

definition wednesdays :: Days where
  "wednesdays = (\<lambda>_. [])(3 :=
     [\<lparr>iv_Start = At 13 0, iv_End = At 18 0\<rparr>, \<lparr>iv_Start = At 9 0, iv_End = At 12 0\<rparr>])"

lemma wednesdays_accepted:
  "New zone_db SourceOrganization '' America/Sao_Paulo '' wednesdays =
     Inr \<lparr>sch_source = SourceOrganization, sch_location = Some Sao_Paulo,
          sch_days = normalized_days wednesdays\<rparr>"
proof -
  have "go_trim_space '' America/Sao_Paulo '' = ''America/Sao_Paulo''" by code_simp
  moreover have "\<forall>wd<7. day_ok (sort_key iv_Start (wednesdays wd)) \<and>
      length (wednesdays wd) \<le> maxIntervalsPerDay"
    by (auto simp: wednesdays_def day_ok_def interval_ok_def At_def)
  ultimately show ?thesis
    by (simp add: New_Inr_iff loadLocation_Inr_iff zone_db_def Source_Valid_def sources_def)
qed

lemma Sao_Paulo_trim: "zone_db (go_trim_space '' America/Sao_Paulo '') = Some Sao_Paulo"
proof -
  have "go_trim_space '' America/Sao_Paulo '' = ''America/Sao_Paulo''" by code_simp
  then show ?thesis by (simp add: zone_db_def)
qed

text \<open>Noon UTC of Wednesday, March 4 of 2026 is nine o'clock in Sao Paulo.\<close>

theorem Evaluate_reads_local_clock_witness:
  "ev_State (Schedule_Evaluate \<lparr>sch_source = SourceOrganization, sch_location = Some Sao_Paulo,
      sch_days = normalized_days wednesdays\<rparr> 63908222400000000000) = StateWithinWorkHours"
proof -
  have "at_work wednesdays (loc_zone Sao_Paulo) 63908222400000000000"
    by code_simp
  then show ?thesis
    using Evaluate_reads_local_clock [OF wednesdays_accepted Sao_Paulo_trim time_zone_Sao_Paulo, of 63908222400000000000]
    by simp
qed

theorem Evaluate_NextTransition_witness:
  "at_work wednesdays (loc_zone Sao_Paulo)
     (ev_NextTransition (Schedule_Evaluate \<lparr>sch_source = SourceOrganization, sch_location = Some Sao_Paulo,
      sch_days = normalized_days wednesdays\<rparr> 63908222400000000000)) = False"
proof -
  have work: "at_work wednesdays (loc_zone Sao_Paulo) 63908222400000000000" by code_simp
  let ?n = "ev_NextTransition (Schedule_Evaluate \<lparr>sch_source = SourceOrganization, sch_location = Some Sao_Paulo,
      sch_days = normalized_days wednesdays\<rparr> 63908222400000000000)"
  have n: "?n = 63908233200000000000" by code_simp
  have "local_day (loc_zone Sao_Paulo) 63908233200000000000 <
      local_day (loc_zone Sao_Paulo) 63908222400000000000 + int searchHorizonDays" by code_simp
  then show ?thesis
    using Evaluate_NextTransition [OF wednesdays_accepted Sao_Paulo_trim dated_zone_Sao_Paulo, of 63908222400000000000]
      work n by (simp add: Let_def IsZero_def)
qed

definition around_the_clock :: Schedule where
  "around_the_clock = \<lparr>sch_source = SourceOrganization, sch_location = Some Sao_Paulo,
     sch_days = (\<lambda>wd. if wd < 7 then [\<lparr>iv_Start = 0, iv_End = MinutesPerDay\<rparr>] else [])\<rparr>"

definition st_johns_weekend :: Schedule where
  "st_johns_weekend = \<lparr>sch_source = SourceOrganization, sch_location = Some St_Johns,
     sch_days = (\<lambda>_. [])(6 := [\<lparr>iv_Start = At 23 15, iv_End = At 23 30\<rparr>],
                         0 := [\<lparr>iv_Start = At 9 0, iv_End = At 17 0\<rparr>])\<rparr>"

text \<open>
  A schedule of every hour of every day has no change of state, yet an evaluation
  reports one: the end of the fifteenth date searched, where a further evaluation answers the
  same.
\<close>

theorem Evaluate_around_the_clock:
  "let e = Schedule_Evaluate around_the_clock 63908222400000000000;
       later = Schedule_Evaluate around_the_clock (ev_NextTransition e)
   in \<not> IsZero (ev_NextTransition e) \<and> ev_State e = StateWithinWorkHours \<and> ev_State later = ev_State e"
  by code_simp

text \<open>
  Where a zone turns its clock back across midnight to a date already over, the
  windows of that date that are lived again are not searched: thirty seconds before
  America/St_Johns left daylight time in 2010, on Sunday at 00:00:30, the next transition
  reported is Sunday at nine, while a quarter of an hour later it is Saturday 23:15 again and
  an evaluation answers within working hours.
\<close>

theorem Evaluate_skips_relived_date:
  "let t = 63424693830000000000; u = 63424694700000000000;
       e = Schedule_Evaluate st_johns_weekend t
   in t < u \<and> u < ev_NextTransition e \<and> ev_State e = StateOutsideWorkHours \<and>
      ev_State (Schedule_Evaluate st_johns_weekend u) = StateWithinWorkHours"
  by code_simp

end
