(* ===== verification/Notification_Event.thy ===== *)
theory Notification_Event
  imports Go_Prelude
begin

text \<open>
  The notification event contract, \<open>libs/go/platform/notificationevent\<close>: the closed
  vocabularies of an outbox row, the delivery state machine, the dedupe key of an event and
  the agreement between a state and its suppression reason.
\<close>

section \<open>Vocabularies\<close>

abbreviation EventTypeDirectMessage :: string where "EventTypeDirectMessage \<equiv> ''direct_message''"
abbreviation EventTypeMention :: string where "EventTypeMention \<equiv> ''mention''"
abbreviation EventTypeReply :: string where "EventTypeReply \<equiv> ''reply''"
abbreviation EventTypeChannelMessage :: string where "EventTypeChannelMessage \<equiv> ''channel_message''"
abbreviation EventTypeReaction :: string where "EventTypeReaction \<equiv> ''reaction''"
abbreviation EventTypeCall :: string where "EventTypeCall \<equiv> ''call''"
abbreviation EventTypeUrgentReminder :: string where "EventTypeUrgentReminder \<equiv> ''urgent_reminder''"

definition eventTypes :: "string list" where
  "eventTypes = [EventTypeDirectMessage, EventTypeMention, EventTypeReply, EventTypeChannelMessage,
     EventTypeReaction, EventTypeCall, EventTypeUrgentReminder]"

definition EventType_Valid :: "string \<Rightarrow> bool" where
  "EventType_Valid e \<longleftrightarrow> e \<in> set eventTypes"

abbreviation SourceTypeMessage :: string where "SourceTypeMessage \<equiv> ''message''"
abbreviation SourceTypeReaction :: string where "SourceTypeReaction \<equiv> ''reaction''"
abbreviation SourceTypeCall :: string where "SourceTypeCall \<equiv> ''call''"

definition sourceTypes :: "string list" where
  "sourceTypes = [SourceTypeMessage, SourceTypeReaction, SourceTypeCall]"

definition SourceType_Valid :: "string \<Rightarrow> bool" where
  "SourceType_Valid s \<longleftrightarrow> s \<in> set sourceTypes"

abbreviation PriorityHigh :: string where "PriorityHigh \<equiv> ''high''"
abbreviation PriorityNormal :: string where "PriorityNormal \<equiv> ''normal''"
abbreviation PriorityLow :: string where "PriorityLow \<equiv> ''low''"

abbreviation OriginLive :: string where "OriginLive \<equiv> ''live''"
abbreviation OriginImport :: string where "OriginImport \<equiv> ''import''"
abbreviation OriginReplay :: string where "OriginReplay \<equiv> ''replay''"
abbreviation OriginResync :: string where "OriginResync \<equiv> ''resync''"

definition origins :: "string list" where
  "origins = [OriginLive, OriginImport, OriginReplay, OriginResync]"

definition Origin_Valid :: "string \<Rightarrow> bool" where
  "Origin_Valid orig \<longleftrightarrow> orig \<in> set origins"

definition Origin_IsHistorical :: "string \<Rightarrow> bool" where
  "Origin_IsHistorical orig \<longleftrightarrow> Origin_Valid orig \<and> orig \<noteq> OriginLive"

section \<open>The delivery state machine\<close>

abbreviation StatePending :: string where "StatePending \<equiv> ''pending''"
abbreviation StateEligible :: string where "StateEligible \<equiv> ''eligible''"
abbreviation StateSuppressed :: string where "StateSuppressed \<equiv> ''suppressed''"
abbreviation StateProcessing :: string where "StateProcessing \<equiv> ''processing''"
abbreviation StateSent :: string where "StateSent \<equiv> ''sent''"
abbreviation StateRetrying :: string where "StateRetrying \<equiv> ''retrying''"
abbreviation StateFailed :: string where "StateFailed \<equiv> ''failed''"

definition stateTransitions :: "string \<rightharpoonup> string list" where
  "stateTransitions = map_of
     [(StatePending, [StateEligible, StateSuppressed]),
      (StateEligible, [StateProcessing, StateSuppressed]),
      (StateProcessing, [StateSent, StateRetrying, StateFailed]),
      (StateRetrying, [StateProcessing, StateFailed]),
      (StateSuppressed, []),
      (StateSent, []),
      (StateFailed, [])]"

definition State_Valid :: "string \<Rightarrow> bool" where
  "State_Valid s \<longleftrightarrow> stateTransitions s \<noteq> None"

definition State_IsTerminal :: "string \<Rightarrow> bool" where
  "State_IsTerminal s = (case stateTransitions s of None \<Rightarrow> False | Some targets \<Rightarrow> targets = [])"

definition State_CanTransitionTo :: "string \<Rightarrow> string \<Rightarrow> bool" where
  "State_CanTransitionTo s nxt =
     (if \<not> State_Valid nxt then False
      else case stateTransitions s of None \<Rightarrow> False | Some allowed \<Rightarrow> nxt \<in> set allowed)"

section \<open>The dedupe identity\<close>

record Identity =
  id_WorkspaceID :: string
  id_RecipientID :: string
  id_EventType :: string
  id_SourceType :: string
  id_SourceID :: string
  id_Discriminator :: string

datatype identity_detail =
    WorkspaceIDRequired
  | RecipientIDRequired
  | UnknownEventType string
  | UnknownSourceType string
  | SegmentRequired string
  | SegmentTooLong string
  | SegmentReserved string

datatype event_error =
    ErrInvalidIdentity identity_detail
  | ErrSuppressedReasonMismatch string string
  | ErrSuppressedReasonTooLong

abbreviation dedupeSegmentMaxLen :: nat where "dedupeSegmentMaxLen \<equiv> 64"

text \<open>
  The source tests runes; every rune it rejects is a one-byte ASCII rune and no byte of a
  longer encoding is one of them, so testing the bytes is the same test.
\<close>

definition isUnsafeSegmentRune :: "char \<Rightarrow> bool" where
  "isUnsafeSegmentRune r \<longleftrightarrow> r = CHR '':'' \<or> (of_char r :: nat) \<le> 32 \<or> (of_char r :: nat) = 0x7f"

definition validateScope :: "Identity \<Rightarrow> event_error + unit" where
  "validateScope i =
     (if id_WorkspaceID i = '''' then Inl (ErrInvalidIdentity WorkspaceIDRequired)
      else if id_RecipientID i = '''' then Inl (ErrInvalidIdentity RecipientIDRequired)
      else Inr ())"

definition validateSegment :: "string \<Rightarrow> string \<Rightarrow> bool \<Rightarrow> event_error + unit" where
  "validateSegment name v optional =
     (if v = '''' then
        (if optional then Inr () else Inl (ErrInvalidIdentity (SegmentRequired name)))
      else if length v > dedupeSegmentMaxLen then Inl (ErrInvalidIdentity (SegmentTooLong name))
      else if list_ex isUnsafeSegmentRune v then Inl (ErrInvalidIdentity (SegmentReserved name))
      else Inr ())"

definition DedupeKey :: "Identity \<Rightarrow> event_error + string" where
  "DedupeKey i =
     bind_err (validateScope i) (\<lambda>_.
     if \<not> EventType_Valid (id_EventType i)
       then Inl (ErrInvalidIdentity (UnknownEventType (id_EventType i)))
     else if \<not> SourceType_Valid (id_SourceType i)
       then Inl (ErrInvalidIdentity (UnknownSourceType (id_SourceType i)))
     else
       bind_err (validateSegment ''source id'' (id_SourceID i) False) (\<lambda>_.
       bind_err (validateSegment ''discriminator'' (id_Discriminator i) True) (\<lambda>_.
         let key = id_SourceType i @ '':'' @ id_SourceID i @ '':'' @ id_EventType i
         in if id_Discriminator i = '''' then Inr key
            else Inr (key @ '':'' @ id_Discriminator i))))"

section \<open>Reminders and suppression reasons\<close>

abbreviation UrgentReminderInterval :: go_duration where
  "UrgentReminderInterval \<equiv> 5 * duration_minute"

abbreviation MaxUrgentReminders :: nat where "MaxUrgentReminders \<equiv> 12"

abbreviation SuppressedReasonMaxLen :: nat where "SuppressedReasonMaxLen \<equiv> 200"

definition ValidateSuppressedReason :: "string \<Rightarrow> string \<Rightarrow> event_error + unit" where
  "ValidateSuppressedReason state reason =
     (if (state = StateSuppressed) \<noteq> (reason \<noteq> '''')
        then Inl (ErrSuppressedReasonMismatch state reason)
      else if length reason > SuppressedReasonMaxLen then Inl ErrSuppressedReasonTooLong
      else Inr ())"

section \<open>Lemmas: the state machine\<close>

lemma stateTransitions_eq:
  "stateTransitions s =
     (if s = StatePending then Some [StateEligible, StateSuppressed]
      else if s = StateEligible then Some [StateProcessing, StateSuppressed]
      else if s = StateProcessing then Some [StateSent, StateRetrying, StateFailed]
      else if s = StateRetrying then Some [StateProcessing, StateFailed]
      else if s = StateSuppressed \<or> s = StateSent \<or> s = StateFailed then Some []
      else None)"
  by (simp add: stateTransitions_def)

lemma State_Valid_iff:
  "State_Valid s \<longleftrightarrow> s \<in> {StatePending, StateEligible, StateProcessing, StateRetrying,
     StateSuppressed, StateSent, StateFailed}"
  by (simp add: State_Valid_def stateTransitions_eq)

lemma State_CanTransitionTo_iff:
  "State_CanTransitionTo s t \<longleftrightarrow>
     (if s = StatePending then t = StateEligible \<or> t = StateSuppressed
      else if s = StateEligible then t = StateProcessing \<or> t = StateSuppressed
      else if s = StateProcessing then t = StateSent \<or> t = StateRetrying \<or> t = StateFailed
      else if s = StateRetrying then t = StateProcessing \<or> t = StateFailed
      else False)"
  by (auto simp: State_CanTransitionTo_def State_Valid_iff stateTransitions_eq)

lemma State_IsTerminal_iff:
  "State_IsTerminal s \<longleftrightarrow> s = StateSuppressed \<or> s = StateSent \<or> s = StateFailed"
  by (simp add: State_IsTerminal_def stateTransitions_eq)

lemma terminal_no_step: "State_IsTerminal s \<Longrightarrow> \<not> State_CanTransitionTo s t"
  by (auto simp: State_IsTerminal_iff State_CanTransitionTo_iff)

text \<open>A lifecycle is a list of states in which each is a permitted step from the one before.\<close>

definition lifecycle :: "string list \<Rightarrow> bool" where
  "lifecycle ss \<longleftrightarrow> successively State_CanTransitionTo ss"

lemma lifecycle_Cons:
  "lifecycle (s # ss) \<longleftrightarrow> ss = [] \<or> (State_CanTransitionTo s (hd ss) \<and> lifecycle ss)"
  by (cases ss) (auto simp: lifecycle_def)

lemma lifecycle_terminal_last:
  "lifecycle (s # ss) \<Longrightarrow> State_IsTerminal s \<Longrightarrow> ss = []"
  using terminal_no_step by (auto simp: lifecycle_Cons)

lemma lifecycle_append:
  "lifecycle (xs @ ys) \<Longrightarrow> lifecycle ys"
  by (simp add: lifecycle_def successively_append_iff)

text \<open>Once a worker has claimed an event, the states it can still reach.\<close>

lemma lifecycle_claimed:
  "lifecycle (s # ss) \<Longrightarrow> s \<in> {StateProcessing, StateRetrying} \<Longrightarrow>
     set ss \<subseteq> {StateProcessing, StateRetrying, StateSent, StateFailed}"
proof (induction ss arbitrary: s)
  case (Cons t ss)
  then have "State_CanTransitionTo s t" and run: "lifecycle (t # ss)"
    by (auto simp: lifecycle_Cons)
  with Cons.prems(2) consider (live) "t \<in> {StateProcessing, StateRetrying}"
    | (finished) "t \<in> {StateSent, StateFailed}"
    by (auto simp: State_CanTransitionTo_iff)
  then show ?case
  proof cases
    case live
    with Cons.IH [OF run live] show ?thesis by auto
  next
    case finished
    with lifecycle_terminal_last [OF run] show ?thesis by (auto simp: State_IsTerminal_iff)
  qed
qed simp

section \<open>Lemmas: the dedupe key\<close>

lemma validateSegment_ok:
  "validateSegment name v optional = Inr () \<Longrightarrow> CHR '':'' \<notin> set v \<and> (v = '''' \<longrightarrow> optional)"
  by (auto simp: validateSegment_def isUnsafeSegmentRune_def list_ex_iff split: if_splits)

lemma EventType_Valid_no_colon: "EventType_Valid e \<Longrightarrow> CHR '':'' \<notin> set e"
  by (auto simp: EventType_Valid_def eventTypes_def)

lemma SourceType_Valid_no_colon: "SourceType_Valid s \<Longrightarrow> CHR '':'' \<notin> set s"
  by (auto simp: SourceType_Valid_def sourceTypes_def)

text \<open>The fields of an accepted identity can be read back off its key.\<close>

lemma DedupeKey_split:
  assumes "DedupeKey i = Inr k"
  shows "go_split CHR '':'' k =
    [id_SourceType i, id_SourceID i, id_EventType i] @
    (if id_Discriminator i = '''' then [] else [id_Discriminator i])"
proof -
  from assms have "EventType_Valid (id_EventType i)" and "SourceType_Valid (id_SourceType i)"
    and "validateSegment ''source id'' (id_SourceID i) False = Inr ()"
    and "validateSegment ''discriminator'' (id_Discriminator i) True = Inr ()"
    and k: "k = id_SourceType i @ '':'' @ id_SourceID i @ '':'' @ id_EventType i @
      (if id_Discriminator i = '''' then [] else '':'' @ id_Discriminator i)"
    by (auto simp: DedupeKey_def bind_err_Inr_iff Let_def split: if_splits)
  then have "CHR '':'' \<notin> set (id_SourceType i)" "CHR '':'' \<notin> set (id_SourceID i)"
    "CHR '':'' \<notin> set (id_EventType i)" "CHR '':'' \<notin> set (id_Discriminator i)"
    by (auto dest: validateSegment_ok EventType_Valid_no_colon SourceType_Valid_no_colon)
  then show ?thesis
    by (simp add: k go_split_append_sep go_split_no_sep)
qed

lemma DedupeKey_fields:
  assumes "DedupeKey i = Inr k" and "DedupeKey j = Inr k"
  shows "id_SourceType i = id_SourceType j \<and> id_SourceID i = id_SourceID j \<and>
    id_EventType i = id_EventType j \<and> id_Discriminator i = id_Discriminator j"
  using DedupeKey_split [OF assms(1)] DedupeKey_split [OF assms(2)]
  by (auto split: if_splits)

section \<open>Properties\<close>

text \<open>
  Within one workspace and recipient a dedupe key belongs to one event: no source
  id and no discriminator can be shaped to produce the key of another, and splitting the key
  at its colons gives the identity's fields back.
\<close>

theorem DedupeKey_injective:
  assumes "DedupeKey i = Inr k" and "DedupeKey j = Inr k"
    and "id_WorkspaceID i = id_WorkspaceID j" and "id_RecipientID i = id_RecipientID j"
  shows "i = j \<and> take 3 (go_split CHR '':'' k) = [id_SourceType i, id_SourceID i, id_EventType i]"
  using DedupeKey_fields [OF assms(1,2)] DedupeKey_split [OF assms(1)] assms(3,4)
  by (auto intro: Identity.equality)

theorem DedupeKey_injective_witness:
  "take 3 (go_split CHR '':'' ''message:m1:mention:u7'') = [''message'', ''m1'', ''mention'']"
proof -
  let ?i = "\<lparr>id_WorkspaceID = ''w'', id_RecipientID = ''r'', id_EventType = ''mention'',
    id_SourceType = ''message'', id_SourceID = ''m1'', id_Discriminator = ''u7''\<rparr>"
  have "DedupeKey ?i = Inr ''message:m1:mention:u7''" by code_simp
  from DedupeKey_injective [OF this this] show ?thesis by simp
qed

text \<open>
  Whatever sequence of permitted transitions an event goes through, it meets at
  most one terminal state, which is its last; and an event a worker has claimed is never
  suppressed afterwards.
\<close>

theorem lifecycle_settles_once:
  assumes "lifecycle (xs @ s # ys)"
  shows "(State_IsTerminal s \<longrightarrow> ys = []) \<and>
    (s = StateProcessing \<longrightarrow> StateSuppressed \<notin> set ys)"
proof -
  have run: "lifecycle (s # ys)" using assms by (rule lifecycle_append)
  moreover have "set ys \<subseteq> {StateProcessing, StateRetrying, StateSent, StateFailed}"
    if "s = StateProcessing" using lifecycle_claimed [OF run] that by simp
  ultimately show ?thesis using lifecycle_terminal_last by auto
qed

theorem lifecycle_settles_once_witness:
  "StateSuppressed \<notin> set [StateRetrying, StateProcessing, StateSent]"
proof -
  have "lifecycle ([StatePending, StateEligible] @ StateProcessing # [StateRetrying, StateProcessing, StateSent])"
    by code_simp
  from lifecycle_settles_once [OF this] show ?thesis by blast
qed

end
