(* ===== verification/Notification_Policy.thy ===== *)
theory Notification_Policy
  imports Notification_Event Work_Schedule "HOL-Library.Word"
begin

text \<open>
  The delivery policy, \<open>libs/go/platform/notificationpolicy\<close>: one pure function from what
  is known of an event and its recipient to the channels that may alert them and the reasons
  for those that may not. A \<open>channelSet\<close> is the \<open>uint8\<close> of the source, an \<open>8 word\<close>, and the
  operators \<open>&\<close>, \<open>&^\<close> and \<open>|\<close> are the word operations; the lemmas relate it to a set of
  channels, over which the policy is a set difference.
\<close>

unbundle bit_operations_syntax

section \<open>Vocabulary\<close>

abbreviation Version :: int where "Version \<equiv> 3"

abbreviation ConversationDirect :: string where "ConversationDirect \<equiv> ''direct''"
abbreviation ConversationGroup :: string where "ConversationGroup \<equiv> ''group''"
abbreviation ConversationChannel :: string where "ConversationChannel \<equiv> ''channel''"

definition conversationKinds :: "string list" where
  "conversationKinds = [ConversationDirect, ConversationGroup, ConversationChannel]"

definition ConversationKind_Valid :: "string \<Rightarrow> bool" where
  "ConversationKind_Valid k \<longleftrightarrow> k \<in> set conversationKinds"

definition isDM :: "string \<Rightarrow> bool" where
  "isDM k \<longleftrightarrow> k = ConversationDirect \<or> k = ConversationGroup"

abbreviation PresenceUnknown :: string where "PresenceUnknown \<equiv> ''''"
abbreviation PresenceForeground :: string where "PresenceForeground \<equiv> ''foreground''"
abbreviation PresenceConnected :: string where "PresenceConnected \<equiv> ''connected''"
abbreviation PresenceBackground :: string where "PresenceBackground \<equiv> ''background''"
abbreviation PresenceOffline :: string where "PresenceOffline \<equiv> ''offline''"

abbreviation SoundModeAll :: string where "SoundModeAll \<equiv> ''all''"
abbreviation SoundModeOff :: string where "SoundModeOff \<equiv> ''off''"
abbreviation SoundModeMentions :: string where "SoundModeMentions \<equiv> ''mentions''"
abbreviation SoundModeMentionsAndDMs :: string where "SoundModeMentionsAndDMs \<equiv> ''mentions_and_dms''"

definition soundModes :: "string list" where
  "soundModes = [SoundModeAll, SoundModeOff, SoundModeMentions, SoundModeMentionsAndDMs]"

definition SoundMode_Valid :: "string \<Rightarrow> bool" where
  "SoundMode_Valid m \<longleftrightarrow> m \<in> set soundModes"

definition SoundMode_Effective :: "string \<Rightarrow> string" where
  "SoundMode_Effective m = (if SoundMode_Valid m then m else SoundModeAll)"

abbreviation ConversationLevelAll :: string where "ConversationLevelAll \<equiv> ''all''"
abbreviation ConversationLevelMentionsReplies :: string where
  "ConversationLevelMentionsReplies \<equiv> ''mentions_replies''"

definition conversationLevels :: "string list" where
  "conversationLevels = [ConversationLevelAll, ConversationLevelMentionsReplies]"

definition ConversationLevel_Valid :: "string \<Rightarrow> bool" where
  "ConversationLevel_Valid l \<longleftrightarrow> l \<in> set conversationLevels"

definition ConversationLevel_Effective :: "string \<Rightarrow> string" where
  "ConversationLevel_Effective l = (if ConversationLevel_Valid l then l else ConversationLevelAll)"

abbreviation PreferenceStatusResolved :: string where "PreferenceStatusResolved \<equiv> ''''"
abbreviation PreferenceStatusUnavailable :: string where
  "PreferenceStatusUnavailable \<equiv> ''unavailable''"

record Preferences =
  pf_Status :: string
  pf_Disabled :: bool
  pf_DoNotDisturb :: bool
  pf_Muted :: bool
  pf_ConversationLevel :: string
  pf_SoundMode :: string

record Context =
  cx_EventID :: string
  cx_WorkspaceID :: string
  cx_RecipientID :: string
  cx_EventType :: string
  cx_Priority :: string
  cx_Origin :: string
  cx_Conversation :: string
  cx_WorkSchedule :: string
  cx_Presence :: string
  cx_ConversationOpen :: bool
  cx_Preferences :: Preferences
  cx_WebPushAvailable :: bool
  cx_Duplicate :: bool
  cx_BurstCooldown :: bool

abbreviation ReasonOutsideWorkHours :: string where "ReasonOutsideWorkHours \<equiv> ''outside_work_hours''"
abbreviation ReasonHistoricalOrImported :: string where "ReasonHistoricalOrImported \<equiv> ''historical_or_imported''"
abbreviation ReasonSilentEventType :: string where "ReasonSilentEventType \<equiv> ''silent_event_type''"
abbreviation ReasonConversationOpen :: string where "ReasonConversationOpen \<equiv> ''conversation_open''"
abbreviation ReasonPreferencesUnavailable :: string where "ReasonPreferencesUnavailable \<equiv> ''preferences_unavailable''"
abbreviation ReasonDoNotDisturb :: string where "ReasonDoNotDisturb \<equiv> ''do_not_disturb''"
abbreviation ReasonMuted :: string where "ReasonMuted \<equiv> ''muted''"
abbreviation ReasonConversationLevel :: string where "ReasonConversationLevel \<equiv> ''conversation_level''"
abbreviation ReasonUserPreference :: string where "ReasonUserPreference \<equiv> ''user_preference''"
abbreviation ReasonUnsupportedChannel :: string where "ReasonUnsupportedChannel \<equiv> ''unsupported_or_unavailable_channel''"
abbreviation ReasonDuplicate :: string where "ReasonDuplicate \<equiv> ''duplicate''"
abbreviation ReasonBurstCooldown :: string where "ReasonBurstCooldown \<equiv> ''burst_cooldown''"

record Channels =
  ch_InApp :: bool
  ch_Sound :: bool
  ch_WebPush :: bool

record Decision =
  dec_EventID :: string
  dec_PolicyVersion :: int
  dec_Channels :: Channels
  dec_Reasons :: "string list"

definition Eligible :: "Decision \<Rightarrow> bool" where
  "Eligible d \<longleftrightarrow> ch_InApp (dec_Channels d) \<or> ch_Sound (dec_Channels d) \<or> ch_WebPush (dec_Channels d)"

definition Suppressed :: "Decision \<Rightarrow> bool" where
  "Suppressed d \<longleftrightarrow> \<not> Eligible d"

definition SuppressedReason :: "Decision \<Rightarrow> string" where
  "SuppressedReason d = (if Eligible d then '''' else go_join CHR '','' (dec_Reasons d))"

section \<open>The rules\<close>

type_synonym channelSet = "8 word"

abbreviation setInApp :: channelSet where "setInApp \<equiv> 1"
abbreviation setSound :: channelSet where "setSound \<equiv> 2"
abbreviation setWebPush :: channelSet where "setWebPush \<equiv> 4"

definition setAll :: channelSet where
  "setAll = setInApp OR setSound OR setWebPush"

definition surface :: "string \<Rightarrow> channelSet" where
  "surface presence =
     (if presence = PresenceForeground \<or> presence = PresenceConnected then setInApp OR setSound
      else setWebPush)"

definition channelsFrom :: "channelSet \<Rightarrow> Channels" where
  "channelsFrom allowed =
     \<lparr>ch_InApp = (allowed AND setInApp \<noteq> 0), ch_Sound = (allowed AND setSound \<noteq> 0),
      ch_WebPush = (allowed AND setWebPush \<noteq> 0)\<rparr>"

definition denyOutsideWorkHours :: "Context \<Rightarrow> channelSet" where
  "denyOutsideWorkHours c =
     (if cx_WorkSchedule c = StateWithinWorkHours \<or> cx_WorkSchedule c = StateNotConfigured then 0
      else setAll)"

definition denyHistorical :: "Context \<Rightarrow> channelSet" where
  "denyHistorical c = (if cx_Origin c = OriginLive then 0 else setAll)"

definition denySilentEventType :: "Context \<Rightarrow> channelSet" where
  "denySilentEventType c = (if cx_EventType c = EventTypeReaction then setAll else 0)"

definition denyConversationOpen :: "Context \<Rightarrow> channelSet" where
  "denyConversationOpen c =
     (if cx_ConversationOpen c \<and> cx_Presence c = PresenceForeground then setAll else 0)"

definition denyUnresolvedPreferences :: "Context \<Rightarrow> channelSet" where
  "denyUnresolvedPreferences c =
     (if pf_Status (cx_Preferences c) = PreferenceStatusUnavailable then setAll else 0)"

definition denyDoNotDisturb :: "Context \<Rightarrow> channelSet" where
  "denyDoNotDisturb c = (if pf_DoNotDisturb (cx_Preferences c) then setAll else 0)"

definition denyMuted :: "Context \<Rightarrow> channelSet" where
  "denyMuted c = (if pf_Muted (cx_Preferences c) then setAll else 0)"

definition denyConversationLevel :: "Context \<Rightarrow> channelSet" where
  "denyConversationLevel c =
     (if ConversationLevel_Effective (pf_ConversationLevel (cx_Preferences c)) \<noteq> ConversationLevelMentionsReplies
        then 0
      else if cx_EventType c = EventTypeChannelMessage \<or> cx_EventType c = EventTypeDirectMessage
        then setAll
      else 0)"

definition soundWanted :: "Context \<Rightarrow> bool" where
  "soundWanted c =
     (let mode = SoundMode_Effective (pf_SoundMode (cx_Preferences c)) in
      if mode = SoundModeOff then False
      else if mode = SoundModeMentions then cx_EventType c = EventTypeMention
      else if mode = SoundModeMentionsAndDMs
        then cx_EventType c = EventTypeMention \<or> isDM (cx_Conversation c)
      else True)"

definition denyUserPreference :: "Context \<Rightarrow> channelSet" where
  "denyUserPreference c =
     (if pf_Disabled (cx_Preferences c) then setAll else if soundWanted c then 0 else setSound)"

definition denyUnavailablePush :: "Context \<Rightarrow> channelSet" where
  "denyUnavailablePush c = (if cx_WebPushAvailable c then 0 else setWebPush)"

definition denyDuplicate :: "Context \<Rightarrow> channelSet" where
  "denyDuplicate c = (if cx_Duplicate c then setAll else 0)"

definition denyBurstCooldown :: "Context \<Rightarrow> channelSet" where
  "denyBurstCooldown c = (if cx_BurstCooldown c then setAll else 0)"

record policy_rule =
  rule_reason :: string
  rule_denies :: "Context \<Rightarrow> channelSet"

definition policy_rules :: "policy_rule list" where
  "policy_rules = map (\<lambda>(reason, denies). \<lparr>rule_reason = reason, rule_denies = denies\<rparr>)
     [(ReasonOutsideWorkHours, denyOutsideWorkHours),
      (ReasonHistoricalOrImported, denyHistorical),
      (ReasonSilentEventType, denySilentEventType),
      (ReasonConversationOpen, denyConversationOpen),
      (ReasonPreferencesUnavailable, denyUnresolvedPreferences),
      (ReasonDoNotDisturb, denyDoNotDisturb),
      (ReasonMuted, denyMuted),
      (ReasonConversationLevel, denyConversationLevel),
      (ReasonUserPreference, denyUserPreference),
      (ReasonUnsupportedChannel, denyUnavailablePush),
      (ReasonDuplicate, denyDuplicate),
      (ReasonBurstCooldown, denyBurstCooldown)]"

text \<open>The loop of \<open>Evaluate\<close> over the rules, with \<open>allowed\<close> and \<open>reasons\<close> as its state.\<close>

fun run_rules :: "Context \<Rightarrow> policy_rule list \<Rightarrow> channelSet \<Rightarrow> string list \<Rightarrow> channelSet \<times> string list" where
  "run_rules c [] allowed reasons = (allowed, reasons)"
| "run_rules c (r # rs) allowed reasons =
     (let denied = allowed AND rule_denies r c in
      if denied = 0 then run_rules c rs allowed reasons
      else run_rules c rs (allowed AND NOT denied) (reasons @ [rule_reason r]))"

definition Policy_Evaluate :: "Context \<Rightarrow> Decision" where
  "Policy_Evaluate c =
     (let (allowed, reasons) = run_rules c policy_rules (surface (cx_Presence c)) [] in
      \<lparr>dec_EventID = cx_EventID c, dec_PolicyVersion = Version,
       dec_Channels = channelsFrom allowed, dec_Reasons = reasons\<rparr>)"

section \<open>Channel sets as sets of channels\<close>

datatype channel = InApp | Sound | WebPush

primrec channel_bit :: "channel \<Rightarrow> nat" where
  "channel_bit InApp = 0"
| "channel_bit Sound = 1"
| "channel_bit WebPush = 2"

definition chans :: "channelSet \<Rightarrow> channel set" where
  "chans w = {ch. bit w (channel_bit ch)}"

named_theorems chans_simps \<open>the channels of a set built by the code\<close>

lemma chans_set_ops [chans_simps]:
  "chans (a AND b) = chans a \<inter> chans b"
  "chans (a OR b) = chans a \<union> chans b"
  "chans (a AND NOT b) = chans a - chans b"
proof -
  have "channel_bit ch < LENGTH(8)" for ch by (cases ch) simp_all
  then show "chans (a AND NOT b) = chans a - chans b"
    by (auto simp: chans_def bit_simps)
qed (auto simp: chans_def bit_simps)

lemma UNIV_channel: "UNIV = {InApp, Sound, WebPush}"
  using channel.exhaust by auto

lemma chans_consts [chans_simps]:
  "chans 0 = {}" "chans setInApp = {InApp}" "chans setSound = {Sound}" "chans setWebPush = {WebPush}"
proof -
  have "bit (2 :: channelSet) n \<longleftrightarrow> n = 1" "bit (4 :: channelSet) n \<longleftrightarrow> n = 2" if "n < 3" for n
    using that by (auto simp: less_Suc_eq numeral_eq_Suc bit_Suc)
  moreover have "channel_bit ch < 3" "channel_bit ch = 1 \<longleftrightarrow> ch = Sound" "channel_bit ch = 2 \<longleftrightarrow> ch = WebPush"
    "channel_bit ch = 0 \<longleftrightarrow> ch = InApp" for ch
    by (cases ch; simp)+
  ultimately show "chans 0 = {}" "chans setInApp = {InApp}" "chans setSound = {Sound}" "chans setWebPush = {WebPush}"
    by (auto simp: chans_def bit_1_iff)
qed

lemma chans_setAll [chans_simps]: "chans setAll = UNIV"
  unfolding setAll_def chans_simps UNIV_channel by auto

lemma setAll_mask: "setAll = mask 3"
  by (simp add: setAll_def mask_eq_exp_minus_1)

lemma finite_chans [simp]: "finite (chans w)"
proof -
  have "finite (UNIV :: channel set)" by (simp add: UNIV_channel)
  then show ?thesis by (rule rev_finite_subset) simp
qed

text \<open>A set of known channels has no other bit.\<close>

definition known :: "channelSet \<Rightarrow> bool" where
  "known w \<longleftrightarrow> w AND setAll = w"

lemma known_zero_iff: "known w \<Longrightarrow> w = 0 \<longleftrightarrow> chans w = {}"
proof
  assume w: "known w" and none: "chans w = {}"
  have "\<not> bit w n" for n
  proof -
    have "bit setAll n \<Longrightarrow> n < 3" by (simp add: setAll_mask bit_simps)
    moreover have "n < 3 \<Longrightarrow> n = channel_bit InApp \<or> n = channel_bit Sound \<or> n = channel_bit WebPush"
      by auto
    ultimately show ?thesis using w none unfolding known_def chans_def
      by (metis (mono_tags) bit_and_iff empty_iff mem_Collect_eq)
  qed
  then show "w = 0" by (simp add: bit_eq_iff)
qed (simp add: chans_simps)

lemma known_and: "known a \<Longrightarrow> known (a AND b)"
  unfolding known_def by (metis and.assoc and.commute)

lemma channelsFrom_chans:
  "channelsFrom w = \<lparr>ch_InApp = (InApp \<in> chans w), ch_Sound = (Sound \<in> chans w), ch_WebPush = (WebPush \<in> chans w)\<rparr>"
proof -
  have "w AND 1 \<noteq> 0 \<longleftrightarrow> bit w 0" "w AND 2 \<noteq> 0 \<longleftrightarrow> bit w 1" "w AND 4 \<noteq> 0 \<longleftrightarrow> bit w 2"
    using and_exp_eq_0_iff_not_bit [of w 0] and_exp_eq_0_iff_not_bit [of w 1] and_exp_eq_0_iff_not_bit [of w 2]
    by simp_all
  then show ?thesis by (simp add: channelsFrom_def chans_def)
qed

section \<open>The policy as a set difference\<close>

text \<open>What each rule takes away in a context, as a set of channels.\<close>

definition denials :: "Context \<Rightarrow> policy_rule list \<Rightarrow> (string \<times> channel set) list" where
  "denials c rs = map (\<lambda>r. (rule_reason r, chans (rule_denies r c))) rs"

fun blame :: "channel set \<Rightarrow> (string \<times> channel set) list \<Rightarrow> string list" where
  "blame A [] = []"
| "blame A ((n, D) # ds) = (if A \<inter> D = {} then blame A ds else n # blame (A - D) ds)"

definition first_denial :: "(string \<times> channel set) list \<Rightarrow> channel \<Rightarrow> string option" where
  "first_denial ds ch = map_option fst (find (\<lambda>(n, D). ch \<in> D) ds)"

lemma first_denial_simps [simp]:
  "first_denial [] ch = None"
  "first_denial ((n, D) # ds) ch = (if ch \<in> D then Some n else first_denial ds ch)"
  by (simp_all add: first_denial_def)

text \<open>The loop over words refines the subtraction of sets.\<close>

lemma run_rules_refines:
  assumes "known allowed" and "run_rules c rs allowed reasons = (allowed', reasons')"
  shows "chans allowed' = chans allowed - \<Union> (snd ` set (denials c rs)) \<and>
    reasons' = reasons @ blame (chans allowed) (denials c rs)"
  using assms
proof (induction rs arbitrary: allowed reasons)
  case (Cons r rs)
  let ?d = "allowed AND rule_denies r c"
  have zero: "?d = 0 \<longleftrightarrow> chans allowed \<inter> chans (rule_denies r c) = {}"
    using known_zero_iff [OF known_and [OF Cons.prems(1)]] by (simp add: chans_simps)
  show ?case
  proof (cases "?d = 0")
    case True
    with Cons.prems Cons.IH [of allowed reasons] zero show ?thesis by (auto simp: denials_def)
  next
    case False
    have "known (allowed AND NOT ?d)" using Cons.prems(1) by (rule known_and)
    with False Cons.prems have IH: "chans allowed' = chans (allowed AND NOT ?d) - \<Union> (snd ` set (denials c rs)) \<and>
        reasons' = (reasons @ [rule_reason r]) @ blame (chans (allowed AND NOT ?d)) (denials c rs)"
      by (intro Cons.IH) (auto simp: Let_def)
    have "chans (allowed AND NOT ?d) = chans allowed - chans (rule_denies r c)"
      by (subst chans_set_ops(3), subst chans_set_ops(1)) blast
    with IH False zero show ?thesis by (auto simp: denials_def)
  qed
qed (simp add: denials_def)

lemma set_blame: "set (blame A ds) = {n. \<exists>ch \<in> A. first_denial ds ch = Some n}"
  by (induction A ds rule: blame.induct) auto

lemma length_blame: "finite A \<Longrightarrow> length (blame A ds) \<le> card A"
proof (induction A ds rule: blame.induct)
  case (2 A n D ds)
  show ?case
  proof (cases "A \<inter> D = {}")
    case False
    then have "A - D \<subset> A" by blast
    with 2 have "card (A - D) < card A" by (simp add: psubset_card_mono)
    with 2 False show ?thesis by simp
  qed (use 2 in simp)
qed simp

lemma first_denial_None_iff: "first_denial ds ch = None \<longleftrightarrow> ch \<notin> \<Union> (snd ` set ds)"
  by (induction ds) (auto split: if_splits)

lemma surface_chans:
  "chans (surface p) = (if p = PresenceForeground \<or> p = PresenceConnected then {InApp, Sound} else {WebPush})"
  unfolding surface_def if_distrib [of chans] chans_simps by auto

lemma surface_known: "known (surface p)"
  by (simp add: known_def surface_def setAll_def)

text \<open>The channels an evaluation leaves, and the reasons it records.\<close>

abbreviation policy_denials :: "Context \<Rightarrow> (string \<times> channel set) list" where
  "policy_denials c \<equiv> denials c policy_rules"

lemma Policy_Evaluate_eq:
  "Policy_Evaluate c =
    (let A = chans (surface (cx_Presence c)) - \<Union> (snd ` set (policy_denials c)) in
     \<lparr>dec_EventID = cx_EventID c, dec_PolicyVersion = Version,
      dec_Channels = \<lparr>ch_InApp = (InApp \<in> A), ch_Sound = (Sound \<in> A), ch_WebPush = (WebPush \<in> A)\<rparr>,
      dec_Reasons = blame (chans (surface (cx_Presence c))) (policy_denials c)\<rparr>)"
proof -
  obtain a rs where run: "run_rules c policy_rules (surface (cx_Presence c)) [] = (a, rs)" by fastforce
  from run_rules_refines [OF surface_known run] show ?thesis
    by (simp add: Policy_Evaluate_def run channelsFrom_chans Let_def)
qed

lemma Eligible_iff:
  "Eligible (Policy_Evaluate c) \<longleftrightarrow>
     (\<exists>ch \<in> chans (surface (cx_Presence c)). first_denial (policy_denials c) ch = None)"
proof -
  have "(\<exists>ch. P ch) \<longleftrightarrow> P InApp \<or> P Sound \<or> P WebPush" for P :: "channel \<Rightarrow> bool"
    by (metis channel.exhaust)
  then show ?thesis
    by (auto simp: Eligible_def Policy_Evaluate_eq Let_def first_denial_None_iff Bex_def)
qed

section \<open>Properties\<close>

text \<open>What every channel needs, whichever it is.\<close>

definition interruption_allowed :: "Context \<Rightarrow> bool" where
  "interruption_allowed c \<longleftrightarrow>
     cx_WorkSchedule c \<in> {StateWithinWorkHours, StateNotConfigured} \<and> cx_Origin c = OriginLive \<and>
     cx_EventType c \<noteq> EventTypeReaction \<and>
     \<not> (cx_ConversationOpen c \<and> cx_Presence c = PresenceForeground) \<and>
     pf_Status (cx_Preferences c) \<noteq> PreferenceStatusUnavailable \<and>
     \<not> pf_DoNotDisturb (cx_Preferences c) \<and> \<not> pf_Muted (cx_Preferences c) \<and>
     \<not> (pf_ConversationLevel (cx_Preferences c) = ConversationLevelMentionsReplies \<and>
        cx_EventType c \<in> {EventTypeChannelMessage, EventTypeDirectMessage}) \<and>
     \<not> pf_Disabled (cx_Preferences c) \<and> \<not> cx_Duplicate c \<and> \<not> cx_BurstCooldown c"

abbreviation live_client :: "Context \<Rightarrow> bool" where
  "live_client c \<equiv> cx_Presence c = PresenceForeground \<or> cx_Presence c = PresenceConnected"

lemma level_effective_iff:
  "ConversationLevel_Effective l = ConversationLevelMentionsReplies \<longleftrightarrow> l = ConversationLevelMentionsReplies"
  by (auto simp: ConversationLevel_Effective_def ConversationLevel_Valid_def conversationLevels_def)

lemmas deny_defs = denyOutsideWorkHours_def denyHistorical_def denySilentEventType_def
  denyConversationOpen_def denyUnresolvedPreferences_def denyDoNotDisturb_def denyMuted_def
  denyConversationLevel_def denyUserPreference_def denyUnavailablePush_def denyDuplicate_def
  denyBurstCooldown_def

lemma chans_if: "chans (if b then x else y) = (if b then chans x else chans y)"
  by simp

text \<open>The channels taken away, written out.\<close>

lemma denied_chans:
  "\<Union> (snd ` set (policy_denials c)) =
    (if \<not> interruption_allowed c then UNIV
     else (if soundWanted c then {} else {Sound}) \<union> (if cx_WebPushAvailable c then {} else {WebPush}))"
proof (cases "interruption_allowed c")
  case True
  then show ?thesis
    unfolding denials_def policy_rules_def deny_defs list.map prod.case policy_rule.simps list.set
      chans_if chans_simps
    by (auto simp: interruption_allowed_def level_effective_iff)
next
  case False
  have "UNIV \<in> snd ` set (policy_denials c)"
  proof (rule ccontr)
    assume "UNIV \<notin> snd ` set (policy_denials c)"
    then have "interruption_allowed c"
      unfolding denials_def policy_rules_def deny_defs list.map prod.case policy_rule.simps list.set
        chans_if chans_simps image_insert image_empty snd_conv insert_iff de_Morgan_disj
      by (simp add: interruption_allowed_def level_effective_iff split: if_splits)
    with False show False by contradiction
  qed
  with False show ?thesis by auto
qed

lemma decision_channels:
  "dec_Channels (Policy_Evaluate c) =
      \<lparr>ch_InApp = (live_client c \<and> interruption_allowed c),
       ch_Sound = (live_client c \<and> interruption_allowed c \<and> soundWanted c),
       ch_WebPush = (\<not> live_client c \<and> interruption_allowed c \<and> cx_WebPushAvailable c)\<rparr>"
  by (simp add: Policy_Evaluate_eq channelsFrom_chans Let_def denied_chans surface_chans)

text \<open>
  Claim C19. The delivery plan in closed form: a toast needs a live client and a chime also the
  chime preference, a push needs that there is no live client and a subscription, and all of
  them need that no restriction applies. The plan does not depend on the order of the rules:
  any list with the same rules leaves the same channels.
\<close>

theorem Policy_Evaluate_plan:
  assumes "set rs = set policy_rules"
  shows "dec_Channels (Policy_Evaluate c) =
      \<lparr>ch_InApp = (live_client c \<and> interruption_allowed c),
       ch_Sound = (live_client c \<and> interruption_allowed c \<and> soundWanted c),
       ch_WebPush = (\<not> live_client c \<and> interruption_allowed c \<and> cx_WebPushAvailable c)\<rparr> \<and>
    channelsFrom (fst (run_rules c rs (surface (cx_Presence c)) [])) = dec_Channels (Policy_Evaluate c)"
proof -
  obtain a rs' where run: "run_rules c rs (surface (cx_Presence c)) [] = (a, rs')" by fastforce
  have "set (denials c rs) = set (policy_denials c)" using assms by (simp add: denials_def)
  with run_rules_refines [OF surface_known run] show ?thesis
    by (simp add: Policy_Evaluate_eq run channelsFrom_chans Let_def denied_chans surface_chans)
qed

lemma all_channel: "(\<forall>ch. P ch) \<longleftrightarrow> P InApp \<and> P Sound \<and> P WebPush"
  by (metis channel.exhaust)

lemma disjoint_channels:
  "A \<inter> D = {} \<longleftrightarrow> (InApp \<in> A \<longrightarrow> InApp \<notin> D) \<and> (Sound \<in> A \<longrightarrow> Sound \<notin> D) \<and> (WebPush \<in> A \<longrightarrow> WebPush \<notin> D)"
proof -
  have "A \<inter> D = {} \<longleftrightarrow> (\<forall>ch. ch \<in> A \<longrightarrow> ch \<notin> D)" by blast
  then show ?thesis by (simp only: all_channel)
qed

lemma surface_card: "card (chans (surface p)) \<le> 2"
  by (simp add: surface_chans)

lemma blame_Nil_iff: "blame A ds = [] \<longleftrightarrow> A \<inter> \<Union> (snd ` set ds) = {}"
  by (induction A ds rule: blame.induct) auto

text \<open>
  The reasons of a decision are, over the channels the recipient's presence could
  use, the first rule in precedence order that denies each of them; there are at most two,
  and none exactly when every channel of that presence is left.
\<close>

theorem Policy_Evaluate_reasons:
  "set (dec_Reasons (Policy_Evaluate c)) =
      {n. \<exists>ch. ch \<in> chans (surface (cx_Presence c)) \<and> first_denial (policy_denials c) ch = Some n} \<and>
   length (dec_Reasons (Policy_Evaluate c)) \<le> 2 \<and>
   (dec_Reasons (Policy_Evaluate c) = []) =
     (dec_Channels (Policy_Evaluate c) = channelsFrom (surface (cx_Presence c)))"
proof (intro conjI)
  show "set (dec_Reasons (Policy_Evaluate c)) =
      {n. \<exists>ch. ch \<in> chans (surface (cx_Presence c)) \<and> first_denial (policy_denials c) ch = Some n}"
    by (auto simp: Policy_Evaluate_eq Let_def set_blame)
  show "length (dec_Reasons (Policy_Evaluate c)) \<le> 2"
    using length_blame [OF finite_chans] surface_card
    by (simp add: Policy_Evaluate_eq Let_def) (meson order.trans)
  show "(dec_Reasons (Policy_Evaluate c) = []) =
     (dec_Channels (Policy_Evaluate c) = channelsFrom (surface (cx_Presence c)))"
    by (simp add: Policy_Evaluate_eq Let_def blame_Nil_iff channelsFrom_chans disjoint_channels) argo
qed

lemma reason_lengths:
  "n \<in> set (blame A (policy_denials c)) \<Longrightarrow> n \<noteq> [] \<and> length n \<le> 34"
proof -
  assume "n \<in> set (blame A (policy_denials c))"
  then have "n \<in> fst ` set (policy_denials c)"
    by (auto simp: set_blame first_denial_def find_Some_iff) (metis fst_conv image_eqI nth_mem)
  then have "n \<in> set (map rule_reason policy_rules)" by (auto simp: denials_def)
  moreover have "\<forall>n \<in> set (map rule_reason policy_rules). n \<noteq> [] \<and> length n \<le> 34"
    by (simp add: policy_rules_def)
  ultimately show ?thesis by blast
qed

lemma joined_length:
  assumes "\<forall>n \<in> set ns. length n \<le> k" and "length ns \<le> 2"
  shows "length (go_join sep ns) \<le> 2 * k + 1"
  using assms by (cases "(sep, ns)" rule: go_join.cases) (auto simp: le_Suc_eq split: list.splits)

text \<open>
  Every decision can be recorded: the state it calls for and the reason it renders
  are accepted by the outbox, a suppressed event always carrying a reason of at most 200
  bytes and an eligible one none.
\<close>

theorem SuppressedReason_recorded:
  "ValidateSuppressedReason (if Suppressed (Policy_Evaluate c) then StateSuppressed else StateEligible)
     (SuppressedReason (Policy_Evaluate c)) = Inr ()"
proof (cases "Eligible (Policy_Evaluate c)")
  case True
  then show ?thesis by (simp add: ValidateSuppressedReason_def SuppressedReason_def Suppressed_def)
next
  case False
  let ?A = "chans (surface (cx_Presence c))"
  let ?ns = "blame ?A (policy_denials c)"
  have reasons: "dec_Reasons (Policy_Evaluate c) = ?ns" by (simp add: Policy_Evaluate_eq Let_def)
  have lens: "\<forall>n \<in> set ?ns. n \<noteq> [] \<and> length n \<le> 34" using reason_lengths by blast
  have "\<exists>ch. ch \<in> ?A" by (auto simp: surface_chans)
  with False have "?ns \<noteq> []"
    by (auto simp: Eligible_iff blame_Nil_iff first_denial_None_iff disjoint_iff)
  with lens have "go_join CHR '','' ?ns \<noteq> []" by (simp add: go_join_Nil_iff)
  moreover have "length ?ns \<le> 2"
    using length_blame [OF finite_chans, of "surface (cx_Presence c)" "policy_denials c"] surface_card
    by (meson order.trans)
  then have "length (go_join CHR '','' ?ns) \<le> 69" using joined_length [of ?ns 34] lens by auto
  ultimately show ?thesis
    using False by (simp add: ValidateSuppressedReason_def SuppressedReason_def Suppressed_def reasons)
qed

text \<open>
  The reasons of the whole closed set, joined, are longer than the outbox admits:
  it is the bound of two reasons to a decision that keeps every recorded reason short.
\<close>

theorem all_reasons_too_long:
  "ValidateSuppressedReason StateSuppressed (go_join CHR '','' (map rule_reason policy_rules)) =
     Inl ErrSuppressedReasonTooLong"
  by (simp add: ValidateSuppressedReason_def policy_rules_def)

lemma outside_hours_first:
  assumes "cx_WorkSchedule c \<notin> {StateWithinWorkHours, StateNotConfigured}"
  shows "Suppressed (Policy_Evaluate c) \<and> dec_Reasons (Policy_Evaluate c) = [ReasonOutsideWorkHours]"
proof -
  obtain ds where ds: "policy_denials c = (ReasonOutsideWorkHours, UNIV) # ds"
    using assms by (simp add: denials_def policy_rules_def denyOutsideWorkHours_def chans_simps)
  have "blame {} ds = []" for ds by (simp add: blame_Nil_iff)
  then show ?thesis
    by (auto simp: Suppressed_def Eligible_def ds Policy_Evaluate_eq Let_def surface_chans)
qed

definition sample_context :: Context where
  "sample_context = \<lparr>cx_EventID = ''e1'', cx_WorkspaceID = ''w1'', cx_RecipientID = ''u1'',
     cx_EventType = EventTypeDirectMessage, cx_Priority = ''normal'', cx_Origin = OriginLive,
     cx_Conversation = ConversationDirect, cx_WorkSchedule = StateNotConfigured,
     cx_Presence = PresenceConnected, cx_ConversationOpen = False,
     cx_Preferences = \<lparr>pf_Status = PreferenceStatusResolved, pf_Disabled = False, pf_DoNotDisturb = False,
       pf_Muted = False, pf_ConversationLevel = '''', pf_SoundMode = SoundModeMentions\<rparr>,
     cx_WebPushAvailable = True, cx_Duplicate = False, cx_BurstCooldown = False\<rparr>"

theorem Policy_Evaluate_plan_witness:
  "channelsFrom (fst (run_rules sample_context (rev policy_rules) (surface PresenceConnected) [])) =
     \<lparr>ch_InApp = True, ch_Sound = False, ch_WebPush = False\<rparr>"
proof -
  have "interruption_allowed sample_context" "\<not> soundWanted sample_context" by code_simp+
  then show ?thesis
    using Policy_Evaluate_plan [of "rev policy_rules" sample_context] by (simp add: sample_context_def)
qed

end
