(* ===== verification/Url_Breaker.thy ===== *)
theory Url_Breaker
  imports Go_Prelude
begin

text \<open>
  The circuit breaker of \<open>libs/go/platform/urlsafety\<close> (\<open>breaker.go\<close>). Every operation holds
  the breaker's mutex from end to end, so an execution is a sequence of them; \<open>now\<close> is the
  clock reading the operation takes. Exchanges admitted at one moment settle at another, and
  the step relation \<open>circuit_step\<close> keeps track of which are in flight.
\<close>

section \<open>Errors of the package\<close>

text \<open>
  The sentinels of the package and of \<open>context\<close>; \<open>OtherError\<close> is any error that wraps none of
  them. \<open>ErrCircuitOpen\<close> and a \<open>reasonedError\<close> wrap \<open>ErrUnavailable\<close>.
\<close>

datatype url_error =
    ErrUnavailable
  | ErrCircuitOpen
  | ErrCheckInProgress
  | ErrScanPending
  | ErrScanInconclusive
  | ErrNotCheckable
  | ErrEvidenceExpired
  | ReasonedError string
  | ErrSecondaryUnsupported
  | ErrSearchUnsupported
  | ContextCanceled
  | ContextDeadlineExceeded
  | OtherError string

fun errors_Is :: "url_error option \<Rightarrow> url_error \<Rightarrow> bool" where
  "errors_Is None target = False"
| "errors_Is (Some (ReasonedError r)) target \<longleftrightarrow> target \<in> {ReasonedError r, ErrUnavailable}"
| "errors_Is (Some ErrCircuitOpen) target \<longleftrightarrow> target \<in> {ErrCircuitOpen, ErrUnavailable}"
| "errors_Is (Some e) target \<longleftrightarrow> e = target"

section \<open>The circuit\<close>

datatype BreakerState = BreakerClosed | BreakerOpen | BreakerHalfOpen

datatype BreakerOutcome = BreakerSuccess | BreakerFailure | BreakerNeutral

record Breaker =
  br_state :: BreakerState
  br_failures :: int
  br_openedAt :: go_time
  br_probing :: bool
  br_threshold :: int
  br_cooldown :: go_duration

abbreviation defaultBreakerThreshold :: int where "defaultBreakerThreshold \<equiv> 5"
abbreviation defaultBreakerCooldown :: go_duration where "defaultBreakerCooldown \<equiv> duration_minute"

definition newBreaker :: "int \<Rightarrow> go_duration \<Rightarrow> Breaker" where
  "newBreaker threshold cooldown =
     \<lparr>br_state = BreakerClosed, br_failures = 0, br_openedAt = time_zero, br_probing = False,
      br_threshold = (if threshold \<le> 0 then defaultBreakerThreshold else threshold),
      br_cooldown = (if cooldown \<le> 0 then defaultBreakerCooldown else cooldown)\<rparr>"

definition Breaker_Allow :: "go_time \<Rightarrow> Breaker \<Rightarrow> bool \<times> Breaker" where
  "Breaker_Allow now b =
     (case br_state b of
        BreakerClosed \<Rightarrow> (True, b)
      | BreakerOpen \<Rightarrow>
          if time_sub now (br_openedAt b) < br_cooldown b then (False, b)
          else (True, b\<lparr>br_state := BreakerHalfOpen, br_probing := True\<rparr>)
      | BreakerHalfOpen \<Rightarrow>
          if br_probing b then (False, b) else (True, b\<lparr>br_probing := True\<rparr>))"

definition Breaker_Complete :: "go_time \<Rightarrow> BreakerOutcome \<Rightarrow> Breaker \<Rightarrow> Breaker" where
  "Breaker_Complete now outcome b0 =
     (let b = b0\<lparr>br_probing := False\<rparr> in
      case outcome of
        BreakerSuccess \<Rightarrow> b\<lparr>br_state := BreakerClosed, br_failures := 0\<rparr>
      | BreakerFailure \<Rightarrow>
          (let b = b\<lparr>br_failures := br_failures b + 1\<rparr> in
           if br_state b = BreakerHalfOpen \<or> br_failures b \<ge> br_threshold b
             then b\<lparr>br_state := BreakerOpen, br_openedAt := now\<rparr>
           else b)
      | BreakerNeutral \<Rightarrow> b)"

definition breakerOutcome :: "url_error option \<Rightarrow> url_error option \<Rightarrow> BreakerOutcome" where
  "breakerOutcome ctx_err err =
     (if errors_Is ctx_err ContextCanceled \<or> errors_Is err ContextCanceled then BreakerNeutral
      else if err = None \<or> errors_Is err ErrCheckInProgress \<or> errors_Is err ErrScanPending \<or>
              errors_Is err ErrScanInconclusive
        then BreakerSuccess
      else BreakerFailure)"

section \<open>Exchanges in flight\<close>

text \<open>
  The breaker with the exchanges it has admitted and that have not settled: those admitted as
  the probe of a half-open circuit, and the others.
\<close>

record circuit =
  cc_breaker :: Breaker
  cc_probes :: nat
  cc_others :: nat

definition circuit_new :: "int \<Rightarrow> go_duration \<Rightarrow> circuit" where
  "circuit_new threshold cooldown =
     \<lparr>cc_breaker = newBreaker threshold cooldown, cc_probes = 0, cc_others = 0\<rparr>"

datatype circuit_event = CallAllow go_time | SettleProbe go_time BreakerOutcome | SettleOther go_time BreakerOutcome

fun circuit_do :: "circuit_event \<Rightarrow> circuit \<Rightarrow> circuit option" where
  "circuit_do (CallAllow now) c =
     (let (ok, b) = Breaker_Allow now (cc_breaker c) in
      Some (if \<not> ok then c\<lparr>cc_breaker := b\<rparr>
            else if br_state b = BreakerHalfOpen then c\<lparr>cc_breaker := b, cc_probes := cc_probes c + 1\<rparr>
            else c\<lparr>cc_breaker := b, cc_others := cc_others c + 1\<rparr>))"
| "circuit_do (SettleProbe now outcome) c =
     (if cc_probes c = 0 then None
      else Some (c\<lparr>cc_breaker := Breaker_Complete now outcome (cc_breaker c), cc_probes := cc_probes c - 1\<rparr>))"
| "circuit_do (SettleOther now outcome) c =
     (if cc_others c = 0 then None
      else Some (c\<lparr>cc_breaker := Breaker_Complete now outcome (cc_breaker c), cc_others := cc_others c - 1\<rparr>))"

inductive circuit_step :: "circuit \<Rightarrow> circuit \<Rightarrow> bool" where
  step: "circuit_do e c = Some c' \<Longrightarrow> circuit_step c c'"

text \<open>
  A step of a drained circuit: no exchange admitted before the circuit opened is left when it
  turns half-open.
\<close>

inductive drained_step :: "circuit \<Rightarrow> circuit \<Rightarrow> bool" where
  drained: "circuit_do e c = Some c' \<Longrightarrow>
    br_state (cc_breaker c') = BreakerHalfOpen \<Longrightarrow> cc_others c' = 0 \<Longrightarrow> drained_step c c'"
| unchanged: "circuit_do e c = Some c' \<Longrightarrow>
    br_state (cc_breaker c') \<noteq> BreakerHalfOpen \<Longrightarrow> drained_step c c'"

inductive_cases drained_stepE: "drained_step c c'"

section \<open>Lemmas\<close>

lemmas breaker_defs = Breaker_Allow_def Breaker_Complete_def newBreaker_def

lemma Allow_False_iff:
  "\<not> fst (Breaker_Allow now b) \<longleftrightarrow>
     br_state b = BreakerOpen \<and> time_sub now (br_openedAt b) < br_cooldown b \<or>
     br_state b = BreakerHalfOpen \<and> br_probing b"
  by (auto simp: Breaker_Allow_def split: BreakerState.splits)

text \<open>Neither operation touches the configuration.\<close>

lemma breaker_config [simp]:
  "br_threshold (Breaker_Complete now o' b) = br_threshold b"
  "br_cooldown (Breaker_Complete now o' b) = br_cooldown b"
  "br_threshold (snd (Breaker_Allow now b)) = br_threshold b"
  "br_cooldown (snd (Breaker_Allow now b)) = br_cooldown b"
  by (auto simp: breaker_defs Let_def split: BreakerState.splits BreakerOutcome.splits)

lemma Complete_not_probing [simp]: "\<not> br_probing (Breaker_Complete now o' b)"
  by (auto simp: Breaker_Complete_def Let_def split: BreakerOutcome.splits)

text \<open>The invariant of a drained circuit.\<close>

definition circuit_inv :: "circuit \<Rightarrow> bool" where
  "circuit_inv c \<longleftrightarrow>
     (case br_state (cc_breaker c) of
        BreakerHalfOpen \<Rightarrow> cc_others c = 0 \<and> cc_probes c = (if br_probing (cc_breaker c) then 1 else 0)
      | _ \<Rightarrow> cc_probes c = 0 \<and> \<not> br_probing (cc_breaker c))"

lemma circuit_inv_new: "circuit_inv (circuit_new threshold cooldown)"
  by (simp add: circuit_inv_def circuit_new_def newBreaker_def)

lemma circuit_inv_step:
  assumes "circuit_inv c" and "drained_step c c'"
  shows "circuit_inv c'"
proof -
  from assms(2) obtain e where e: "circuit_do e c = Some c'"
    and drained: "br_state (cc_breaker c') = BreakerHalfOpen \<Longrightarrow> cc_others c' = 0"
    by (auto elim: drained_stepE)
  show ?thesis
  proof (cases e)
    case (CallAllow now)
    with assms(1) e drained show ?thesis
      by (auto simp: circuit_inv_def Breaker_Allow_def Let_def split: BreakerState.splits if_splits)
  next
    case (SettleProbe now o')
    with assms(1) e show ?thesis
      by (auto simp: circuit_inv_def Breaker_Complete_def Let_def
          split: BreakerState.splits BreakerOutcome.splits if_splits)
  next
    case (SettleOther now o')
    with assms(1) e show ?thesis
      by (auto simp: circuit_inv_def Breaker_Complete_def Let_def
          split: BreakerState.splits BreakerOutcome.splits if_splits)
  qed
qed

lemma circuit_inv_reachable:
  assumes "drained_step\<^sup>*\<^sup>* (circuit_new threshold cooldown) c"
  shows "circuit_inv c"
  using assms by (induction rule: rtranclp_induct) (auto intro: circuit_inv_new circuit_inv_step)

primrec circuit_run :: "circuit_event list \<Rightarrow> circuit \<Rightarrow> circuit option" where
  "circuit_run [] c = Some c"
| "circuit_run (e # es) c = (case circuit_do e c of None \<Rightarrow> None | Some c' \<Rightarrow> circuit_run es c')"

lemma circuit_run_steps: "circuit_run es c = Some c' \<Longrightarrow> circuit_step\<^sup>*\<^sup>* c c'"
  by (induction es arbitrary: c)
     (auto split: option.splits intro: converse_rtranclp_into_rtranclp circuit_step.step)

lemma fold_failures:
  assumes "br_state b = BreakerClosed" and "br_failures b < br_threshold b"
  shows "br_failures (fold (\<lambda>t. Breaker_Complete t BreakerFailure) ts b) = br_failures b + int (length ts) \<and>
    br_threshold (fold (\<lambda>t. Breaker_Complete t BreakerFailure) ts b) = br_threshold b \<and>
    br_state (fold (\<lambda>t. Breaker_Complete t BreakerFailure) ts b) =
      (if br_failures b + int (length ts) < br_threshold b then BreakerClosed else BreakerOpen)"
  using assms
proof (induction ts rule: rev_induct)
  case (snoc t ts)
  then show ?case by (auto simp: Breaker_Complete_def Let_def)
qed simp

section \<open>Properties\<close>

text \<open>
  A new circuit opens at the configured number of consecutive failures, five when
  none is configured, and not before; from then on it admits nothing until its cooldown has
  passed since it opened, and the first caller after that is admitted as a probe.
\<close>

theorem breaker_opens_and_cools_down:
  fixes threshold :: int
  assumes "ts \<noteq> []" and "cooldown \<le> max_duration"
  defines "b \<equiv> fold (\<lambda>t. Breaker_Complete t BreakerFailure) ts (newBreaker threshold cooldown)"
  shows "br_state b =
      (if int (length ts) < (if threshold \<le> 0 then 5 else threshold) then BreakerClosed else BreakerOpen) \<and>
    fst (Breaker_Allow now b) =
      (br_state b = BreakerClosed \<or> last ts + (if cooldown \<le> 0 then duration_minute else cooldown) \<le> now) \<and>
    (if fst (Breaker_Allow now b) \<and> br_state b = BreakerOpen
     then br_state (snd (Breaker_Allow now b)) = BreakerHalfOpen \<and> br_probing (snd (Breaker_Allow now b))
     else snd (Breaker_Allow now b) = b)"
proof -
  let ?b0 = "newBreaker threshold cooldown"
  have state: "br_state b = (if int (length ts) < br_threshold ?b0 then BreakerClosed else BreakerOpen)"
    using fold_failures [of ?b0 ts] by (simp add: b_def newBreaker_def)
  have opened: "br_openedAt b = last ts" if "br_state b = BreakerOpen"
  proof -
    obtain us t where ts: "ts = us @ [t]" using assms(1) by (cases ts rule: rev_cases) auto
    show ?thesis
      using that fold_failures [of ?b0 us] unfolding b_def ts
      by (auto simp: Breaker_Complete_def Let_def newBreaker_def split: if_splits)
  qed
  have cool: "br_cooldown b = br_cooldown ?b0"
    unfolding b_def by (induction ts rule: rev_induct) auto
  have "time_sub now (last ts) < br_cooldown ?b0 \<longleftrightarrow> now < last ts + br_cooldown ?b0"
    using assms(2) by (intro time_sub_less_iff) (auto simp: newBreaker_def)
  then show ?thesis
    using state opened cool
    by (cases "br_state b") (auto simp: Breaker_Allow_def newBreaker_def split: if_splits)
qed

theorem breaker_opens_and_cools_down_witness:
  "fst (Breaker_Allow 65 (fold (\<lambda>t. Breaker_Complete t BreakerFailure) [1, 2, 3, 4, 5] (newBreaker 0 60))) = True"
  using breaker_opens_and_cools_down [of "[1, 2, 3, 4, 5]" 60 0 65] by simp

text \<open>
  Whatever the interleaving of calls and settlements, a half-open circuit whose
  earlier exchanges had all settled when it left the open state has at most one probe in
  flight, and none in any other state.
\<close>

theorem single_probe:
  assumes "drained_step\<^sup>*\<^sup>* (circuit_new threshold cooldown) c"
  shows "cc_probes c \<le> 1 \<and> (br_state (cc_breaker c) \<noteq> BreakerHalfOpen \<longrightarrow> cc_probes c = 0)"
  using circuit_inv_reachable [OF assms]
  by (cases "br_state (cc_breaker c)") (simp_all add: circuit_inv_def split: if_splits)

theorem single_probe_witness:
  "\<exists>c. drained_step\<^sup>*\<^sup>* (circuit_new 1 5) c \<and> cc_probes c = 1 \<and> cc_probes c \<le> 1"
proof -
  let ?b = "\<lparr>br_state = BreakerHalfOpen, br_failures = 1, br_openedAt = 2, br_probing = True,
    br_threshold = 1, br_cooldown = 5\<rparr>"
  let ?c1 = "\<lparr>cc_breaker = newBreaker 1 5, cc_probes = 0, cc_others = 1\<rparr>"
  let ?c2 = "\<lparr>cc_breaker = ?b\<lparr>br_state := BreakerOpen, br_probing := False\<rparr>, cc_probes = 0, cc_others = 0\<rparr>"
  let ?c3 = "\<lparr>cc_breaker = ?b, cc_probes = 1, cc_others = 0\<rparr>"
  have "drained_step (circuit_new 1 5) ?c1"
    by (rule drained_step.unchanged [of "CallAllow 1"]) (simp_all add: circuit_new_def breaker_defs)
  moreover have "drained_step ?c1 ?c2"
    by (rule drained_step.unchanged [of "SettleOther 2 BreakerFailure"]) (simp_all add: breaker_defs)
  moreover have "drained_step ?c2 ?c3"
    by (rule drained_step.drained [of "CallAllow 9"]) (simp_all add: breaker_defs time_sub_def)
  ultimately have reach: "drained_step\<^sup>*\<^sup>* (circuit_new 1 5) ?c3" by auto
  from single_probe [OF this] reach show ?thesis by (intro exI [of _ ?c3]) simp
qed

text \<open>
  The restriction matters: an exchange admitted before the circuit opened that
  settles while the probe of the half-open circuit is in flight releases the probe's slot, and
  a second probe is admitted beside it.
\<close>

theorem stale_settlement_admits_second_probe:
  "\<exists>c. circuit_step\<^sup>*\<^sup>* (circuit_new 1 5) c \<and> br_state (cc_breaker c) = BreakerHalfOpen \<and> cc_probes c = 2"
proof -
  let ?run = "circuit_run [CallAllow 1, CallAllow 1, SettleOther 2 BreakerFailure, CallAllow 10,
    SettleOther 11 BreakerNeutral, CallAllow 12] (circuit_new 1 5)"
  have "map_option (\<lambda>c. (br_state (cc_breaker c), cc_probes c)) ?run = Some (BreakerHalfOpen, 2)"
    by code_simp
  then show ?thesis using circuit_run_steps by fastforce
qed

end
