(* ===== verification/Url_Cache.thy ===== *)
theory Url_Cache
  imports Go_Prelude
begin

text \<open>
  The verdict cache of \<open>libs/go/platform/urlsafety\<close> (\<open>urlsafety.go\<close>, type \<open>cache\<close>). The Go
  map is its list of entries with distinct keys. \<open>range\<close> over a map visits every entry once
  in an order the runtime picks afresh each time: that order is the argument \<open>iter\<close> of the
  definitions that iterate, and the locale \<open>map_iteration\<close> states what is known of it.
\<close>

section \<open>Verdicts\<close>

abbreviation VerdictUnknown :: string where "VerdictUnknown \<equiv> ''unknown''"
abbreviation VerdictSafe :: string where "VerdictSafe \<equiv> ''safe''"
abbreviation VerdictMalicious :: string where "VerdictMalicious \<equiv> ''malicious''"
abbreviation VerdictInconclusive :: string where "VerdictInconclusive \<equiv> ''inconclusive''"

definition Verdict_IsFinal :: "string \<Rightarrow> bool" where
  "Verdict_IsFinal v \<longleftrightarrow> v = VerdictSafe \<or> v = VerdictMalicious"

abbreviation VerdictTTL :: go_duration where "VerdictTTL \<equiv> 15 * duration_minute"
abbreviation FailureTTL :: go_duration where "FailureTTL \<equiv> 30 * duration_second"
abbreviation maxCacheEntries :: int where "maxCacheEntries \<equiv> 4096"

section \<open>The cache\<close>

record cacheEntry =
  ce_verdict :: string
  ce_expiresAt :: go_time

type_synonym entries = "(string \<times> cacheEntry) list"

record cache =
  ca_entries :: entries
  ca_maxEntries :: int

definition newCache :: "int \<Rightarrow> cache" where
  "newCache maxEntries =
     \<lparr>ca_entries = [], ca_maxEntries = (if maxEntries \<le> 0 then maxCacheEntries else maxEntries)\<rparr>"

definition map_delete :: "string \<Rightarrow> entries \<Rightarrow> entries" where
  "map_delete k es = filter (\<lambda>(k', e). k' \<noteq> k) es"

definition map_insert :: "string \<Rightarrow> cacheEntry \<Rightarrow> entries \<Rightarrow> entries" where
  "map_insert k e es = (k, e) # map_delete k es"

definition cache_get :: "go_time \<Rightarrow> string \<Rightarrow> cache \<Rightarrow> (string \<times> bool) \<times> cache" where
  "cache_get now key c =
     (case map_of (ca_entries c) key of
        None \<Rightarrow> ((VerdictUnknown, False), c)
      | Some entry \<Rightarrow>
          if \<not> now < ce_expiresAt entry
            then ((VerdictUnknown, False), c\<lparr>ca_entries := map_delete key (ca_entries c)\<rparr>)
          else ((ce_verdict entry, True), c))"

text \<open>
  The loop of \<open>evict\<close>: \<open>oldestKey\<close>, \<open>oldest\<close> and \<open>found\<close> are its state, with the map it
  deletes from. An empty \<open>oldestKey\<close> means that none has been picked yet.
\<close>

fun evict_loop :: "go_time \<Rightarrow> entries \<Rightarrow> string \<Rightarrow> go_time \<Rightarrow> bool \<Rightarrow> entries \<Rightarrow> entries" where
  "evict_loop now [] oldestKey oldest found es =
     (if \<not> found \<and> oldestKey \<noteq> '''' then map_delete oldestKey es else es)"
| "evict_loop now ((key, entry) # rest) oldestKey oldest found es =
     (if \<not> now < ce_expiresAt entry
        then evict_loop now rest oldestKey oldest True (map_delete key es)
      else if oldestKey = '''' \<or> ce_expiresAt entry < oldest
        then evict_loop now rest key (ce_expiresAt entry) found es
      else evict_loop now rest oldestKey oldest found es)"

definition cache_evict :: "(entries \<Rightarrow> entries) \<Rightarrow> go_time \<Rightarrow> entries \<Rightarrow> entries" where
  "cache_evict iter now es = evict_loop now (iter es) '''' time_zero False es"

definition cache_set ::
    "(entries \<Rightarrow> entries) \<Rightarrow> go_time \<Rightarrow> string \<Rightarrow> string \<Rightarrow> go_duration \<Rightarrow> cache \<Rightarrow> cache" where
  "cache_set iter now key verdict ttl c =
     (if ttl \<le> 0 then c
      else let es = (if int (length (ca_entries c)) \<ge> ca_maxEntries c
                       then cache_evict iter now (ca_entries c) else ca_entries c)
           in c\<lparr>ca_entries := map_insert key \<lparr>ce_verdict = verdict, ce_expiresAt = now + ttl\<rparr> es\<rparr>)"

section \<open>Maps as lists of entries\<close>

lemma map_of_delete: "map_of (map_delete k es) k' = (if k' = k then None else map_of es k')"
  by (induction es) (auto simp: map_delete_def)

lemma map_of_insert [simp]: "map_of (map_insert k e es) = (map_of es)(k \<mapsto> e)"
  by (auto simp: map_insert_def map_of_delete)

lemma distinct_delete: "distinct (map fst es) \<Longrightarrow> distinct (map fst (map_delete k es))"
  by (induction es) (auto simp: map_delete_def)

lemma keys_delete: "fst ` set (map_delete k es) = fst ` set es - {k}"
  by (force simp: map_delete_def)

lemma distinct_insert: "distinct (map fst es) \<Longrightarrow> distinct (map fst (map_insert k e es))"
  by (auto simp: map_insert_def distinct_delete keys_delete)

lemma length_delete: "length (map_delete k es) \<le> length es"
  by (simp add: map_delete_def)

lemma length_delete_less: "k \<in> fst ` set es \<Longrightarrow> length (map_delete k es) < length es"
  by (auto simp: map_delete_def intro: length_filter_less)

text \<open>Eviction only removes.\<close>

lemma evict_loop_sub:
  "map_of (evict_loop now its k0 t0 found es) k = Some e \<Longrightarrow> map_of es k = Some e"
proof (induction now its k0 t0 found es rule: evict_loop.induct)
  case (1 now k0 t0 found es)
  then show ?case by (auto simp: map_of_delete split: if_splits)
next
  case (2 now key entry rest k0 t0 found es)
  then show ?case by (auto simp: map_of_delete split: if_splits)
qed

lemma evict_loop_distinct:
  "distinct (map fst es) \<Longrightarrow> distinct (map fst (evict_loop now its k0 t0 found es))"
  by (induction now its k0 t0 found es rule: evict_loop.induct) (auto intro: distinct_delete)

lemma evict_loop_length: "length (evict_loop now its k0 t0 found es) \<le> length es"
proof (induction now its k0 t0 found es rule: evict_loop.induct)
  case (2 now key entry rest k0 t0 found es)
  have "length (map_delete key es) \<le> length es" by (rule length_delete)
  with 2 show ?case by (auto split: if_splits)
qed (auto intro: length_delete)

section \<open>Eviction\<close>

abbreviation live :: "go_time \<Rightarrow> cacheEntry \<Rightarrow> bool" where
  "live now e \<equiv> now < ce_expiresAt e"

text \<open>Once an expired entry has been met, exactly the expired entries visited are deleted.\<close>

lemma evict_loop_found:
  "map_of (evict_loop now its k0 t0 True es) k =
     (if \<exists>e. (k, e) \<in> set its \<and> \<not> live now e then None else map_of es k)"
proof (induction its arbitrary: k0 t0 es k)
  case (Cons a its)
  obtain key e where a: "a = (key, e)" by fastforce
  show ?case by (cases "k = key") (auto simp: a Cons.IH map_of_delete)
qed simp

lemma evict_loop_expired:
  assumes "\<exists>(k, e) \<in> set its. \<not> live now e"
  shows "map_of (evict_loop now its k0 t0 found es) k =
     (if \<exists>e. (k, e) \<in> set its \<and> \<not> live now e then None else map_of es k)"
  using assms
proof (induction its arbitrary: k0 t0)
  case (Cons a its)
  obtain key e where a: "a = (key, e)" by fastforce
  show ?case
  proof (cases "live now e")
    case True
    with Cons show ?thesis by (auto simp: a)
  next
    case False
    then show ?thesis by (auto simp: a evict_loop_found map_of_delete)
  qed
qed simp

text \<open>With none expired, one of the entries closest to expiring goes.\<close>

lemma evict_loop_oldest:
  assumes "\<forall>(k, e) \<in> set its. live now e \<and> k \<noteq> ''''" and "its \<noteq> [] \<or> k0 \<noteq> ''''"
  shows "\<exists>k t. evict_loop now its k0 t0 False es = map_delete k es \<and> k \<noteq> '''' \<and>
    (k = k0 \<and> t = t0 \<or> (\<exists>e. (k, e) \<in> set its \<and> t = ce_expiresAt e)) \<and>
    (\<forall>(k', e) \<in> set its. t \<le> ce_expiresAt e) \<and> (k0 \<noteq> '''' \<longrightarrow> t \<le> t0)"
  using assms
proof (induction its arbitrary: k0 t0)
  case (Cons a its)
  obtain key e where a: "a = (key, e)" by fastforce
  let ?pick = "k0 = '''' \<or> ce_expiresAt e < t0"
  have live: "live now e" "key \<noteq> ''''" using Cons.prems(1) by (auto simp: a)
  show ?case
  proof (cases ?pick)
    case True
    then have step: "evict_loop now (a # its) k0 t0 False es = evict_loop now its key (ce_expiresAt e) False es"
      using live by (simp add: a)
    have "\<exists>k t. evict_loop now its key (ce_expiresAt e) False es = map_delete k es \<and> k \<noteq> '''' \<and>
      (k = key \<and> t = ce_expiresAt e \<or> (\<exists>e'. (k, e') \<in> set its \<and> t = ce_expiresAt e')) \<and>
      (\<forall>(k', e') \<in> set its. t \<le> ce_expiresAt e') \<and> (key \<noteq> '''' \<longrightarrow> t \<le> ce_expiresAt e)"
      using Cons.prems live by (intro Cons.IH) auto
    then show ?thesis unfolding step using True live by (fastforce simp: a)
  next
    case False
    then have step: "evict_loop now (a # its) k0 t0 False es = evict_loop now its k0 t0 False es"
      using live by (simp add: a)
    have "\<exists>k t. evict_loop now its k0 t0 False es = map_delete k es \<and> k \<noteq> '''' \<and>
      (k = k0 \<and> t = t0 \<or> (\<exists>e'. (k, e') \<in> set its \<and> t = ce_expiresAt e')) \<and>
      (\<forall>(k', e') \<in> set its. t \<le> ce_expiresAt e') \<and> (k0 \<noteq> '''' \<longrightarrow> t \<le> t0)"
      using Cons.prems False by (intro Cons.IH) auto
    then show ?thesis unfolding step using False by (fastforce simp: a)
  qed
qed auto

lemma evict_loop_expired_shrinks:
  assumes "\<exists>(k, e) \<in> set its. \<not> live now e \<and> k \<in> fst ` set es"
  shows "length (evict_loop now its k0 t0 found es) < length es"
  using assms
proof (induction its arbitrary: k0 t0 found)
  case (Cons a its)
  obtain key e where a: "a = (key, e)" by fastforce
  consider (here) "\<not> live now e" "key \<in> fst ` set es" | (gone) "\<not> live now e" "key \<notin> fst ` set es" | (alive) "live now e"
    by blast
  then show ?case
  proof cases
    case here
    have "length (evict_loop now its k0 t0 True (map_delete key es)) \<le> length (map_delete key es)"
      by (rule evict_loop_length)
    also have "\<dots> < length es" using here by (intro length_delete_less)
    finally show ?thesis using here by (simp add: a)
  next
    case gone
    have "map_delete key es = es" using gone by (force simp: map_delete_def filter_id_conv)
    with gone Cons show ?thesis by (auto simp: a)
  next
    case alive
    with Cons show ?thesis by (auto simp: a)
  qed
qed simp

section \<open>Any iteration order\<close>

definition cache_inv :: "cache \<Rightarrow> bool" where
  "cache_inv c \<longleftrightarrow> 0 < ca_maxEntries c \<and> distinct (map fst (ca_entries c)) \<and>
     '''' \<notin> fst ` set (ca_entries c) \<and> int (length (ca_entries c)) \<le> ca_maxEntries c"

lemma cache_inv_new: "cache_inv (newCache m)"
  by (simp add: cache_inv_def newCache_def)

lemma cache_inv_get: "cache_inv c \<Longrightarrow> cache_inv (snd (cache_get now k c))"
  using length_delete [of k "ca_entries c"]
  by (auto simp: cache_inv_def cache_get_def keys_delete distinct_delete split: option.splits)

text \<open>A hit is a live entry of exactly that key; a miss may drop an expired one.\<close>

lemma cache_get_eq:
  "cache_get now k c =
     (case map_of (ca_entries c) k of
        Some e \<Rightarrow> if live now e then ((ce_verdict e, True), c)
                  else ((VerdictUnknown, False), c\<lparr>ca_entries := map_delete k (ca_entries c)\<rparr>)
      | None \<Rightarrow> ((VerdictUnknown, False), c))"
  by (simp add: cache_get_def split: option.splits)

lemma cache_get_sub:
  "map_of (ca_entries (snd (cache_get now k c))) k' = Some e \<Longrightarrow> map_of (ca_entries c) k' = Some e"
  by (auto simp: cache_get_eq map_of_delete split: option.splits if_splits)

lemma cache_set_entries:
  assumes "map_of (ca_entries (cache_set iter now k v ttl c)) k' = Some e"
  shows "0 < ttl \<and> k' = k \<and> e = \<lparr>ce_verdict = v, ce_expiresAt = now + ttl\<rparr> \<or> map_of (ca_entries c) k' = Some e"
  using assms by (auto simp: cache_set_def Let_def cache_evict_def split: if_splits dest: evict_loop_sub)

lemma cache_set_same:
  "0 < ttl \<Longrightarrow> map_of (ca_entries (cache_set iter now k v ttl c)) k = Some \<lparr>ce_verdict = v, ce_expiresAt = now + ttl\<rparr>"
  by (simp add: cache_set_def Let_def)

lemma evict_loop_keys:
  "fst ` set (evict_loop now its k0 t0 found es) \<subseteq> fst ` set es"
  unfolding dom_map_of_conv_image_fst [symmetric] dom_def using evict_loop_sub by fast

locale map_iteration =
  fixes iter :: "entries \<Rightarrow> entries"
  assumes visits: "set (iter es) = set es"
begin

lemma evict_frees:
  assumes "es \<noteq> []" and "'''' \<notin> fst ` set es"
  shows "length (cache_evict iter now es) < length es"
proof (cases "\<exists>(k, e) \<in> set (iter es). \<not> live now e")
  case True
  then have "\<exists>(k, e) \<in> set (iter es). \<not> live now e \<and> k \<in> fst ` set es"
    by (force simp: visits)
  then show ?thesis unfolding cache_evict_def by (rule evict_loop_expired_shrinks)
next
  case False
  have "iter es \<noteq> []" using visits [of es] assms(1) by auto
  moreover have "\<forall>(k, e) \<in> set (iter es). live now e \<and> k \<noteq> ''''"
    using False assms(2) by (force simp: visits)
  ultimately obtain k where "evict_loop now (iter es) '''' time_zero False es = map_delete k es"
    "k \<in> fst ` set es"
    using evict_loop_oldest [of "iter es" now "''''" time_zero es] by (force simp: visits)
  then show ?thesis by (simp add: cache_evict_def length_delete_less)
qed

lemma evict_spec:
  assumes "distinct (map fst es)" and "'''' \<notin> fst ` set es" and "es \<noteq> []"
  shows "if \<exists>(k, e) \<in> set es. \<not> live now e
    then map_of (cache_evict iter now es) = (\<lambda>k. case map_of es k of None \<Rightarrow> None | Some e \<Rightarrow> if live now e then Some e else None)
    else \<exists>k e. map_of es k = Some e \<and> cache_evict iter now es = map_delete k es \<and>
           (\<forall>(k', e') \<in> set es. ce_expiresAt e \<le> ce_expiresAt e')"
proof (cases "\<exists>(k, e) \<in> set es. \<not> live now e")
  case True
  have "map_of (cache_evict iter now es) k =
      (case map_of es k of None \<Rightarrow> None | Some e \<Rightarrow> if live now e then Some e else None)" for k
    using evict_loop_expired [of "iter es" now "''''" time_zero False es k] True assms(1)
    by (auto simp: cache_evict_def visits map_of_eq_Some_iff map_of_eq_None_iff split: option.splits)
       (metis eq_key_imp_eq_value)
  with True show ?thesis by auto
next
  case False
  have "iter es \<noteq> []" using visits [of es] assms(3) by auto
  moreover have "\<forall>(k, e) \<in> set (iter es). live now e \<and> k \<noteq> ''''"
    using False assms(2) by (force simp: visits)
  ultimately obtain k e where "evict_loop now (iter es) '''' time_zero False es = map_delete k es"
    "(k, e) \<in> set es" "\<forall>(k', e') \<in> set es. ce_expiresAt e \<le> ce_expiresAt e'"
    using evict_loop_oldest [of "iter es" now "''''" time_zero es] unfolding visits by blast
  moreover from this have "map_of es k = Some e" using assms(1) by simp
  ultimately have "\<exists>k e. map_of es k = Some e \<and> cache_evict iter now es = map_delete k es \<and>
      (\<forall>(k', e') \<in> set es. ce_expiresAt e \<le> ce_expiresAt e')"
    unfolding cache_evict_def by blast
  with False show ?thesis by (simp only: if_False)
qed

lemma cache_inv_set:
  assumes "cache_inv c" and "k \<noteq> ''''"
  shows "cache_inv (cache_set iter now k v ttl c)"
proof (cases "ttl \<le> 0")
  case False
  define es where "es = (if int (length (ca_entries c)) \<ge> ca_maxEntries c
    then cache_evict iter now (ca_entries c) else ca_entries c)"
  have "int (length es) < ca_maxEntries c"
    using assms evict_frees [of "ca_entries c" now]
    by (cases "ca_entries c = []") (auto simp: cache_inv_def es_def)
  then have "int (length (map_insert k e es)) \<le> ca_maxEntries c" for e
    using length_delete [of k es] by (simp add: map_insert_def)
  moreover have "distinct (map fst es)"
    using assms by (auto simp: cache_inv_def cache_evict_def es_def intro: evict_loop_distinct)
  then have "distinct (map fst (map_insert k e es))" for e by (rule distinct_insert)
  moreover have "fst ` set es \<subseteq> fst ` set (ca_entries c)"
    using evict_loop_keys by (simp add: es_def cache_evict_def)
  then have "'''' \<notin> fst ` set (map_insert k e es)" for e
    using assms by (auto simp: cache_inv_def map_insert_def keys_delete)
  moreover have "cache_set iter now k v ttl c =
      c\<lparr>ca_entries := map_insert k \<lparr>ce_verdict = v, ce_expiresAt = now + ttl\<rparr> es\<rparr>"
    using False by (simp add: cache_set_def es_def)
  ultimately show ?thesis using assms(1) by (simp add: cache_inv_def)
qed (use assms in \<open>simp add: cache_set_def\<close>)

end

interpretation in_order: map_iteration "\<lambda>es. es"
  by unfold_locales simp

interpretation backwards: map_iteration rev
  by unfold_locales simp

section \<open>Properties\<close>

datatype cache_op = CacheGet go_time string | CacheSet go_time string string go_duration

fun cache_do :: "(entries \<Rightarrow> entries) \<Rightarrow> cache_op \<Rightarrow> cache \<Rightarrow> cache" where
  "cache_do iter (CacheGet now k) c = snd (cache_get now k c)"
| "cache_do iter (CacheSet now k v ttl) c = cache_set iter now k v ttl c"

fun cache_op_key :: "cache_op \<Rightarrow> string" where
  "cache_op_key (CacheGet now k) = k"
| "cache_op_key (CacheSet now k v ttl) = k"

text \<open>
  Whatever reads and writes of non-empty keys are made, in whatever order the
  runtime iterates its map, the cache never holds more entries than its bound, 4096 when none
  is given, nor two entries of a key.
\<close>

theorem cache_bounded:
  assumes "map_iteration iter" and "\<forall>op \<in> set ops. cache_op_key op \<noteq> ''''"
  shows "let c = fold (cache_do iter) ops (newCache m)
    in int (length (ca_entries c)) \<le> (if m \<le> 0 then 4096 else m) \<and> distinct (map fst (ca_entries c))"
proof -
  have "cache_inv (fold (cache_do iter) ops (newCache m)) \<and>
      ca_maxEntries (fold (cache_do iter) ops (newCache m)) = ca_maxEntries (newCache m)"
    using assms(2)
  proof (induction ops rule: rev_induct)
    case (snoc op ops)
    then show ?case
      using map_iteration.cache_inv_set [OF assms(1)] cache_inv_get
      by (cases op) (auto simp: cache_set_def cache_get_def Let_def split: option.splits)
  qed (simp add: cache_inv_new)
  then show ?thesis by (auto simp: cache_inv_def newCache_def Let_def)
qed

theorem cache_bounded_witness:
  "length (ca_entries (fold (cache_do rev) [CacheSet 1 ''a'' VerdictSafe 9, CacheSet 2 ''b'' VerdictSafe 9,
     CacheSet 3 ''c'' VerdictSafe 9] (newCache 2))) \<le> 2"
  using cache_bounded [OF backwards.map_iteration_axioms, of "[CacheSet 1 ''a'' VerdictSafe 9,
     CacheSet 2 ''b'' VerdictSafe 9, CacheSet 3 ''c'' VerdictSafe 9]" 2]
  by (simp add: Let_def)

text \<open>
  A written verdict is served for its own key until exactly its expiry and never
  after, and a write never changes what another key answers except to a miss.
\<close>

theorem cache_set_get:
  assumes "0 < ttl" and "k' \<noteq> k"
  shows "fst (cache_get now k (cache_set iter t k v ttl c)) =
      (if now < t + ttl then (v, True) else (VerdictUnknown, False)) \<and>
    fst (cache_get now k' (cache_set iter t k v ttl c)) \<in> {fst (cache_get now k' c), (VerdictUnknown, False)}"
proof (intro conjI)
  let ?c' = "cache_set iter t k v ttl c"
  show "fst (cache_get now k ?c') = (if now < t + ttl then (v, True) else (VerdictUnknown, False))"
    using cache_set_same [OF assms(1), of iter t k v c] by (simp add: cache_get_eq)
  have "map_of (ca_entries ?c') k' = None \<or> map_of (ca_entries ?c') k' = map_of (ca_entries c) k'"
    using cache_set_entries [of iter t k v ttl c k'] assms(2) by (cases "map_of (ca_entries ?c') k'") auto
  then show "fst (cache_get now k' ?c') \<in> {fst (cache_get now k' c), (VerdictUnknown, False)}"
    by (auto simp: cache_get_eq split: option.splits)
qed

theorem cache_set_get_witness:
  "fst (cache_get 8 ''u'' (cache_set rev 5 ''u'' VerdictMalicious 9 (newCache 2))) = (VerdictMalicious, True)"
  using cache_set_get [of 9 "''w''" "''u''" 8 rev 5 VerdictMalicious "newCache 2"] by simp

text \<open>
  Room is made by dropping exactly the expired entries, and only when there is none
  by dropping one of the entries closest to expiring, whatever the iteration order.
\<close>

theorem evict_expired_then_oldest:
  assumes "map_iteration iter" and "distinct (map fst es)" and "'''' \<notin> fst ` set es" and "es \<noteq> []"
  shows "if \<exists>(k, e) \<in> set es. \<not> live now e
    then map_of (cache_evict iter now es) = (\<lambda>k. case map_of es k of None \<Rightarrow> None | Some e \<Rightarrow> if live now e then Some e else None)
    else \<exists>k e. map_of es k = Some e \<and> cache_evict iter now es = map_delete k es \<and>
           (\<forall>(k', e') \<in> set es. ce_expiresAt e \<le> ce_expiresAt e')"
  using assms(2-4) by (rule map_iteration.evict_spec [OF assms(1)])

theorem evict_expired_then_oldest_witness:
  "map_of (cache_evict rev 5 [(''u'', \<lparr>ce_verdict = VerdictSafe, ce_expiresAt = 5\<rparr>),
     (''w'', \<lparr>ce_verdict = VerdictSafe, ce_expiresAt = 6\<rparr>)]) ''u'' = None"
  using evict_expired_then_oldest [OF backwards.map_iteration_axioms,
      of "[(''u'', \<lparr>ce_verdict = VerdictSafe, ce_expiresAt = 5\<rparr>), (''w'', \<lparr>ce_verdict = VerdictSafe, ce_expiresAt = 6\<rparr>)]" 5]
  by simp

end
