(* ===== verification/Url_Safety.thy ===== *)
theory Url_Safety
  imports Url_Breaker Url_Cache
begin

text \<open>
  The decision layer of \<open>libs/go/platform/urlsafety\<close>: the methods of \<open>Service\<close> in
  \<open>urlsafety.go\<close> and \<open>reconcile.go\<close>, which hold a provider's answers to its contract, remember
  them for a bounded time and keep the circuit breaker settled.

  The provider and the scanner are interfaces: what one call of them answers is an argument of
  the operation that makes it. An operation reads the clock and its context several times
  while the exchange goes on; the record \<open>exchange\<close> carries those readings. The counters the
  service increments are the list of their labels, latest first.
\<close>

section \<open>Results\<close>

abbreviation ReputationSafe :: string where "ReputationSafe \<equiv> ''safe''"
abbreviation ReputationMalicious :: string where "ReputationMalicious \<equiv> ''malicious''"
abbreviation ReputationUnknown :: string where "ReputationUnknown \<equiv> ''unknown''"

record ReputationResult =
  rr_Verdict :: string
  rr_Provider :: string
  rr_ProviderRef :: string
  rr_CheckedAt :: go_time
  rr_ThreatCategories :: "string list"
  rr_ExpiresAt :: go_time
  rr_Reason :: string

definition ReputationResult_zero :: ReputationResult where
  "ReputationResult_zero = \<lparr>rr_Verdict = '''', rr_Provider = '''', rr_ProviderRef = '''', rr_CheckedAt = time_zero,
     rr_ThreatCategories = [], rr_ExpiresAt = time_zero, rr_Reason = ''''\<rparr>"

definition LegacyVerdict :: "string \<Rightarrow> string" where
  "LegacyVerdict v =
     (if v = ReputationSafe then VerdictSafe
      else if v = ReputationMalicious then VerdictMalicious
      else VerdictInconclusive)"

definition reputationFromVerdict :: "string \<Rightarrow> string \<times> url_error option" where
  "reputationFromVerdict v =
     (if v = VerdictSafe then (ReputationSafe, None)
      else if v = VerdictMalicious then (ReputationMalicious, None)
      else ('''', Some ErrUnavailable))"

abbreviation resultHit :: string where "resultHit \<equiv> ''hit''"
abbreviation resultMiss :: string where "resultMiss \<equiv> ''miss''"
abbreviation resultSubmitted :: string where "resultSubmitted \<equiv> ''submitted''"
abbreviation resultPending :: string where "resultPending \<equiv> ''pending''"
abbreviation resultSafe :: string where "resultSafe \<equiv> ''safe''"
abbreviation resultMalicious :: string where "resultMalicious \<equiv> ''malicious''"
abbreviation resultError :: string where "resultError \<equiv> ''error''"
abbreviation resultInconclusive :: string where "resultInconclusive \<equiv> ''inconclusive''"
abbreviation resultCircuitOpen :: string where "resultCircuitOpen \<equiv> ''circuit_open''"

definition resultFor :: "string \<Rightarrow> string" where
  "resultFor v =
     (if v = VerdictSafe then resultSafe else if v = VerdictMalicious then resultMalicious else resultError)"

abbreviation ReasonUnavailable :: string where "ReasonUnavailable \<equiv> ''unavailable''"
abbreviation ReasonCircuitOpen :: string where "ReasonCircuitOpen \<equiv> ''circuit_open''"

fun FailureReason :: "url_error \<Rightarrow> string" where
  "FailureReason (ReasonedError reason) = reason"
| "FailureReason e = (if errors_Is (Some e) ErrCircuitOpen then ReasonCircuitOpen else ReasonUnavailable)"

section \<open>The service\<close>

record Service =
  sv_has_scanner :: bool
  sv_has_provider :: bool
  sv_breaker :: Breaker
  sv_cache :: cache
  sv_observed :: "string list"

text \<open>
  The readings of one operation: the clock at admission, at settlement, where the lifetime of
  the evidence is computed and where the cache is written; \<open>ctx.Err()\<close> at settlement and at
  the check after it; and the order in which the runtime iterates the cache.
\<close>

record exchange =
  ex_allow_at :: go_time
  ex_complete_at :: go_time
  ex_lifetime_at :: go_time
  ex_set_at :: go_time
  ex_ctx_settle :: "url_error option"
  ex_ctx_return :: "url_error option"
  ex_iter :: "entries \<Rightarrow> entries"

definition newService :: "bool \<Rightarrow> bool \<Rightarrow> Service" where
  "newService has_scanner has_provider =
     \<lparr>sv_has_scanner = has_scanner, sv_has_provider = has_provider, sv_breaker = newBreaker 0 0,
      sv_cache = newCache maxCacheEntries, sv_observed = []\<rparr>"

definition observe :: "string \<Rightarrow> Service \<Rightarrow> Service" where
  "observe result s = s\<lparr>sv_observed := result # sv_observed s\<rparr>"

definition remember_at ::
    "exchange \<Rightarrow> string \<Rightarrow> string \<Rightarrow> go_duration \<Rightarrow> Service \<Rightarrow> Service" where
  "remember_at x url verdict ttl s =
     s\<lparr>sv_cache := cache_set (ex_iter x) (ex_set_at x) url verdict ttl (sv_cache s)\<rparr>"

definition settle_breaker :: "exchange \<Rightarrow> url_error option \<Rightarrow> Service \<Rightarrow> Service" where
  "settle_breaker x err s =
     s\<lparr>sv_breaker := Breaker_Complete (ex_complete_at x) (breakerOutcome (ex_ctx_settle x) err) (sv_breaker s)\<rparr>"

definition admit :: "exchange \<Rightarrow> Service \<Rightarrow> bool \<times> Service" where
  "admit x s = (let (ok, b) = Breaker_Allow (ex_allow_at x) (sv_breaker s) in (ok, s\<lparr>sv_breaker := b\<rparr>))"

definition evidenceLifetime :: "go_time \<Rightarrow> ReputationResult \<Rightarrow> go_duration" where
  "evidenceLifetime now result =
     (if IsZero (rr_ExpiresAt result) then VerdictTTL
      else let stated = time_sub (rr_ExpiresAt result) now
           in if stated < VerdictTTL then stated else VerdictTTL)"

type_synonym answer = "ReputationResult \<times> url_error option"

definition settleCheck :: "exchange \<Rightarrow> string \<Rightarrow> answer \<Rightarrow> Service \<Rightarrow> Service \<times> answer" where
  "settleCheck x url ans s =
     (let (result, err) = ans in
      if errors_Is err ErrCheckInProgress then (observe resultPending s, result, err)
      else if err \<noteq> None
        then (observe resultError (remember_at x url VerdictUnknown FailureTTL s),
              ReputationResult_zero, Some ErrUnavailable)
      else if rr_Verdict result = ReputationSafe \<or> rr_Verdict result = ReputationMalicious
        then (observe (rr_Verdict result)
                (remember_at x url (LegacyVerdict (rr_Verdict result))
                   (evidenceLifetime (ex_lifetime_at x) result) s), result, None)
      else if rr_Verdict result = ReputationUnknown then (observe resultInconclusive s, result, None)
      else (observe resultError (remember_at x url VerdictUnknown FailureTTL s),
            ReputationResult_zero, Some ErrUnavailable))"

definition Service_Check :: "exchange \<Rightarrow> string \<Rightarrow> answer \<Rightarrow> Service \<Rightarrow> Service \<times> answer" where
  "Service_Check x url ans s0 =
     (if \<not> sv_has_provider s0
        then (observe resultError s0, ReputationResult_zero, Some ErrUnavailable)
      else let (ok, s) = admit x s0 in
        if \<not> ok then (observe resultCircuitOpen s, ReputationResult_zero, Some ErrCircuitOpen)
        else let s = settle_breaker x (snd ans) s in
          if ex_ctx_return x \<noteq> None then (s, ReputationResult_zero, ex_ctx_return x)
          else settleCheck x url ans s)"

definition Service_CheckSecondary ::
    "exchange \<Rightarrow> string \<Rightarrow> bool \<Rightarrow> answer \<Rightarrow> Service \<Rightarrow> Service \<times> answer" where
  "Service_CheckSecondary x url supported ans s0 =
     (if \<not> supported then (s0, ReputationResult_zero, Some ErrSecondaryUnsupported)
      else let (ok, s) = admit x s0 in
        if \<not> ok then (observe resultCircuitOpen s, ReputationResult_zero, Some ErrCircuitOpen)
        else let s = settle_breaker x (snd ans) s; result = fst ans in
          if ex_ctx_return x \<noteq> None then (s, ReputationResult_zero, ex_ctx_return x)
          else if snd ans \<noteq> None then (observe resultError s, ReputationResult_zero, snd ans)
          else let s = (if rr_Verdict result = ReputationMalicious
                          then remember_at x url VerdictMalicious (evidenceLifetime (ex_lifetime_at x) result) s
                        else s)
               in (observe (rr_Verdict result) s, result, None))"

definition Service_Lookup :: "go_time \<Rightarrow> string \<Rightarrow> Service \<Rightarrow> Service \<times> string \<times> bool" where
  "Service_Lookup now url s0 =
     (let ((verdict, ok), c) = cache_get now url (sv_cache s0); s = s0\<lparr>sv_cache := c\<rparr> in
      if \<not> ok \<or> \<not> Verdict_IsFinal verdict then (observe resultMiss s, VerdictUnknown, False)
      else (observe resultHit s, verdict, True))"

definition Service_Submit ::
    "exchange \<Rightarrow> string \<Rightarrow> string \<times> url_error option \<Rightarrow> Service \<Rightarrow> Service \<times> string \<times> url_error option" where
  "Service_Submit x url ans s0 =
     (if \<not> sv_has_scanner s0 then (observe resultError s0, '''', Some ErrUnavailable)
      else let (ok, s) = admit x s0 in
        if \<not> ok then (observe resultCircuitOpen s, '''', Some ErrCircuitOpen)
        else let (scanID, err0) = ans;
                 err = (if err0 = None \<and> go_trim_space scanID = '''' then Some ErrUnavailable else err0);
                 s = settle_breaker x err s in
          if ex_ctx_return x \<noteq> None then (s, '''', ex_ctx_return x)
          else if err \<noteq> None
            then (observe resultError (remember_at x url VerdictUnknown FailureTTL s), '''', Some ErrUnavailable)
          else (observe resultSubmitted s, scanID, None))"

definition Service_Poll ::
    "exchange \<Rightarrow> string \<Rightarrow> string \<times> url_error option \<Rightarrow> Service \<Rightarrow> Service \<times> string \<times> url_error option" where
  "Service_Poll x url ans s0 =
     (if \<not> sv_has_scanner s0 then (observe resultError s0, VerdictUnknown, Some ErrUnavailable)
      else let (ok, s) = admit x s0 in
        if \<not> ok then (observe resultCircuitOpen s, VerdictUnknown, Some ErrCircuitOpen)
        else let (verdict, err) = ans; s = settle_breaker x err s in
          if ex_ctx_return x \<noteq> None then (s, VerdictUnknown, ex_ctx_return x)
          else if errors_Is err ErrScanPending
            then (observe resultPending s, VerdictUnknown, Some ErrScanPending)
          else if errors_Is err ErrScanInconclusive
            then (observe resultInconclusive s, VerdictUnknown, Some ErrScanInconclusive)
          else if err \<noteq> None \<or> \<not> Verdict_IsFinal verdict
            then (observe resultError (remember_at x url VerdictUnknown FailureTTL s),
                  VerdictUnknown, Some ErrUnavailable)
          else (observe (resultFor verdict) (remember_at x url verdict VerdictTTL s), verdict, None))"

definition Service_Remember :: "exchange \<Rightarrow> string \<Rightarrow> string \<Rightarrow> go_duration \<Rightarrow> Service \<Rightarrow> Service" where
  "Service_Remember x url verdict remaining s =
     (if \<not> Verdict_IsFinal verdict \<or> remaining \<le> 0 then s else remember_at x url verdict remaining s)"

section \<open>Reconciliation\<close>

abbreviation reconcileLookback :: go_duration where "reconcileLookback \<equiv> 24 * duration_hour"

record ScanRecord =
  sr_UUID :: string
  sr_URL :: string
  sr_SubmittedAt :: go_time
  sr_Visibility :: string

record ScanEvidence =
  se_Verdict :: string
  se_ObservedAt :: go_time
  se_CandidateFound :: bool

definition ScanEvidence_zero :: ScanEvidence where
  "ScanEvidence_zero = \<lparr>se_Verdict = '''', se_ObservedAt = time_zero, se_CandidateFound = False\<rparr>"

definition ScanEvidence_Age :: "go_time \<Rightarrow> ScanEvidence \<Rightarrow> go_duration" where
  "ScanEvidence_Age now e = time_sub now (se_ObservedAt e)"

definition ScanEvidence_ExpiresAt :: "ScanEvidence \<Rightarrow> go_time" where
  "ScanEvidence_ExpiresAt e = se_ObservedAt e + VerdictTTL"

text \<open>
  What the scanner answers to a reconciliation: whether it can date a report, the search (an
  error or the record) and the report of the scan found (verdict, time, error).
\<close>

record reconcile_answers =
  ra_can_date :: bool
  ra_find :: "url_error + ScanRecord"
  ra_report :: "string \<times> go_time \<times> url_error option"

text \<open>The dating of a report, with the submission of the scan as its stand-in.\<close>

definition reconcile_observed :: "go_time \<Rightarrow> go_time \<Rightarrow> go_time \<Rightarrow> go_time" where
  "reconcile_observed now observedAt submittedAt =
     (let observed = (if IsZero observedAt then submittedAt else observedAt)
      in if observed > now then now else observed)"

definition reconcileAt ::
    "exchange \<Rightarrow> string \<Rightarrow> go_time \<Rightarrow> reconcile_answers \<Rightarrow> Service \<Rightarrow> Service \<times> ScanEvidence \<times> url_error option" where
  "reconcileAt x url now ra s =
     (if \<not> sv_has_scanner s then (s, ScanEvidence_zero, Some ErrUnavailable)
      else if \<not> ra_can_date ra then (s, ScanEvidence_zero, Some ErrSearchUnsupported)
      else case ra_find ra of
        Inl err \<Rightarrow> (s, ScanEvidence_zero, Some err)
      | Inr record' \<Rightarrow>
          if sr_UUID record' = '''' then (s, ScanEvidence_zero, Some ErrNotCheckable)
          else let found = ScanEvidence_zero\<lparr>se_CandidateFound := True\<rparr>;
                   (verdict, observedAt, err) = ra_report ra in
            if ex_ctx_return x \<noteq> None then (s, found, ex_ctx_return x)
            else if err \<noteq> None then (s, found, err)
            else if \<not> Verdict_IsFinal verdict then (s, found, Some ErrUnavailable)
            else if IsZero observedAt \<and> IsZero (sr_SubmittedAt record') then (s, found, Some ErrEvidenceExpired)
            else let evidence = \<lparr>se_Verdict = verdict,
                       se_ObservedAt = reconcile_observed now observedAt (sr_SubmittedAt record'),
                       se_CandidateFound = True\<rparr> in
              if verdict = VerdictSafe \<and> \<not> ScanEvidence_ExpiresAt evidence > now
                then (s, found, Some ErrEvidenceExpired)
              else (observe (resultFor verdict)
                      (Service_Remember x url verdict (time_sub (ScanEvidence_ExpiresAt evidence) now) s),
                    evidence, None))"

definition ReconcileOutcome :: "string \<Rightarrow> url_error option \<Rightarrow> string" where
  "ReconcileOutcome verdict err =
     (if err = None \<and> verdict = VerdictSafe then ''safe''
      else if err = None \<and> verdict = VerdictMalicious then ''malicious''
      else if errors_Is err ErrNotCheckable then ''no_candidate''
      else if errors_Is err ErrScanInconclusive \<or> errors_Is err ErrScanPending \<or> errors_Is err ErrEvidenceExpired
        then ''still_inconclusive''
      else if errors_Is err ErrSearchUnsupported then ''unsupported''
      else ''provider_error'')"

section \<open>Runs of a service\<close>

datatype svc_op =
    OpCheck exchange string answer
  | OpCheckSecondary exchange string bool answer
  | OpLookup go_time string
  | OpSubmit exchange string "string \<times> url_error option"
  | OpPoll exchange string "string \<times> url_error option"
  | OpRemember exchange string string go_duration
  | OpReconcile exchange string go_time reconcile_answers

fun svc_do :: "svc_op \<Rightarrow> Service \<Rightarrow> Service" where
  "svc_do (OpCheck x url ans) s = fst (Service_Check x url ans s)"
| "svc_do (OpCheckSecondary x url supported ans) s = fst (Service_CheckSecondary x url supported ans s)"
| "svc_do (OpLookup now url) s = fst (Service_Lookup now url s)"
| "svc_do (OpSubmit x url ans) s = fst (Service_Submit x url ans s)"
| "svc_do (OpPoll x url ans) s = fst (Service_Poll x url ans s)"
| "svc_do (OpRemember x url v remaining) s = Service_Remember x url v remaining s"
| "svc_do (OpReconcile x url now ra) s = fst (reconcileAt x url now ra s)"

text \<open>
  An exchange concluded: the provider or the scanner answered, without an error and with nobody gone away,
  that \<open>url\<close> is \<open>v\<close>, and this may be used until \<open>t\<close> at most. The lifetime an answer states is counted from
  the clock reading \<open>ex_lifetime_at\<close>, that of a scan adopted later from the scan itself.
\<close>

fun concluded :: "svc_op \<Rightarrow> string \<Rightarrow> string \<Rightarrow> go_time \<Rightarrow> bool" where
  "concluded (OpCheck x url (result, err)) url' v t \<longleftrightarrow>
     url' = url \<and> err = None \<and> ex_ctx_return x = None \<and> rr_Verdict result = v \<and>
     t \<le> ex_set_at x + VerdictTTL \<and>
     (IsZero (rr_ExpiresAt result) \<or> t \<le> rr_ExpiresAt result + (ex_set_at x - ex_lifetime_at x))"
| "concluded (OpCheckSecondary x url supported (result, err)) url' v t \<longleftrightarrow>
     url' = url \<and> supported \<and> err = None \<and> ex_ctx_return x = None \<and>
     rr_Verdict result = v \<and> v = VerdictMalicious \<and> t \<le> ex_set_at x + VerdictTTL \<and>
     (IsZero (rr_ExpiresAt result) \<or> t \<le> rr_ExpiresAt result + (ex_set_at x - ex_lifetime_at x))"
| "concluded (OpPoll x url (verdict, err)) url' v t \<longleftrightarrow>
     url' = url \<and> err = None \<and> ex_ctx_return x = None \<and> verdict = v \<and> t \<le> ex_set_at x + VerdictTTL"
| "concluded (OpReconcile x url now ra) url' v t \<longleftrightarrow>
     url' = url \<and> ex_ctx_return x = None \<and> fst (ra_report ra) = v \<and> snd (snd (ra_report ra)) = None \<and>
     (case ra_find ra of
        Inl _ \<Rightarrow> False
      | Inr scan \<Rightarrow> sr_UUID scan \<noteq> '''' \<and>
          t \<le> reconcile_observed now (fst (snd (ra_report ra))) (sr_SubmittedAt scan) + VerdictTTL + (ex_set_at x - now))"
| "concluded _ url' v t = False"

text \<open>A verdict the caller itself hands to \<open>Remember\<close>, with the lifetime the caller says is left of it.\<close>

fun handed_over :: "svc_op \<Rightarrow> string \<Rightarrow> string \<Rightarrow> go_time \<Rightarrow> bool" where
  "handed_over (OpRemember x url verdict remaining) url' v t \<longleftrightarrow>
     url' = url \<and> verdict = v \<and> 0 < remaining \<and> t \<le> ex_set_at x + remaining"
| "handed_over _ url' v t = False"

definition evidence :: "svc_op \<Rightarrow> string \<Rightarrow> string \<Rightarrow> go_time \<Rightarrow> bool" where
  "evidence op url v t \<longleftrightarrow> concluded op url v t \<or> handed_over op url v t"

lemma evidence_simps [simp]:
  "evidence (OpCheck x url ans) url' v t = concluded (OpCheck x url ans) url' v t"
  "evidence (OpCheckSecondary x url supported ans) url' v t = concluded (OpCheckSecondary x url supported ans) url' v t"
  "evidence (OpPoll x url vans) url' v t = concluded (OpPoll x url vans) url' v t"
  "evidence (OpReconcile x url now ra) url' v t = concluded (OpReconcile x url now ra) url' v t"
  "evidence (OpRemember x url verdict remaining) url' v t = handed_over (OpRemember x url verdict remaining) url' v t"
  by (simp_all add: evidence_def)

lemmas service_defs = Service_Check_def Service_CheckSecondary_def Service_Lookup_def Service_Submit_def
  Service_Poll_def Service_Remember_def reconcileAt_def settleCheck_def

lemma service_frames [simp]:
  "sv_cache (observe r s) = sv_cache s"
  "sv_breaker (observe r s) = sv_breaker s"
  "sv_cache (settle_breaker x err s) = sv_cache s"
  "sv_breaker (remember_at x url v ttl s) = sv_breaker s"
  "sv_cache (snd (admit x s)) = sv_cache s"
  by (simp_all add: observe_def settle_breaker_def remember_at_def admit_def Let_def split: prod.splits)

text \<open>What an operation leaves for a URL was there before, is a failure, or is its own evidence.\<close>

definition cache_step_ok :: "svc_op \<Rightarrow> Service \<Rightarrow> bool" where
  "cache_step_ok op s \<longleftrightarrow> (\<forall>url e.
     map_of (ca_entries (sv_cache (svc_do op s))) url = Some e \<longrightarrow>
       map_of (ca_entries (sv_cache s)) url = Some e \<or> ce_verdict e = VerdictUnknown \<or>
       Verdict_IsFinal (ce_verdict e) \<and> evidence op url (ce_verdict e) (ce_expiresAt e))"

lemma remember_at_entries:
  assumes "map_of (ca_entries (sv_cache (remember_at x url v ttl s))) url' = Some e"
  shows "map_of (ca_entries (sv_cache s)) url' = Some e \<or>
    0 < ttl \<and> url' = url \<and> ce_verdict e = v \<and> ce_expiresAt e = ex_set_at x + ttl"
  using assms cache_set_entries [of "ex_iter x" "ex_set_at x" url v ttl "sv_cache s" url' e]
  by (auto simp: remember_at_def)

lemma evidenceLifetime_bounds:
  "evidenceLifetime now r \<le> VerdictTTL"
  "IsZero (rr_ExpiresAt r) \<or> evidenceLifetime now r \<le> max (rr_ExpiresAt r - now) min_duration"
  by (auto simp: evidenceLifetime_def Let_def time_sub_def)

lemma cache_step_refl: "sv_cache (svc_do op s) = sv_cache s \<Longrightarrow> cache_step_ok op s"
  by (simp add: cache_step_ok_def)

text \<open>Every operation writes the cache at most once, through \<open>remember_at\<close>.\<close>

lemma cache_step_write:
  assumes "sv_cache (svc_do op s) = sv_cache (remember_at x url v ttl s)"
    and "0 < ttl \<Longrightarrow> v = VerdictUnknown \<or> Verdict_IsFinal v \<and> evidence op url v (ex_set_at x + ttl)"
  shows "cache_step_ok op s"
  unfolding cache_step_ok_def assms(1) using remember_at_entries [of x url v ttl s] assms(2) by metis

lemma remember_at_cache:
  "sv_cache s = sv_cache s' \<Longrightarrow> sv_cache (remember_at x url v ttl s) = sv_cache (remember_at x url v ttl s')"
  by (simp add: remember_at_def)

lemma settleCheck_cache:
  assumes "snd ans = None \<and> Verdict_IsFinal (rr_Verdict (fst ans))"
  shows "sv_cache (fst (settleCheck x url ans s)) =
    sv_cache (remember_at x url (rr_Verdict (fst ans)) (evidenceLifetime (ex_lifetime_at x) (fst ans)) s)"
  using assms by (cases ans) (auto simp: settleCheck_def Verdict_IsFinal_def LegacyVerdict_def)

lemma settleCheck_other:
  assumes "\<not> (snd ans = None \<and> Verdict_IsFinal (rr_Verdict (fst ans)))"
  shows "sv_cache (fst (settleCheck x url ans s)) \<in>
    {sv_cache s, sv_cache (remember_at x url VerdictUnknown FailureTTL s)}"
  using assms by (cases ans) (auto simp: settleCheck_def Verdict_IsFinal_def)

lemma admit_cache: "admit x s = (ok, s') \<Longrightarrow> sv_cache s' = sv_cache s"
  using service_frames(5) [of x s] by simp

lemma cache_step_Check: "cache_step_ok (OpCheck x url ans) s"
proof -
  obtain result err where ans: "ans = (result, err)" by fastforce
  obtain ok s1 where adm: "admit x s = (ok, s1)" by fastforce
  let ?s2 = "settle_breaker x err s1"
  have c2: "sv_cache ?s2 = sv_cache s" using admit_cache [OF adm] by simp
  have "sv_cache (fst (Service_Check x url ans s)) \<in> {sv_cache s, sv_cache (fst (settleCheck x url ans ?s2))}"
    and "ex_ctx_return x \<noteq> None \<Longrightarrow> sv_cache (fst (Service_Check x url ans s)) = sv_cache s"
    using admit_cache [OF adm] by (auto simp: Service_Check_def adm ans Let_def)
  then consider (same) "sv_cache (fst (Service_Check x url ans s)) = sv_cache s"
    | (settled) "sv_cache (fst (Service_Check x url ans s)) = sv_cache (fst (settleCheck x url ans ?s2))"
        "ex_ctx_return x = None"
    by auto
  then show ?thesis
  proof cases
    case settled
    show ?thesis
    proof (cases "snd ans = None \<and> Verdict_IsFinal (rr_Verdict (fst ans))")
      case True
      then have "sv_cache (svc_do (OpCheck x url ans) s) =
          sv_cache (remember_at x url (rr_Verdict result) (evidenceLifetime (ex_lifetime_at x) result) s)"
        using settled(1) remember_at_cache [OF c2] by (simp add: settleCheck_cache ans)
      then show ?thesis
        using True settled(2) evidenceLifetime_bounds [where now = "ex_lifetime_at x" and r = result]
        by (intro cache_step_write) (auto simp: ans)
    next
      case False
      then show ?thesis
        using settleCheck_other [OF False, of x url ?s2] settled(1) c2 remember_at_cache [OF c2]
        by (auto intro: cache_step_refl cache_step_write)
    qed
  qed (simp add: cache_step_refl)
qed

text \<open>
  The other operations write only where their last guard is passed: each lemma names the write
  and its condition.
\<close>

lemma Poll_cache:
  "sv_cache (fst (Service_Poll x url ans s)) \<in> {sv_cache s, sv_cache (remember_at x url VerdictUnknown FailureTTL s)} \<or>
   sv_cache (fst (Service_Poll x url ans s)) = sv_cache (remember_at x url (fst ans) VerdictTTL s) \<and>
     snd ans = None \<and> Verdict_IsFinal (fst ans) \<and> ex_ctx_return x = None"
proof -
  obtain ok s1 where adm: "admit x s = (ok, s1)" by fastforce
  obtain v err where ans: "ans = (v, err)" by fastforce
  have c: "sv_cache (settle_breaker x err s1) = sv_cache s" using admit_cache [OF adm] by simp
  show ?thesis
    using admit_cache [OF adm] remember_at_cache [OF c] c
    by (auto simp: Service_Poll_def adm ans Let_def)
qed

lemma Submit_cache:
  "sv_cache (fst (Service_Submit x url ans s)) \<in>
     {sv_cache s, sv_cache (remember_at x url VerdictUnknown FailureTTL s)}"
proof -
  obtain ok s1 where adm: "admit x s = (ok, s1)" by fastforce
  obtain v err where ans: "ans = (v, err)" by fastforce
  have c: "sv_cache (settle_breaker x err' s1) = sv_cache s" for err' using admit_cache [OF adm] by simp
  show ?thesis
    using admit_cache [OF adm] remember_at_cache [OF c] c
    by (auto simp: Service_Submit_def adm ans Let_def)
qed

lemma CheckSecondary_cache:
  "sv_cache (fst (Service_CheckSecondary x url supported ans s)) = sv_cache s \<or>
   sv_cache (fst (Service_CheckSecondary x url supported ans s)) =
       sv_cache (remember_at x url VerdictMalicious (evidenceLifetime (ex_lifetime_at x) (fst ans)) s) \<and>
     snd ans = None \<and> rr_Verdict (fst ans) = ReputationMalicious \<and> ex_ctx_return x = None \<and> supported"
proof -
  obtain ok s1 where adm: "admit x s = (ok, s1)" by fastforce
  obtain r err where ans: "ans = (r, err)" by fastforce
  have c: "sv_cache (settle_breaker x err s1) = sv_cache s" using admit_cache [OF adm] by simp
  show ?thesis
    using admit_cache [OF adm] remember_at_cache [OF c] c
    by (auto simp: Service_CheckSecondary_def adm ans Let_def)
qed

lemma reconcile_cache:
  assumes "sv_cache (fst (reconcileAt x url now ra s)) \<noteq> sv_cache s"
  obtains scan where "ra_find ra = Inr scan" and "sr_UUID scan \<noteq> ''''" and "snd (snd (ra_report ra)) = None"
    and "Verdict_IsFinal (fst (ra_report ra))" and "ex_ctx_return x = None"
    and "sv_cache (fst (reconcileAt x url now ra s)) = sv_cache (remember_at x url (fst (ra_report ra))
      (time_sub (reconcile_observed now (fst (snd (ra_report ra))) (sr_SubmittedAt scan) + VerdictTTL) now) s)"
proof -
  obtain v t err where rep: "ra_report ra = (v, t, err)" by (metis prod_cases3)
  show thesis
    using assms that
    by (auto simp: reconcileAt_def rep Let_def Service_Remember_def ScanEvidence_ExpiresAt_def split: sum.splits if_splits)
qed

lemma cache_step_failure:
  "sv_cache (svc_do op s) \<in> {sv_cache s, sv_cache (remember_at x url VerdictUnknown FailureTTL s)} \<Longrightarrow>
     cache_step_ok op s"
  using cache_step_refl cache_step_write [of op s x url VerdictUnknown FailureTTL] by blast

lemma cache_step_CheckSecondary: "cache_step_ok (OpCheckSecondary x url supported ans) s"
proof (cases "sv_cache (fst (Service_CheckSecondary x url supported ans s)) = sv_cache s")
  case False
  obtain r err where ans: "ans = (r, err)" by fastforce
  show ?thesis
    using CheckSecondary_cache [of x url supported ans s] False evidenceLifetime_bounds [where now = "ex_lifetime_at x" and r = r]
    by (intro cache_step_write [where x = x and url = url and v = VerdictMalicious
          and ttl = "evidenceLifetime (ex_lifetime_at x) r"]) (auto simp: ans Verdict_IsFinal_def)
qed (simp add: cache_step_refl)

lemma cache_step_Poll: "cache_step_ok (OpPoll x url ans) s"
proof (cases "sv_cache (fst (Service_Poll x url ans s)) \<in>
    {sv_cache s, sv_cache (remember_at x url VerdictUnknown FailureTTL s)}")
  case True
  then show ?thesis using cache_step_failure [of "OpPoll x url ans" s x url] by simp
next
  case False
  obtain v err where ans: "ans = (v, err)" by fastforce
  show ?thesis
    using Poll_cache [of x url ans s] False
    by (intro cache_step_write [where x = x and url = url and v = v and ttl = VerdictTTL]) (auto simp: ans)
qed

lemma cache_step_Reconcile: "cache_step_ok (OpReconcile x url now ra) s"
proof (cases "sv_cache (fst (reconcileAt x url now ra s)) = sv_cache s")
  case False
  then obtain scan where scan: "ra_find ra = Inr scan" "sr_UUID scan \<noteq> ''''" "snd (snd (ra_report ra)) = None"
    "Verdict_IsFinal (fst (ra_report ra))" "ex_ctx_return x = None"
    and cache: "sv_cache (fst (reconcileAt x url now ra s)) = sv_cache (remember_at x url (fst (ra_report ra))
      (time_sub (reconcile_observed now (fst (snd (ra_report ra))) (sr_SubmittedAt scan) + VerdictTTL) now) s)"
    by (rule reconcile_cache)
  have exact: "0 < time_sub a now \<Longrightarrow> time_sub a now \<le> a - now" for a by (auto simp: time_sub_def)
  show ?thesis
    by (rule cache_step_write [of _ _ x url _ "time_sub (reconcile_observed now (fst (snd (ra_report ra))) (sr_SubmittedAt scan) + VerdictTTL) now"])
      (use cache scan exact in \<open>auto simp: algebra_simps\<close>)
qed (simp add: cache_step_refl)

lemma Lookup_cache: "sv_cache (fst (Service_Lookup now url s)) = snd (cache_get now url (sv_cache s))"
  by (simp add: Service_Lookup_def Let_def split: prod.splits)

lemma cache_step_Lookup: "cache_step_ok (OpLookup now url) s"
  unfolding cache_step_ok_def svc_do.simps Lookup_cache using cache_get_sub by metis

lemma cache_step_Remember: "cache_step_ok (OpRemember x url v remaining) s"
proof (cases "Verdict_IsFinal v \<and> 0 < remaining")
  case True
  then show ?thesis
    by (intro cache_step_write [where x = x and url = url and v = v and ttl = remaining])
       (auto simp: Service_Remember_def)
qed (auto simp: Service_Remember_def intro: cache_step_refl)

lemma cache_step_Submit: "cache_step_ok (OpSubmit x url ans) s"
  using Submit_cache [of x url ans s] by (intro cache_step_failure [of _ _ x url]) simp

lemma cache_step: "cache_step_ok op s"
  by (cases op) (simp_all only: cache_step_Check cache_step_CheckSecondary cache_step_Lookup
      cache_step_Submit cache_step_Poll cache_step_Remember cache_step_Reconcile)

text \<open>Over a run: every verdict in the cache has its evidence among the operations.\<close>

lemma cache_run:
  assumes "map_of (ca_entries (sv_cache (fold svc_do ops (newService a b)))) url = Some e"
  shows "ce_verdict e = VerdictUnknown \<or> Verdict_IsFinal (ce_verdict e) \<and>
    (\<exists>op \<in> set ops. evidence op url (ce_verdict e) (ce_expiresAt e))"
  using assms
proof (induction ops rule: rev_induct)
  case Nil
  then show ?case by (simp add: newService_def newCache_def)
next
  case (snoc op ops)
  then show ?case
    using cache_step [of op "fold svc_do ops (newService a b)"] by (auto simp: cache_step_ok_def)
qed

section \<open>The circuit of a service\<close>

lemma admit_breaker: "admit x s = (ok, s') \<Longrightarrow>
    sv_breaker s' = snd (Breaker_Allow (ex_allow_at x) (sv_breaker s)) \<and> ok = fst (Breaker_Allow (ex_allow_at x) (sv_breaker s))"
  by (auto simp: admit_def Let_def split: prod.splits)

lemma refused_unchanged: "\<not> fst (Breaker_Allow now b) \<Longrightarrow> snd (Breaker_Allow now b) = b"
  by (auto simp: Breaker_Allow_def split: BreakerState.splits if_splits)

lemma settle_not_probing [simp]: "\<not> br_probing (sv_breaker (settle_breaker x err s))"
  by (simp add: settle_breaker_def)

text \<open>Exchanges that run to their end one after the other leave no probe behind.\<close>

lemma svc_do_not_probing:
  assumes "\<not> br_probing (sv_breaker s)"
  shows "\<not> br_probing (sv_breaker (svc_do op s))"
proof (cases op)
  case (OpCheck x url ans)
  obtain ok s1 where adm: "admit x s = (ok, s1)" by fastforce
  have "\<not> br_probing (sv_breaker (fst (settleCheck x url ans (settle_breaker x e s1))))" for e
    by (cases ans) (simp add: settleCheck_def Let_def)
  then show ?thesis
    using assms admit_breaker [OF adm] refused_unchanged by (auto simp: OpCheck Service_Check_def adm Let_def)
next
  case (OpCheckSecondary x url supported ans)
  obtain ok s1 where adm: "admit x s = (ok, s1)" by fastforce
  then show ?thesis
    using assms admit_breaker [OF adm] refused_unchanged
    by (auto simp: OpCheckSecondary Service_CheckSecondary_def adm Let_def)
next
  case (OpSubmit x url ans)
  obtain ok s1 where adm: "admit x s = (ok, s1)" by fastforce
  then show ?thesis
    using assms admit_breaker [OF adm] refused_unchanged
    by (cases ans) (auto simp: OpSubmit Service_Submit_def adm Let_def)
next
  case (OpPoll x url ans)
  obtain ok s1 where adm: "admit x s = (ok, s1)" by fastforce
  then show ?thesis
    using assms admit_breaker [OF adm] refused_unchanged
    by (cases ans) (auto simp: OpPoll Service_Poll_def adm Let_def)
next
  case (OpLookup now url)
  then show ?thesis using assms by (simp add: Service_Lookup_def Let_def split: prod.splits)
next
  case (OpRemember x url v remaining)
  then show ?thesis using assms by (simp add: Service_Remember_def)
next
  case (OpReconcile x url now ra)
  obtain v t err where rep: "ra_report ra = (v, t, err)" by (metis prod_cases3)
  show ?thesis using assms
    by (simp add: OpReconcile reconcileAt_def rep Let_def Service_Remember_def split: sum.splits)
qed

lemma Lookup_hit:
  assumes "snd (Service_Lookup now url s) = (v, True)"
  shows "\<exists>e. map_of (ca_entries (sv_cache s)) url = Some e \<and> live now e \<and> ce_verdict e = v \<and> Verdict_IsFinal v"
  using assms by (auto simp: Service_Lookup_def Let_def cache_get_eq split: option.splits if_splits prod.splits)

section \<open>Properties\<close>

text \<open>
  Claim C7. Nothing but evidence clears a URL. Whatever operations a service has run, and
  whatever its provider answered, when \<open>Lookup\<close> answers it answers safe or malicious, and one
  of those operations, about exactly that URL, is what the answer rests on and is still current: an exchange that concluded so without an
  error, within the lifetime its answer states and at most the service's own, a scan adopted by reconciliation
  within its lifetime counted from the scan; or else a \<open>Remember\<close> by which the caller itself handed over that
  verdict, within the lifetime the caller gave. A failure, a timeout, a cancelled call, a pending
  or an inconclusive scan never is.
\<close>

theorem Lookup_needs_evidence:
  assumes "snd (Service_Lookup now url (fold svc_do ops (newService has_scanner has_provider))) = (v, True)"
  shows "Verdict_IsFinal v \<and> (\<exists>op \<in> set ops. \<exists>t. now < t \<and> (concluded op url v t \<or> handed_over op url v t))"
proof -
  let ?s = "fold svc_do ops (newService has_scanner has_provider)"
  obtain e where e: "map_of (ca_entries (sv_cache ?s)) url = Some e" "live now e" "ce_verdict e = v" "Verdict_IsFinal v"
    using Lookup_hit [OF assms] by blast
  then have "v \<noteq> VerdictUnknown" by (auto simp: Verdict_IsFinal_def)
  with cache_run [OF e(1)] e show ?thesis by (auto simp: evidence_def)
qed

definition sample_exchange :: exchange where
  "sample_exchange = \<lparr>ex_allow_at = 10, ex_complete_at = 12, ex_lifetime_at = 13, ex_set_at = 13,
     ex_ctx_settle = None, ex_ctx_return = None, ex_iter = rev\<rparr>"

definition sample_verdict :: "string \<Rightarrow> ReputationResult" where
  "sample_verdict v = ReputationResult_zero\<lparr>rr_Verdict := v\<rparr>"

theorem Lookup_needs_evidence_witness:
  "\<exists>op. op \<in> set [OpCheck sample_exchange ''u'' (sample_verdict ReputationSafe, None)] \<and>
     (\<exists>t. 20 < t \<and> (concluded op ''u'' VerdictSafe t \<or> handed_over op ''u'' VerdictSafe t))"
proof -
  have "snd (Service_Lookup 20 ''u''
      (fold svc_do [OpCheck sample_exchange ''u'' (sample_verdict ReputationSafe, None)] (newService False True))) =
      (VerdictSafe, True)"
    by code_simp
  from Lookup_needs_evidence [OF this] show ?thesis by blast
qed

text \<open>
  A second opinion only ever restricts: a condemnation from the secondary source is
  what \<open>Lookup\<close> answers from then until its evidence ends, whatever clearance was cached, and
  every other answer, error or cancellation leaves the cache as it was.
\<close>

theorem CheckSecondary_only_restricts:
  assumes "fst (Breaker_Allow (ex_allow_at x) (sv_breaker s))"
  shows "(if snd ans = None \<and> ex_ctx_return x = None \<and> rr_Verdict (fst ans) = ReputationMalicious
      then now < ex_set_at x + evidenceLifetime (ex_lifetime_at x) (fst ans) \<and>
           0 < evidenceLifetime (ex_lifetime_at x) (fst ans) \<longrightarrow>
           snd (Service_Lookup now url (fst (Service_CheckSecondary x url True ans s))) = (VerdictMalicious, True)
      else sv_cache (fst (Service_CheckSecondary x url True ans s)) = sv_cache s)"
proof -
  obtain ok s1 where adm: "admit x s = (ok, s1)" by fastforce
  with assms have ok: "ok" and c: "sv_cache (settle_breaker x (snd ans) s1) = sv_cache s"
    using admit_breaker [OF adm] admit_cache [OF adm] by auto
  let ?ttl = "evidenceLifetime (ex_lifetime_at x) (fst ans)"
  show ?thesis
  proof (cases "snd ans = None \<and> ex_ctx_return x = None \<and> rr_Verdict (fst ans) = ReputationMalicious")
    case True
    then have "sv_cache (fst (Service_CheckSecondary x url True ans s)) =
        cache_set (ex_iter x) (ex_set_at x) url VerdictMalicious ?ttl (sv_cache s)"
      using ok c by (simp add: Service_CheckSecondary_def adm Let_def remember_at_def)
    then show ?thesis
      using True cache_set_same [of ?ttl "ex_iter x" "ex_set_at x" url VerdictMalicious "sv_cache s"]
      by (simp add: Service_Lookup_def cache_get_eq Verdict_IsFinal_def)
  next
    case False
    then show ?thesis using ok c by (auto simp: Service_CheckSecondary_def adm Let_def)
  qed
qed

theorem CheckSecondary_only_restricts_witness:
  "snd (Service_Lookup 20 ''u'' (fst (Service_CheckSecondary sample_exchange ''u'' True
     (sample_verdict ReputationMalicious, None) (newService True True)))) = (VerdictMalicious, True)"
proof -
  have "fst (Breaker_Allow (ex_allow_at sample_exchange) (sv_breaker (newService True True)))" by code_simp
  moreover have "evidenceLifetime (ex_lifetime_at sample_exchange) (sample_verdict ReputationMalicious) = VerdictTTL"
    by code_simp
  ultimately show ?thesis
    using CheckSecondary_only_restricts [of sample_exchange "newService True True" "(sample_verdict ReputationMalicious, None)" 20 "''u''"]
    by (simp add: sample_exchange_def sample_verdict_def)
qed

text \<open>
  Exchanges that run to their end settle the circuit: after any sequence of
  operations no probe is outstanding, so the service can be refused an exchange only while the
  circuit is open and its cooldown lasts.
\<close>

theorem service_never_stuck:
  "fst (Breaker_Allow now (sv_breaker (fold svc_do ops (newService has_scanner has_provider)))) =
     (let b = sv_breaker (fold svc_do ops (newService has_scanner has_provider))
      in \<not> (br_state b = BreakerOpen \<and> time_sub now (br_openedAt b) < br_cooldown b))"
proof -
  have "\<not> br_probing (sv_breaker (fold svc_do ops (newService has_scanner has_provider)))"
    by (induction ops rule: rev_induct) (simp_all add: newService_def newBreaker_def svc_do_not_probing)
  then show ?thesis using Allow_False_iff by (auto simp: Let_def)
qed

text \<open>
  Reconciliation dates what it adopts from the scan, not from the adoption: adopted
  evidence is final, from a report read without an error, never in the future, and a clearance
  is adopted only within its lifetime counted from the scan and cached for no more than what is
  left of it; every error leaves the service exactly as it was.
\<close>

theorem reconcile_freshness:
  "case reconcileAt x url now ra s of (s', e, err) \<Rightarrow>
     (if err \<noteq> None then s' = s
      else Verdict_IsFinal (se_Verdict e) \<and> fst (ra_report ra) = se_Verdict e \<and> snd (snd (ra_report ra)) = None \<and>
           se_ObservedAt e \<le> now \<and> (if se_Verdict e = VerdictSafe then now < se_ObservedAt e + VerdictTTL else True) \<and>
           sv_cache s' \<in> {sv_cache s, cache_set (ex_iter x) (ex_set_at x) url (se_Verdict e)
             (time_sub (se_ObservedAt e + VerdictTTL) now) (sv_cache s)})"
proof -
  obtain v t rerr where rep: "ra_report ra = (v, t, rerr)" by (metis prod_cases3)
  obtain s' e err where out: "reconcileAt x url now ra s = (s', e, err)" by (metis prod_cases3)
  have capped: "reconcile_observed now a b \<le> now" for a b by (simp add: reconcile_observed_def Let_def)
  show ?thesis
  proof (cases err)
    case None
    with out obtain rec where rec: "ra_find ra = Inr rec"
      by (auto simp: reconcileAt_def Let_def split: if_splits sum.splits)
    have final: "Verdict_IsFinal v" "rerr = None"
      and e: "e = \<lparr>se_Verdict = v, se_ObservedAt = reconcile_observed now t (sr_SubmittedAt rec), se_CandidateFound = True\<rparr>"
      and fresh: "v \<noteq> VerdictSafe \<or> now < ScanEvidence_ExpiresAt e"
      and s': "s' = observe (resultFor v) (Service_Remember x url v (time_sub (ScanEvidence_ExpiresAt e) now) s)"
      using out None by (auto simp: reconcileAt_def rep rec Let_def split: if_splits)
    show ?thesis
      using None final fresh capped [of t "sr_SubmittedAt rec"]
      by (auto simp: out rep e s' Service_Remember_def remember_at_def ScanEvidence_ExpiresAt_def)
  next
    case (Some er)
    with out have "s' = s" by (auto simp: reconcileAt_def rep Let_def split: if_splits sum.splits)
    with Some show ?thesis by (simp add: out)
  qed
qed

end
