(* ===== verification/Url_Fallback.thy ===== *)
theory Url_Fallback
  imports Url_Safety
begin

text \<open>
  The composition of two reputation sources, \<open>libs/go/platform/urlsafety/fallback.go\<close>: a
  synchronous primary behind its own circuit breaker and a secondary asked when the primary
  has no answer to act on. What either source answers to a call is an argument; whether the
  composition makes that call is part of its result, so that a theorem can say which source was
  asked.
\<close>

abbreviation DirectProviderRef :: string where "DirectProviderRef \<equiv> ''direct''"

text \<open>
  The composition: its breaker, the counters it has incremented (provider and label, latest
  first) and the sources it has asked (latest first).
\<close>

datatype asked = AskedPrimary | AskedSecondary string

record PrimaryFallbackProvider =
  pf_breaker :: Breaker
  pf_observed :: "(string \<times> string) list"
  pf_asked :: "asked list"

definition NewPrimaryFallbackProvider :: PrimaryFallbackProvider where
  "NewPrimaryFallbackProvider = \<lparr>pf_breaker = newBreaker 0 0, pf_observed = [], pf_asked = []\<rparr>"

definition resumable :: "string \<Rightarrow> bool" where
  "resumable providerRef \<longleftrightarrow>
     (let trimmed = go_trim_space providerRef in trimmed \<noteq> '''' \<and> trimmed \<noteq> DirectProviderRef)"

definition decisive :: "answer \<Rightarrow> bool" where
  "decisive ans =
     (let (result, err) = ans in
      if errors_Is err ErrCheckInProgress then True
      else if err \<noteq> None then False
      else rr_Verdict result = ReputationSafe \<or> rr_Verdict result = ReputationMalicious)"

definition observeProvider :: "string \<Rightarrow> string \<Rightarrow> PrimaryFallbackProvider \<Rightarrow> PrimaryFallbackProvider" where
  "observeProvider name result p = p\<lparr>pf_observed := (name, result) # pf_observed p\<rparr>"

definition observeExchange :: "string \<Rightarrow> answer \<Rightarrow> PrimaryFallbackProvider \<Rightarrow> PrimaryFallbackProvider" where
  "observeExchange name ans p =
     (let (result, err) = ans in
      if errors_Is err ErrCheckInProgress then observeProvider name resultPending p
      else if errors_Is err ContextCanceled then p
      else case err of
        Some e \<Rightarrow> observeProvider name (FailureReason e) p
      | None \<Rightarrow> if rr_Reason result \<noteq> '''' then observeProvider name (rr_Reason result) p
                else observeProvider name (rr_Verdict result) p)"

text \<open>The two sources: their names and what they answer.\<close>

record sources_answers =
  so_primary_name :: string
  so_primary :: answer
  so_secondary_name :: string
  so_secondary :: answer

definition checkPrimary ::
    "exchange \<Rightarrow> sources_answers \<Rightarrow> PrimaryFallbackProvider \<Rightarrow> PrimaryFallbackProvider \<times> answer" where
  "checkPrimary x so p0 =
     (let (ok, b) = Breaker_Allow (ex_allow_at x) (pf_breaker p0); p = p0\<lparr>pf_breaker := b\<rparr> in
      if \<not> ok then (observeProvider (so_primary_name so) ReasonCircuitOpen p, ReputationResult_zero, Some ErrCircuitOpen)
      else let ans = so_primary so;
               p = p\<lparr>pf_asked := AskedPrimary # pf_asked p,
                     pf_breaker := Breaker_Complete (ex_complete_at x) (breakerOutcome (ex_ctx_settle x) (snd ans)) (pf_breaker p)\<rparr>
           in (observeExchange (so_primary_name so) ans p, ans))"

definition checkSecondary ::
    "string \<Rightarrow> sources_answers \<Rightarrow> PrimaryFallbackProvider \<Rightarrow> PrimaryFallbackProvider \<times> answer" where
  "checkSecondary providerRef so p =
     (let p = p\<lparr>pf_asked := AskedSecondary providerRef # pf_asked p\<rparr>
      in (observeExchange (so_secondary_name so) (so_secondary so) p, so_secondary so))"

definition Fallback_Check ::
    "exchange \<Rightarrow> string \<Rightarrow> sources_answers \<Rightarrow> PrimaryFallbackProvider \<Rightarrow> PrimaryFallbackProvider \<times> answer" where
  "Fallback_Check x providerRef so p0 =
     (if resumable providerRef then checkSecondary providerRef so p0
      else let (p, result, err) = checkPrimary x so p0 in
        if decisive (result, err) then (p, result, err)
        else if ex_ctx_return x \<noteq> None then (p, ReputationResult_zero, ex_ctx_return x)
        else let (p, secondaryResult, secondaryErr) = checkSecondary '''' so p in
          if secondaryErr \<noteq> None \<and> err \<noteq> None then (p, ReputationResult_zero, err)
          else (p, secondaryResult, secondaryErr))"

definition Fallback_CheckSecondary ::
    "string \<Rightarrow> sources_answers \<Rightarrow> PrimaryFallbackProvider \<Rightarrow> PrimaryFallbackProvider \<times> answer" where
  "Fallback_CheckSecondary providerRef so p = checkSecondary providerRef so p"

section \<open>Lemmas\<close>

lemma observe_frames [simp]:
  "pf_asked (observeProvider n r p) = pf_asked p"
  "pf_breaker (observeProvider n r p) = pf_breaker p"
  "pf_asked (observeExchange n ans p) = pf_asked p"
  "pf_breaker (observeExchange n ans p) = pf_breaker p"
  by (simp_all add: observeProvider_def observeExchange_def Let_def split: prod.splits option.splits)

text \<open>The answer of the primary as the composition sees it: an open circuit is an error.\<close>

definition primary_answer :: "exchange \<Rightarrow> sources_answers \<Rightarrow> PrimaryFallbackProvider \<Rightarrow> answer" where
  "primary_answer x so p =
     (if fst (Breaker_Allow (ex_allow_at x) (pf_breaker p)) then so_primary so
      else (ReputationResult_zero, Some ErrCircuitOpen))"

lemma checkPrimary_answer:
  "snd (checkPrimary x so p) = primary_answer x so p"
  by (auto simp: checkPrimary_def primary_answer_def Let_def split: prod.splits)

lemma checkPrimary_asked:
  "pf_asked (fst (checkPrimary x so p)) =
     (if fst (Breaker_Allow (ex_allow_at x) (pf_breaker p)) then AskedPrimary # pf_asked p else pf_asked p)"
  by (auto simp: checkPrimary_def Let_def split: prod.splits)

lemma checkSecondary_simps:
  "snd (checkSecondary ref so p) = so_secondary so"
  "pf_asked (fst (checkSecondary ref so p)) = AskedSecondary ref # pf_asked p"
  by (simp_all add: checkSecondary_def Let_def)

section \<open>Properties\<close>

text \<open>
  The precedence of the composition: a check outstanding at the secondary is
  resumed there and nowhere else; otherwise a clearance, a condemnation or a check in progress
  of the primary is the answer and the secondary is not asked; otherwise the secondary is asked
  once, from scratch, and its answer stands, unless both failed, when the primary's error does.
\<close>

theorem Fallback_Check_precedence:
  "case Fallback_Check x ref so p of (p', ans) \<Rightarrow>
     (if resumable ref then ans = so_secondary so \<and> pf_asked p' = AskedSecondary ref # pf_asked p
      else let prim = primary_answer x so p;
               asked1 = (if fst (Breaker_Allow (ex_allow_at x) (pf_breaker p)) then AskedPrimary # pf_asked p else pf_asked p) in
        if decisive prim then ans = prim \<and> pf_asked p' = asked1
        else if ex_ctx_return x \<noteq> None then ans = (ReputationResult_zero, ex_ctx_return x) \<and> pf_asked p' = asked1
        else pf_asked p' = AskedSecondary '''' # asked1 \<and>
          ans = (if snd (so_secondary so) \<noteq> None \<and> snd prim \<noteq> None then (ReputationResult_zero, snd prim)
                 else so_secondary so))"
proof -
  obtain p1 r err where prim: "checkPrimary x so p = (p1, r, err)" by (metis prod_cases3)
  obtain p2 r2 err2 where sec: "checkSecondary '''' so p1 = (p2, r2, err2)" by (metis prod_cases3)
  have facts: "primary_answer x so p = (r, err)" "so_secondary so = (r2, err2)"
    "pf_asked p2 = AskedSecondary '''' # pf_asked p1"
    "pf_asked p1 = (if fst (Breaker_Allow (ex_allow_at x) (pf_breaker p)) then AskedPrimary # pf_asked p else pf_asked p)"
    using checkPrimary_answer [of x so p] checkPrimary_asked [of x so p] checkSecondary_simps [of "''''" so p1]
    by (simp_all add: prim sec)
  show ?thesis
    using facts checkSecondary_simps [of ref so p]
    by (auto simp: Fallback_Check_def prim sec Let_def split: prod.splits)
qed

text \<open>
  The composition never turns a failure into a clearance: it answers safe without an
  error only if one of the two sources it asked did.
\<close>

theorem Fallback_Check_no_invented_clearance:
  assumes "snd (Fallback_Check x ref so p) = (r, None)" and "rr_Verdict r = ReputationSafe"
  shows "so_secondary so = (r, None) \<or> \<not> resumable ref \<and> so_primary so = (r, None)"
proof -
  obtain p' where chk: "Fallback_Check x ref so p = (p', r, None)" using assms(1) by (metis prod.collapse)
  have r0: "r \<noteq> ReputationResult_zero" using assms(2) by (auto simp: ReputationResult_zero_def)
  obtain p1 r1 err where prim: "checkPrimary x so p = (p1, r1, err)" by (metis prod_cases3)
  then have "(r1, err) = primary_answer x so p" using checkPrimary_answer [of x so p] by simp
  then have p1: "err = None \<Longrightarrow> so_primary so = (r1, err)" by (auto simp: primary_answer_def split: if_splits)
  show ?thesis
    using chk r0 p1
    by (auto simp: Fallback_Check_def checkSecondary_def prim Let_def split: if_splits prod.splits)
qed

theorem Fallback_Check_no_invented_clearance_witness:
  "so_secondary \<lparr>so_primary_name = ''google'', so_primary = (ReputationResult_zero, Some ErrUnavailable),
      so_secondary_name = ''cloudflare'', so_secondary = (sample_verdict ReputationSafe, None)\<rparr> =
     (sample_verdict ReputationSafe, None)"
  using Fallback_Check_no_invented_clearance [of sample_exchange "''''"
      "\<lparr>so_primary_name = ''google'', so_primary = (ReputationResult_zero, Some ErrUnavailable),
      so_secondary_name = ''cloudflare'', so_secondary = (sample_verdict ReputationSafe, None)\<rparr>"
      NewPrimaryFallbackProvider "sample_verdict ReputationSafe"]
  by simp

end
