(* ===== verification/Stream_Reader.thy ===== *)
theory Stream_Reader
  imports Go_Prelude "HOL-Library.Word"
begin

text \<open>
  Byte streams: the parts of \<open>io\<close> that the envelope code uses and the \<open>Read\<close> method that both
  of its readers share, in \<open>services/file-service/internal/crypto/envelope.go\<close>. A source is the
  bytes it still has to deliver and the error that follows them, none being \<open>io.EOF\<close>; any other may follow, \<open>io.ErrUnexpectedEOF\<close>
  too. A source is finite; what is shown of endless ones is a bound on the chunks a reader takes, whatever is left of its source.

  The methods \<open>encryptingReader.Read\<close> and \<open>decryptingReader.Read\<close> have the same body around
  different \<open>fill\<close> methods; \<open>reader_Read\<close> is that body with \<open>fill\<close> as its argument. Its loop
  has no bound of its own, so it is a partial function; the locale \<open>reader_fill\<close> states what
  makes it end.
\<close>

type_synonym byte = "8 word"
type_synonym bytes = "byte list"

datatype stream_error =
    EOF
  | ErrUnexpectedEOF
  | ErrCiphertext
  | ErrStreamTooLong
  | ErrInvalidKey
  | ErrUnknownKey
  | ErrInvalidBinding
  | ErrUnsupportedVersion
  | SourceError string

record source =
  so_bytes :: bytes
  so_error :: "stream_error option"

definition source_end :: "source \<Rightarrow> stream_error" where
  "source_end src = (case so_error src of None \<Rightarrow> EOF | Some e \<Rightarrow> e)"

text \<open>\<open>io.ReadFull\<close>: the buffer filled, or the bytes there were and why there were no more.\<close>

definition ReadFull :: "nat \<Rightarrow> source \<Rightarrow> bytes \<times> stream_error option \<times> source" where
  "ReadFull n src =
     (let bs = so_bytes src; rest = src\<lparr>so_bytes := drop n bs\<rparr> in
      if n \<le> length bs then (take n bs, None, rest)
      else if source_end src \<noteq> EOF then (bs, Some (source_end src), rest)
      else if bs = [] then ([], Some EOF, rest)
      else (bs, Some ErrUnexpectedEOF, rest))"

record reader =
  rd_src :: source
  rd_key :: bytes
  rd_attachmentID :: bytes
  rd_baseNonce :: bytes
  rd_index :: "32 word"
  rd_buf :: bytes
  rd_offset :: nat
  rd_done :: bool
  rd_err :: "stream_error option"

definition reader_reset :: "'a reader_scheme \<Rightarrow> 'a reader_scheme" where
  "reader_reset r = r\<lparr>rd_buf := [], rd_offset := 0\<rparr>"

definition reader_empty :: "'a reader_scheme \<Rightarrow> bool" where
  "reader_empty r \<longleftrightarrow> rd_offset r = length (rd_buf r)"

definition reader_over :: "'a reader_scheme \<Rightarrow> bool" where
  "reader_over r \<longleftrightarrow> rd_err r \<noteq> None \<or> rd_done r"

partial_function (option) reader_advance ::
    "('a reader_scheme \<Rightarrow> 'a reader_scheme) \<Rightarrow> 'a reader_scheme \<Rightarrow> 'a reader_scheme option" where
  "reader_advance fill r =
     (if \<not> reader_empty r \<or> reader_over r then Some r
      else reader_advance fill (fill (reader_reset r)))"

definition reader_Read ::
    "('a reader_scheme \<Rightarrow> 'a reader_scheme) \<Rightarrow> nat \<Rightarrow> 'a reader_scheme
       \<Rightarrow> ('a reader_scheme \<times> bytes \<times> stream_error option) option" where
  "reader_Read fill n r0 =
     (case reader_advance fill r0 of
        None \<Rightarrow> None
      | Some r \<Rightarrow>
          if reader_empty r
            then Some (r, [], Some (case rd_err r of Some e \<Rightarrow> e | None \<Rightarrow> EOF))
          else let p = take n (drop (rd_offset r) (rd_buf r))
               in Some (r\<lparr>rd_offset := rd_offset r + length p\<rparr>, p, None))"

text \<open>A caller that reads until the first error, in buffers of \<open>n\<close> bytes.\<close>

partial_function (option) reader_drain ::
    "('a reader_scheme \<Rightarrow> 'a reader_scheme) \<Rightarrow> nat \<Rightarrow> 'a reader_scheme \<Rightarrow> bytes \<Rightarrow> (bytes \<times> stream_error) option" where
  "reader_drain fill n r acc =
     (case reader_Read fill n r of
        None \<Rightarrow> None
      | Some (r', p, None) \<Rightarrow> reader_drain fill n r' (acc @ p)
      | Some (r', p, Some e) \<Rightarrow> Some (acc @ p, e))"

section \<open>What a reader yields\<close>

text \<open>The whole output of a reader, whatever the sizes of the reads.\<close>

inductive yields ::
    "('a reader_scheme \<Rightarrow> 'a reader_scheme) \<Rightarrow> 'a reader_scheme \<Rightarrow> bytes \<Rightarrow> stream_error \<Rightarrow> bool"
  for fill where
  over: "reader_over r \<Longrightarrow>
    yields fill r (drop (rd_offset r) (rd_buf r)) (case rd_err r of Some e \<Rightarrow> e | None \<Rightarrow> EOF)"
| filled: "\<not> reader_over r \<Longrightarrow> yields fill (fill (reader_reset r)) bs e \<Longrightarrow>
    yields fill r (drop (rd_offset r) (rd_buf r) @ bs) e"

inductive_cases yields_overE: "yields fill r bs e"

definition reader_wf :: "'a reader_scheme \<Rightarrow> bool" where
  "reader_wf r \<longleftrightarrow> rd_offset r \<le> length (rd_buf r)"

lemma reader_reset_simps [simp]:
  "rd_buf (reader_reset r) = []" "rd_offset (reader_reset r) = 0" "rd_src (reader_reset r) = rd_src r"
  "rd_done (reader_reset r) = rd_done r" "rd_err (reader_reset r) = rd_err r"
  "reader_over (reader_reset r) = reader_over r"
  by (simp_all add: reader_reset_def reader_over_def)

locale reader_fill =
  fixes fill :: "'a reader_scheme \<Rightarrow> 'a reader_scheme"
  assumes progress: "\<not> reader_over r \<Longrightarrow>
      reader_over (fill r) \<or> length (so_bytes (rd_src (fill r))) < length (so_bytes (rd_src r))"
    and wf_fill: "reader_wf (fill (reader_reset r))"
begin

lemma yields_exists: "\<exists>bs e. yields fill r bs e"
proof (induction "length (so_bytes (rd_src r))" arbitrary: r rule: less_induct)
  case less
  show ?case
  proof (cases "reader_over r")
    case True
    then show ?thesis by (blast intro: yields.over)
  next
    case False
    let ?r = "fill (reader_reset r)"
    have "\<exists>bs e. yields fill ?r bs e"
    proof (cases "reader_over ?r")
      case True
      then show ?thesis by (blast intro: yields.over)
    next
      case Frest: False
      with progress [of "reader_reset r"] False less show ?thesis by simp
    qed
    with False show ?thesis by (blast intro: yields.filled)
  qed
qed

end

section \<open>Draining a reader\<close>

lemma Read_empty_fills:
  assumes "reader_empty r" and "\<not> reader_over r"
  shows "reader_Read fill n r = reader_Read fill n (fill (reader_reset r))"
  unfolding reader_Read_def by (subst reader_advance.simps) (simp add: assms)

lemma Read_over:
  assumes "reader_empty r" and "reader_over r"
  shows "reader_Read fill n r = Some (r, [], Some (case rd_err r of Some e \<Rightarrow> e | None \<Rightarrow> EOF))"
  unfolding reader_Read_def by (subst reader_advance.simps) (simp add: assms)

lemma Read_buffered:
  assumes "\<not> reader_empty r"
  shows "reader_Read fill n r =
    Some (r\<lparr>rd_offset := rd_offset r + length (take n (drop (rd_offset r) (rd_buf r)))\<rparr>,
      take n (drop (rd_offset r) (rd_buf r)), None)"
  unfolding reader_Read_def by (subst reader_advance.simps) (simp add: assms Let_def)

definition emptied :: "'a reader_scheme \<Rightarrow> 'a reader_scheme" where
  "emptied r = r\<lparr>rd_offset := length (rd_buf r)\<rparr>"

lemma emptied_simps [simp]:
  "reader_empty (emptied r)" "reader_over (emptied r) = reader_over r" "rd_err (emptied r) = rd_err r"
  "reader_reset (emptied r) = reader_reset r"
  by (simp_all add: emptied_def reader_empty_def reader_over_def reader_reset_def)

lemma take_then_drop: "take n xs @ drop (length (take n xs)) xs = xs"
  by (cases "n \<le> length xs") simp_all

lemma drain_buffer:
  assumes "reader_wf r" and "0 < n"
  shows "reader_drain fill n r acc = reader_drain fill n (emptied r) (acc @ drop (rd_offset r) (rd_buf r))"
  using assms
proof (induction "length (rd_buf r) - rd_offset r" arbitrary: r acc rule: less_induct)
  case less
  show ?case
  proof (cases "reader_empty r")
    case True
    then have "emptied r = r" by (simp add: emptied_def reader_empty_def)
    with True show ?thesis by (simp add: reader_empty_def)
  next
    case False
    let ?rest = "drop (rd_offset r) (rd_buf r)"
    let ?p = "take n ?rest"
    let ?r = "r\<lparr>rd_offset := rd_offset r + length ?p\<rparr>"
    have ne: "0 < length ?p" "reader_wf ?r"
      using False less.prems by (auto simp: reader_empty_def reader_wf_def)
    have "reader_drain fill n r acc = reader_drain fill n ?r (acc @ ?p)"
      by (subst reader_drain.simps) (simp add: Read_buffered [OF False])
    also have "\<dots> = reader_drain fill n (emptied ?r) ((acc @ ?p) @ drop (rd_offset ?r) (rd_buf ?r))"
      using ne less.prems False by (intro less.hyps) (auto simp: reader_empty_def reader_wf_def)
    also have "emptied ?r = emptied r" by (simp add: emptied_def)
    also have "(acc @ ?p) @ drop (rd_offset ?r) (rd_buf ?r) = acc @ ?rest"
    proof -
      have "drop (rd_offset ?r) (rd_buf ?r) = drop (length ?p) ?rest" by (simp add: add.commute)
      then show ?thesis using take_then_drop [of n ?rest] by simp
    qed
    finally show ?thesis .
  qed
qed

context reader_fill
begin

text \<open>Reading to the end gives what the reader yields, whatever the size of the reads.\<close>

lemma drain_yields:
  assumes "yields fill r bs e" and "reader_wf r" and "0 < n"
  shows "reader_drain fill n r acc = Some (acc @ bs, e)"
  using assms
proof (induction arbitrary: acc rule: yields.induct)
  case (over r)
  then have "reader_drain fill n r acc = reader_drain fill n (emptied r) (acc @ drop (rd_offset r) (rd_buf r))"
    by (intro drain_buffer) auto
  also have "\<dots> = Some (acc @ drop (rd_offset r) (rd_buf r), case rd_err r of Some e \<Rightarrow> e | None \<Rightarrow> EOF)"
    using over by (subst reader_drain.simps) (simp add: Read_over)
  finally show ?case .
next
  case (filled r bs e)
  have "reader_drain fill n r acc = reader_drain fill n (emptied r) (acc @ drop (rd_offset r) (rd_buf r))"
    using filled by (intro drain_buffer) auto
  also have "\<dots> = reader_drain fill n (fill (reader_reset r)) (acc @ drop (rd_offset r) (rd_buf r))"
    using filled Read_empty_fills [of "emptied r" fill n]
    by (subst (1 2) reader_drain.simps) simp
  also have "\<dots> = Some ((acc @ drop (rd_offset r) (rd_buf r)) @ bs, e)"
    using filled by (intro filled.IH wf_fill)
  finally show ?case by simp
qed

lemma drain_terminates: "reader_wf r \<Longrightarrow> 0 < n \<Longrightarrow> \<exists>bs e. reader_drain fill n r [] = Some (bs, e)"
  using yields_exists [of r] drain_yields [of r _ _ n "[]"] by force

end

end
