(* ===== verification/Envelope.thy ===== *)
theory Envelope
  imports Stream_Reader
begin

text \<open>
  The encrypted object format of \<open>services/file-service/internal/crypto/envelope.go\<close>: a header
  and a sequence of sealed chunks, written and read one chunk at a time, with random access to
  any chunk, and the key wrapping that binds an object's data key to the object.

  The cipher is \<open>crypto/cipher\<close>'s AES-GCM behind its \<open>AEAD\<close> interface: \<open>seal\<close> and \<open>opn\<close>, the
  functions \<open>Seal\<close> and \<open>Open\<close> of a key, are arguments of the definitions that call them, and
  the locale \<open>aead\<close> states what GCM promises of them. Fresh random bytes are arguments too.
\<close>

unbundle bit_operations_syntax

section \<open>Constants and encodings\<close>

abbreviation EnvelopeVersion :: int where "EnvelopeVersion \<equiv> 1"
abbreviation KeyWrapVersion :: int where "KeyWrapVersion \<equiv> 2"
abbreviation ChunkSize :: nat where "ChunkSize \<equiv> 65536"
abbreviation KeySize :: nat where "KeySize \<equiv> 32"
abbreviation nonceSize :: nat where "nonceSize \<equiv> 12"
abbreviation tagSize :: nat where "tagSize \<equiv> 16"
abbreviation baseNonceSize :: nat where "baseNonceSize \<equiv> 8"
abbreviation headerSize :: nat where "headerSize \<equiv> 12"
abbreviation blockSize :: nat where "blockSize \<equiv> 65552"
abbreviation MaxUint32 :: "32 word" where "MaxUint32 \<equiv> 0xFFFFFFFF"

definition magic :: bytes where "magic = [0x4E, 0x43, 0x46, 0x31]"
definition dekMagic :: bytes where "dekMagic = [0x4E, 0x43, 0x44, 0x32]"

text \<open>\<open>encoding/binary\<close>, big endian: the \<open>k\<close> low bytes of a word, highest first.\<close>

definition big_endian :: "nat \<Rightarrow> 'a::len word \<Rightarrow> bytes" where
  "big_endian k w = map (\<lambda>i. ucast (drop_bit (8 * i) w)) (rev [0..<k])"

section \<open>Chunks\<close>

definition chunkNonce :: "bytes \<Rightarrow> 32 word \<Rightarrow> bytes" where
  "chunkNonce base index = take baseNonceSize base @ big_endian 4 index"

definition chunkAAD :: "bytes \<Rightarrow> 32 word \<Rightarrow> bool \<Rightarrow> bytes" where
  "chunkAAD attachmentID index final = magic @ attachmentID @ big_endian 4 index @ (if final then [1] else [0])"

definition CiphertextSize :: "int \<Rightarrow> int" where
  "CiphertextSize plaintextSize =
     (let fullChunks = plaintextSize div int ChunkSize; remainder = plaintextSize mod int ChunkSize
      in int headerSize + fullChunks * int blockSize + remainder + int tagSize)"

definition ChunkLocation :: "int \<Rightarrow> 32 word \<times> int \<times> int" where
  "ChunkLocation plaintextOffset0 =
     (let plaintextOffset = (if plaintextOffset0 < 0 then 0 else plaintextOffset0);
          index0 = plaintextOffset div int ChunkSize;
          index = (if index0 > uint MaxUint32 then uint MaxUint32 else index0)
      in (word_of_int index, int headerSize + index * int blockSize, plaintextOffset mod int ChunkSize))"

type_synonym aead_seal = "bytes \<Rightarrow> bytes \<Rightarrow> bytes \<Rightarrow> bytes \<Rightarrow> bytes"
type_synonym aead_open = "bytes \<Rightarrow> bytes \<Rightarrow> bytes \<Rightarrow> bytes \<Rightarrow> bytes option"

definition newAEAD :: "bytes \<Rightarrow> stream_error + bytes" where
  "newAEAD key = (if length key \<noteq> KeySize then Inl ErrInvalidKey else Inr key)"

section \<open>Writing\<close>

definition NewEncryptingReader :: "source \<Rightarrow> bytes \<Rightarrow> bytes \<Rightarrow> bytes \<Rightarrow> stream_error + reader" where
  "NewEncryptingReader src dataKey attachmentID random =
     bind_err (newAEAD dataKey) (\<lambda>aead.
       Inr \<lparr>rd_src = src, rd_key = aead, rd_attachmentID = attachmentID, rd_baseNonce = random,
            rd_index = 0, rd_buf = magic @ random, rd_offset = 0, rd_done = False, rd_err = None\<rparr>)"

definition encrypt_fill :: "aead_seal \<Rightarrow> reader \<Rightarrow> reader" where
  "encrypt_fill seal r0 =
     (if rd_index r0 = MaxUint32 then r0\<lparr>rd_err := Some ErrStreamTooLong\<rparr>
      else let (plain, err, src) = ReadFull ChunkSize (rd_src r0);
               r = r0\<lparr>rd_src := src\<rparr>;
               sealed = (\<lambda>final. seal (rd_key r) (chunkNonce (rd_baseNonce r) (rd_index r)) plain
                                   (chunkAAD (rd_attachmentID r) (rd_index r) final))
           in case err of
                None \<Rightarrow> r\<lparr>rd_buf := rd_buf r @ sealed False, rd_index := rd_index r + 1\<rparr>
              | Some e \<Rightarrow>
                  if e = EOF \<or> e = ErrUnexpectedEOF
                    then r\<lparr>rd_buf := rd_buf r @ sealed True, rd_done := True\<rparr>
                  else r\<lparr>rd_err := Some e\<rparr>)"

section \<open>Reading\<close>

record decryptingReader = reader +
  dr_expected :: int
  dr_produced :: int
  dr_headerRead :: bool

definition newDecryptingReader :: "source \<Rightarrow> bytes \<Rightarrow> bytes \<Rightarrow> int \<Rightarrow> stream_error + decryptingReader" where
  "newDecryptingReader src dataKey attachmentID plaintextSize =
     (if plaintextSize < 0 then Inl ErrInvalidBinding
      else bind_err (newAEAD dataKey) (\<lambda>aead.
        Inr \<lparr>rd_src = src, rd_key = aead, rd_attachmentID = attachmentID,
             rd_baseNonce = replicate baseNonceSize 0, rd_index = 0, rd_buf = [], rd_offset = 0,
             rd_done = False, rd_err = None, dr_expected = plaintextSize, dr_produced = 0,
             dr_headerRead = False\<rparr>))"

definition NewChunkReader ::
    "bytes \<Rightarrow> source \<Rightarrow> bytes \<Rightarrow> bytes \<Rightarrow> int \<Rightarrow> 32 word \<Rightarrow> stream_error + decryptingReader" where
  "NewChunkReader header chunks dataKey objectID plaintextSize firstChunk =
     bind_err (newDecryptingReader chunks dataKey objectID plaintextSize) (\<lambda>reader.
       if length header \<noteq> headerSize \<or> take (length magic) header \<noteq> magic then Inl ErrCiphertext
       else let produced = uint firstChunk * int ChunkSize in
         if produced > plaintextSize then Inl ErrCiphertext
         else Inr (reader\<lparr>rd_baseNonce := drop (length magic) header, dr_headerRead := True,
                         rd_index := firstChunk, dr_produced := produced\<rparr>))"

definition readHeader :: "decryptingReader \<Rightarrow> bool \<times> decryptingReader" where
  "readHeader r0 =
     (let (header, err, src) = ReadFull headerSize (rd_src r0); r = r0\<lparr>rd_src := src\<rparr> in
      case err of
        Some e \<Rightarrow> (False, r\<lparr>rd_err := Some (if e = EOF \<or> e = ErrUnexpectedEOF then ErrCiphertext else e)\<rparr>)
      | None \<Rightarrow>
          if take (length magic) header \<noteq> magic then (False, r\<lparr>rd_err := Some ErrCiphertext\<rparr>)
          else (True, r\<lparr>rd_baseNonce := drop (length magic) header, dr_headerRead := True\<rparr>))"

definition open_chunk :: "aead_open \<Rightarrow> bytes \<Rightarrow> bool \<Rightarrow> decryptingReader \<Rightarrow> decryptingReader" where
  "open_chunk opn block final r =
     (if length block < tagSize then r\<lparr>rd_err := Some ErrCiphertext\<rparr>
      else case opn (rd_key r) (chunkNonce (rd_baseNonce r) (rd_index r)) block
                  (chunkAAD (rd_attachmentID r) (rd_index r) final) of
             None \<Rightarrow> r\<lparr>rd_err := Some ErrCiphertext\<rparr>
           | Some plain \<Rightarrow>
               let produced = dr_produced r + int (length plain) in
               if produced > dr_expected r \<or> final \<and> produced \<noteq> dr_expected r
                 then r\<lparr>rd_err := Some ErrCiphertext\<rparr>
               else r\<lparr>dr_produced := produced, rd_buf := plain, rd_index := rd_index r + 1\<rparr>)"

definition decrypt_fill :: "aead_open \<Rightarrow> decryptingReader \<Rightarrow> decryptingReader" where
  "decrypt_fill opn r0 =
     (let (ok, r1) = (if dr_headerRead r0 then (True, r0) else readHeader r0) in
      if \<not> ok then r1
      else if rd_index r1 = MaxUint32 then r1\<lparr>rd_err := Some ErrStreamTooLong\<rparr>
      else let (block, err, src) = ReadFull blockSize (rd_src r1); r = r1\<lparr>rd_src := src\<rparr> in
        case err of
          None \<Rightarrow> open_chunk opn block False r
        | Some e \<Rightarrow>
            if e = ErrUnexpectedEOF then (open_chunk opn block True r)\<lparr>rd_done := True\<rparr>
            else if e = EOF then r\<lparr>rd_err := Some ErrCiphertext\<rparr>
            else r\<lparr>rd_err := Some e\<rparr>)"

abbreviation encryptingReader_Read :: "aead_seal \<Rightarrow> nat \<Rightarrow> reader \<Rightarrow> (reader \<times> bytes \<times> stream_error option) option" where
  "encryptingReader_Read seal \<equiv> reader_Read (encrypt_fill seal)"

abbreviation decryptingReader_Read ::
    "aead_open \<Rightarrow> nat \<Rightarrow> decryptingReader \<Rightarrow> (decryptingReader \<times> bytes \<times> stream_error option) option" where
  "decryptingReader_Read opn \<equiv> reader_Read (decrypt_fill opn)"

section \<open>Encodings are injective\<close>

lemma length_big_endian [simp]: "length (big_endian k w) = k"
  by (simp add: big_endian_def)

lemma big_endian_inject:
  fixes v w :: "'a::len word"
  assumes "LENGTH('a) \<le> 8 * k"
  shows "big_endian k v = big_endian k w \<longleftrightarrow> v = w"
proof
  assume eq: "big_endian k v = big_endian k w"
  show "v = w"
  proof (rule bit_word_eqI)
    fix n assume n: "n < LENGTH('a)"
    let ?i = "n div 8"
    have "?i < k" using n assms by simp
    then have "(ucast (drop_bit (8 * ?i) v) :: byte) = ucast (drop_bit (8 * ?i) w)"
      using eq by (simp add: big_endian_def)
    then have "bit (ucast (drop_bit (8 * ?i) v) :: byte) (n mod 8) = bit (ucast (drop_bit (8 * ?i) w) :: byte) (n mod 8)"
      by simp
    then show "bit v n = bit w n"
      by (simp add: bit_simps)
  qed
qed simp

lemmas be32_inject = big_endian_inject [where 'a = 32 and k = 4, simplified]

lemma chunkNonce_inject: "chunkNonce base i = chunkNonce base j \<longleftrightarrow> i = j"
  by (simp add: chunkNonce_def be32_inject)

lemma chunkAAD_inject:
  assumes "length a = length b"
  shows "chunkAAD a i f = chunkAAD b j g \<longleftrightarrow> a = b \<and> i = j \<and> f = g"
  using assms by (auto simp: chunkAAD_def be32_inject)

section \<open>The format\<close>

text \<open>The chunks of a plaintext from an index on: full ones, then one short one that is final.\<close>

function seal_chunks :: "aead_seal \<Rightarrow> bytes \<Rightarrow> bytes \<Rightarrow> bytes \<Rightarrow> 32 word \<Rightarrow> bytes \<Rightarrow> bytes" where
  "seal_chunks seal key aid base i pt =
     (if length pt < ChunkSize then seal key (chunkNonce base i) pt (chunkAAD aid i True)
      else seal key (chunkNonce base i) (take ChunkSize pt) (chunkAAD aid i False) @
           seal_chunks seal key aid base (i + 1) (drop ChunkSize pt))"
  by pat_completeness auto
termination by (relation "measure (\<lambda>(seal, key, aid, base, i, pt). length pt)") auto

definition envelope :: "aead_seal \<Rightarrow> bytes \<Rightarrow> bytes \<Rightarrow> bytes \<Rightarrow> bytes \<Rightarrow> bytes" where
  "envelope seal key aid base pt = magic @ base @ seal_chunks seal key aid base 0 pt"

text \<open>What a reader makes of chunks: the plaintext it hands out and how it ends.\<close>

function open_chunks ::
    "aead_open \<Rightarrow> bytes \<Rightarrow> bytes \<Rightarrow> bytes \<Rightarrow> 32 word \<Rightarrow> int \<Rightarrow> int \<Rightarrow> bytes \<Rightarrow> bytes \<times> stream_error" where
  "open_chunks opn key aid base i expected produced ct =
     (if i = MaxUint32 then ([], ErrStreamTooLong)
      else if blockSize \<le> length ct then
        (case opn key (chunkNonce base i) (take blockSize ct) (chunkAAD aid i False) of
           None \<Rightarrow> ([], ErrCiphertext)
         | Some p \<Rightarrow>
             if produced + int (length p) > expected then ([], ErrCiphertext)
             else let (bs, e) = open_chunks opn key aid base (i + 1) expected (produced + int (length p)) (drop blockSize ct)
                  in (p @ bs, e))
      else if length ct < tagSize then ([], ErrCiphertext)
      else (case opn key (chunkNonce base i) ct (chunkAAD aid i True) of
              None \<Rightarrow> ([], ErrCiphertext)
            | Some p \<Rightarrow> if produced + int (length p) \<noteq> expected then ([], ErrCiphertext) else (p, EOF)))"
  by pat_completeness auto
termination by (relation "measure (\<lambda>(opn, key, aid, base, i, expected, produced, ct). length ct)") auto

declare seal_chunks.simps [simp del] open_chunks.simps [simp del]

text \<open>The number of the last chunk stays below the limit of the counter.\<close>

definition fits :: "32 word \<Rightarrow> bytes \<Rightarrow> bool" where
  "fits i pt \<longleftrightarrow> unat i + length pt div ChunkSize < 2 ^ 32 - 1"

lemma fits_not_max: "fits i pt \<Longrightarrow> i \<noteq> MaxUint32"
  by (auto simp: fits_def)

lemma fits_next:
  assumes "fits i pt" and "ChunkSize \<le> length pt"
  shows "fits (i + 1) (drop ChunkSize pt)" and "unat (i + 1) = unat i + 1"
proof -
  have "1 \<le> length pt div ChunkSize" using assms(2) div_le_mono [of ChunkSize "length pt" ChunkSize] by simp
  with assms(1) have "unat i + 1 < 2 ^ 32" by (simp add: fits_def)
  then show succ: "unat (i + 1) = unat i + 1" by (simp add: unat_word_ariths)
  have "length pt div ChunkSize = (length pt - ChunkSize) div ChunkSize + 1"
    using assms(2) by (simp add: le_div_geq)
  with succ assms(1) show "fits (i + 1) (drop ChunkSize pt)" by (simp add: fits_def)
qed

section \<open>The cipher\<close>

text \<open>
  What \<open>cipher.AEAD\<close> and GCM promise for keys and nonces of their sizes: a sealed text is the
  tag longer than the plain one, opening gives back what was sealed, and a text that opens is
  the one that sealing its plaintext gives, GCM being deterministic.
\<close>

locale aead =
  fixes seal :: aead_seal and opn :: aead_open
  assumes seal_length: "length (seal k n p a) = length p + tagSize"
    and open_seal: "opn k n (seal k n p a) a = Some p"
    and open_only: "opn k n c a = Some p \<Longrightarrow> c = seal k n p a"
begin

lemma length_seal_chunks:
  "length (seal_chunks seal key aid base i pt) =
     length pt div ChunkSize * blockSize + length pt mod ChunkSize + tagSize"
proof (induction "length pt" arbitrary: i pt rule: less_induct)
  case less
  show ?case
  proof (cases "length pt < ChunkSize")
    case True
    then show ?thesis by (subst seal_chunks.simps) (simp add: seal_length)
  next
    case False
    let ?rest = "drop ChunkSize pt"
    have "length (seal_chunks seal key aid base (i + 1) ?rest) =
        length ?rest div ChunkSize * blockSize + length ?rest mod ChunkSize + tagSize"
      using False by (intro less) simp
    moreover have "length pt div ChunkSize = length ?rest div ChunkSize + 1"
      and "length pt mod ChunkSize = length ?rest mod ChunkSize"
      using False by (simp_all add: le_div_geq le_mod_geq)
    ultimately show ?thesis
      using False by (subst seal_chunks.simps) (simp add: seal_length)
  qed
qed

text \<open>Opening the chunks of a plaintext gives it back.\<close>

lemma open_seal_chunks:
  assumes "fits i pt" and "produced + int (length pt) = expected"
  shows "open_chunks opn key aid base i expected produced (seal_chunks seal key aid base i pt) = (pt, EOF)"
  using assms
proof (induction "length pt" arbitrary: i pt produced rule: less_induct)
  case less
  have max: "i \<noteq> MaxUint32" using less.prems(1) by (rule fits_not_max)
  show ?case
  proof (cases "length pt < ChunkSize")
    case True
    then show ?thesis
      using max less.prems(2) by (subst seal_chunks.simps, subst open_chunks.simps) (simp add: seal_length open_seal)
  next
    case False
    let ?c = "seal key (chunkNonce base i) (take ChunkSize pt) (chunkAAD aid i False)"
    let ?rest = "drop ChunkSize pt"
    have c: "length ?c = blockSize" using False by (simp add: seal_length)
    have IH: "open_chunks opn key aid base (i + 1) expected (produced + int ChunkSize)
        (seal_chunks seal key aid base (i + 1) ?rest) = (?rest, EOF)"
      using False less.prems fits_next(1) [OF less.prems(1)] by (intro less.hyps) auto
    have seal: "seal_chunks seal key aid base i pt = ?c @ seal_chunks seal key aid base (i + 1) ?rest"
      using False by (subst seal_chunks.simps) simp
    have "open_chunks opn key aid base i expected produced (?c @ seal_chunks seal key aid base (i + 1) ?rest) =
        (take ChunkSize pt @ ?rest, EOF)"
      using max False c IH less.prems(2) by (subst open_chunks.simps) (simp add: open_seal)
    then show ?thesis by (simp add: seal)
  qed
qed

text \<open>And only the chunks of a plaintext open to it: no other stream ends without an error.\<close>

lemma open_chunks_only:
  assumes "open_chunks opn key aid base i expected produced ct = (pt, EOF)"
  shows "ct = seal_chunks seal key aid base i pt \<and> produced + int (length pt) = expected"
  using assms
proof (induction "length ct" arbitrary: i ct pt produced rule: less_induct)
  case less
  have max: "i \<noteq> MaxUint32" using less.prems by (subst (asm) open_chunks.simps) auto
  show ?case
  proof (cases "blockSize \<le> length ct")
    case True
    obtain p bs where p: "opn key (chunkNonce base i) (take blockSize ct) (chunkAAD aid i False) = Some p"
      and rest: "open_chunks opn key aid base (i + 1) expected (produced + int (length p)) (drop blockSize ct) = (bs, EOF)"
      and pt: "pt = p @ bs"
      using less.prems max True
      by (subst (asm) open_chunks.simps) (auto split: option.splits if_splits prod.splits)
    have c: "take blockSize ct = seal key (chunkNonce base i) p (chunkAAD aid i False)" using p by (rule open_only)
    have "length (take blockSize ct) = length p + tagSize" unfolding c by (rule seal_length)
    then have "length p = ChunkSize" using True by simp
    moreover have "drop blockSize ct = seal_chunks seal key aid base (i + 1) bs \<and>
        produced + int (length p) + int (length bs) = expected"
      using rest True by (intro less.hyps) auto
    moreover have "ct = take blockSize ct @ drop blockSize ct" by simp
    ultimately show ?thesis
      using c by (subst seal_chunks.simps) (simp add: pt)
  next
    case False
    then obtain p where p: "opn key (chunkNonce base i) ct (chunkAAD aid i True) = Some p"
      and "produced + int (length p) = expected" "pt = p"
      using less.prems max by (subst (asm) open_chunks.simps) (auto split: option.splits if_splits)
    moreover have "ct = seal key (chunkNonce base i) p (chunkAAD aid i True)" using p by (rule open_only)
    ultimately show ?thesis
      using False seal_length [of key "chunkNonce base i" p "chunkAAD aid i True"]
      by (subst seal_chunks.simps) auto
  qed
qed

text \<open>Dropping whole blocks of the ciphertext is dropping whole chunks of the plaintext.\<close>

lemma drop_seal_chunks:
  assumes "n * ChunkSize \<le> length pt"
  shows "drop (n * blockSize) (seal_chunks seal key aid base i pt) =
    seal_chunks seal key aid base (i + word_of_nat n) (drop (n * ChunkSize) pt)"
  using assms
proof (induction n arbitrary: i pt)
  case (Suc n)
  let ?c = "seal key (chunkNonce base i) (take ChunkSize pt) (chunkAAD aid i False)"
  have len: "ChunkSize \<le> length pt" "n * ChunkSize \<le> length (drop ChunkSize pt)" using Suc.prems by simp_all
  then have "seal_chunks seal key aid base i pt = ?c @ seal_chunks seal key aid base (i + 1) (drop ChunkSize pt)"
    by (subst seal_chunks.simps) simp
  moreover have "length ?c = blockSize" using len by (simp add: seal_length)
  ultimately have "drop (Suc n * blockSize) (seal_chunks seal key aid base i pt) =
      drop (n * blockSize) (seal_chunks seal key aid base (i + 1) (drop ChunkSize pt))"
    by (simp add: add.commute)
  also have "\<dots> = seal_chunks seal key aid base (i + 1 + word_of_nat n) (drop (n * ChunkSize) (drop ChunkSize pt))"
    using len(2) by (rule Suc.IH)
  finally show ?case by (simp add: add.commute add.left_commute)
qed simp

end

section \<open>The readers follow the format\<close>

lemma ReadFull_cases:
  assumes "so_error src = None"
  shows "ReadFull n src =
    (if n \<le> length (so_bytes src) then (take n (so_bytes src), None, src\<lparr>so_bytes := drop n (so_bytes src)\<rparr>)
     else if so_bytes src = [] then ([], Some EOF, src\<lparr>so_bytes := []\<rparr>)
     else (so_bytes src, Some ErrUnexpectedEOF, src\<lparr>so_bytes := []\<rparr>))"
  using assms by (auto simp: ReadFull_def source_end_def Let_def)

lemma ReadFull_progress:
  assumes "ReadFull n src = (bs, None, src')" and "0 < n"
  shows "length (so_bytes src') < length (so_bytes src)"
  using assms by (auto simp: ReadFull_def Let_def split: if_splits)

lemma ReadFull_shrinks: "ReadFull n src = (bs, err, src') \<Longrightarrow> length (so_bytes src') \<le> length (so_bytes src)"
  by (auto simp: ReadFull_def Let_def split: if_splits)

interpretation enc: reader_fill "encrypt_fill seal" for seal
proof
  fix r :: reader
  assume "\<not> reader_over r"
  obtain plain err src where rf: "ReadFull ChunkSize (rd_src r) = (plain, err, src)" by (metis prod_cases3)
  then show "reader_over (encrypt_fill seal r) \<or>
      length (so_bytes (rd_src (encrypt_fill seal r))) < length (so_bytes (rd_src r))"
    using ReadFull_progress [of ChunkSize "rd_src r" plain src]
    by (cases err) (auto simp: encrypt_fill_def Let_def reader_over_def)
next
  fix r :: reader
  show "reader_wf (encrypt_fill seal (reader_reset r))"
    by (auto simp: encrypt_fill_def Let_def reader_wf_def split: prod.splits option.splits)
qed

lemma open_chunk_src [simp]: "rd_src (open_chunk opn block final r) = rd_src r"
  by (auto simp: open_chunk_def Let_def split: option.splits)

text \<open>Both readers start a \<open>fill\<close> with an empty buffer, and a chunk that opens replaces it.\<close>

lemma open_chunk_wf: "rd_offset r = 0 \<Longrightarrow> rd_offset (open_chunk opn block final r) = 0"
  by (auto simp: open_chunk_def Let_def split: option.splits)

lemma readHeader_src:
  "readHeader r = (ok, r') \<Longrightarrow> length (so_bytes (rd_src r')) \<le> length (so_bytes (rd_src r)) \<and> rd_offset r' = rd_offset r \<and>
     (ok \<or> reader_over r')"
  using ReadFull_shrinks by (fastforce simp: readHeader_def reader_over_def Let_def split: prod.splits option.splits if_splits)

lemma decrypt_fill_progress:
  assumes "\<not> reader_over r"
  shows "reader_over (decrypt_fill opn r) \<or>
    length (so_bytes (rd_src (decrypt_fill opn r))) < length (so_bytes (rd_src r))"
proof -
  obtain ok r1 where hd: "(if dr_headerRead r then (True, r) else readHeader r) = (ok, r1)" by fastforce
  obtain block err src where rf: "ReadFull blockSize (rd_src r1) = (block, err, src)" by (metis prod_cases3)
  have r1: "length (so_bytes (rd_src r1)) \<le> length (so_bytes (rd_src r))" "ok \<or> reader_over r1"
    using hd readHeader_src [of r ok r1] by (auto split: if_splits)
  show ?thesis
    using r1 ReadFull_progress [of blockSize "rd_src r1" block src] rf
    by (cases err) (auto simp: decrypt_fill_def hd Let_def reader_over_def)
qed

lemma decrypt_fill_wf: "reader_wf (decrypt_fill opn (reader_reset r))"
proof -
  let ?r = "reader_reset r"
  obtain ok r1 where hd: "(if dr_headerRead ?r then (True, ?r) else readHeader ?r) = (ok, r1)" by fastforce
  have "rd_offset r1 = 0" using hd readHeader_src [of ?r ok r1] by (auto split: if_splits)
  then have "rd_offset (decrypt_fill opn ?r) = 0"
    by (auto simp: decrypt_fill_def hd Let_def open_chunk_wf split: prod.splits option.splits)
  then show ?thesis by (simp add: reader_wf_def)
qed

interpretation dec: reader_fill "decrypt_fill opn" for opn
  by unfold_locales (simp_all add: decrypt_fill_progress decrypt_fill_wf)

text \<open>A chunk that does not end the stream takes one index, and there is none after the last.\<close>

lemma encrypt_fill_index:
  "\<not> reader_over (encrypt_fill seal (reader_reset r)) \<Longrightarrow>
     rd_index r \<noteq> MaxUint32 \<and> rd_index (encrypt_fill seal (reader_reset r)) = rd_index r + 1"
  by (auto simp: encrypt_fill_def reader_over_def reader_reset_def Let_def split: prod.splits option.splits if_splits)

lemma open_chunk_index: "\<not> reader_over (open_chunk opn block final r) \<Longrightarrow> rd_index (open_chunk opn block final r) = rd_index r + 1"
  by (auto simp: open_chunk_def reader_over_def Let_def split: option.splits if_splits)

lemma readHeader_index: "readHeader r = (True, r') \<Longrightarrow> rd_index r' = rd_index r"
  by (auto simp: readHeader_def Let_def split: prod.splits option.splits if_splits)

lemma decrypt_fill_index:
  assumes "\<not> reader_over (decrypt_fill opn (reader_reset r))"
  shows "rd_index r \<noteq> MaxUint32 \<and> rd_index (decrypt_fill opn (reader_reset r)) = rd_index r + 1"
proof -
  obtain ok r1 where r1: "(if dr_headerRead (reader_reset r) then (True, reader_reset r) else readHeader (reader_reset r)) = (ok, r1)" by fastforce
  obtain block err src where rf: "ReadFull blockSize (rd_src r1) = (block, err, src)" by (metis prod_cases3)
  have fill: "decrypt_fill opn (reader_reset r) = (if \<not> ok then r1 else if rd_index r1 = MaxUint32 then r1\<lparr>rd_err := Some ErrStreamTooLong\<rparr>
      else let r = r1\<lparr>rd_src := src\<rparr> in
        case err of
          None \<Rightarrow> open_chunk opn block False r
        | Some e \<Rightarrow>
            if e = ErrUnexpectedEOF then (open_chunk opn block True r)\<lparr>rd_done := True\<rparr>
            else if e = EOF then r\<lparr>rd_err := Some ErrCiphertext\<rparr>
            else r\<lparr>rd_err := Some e\<rparr>)"
    unfolding decrypt_fill_def r1 by (simp add: rf Let_def)
  have ok: "ok" and i1: "rd_index r1 = rd_index r"
    using r1 readHeader_src [of "reader_reset r" ok r1] readHeader_index [of "reader_reset r" r1] assms unfolding fill
    by (auto simp: reader_reset_def split: if_splits)
  then show ?thesis
    using assms open_chunk_index [of opn block False "r1\<lparr>rd_src := src\<rparr>"] unfolding fill
    by (cases err) (auto simp: reader_over_def Let_def split: if_splits)
qed

lemma chunks_bounded:
  fixes g :: "'a reader_scheme \<Rightarrow> 'a reader_scheme"
  assumes "\<And>r. \<not> reader_over (g r) \<Longrightarrow> rd_index r \<noteq> MaxUint32 \<and> rd_index (g r) = rd_index r + 1"
  shows "\<exists>k \<le> Suc (unat (MaxUint32 - rd_index r)). reader_over ((g ^^ k) r)"
proof (induction "unat (MaxUint32 - rd_index r)" arbitrary: r rule: less_induct)
  case less
  show ?case
  proof (cases "reader_over (g r)")
    case True
    then show ?thesis by (intro exI [of _ 1]) simp
  next
    case False
    note step = assms [OF False]
    define w where "w = MaxUint32 - rd_index r"
    have w: "w \<noteq> 0" "MaxUint32 - rd_index (g r) = w - 1" using step by (simp_all add: w_def)
    have "unat w = Suc (unat (w - 1))" using w(1) unat_minus_one [OF w(1)] by (simp add: unat_gt_0)
    then have dec: "unat (MaxUint32 - rd_index r) = Suc (unat (MaxUint32 - rd_index (g r)))" unfolding w(2) w_def .
    then obtain k where "k \<le> Suc (unat (MaxUint32 - rd_index (g r)))" "reader_over ((g ^^ k) (g r))" using less [of "g r"] by auto
    then show ?thesis using dec by (intro exI [of _ "Suc k"]) (simp add: funpow_Suc_right del: funpow.simps)
  qed
qed

text \<open>An encrypting reader with \<open>pt\<close> to come yields its chunks and ends well.\<close>

lemma encrypt_yields:
  assumes "\<not> reader_over r" and "rd_src r = \<lparr>so_bytes = pt, so_error = None\<rparr>" and "fits (rd_index r) pt"
  shows "yields (encrypt_fill seal) r
    (drop (rd_offset r) (rd_buf r) @ seal_chunks seal (rd_key r) (rd_attachmentID r) (rd_baseNonce r) (rd_index r) pt) EOF"
  using assms
proof (induction "length pt" arbitrary: r pt rule: less_induct)
  case less
  let ?i = "rd_index r" and ?r' = "encrypt_fill seal (reader_reset r)"
  let ?seal = "\<lambda>p f. seal (rd_key r) (chunkNonce (rd_baseNonce r) ?i) p (chunkAAD (rd_attachmentID r) ?i f)"
  have max: "?i \<noteq> MaxUint32" using less.prems(3) by (rule fits_not_max)
  show ?case
  proof (cases "length pt < ChunkSize")
    case True
    then have r': "?r' = r\<lparr>rd_src := \<lparr>so_bytes = [], so_error = None\<rparr>, rd_buf := ?seal pt True, rd_offset := 0, rd_done := True\<rparr>"
      using max less.prems by (auto simp: encrypt_fill_def ReadFull_cases Let_def reader_reset_def)
    have "yields (encrypt_fill seal) ?r' (?seal pt True) EOF"
      using yields.over [of ?r' "encrypt_fill seal"] less.prems(1) by (simp add: r' reader_over_def)
    from yields.filled [OF less.prems(1) this] show ?thesis
      using True by (subst seal_chunks.simps) simp
  next
    case False
    let ?rest = "drop ChunkSize pt"
    have r': "?r' = r\<lparr>rd_src := \<lparr>so_bytes = ?rest, so_error = None\<rparr>, rd_buf := ?seal (take ChunkSize pt) False,
        rd_offset := 0, rd_index := ?i + 1\<rparr>"
      using max less.prems False by (simp add: encrypt_fill_def ReadFull_cases Let_def reader_reset_def)
    have "yields (encrypt_fill seal) ?r' (drop (rd_offset ?r') (rd_buf ?r') @
        seal_chunks seal (rd_key ?r') (rd_attachmentID ?r') (rd_baseNonce ?r') (rd_index ?r') ?rest) EOF"
      using False less.prems fits_next(1) [OF less.prems(3)]
      by (intro less.hyps) (auto simp: r' reader_over_def)
    from yields.filled [OF less.prems(1) this] show ?thesis
      using False by (subst seal_chunks.simps) (simp add: r')
  qed
qed

text \<open>A decrypting reader yields what the chunks left in its source open to.\<close>

definition opens :: "aead_open \<Rightarrow> decryptingReader \<Rightarrow> bytes \<Rightarrow> bytes \<times> stream_error" where
  "opens opn r ct = open_chunks opn (rd_key r) (rd_attachmentID r) (rd_baseNonce r) (rd_index r) (dr_expected r) (dr_produced r) ct"

lemma yields_error:
  assumes "\<not> reader_over r" and "rd_buf (fill (reader_reset r)) = []" and "rd_err (fill (reader_reset r)) = Some e"
  shows "yields fill r (drop (rd_offset r) (rd_buf r)) e"
proof -
  have "yields fill (fill (reader_reset r)) [] e"
    using yields.over [of "fill (reader_reset r)" fill] assms(2,3) by (simp add: reader_over_def)
  from yields.filled [OF assms(1) this] show ?thesis by simp
qed

lemma decrypt_yields:
  assumes "\<not> reader_over r" and "rd_src r = \<lparr>so_bytes = ct, so_error = None\<rparr>" and "dr_headerRead r"
  shows "yields (decrypt_fill opn) r (drop (rd_offset r) (rd_buf r) @ fst (opens opn r ct)) (snd (opens opn r ct))"
  using assms
proof (induction "length ct" arbitrary: r ct rule: less_induct)
  case less
  let ?i = "rd_index r" and ?r' = "decrypt_fill opn (reader_reset r)"
  let ?opn = "\<lambda>c f. opn (rd_key r) (chunkNonce (rd_baseNonce r) ?i) c (chunkAAD (rd_attachmentID r) ?i f)"
  consider (max) "?i = MaxUint32" | (full) "?i \<noteq> MaxUint32" "blockSize \<le> length ct"
    | (short) "?i \<noteq> MaxUint32" "length ct < blockSize"
    by linarith
  then show ?case
  proof cases
    case max
    then have "rd_buf ?r' = []" "rd_err ?r' = Some ErrStreamTooLong"
      using less.prems by (simp_all add: decrypt_fill_def reader_reset_def)
    from yields_error [where fill = "decrypt_fill opn", OF less.prems(1) this] max show ?thesis
      unfolding opens_def by (subst (1 2) open_chunks.simps) simp
  next
    case full
    let ?c = "take blockSize ct" and ?rest = "drop blockSize ct"
    have fill: "?r' = open_chunk opn ?c False (reader_reset r\<lparr>rd_src := \<lparr>so_bytes = ?rest, so_error = None\<rparr>\<rparr>)"
      using full less.prems by (simp add: decrypt_fill_def ReadFull_cases Let_def reader_reset_def)
    show ?thesis
    proof (cases "case ?opn ?c False of None \<Rightarrow> False | Some p \<Rightarrow> dr_produced r + int (length p) \<le> dr_expected r")
      case False
      then have "rd_buf ?r' = []" "rd_err ?r' = Some ErrCiphertext"
        using full unfolding fill open_chunk_def
        by (auto simp: Let_def reader_reset_def split: option.splits)
      from yields_error [where fill = "decrypt_fill opn", OF less.prems(1) this] False full show ?thesis
        unfolding opens_def by (subst (1 2) open_chunks.simps) (auto split: option.splits)
    next
      case True
      then obtain p where p: "?opn ?c False = Some p" "dr_produced r + int (length p) \<le> dr_expected r"
        by (auto split: option.splits)
      have r': "?r' = r\<lparr>rd_src := \<lparr>so_bytes = ?rest, so_error = None\<rparr>, rd_buf := p, rd_offset := 0,
          rd_index := ?i + 1, dr_produced := dr_produced r + int (length p)\<rparr>"
        using full p unfolding fill open_chunk_def by (simp add: Let_def reader_reset_def)
      have "yields (decrypt_fill opn) ?r' (drop (rd_offset ?r') (rd_buf ?r') @ fst (opens opn ?r' ?rest)) (snd (opens opn ?r' ?rest))"
        using full less.prems by (intro less.hyps) (auto simp: r' reader_over_def)
      from yields.filled [OF less.prems(1) this] show ?thesis
        using full p unfolding opens_def by (subst (1 2) open_chunks.simps) (auto simp: r' split: prod.splits)
    qed
  next
    case short
    let ?ok = "tagSize \<le> length ct \<and> (case ?opn ct True of None \<Rightarrow> False | Some p \<Rightarrow> dr_produced r + int (length p) = dr_expected r)"
    have fill: "?r' = (if ct = [] then reader_reset r\<lparr>rd_src := \<lparr>so_bytes = [], so_error = None\<rparr>, rd_err := Some ErrCiphertext\<rparr>
        else (open_chunk opn ct True (reader_reset r\<lparr>rd_src := \<lparr>so_bytes = [], so_error = None\<rparr>\<rparr>))\<lparr>rd_done := True\<rparr>)"
      using short less.prems by (simp add: decrypt_fill_def ReadFull_cases Let_def reader_reset_def)
    show ?thesis
    proof (cases ?ok)
      case False
      then have "rd_buf ?r' = []" "rd_err ?r' = Some ErrCiphertext"
        unfolding fill open_chunk_def by (auto simp: Let_def reader_reset_def split: option.splits)
      from yields_error [where fill = "decrypt_fill opn", OF less.prems(1) this] False short show ?thesis
        unfolding opens_def by (subst (1 2) open_chunks.simps) (auto split: option.splits)
    next
      case True
      then obtain p where p: "?opn ct True = Some p" "dr_produced r + int (length p) = dr_expected r"
        by (auto split: option.splits)
      have r': "rd_buf ?r' = p" "rd_offset ?r' = 0" "rd_err ?r' = None" "rd_done ?r'"
        using True p less.prems(1) unfolding fill open_chunk_def
        by (auto simp: Let_def reader_reset_def reader_over_def)
      have "yields (decrypt_fill opn) ?r' p EOF"
        using yields.over [of ?r' "decrypt_fill opn"] r' by (simp add: reader_over_def)
      from yields.filled [OF less.prems(1) this] show ?thesis
        using True short p unfolding opens_def by (subst (1 2) open_chunks.simps) simp
    qed
  qed
qed

section \<open>Whole objects\<close>

lemma yields_step:
  assumes "yields fill r bs e" and "\<not> reader_over r"
  shows "\<exists>bs'. bs = drop (rd_offset r) (rd_buf r) @ bs' \<and> yields fill (fill (reader_reset r)) bs' e"
  using assms(1) by cases (use assms(2) in auto)

definition fresh_reader :: "bytes \<Rightarrow> bytes \<Rightarrow> bytes \<Rightarrow> int \<Rightarrow> decryptingReader" where
  "fresh_reader ct key aid sz =
     \<lparr>rd_src = \<lparr>so_bytes = ct, so_error = None\<rparr>, rd_key = key, rd_attachmentID = aid,
      rd_baseNonce = replicate baseNonceSize 0, rd_index = 0, rd_buf = [], rd_offset = 0, rd_done = False,
      rd_err = None, dr_expected = sz, dr_produced = 0, dr_headerRead = False\<rparr>"

lemma newDecryptingReader_Inr_iff:
  "newDecryptingReader \<lparr>so_bytes = ct, so_error = None\<rparr> key aid sz = Inr d \<longleftrightarrow>
     0 \<le> sz \<and> length key = KeySize \<and> d = fresh_reader ct key aid sz"
  by (auto simp: newDecryptingReader_def newAEAD_def bind_err_Inr_iff fresh_reader_def)

lemma header_split:
  "length (magic @ base) = headerSize \<longleftrightarrow> length base = baseNonceSize"
  by (simp add: magic_def)

lemma fresh_yields:
  assumes "length base = baseNonceSize"
  shows "yields (decrypt_fill opn) (fresh_reader (magic @ base @ ct) key aid sz)
    (fst (open_chunks opn key aid base 0 sz 0 ct)) (snd (open_chunks opn key aid base 0 sz 0 ct))"
proof -
  let ?r = "fresh_reader (magic @ base @ ct) key aid sz"
  let ?r1 = "?r\<lparr>rd_src := \<lparr>so_bytes = ct, so_error = None\<rparr>, rd_baseNonce := base, dr_headerRead := True\<rparr>"
  have over: "\<not> reader_over ?r" "\<not> reader_over ?r1" by (simp_all add: reader_over_def fresh_reader_def)
  have hd: "readHeader (reader_reset ?r) = (True, reader_reset ?r1)"
    using assms by (simp add: readHeader_def ReadFull_def Let_def fresh_reader_def reader_reset_def magic_def)
  have same: "decrypt_fill opn (reader_reset ?r) = decrypt_fill opn (reader_reset ?r1)"
    unfolding decrypt_fill_def using hd by (simp add: fresh_reader_def reader_reset_def)
  have "yields (decrypt_fill opn) ?r1 (fst (opens opn ?r1 ct)) (snd (opens opn ?r1 ct))"
    using decrypt_yields [of ?r1 ct opn] over(2) by (simp add: fresh_reader_def)
  then have "yields (decrypt_fill opn) (decrypt_fill opn (reader_reset ?r)) (fst (opens opn ?r1 ct)) (snd (opens opn ?r1 ct))"
    using yields_step [OF _ over(2)] same by (auto simp: fresh_reader_def)
  from yields.filled [OF over(1) this] show ?thesis by (simp add: opens_def fresh_reader_def)
qed

lemma fresh_yields_bad:
  assumes "length ct < headerSize \<or> take (length magic) ct \<noteq> magic"
  shows "yields (decrypt_fill opn) (fresh_reader ct key aid sz) [] ErrCiphertext"
proof -
  let ?r = "fresh_reader ct key aid sz"
  have over: "\<not> reader_over ?r" by (simp add: reader_over_def fresh_reader_def)
  have "rd_buf (decrypt_fill opn (reader_reset ?r)) = []"
    "rd_err (decrypt_fill opn (reader_reset ?r)) = Some ErrCiphertext"
    using assms by (auto simp: decrypt_fill_def readHeader_def ReadFull_def Let_def fresh_reader_def reader_reset_def
        source_end_def magic_def split: if_splits)
  from yields_error [where fill = "decrypt_fill opn", OF over this] show ?thesis by (simp add: fresh_reader_def)
qed

lemma fresh_wf: "reader_wf (fresh_reader ct key aid sz)"
  by (simp add: reader_wf_def fresh_reader_def)

lemma encrypt_drain:
  assumes "length key = KeySize" and "fits 0 pt" and "0 < n"
  shows "\<exists>r. NewEncryptingReader \<lparr>so_bytes = pt, so_error = None\<rparr> key aid base = Inr r \<and>
    reader_drain (encrypt_fill seal) n r [] = Some (envelope seal key aid base pt, EOF)"
proof -
  let ?r = "\<lparr>rd_src = \<lparr>so_bytes = pt, so_error = None\<rparr>, rd_key = key, rd_attachmentID = aid, rd_baseNonce = base,
            rd_index = 0, rd_buf = magic @ base, rd_offset = 0, rd_done = False, rd_err = None\<rparr>"
  have "yields (encrypt_fill seal) ?r (envelope seal key aid base pt) EOF"
    using encrypt_yields [of ?r pt seal] assms(2) by (simp add: reader_over_def envelope_def)
  moreover have "reader_wf ?r" by (simp add: reader_wf_def)
  ultimately have "reader_drain (encrypt_fill seal) n ?r [] = Some ([] @ envelope seal key aid base pt, EOF)"
    using assms(3) by (rule enc.drain_yields)
  then show ?thesis using assms(1) by (simp add: NewEncryptingReader_def newAEAD_def)
qed

context aead
begin

lemma length_envelope:
  "length base = baseNonceSize \<Longrightarrow> int (length (envelope seal key aid base pt)) = CiphertextSize (int (length pt))"
  by (simp add: envelope_def length_seal_chunks CiphertextSize_def Let_def magic_def zdiv_int zmod_int)

lemma decrypt_drain:
  assumes "length base = baseNonceSize" and "fits 0 pt" and "0 < m"
  shows "reader_drain (decrypt_fill opn) m (fresh_reader (envelope seal key aid base pt) key aid (int (length pt))) [] = Some (pt, EOF)"
proof -
  have "yields (decrypt_fill opn) (fresh_reader (envelope seal key aid base pt) key aid (int (length pt))) pt EOF"
    using fresh_yields [OF assms(1), of opn "seal_chunks seal key aid base 0 pt" key aid "int (length pt)"]
      open_seal_chunks [OF assms(2), of 0 "int (length pt)" key aid base]
    by (simp add: envelope_def)
  from dec.drain_yields [OF this fresh_wf assms(3)] show ?thesis by simp
qed

lemma decrypt_drain_only:
  assumes "reader_drain (decrypt_fill opn) m (fresh_reader ct key aid sz) [] = Some (pt, EOF)" and "0 < m"
  shows "int (length pt) = sz \<and> (\<exists>base. length base = baseNonceSize \<and> ct = envelope seal key aid base pt)"
proof (cases "length ct < headerSize \<or> take (length magic) ct \<noteq> magic")
  case True
  from dec.drain_yields [OF fresh_yields_bad [OF True] fresh_wf assms(2)] assms(1) show ?thesis by simp
next
  case False
  define base where "base = take baseNonceSize (drop 4 ct)"
  define rest where "rest = drop headerSize ct"
  have ct: "ct = magic @ base @ rest" and base: "length base = baseNonceSize"
  proof -
    have "rest = drop baseNonceSize (drop 4 ct)" by (simp add: rest_def)
    then have "drop 4 ct = base @ rest" unfolding base_def by (metis append_take_drop_id)
    moreover have "take 4 ct = magic" using False by (simp add: magic_def eval_nat_numeral)
    ultimately show "ct = magic @ base @ rest" by (metis append_take_drop_id)
    have "headerSize \<le> length ct" using False by simp
    then show "length base = baseNonceSize" by (simp add: base_def)
  qed
  have "open_chunks opn key aid base 0 sz 0 rest = (pt, EOF)"
    using dec.drain_yields [OF fresh_yields [OF base] fresh_wf assms(2), of opn rest key aid sz "[]"] assms(1)
    by (simp add: ct prod_eq_iff)
  from open_chunks_only [OF this] show ?thesis using base ct by (auto simp: envelope_def)
qed

end

section \<open>Random access\<close>

lemma ChunkLocation_eq:
  assumes "off \<le> length pt" and "fits 0 pt"
  shows "ChunkLocation (int off) =
    (word_of_nat (off div ChunkSize), int (headerSize + off div ChunkSize * blockSize), int (off mod ChunkSize))"
    and "uint (word_of_nat (off div ChunkSize) :: 32 word) = int (off div ChunkSize)"
proof -
  have small: "off div ChunkSize < 2 ^ 32 - 1"
    using assms div_le_mono [of off "length pt" ChunkSize] by (simp add: fits_def)
  define k where "k = off div ChunkSize"
  have nonneg: "(if int off < 0 then 0 else int off) = int off" by simp
  have idx: "int off div int ChunkSize = int k" by (simp add: k_def zdiv_int)
  have "\<not> int k > uint MaxUint32" using small by (simp add: k_def)
  then show "ChunkLocation (int off) =
    (word_of_nat (off div ChunkSize), int (headerSize + off div ChunkSize * blockSize), int (off mod ChunkSize))"
    unfolding ChunkLocation_def Let_def nonneg idx k_def [symmetric] zmod_int
    by (simp only: if_False of_int_of_nat_eq of_nat_add of_nat_mult)
  have "unat (word_of_nat k :: 32 word) = k mod 2 ^ 32" by (simp add: unat_of_nat)
  also have "\<dots> = k" using small by (intro mod_less) (simp add: k_def)
  finally have "nat (uint (word_of_nat k :: 32 word)) = k" by (simp only: unat_eq_nat_uint)
  then show "uint (word_of_nat (off div ChunkSize) :: 32 word) = int (off div ChunkSize)"
    unfolding k_def [symmetric] using uint_ge_0 [of "word_of_nat k :: 32 word"] by linarith
qed

lemma fits_drop:
  assumes "fits 0 pt" and "n * ChunkSize \<le> length pt"
  shows "fits (word_of_nat n) (drop (n * ChunkSize) pt)"
proof -
  have "n \<le> length pt div ChunkSize" using assms(2) by (simp add: less_eq_div_iff_mult_less_eq)
  moreover have "(length pt - n * ChunkSize) div ChunkSize = length pt div ChunkSize - n"
    by (metis div_mult_self3 add_diff_cancel_left' assms(2) le_add_diff_inverse zero_neq_numeral)
  moreover have "unat (word_of_nat n :: 32 word) \<le> n" by (simp add: unat_of_nat)
  ultimately show ?thesis using assms(1) by (simp add: fits_def)
qed

context aead
begin

lemma chunk_reader_drain:
  fixes aid :: bytes
  assumes base: "length base = baseNonceSize" and fits: "fits 0 pt" and m: "0 < m"
    and key: "length key = KeySize" and off: "off \<le> length pt"
  defines "ct \<equiv> envelope seal key aid base pt" and "k \<equiv> off div ChunkSize"
  shows "\<exists>d. NewChunkReader (take headerSize ct) \<lparr>so_bytes = drop (headerSize + k * blockSize) ct, so_error = None\<rparr>
        key aid (int (length pt)) (word_of_nat k) = Inr d \<and>
      reader_drain (decrypt_fill opn) m d [] = Some (drop (k * ChunkSize) pt, EOF)"
proof -
  let ?i = "word_of_nat k :: 32 word"
  let ?d = "(fresh_reader (drop (headerSize + k * blockSize) ct) key aid (int (length pt)))
    \<lparr>rd_baseNonce := base, dr_headerRead := True, rd_index := ?i, dr_produced := int (k * ChunkSize)\<rparr>"
  have k: "k * ChunkSize \<le> length pt" using off by (simp add: k_def)
  have ui: "uint ?i = int k" using ChunkLocation_eq(2) [OF off fits] by (simp add: k_def)
  have hd: "take headerSize ct = magic @ base" using base by (simp add: ct_def envelope_def magic_def)
  have "NewChunkReader (take headerSize ct) \<lparr>so_bytes = drop (headerSize + k * blockSize) ct, so_error = None\<rparr>
        key aid (int (length pt)) ?i = Inr ?d"
    unfolding hd using key base k
    by (simp add: NewChunkReader_def newDecryptingReader_def newAEAD_def fresh_reader_def Let_def ui magic_def)
  moreover have "drop (headerSize + k * blockSize) ct = drop (k * blockSize) (drop headerSize ct)"
    by (simp add: add.commute)
  then have "drop (headerSize + k * blockSize) ct = seal_chunks seal key aid base ?i (drop (k * ChunkSize) pt)"
    using drop_seal_chunks [OF k, of key aid base 0] base by (simp add: ct_def envelope_def magic_def)
  then have "opens opn ?d (drop (headerSize + k * blockSize) ct) = (drop (k * ChunkSize) pt, EOF)"
    using open_seal_chunks [OF fits_drop [OF fits k], of "int (k * ChunkSize)" "int (length pt)" key aid base] k
    by (simp add: opens_def fresh_reader_def)
  then have "yields (decrypt_fill opn) ?d (drop (k * ChunkSize) pt) EOF"
    using decrypt_yields [of ?d "drop (headerSize + k * blockSize) ct" opn] by (simp add: fresh_reader_def reader_over_def)
  from dec.drain_yields [OF this _ m] have "reader_drain (decrypt_fill opn) m ?d [] = Some (drop (k * ChunkSize) pt, EOF)"
    by (simp add: reader_wf_def fresh_reader_def)
  ultimately show ?thesis by auto
qed

end

text \<open>A cipher for concrete runs: the plaintext followed by a checksum of everything bound.\<close>

definition demo_seal :: aead_seal where
  "demo_seal k n p a = p @ replicate tagSize (sum_list (k @ n @ p @ a))"

definition demo_open :: aead_open where
  "demo_open k n c a =
     (let p = take (length c - tagSize) c in if c = demo_seal k n p a then Some p else None)"

interpretation demo: aead demo_seal demo_open
  by unfold_locales (auto simp: demo_seal_def demo_open_def Let_def split: if_splits)

section \<open>Properties\<close>

text \<open>
  Claim C8. Reading an encrypting reader to its end, in reads of any size, gives an object of
  exactly \<open>CiphertextSize\<close> bytes, and reading that object back through a decrypting reader, in
  reads of any size, gives the plaintext and a clean end of file, for every plaintext that the
  chunk counter can address.
\<close>

theorem envelope_roundtrip:
  assumes "aead seal opn" and "length key = KeySize" and "length base = baseNonceSize"
    and "fits 0 pt" and "0 < n" and "0 < m"
  shows "\<exists>r ct d. NewEncryptingReader \<lparr>so_bytes = pt, so_error = None\<rparr> key aid base = Inr r \<and>
    reader_drain (encrypt_fill seal) n r [] = Some (ct, EOF) \<and>
    int (length ct) = CiphertextSize (int (length pt)) \<and>
    newDecryptingReader \<lparr>so_bytes = ct, so_error = None\<rparr> key aid (int (length pt)) = Inr d \<and>
    reader_drain (decrypt_fill opn) m d [] = Some (pt, EOF)"
proof -
  obtain r where r: "NewEncryptingReader \<lparr>so_bytes = pt, so_error = None\<rparr> key aid base = Inr r"
    "reader_drain (encrypt_fill seal) n r [] = Some (envelope seal key aid base pt, EOF)"
    using encrypt_drain [OF assms(2,4,5)] by blast
  have "newDecryptingReader \<lparr>so_bytes = envelope seal key aid base pt, so_error = None\<rparr> key aid (int (length pt)) =
      Inr (fresh_reader (envelope seal key aid base pt) key aid (int (length pt)))"
    using assms(2) by (simp add: newDecryptingReader_Inr_iff)
  with r show ?thesis
    using aead.length_envelope [OF assms(1,3)] aead.decrypt_drain [OF assms(1,3,4,6)] by blast
qed

theorem envelope_roundtrip_witness:
  "\<exists>r ct d. NewEncryptingReader \<lparr>so_bytes = [1, 2, 3], so_error = None\<rparr> (replicate 32 7) (replicate 16 9) (replicate 8 5) = Inr r \<and>
    reader_drain (encrypt_fill demo_seal) 5 r [] = Some (ct, EOF) \<and>
    int (length ct) = CiphertextSize (int (length [1 :: byte, 2, 3])) \<and>
    newDecryptingReader \<lparr>so_bytes = ct, so_error = None\<rparr> (replicate 32 7) (replicate 16 9) (int (length [1 :: byte, 2, 3])) = Inr d \<and>
    reader_drain (decrypt_fill demo_open) 2 d [] = Some ([1, 2, 3], EOF)"
  by (rule envelope_roundtrip [OF demo.aead_axioms]) (simp_all add: fits_def)

text \<open>
  Claim C31. Only the envelope of a plaintext reads back without an error: if a decrypting
  reader reaches a clean end of file, what it handed out has exactly the length the caller
  authenticated, and the bytes it read are the envelope of what it handed out under the same
  key, object and some base nonce. A truncated, extended, reordered or relabelled stream is
  none.
\<close>

theorem only_envelopes_decrypt:
  assumes "aead seal opn" and "0 < m"
    and "newDecryptingReader \<lparr>so_bytes = ct, so_error = None\<rparr> key aid sz = Inr d"
    and "reader_drain (decrypt_fill opn) m d [] = Some (pt, EOF)"
  shows "int (length pt) = sz \<and> (\<exists>base. length base = baseNonceSize \<and> ct = envelope seal key aid base pt)"
  using assms(3,4) aead.decrypt_drain_only [OF assms(1) _ assms(2)]
  by (auto simp: newDecryptingReader_Inr_iff)

theorem only_envelopes_decrypt_witness:
  "\<exists>base. length base = baseNonceSize \<and>
     envelope demo_seal (replicate 32 7) [] (replicate 8 5) [4] = envelope demo_seal (replicate 32 7) [] base [4]"
proof -
  let ?ct = "envelope demo_seal (replicate 32 7) [] (replicate 8 5) [4]"
  have "newDecryptingReader \<lparr>so_bytes = ?ct, so_error = None\<rparr> (replicate 32 7) [] 1 =
      Inr (fresh_reader ?ct (replicate 32 7) [] 1)"
    by (simp add: newDecryptingReader_Inr_iff)
  moreover have "reader_drain (decrypt_fill demo_open) 3 (fresh_reader ?ct (replicate 32 7) [] 1) [] = Some ([4], EOF)"
    using demo.decrypt_drain [of "replicate 8 5" "[4]" 3 "replicate 32 7" "[]"] by (simp add: fits_def)
  ultimately show ?thesis
    using only_envelopes_decrypt [OF demo.aead_axioms, of 3 ?ct "replicate 32 7" "[]" 1] by simp
qed

text \<open>
  Random access: reading from the chunk that \<open>ChunkLocation\<close> names for an offset,
  given the header and the ciphertext from its byte offset on, and discarding the bytes it says
  precede the offset, gives exactly the plaintext from that offset on.
\<close>

theorem random_access:
  assumes "aead seal opn" and "length key = KeySize" and "length base = baseNonceSize"
    and "fits 0 pt" and "off \<le> length pt" and "0 < m"
  shows "case ChunkLocation (int off) of (chunk, ciphertextOffset, skip) \<Rightarrow>
    \<exists>d bs. NewChunkReader (take headerSize (envelope seal key aid base pt))
        \<lparr>so_bytes = drop (nat ciphertextOffset) (envelope seal key aid base pt), so_error = None\<rparr>
        key aid (int (length pt)) chunk = Inr d \<and>
      reader_drain (decrypt_fill opn) m d [] = Some (bs, EOF) \<and> drop (nat skip) bs = drop off pt"
proof -
  let ?k = "off div ChunkSize"
  have "off mod ChunkSize + ?k * ChunkSize = off" by simp
  then have "drop (off mod ChunkSize) (drop (?k * ChunkSize) pt) = drop off pt" by (simp only: drop_drop)
  then show ?thesis
    unfolding ChunkLocation_eq(1) [OF assms(5,4)] prod.case nat_int
    using aead.chunk_reader_drain [OF assms(1,3,4,6,2,5), of aid] by blast
qed

theorem random_access_witness:
  "case ChunkLocation 2 of (chunk, ciphertextOffset, skip) \<Rightarrow>
    \<exists>d bs. NewChunkReader (take headerSize (envelope demo_seal (replicate 32 7) [] (replicate 8 5) [10, 11, 12]))
        \<lparr>so_bytes = drop (nat ciphertextOffset) (envelope demo_seal (replicate 32 7) [] (replicate 8 5) [10, 11, 12]), so_error = None\<rparr>
        (replicate 32 7) [] 3 chunk = Inr d \<and>
      reader_drain (decrypt_fill demo_open) 4 d [] = Some (bs, EOF) \<and> drop (nat skip) bs = [12]"
  using random_access [OF demo.aead_axioms, of "replicate 32 7" "replicate 8 5" "[10, 11, 12]" 2 4 "[]"]
  by (simp add: fits_def)

text \<open>
  No two chunks of an object share a nonce, and a chunk's associated data names its
  object, its position and whether it is the last: two chunks with the same are the same chunk.
\<close>

theorem chunk_identity:
  assumes "fits 0 pt" and "length a = length b"
  shows "distinct (map (\<lambda>k. chunkNonce base (word_of_nat k)) [0..<length pt div ChunkSize + 1]) \<and>
    (chunkAAD a i f = chunkAAD b j g) = (a = b \<and> i = j \<and> f = g)"
proof -
  have "inj_on (\<lambda>k. word_of_nat k :: 32 word) {0..<length pt div ChunkSize + 1}"
    using assms(1) by (intro inj_onI) (simp add: fits_def word_of_nat_eq_iff take_bit_nat_eq_self)
  then show ?thesis
    using chunkAAD_inject [OF assms(2)] by (simp add: distinct_map inj_on_def chunkNonce_inject del: upt_Suc)
qed

theorem chunk_identity_witness:
  "(chunkAAD [1] 0 False = chunkAAD [1] 0 True) = False"
  using chunk_identity [of "[]" "[1]" "[1]" "[]" 0 False 0 True] by (simp add: fits_def)

text \<open>
  Claim C38. Reading ends. Whatever is left of its source, however long it is and however it ends, and whatever the cipher
  answers, a reader of either kind has ended, with an error or at its end, after at most as many chunks as
  there are indices from its own to the largest, so after \<open>2 ^ 32\<close>; and a caller that keeps reading
  it over a finite source gets that end after finitely many reads, in buffers of any size.
\<close>

theorem reading_terminates:
  assumes "0 < n" and "reader_wf r" and "reader_wf d"
  shows "(\<exists>k \<le> Suc (unat (MaxUint32 - rd_index r)). reader_over (((\<lambda>r. encrypt_fill seal (reader_reset r)) ^^ k) r)) \<and>
    (\<exists>k \<le> Suc (unat (MaxUint32 - rd_index d)). reader_over (((\<lambda>r. decrypt_fill opn (reader_reset r)) ^^ k) d)) \<and>
    (\<exists>bs e. reader_drain (encrypt_fill seal) n r [] = Some (bs, e)) \<and>
    (\<exists>bs e. reader_drain (decrypt_fill opn) n d [] = Some (bs, e))"
  using chunks_bounded [of "\<lambda>r. encrypt_fill seal (reader_reset r)" r, OF encrypt_fill_index]
    chunks_bounded [of "\<lambda>r. decrypt_fill opn (reader_reset r)" d, OF decrypt_fill_index]
    enc.drain_terminates [OF assms(2,1)] dec.drain_terminates [OF assms(3,1)] by blast

theorem reading_terminates_witness:
  "\<exists>bs e. reader_drain (decrypt_fill demo_open) 7 (fresh_reader [1, 2, 3] (replicate 32 7) [] 1) [] = Some (bs, e)"
  using reading_terminates [of 7 "\<lparr>rd_src = \<lparr>so_bytes = [], so_error = None\<rparr>, rd_key = [], rd_attachmentID = [],
      rd_baseNonce = [], rd_index = 0, rd_buf = [], rd_offset = 0, rd_done = False, rd_err = None\<rparr>"
      "fresh_reader [1, 2, 3] (replicate 32 7) [] 1"] fresh_wf
  by (simp add: reader_wf_def)

end
