(* ===== verification/Keyring.thy ===== *)
theory Keyring
  imports Envelope
begin

text \<open>
  The key ring of \<open>services/file-service/internal/crypto/envelope.go\<close>: parsing the configured
  master keys and wrapping the data key of an object so that it opens only for that object, in
  its workspace, at its length. \<open>SHA-256\<close> is the argument \<open>sha\<close>; the AEAD and random bytes are
  arguments as in \<open>Envelope\<close>.
\<close>

section \<open>Parsing keys\<close>

text \<open>
  \<open>base64.StdEncoding\<close>: line ends are skipped, a final group may be padded, and bits left over
  in it are ignored.
\<close>

definition base64_digit :: "char \<Rightarrow> 32 word option" where
  "base64_digit c =
     (let n = (of_char c :: int) in
      if 65 \<le> n \<and> n \<le> 90 then Some (word_of_int (n - 65))
      else if 97 \<le> n \<and> n \<le> 122 then Some (word_of_int (n - 71))
      else if 48 \<le> n \<and> n \<le> 57 then Some (word_of_int (n + 4))
      else if n = 43 then Some 62
      else if n = 47 then Some 63
      else None)"

text \<open>Four digits are 24 bits, most significant first; padding digits count as zero.\<close>

definition base64_quantum :: "32 word \<Rightarrow> 32 word \<Rightarrow> 32 word \<Rightarrow> 32 word \<Rightarrow> bytes" where
  "base64_quantum p q r s = big_endian 3 (push_bit 18 p OR push_bit 12 q OR push_bit 6 r OR s)"

fun base64_groups :: "string \<Rightarrow> bytes option" where
  "base64_groups [] = Some []"
| "base64_groups [a, b, c, d] =
     (case (base64_digit a, base64_digit b, base64_digit c, base64_digit d) of
        (Some p, Some q, Some r, Some s) \<Rightarrow> Some (base64_quantum p q r s)
      | (Some p, Some q, Some r, None) \<Rightarrow> if d = CHR ''='' then Some (take 2 (base64_quantum p q r 0)) else None
      | (Some p, Some q, None, None) \<Rightarrow>
          if c = CHR ''='' \<and> d = CHR ''='' then Some (take 1 (base64_quantum p q 0 0)) else None
      | _ \<Rightarrow> None)"
| "base64_groups (a # b # c # d # rest) =
     (case (base64_digit a, base64_digit b, base64_digit c, base64_digit d, base64_groups rest) of
        (Some p, Some q, Some r, Some s, Some bs) \<Rightarrow> Some (base64_quantum p q r s @ bs)
      | _ \<Rightarrow> None)"
| "base64_groups _ = None"

definition base64_decode :: "string \<Rightarrow> bytes option" where
  "base64_decode s = base64_groups (filter (\<lambda>c. c \<noteq> CHR 0x0A \<and> c \<noteq> CHR 0x0D) s)"

definition decodeMasterKey :: "string \<Rightarrow> stream_error + bytes" where
  "decodeMasterKey base64Key =
     (let trimmed = go_trim_space base64Key in
      if trimmed = '''' then Inl ErrInvalidKey
      else case base64_decode trimmed of
             None \<Rightarrow> Inl ErrInvalidKey
           | Some key \<Rightarrow> if length key \<noteq> KeySize then Inl ErrInvalidKey else Inr key)"

definition newKeyEncryptionKey :: "string \<Rightarrow> stream_error + bytes" where
  "newKeyEncryptionKey base64Key = bind_err (decodeMasterKey base64Key) newAEAD"

abbreviation maxKeyIDLength :: nat where "maxKeyIDLength \<equiv> 64"

text \<open>The pattern \<open>[a-z0-9][a-z0-9._-]{0,63}\<close>, anchored at both ends.\<close>

definition key_id_char :: "char \<Rightarrow> bool" where
  "key_id_char c \<longleftrightarrow>
     (let n = (of_char c :: nat) in 97 \<le> n \<and> n \<le> 122 \<or> 48 \<le> n \<and> n \<le> 57)"

definition keyIDPattern :: "string \<Rightarrow> bool" where
  "keyIDPattern s =
     (case s of [] \<Rightarrow> False
      | c # cs \<Rightarrow> key_id_char c \<and> length cs \<le> 63 \<and>
          list_all (\<lambda>c. key_id_char c \<or> c = CHR ''.'' \<or> c = CHR ''_'' \<or> c = CHR ''-'') cs)"

definition validateKeyID :: "string \<Rightarrow> stream_error + string" where
  "validateKeyID keyID =
     (let trimmed = go_trim_space keyID in
      if trimmed = '''' then Inl ErrInvalidKey
      else if length trimmed > maxKeyIDLength \<or> \<not> keyIDPattern trimmed then Inl ErrInvalidKey
      else Inr trimmed)"

record Keyring =
  kr_activeID :: string
  kr_keys :: "string \<rightharpoonup> bytes"

text \<open>\<open>strings.Cut\<close> at a character.\<close>

definition go_cut :: "char \<Rightarrow> string \<Rightarrow> (string \<times> string) option" where
  "go_cut sep s =
     (if sep \<in> set s then Some (takeWhile (\<lambda>c. c \<noteq> sep) s, tl (dropWhile (\<lambda>c. c \<noteq> sep) s)) else None)"

fun addPrevious_loop :: "string list \<Rightarrow> Keyring \<Rightarrow> stream_error + Keyring" where
  "addPrevious_loop [] r = Inr r"
| "addPrevious_loop (entry0 # entries) r =
     (let entry = go_trim_space entry0 in
      if entry = '''' then addPrevious_loop entries r
      else case go_cut CHR '':'' entry of
        None \<Rightarrow> Inl ErrInvalidKey
      | Some (rawID, rawKey) \<Rightarrow>
          bind_err (validateKeyID rawID) (\<lambda>id.
            if kr_keys r id \<noteq> None then Inl ErrInvalidKey
            else bind_err (newKeyEncryptionKey rawKey) (\<lambda>key.
              addPrevious_loop entries (r\<lparr>kr_keys := (kr_keys r)(id \<mapsto> key)\<rparr>))))"

definition addPrevious :: "string \<Rightarrow> Keyring \<Rightarrow> stream_error + Keyring" where
  "addPrevious previous r = addPrevious_loop (go_split CHR '','' previous) r"

definition NewKeyring :: "string \<Rightarrow> string \<Rightarrow> string \<Rightarrow> stream_error + Keyring" where
  "NewKeyring activeID activeKey previous =
     bind_err (validateKeyID activeID) (\<lambda>id.
     bind_err (newKeyEncryptionKey activeKey) (\<lambda>active.
       addPrevious previous \<lparr>kr_activeID = id, kr_keys = [id \<mapsto> active]\<rparr>))"

section \<open>Wrapping\<close>

record Binding =
  bd_AttachmentID :: bytes
  bd_WorkspaceID :: bytes
  bd_PlaintextSize :: int
  bd_KeyWrapVersion :: int
  bd_ContentEnvelopeVersion :: int

record wireBinding =
  wb_keyWrapVersion :: "16 word"
  wb_contentEnvelopeVersion :: "16 word"
  wb_plaintextSize :: "64 word"

definition Binding_validate :: "Binding \<Rightarrow> stream_error + wireBinding" where
  "Binding_validate b =
     (if bd_PlaintextSize b < 0 then Inl ErrInvalidBinding
      else if bd_KeyWrapVersion b \<noteq> KeyWrapVersion then Inl ErrUnsupportedVersion
      else if bd_ContentEnvelopeVersion b \<noteq> EnvelopeVersion then Inl ErrUnsupportedVersion
      else Inr \<lparr>wb_keyWrapVersion = word_of_int (bd_KeyWrapVersion b),
                wb_contentEnvelopeVersion = word_of_int (bd_ContentEnvelopeVersion b),
                wb_plaintextSize = word_of_int (bd_PlaintextSize b)\<rparr>)"

definition dekAAD :: "(string \<Rightarrow> bytes) \<Rightarrow> string \<Rightarrow> Binding \<Rightarrow> wireBinding \<Rightarrow> bytes" where
  "dekAAD sha keyID binding wire =
     dekMagic @ big_endian 2 (wb_keyWrapVersion wire) @ big_endian 2 (wb_contentEnvelopeVersion wire) @
     bd_AttachmentID binding @ bd_WorkspaceID binding @ sha keyID @ big_endian 8 (wb_plaintextSize wire)"

definition kek_wrap ::
    "aead_seal \<Rightarrow> (string \<Rightarrow> bytes) \<Rightarrow> bytes \<Rightarrow> bytes \<Rightarrow> bytes \<Rightarrow> string \<Rightarrow> Binding \<Rightarrow> stream_error + bytes" where
  "kek_wrap seal sha random k dataKey keyID binding =
     (if length dataKey \<noteq> KeySize then Inl ErrInvalidKey
      else bind_err (Binding_validate binding) (\<lambda>wire.
        Inr (random @ seal k random dataKey (dekAAD sha keyID binding wire))))"

definition kek_unwrap ::
    "aead_open \<Rightarrow> (string \<Rightarrow> bytes) \<Rightarrow> bytes \<Rightarrow> bytes \<Rightarrow> string \<Rightarrow> Binding \<Rightarrow> stream_error + bytes" where
  "kek_unwrap opn sha k wrapped keyID binding =
     bind_err (Binding_validate binding) (\<lambda>wire.
       if length wrapped < nonceSize + tagSize then Inl ErrCiphertext
       else case opn k (take nonceSize wrapped) (drop nonceSize wrapped) (dekAAD sha keyID binding wire) of
              None \<Rightarrow> Inl ErrCiphertext
            | Some dataKey \<Rightarrow> if length dataKey \<noteq> KeySize then Inl ErrCiphertext else Inr dataKey)"

definition Keyring_Wrap ::
    "aead_seal \<Rightarrow> (string \<Rightarrow> bytes) \<Rightarrow> bytes \<Rightarrow> bytes \<Rightarrow> Binding \<Rightarrow> Keyring \<Rightarrow> stream_error + (bytes \<times> string)" where
  "Keyring_Wrap seal sha random dataKey binding r =
     (case kr_keys r (kr_activeID r) of
        None \<Rightarrow> Inl ErrInvalidKey
      | Some active \<Rightarrow>
          bind_err (kek_wrap seal sha random active dataKey (kr_activeID r) binding) (\<lambda>sealed.
            Inr (sealed, kr_activeID r)))"

definition Keyring_Unwrap ::
    "aead_open \<Rightarrow> (string \<Rightarrow> bytes) \<Rightarrow> bytes \<Rightarrow> string \<Rightarrow> Binding \<Rightarrow> Keyring \<Rightarrow> stream_error + bytes" where
  "Keyring_Unwrap opn sha wrapped keyID binding r =
     (case kr_keys r keyID of
        None \<Rightarrow> Inl ErrUnknownKey
      | Some key \<Rightarrow> kek_unwrap opn sha key wrapped keyID binding)"

section \<open>Lemmas\<close>

lemma decodeMasterKey_length: "decodeMasterKey s = Inr k \<Longrightarrow> length k = KeySize"
  by (auto simp: decodeMasterKey_def Let_def split: if_splits option.splits)

lemma newKeyEncryptionKey_length: "newKeyEncryptionKey s = Inr k \<Longrightarrow> length k = KeySize"
  by (auto simp: newKeyEncryptionKey_def bind_err_Inr_iff newAEAD_def split: if_splits)

text \<open>Adding previous keys never changes a key already on the ring, nor the active one.\<close>

lemma addPrevious_loop_keeps:
  assumes "addPrevious_loop es r = Inr r'"
  shows "kr_activeID r' = kr_activeID r \<and> kr_keys r \<subseteq>\<^sub>m kr_keys r' \<and>
    (\<forall>kid k. kr_keys r' kid = Some k \<longrightarrow> kr_keys r kid = Some k \<or> length k = KeySize \<and> keyIDPattern kid)"
  using assms
proof (induction es r rule: addPrevious_loop.induct)
  case (2 entry0 es r)
  show ?case
  proof (cases "go_trim_space entry0 = ''''")
    case True
    with 2 show ?thesis by simp
  next
    case False
    with 2(3) obtain rawID rawKey kid k where cut: "go_cut CHR '':'' (go_trim_space entry0) = Some (rawID, rawKey)"
      and kid: "validateKeyID rawID = Inr kid" "kr_keys r kid = None" and k: "newKeyEncryptionKey rawKey = Inr k"
      and rest: "addPrevious_loop es (r\<lparr>kr_keys := (kr_keys r)(kid \<mapsto> k)\<rparr>) = Inr r'"
      by (auto simp: bind_err_Inr_iff split: option.splits if_splits)
    have "kr_activeID r' = kr_activeID r \<and> (kr_keys r)(kid \<mapsto> k) \<subseteq>\<^sub>m kr_keys r' \<and>
      (\<forall>kid' k'. kr_keys r' kid' = Some k' \<longrightarrow> ((kr_keys r)(kid \<mapsto> k)) kid' = Some k' \<or> length k' = KeySize \<and> keyIDPattern kid')"
      using 2(2) [OF refl False cut refl kid(1) _ k, simplified] kid(2) rest by (simp add: fun_upd_def)
    moreover have "keyIDPattern kid" using kid(1) by (auto simp: validateKeyID_def Let_def split: if_splits)
    moreover have "length k = KeySize" using k by (rule newKeyEncryptionKey_length)
    moreover have "kr_keys r \<subseteq>\<^sub>m (kr_keys r)(kid \<mapsto> k)" using kid(2) by (auto simp: map_le_def)
    ultimately show ?thesis by (auto split: if_splits intro: map_le_trans)
  qed
qed simp

lemma NewKeyring_active:
  assumes "NewKeyring activeID activeKey previous = Inr r"
  shows "\<exists>k. validateKeyID activeID = Inr (kr_activeID r) \<and> newKeyEncryptionKey activeKey = Inr k \<and>
    kr_keys r (kr_activeID r) = Some k"
proof -
  obtain kid k where "validateKeyID activeID = Inr kid" "newKeyEncryptionKey activeKey = Inr k"
    "addPrevious previous \<lparr>kr_activeID = kid, kr_keys = [kid \<mapsto> k]\<rparr> = Inr r"
    using assms by (auto simp: NewKeyring_def bind_err_Inr_iff)
  then show ?thesis
    using addPrevious_loop_keeps [of "go_split CHR '','' previous"] by (fastforce simp: addPrevious_def map_le_def)
qed

lemma NewKeyring_lengths:
  assumes "NewKeyring activeID activeKey previous = Inr r" and "kr_keys r kid = Some k"
  shows "length k = KeySize"
proof -
  obtain id0 k0 where k0: "newKeyEncryptionKey activeKey = Inr k0"
    and prev: "addPrevious_loop (go_split CHR '','' previous) \<lparr>kr_activeID = id0, kr_keys = [id0 \<mapsto> k0]\<rparr> = Inr r"
    using assms by (auto simp: NewKeyring_def bind_err_Inr_iff addPrevious_def)
  have "[id0 \<mapsto> k0] kid = Some k \<or> length k = KeySize"
    using addPrevious_loop_keeps [OF prev] assms(2) by (fastforce split: if_splits)
  then show ?thesis using newKeyEncryptionKey_length [OF k0] by (auto split: if_splits)
qed

lemmas be64_inject = big_endian_inject [where 'a = 64 and k = 8, simplified]

text \<open>The binding of an accepted object can be read back off its associated data.\<close>

lemma dekAAD_inject:
  assumes "Binding_validate b = Inr w" and "Binding_validate b' = Inr w'"
    and "length (bd_AttachmentID b) = 16" "length (bd_AttachmentID b') = 16"
    and "length (bd_WorkspaceID b) = 16" "length (bd_WorkspaceID b') = 16"
    and "\<And>s. length (sha s) = 32"
    and "bd_PlaintextSize b < 2 ^ 63" "bd_PlaintextSize b' < 2 ^ 63"
    and eq: "dekAAD sha i b w = dekAAD sha i' b' w'"
  shows "b = b' \<and> sha i = sha i'"
proof -
  have w: "wb_plaintextSize w = word_of_int (bd_PlaintextSize b)" "0 \<le> bd_PlaintextSize b"
    "wb_plaintextSize w' = word_of_int (bd_PlaintextSize b')" "0 \<le> bd_PlaintextSize b'"
    "bd_KeyWrapVersion b = bd_KeyWrapVersion b'" "bd_ContentEnvelopeVersion b = bd_ContentEnvelopeVersion b'"
    using assms(1,2) by (auto simp: Binding_validate_def split: if_splits)
  have parts: "bd_AttachmentID b = bd_AttachmentID b'" "bd_WorkspaceID b = bd_WorkspaceID b'" "sha i = sha i'"
    "big_endian 8 (wb_plaintextSize w) = big_endian 8 (wb_plaintextSize w')"
    using eq assms(3-7) by (simp_all add: dekAAD_def)
  have "(word_of_int (bd_PlaintextSize b) :: 64 word) = word_of_int (bd_PlaintextSize b')"
    using parts(4) w by (simp add: be64_inject)
  then have "bd_PlaintextSize b = bd_PlaintextSize b'"
    using w assms(8,9) by (simp add: word_of_int_eq_iff take_bit_int_eq_self)
  with parts w show ?thesis by (simp add: Binding.equality)
qed

section \<open>Properties\<close>

text \<open>
  What a configured ring wraps it unwraps: for any accepted configuration, a data key
  of the right size and a valid binding, \<open>Wrap\<close> succeeds under the active key's id and
  \<open>Unwrap\<close> with that id and the same binding returns the data key.
\<close>

theorem wrap_unwrap:
  assumes "aead seal opn" and "NewKeyring activeID activeKey previous = Inr r"
    and "length dataKey = KeySize" and "Binding_validate b = Inr w" and "length random = nonceSize"
  shows "\<exists>wrapped. Keyring_Wrap seal sha random dataKey b r = Inr (wrapped, kr_activeID r) \<and>
    length wrapped = nonceSize + KeySize + tagSize \<and>
    Keyring_Unwrap opn sha wrapped (kr_activeID r) b r = Inr dataKey"
proof -
  obtain k where k: "kr_keys r (kr_activeID r) = Some k" using NewKeyring_active [OF assms(2)] by blast
  then show ?thesis
    using assms(3-5) aead.seal_length [OF assms(1)] aead.open_seal [OF assms(1)]
    by (simp add: Keyring_Wrap_def Keyring_Unwrap_def kek_wrap_def kek_unwrap_def)
qed

text \<open>
  Claim C37. A wrapped key opens only as what it is: if \<open>Unwrap\<close> accepts bytes for a key id and
  a binding, they are a data key sealed under the ring's key of exactly that id, with associated
  data from which that binding and the digest of that id can be read back; so the same bytes are
  never accepted as the sealing of another associated data of the same length.
\<close>

theorem unwrap_only_sealed:
  assumes "aead seal opn" and "Keyring_Unwrap opn sha wrapped keyID b r = Inr dataKey"
    and "Binding_validate b = Inr w" and "Binding_validate b' = Inr w'"
    and "length (bd_AttachmentID b) = 16" and "length (bd_AttachmentID b') = 16"
    and "length (bd_WorkspaceID b) = 16" and "length (bd_WorkspaceID b') = 16"
    and "\<forall>s. length (sha s) = 32"
    and "bd_PlaintextSize b < 2 ^ 63" and "bd_PlaintextSize b' < 2 ^ 63"
  shows "length dataKey = KeySize \<and>
    (\<exists>k. kr_keys r keyID = Some k \<and>
       drop nonceSize wrapped = seal k (take nonceSize wrapped) dataKey (dekAAD sha keyID b w)) \<and>
    (dekAAD sha keyID b w = dekAAD sha keyID' b' w') = (b = b' \<and> sha keyID = sha keyID')"
proof -
  obtain k where k: "kr_keys r keyID = Some k" "length dataKey = KeySize"
    "opn k (take nonceSize wrapped) (drop nonceSize wrapped) (dekAAD sha keyID b w) = Some dataKey"
    using assms(2,3) by (auto simp: Keyring_Unwrap_def kek_unwrap_def split: option.splits if_splits)
  have sealed: "drop nonceSize wrapped = seal k (take nonceSize wrapped) dataKey (dekAAD sha keyID b w)"
    using k(3) by (rule aead.open_only [OF assms(1)])
  have aad: "(dekAAD sha keyID b w = dekAAD sha keyID' b' w') = (b = b' \<and> sha keyID = sha keyID')"
  proof
    assume "dekAAD sha keyID b w = dekAAD sha keyID' b' w'"
    then show "b = b' \<and> sha keyID = sha keyID'"
      using assms(3-8,10,11) spec [OF assms(9)] by (intro dekAAD_inject)
  next
    assume "b = b' \<and> sha keyID = sha keyID'"
    moreover from this assms(3,4) have "w = w'" by simp
    ultimately show "dekAAD sha keyID b w = dekAAD sha keyID' b' w'" by (simp add: dekAAD_def)
  qed
  show ?thesis unfolding aad using k sealed by blast
qed

text \<open>A ring with one key of 32 zero bytes, for concrete runs.\<close>

definition demo_sha :: "string \<Rightarrow> bytes" where
  "demo_sha s = replicate 31 0 @ [word_of_nat (length s)]"

definition demo_ring :: Keyring where
  "demo_ring = \<lparr>kr_activeID = ''k1'', kr_keys = [''k1'' \<mapsto> replicate 32 0]\<rparr>"

definition demo_binding :: Binding where
  "demo_binding = \<lparr>bd_AttachmentID = replicate 16 1, bd_WorkspaceID = replicate 16 2, bd_PlaintextSize = 5,
     bd_KeyWrapVersion = 2, bd_ContentEnvelopeVersion = 1\<rparr>"

lemma demo_ring_new:
  "NewKeyring ''k1'' ''AAAAAAAAAAAAAAAAAAAAAAAAAAAAAAAAAAAAAAAAAAA='' '''' = Inr demo_ring"
proof -
  have "validateKeyID ''k1'' = Inr ''k1''" by code_simp
  moreover have "newKeyEncryptionKey ''AAAAAAAAAAAAAAAAAAAAAAAAAAAAAAAAAAAAAAAAAAA='' = Inr (replicate 32 0)"
    by code_simp
  ultimately show ?thesis by (simp add: NewKeyring_def addPrevious_def demo_ring_def)
qed

lemma demo_binding_valid:
  "Binding_validate demo_binding = Inr \<lparr>wb_keyWrapVersion = 2, wb_contentEnvelopeVersion = 1, wb_plaintextSize = 5\<rparr>"
  by (simp add: Binding_validate_def demo_binding_def)

theorem wrap_unwrap_witness:
  "\<exists>wrapped. Keyring_Wrap demo_seal demo_sha (replicate 12 3) (replicate 32 4) demo_binding demo_ring = Inr (wrapped, kr_activeID demo_ring) \<and>
    length wrapped = nonceSize + KeySize + tagSize \<and>
    Keyring_Unwrap demo_open demo_sha wrapped (kr_activeID demo_ring) demo_binding demo_ring = Inr (replicate 32 4)"
  by (rule wrap_unwrap [OF demo.aead_axioms demo_ring_new _ demo_binding_valid]) simp_all

theorem unwrap_only_sealed_witness:
  "\<exists>wrapped k. kr_keys demo_ring ''k1'' = Some k \<and>
     drop nonceSize wrapped = demo_seal k (take nonceSize wrapped) (replicate 32 4) (dekAAD demo_sha ''k1'' demo_binding
       \<lparr>wb_keyWrapVersion = 2, wb_contentEnvelopeVersion = 1, wb_plaintextSize = 5\<rparr>)"
proof -
  let ?w = "\<lparr>wb_keyWrapVersion = 2, wb_contentEnvelopeVersion = 1, wb_plaintextSize = 5\<rparr> :: wireBinding"
  let ?c = "replicate 12 3 @ demo_seal (replicate 32 0) (replicate 12 3) (replicate 32 4) (dekAAD demo_sha ''k1'' demo_binding ?w)"
  have "Keyring_Unwrap demo_open demo_sha ?c ''k1'' demo_binding demo_ring = Inr (replicate 32 4)"
    by (simp add: Keyring_Unwrap_def demo_ring_def kek_unwrap_def demo_binding_valid demo.seal_length demo.open_seal)
  moreover have "length (bd_AttachmentID demo_binding) = 16" "length (bd_WorkspaceID demo_binding) = 16"
    "bd_PlaintextSize demo_binding < 2 ^ 63" "\<forall>s. length (demo_sha s) = 32"
    by (simp_all add: demo_binding_def demo_sha_def)
  ultimately show ?thesis
    using unwrap_only_sealed [OF demo.aead_axioms _ demo_binding_valid demo_binding_valid, of demo_sha ?c "''k1''"
        demo_ring "replicate 32 4" "''k1''"] by blast
qed

end
