(* ===== verification/Go_Utf8.thy ===== *)
theory Go_Utf8
  imports Go_Prelude
begin

text \<open>
  What the program uses of Go's \<open>unicode/utf8\<close> and \<open>unicode\<close> packages: decoding a string rune
  by rune. A malformed byte decodes to one \<open>RuneError\<close> of width one, so counting runes is total
  on every string; \<open>utf8.ValidString\<close> asks that no such byte occurs.
\<close>

abbreviation RuneError :: nat where "RuneError \<equiv> 0xFFFD"

definition utf8_cont :: "nat \<Rightarrow> bool" where
  "utf8_cont b \<longleftrightarrow> 0x80 \<le> b \<and> b \<le> 0xBF"

text \<open>The range of the second byte, by the first one: \<open>acceptRanges\<close> of \<open>utf8.go\<close>.\<close>

definition utf8_second :: "nat \<Rightarrow> nat \<Rightarrow> bool" where
  "utf8_second b0 b1 \<longleftrightarrow>
     (if b0 = 0xE0 then 0xA0 \<le> b1 \<and> b1 \<le> 0xBF
      else if b0 = 0xED then 0x80 \<le> b1 \<and> b1 \<le> 0x9F
      else if b0 = 0xF0 then 0x90 \<le> b1 \<and> b1 \<le> 0xBF
      else if b0 = 0xF4 then 0x80 \<le> b1 \<and> b1 \<le> 0x8F
      else utf8_cont b1)"

text \<open>The rune at the head of a byte sequence, whether its encoding is valid, and its width.\<close>

definition decode_rune :: "nat list \<Rightarrow> nat \<times> bool \<times> nat" where
  "decode_rune bs =
     (case bs of
        [] \<Rightarrow> (RuneError, False, 1)
      | b0 # r0 \<Rightarrow>
          if b0 < 0x80 then (b0, True, 1)
          else case r0 of
            [] \<Rightarrow> (RuneError, False, 1)
          | b1 # r1 \<Rightarrow>
              if 0xC2 \<le> b0 \<and> b0 \<le> 0xDF \<and> utf8_cont b1
                then ((b0 mod 0x20) * 0x40 + b1 mod 0x40, True, 2)
              else case r1 of
                [] \<Rightarrow> (RuneError, False, 1)
              | b2 # r2 \<Rightarrow>
                  if 0xE0 \<le> b0 \<and> b0 \<le> 0xEF \<and> utf8_second b0 b1 \<and> utf8_cont b2
                    then ((b0 mod 0x10) * 0x1000 + (b1 mod 0x40) * 0x40 + b2 mod 0x40, True, 3)
                  else case r2 of
                    [] \<Rightarrow> (RuneError, False, 1)
                  | b3 # _ \<Rightarrow>
                      if 0xF0 \<le> b0 \<and> b0 \<le> 0xF4 \<and> utf8_second b0 b1 \<and> utf8_cont b2 \<and> utf8_cont b3
                        then ((b0 mod 8) * 0x40000 + (b1 mod 0x40) * 0x1000 + (b2 mod 0x40) * 0x40 + b3 mod 0x40,
                              True, 4)
                      else (RuneError, False, 1))"

lemma decode_rune_width: "decode_rune bs = (r, ok, n) \<Longrightarrow> 0 < n"
  by (auto simp: decode_rune_def split: list.splits if_splits)

function decode_runes :: "nat list \<Rightarrow> (nat \<times> bool) list" where
  "decode_runes bs =
     (if bs = [] then []
      else let (r, ok, n) = decode_rune bs in (r, ok) # decode_runes (drop n bs))"
  by pat_completeness auto
termination
  by (relation "measure length") (auto dest: decode_rune_width [OF sym])

declare decode_runes.simps [simp del]

definition go_runes :: "string \<Rightarrow> (nat \<times> bool) list" where
  "go_runes s = decode_runes (map of_char s)"

definition RuneCountInString :: "string \<Rightarrow> nat" where
  "RuneCountInString s = length (go_runes s)"

definition ValidString :: "string \<Rightarrow> bool" where
  "ValidString s \<longleftrightarrow> list_all snd (go_runes s)"

text \<open>\<open>unicode.IsControl\<close>: the category Cc.\<close>

definition IsControl :: "nat \<Rightarrow> bool" where
  "IsControl r \<longleftrightarrow> r \<le> 0x1F \<or> 0x7F \<le> r \<and> r \<le> 0x9F"

lemma decode_runes_length: "length (decode_runes bs) \<le> length bs"
proof (induction bs rule: decode_runes.induct)
  case (1 bs)
  show ?case
  proof (cases "bs = []")
    case False
    obtain r ok n where d: "decode_rune bs = (r, ok, n)" by (cases "decode_rune bs") auto
    have "length (decode_runes (drop n bs)) \<le> length bs - n"
      using 1 [OF False d [symmetric] refl] by simp
    moreover have "0 < n" and "0 < length bs" using decode_rune_width [OF d] False by auto
    ultimately have "Suc (length (decode_runes (drop n bs))) \<le> length bs" by linarith
    then show ?thesis using d False by (subst decode_runes.simps) simp
  qed (simp add: decode_runes.simps)
qed

lemma RuneCountInString_le: "RuneCountInString s \<le> length s"
  using decode_runes_length [of "map of_char s"] by (simp add: RuneCountInString_def go_runes_def)

lemma decode_runes_Nil [simp]: "decode_runes [] = []"
  by (subst decode_runes.simps) simp

lemma decode_runes_ascii_Cons: "b < 0x80 \<Longrightarrow> decode_runes (b # bs) = (b, True) # decode_runes bs"
  by (subst decode_runes.simps) (simp add: decode_rune_def)

lemma decode_runes_ascii: "\<forall>b \<in> set bs. b < 0x80 \<Longrightarrow> decode_runes bs = map (\<lambda>b. (b, True)) bs"
  by (induction bs) (simp_all add: decode_runes_ascii_Cons)

lemma go_runes_ascii:
  "\<forall>c \<in> set s. of_char c < (0x80 :: nat) \<Longrightarrow> go_runes s = map (\<lambda>c. (of_char c, True)) s"
  by (simp add: go_runes_def decode_runes_ascii)

section \<open>Trimming\<close>

text \<open>What is left by \<open>strings.TrimSpace\<close> starts and ends with no space, so trimming it again changes nothing.\<close>

lemma strip_any_stop:
  "find (\<lambda>w. w \<noteq> [] \<and> take (length w) s = w) ws = None \<Longrightarrow> strip_any ws s = s"
  by (subst strip_any.simps) simp

lemma strip_any_none:
  "find (\<lambda>w. w \<noteq> [] \<and> take (length w) (strip_any ws s) = w) ws = None"
proof (induction ws s rule: strip_any.induct)
  case (1 ws s)
  show ?case
  proof (cases "find (\<lambda>w. w \<noteq> [] \<and> take (length w) s = w) ws")
    case None
    then show ?thesis by (simp add: strip_any_stop)
  next
    case (Some w)
    then have "strip_any ws s = strip_any ws (drop (length w) s)" by (subst strip_any.simps) simp
    with 1 [OF Some] show ?thesis by simp
  qed
qed

lemma strip_any_suffix: "\<exists>p. s = p @ strip_any ws s"
proof (induction ws s rule: strip_any.induct)
  case (1 ws s)
  show ?case
  proof (cases "find (\<lambda>w. w \<noteq> [] \<and> take (length w) s = w) ws")
    case None
    then show ?thesis by (auto simp: strip_any_stop)
  next
    case (Some w)
    then have eq: "strip_any ws s = strip_any ws (drop (length w) s)" by (subst strip_any.simps) simp
    obtain p where "drop (length w) s = p @ strip_any ws (drop (length w) s)" using 1 [OF Some] by auto
    then have "s = (take (length w) s @ p) @ strip_any ws s" using eq by (metis append.assoc append_take_drop_id)
    then show ?thesis by blast
  qed
qed

lemma no_space_prefix:
  assumes "find (\<lambda>w. w \<noteq> [] \<and> take (length w) (s @ t) = w) ws = None"
  shows "find (\<lambda>w. w \<noteq> [] \<and> take (length w) s = w) ws = None"
proof -
  have "take (length w) s = w \<Longrightarrow> take (length w) (s @ t) = w" for w
    by (metis append_take_drop_id length_take min.cobounded2 min_def nat_le_linear take_all_iff take_append
        append_Nil2 diff_is_0_eq take0)
  with assms show ?thesis by (auto simp: find_None_iff)
qed

lemma go_trim_space_idem [simp]: "go_trim_space (go_trim_space s) = go_trim_space s"
proof -
  define l where "l = strip_any go_space_encodings s"
  define r where "r = strip_any (map rev go_space_encodings) (rev l)"
  obtain p where "rev l = p @ r" using strip_any_suffix r_def by blast
  then have l: "l = rev r @ rev p" by (metis rev_append rev_rev_ident)
  have "find (\<lambda>w. w \<noteq> [] \<and> take (length w) (rev r) = w) go_space_encodings = None"
    by (rule no_space_prefix [of _ "rev p"]) (simp add: l [symmetric] l_def strip_any_none)
  then have "strip_any go_space_encodings (rev r) = rev r" by (rule strip_any_stop)
  moreover have "strip_any (map rev go_space_encodings) r = r"
    unfolding r_def by (rule strip_any_stop) (rule strip_any_none)
  ultimately show ?thesis by (simp add: go_trim_space_def l_def [symmetric] r_def [symmetric])
qed

end
