(* ===== verification/Workspace_Policy.thy ===== *)
theory Workspace_Policy
  imports Go_Utf8 "HOL-Library.Word"
begin

text \<open>
  The workspace policies of \<open>services/chat-service/internal/domain\<close> (\<open>workspace.go\<close>,
  \<open>channel_category.go\<close>) and the two shared limits they re-export, \<open>uploadpolicy\<close> and
  \<open>antispampolicy\<close> of \<open>libs/go/platform\<close>. Roles and states are open string types in Go and stay
  strings. A nil pointer is \<open>None\<close>.
\<close>

section \<open>Errors of the domain\<close>

text \<open>
  The sentinels of the package that the modelled code returns, and \<open>ErrDatabase\<close>, an error of the driver that is
  passed on as it is.
\<close>

datatype domain_error =
    ErrNotFound | ErrForbidden | ErrInvalidInput | ErrConflict | ErrOwnershipConflict
  | ErrEditForbidden | ErrEditWindowExpired
  | ErrChannelDisplayNameRequired | ErrChannelDisplayNameTooLong
  | ErrChannelCategoryNameRequired | ErrChannelCategoryNameInvalid
  | ErrChannelCategoryNameTooLong | ErrChannelCategoryNameReserved
  | ErrPersistentNotificationsRequireUrgent
  | ErrMeetingTitleRequired | ErrMeetingTitleInvalid | ErrMeetingDescriptionInvalid
  | ErrMeetingInvalidTimeRange | ErrMeetingInvalidTimezone | ErrMeetingInvalidJoinPolicy
  | ErrMeetingConversationRequired | ErrMeetingStaleVersion | ErrMeetingInvalidState
  | ErrMeetingParticipantNotEligible | ErrMeetingParticipantExists | ErrIdempotencyKeyReused
  | ErrCallParticipantBusy | ErrCallParticipationStale | ErrAcknowledgementRecipientsExceeded
  | ErrDatabase

section \<open>Workspace, members and channels\<close>

abbreviation "WorkspaceStatusActive \<equiv> ''active''"
abbreviation "ChannelTypePublic \<equiv> ''public''"
abbreviation "ChannelTypePrivate \<equiv> ''private''"
abbreviation "ChannelStatusActive \<equiv> ''active''"
abbreviation "WorkspaceRoleOwner \<equiv> ''owner''"
abbreviation "WorkspaceRoleAdmin \<equiv> ''admin''"
abbreviation "WorkspaceRoleModerator \<equiv> ''moderator''"
abbreviation "WorkspaceRoleMember \<equiv> ''member''"
abbreviation "WorkspaceRoleGuest \<equiv> ''guest''"
abbreviation "MemberStatusActive \<equiv> ''active''"

record Workspace =
  ws_ID :: string
  ws_Slug :: string
  ws_Name :: string
  ws_Status :: string
  ws_EditWindowSeconds :: "int option"
  ws_MessageRateLimitPerMinute :: int
  ws_MaxUploadBytes :: int
  ws_CreatedAt :: go_time
  ws_UpdatedAt :: go_time

record WorkspaceMember =
  wm_WorkspaceID :: string
  wm_UserID :: string
  wm_Role :: string
  wm_Status :: string
  wm_JoinedAt :: go_time

record ChannelMember =
  cm_ChannelID :: string
  cm_UserID :: string
  cm_Role :: string
  cm_JoinedAt :: go_time

record Channel =
  ch_ID :: string
  ch_WorkspaceID :: string
  ch_CategoryID :: string
  ch_Slug :: string
  ch_DisplayName :: string
  ch_Type :: string
  ch_Status :: string
  ch_IsGeneral :: bool
  ch_Position :: int
  ch_CreatedBy :: string
  ch_CreatedAt :: go_time
  ch_UpdatedAt :: go_time

section \<open>Who may do what\<close>

definition CanReachPublicChannels :: "WorkspaceMember option \<Rightarrow> bool" where
  "CanReachPublicChannels wm =
     (case wm of
        None \<Rightarrow> False
      | Some m \<Rightarrow>
          if wm_Status m \<noteq> MemberStatusActive then False
          else wm_Role m \<in> {WorkspaceRoleOwner, WorkspaceRoleAdmin, WorkspaceRoleModerator, WorkspaceRoleMember})"

definition CanReadChannel :: "WorkspaceMember option \<Rightarrow> ChannelMember option \<Rightarrow> Channel \<Rightarrow> bool" where
  "CanReadChannel wm cm ch =
     (case wm of
        None \<Rightarrow> False
      | Some m \<Rightarrow>
          if wm_Status m \<noteq> MemberStatusActive \<or> wm_WorkspaceID m \<noteq> ch_WorkspaceID ch then False
          else if ch_Status ch \<noteq> ChannelStatusActive then False
          else if (case cm of None \<Rightarrow> False
                   | Some c \<Rightarrow> cm_ChannelID c = ch_ID ch \<and> cm_UserID c = wm_UserID m) then True
          else if \<not> CanReachPublicChannels wm then False
          else ch_Type ch = ChannelTypePublic)"

definition CanWriteChannel :: "WorkspaceMember option \<Rightarrow> ChannelMember option \<Rightarrow> Channel \<Rightarrow> bool" where
  "CanWriteChannel wm cm ch = CanReadChannel wm cm ch"

definition CanManageWorkspace :: "WorkspaceMember option \<Rightarrow> bool" where
  "CanManageWorkspace wm =
     (case wm of
        None \<Rightarrow> False
      | Some m \<Rightarrow>
          if wm_Status m \<noteq> MemberStatusActive then False
          else wm_Role m = WorkspaceRoleOwner \<or> wm_Role m = WorkspaceRoleAdmin)"

definition CanModerateWorkspace :: "WorkspaceMember option \<Rightarrow> bool" where
  "CanModerateWorkspace wm =
     (if CanManageWorkspace wm then True
      else case wm of None \<Rightarrow> False
           | Some m \<Rightarrow> wm_Status m = MemberStatusActive \<and> wm_Role m = WorkspaceRoleModerator)"

definition CanCreateChannel :: "WorkspaceMember option \<Rightarrow> bool" where
  "CanCreateChannel wm = CanReachPublicChannels wm"

definition CanRenameChannel :: "WorkspaceMember option \<Rightarrow> Channel \<Rightarrow> bool" where
  "CanRenameChannel wm ch \<longleftrightarrow> \<not> ch_IsGeneral ch \<and> CanManageWorkspace wm"

definition CanMuteChannel :: "Channel \<Rightarrow> bool" where
  "CanMuteChannel ch \<longleftrightarrow> \<not> ch_IsGeneral ch"

definition CanLeaveChannel :: "Channel \<Rightarrow> bool" where
  "CanLeaveChannel ch \<longleftrightarrow> \<not> ch_IsGeneral ch"

definition CanAddChannelMembers :: "WorkspaceMember option \<Rightarrow> ChannelMember option \<Rightarrow> Channel \<Rightarrow> bool" where
  "CanAddChannelMembers wm cm ch = CanReadChannel wm cm ch"

definition CanManageChannelMembers :: "WorkspaceMember option \<Rightarrow> bool" where
  "CanManageChannelMembers wm = CanModerateWorkspace wm"

definition CanManageChannelCategories :: "WorkspaceMember option \<Rightarrow> bool" where
  "CanManageChannelCategories wm = CanModerateWorkspace wm"

section \<open>Names\<close>

abbreviation MaxChannelDisplayNameCodePoints :: nat where "MaxChannelDisplayNameCodePoints \<equiv> 100"
abbreviation MaxChannelCategoryNameCodePoints :: nat where "MaxChannelCategoryNameCodePoints \<equiv> 60"
abbreviation "UncategorizedGroupName \<equiv> ''Geral''"

definition NormalizeChannelDisplayName :: "string \<Rightarrow> domain_error + string" where
  "NormalizeChannelDisplayName value =
     (let normalized = go_trim_space value in
      if normalized = '''' then Inl ErrChannelDisplayNameRequired
      else if RuneCountInString normalized > MaxChannelDisplayNameCodePoints then Inl ErrChannelDisplayNameTooLong
      else Inr normalized)"

text \<open>
  \<open>strings.EqualFold\<close> against a word of ASCII letters none of which is \<open>k\<close> or \<open>s\<close>: those two are the only
  ASCII letters with a case variant outside ASCII, so comparing lower-cased ASCII is what it computes.
\<close>

definition ascii_lower :: "char \<Rightarrow> char" where
  "ascii_lower c = (let n = (of_char c :: nat) in if 65 \<le> n \<and> n \<le> 90 then char_of (n + 32) else c)"

definition EqualFold :: "string \<Rightarrow> string \<Rightarrow> bool" where
  "EqualFold s t \<longleftrightarrow> map ascii_lower s = map ascii_lower t"

definition NormalizeChannelCategoryName :: "string \<Rightarrow> domain_error + string" where
  "NormalizeChannelCategoryName value =
     (let normalized = go_trim_space value in
      if normalized = '''' then Inl ErrChannelCategoryNameRequired
      else if list_ex (\<lambda>(r, _). IsControl r) (go_runes normalized) then Inl ErrChannelCategoryNameInvalid
      else if RuneCountInString normalized > MaxChannelCategoryNameCodePoints then Inl ErrChannelCategoryNameTooLong
      else if EqualFold normalized UncategorizedGroupName then Inl ErrChannelCategoryNameReserved
      else Inr normalized)"

section \<open>Limits\<close>

text \<open>\<open>uploadpolicy\<close>, over \<open>int64\<close> values; Go's \<open>%\<close> keeps the sign of the dividend, which is positive where it is read.\<close>

abbreviation BytesPerMiB :: int where "BytesPerMiB \<equiv> 1048576"
abbreviation DefaultMaxUploadBytes :: int where "DefaultMaxUploadBytes \<equiv> 262144000"
abbreviation MinMaxUploadBytes :: int where "MinMaxUploadBytes \<equiv> 1048576"
abbreviation MaxMaxUploadBytes :: int where "MaxMaxUploadBytes \<equiv> 536870912"

definition uploadpolicy_Valid :: "int \<Rightarrow> bool" where
  "uploadpolicy_Valid value \<longleftrightarrow> value \<ge> MinMaxUploadBytes \<and> value \<le> MaxMaxUploadBytes \<and> value mod BytesPerMiB = 0"

definition uploadpolicy_Effective :: "int \<Rightarrow> int" where
  "uploadpolicy_Effective value = (if \<not> uploadpolicy_Valid value then DefaultMaxUploadBytes else value)"

definition EffectiveUnder :: "int \<Rightarrow> int \<Rightarrow> int" where
  "EffectiveUnder value ceiling =
     (let effective = uploadpolicy_Effective value in
      if ceiling > 0 \<and> ceiling < effective then ceiling else effective)"

abbreviation antispam_Default :: int where "antispam_Default \<equiv> 60"
abbreviation antispam_Min :: int where "antispam_Min \<equiv> 1"
abbreviation antispam_Max :: int where "antispam_Max \<equiv> 600"

definition antispampolicy_Valid :: "int \<Rightarrow> bool" where
  "antispampolicy_Valid value \<longleftrightarrow> value \<ge> antispam_Min \<and> value \<le> antispam_Max"

definition antispampolicy_Effective :: "int \<Rightarrow> int" where
  "antispampolicy_Effective value = (if \<not> antispampolicy_Valid value then antispam_Default else value)"

section \<open>Properties\<close>

lemma CanReachPublicChannels_iff:
  "CanReachPublicChannels wm \<longleftrightarrow> (\<exists>m. wm = Some m \<and> wm_Status m = MemberStatusActive \<and>
     wm_Role m \<in> {WorkspaceRoleOwner, WorkspaceRoleAdmin, WorkspaceRoleModerator, WorkspaceRoleMember})"
  unfolding CanReachPublicChannels_def by (cases wm) (simp_all, blast?)

lemma CanManageWorkspace_iff:
  "CanManageWorkspace wm \<longleftrightarrow> (\<exists>m. wm = Some m \<and> wm_Status m = MemberStatusActive \<and>
     wm_Role m \<in> {WorkspaceRoleOwner, WorkspaceRoleAdmin})"
  unfolding CanManageWorkspace_def by (cases wm) (simp_all, blast?)

lemma CanModerateWorkspace_iff:
  "CanModerateWorkspace wm \<longleftrightarrow> (\<exists>m. wm = Some m \<and> wm_Status m = MemberStatusActive \<and>
     wm_Role m \<in> {WorkspaceRoleOwner, WorkspaceRoleAdmin, WorkspaceRoleModerator})"
  unfolding CanModerateWorkspace_def CanManageWorkspace_iff by (cases wm) (simp, simp, blast)

lemma manage_moderates: "CanManageWorkspace wm \<Longrightarrow> CanModerateWorkspace wm"
  by (simp add: CanModerateWorkspace_def)

lemma moderate_reaches_public: "CanModerateWorkspace wm \<Longrightarrow> CanReachPublicChannels wm"
  unfolding CanModerateWorkspace_iff CanReachPublicChannels_iff by blast

lemma guest_out_of_reach: "CanReachPublicChannels (Some m) \<Longrightarrow> wm_Role m \<noteq> WorkspaceRoleGuest"
  unfolding CanReachPublicChannels_iff by clarsimp

text \<open>The reader's own membership row of the channel, the only key to a private channel.\<close>

definition own_row :: "WorkspaceMember option \<Rightarrow> ChannelMember option \<Rightarrow> Channel \<Rightarrow> bool" where
  "own_row wm cm ch \<longleftrightarrow>
     (\<exists>m c. wm = Some m \<and> cm = Some c \<and> cm_ChannelID c = ch_ID ch \<and> cm_UserID c = wm_UserID m)"

lemma CanReadChannel_iff:
  "CanReadChannel wm cm ch \<longleftrightarrow> (\<exists>m. wm = Some m \<and> wm_Status m = MemberStatusActive \<and>
     wm_WorkspaceID m = ch_WorkspaceID ch \<and> ch_Status ch = ChannelStatusActive \<and>
     (own_row wm cm ch \<or> ch_Type ch = ChannelTypePublic \<and> CanReachPublicChannels wm))"
  unfolding CanReadChannel_def own_row_def by (cases wm; cases cm) (simp_all, blast+)

text \<open>
  Claim C13. The channel boundary. Whoever reads, writes or invites to a channel is an active member of the
  channel's own workspace and the channel is active; without their own membership row they do so
  only in a public channel and only under a role that belongs to the whole workspace, so a guest
  or an unknown role reads nothing it was not added to and no administrator reads a private
  channel. The rights over the workspace form a ladder: renaming a channel implies managing
  members and categories, which implies creating channels, and the general channel is never renamed.
\<close>

theorem channel_boundary:
  "(CanReadChannel wm cm ch \<or> CanWriteChannel wm cm ch \<or> CanAddChannelMembers wm cm ch \<longrightarrow>
    (\<exists>m. wm = Some m \<and> wm_Status m = MemberStatusActive \<and> wm_WorkspaceID m = ch_WorkspaceID ch \<and>
      ch_Status ch = ChannelStatusActive \<and>
      (own_row wm cm ch \<or>
       ch_Type ch = ChannelTypePublic \<and> CanCreateChannel wm \<and> wm_Role m \<noteq> WorkspaceRoleGuest))) \<and>
   (CanRenameChannel wm ch \<longrightarrow> CanManageChannelMembers wm \<and> CanManageChannelCategories wm \<and> \<not> ch_IsGeneral ch) \<and>
   (CanManageChannelMembers wm \<longrightarrow> CanCreateChannel wm)"
  unfolding CanWriteChannel_def CanAddChannelMembers_def CanReadChannel_iff CanCreateChannel_def
    CanRenameChannel_def CanManageChannelMembers_def CanManageChannelCategories_def
  using guest_out_of_reach manage_moderates [of wm] moderate_reaches_public [of wm] by blast

theorem channel_boundary_witness:
  "CanReadChannel
    (Some \<lparr>wm_WorkspaceID = ''w'', wm_UserID = ''u'', wm_Role = WorkspaceRoleGuest,
       wm_Status = MemberStatusActive, wm_JoinedAt = 5\<rparr>)
    (Some \<lparr>cm_ChannelID = ''c'', cm_UserID = ''u'', cm_Role = ''member'', cm_JoinedAt = 6\<rparr>)
    \<lparr>ch_ID = ''c'', ch_WorkspaceID = ''w'', ch_CategoryID = '''', ch_Slug = ''s'', ch_DisplayName = ''d'',
       ch_Type = ChannelTypePrivate, ch_Status = ChannelStatusActive, ch_IsGeneral = False, ch_Position = 0,
       ch_CreatedBy = ''o'', ch_CreatedAt = 1, ch_UpdatedAt = 1\<rparr> \<and>
   own_row
    (Some \<lparr>wm_WorkspaceID = ''w'', wm_UserID = ''u'', wm_Role = WorkspaceRoleGuest,
       wm_Status = MemberStatusActive, wm_JoinedAt = 5\<rparr>)
    (Some \<lparr>cm_ChannelID = ''c'', cm_UserID = ''u'', cm_Role = ''member'', cm_JoinedAt = 6\<rparr>)
    \<lparr>ch_ID = ''c'', ch_WorkspaceID = ''w'', ch_CategoryID = '''', ch_Slug = ''s'', ch_DisplayName = ''d'',
       ch_Type = ChannelTypePrivate, ch_Status = ChannelStatusActive, ch_IsGeneral = False, ch_Position = 0,
       ch_CreatedBy = ''o'', ch_CreatedAt = 1, ch_UpdatedAt = 1\<rparr>"
  (is "CanReadChannel ?wm ?cm ?ch \<and> _")
proof -
  have r: "CanReadChannel ?wm ?cm ?ch" by (simp add: CanReadChannel_def)
  with channel_boundary [of ?wm ?cm ?ch] have "own_row ?wm ?cm ?ch" by simp
  with r show ?thesis by blast
qed

lemma NormalizeChannelDisplayName_stable:
  "NormalizeChannelDisplayName v = Inr n \<Longrightarrow> NormalizeChannelDisplayName n = Inr n"
  by (auto simp: NormalizeChannelDisplayName_def Let_def split: if_splits)

lemma NormalizeChannelCategoryName_stable:
  "NormalizeChannelCategoryName v = Inr n \<Longrightarrow> NormalizeChannelCategoryName n = Inr n"
  by (auto simp: NormalizeChannelCategoryName_def Let_def split: if_splits)

lemma NormalizeChannelCategoryName_Inr:
  assumes "NormalizeChannelCategoryName v = Inr n"
  shows "RuneCountInString n \<le> MaxChannelCategoryNameCodePoints \<and> \<not> EqualFold n UncategorizedGroupName"
  using assms unfolding NormalizeChannelCategoryName_def Let_def by (simp split: if_split_asm)

lemma uploadpolicy_Effective_valid: "uploadpolicy_Valid (uploadpolicy_Effective v)"
  by (simp add: uploadpolicy_Effective_def uploadpolicy_Valid_def)

lemma antispampolicy_Effective_valid: "antispampolicy_Valid (antispampolicy_Effective v)"
  by (simp add: antispampolicy_Effective_def antispampolicy_Valid_def)

text \<open>
  Stored values are stable and bounded. A channel or category name the service accepts is trimmed,
  within its cap and accepted unchanged when it is submitted again, and no category takes the
  reserved name in any spelling of its letters; the limits the service enforces are valid ones whatever the
  row holds, never absent, and a deployment's ceiling only narrows the upload limit.
\<close>

theorem stored_values_stable:
  "(NormalizeChannelDisplayName v = Inr n \<longrightarrow>
      NormalizeChannelDisplayName n = Inr n \<and> n = go_trim_space v \<and> n \<noteq> '''' \<and>
      RuneCountInString n \<le> MaxChannelDisplayNameCodePoints) \<and>
   (NormalizeChannelCategoryName v = Inr n \<longrightarrow>
      NormalizeChannelCategoryName n = Inr n \<and> RuneCountInString n \<le> MaxChannelCategoryNameCodePoints \<and>
      map ascii_lower n \<noteq> map ascii_lower UncategorizedGroupName) \<and>
   uploadpolicy_Valid (uploadpolicy_Effective x) \<and> antispampolicy_Valid (antispampolicy_Effective y) \<and>
   0 < EffectiveUnder x ceiling \<and> EffectiveUnder x ceiling \<le> uploadpolicy_Effective x \<and>
   (0 < ceiling \<longrightarrow> EffectiveUnder x ceiling \<le> ceiling)"
  (is "?name \<and> ?category \<and> ?rest")
proof (intro conjI)
  have pos: "0 < uploadpolicy_Effective x"
    using uploadpolicy_Effective_valid [of x] by (simp add: uploadpolicy_Valid_def)
  show ?name
    using NormalizeChannelDisplayName_stable by (auto simp: NormalizeChannelDisplayName_def Let_def split: if_splits)
  show ?category
    using NormalizeChannelCategoryName_stable [of v n] NormalizeChannelCategoryName_Inr [of v n]
    unfolding EqualFold_def by blast
  show "0 < EffectiveUnder x ceiling" "EffectiveUnder x ceiling \<le> uploadpolicy_Effective x"
    "0 < ceiling \<longrightarrow> EffectiveUnder x ceiling \<le> ceiling"
    using pos by (auto simp: EffectiveUnder_def Let_def)
qed (rule uploadpolicy_Effective_valid antispampolicy_Effective_valid)+

theorem stored_values_stable_witness:
  "NormalizeChannelDisplayName '' dev'' = Inr ''dev'' \<and> NormalizeChannelDisplayName ''dev'' = Inr ''dev''"
proof -
  have "go_trim_space '' dev'' = ''dev''" by code_simp
  moreover have "RuneCountInString ''dev'' \<le> length ''dev''" by (rule RuneCountInString_le)
  ultimately have "NormalizeChannelDisplayName '' dev'' = Inr ''dev''"
    by (simp add: NormalizeChannelDisplayName_def)
  with stored_values_stable [of "'' dev''" "''dev''" 0 0 0] show ?thesis by blast
qed

end
