(* ===== verification/Conversation_Policy.thy ===== *)
theory Conversation_Policy
  imports Workspace_Policy "HOL-Library.Char_ord" "HOL-Library.List_Lexorder" "HOL-Library.Product_Lexorder"
begin

text \<open>
  Local authority over a private channel or a group, from
  \<open>services/chat-service/internal/domain\<close>: the decisions of \<open>conversation_policy.go\<close> over a
  complete roster, and the capabilities, leave preview and succession of \<open>ownership.go\<close>.
\<close>

section \<open>Roles and rosters\<close>

abbreviation "ConversationOwner \<equiv> ''owner''"
abbreviation "ConversationAdmin \<equiv> ''admin''"
abbreviation "ConversationMember \<equiv> ''member''"
abbreviation "ConversationKindGroup \<equiv> ''group''"
abbreviation "ConversationKindPrivateChannel \<equiv> ''private_channel''"

definition ConversationRole_Valid :: "string \<Rightarrow> bool" where
  "ConversationRole_Valid r \<longleftrightarrow> r = ConversationOwner \<or> r = ConversationAdmin \<or> r = ConversationMember"

record ConversationPolicyParticipant =
  pp_ConversationID :: string
  pp_Membership :: WorkspaceMember
  pp_Role :: string
  pp_HasAccess :: bool

record ConversationPolicyContext =
  cx_Workspace :: Workspace
  cx_ID :: string
  cx_Kind :: string
  cx_Active :: bool
  cx_Participants :: "ConversationPolicyParticipant list"

text \<open>The zero values that a failed lookup returns.\<close>

definition zero_member :: WorkspaceMember where
  "zero_member = \<lparr>wm_WorkspaceID = '''', wm_UserID = '''', wm_Role = '''', wm_Status = '''', wm_JoinedAt = time_zero\<rparr>"

definition zero_participant :: ConversationPolicyParticipant where
  "zero_participant =
     \<lparr>pp_ConversationID = '''', pp_Membership = zero_member, pp_Role = '''', pp_HasAccess = False\<rparr>"

abbreviation pp_UserID :: "ConversationPolicyParticipant \<Rightarrow> string" where
  "pp_UserID p \<equiv> wm_UserID (pp_Membership p)"

definition valid :: "ConversationPolicyContext \<Rightarrow> bool" where
  "valid c \<longleftrightarrow> cx_ID c \<noteq> '''' \<and> ws_ID (cx_Workspace c) \<noteq> '''' \<and> cx_Active c \<and>
     ws_Status (cx_Workspace c) = WorkspaceStatusActive \<and>
     (cx_Kind c = ConversationKindGroup \<or> cx_Kind c = ConversationKindPrivateChannel)"

definition eligibleConversationWorkspaceMember :: "WorkspaceMember \<Rightarrow> bool" where
  "eligibleConversationWorkspaceMember wm =
     (if wm_Status wm \<noteq> MemberStatusActive then False
      else wm_Role wm \<in> {WorkspaceRoleOwner, WorkspaceRoleAdmin, WorkspaceRoleModerator,
                         WorkspaceRoleMember, WorkspaceRoleGuest})"

definition accessible :: "ConversationPolicyContext \<Rightarrow> ConversationPolicyParticipant \<Rightarrow> bool" where
  "accessible c p \<longleftrightarrow> pp_HasAccess p \<and> ConversationRole_Valid (pp_Role p) \<and> pp_ConversationID p = cx_ID c \<and>
     pp_UserID p \<noteq> '''' \<and> wm_WorkspaceID (pp_Membership p) = ws_ID (cx_Workspace c) \<and>
     eligibleConversationWorkspaceMember (pp_Membership p)"

text \<open>The loop of \<open>participant\<close>; \<open>None\<close> is its early return.\<close>

fun participant_loop ::
  "ConversationPolicyContext \<Rightarrow> string \<Rightarrow> ConversationPolicyParticipant \<Rightarrow> string set \<Rightarrow>
   ConversationPolicyParticipant list \<Rightarrow> ConversationPolicyParticipant option" where
  "participant_loop c userID found seen [] = Some found"
| "participant_loop c userID found seen (p # ps) =
     (if pp_UserID p \<in> seen then None
      else if pp_HasAccess p \<and> \<not> accessible c p then None
      else participant_loop c userID (if pp_UserID p = userID then p else found)
             (insert (pp_UserID p) seen) ps)"

definition participant ::
  "ConversationPolicyContext \<Rightarrow> string \<Rightarrow> ConversationPolicyParticipant \<times> bool" where
  "participant c userID =
     (if \<not> valid c \<or> userID = '''' then (zero_participant, False)
      else case participant_loop c userID zero_participant {} (cx_Participants c) of
             None \<Rightarrow> (zero_participant, False)
           | Some found \<Rightarrow> (found, accessible c found))"

definition remaining :: "ConversationPolicyContext \<Rightarrow> string \<Rightarrow> nat \<times> nat" where
  "remaining c userID =
     foldl (\<lambda>(members, owners) p.
              if pp_UserID p = userID \<or> \<not> accessible c p then (members, owners)
              else (members + 1, if pp_Role p = ConversationOwner then owners + 1 else owners))
       (0, 0) (cx_Participants c)"

section \<open>Decisions\<close>

definition CanManageConversationRoles :: "ConversationPolicyContext \<Rightarrow> string \<Rightarrow> string \<Rightarrow> bool" where
  "CanManageConversationRoles c actorID targetID =
     (let (actor, actorOK) = participant c actorID; (_, targetOK) = participant c targetID in
      actorOK \<and> targetOK \<and> pp_Role actor = ConversationOwner)"

definition CanAssignConversationRole ::
  "ConversationPolicyContext \<Rightarrow> string \<Rightarrow> string \<Rightarrow> string \<Rightarrow> bool" where
  "CanAssignConversationRole c actorID targetID role =
     (let (target, _) = participant c targetID in
      if \<not> CanManageConversationRoles c actorID targetID \<or> \<not> ConversationRole_Valid role \<or> pp_Role target = role
        then False
      else if pp_Role target = ConversationOwner then (let (_, owners) = remaining c targetID in owners > 0)
      else True)"

definition CanRemoveConversationMember :: "ConversationPolicyContext \<Rightarrow> string \<Rightarrow> string \<Rightarrow> bool" where
  "CanRemoveConversationMember c actorID targetID =
     (let (actor, actorOK) = participant c actorID; (target, targetOK) = participant c targetID in
      if \<not> actorOK \<or> \<not> targetOK \<or> actorID = targetID \<or> pp_Role target = ConversationOwner then False
      else pp_Role actor = ConversationOwner \<or>
           (pp_Role actor = ConversationAdmin \<and> pp_Role target = ConversationMember))"

definition CanAddConversationMember :: "ConversationPolicyContext \<Rightarrow> string \<Rightarrow> bool" where
  "CanAddConversationMember c actorID = snd (participant c actorID)"

definition CanTransferConversationOwnership :: "ConversationPolicyContext \<Rightarrow> string \<Rightarrow> string \<Rightarrow> bool" where
  "CanTransferConversationOwnership c actorID targetID =
     (let (actor, actorOK) = participant c actorID; (_, targetOK) = participant c targetID in
      actorOK \<and> targetOK \<and> pp_Role actor = ConversationOwner \<and> actorID \<noteq> targetID)"

definition CanLeaveConversation :: "ConversationPolicyContext \<Rightarrow> string \<Rightarrow> bool" where
  "CanLeaveConversation c actorID =
     (let (_, ok) = participant c actorID in
      if \<not> ok then False
      else let (members, owners) = remaining c actorID in members = 0 \<or> owners > 0)"

definition CanEditConversationMetadata :: "ConversationPolicyContext \<Rightarrow> string \<Rightarrow> bool \<Rightarrow> bool" where
  "CanEditConversationMetadata c actorID operationAllowed \<longleftrightarrow> snd (participant c actorID) \<and> operationAllowed"

section \<open>Ownership\<close>

record OwnershipParticipant =
  op_UserID :: string
  op_Role :: string
  op_JoinedAt :: go_time
  op_HasAccess :: bool
  op_Guest :: bool

record ParticipantActions =
  pa_Remove :: bool
  pa_AssignRole :: bool
  pa_Transfer :: bool

record OwnershipCapabilities =
  oc_AddMembers :: bool
  oc_ManageRoles :: bool
  oc_EditMetadata :: bool
  oc_Leave :: bool

definition PrivateConversationCapabilities :: "OwnershipParticipant \<Rightarrow> bool \<Rightarrow> OwnershipCapabilities" where
  "PrivateConversationCapabilities actor canAdd =
     (if \<not> op_HasAccess actor \<or> \<not> ConversationRole_Valid (op_Role actor)
        then \<lparr>oc_AddMembers = False, oc_ManageRoles = False, oc_EditMetadata = False, oc_Leave = False\<rparr>
      else \<lparr>oc_AddMembers = canAdd,
            oc_ManageRoles = op_Role actor = ConversationOwner,
            oc_EditMetadata = op_Role actor = ConversationOwner \<or> op_Role actor = ConversationAdmin,
            oc_Leave = True\<rparr>)"

definition PrivateParticipantActions :: "OwnershipParticipant \<Rightarrow> OwnershipParticipant \<Rightarrow> ParticipantActions" where
  "PrivateParticipantActions actor target =
     (if \<not> op_HasAccess actor \<or> \<not> op_HasAccess target \<or>
         \<not> ConversationRole_Valid (op_Role actor) \<or> \<not> ConversationRole_Valid (op_Role target)
        then \<lparr>pa_Remove = False, pa_AssignRole = False, pa_Transfer = False\<rparr>
      else let owner = op_Role actor = ConversationOwner; other = op_UserID actor \<noteq> op_UserID target in
        \<lparr>pa_Remove = other \<and> op_Role target \<noteq> ConversationOwner \<and>
           (owner \<or> op_Role actor = ConversationAdmin \<and> op_Role target = ConversationMember),
         pa_AssignRole = owner,
         pa_Transfer = owner \<and> other\<rparr>)"

record OwnershipLeavePreview =
  lp_LastOwner :: bool
  lp_SuccessorUserID :: string
  lp_Blocked :: bool

text \<open>
  The order of succession, the comparison given to \<open>sort.Slice\<close>, and the sort. The library's sort is
  not stable; the order is total up to the user id the selection returns, so any correct sort selects the same user.
\<close>

definition successor_less :: "OwnershipParticipant \<Rightarrow> OwnershipParticipant \<Rightarrow> bool" where
  "successor_less a b =
     (if op_Role a \<noteq> op_Role b then op_Role a = ConversationAdmin
      else if op_JoinedAt a \<noteq> op_JoinedAt b then op_JoinedAt a < op_JoinedAt b
      else op_UserID a < op_UserID b)"

fun insert_by :: "('a \<Rightarrow> 'a \<Rightarrow> bool) \<Rightarrow> 'a \<Rightarrow> 'a list \<Rightarrow> 'a list" where
  "insert_by lt x [] = [x]"
| "insert_by lt x (y # ys) = (if lt y x then y # insert_by lt x ys else x # y # ys)"

definition sort_slice :: "('a \<Rightarrow> 'a \<Rightarrow> bool) \<Rightarrow> 'a list \<Rightarrow> 'a list" where
  "sort_slice lt xs = foldr (insert_by lt) xs []"

definition SelectOwnershipSuccessor :: "OwnershipParticipant list \<Rightarrow> string" where
  "SelectOwnershipSuccessor participants =
     (let candidates = filter (\<lambda>p. op_HasAccess p \<and> \<not> op_Guest p \<and>
             (op_Role p = ConversationAdmin \<or> op_Role p = ConversationMember)) participants in
      case sort_slice successor_less candidates of [] \<Rightarrow> '''' | first # _ \<Rightarrow> op_UserID first)"

fun leave_loop ::
  "string \<Rightarrow> OwnershipParticipant list \<Rightarrow> bool \<Rightarrow> bool \<Rightarrow> OwnershipParticipant list \<Rightarrow>
   OwnershipParticipant list \<times> bool \<times> bool" where
  "leave_loop u rem leavingOwner remainingOwner [] = (rem, leavingOwner, remainingOwner)"
| "leave_loop u rem leavingOwner remainingOwner (p # ps) =
     (if \<not> op_HasAccess p then leave_loop u rem leavingOwner remainingOwner ps
      else if op_UserID p = u then leave_loop u rem (op_Role p = ConversationOwner) remainingOwner ps
      else leave_loop u (rem @ [p]) leavingOwner (remainingOwner \<or> op_Role p = ConversationOwner) ps)"

definition PreviewOwnershipLeave :: "OwnershipParticipant list \<Rightarrow> string \<Rightarrow> OwnershipLeavePreview" where
  "PreviewOwnershipLeave participants leavingUserID =
     (let (rem, leavingOwner, remainingOwner) = leave_loop leavingUserID [] False False participants;
          preview = \<lparr>lp_LastOwner = leavingOwner \<and> \<not> remainingOwner, lp_SuccessorUserID = '''', lp_Blocked = False\<rparr>
      in if \<not> lp_LastOwner preview \<or> rem = [] then preview
         else let successor = SelectOwnershipSuccessor rem in
              preview\<lparr>lp_SuccessorUserID := successor, lp_Blocked := successor = ''''\<rparr>)"

definition CanDemoteConversationOwner :: "OwnershipParticipant list \<Rightarrow> string \<Rightarrow> bool" where
  "CanDemoteConversationOwner participants targetUserID =
     list_ex (\<lambda>p. op_UserID p \<noteq> targetUserID \<and> op_HasAccess p \<and> op_Role p = ConversationOwner) participants"

section \<open>The roster lookup\<close>

definition coherent :: "ConversationPolicyContext \<Rightarrow> bool" where
  "coherent c \<longleftrightarrow> valid c \<and> distinct (map pp_UserID (cx_Participants c)) \<and>
     (\<forall>p \<in> set (cx_Participants c). pp_HasAccess p \<longrightarrow> accessible c p)"

lemma not_accessible_zero [simp]: "\<not> accessible c zero_participant"
  by (simp add: accessible_def zero_participant_def)

lemma participant_loop_Some:
  "participant_loop c u found seen ps = Some f \<longleftrightarrow>
     distinct (map pp_UserID ps) \<and> pp_UserID ` set ps \<inter> seen = {} \<and>
     (\<forall>p \<in> set ps. pp_HasAccess p \<longrightarrow> accessible c p) \<and>
     (f \<in> set ps \<and> pp_UserID f = u \<or> f = found \<and> u \<notin> pp_UserID ` set ps)"
proof (induction ps arbitrary: found seen)
  case (Cons p ps)
  show ?case by (auto simp: Cons.IH image_iff)
qed auto

lemma participant_iff:
  "participant c u = (p, True) \<longleftrightarrow>
     coherent c \<and> u \<noteq> '''' \<and> p \<in> set (cx_Participants c) \<and> pp_UserID p = u \<and> accessible c p"
proof (cases "valid c \<and> u \<noteq> ''''")
  case True
  let ?l = "participant_loop c u zero_participant {} (cx_Participants c)"
  have "participant c u = (p, True) \<longleftrightarrow> ?l = Some p \<and> accessible c p"
    using True by (auto simp: participant_def split: option.splits)
  also have "\<dots> \<longleftrightarrow> coherent c \<and> p \<in> set (cx_Participants c) \<and> pp_UserID p = u \<and> accessible c p"
    using True by (auto simp: participant_loop_Some coherent_def)
  finally show ?thesis using True by simp
qed (auto simp: participant_def coherent_def)

lemma snd_participant_iff:
  "snd (participant c u) \<longleftrightarrow> (\<exists>p. participant c u = (p, True))"
  by (cases "participant c u") auto

lemma remaining_counts:
  "remaining c u =
     (let rest = filter (\<lambda>p. pp_UserID p \<noteq> u \<and> accessible c p) (cx_Participants c) in
      (length rest, length (filter (\<lambda>p. pp_Role p = ConversationOwner) rest)))"
proof -
  let ?step = "\<lambda>(members, owners) p. if pp_UserID p = u \<or> \<not> accessible c p then (members, owners)
      else (members + 1, if pp_Role p = ConversationOwner then owners + 1 else owners)"
  have "foldl ?step (m, n) ps =
      (let rest = filter (\<lambda>p. pp_UserID p \<noteq> u \<and> accessible c p) ps in
       (m + length rest, n + length (filter (\<lambda>p. pp_Role p = ConversationOwner) rest)))" for m n :: nat and ps
    by (induction ps arbitrary: m n) (simp_all add: Let_def)
  then show ?thesis by (simp add: remaining_def)
qed

text \<open>Who may act, in terms of the accessible members of a coherent roster.\<close>

definition owns :: "ConversationPolicyContext \<Rightarrow> string \<Rightarrow> bool" where
  "owns c u \<longleftrightarrow> (\<exists>p \<in> set (cx_Participants c). pp_UserID p = u \<and> accessible c p \<and> pp_Role p = ConversationOwner)"

definition belongs :: "ConversationPolicyContext \<Rightarrow> string \<Rightarrow> bool" where
  "belongs c u \<longleftrightarrow> (\<exists>p \<in> set (cx_Participants c). pp_UserID p = u \<and> accessible c p)"

lemma owns_belongs: "owns c u \<Longrightarrow> belongs c u"
  by (auto simp: owns_def belongs_def)

lemma belongs_nonempty: "belongs c u \<Longrightarrow> u \<noteq> ''''"
  by (auto simp: belongs_def accessible_def)

lemma coherent_unique:
  "coherent c \<Longrightarrow> p \<in> set (cx_Participants c) \<Longrightarrow> q \<in> set (cx_Participants c) \<Longrightarrow>
   pp_UserID p = pp_UserID q \<Longrightarrow> p = q"
  by (auto simp: coherent_def distinct_map inj_on_def)

lemma remaining_owners: "0 < snd (remaining c u) \<longleftrightarrow> (\<exists>v. v \<noteq> u \<and> owns c v)"
  by (auto simp: remaining_counts Let_def owns_def filter_empty_conv)

lemma remaining_members: "fst (remaining c u) = 0 \<longleftrightarrow> (\<forall>v. v \<noteq> u \<longrightarrow> \<not> belongs c v)"
  by (auto simp: remaining_counts Let_def belongs_def filter_empty_conv)

section \<open>What the decisions authorise\<close>

text \<open>The changes the writers make to a roster once a decision allowed them.\<close>

definition re_role :: "string \<Rightarrow> string \<Rightarrow> ConversationPolicyParticipant \<Rightarrow> ConversationPolicyParticipant" where
  "re_role u r p = (if pp_UserID p = u then p\<lparr>pp_Role := r\<rparr> else p)"

definition set_role :: "string \<Rightarrow> string \<Rightarrow> ConversationPolicyContext \<Rightarrow> ConversationPolicyContext" where
  "set_role u r c = c\<lparr>cx_Participants := map (re_role u r) (cx_Participants c)\<rparr>"

definition drop_member :: "string \<Rightarrow> ConversationPolicyContext \<Rightarrow> ConversationPolicyContext" where
  "drop_member u c = c\<lparr>cx_Participants := filter (\<lambda>p. pp_UserID p \<noteq> u) (cx_Participants c)\<rparr>"

definition add_member :: "ConversationPolicyParticipant \<Rightarrow> ConversationPolicyContext \<Rightarrow> ConversationPolicyContext" where
  "add_member p c = c\<lparr>cx_Participants := cx_Participants c @ [p]\<rparr>"

lemma accessible_same_context [simp]:
  "accessible (c\<lparr>cx_Participants := ps\<rparr>) = accessible c" "valid (c\<lparr>cx_Participants := ps\<rparr>) = valid c"
  by (simp_all add: accessible_def valid_def fun_eq_iff)

lemma re_role_simps [simp]:
  "pp_UserID (re_role u r p) = pp_UserID p"
  "pp_HasAccess (re_role u r p) = pp_HasAccess p"
  "pp_Role (re_role u r p) = (if pp_UserID p = u then r else pp_Role p)"
  by (simp_all add: re_role_def)

lemma accessible_re_role:
  assumes "coherent c" and "p \<in> set (cx_Participants c)" and "ConversationRole_Valid r"
  shows "accessible c (re_role u r p) \<longleftrightarrow> accessible c p"
proof -
  have "pp_HasAccess p \<Longrightarrow> ConversationRole_Valid (pp_Role p)"
    using assms(1,2) by (simp add: coherent_def accessible_def)
  with assms(3) show ?thesis by (auto simp: accessible_def re_role_def)
qed

lemma belongs_set_role:
  assumes "coherent c" and "ConversationRole_Valid r"
  shows "belongs (set_role u r c) v \<longleftrightarrow> belongs c v"
  using accessible_re_role [OF assms(1) _ assms(2)] by (simp add: belongs_def set_role_def)

lemma owns_set_role:
  assumes "coherent c" and "ConversationRole_Valid r"
  shows "owns (set_role u r c) v \<longleftrightarrow> (if v = u then belongs c u \<and> r = ConversationOwner else owns c v)"
proof -
  have "owns (set_role u r c) v \<longleftrightarrow> (\<exists>p \<in> set (cx_Participants c). pp_UserID p = v \<and> accessible c p \<and>
      pp_Role (re_role u r p) = ConversationOwner)"
    using accessible_re_role [OF assms(1) _ assms(2)] by (simp add: owns_def set_role_def del: re_role_simps(3))
  also have "\<dots> \<longleftrightarrow> (\<exists>p \<in> set (cx_Participants c). pp_UserID p = v \<and> accessible c p \<and>
      (if v = u then r else pp_Role p) = ConversationOwner)"
    unfolding re_role_simps by (intro bex_cong refl conj_cong) simp_all
  also have "\<dots> \<longleftrightarrow> (if v = u then belongs c u \<and> r = ConversationOwner else owns c v)"
    by (cases "v = u") (auto simp: owns_def belongs_def)
  finally show ?thesis .
qed

lemma coherent_set_role:
  assumes "coherent c" and "ConversationRole_Valid r"
  shows "coherent (set_role u r c)"
proof -
  have "pp_UserID \<circ> re_role u r = pp_UserID" by (simp add: fun_eq_iff)
  then show ?thesis
    using assms(1) accessible_re_role [OF assms(1) _ assms(2)] by (simp add: coherent_def set_role_def)
qed

lemma drop_member_facts:
  "belongs (drop_member u c) v \<longleftrightarrow> v \<noteq> u \<and> belongs c v"
  "owns (drop_member u c) v \<longleftrightarrow> v \<noteq> u \<and> owns c v"
  "coherent c \<Longrightarrow> coherent (drop_member u c)"
  by (auto simp: belongs_def owns_def drop_member_def coherent_def distinct_map inj_on_def)

lemma add_member_facts:
  "belongs (add_member p c) v \<longleftrightarrow> belongs c v \<or> pp_UserID p = v \<and> accessible c p"
  "owns c v \<Longrightarrow> owns (add_member p c) v"
  "coherent c \<Longrightarrow> pp_UserID p \<notin> pp_UserID ` set (cx_Participants c) \<Longrightarrow> accessible c p \<Longrightarrow> coherent (add_member p c)"
  by (auto simp: belongs_def owns_def add_member_def coherent_def)

lemma CanAddConversationMember_iff: "CanAddConversationMember c a \<longleftrightarrow> coherent c \<and> belongs c a"
  using belongs_nonempty [of c a]
  by (auto simp: CanAddConversationMember_def snd_participant_iff participant_iff belongs_def)

lemma CanManageConversationRoles_iff:
  "CanManageConversationRoles c a t \<longleftrightarrow> coherent c \<and> owns c a \<and> belongs c t"
proof -
  have "CanManageConversationRoles c a t \<longleftrightarrow>
      (\<exists>p q. participant c a = (p, True) \<and> participant c t = (q, True) \<and> pp_Role p = ConversationOwner)"
    by (auto simp: CanManageConversationRoles_def split: prod.splits)
  then show ?thesis
    using belongs_nonempty [of c] owns_belongs [of c a]
    by (auto simp: participant_iff owns_def belongs_def)
qed

lemma CanTransferConversationOwnership_iff:
  "CanTransferConversationOwnership c a t \<longleftrightarrow> coherent c \<and> owns c a \<and> belongs c t \<and> a \<noteq> t"
proof -
  have "CanTransferConversationOwnership c a t \<longleftrightarrow> CanManageConversationRoles c a t \<and> a \<noteq> t"
    unfolding CanTransferConversationOwnership_def CanManageConversationRoles_def by (auto split: prod.splits)
  then show ?thesis unfolding CanManageConversationRoles_iff by blast
qed

lemma CanLeaveConversation_iff:
  "CanLeaveConversation c a \<longleftrightarrow> coherent c \<and> belongs c a \<and>
     ((\<forall>v. v \<noteq> a \<longrightarrow> \<not> belongs c v) \<or> (\<exists>v. v \<noteq> a \<and> owns c v))"
  unfolding CanLeaveConversation_def remaining_owners [symmetric] remaining_members [symmetric]
    CanAddConversationMember_iff [symmetric] CanAddConversationMember_def conj_assoc [symmetric]
  by (auto split: prod.splits)

lemma CanAssignConversationRole_iff:
  "CanAssignConversationRole c a t r \<longleftrightarrow>
     CanManageConversationRoles c a t \<and> ConversationRole_Valid r \<and> pp_Role (fst (participant c t)) \<noteq> r \<and>
     (pp_Role (fst (participant c t)) = ConversationOwner \<longrightarrow> (\<exists>v. v \<noteq> t \<and> owns c v))"
  unfolding CanAssignConversationRole_def remaining_owners [symmetric]
  by (auto split: prod.splits)

lemma CanRemoveConversationMember_iff:
  "CanRemoveConversationMember c a t \<longleftrightarrow>
     (\<exists>p q. participant c a = (p, True) \<and> participant c t = (q, True) \<and> a \<noteq> t \<and> pp_Role q \<noteq> ConversationOwner \<and>
       (pp_Role p = ConversationOwner \<or> pp_Role p = ConversationAdmin \<and> pp_Role q = ConversationMember))"
  unfolding CanRemoveConversationMember_def by (auto split: prod.splits)

lemma participant_owns: "participant c t = (q, True) \<Longrightarrow> owns c t \<longleftrightarrow> pp_Role q = ConversationOwner"
  unfolding participant_iff owns_def using coherent_unique [of c] by metis

section \<open>Ownership is never lost\<close>

text \<open>One change a writer makes after the decision that allows it.\<close>

inductive policy_step :: "ConversationPolicyContext \<Rightarrow> ConversationPolicyContext \<Rightarrow> bool" where
  assign: "CanAssignConversationRole c actor target role \<Longrightarrow> policy_step c (set_role target role c)"
| remove: "CanRemoveConversationMember c actor target \<Longrightarrow> policy_step c (drop_member target c)"
| leave: "CanLeaveConversation c actor \<Longrightarrow> policy_step c (drop_member actor c)"
| transfer: "CanTransferConversationOwnership c actor target \<Longrightarrow> role \<in> {ConversationAdmin, ConversationMember} \<Longrightarrow>
    policy_step c (set_role actor role (set_role target ConversationOwner c))"
| add: "CanAddConversationMember c actor \<Longrightarrow> pp_UserID p \<notin> pp_UserID ` set (cx_Participants c) \<Longrightarrow>
    accessible c p \<Longrightarrow> policy_step c (add_member p c)"

definition owned :: "ConversationPolicyContext \<Rightarrow> bool" where
  "owned c \<longleftrightarrow> (\<forall>v. belongs c v \<longrightarrow> (\<exists>u. owns c u))"

lemma owned_set_role:
  assumes "coherent c" and "ConversationRole_Valid r" and "owned c" and other: "owns c u \<Longrightarrow> \<exists>v. v \<noteq> u \<and> owns c v"
  shows "owned (set_role u r c)"
  unfolding owned_def
proof (intro allI impI)
  fix v
  assume "belongs (set_role u r c) v"
  then have "belongs c v" by (simp only: belongs_set_role [OF assms(1,2)])
  with \<open>owned c\<close> obtain w where w: "owns c w" unfolding owned_def by blast
  obtain w' where "w' \<noteq> u" "owns c w'"
  proof (cases "w = u")
    case True
    with other w show ?thesis using that by blast
  next
    case False
    with w show ?thesis using that by blast
  qed
  then have "owns (set_role u r c) w'" by (simp add: owns_set_role [OF assms(1,2)])
  then show "\<exists>w. owns (set_role u r c) w" by (rule exI)
qed

lemma policy_step_keeps_owner:
  assumes "policy_step c d" and "coherent c" and "owned c"
  shows "coherent d \<and> owned d"
  using assms
proof (cases rule: policy_step.cases)
  case (assign actor target role)
  have "CanAddConversationMember c target"
    using assign(2) by (simp add: CanAssignConversationRole_iff CanManageConversationRoles_iff CanAddConversationMember_iff)
  then obtain q where q: "participant c target = (q, True)"
    unfolding CanAddConversationMember_def snd_participant_iff by blast
  have r: "ConversationRole_Valid role" using assign(2) by (simp add: CanAssignConversationRole_iff)
  have "owns c target \<longrightarrow> (\<exists>v. v \<noteq> target \<and> owns c v)"
    using assign(2) participant_owns [OF q] q by (simp add: CanAssignConversationRole_iff)
  with assign(1) assms r show ?thesis by (simp add: owned_set_role coherent_set_role)
next
  case (remove actor target)
  obtain q where q: "participant c target = (q, True)" "pp_Role q \<noteq> ConversationOwner"
    using remove(2) unfolding CanRemoveConversationMember_iff by blast
  then have "\<not> owns c target" using participant_owns by simp
  then show ?thesis using remove(1) assms by (auto simp: drop_member_facts owned_def)
next
  case (leave actor)
  then show ?thesis using assms by (auto simp: drop_member_facts owned_def CanLeaveConversation_iff)
next
  case (transfer actor target role)
  have valid: "ConversationRole_Valid role" "ConversationRole_Valid ConversationOwner"
    using transfer(3) by (auto simp: ConversationRole_Valid_def)
  have t: "coherent c" "belongs c target" "actor \<noteq> target"
    using transfer(2) by (auto simp: CanTransferConversationOwnership_iff)
  let ?c = "set_role target ConversationOwner c"
  have c: "coherent ?c" using t valid by (simp add: coherent_set_role)
  have "owns ?c target" using t valid by (simp add: owns_set_role)
  then have "owned ?c" "owns ?c actor \<longrightarrow> (\<exists>v. v \<noteq> actor \<and> owns ?c v)" using t(3) by (auto simp: owned_def)
  with c valid transfer(1) show ?thesis by (simp add: owned_set_role coherent_set_role)
next
  case (add actor p)
  then have "belongs c actor" by (simp add: CanAddConversationMember_iff)
  then obtain u where "owns c u" using assms(3) unfolding owned_def by blast
  then show ?thesis using add assms add_member_facts [where p = p and c = c] unfolding owned_def by blast
qed

lemma incoherent_stuck: "\<not> coherent c \<Longrightarrow> \<not> policy_step c d"
  by (auto elim!: policy_step.cases simp: CanAssignConversationRole_iff CanManageConversationRoles_iff
      CanRemoveConversationMember_iff participant_iff CanLeaveConversation_iff
      CanTransferConversationOwnership_iff CanAddConversationMember_iff)

text \<open>
  Claim C23. Ownership is never lost. From a coherent roster with an owner, after any sequence of role
  assignments, removals, departures, transfers and additions that the policy allows, whoever requests
  them, the roster is still coherent and still has an accessible owner, unless nobody is left in
  it. A roster that is not coherent (a user twice, or access without an eligible membership of this
  workspace) authorises no change at all.
\<close>

theorem ownership_never_lost:
  assumes "owns c u" and "policy_step\<^sup>*\<^sup>* c d"
  shows "if coherent c then coherent d \<and> ((\<exists>v. owns d v) \<or> (\<forall>v. \<not> belongs d v)) else d = c"
proof (cases "coherent c")
  case True
  have "owned c" using assms(1) by (auto simp: owned_def)
  have "coherent d \<and> owned d"
    using assms(2) by induction (use True \<open>owned c\<close> policy_step_keeps_owner in blast)+
  then show ?thesis using True by (auto simp: owned_def)
next
  case False
  then have "d = c" using assms(2) incoherent_stuck by (auto elim: converse_rtranclpE)
  then show ?thesis using False by simp
qed

definition example_workspace :: Workspace where
  "example_workspace = \<lparr>ws_ID = ''w'', ws_Slug = ''w'', ws_Name = ''W'', ws_Status = WorkspaceStatusActive,
     ws_EditWindowSeconds = None, ws_MessageRateLimitPerMinute = 60, ws_MaxUploadBytes = 262144000,
     ws_CreatedAt = 1, ws_UpdatedAt = 1\<rparr>"

definition example_participant :: "string \<Rightarrow> string \<Rightarrow> ConversationPolicyParticipant" where
  "example_participant u r = \<lparr>pp_ConversationID = ''c'',
     pp_Membership = \<lparr>wm_WorkspaceID = ''w'', wm_UserID = u, wm_Role = WorkspaceRoleMember,
       wm_Status = MemberStatusActive, wm_JoinedAt = 1\<rparr>, pp_Role = r, pp_HasAccess = True\<rparr>"

definition example_context :: "ConversationPolicyParticipant list \<Rightarrow> ConversationPolicyContext" where
  "example_context ps = \<lparr>cx_Workspace = example_workspace, cx_ID = ''c'', cx_Kind = ConversationKindGroup,
     cx_Active = True, cx_Participants = ps\<rparr>"

lemmas example_defs = example_context_def example_participant_def example_workspace_def

theorem ownership_never_lost_witness:
  "let c = example_context [example_participant ''a'' ConversationOwner, example_participant ''b'' ConversationMember];
       d = drop_member ''b'' c
   in coherent c \<and> policy_step c d \<and> coherent d \<and> ((\<exists>v. owns d v) \<or> (\<forall>v. \<not> belongs d v))"
proof -
  define c where "c = example_context [example_participant ''a'' ConversationOwner, example_participant ''b'' ConversationMember]"
  have "coherent c"
    by (simp add: c_def example_defs coherent_def valid_def accessible_def ConversationRole_Valid_def
        eligibleConversationWorkspaceMember_def)
  moreover have "CanRemoveConversationMember c ''a'' ''b''" unfolding c_def by code_simp
  then have "policy_step c (drop_member ''b'' c)" by (rule policy_step.remove)
  moreover have "owns c ''a''"
    by (simp add: c_def example_defs owns_def accessible_def ConversationRole_Valid_def
        eligibleConversationWorkspaceMember_def)
  ultimately show ?thesis
    using ownership_never_lost [of c "''a''" "drop_member ''b'' c"] unfolding c_def [symmetric] Let_def by auto
qed

section \<open>Succession\<close>

definition candidate :: "OwnershipParticipant \<Rightarrow> bool" where
  "candidate p \<longleftrightarrow> op_HasAccess p \<and> \<not> op_Guest p \<and> (op_Role p = ConversationAdmin \<or> op_Role p = ConversationMember)"

text \<open>The order as a key: administrators before members, then age, then id.\<close>

definition successor_key :: "OwnershipParticipant \<Rightarrow> nat \<times> int \<times> string" where
  "successor_key p = (if op_Role p = ConversationAdmin then 0 else 1, op_JoinedAt p, op_UserID p)"

lemma successor_less_key:
  "candidate a \<Longrightarrow> candidate b \<Longrightarrow> successor_less a b \<longleftrightarrow> successor_key a < successor_key b"
  by (auto simp: candidate_def successor_less_def successor_key_def)

lemma set_insert_by [simp]: "set (insert_by lt x ys) = insert x (set ys)"
  by (induction ys) auto

lemma set_sort_slice [simp]: "set (sort_slice lt xs) = set xs"
  unfolding sort_slice_def by (induction xs) auto

lemma sort_slice_Cons: "sort_slice lt (x # xs) = insert_by lt x (sort_slice lt xs)"
  by (simp add: sort_slice_def)

lemma insert_by_Nil [simp]: "insert_by lt x ys \<noteq> []"
  by (cases ys) auto

lemma insert_by_hd_min:
  fixes k :: "'a \<Rightarrow> 'k::linorder"
  assumes "\<forall>y \<in> set (x # ys). \<forall>z \<in> set (x # ys). lt y z \<longleftrightarrow> k y < k z"
    and "ys \<noteq> [] \<Longrightarrow> \<forall>y \<in> set ys. k (hd ys) \<le> k y"
  shows "\<forall>y \<in> set (x # ys). k (hd (insert_by lt x ys)) \<le> k y"
  using assms by (cases ys) (auto simp: not_less)

lemma sort_slice_hd_min:
  fixes k :: "'a \<Rightarrow> 'k::linorder"
  assumes "\<forall>y \<in> set xs. \<forall>z \<in> set xs. lt y z \<longleftrightarrow> k y < k z"
  shows "\<forall>y \<in> set xs. k (hd (sort_slice lt xs)) \<le> k y"
  using assms
proof (induction xs)
  case (Cons x xs)
  have "\<forall>y \<in> set (x # sort_slice lt xs). k (hd (insert_by lt x (sort_slice lt xs))) \<le> k y"
    using Cons by (intro insert_by_hd_min) auto
  then show ?case by (simp add: sort_slice_Cons)
qed simp

lemma SelectOwnershipSuccessor_cases:
  "if Bex (set ps) candidate
   then \<exists>p \<in> set ps. candidate p \<and> SelectOwnershipSuccessor ps = op_UserID p \<and>
          (\<forall>q \<in> set ps. candidate q \<longrightarrow> successor_key p \<le> successor_key q)
   else SelectOwnershipSuccessor ps = ''''"
proof -
  let ?cs = "filter candidate ps" and ?s = "sort_slice successor_less (filter candidate ps)"
  have sel: "SelectOwnershipSuccessor ps = (case ?s of [] \<Rightarrow> '''' | first # _ \<Rightarrow> op_UserID first)"
    by (simp add: SelectOwnershipSuccessor_def candidate_def [abs_def])
  have set: "set ?s = {p \<in> set ps. candidate p}" by simp
  have min: "\<forall>y \<in> set ?cs. successor_key (hd ?s) \<le> successor_key y"
    by (rule sort_slice_hd_min) (auto simp: successor_less_key)
  show ?thesis
  proof (cases "?s")
    case Nil
    then show ?thesis using set sel by auto
  next
    case (Cons p rest)
    then have "p \<in> set ps" "candidate p" using set by auto
    then show ?thesis using Cons sel min by auto
  qed
qed

lemma leave_loop_eq:
  "leave_loop u rem lo ro ps =
     (rem @ filter (\<lambda>p. op_HasAccess p \<and> op_UserID p \<noteq> u) ps,
      (case filter (\<lambda>p. op_HasAccess p \<and> op_UserID p = u) ps of [] \<Rightarrow> lo
       | xs \<Rightarrow> op_Role (last xs) = ConversationOwner),
      ro \<or> (\<exists>p \<in> set ps. op_HasAccess p \<and> op_UserID p \<noteq> u \<and> op_Role p = ConversationOwner))"
  by (induction ps arbitrary: rem lo ro) (auto split: list.splits)

definition others :: "OwnershipParticipant list \<Rightarrow> string \<Rightarrow> OwnershipParticipant list" where
  "others ps u = filter (\<lambda>p. op_HasAccess p \<and> op_UserID p \<noteq> u) ps"

definition last_owner :: "OwnershipParticipant list \<Rightarrow> string \<Rightarrow> bool" where
  "last_owner ps u \<longleftrightarrow>
     (\<exists>p \<in> set ps. op_HasAccess p \<and> op_UserID p = u \<and> op_Role p = ConversationOwner) \<and>
     (\<forall>p \<in> set (others ps u). op_Role p \<noteq> ConversationOwner)"

lemma leaving_owner:
  fixes u :: string
  assumes "distinct (map op_UserID ps)"
  defines "own \<equiv> \<lambda>p. op_HasAccess p \<and> op_UserID p = u"
  shows "(case filter own ps of [] \<Rightarrow> False | x # xs \<Rightarrow> op_Role (last (x # xs)) = ConversationOwner) \<longleftrightarrow>
    (\<exists>p \<in> set ps. op_HasAccess p \<and> op_UserID p = u \<and> op_Role p = ConversationOwner)"
proof (cases "filter own ps")
  case Nil
  then show ?thesis by (auto simp: own_def filter_empty_conv)
next
  case (Cons x xs)
  define p where "p = last (x # xs)"
  have "p \<in> set (filter own ps)" unfolding Cons p_def by (rule last_in_set) simp
  then have p: "p \<in> set ps" "own p" by auto
  have "q = p" if "q \<in> set ps" "own q" for q
    using assms(1) p that by (auto simp: own_def distinct_map inj_on_def)
  with p have "(\<exists>q \<in> set ps. own q \<and> op_Role q = ConversationOwner) \<longleftrightarrow> op_Role p = ConversationOwner" by blast
  moreover have "(case filter own ps of [] \<Rightarrow> False | x # xs \<Rightarrow> op_Role (last (x # xs)) = ConversationOwner) \<longleftrightarrow>
      op_Role p = ConversationOwner"
    unfolding Cons p_def by simp
  ultimately show ?thesis by (simp only: own_def conj_assoc)
qed

lemma PreviewOwnershipLeave_eq:
  assumes "distinct (map op_UserID ps)"
  shows "PreviewOwnershipLeave ps u =
    (if last_owner ps u \<and> others ps u \<noteq> []
     then \<lparr>lp_LastOwner = True, lp_SuccessorUserID = SelectOwnershipSuccessor (others ps u),
           lp_Blocked = SelectOwnershipSuccessor (others ps u) = ''''\<rparr>
     else \<lparr>lp_LastOwner = last_owner ps u, lp_SuccessorUserID = '''', lp_Blocked = False\<rparr>)"
  using leaving_owner [OF assms, of u]
  unfolding PreviewOwnershipLeave_def leave_loop_eq last_owner_def others_def
  by (simp add: Let_def split: if_split) blast

text \<open>
  Leaving and succession. The preview says an owner is the last one exactly when they hold
  the role and nobody else with access does. It then names a successor as soon as the others include anyone
  eligible (not a guest): the first in the order administrators before members, then the oldest membership,
  then the smallest id. It is blocked exactly when others remain and none is eligible, and a departure it
  does not block leaves an owner once the named successor is promoted.
\<close>

theorem leave_preview:
  assumes "distinct (map op_UserID ps)" and "\<forall>p \<in> set ps. op_UserID p \<noteq> ''''"
  shows "let preview = PreviewOwnershipLeave ps u; rest = others ps u in
    (lp_LastOwner preview \<longleftrightarrow> last_owner ps u) \<and>
    (lp_Blocked preview \<longleftrightarrow> last_owner ps u \<and> rest \<noteq> [] \<and> \<not> Bex (set rest) candidate) \<and>
    (if last_owner ps u \<and> Bex (set rest) candidate
     then \<exists>p \<in> set rest. candidate p \<and> lp_SuccessorUserID preview = op_UserID p \<and>
            (\<forall>q \<in> set rest. candidate q \<longrightarrow> successor_key p \<le> successor_key q)
     else lp_SuccessorUserID preview = '''')"
proof -
  have "\<forall>p \<in> set (others ps u). op_UserID p \<noteq> ''''" using assms(2) by (simp add: others_def)
  then have "SelectOwnershipSuccessor (others ps u) = '''' \<longleftrightarrow> \<not> Bex (set (others ps u)) candidate"
    using SelectOwnershipSuccessor_cases [of "others ps u"] by (auto split: if_splits)
  then show ?thesis
    using SelectOwnershipSuccessor_cases [of "others ps u"]
    unfolding PreviewOwnershipLeave_eq [OF assms(1)] Let_def by (cases "others ps u = []") (auto split: if_splits)
qed

theorem leave_preview_witness:
  "let p = \<lambda>u r j g. \<lparr>op_UserID = u, op_Role = r, op_JoinedAt = j, op_HasAccess = True, op_Guest = g\<rparr>;
       ps = [p ''a'' ConversationOwner 1 False, p ''b'' ConversationMember 2 False,
             p ''c'' ConversationAdmin 9 False, p ''d'' ConversationAdmin 3 True]
   in lp_LastOwner (PreviewOwnershipLeave ps ''a'') \<and> lp_SuccessorUserID (PreviewOwnershipLeave ps ''a'') = ''c'' \<and>
      (lp_LastOwner (PreviewOwnershipLeave ps ''a'') \<longleftrightarrow> last_owner ps ''a'')"
proof -
  define p where "p = (\<lambda>u r j g. \<lparr>op_UserID = u, op_Role = r, op_JoinedAt = j :: int, op_HasAccess = True, op_Guest = g\<rparr>)"
  define ps where "ps = [p ''a'' ConversationOwner 1 False, p ''b'' ConversationMember 2 False,
             p ''c'' ConversationAdmin 9 False, p ''d'' ConversationAdmin 3 True]"
  have d: "distinct (map op_UserID ps)" "\<forall>q \<in> set ps. op_UserID q \<noteq> ''''" by (simp_all add: ps_def p_def)
  have "PreviewOwnershipLeave ps ''a'' = \<lparr>lp_LastOwner = True, lp_SuccessorUserID = ''c'', lp_Blocked = False\<rparr>"
    unfolding ps_def p_def by code_simp
  then show ?thesis
    using leave_preview [OF d, of "''a''"] unfolding ps_def [symmetric] p_def [symmetric] Let_def by simp
qed

section \<open>What the interface offers is what the policy allows\<close>

text \<open>The facts of a roster as the ownership endpoints see them.\<close>

definition facts_of :: "ConversationPolicyContext \<Rightarrow> ConversationPolicyParticipant \<Rightarrow> OwnershipParticipant" where
  "facts_of c p = \<lparr>op_UserID = pp_UserID p, op_Role = pp_Role p, op_JoinedAt = wm_JoinedAt (pp_Membership p),
     op_HasAccess = accessible c p, op_Guest = wm_Role (pp_Membership p) = WorkspaceRoleGuest\<rparr>"

lemma facts_of_simps [simp]:
  "op_UserID (facts_of c p) = pp_UserID p" "op_Role (facts_of c p) = pp_Role p"
  "op_HasAccess (facts_of c p) = accessible c p"
  by (simp_all add: facts_of_def)

lemma accessible_valid: "accessible c p \<Longrightarrow> ConversationRole_Valid (pp_Role p)"
  by (simp add: accessible_def)

lemma participant_member:
  assumes "coherent c" and "p \<in> set (cx_Participants c)"
  shows "participant c (pp_UserID p) = (q, True) \<longleftrightarrow> q = p \<and> accessible c p"
  using assms coherent_unique [OF assms(1)] belongs_nonempty [of c "pp_UserID p"]
  unfolding participant_iff belongs_def by blast

lemma owner_facts:
  assumes "coherent c" and "p \<in> set (cx_Participants c)"
  shows "belongs c (pp_UserID p) \<longleftrightarrow> accessible c p"
    and "owns c (pp_UserID p) \<longleftrightarrow> accessible c p \<and> pp_Role p = ConversationOwner"
  using assms coherent_unique [OF assms(1)] unfolding belongs_def owns_def by metis+

lemma last_owner_facts:
  assumes "coherent c" and "p \<in> set (cx_Participants c)"
  shows "last_owner (map (facts_of c) (cx_Participants c)) (pp_UserID p) \<longleftrightarrow>
      owns c (pp_UserID p) \<and> \<not> (\<exists>v. v \<noteq> pp_UserID p \<and> owns c v)"
    and "others (map (facts_of c) (cx_Participants c)) (pp_UserID p) = [] \<longleftrightarrow>
      (\<forall>v. v \<noteq> pp_UserID p \<longrightarrow> \<not> belongs c v)"
  by (auto simp: last_owner_def others_def owns_def belongs_def filter_empty_conv)

lemma CanLeaveConversation_owned:
  assumes "coherent c" and "owned c" and "belongs c u"
  shows "CanLeaveConversation c u \<longleftrightarrow>
    \<not> ((owns c u \<and> \<not> (\<exists>v. v \<noteq> u \<and> owns c v)) \<and> \<not> (\<forall>v. v \<noteq> u \<longrightarrow> \<not> belongs c v))"
proof -
  obtain w where w: "owns c w" using assms(2,3) unfolding owned_def by blast
  have "owns c u \<or> (\<exists>v. v \<noteq> u \<and> owns c v)" using w by (cases "w = u") blast+
  then show ?thesis unfolding CanLeaveConversation_iff using assms(1,3) by argo
qed

lemma CanDemoteConversationOwner_facts:
  "CanDemoteConversationOwner (map (facts_of c) (cx_Participants c)) u \<longleftrightarrow> 0 < snd (remaining c u)"
  unfolding remaining_owners CanDemoteConversationOwner_def owns_def by (simp add: list_ex_iff) blast

text \<open>
  The actions and capabilities offered to a member are exactly what the policy decides for
  them: removing and transferring to each other member, managing roles, adding members, and demoting
  an owner; and in a conversation with an owner, leaving is refused exactly when the preview reports the last
  owner with others remaining.
\<close>

theorem capabilities_match_policy:
  assumes "coherent c" and "p \<in> set (cx_Participants c)" and "q \<in> set (cx_Participants c)"
  defines "ps \<equiv> map (facts_of c) (cx_Participants c)"
    and "actions \<equiv> PrivateParticipantActions (facts_of c p) (facts_of c q)"
    and "caps \<equiv> PrivateConversationCapabilities (facts_of c p) True"
    and "preview \<equiv> PreviewOwnershipLeave (map (facts_of c) (cx_Participants c)) (pp_UserID p)"
  shows "(pa_Remove actions \<longleftrightarrow> CanRemoveConversationMember c (pp_UserID p) (pp_UserID q)) \<and>
    (pa_AssignRole actions \<longleftrightarrow> CanManageConversationRoles c (pp_UserID p) (pp_UserID q)) \<and>
    (pa_Transfer actions \<longleftrightarrow> CanTransferConversationOwnership c (pp_UserID p) (pp_UserID q)) \<and>
    (oc_AddMembers caps \<longleftrightarrow> CanAddConversationMember c (pp_UserID p)) \<and>
    (oc_ManageRoles caps \<longleftrightarrow> CanManageConversationRoles c (pp_UserID p) (pp_UserID p)) \<and>
    (CanDemoteConversationOwner ps (pp_UserID q) \<longleftrightarrow> 0 < snd (remaining c (pp_UserID q))) \<and>
    (accessible c p \<and> owned c \<longrightarrow>
      (CanLeaveConversation c (pp_UserID p) \<longleftrightarrow> \<not> (lp_LastOwner preview \<and> others ps (pp_UserID p) \<noteq> [])))"
proof (intro conjI impI)
  note of = owner_facts [OF assms(1)] participant_member [OF assms(1)]
  show "pa_Remove actions \<longleftrightarrow> CanRemoveConversationMember c (pp_UserID p) (pp_UserID q)"
    unfolding CanRemoveConversationMember_iff actions_def PrivateParticipantActions_def of(3) [OF assms(2)] of(3) [OF assms(3)]
    using accessible_valid [of c p] accessible_valid [of c q] by (simp add: Let_def) blast
  show "pa_AssignRole actions \<longleftrightarrow> CanManageConversationRoles c (pp_UserID p) (pp_UserID q)"
    unfolding CanManageConversationRoles_iff actions_def PrivateParticipantActions_def
    using accessible_valid [of c p] accessible_valid [of c q] by (simp add: Let_def assms(1-3) of) blast
  show "pa_Transfer actions \<longleftrightarrow> CanTransferConversationOwnership c (pp_UserID p) (pp_UserID q)"
    unfolding CanTransferConversationOwnership_iff actions_def PrivateParticipantActions_def
    using accessible_valid [of c p] accessible_valid [of c q] by (simp add: Let_def assms(1-3) of) blast
  show "oc_AddMembers caps \<longleftrightarrow> CanAddConversationMember c (pp_UserID p)"
    "oc_ManageRoles caps \<longleftrightarrow> CanManageConversationRoles c (pp_UserID p) (pp_UserID p)"
    unfolding CanAddConversationMember_iff CanManageConversationRoles_iff caps_def PrivateConversationCapabilities_def
    using accessible_valid [of c p] by (simp_all add: assms(1,2) of)
  show "CanDemoteConversationOwner ps (pp_UserID q) \<longleftrightarrow> 0 < snd (remaining c (pp_UserID q))"
    unfolding ps_def by (rule CanDemoteConversationOwner_facts)
  have "distinct (map op_UserID ps)" using assms(1) by (simp add: ps_def coherent_def comp_def)
  then have "lp_LastOwner preview \<longleftrightarrow> last_owner ps (pp_UserID p)"
    unfolding preview_def ps_def [symmetric] by (simp add: PreviewOwnershipLeave_eq)
  moreover assume "accessible c p \<and> owned c"
  ultimately show "CanLeaveConversation c (pp_UserID p) \<longleftrightarrow> \<not> (lp_LastOwner preview \<and> others ps (pp_UserID p) \<noteq> [])"
    by (simp only: CanLeaveConversation_owned [OF assms(1)] of(1) [OF assms(2)] ps_def last_owner_facts [OF assms(1,2)])
qed

theorem capabilities_match_policy_witness:
  "let a = example_participant ''a'' ConversationAdmin; b = example_participant ''b'' ConversationMember;
       c = example_context [a, b]
   in coherent c \<and> CanRemoveConversationMember c ''a'' ''b'' \<and>
      pa_Remove (PrivateParticipantActions (facts_of c a) (facts_of c b))"
proof -
  define a where "a = example_participant ''a'' ConversationAdmin"
  define b where "b = example_participant ''b'' ConversationMember"
  define c where "c = example_context [a, b]"
  have coh: "coherent c"
    by (simp add: c_def a_def b_def example_defs coherent_def valid_def accessible_def ConversationRole_Valid_def
        eligibleConversationWorkspaceMember_def)
  moreover have "CanRemoveConversationMember c ''a'' ''b''" unfolding c_def a_def b_def by code_simp
  moreover have "pp_UserID a = ''a''" "pp_UserID b = ''b''" "a \<in> set (cx_Participants c)" "b \<in> set (cx_Participants c)"
    by (simp_all add: c_def a_def b_def example_defs)
  ultimately show ?thesis
    using capabilities_match_policy [of c a b] unfolding c_def [symmetric] a_def [symmetric] b_def [symmetric] Let_def
    by simp
qed

end
