(* ===== verification/Ownership_Session.thy ===== *)
theory Ownership_Session
  imports Conversation_Policy
begin

text \<open>
  The ownership protocol of \<open>libs/go/platform/conversationownership\<close> (\<open>succession.go\<close>,
  \<open>protocol.go\<close>): preserving ownership before a departure, and retrying a serializable
  transaction. The package is written against callbacks, \<open>Session\<close>; so is its model.
\<close>

section \<open>Errors with an SQL state\<close>

text \<open>
  \<open>PgError\<close> is an error of the driver with its code, \<open>ownershipConflict\<close> the package's own,
  \<open>Domain\<close> a sentinel of the service and \<open>ContextErr\<close> what a cancelled context reports.
\<close>

datatype store_error = PgError string | ownershipConflict | Domain domain_error | ErrNoRows | ContextErr

definition SQLState :: "store_error \<Rightarrow> string" where
  "SQLState e = (case e of PgError s \<Rightarrow> s | ownershipConflict \<Rightarrow> ''P0953'' | _ \<Rightarrow> '''')"

text \<open>
  \<open>Retry\<close> over an operation on the state \<open>'s\<close>; \<open>ctx_err\<close> is what \<open>ctx.Err\<close> answers in a state. The
  counter is the number of attempts left.
\<close>

fun Retry_loop ::
  "nat \<Rightarrow> ('s \<Rightarrow> store_error option) \<Rightarrow> ('s \<Rightarrow> (store_error + 'a) \<times> 's) \<Rightarrow> store_error + 'a \<Rightarrow> 's \<Rightarrow>
   (store_error + 'a) \<times> 's" where
  "Retry_loop 0 ctx_err operation prev s = (prev, s)"
| "Retry_loop (Suc n) ctx_err operation prev s =
     (let (r, s') = operation s;
          state = (case r of Inl e \<Rightarrow> SQLState e | Inr _ \<Rightarrow> '''') in
      if state \<noteq> ''40001'' \<and> state \<noteq> ''40P01'' then (r, s')
      else case ctx_err s' of
             Some e \<Rightarrow> (Inl e, s')
           | None \<Rightarrow> Retry_loop n ctx_err operation r s')"

definition Retry ::
  "('s \<Rightarrow> store_error option) \<Rightarrow> ('s \<Rightarrow> (store_error + 'a) \<times> 's) \<Rightarrow> 's \<Rightarrow> (store_error + 'a) \<times> 's" where
  "Retry ctx_err operation s = Retry_loop 3 ctx_err operation (Inl ContextErr) s"

section \<open>Succession\<close>

record Scope =
  sc_WorkspaceID :: string
  sc_Kind :: string
  sc_ConversationID :: string

text \<open>One row of \<open>SuccessorsSQL\<close>, in the order of its columns.\<close>

record succession_row =
  sr_scope :: Scope
  sr_members :: nat
  sr_owners :: nat
  sr_candidate :: string

text \<open>A result set: what \<open>Scan\<close> answers for each row, and what \<open>Err\<close> answers after the last one.\<close>

type_synonym Rows = "(store_error + succession_row) list \<times> store_error option"

record 's Session =
  ss_Query :: "'s \<Rightarrow> Scope \<Rightarrow> string \<Rightarrow> bool \<Rightarrow> store_error + Rows"
  ss_Exec :: "Scope \<Rightarrow> string \<Rightarrow> string \<Rightarrow> string \<Rightarrow> 's \<Rightarrow> store_error + 's"

record succession =
  su_scope :: Scope
  su_candidate :: string

fun selectSuccessions_loop ::
  "(store_error + succession_row) list \<Rightarrow> succession list \<Rightarrow> store_error + succession list" where
  "selectSuccessions_loop [] changes = Inr changes"
| "selectSuccessions_loop (Inl e # rows) changes = Inl e"
| "selectSuccessions_loop (Inr row # rows) changes =
     (if sr_owners row > 0 \<or> sr_members row = 0 then selectSuccessions_loop rows changes
      else if sr_candidate row = '''' then Inl ownershipConflict
      else selectSuccessions_loop rows
             (changes @ [\<lparr>su_scope = sr_scope row, su_candidate = sr_candidate row\<rparr>]))"

definition selectSuccessions ::
  "'s Session \<Rightarrow> Scope \<Rightarrow> string \<Rightarrow> bool \<Rightarrow> 's \<Rightarrow> store_error + succession list" where
  "selectSuccessions session scope departing invalidation s =
     bind_err (ss_Query session s scope departing invalidation) (\<lambda>(rows, err).
     bind_err (selectSuccessions_loop rows []) (\<lambda>changes.
     case err of Some e \<Rightarrow> Inl e | None \<Rightarrow> Inr changes))"

fun succeed_loop :: "'s Session \<Rightarrow> string \<Rightarrow> string \<Rightarrow> succession list \<Rightarrow> 's \<Rightarrow> store_error option \<times> 's" where
  "succeed_loop session actor reason [] s = (None, s)"
| "succeed_loop session actor reason (change # changes) s =
     (case ss_Exec session (su_scope change) (su_candidate change) actor reason s of
        Inl e \<Rightarrow> (Some e, s)
      | Inr s' \<Rightarrow> succeed_loop session actor reason changes s')"

definition succeed ::
  "'s Session \<Rightarrow> Scope \<Rightarrow> string \<Rightarrow> string \<Rightarrow> string \<Rightarrow> bool \<Rightarrow> 's \<Rightarrow> store_error option \<times> 's" where
  "succeed session scope departing actor reason invalidation s =
     (case selectSuccessions session scope departing invalidation s of
        Inl e \<Rightarrow> (Some e, s)
      | Inr changes \<Rightarrow> succeed_loop session actor reason changes s)"

definition Succeed :: "'s Session \<Rightarrow> Scope \<Rightarrow> string \<Rightarrow> string \<Rightarrow> 's \<Rightarrow> store_error option \<times> 's" where
  "Succeed session scope departing actor s = succeed session scope departing actor ''succession'' False s"

definition Invalidate :: "'s Session \<Rightarrow> string \<Rightarrow> string \<Rightarrow> 's \<Rightarrow> store_error option \<times> 's" where
  "Invalidate session userID workspaceID s =
     succeed session \<lparr>sc_WorkspaceID = workspaceID, sc_Kind = '''', sc_ConversationID = ''''\<rparr> userID '''' ''invalidation'' True s"

section \<open>Properties of the protocol\<close>

text \<open>The conversations that need a new owner.\<close>

definition orphaned_by :: "succession_row \<Rightarrow> bool" where
  "orphaned_by row \<longleftrightarrow> sr_owners row = 0 \<and> 0 < sr_members row"

lemma selectSuccessions_loop_rows:
  "selectSuccessions_loop (map Inr rows) changes =
     (if \<exists>row \<in> set rows. orphaned_by row \<and> sr_candidate row = '''' then Inl ownershipConflict
      else Inr (changes @ map (\<lambda>row. \<lparr>su_scope = sr_scope row, su_candidate = sr_candidate row\<rparr>) (filter orphaned_by rows)))"
  by (induction rows arbitrary: changes) (auto simp: orphaned_by_def)

definition transient :: "store_error + 'a \<Rightarrow> bool" where
  "transient r \<longleftrightarrow> (case r of Inl e \<Rightarrow> SQLState e = ''40001'' \<or> SQLState e = ''40P01'' | Inr _ \<Rightarrow> False)"

lemma Retry_loop_Suc:
  "Retry_loop (Suc n) ctx_err operation prev s =
     (let (r, s') = operation s in
      if \<not> transient r then (r, s')
      else case ctx_err s' of Some e \<Rightarrow> (Inl e, s') | None \<Rightarrow> Retry_loop n ctx_err operation r s')"
  by (auto simp: transient_def SQLState_def split: prod.split sum.split)

text \<open>
  A property of the state that every run of the operation keeps, whatever it answers, is kept by
  retrying it, and what retrying answers was answered by the operation or is the context's error.
\<close>

lemma Retry_invariant:
  assumes "P s" and "\<And>s. P s \<Longrightarrow> P (snd (operation s))"
  shows "P (snd (Retry_loop n ctx_err operation prev s))"
  using assms(1)
proof (induction n arbitrary: prev s)
  case (Suc n)
  then show ?case using assms(2) [of s] by (auto simp: Retry_loop_Suc split: prod.split option.split simp del: Retry_loop.simps)
qed simp

lemma Retry_success:
  assumes "Retry_loop n ctx_err operation prev s = (Inr a, s')" and "\<forall>a. prev \<noteq> Inr a"
  shows "\<exists>t. operation t = (Inr a, s')"
  using assms
proof (induction n arbitrary: prev s)
  case (Suc n)
  obtain r t where o: "operation s = (r, t)" by (cases "operation s")
  show ?case
  proof (cases "transient r")
    case True
    then have "\<forall>a. r \<noteq> Inr a" by (auto simp: transient_def)
    then show ?thesis
      using Suc True o by (auto simp: Retry_loop_Suc split: option.splits simp del: Retry_loop.simps)
  next
    case False
    then show ?thesis using Suc.prems o by (auto simp: Retry_loop_Suc simp del: Retry_loop.simps)
  qed
qed simp

end
