(* ===== verification/Ownership_Store.thy ===== *)
theory Ownership_Store
  imports Ownership_Session
begin

text \<open>
  The ownership transactions of \<open>services/chat-service/internal/storage\<close>: \<open>ownership_store.go\<close>,
  \<open>ownership_transfer_store.go\<close>, \<open>ownership_succession_store.go\<close> and \<open>conversation_role_store.go\<close>,
  over the tables they read and write. A transaction is a function on the database that answers an
  error or a result; an error rolls back. The database is what the migrations define of it:

  \<^item> \<open>db_rows\<close> is the view \<open>chat.active_ownership_participants\<close>, with the workspace role and the
    profile columns the queries join to it;
  \<^item> \<open>db_resource\<close> finds an active group or private channel with its workspace and the workspace's status;
  \<^item> \<open>db_requests\<close>, \<open>db_audit\<close>, \<open>db_events\<close> and \<open>db_names\<close> are the tables written.

  Identifiers are in the database's canonical spelling. The lock of the conversation and the serializable
  isolation are why a transaction is one step. The deferred triggers that refuse to commit an orphaned
  conversation are left out: the properties show that they have nothing to refuse.
\<close>

section \<open>The database\<close>

record participant_row =
  pr_Kind :: string
  pr_ConversationID :: string
  pr_WorkspaceID :: string
  pr_UserID :: string
  pr_Role :: string
  pr_JoinedAt :: go_time
  pr_WorkspaceRole :: string
  pr_DisplayName :: string
  pr_AvatarURL :: string

abbreviation pr_guest :: "participant_row \<Rightarrow> bool" where
  "pr_guest p \<equiv> pr_WorkspaceRole p = WorkspaceRoleGuest"

record OwnershipScope =
  os_WorkspaceID :: string
  os_Kind :: string
  os_ConversationID :: string
  os_ActorID :: string

record OwnershipMutation =
  om_Scope :: OwnershipScope
  om_TargetUserID :: string
  om_Role :: string
  om_Operation :: string
  om_IdempotencyKey :: string
  om_Name :: string

record OwnershipMutationResult =
  or_Replayed :: bool
  or_TargetUserID :: string
  or_Role :: string
  or_Left :: bool
  or_EventID :: string

record ownership_request =
  rq_Scope :: OwnershipScope
  rq_Key :: string
  rq_Hash :: string
  rq_Response :: OwnershipMutationResult

datatype event_type = ConversationEventMemberLeft | ConversationEventMemberRemoved | ConversationEventRenamed

record conversation_event =
  ce_ID :: string
  ce_Scope :: OwnershipScope
  ce_Event :: event_type
  ce_TargetUsers :: "string list"
  ce_OldName :: string
  ce_NewName :: string

record ownership_audit =
  au_Scope :: Scope
  au_Actor :: string
  au_Target :: string
  au_Previous :: string
  au_New :: string
  au_Reason :: string

record odb =
  db_enabled :: bool
  db_rows :: "participant_row list"
  db_resource :: "string \<Rightarrow> string \<Rightarrow> (string \<times> string) option"
  db_requests :: "ownership_request list"
  db_audit :: "ownership_audit list"
  db_events :: "conversation_event list"
  db_names :: "string \<Rightarrow> string \<Rightarrow> string option"

definition in_conversation :: "string \<Rightarrow> string \<Rightarrow> participant_row \<Rightarrow> bool" where
  "in_conversation kind conv p \<longleftrightarrow> pr_Kind p = kind \<and> pr_ConversationID p = conv"

text \<open>\<open>chat.assign_ownership\<close> of migration 000060.\<close>

definition assign_ownership ::
  "string \<Rightarrow> string \<Rightarrow> string \<Rightarrow> string \<Rightarrow> string \<Rightarrow> string \<Rightarrow> odb \<Rightarrow> store_error + odb" where
  "assign_ownership kind conv user role actor reason db =
     (case find (\<lambda>p. in_conversation kind conv p \<and> pr_UserID p = user) (db_rows db) of
        None \<Rightarrow> Inl (PgError ''P0954'')
      | Some p \<Rightarrow>
          if pr_Role p = role then Inr db
          else Inr (db\<lparr>
            db_rows := map (\<lambda>q. if in_conversation kind conv q \<and> pr_UserID q = user then q\<lparr>pr_Role := role\<rparr> else q)
                         (db_rows db),
            db_audit := db_audit db @
              [\<lparr>au_Scope = \<lparr>sc_WorkspaceID = pr_WorkspaceID p, sc_Kind = kind, sc_ConversationID = conv\<rparr>,
                au_Actor = actor, au_Target = user, au_Previous = pr_Role p, au_New = role, au_Reason = reason\<rparr>]\<rparr>))"

text \<open>The query \<open>SuccessorsSQL\<close> of \<open>succession.go\<close>.\<close>

definition row_scope :: "participant_row \<Rightarrow> Scope" where
  "row_scope p = \<lparr>sc_WorkspaceID = pr_WorkspaceID p, sc_Kind = pr_Kind p, sc_ConversationID = pr_ConversationID p\<rparr>"

definition in_scope :: "Scope \<Rightarrow> participant_row \<Rightarrow> bool" where
  "in_scope scope p \<longleftrightarrow>
     (sc_WorkspaceID scope = '''' \<or> pr_WorkspaceID p = sc_WorkspaceID scope) \<and>
     (sc_Kind scope = '''' \<or> pr_Kind p = sc_Kind scope) \<and>
     (sc_ConversationID scope = '''' \<or> pr_ConversationID p = sc_ConversationID scope)"

definition affected :: "odb \<Rightarrow> Scope \<Rightarrow> string \<Rightarrow> bool \<Rightarrow> Scope list" where
  "affected db scope departing invalidation =
     remdups (map row_scope
       (filter (\<lambda>p. in_scope scope p \<and>
                    (\<not> invalidation \<or> pr_UserID p = departing \<and> pr_Role p = ''owner'') \<and>
                    db_enabled db) (db_rows db)))"

definition remaining_rows :: "odb \<Rightarrow> string \<Rightarrow> Scope \<Rightarrow> participant_row list" where
  "remaining_rows db departing s = filter (\<lambda>p. row_scope p = s \<and> pr_UserID p \<noteq> departing) (db_rows db)"

definition sql_successor :: "participant_row list \<Rightarrow> string" where
  "sql_successor ps =
     (case sort_key (\<lambda>p. (if pr_Role p = ''admin'' then 0 else 1 :: nat, pr_JoinedAt p, pr_UserID p))
             (filter (\<lambda>p. \<not> pr_guest p \<and> (pr_Role p = ''admin'' \<or> pr_Role p = ''member'')) ps) of
        [] \<Rightarrow> '''' | p # _ \<Rightarrow> pr_UserID p)"

definition SuccessorsSQL :: "odb \<Rightarrow> Scope \<Rightarrow> string \<Rightarrow> bool \<Rightarrow> succession_row list" where
  "SuccessorsSQL db scope departing invalidation =
     map (\<lambda>s. let ps = remaining_rows db departing s in
              \<lparr>sr_scope = s, sr_members = length ps,
               sr_owners = length (filter (\<lambda>p. pr_Role p = ''owner'') ps), sr_candidate = sql_successor ps\<rparr>)
       (sort_key (\<lambda>s. (sc_Kind s, sc_ConversationID s)) (affected db scope departing invalidation))"

definition ownershipSuccessionSession :: "odb Session" where
  "ownershipSuccessionSession =
     \<lparr>ss_Query = \<lambda>db scope departing invalidation. Inr (map Inr (SuccessorsSQL db scope departing invalidation), None),
      ss_Exec = \<lambda>s candidate actor reason db.
        assign_ownership (sc_Kind s) (sc_ConversationID s) candidate ''owner'' actor reason db\<rparr>"

section \<open>Reading\<close>

record OwnershipMember =
  om_Participant :: OwnershipParticipant
  om_DisplayName :: string
  om_AvatarURL :: string
  om_Actions :: ParticipantActions

record OwnershipDetails =
  od_Enabled :: bool
  od_Members :: "OwnershipMember list"
  od_Capabilities :: OwnershipCapabilities
  od_LeavePreview :: OwnershipLeavePreview

abbreviation no_actions :: ParticipantActions where
  "no_actions \<equiv> \<lparr>pa_Remove = False, pa_AssignRole = False, pa_Transfer = False\<rparr>"

text \<open>
  The order of the rows is the database's, by collated display name among others: \<open>arrange\<close> stands for it.
\<close>

definition readOwnershipMembers ::
  "(OwnershipMember list \<Rightarrow> OwnershipMember list) \<Rightarrow> OwnershipScope \<Rightarrow> odb \<Rightarrow> OwnershipMember list" where
  "readOwnershipMembers arrange scope db =
     arrange (map (\<lambda>p. \<lparr>om_Participant = \<lparr>op_UserID = pr_UserID p, op_Role = pr_Role p, op_JoinedAt = pr_JoinedAt p,
                          op_HasAccess = True, op_Guest = pr_guest p\<rparr>,
                        om_DisplayName = pr_DisplayName p, om_AvatarURL = pr_AvatarURL p, om_Actions = no_actions\<rparr>)
       (filter (\<lambda>p. in_conversation (os_Kind scope) (os_ConversationID scope) p \<and>
                    pr_WorkspaceID p = os_WorkspaceID scope) (db_rows db)))"

definition zero_ownership_participant :: OwnershipParticipant where
  "zero_ownership_participant =
     \<lparr>op_UserID = '''', op_Role = '''', op_JoinedAt = time_zero, op_HasAccess = False, op_Guest = False\<rparr>"

definition ownershipFacts :: "OwnershipMember list \<Rightarrow> string \<Rightarrow> OwnershipParticipant list \<times> OwnershipParticipant" where
  "ownershipFacts members actorID =
     foldl (\<lambda>(participants, actor) m.
              (participants @ [om_Participant m],
               if op_UserID (om_Participant m) = actorID then om_Participant m else actor))
       ([], zero_ownership_participant) members"

definition applyOwnershipActions ::
  "OwnershipMember list \<Rightarrow> OwnershipParticipant list \<Rightarrow> OwnershipParticipant \<Rightarrow> OwnershipMember list" where
  "applyOwnershipActions members participants actor =
     map (\<lambda>m. let target = om_Participant m;
                  a0 = PrivateParticipantActions actor target;
                  a1 = (if op_Role target = ConversationOwner \<and>
                           \<not> CanDemoteConversationOwner participants (op_UserID target)
                        then a0\<lparr>pa_AssignRole := False\<rparr> else a0);
                  a2 = (if op_UserID target = op_UserID actor
                        then a1\<lparr>pa_Transfer := op_Role actor = ConversationOwner \<and> length participants > 1\<rparr> else a1)
              in m\<lparr>om_Actions := a2\<rparr>) members"

text \<open>\<open>strings.ToLower\<close> of an identifier, which is ASCII.\<close>

definition ascii_to_lower :: "string \<Rightarrow> string" where
  "ascii_to_lower s = map ascii_lower s"

definition readOwnershipDetails ::
  "(OwnershipMember list \<Rightarrow> OwnershipMember list) \<Rightarrow> OwnershipScope \<Rightarrow> odb \<Rightarrow> store_error + OwnershipDetails" where
  "readOwnershipDetails arrange scope db =
     (let members = readOwnershipMembers arrange scope db;
          (participants, actor) = ownershipFacts members (ascii_to_lower (os_ActorID scope)) in
      if \<not> op_HasAccess actor then Inl (Domain ErrNotFound)
      else if \<not> db_enabled db
        then Inr \<lparr>od_Enabled = False, od_Members = [],
                  od_Capabilities = \<lparr>oc_AddMembers = False, oc_ManageRoles = False, oc_EditMetadata = False, oc_Leave = False\<rparr>,
                  od_LeavePreview = \<lparr>lp_LastOwner = False, lp_SuccessorUserID = '''', lp_Blocked = False\<rparr>\<rparr>
      else Inr \<lparr>od_Enabled = True, od_Members = applyOwnershipActions members participants actor,
                od_Capabilities = PrivateConversationCapabilities actor True,
                od_LeavePreview = PreviewOwnershipLeave participants (os_ActorID scope)\<rparr>)"

section \<open>Authorising\<close>

definition validateOwnershipTransfer :: "OwnershipMutation \<Rightarrow> domain_error option" where
  "validateOwnershipTransfer input =
     (if om_Role input \<noteq> ConversationAdmin \<and> om_Role input \<noteq> ConversationMember then Some ErrForbidden
      else if length (om_IdempotencyKey input) = 0 \<or> length (om_IdempotencyKey input) > 128 then Some ErrOwnershipConflict
      else None)"

definition validateOwnershipMutation :: "OwnershipMutation \<Rightarrow> domain_error option" where
  "validateOwnershipMutation input =
     (if os_Kind (om_Scope input) \<noteq> ''dm'' \<and> os_Kind (om_Scope input) \<noteq> ''channel'' then Some ErrNotFound
      else if om_Operation input \<in> {''leave'', ''remove'', ''rename''} then None
      else if om_Operation input = ''role''
        then (if \<not> ConversationRole_Valid (om_Role input) then Some ErrForbidden else None)
      else if om_Operation input \<in> {''transfer'', ''transfer-and-leave''} then validateOwnershipTransfer input
      else Some ErrForbidden)"

definition ownershipTarget :: "OwnershipMember list \<Rightarrow> string \<Rightarrow> OwnershipMember option" where
  "ownershipTarget members userID = find (\<lambda>m. op_UserID (om_Participant m) = userID) members"

definition authorizeOwnershipRemoval :: "OwnershipMutation \<Rightarrow> OwnershipDetails \<Rightarrow> domain_error option" where
  "authorizeOwnershipRemoval input details =
     (if \<not> oc_EditMetadata (od_Capabilities details) then Some ErrForbidden
      else case ownershipTarget (od_Members details) (om_TargetUserID input) of
             None \<Rightarrow> None
           | Some target \<Rightarrow> if \<not> pa_Remove (om_Actions target) then Some ErrForbidden else None)"

definition authorizeOwnershipRoles :: "OwnershipMutation \<Rightarrow> OwnershipDetails \<Rightarrow> domain_error option" where
  "authorizeOwnershipRoles input details =
     (if \<not> oc_ManageRoles (od_Capabilities details) then Some ErrForbidden
      else case ownershipTarget (od_Members details) (om_TargetUserID input) of
             None \<Rightarrow> Some ErrNotFound
           | Some target \<Rightarrow>
               if om_Operation input \<noteq> ''role''
                 then (if \<not> pa_Transfer (om_Actions target) \<or> om_TargetUserID input = os_ActorID (om_Scope input)
                       then Some ErrForbidden else None)
               else let (participants, _) = ownershipFacts (od_Members details) (os_ActorID (om_Scope input)) in
                 if op_Role (om_Participant target) = ConversationOwner \<and> om_Role input \<noteq> ConversationOwner \<and>
                    \<not> CanDemoteConversationOwner participants (om_TargetUserID input)
                 then Some ErrOwnershipConflict else None)"

definition authorizeOwnershipMutation :: "OwnershipMutation \<Rightarrow> OwnershipDetails \<Rightarrow> domain_error option" where
  "authorizeOwnershipMutation input details =
     (if om_Operation input = ''leave'' then None
      else if om_Operation input = ''rename''
        then (if \<not> oc_EditMetadata (od_Capabilities details) then Some ErrForbidden else None)
      else if om_Operation input = ''remove'' then authorizeOwnershipRemoval input details
      else authorizeOwnershipRoles input details)"

text \<open>The policy context of \<open>conversation_role_store.go\<close>; the view lists active memberships only.\<close>

definition readConversationRolePolicy ::
  "OwnershipScope \<Rightarrow> odb \<Rightarrow> store_error + ConversationPolicyContext \<times> bool" where
  "readConversationRolePolicy scope db =
     (case db_resource db (os_Kind scope) (os_ConversationID scope) of
        None \<Rightarrow> Inl (Domain ErrNotFound)
      | Some (workspace, status) \<Rightarrow>
          if \<not> EqualFold workspace (os_WorkspaceID scope) \<or> status \<noteq> WorkspaceStatusActive then Inl (Domain ErrNotFound)
          else Inr (\<lparr>cx_Workspace = \<lparr>ws_ID = workspace, ws_Slug = '''', ws_Name = '''', ws_Status = status,
                       ws_EditWindowSeconds = None, ws_MessageRateLimitPerMinute = 0, ws_MaxUploadBytes = 0,
                       ws_CreatedAt = time_zero, ws_UpdatedAt = time_zero\<rparr>,
                     cx_ID = os_ConversationID scope,
                     cx_Kind = (if os_Kind scope = ''channel'' then ConversationKindPrivateChannel
                                else ConversationKindGroup),
                     cx_Active = True,
                     cx_Participants =
                       map (\<lambda>p. \<lparr>pp_ConversationID = os_ConversationID scope,
                              pp_Membership = \<lparr>wm_WorkspaceID = workspace, wm_UserID = pr_UserID p,
                                wm_Role = pr_WorkspaceRole p, wm_Status = MemberStatusActive, wm_JoinedAt = time_zero\<rparr>,
                              pp_Role = pr_Role p, pp_HasAccess = True\<rparr>)
                         (filter (\<lambda>p. in_conversation (os_Kind scope) (os_ConversationID scope) p \<and>
                                      pr_WorkspaceID p = workspace) (db_rows db))\<rparr>,
                    db_enabled db))"

definition conversationRoleParticipant ::
  "ConversationPolicyContext \<Rightarrow> string \<Rightarrow> ConversationPolicyParticipant" where
  "conversationRoleParticipant policy userID =
     (case find (\<lambda>m. pp_UserID m = userID) (cx_Participants policy) of
        None \<Rightarrow> zero_participant | Some m \<Rightarrow> m)"

definition authorizeConversationRole ::
  "OwnershipMutation \<Rightarrow> ConversationPolicyContext \<Rightarrow> bool \<Rightarrow> domain_error option" where
  "authorizeConversationRole input policy enabled =
     (let actor = os_ActorID (om_Scope input); target = om_TargetUserID input in
      if \<not> CanAddConversationMember policy actor \<or> \<not> CanAddConversationMember policy target then Some ErrNotFound
      else if \<not> enabled \<or> \<not> CanManageConversationRoles policy actor target then Some ErrForbidden
      else if pp_Role (conversationRoleParticipant policy target) = om_Role input then None
      else if \<not> CanAssignConversationRole policy actor target (om_Role input) then Some ErrOwnershipConflict
      else None)"

definition authorizeOwnershipTransfer ::
  "OwnershipMutation \<Rightarrow> ConversationPolicyContext \<Rightarrow> bool \<Rightarrow> domain_error option" where
  "authorizeOwnershipTransfer input policy enabled =
     (let actor = os_ActorID (om_Scope input); target = om_TargetUserID input in
      if \<not> CanAddConversationMember policy actor \<or> \<not> CanAddConversationMember policy target then Some ErrNotFound
      else if \<not> enabled \<or> \<not> CanTransferConversationOwnership policy actor target then Some ErrForbidden
      else None)"

section \<open>Writing\<close>

text \<open>A check that refuses with a sentinel, then the rest of the transaction.\<close>

definition require :: "domain_error option \<Rightarrow> store_error + 'a \<Rightarrow> store_error + 'a" where
  "require check rest = (case check of Some e \<Rightarrow> Inl (Domain e) | None \<Rightarrow> rest)"

definition assignOwnership :: "OwnershipScope \<Rightarrow> string \<Rightarrow> string \<Rightarrow> string \<Rightarrow> odb \<Rightarrow> store_error + odb" where
  "assignOwnership scope userID role reason db =
     assign_ownership (os_Kind scope) (os_ConversationID scope) userID role (os_ActorID scope) reason db"

text \<open>\<open>eid\<close> is the identifier the database gives a new event.\<close>

definition InsertConversationEvent :: "string \<Rightarrow> conversation_event \<Rightarrow> odb \<Rightarrow> odb" where
  "InsertConversationEvent eid event db = db\<lparr>db_events := db_events db @ [event\<lparr>ce_ID := eid\<rparr>]\<rparr>"

definition ownershipEventInput :: "OwnershipScope \<Rightarrow> event_type \<Rightarrow> conversation_event" where
  "ownershipEventInput scope event =
     \<lparr>ce_ID = '''', ce_Scope = scope, ce_Event = event, ce_TargetUsers = [], ce_OldName = '''', ce_NewName = ''''\<rparr>"

definition delete_member :: "string \<Rightarrow> string \<Rightarrow> string \<Rightarrow> odb \<Rightarrow> odb" where
  "delete_member kind conv user db =
     db\<lparr>db_rows := filter (\<lambda>p. \<not> (in_conversation kind conv p \<and> pr_UserID p = user)) (db_rows db)\<rparr>"

definition removeOwnershipMembership :: "string \<Rightarrow> OwnershipMutation \<Rightarrow> odb \<Rightarrow> store_error + string \<times> odb" where
  "removeOwnershipMembership eid input db =
     (let scope = om_Scope input;
          removal = om_Operation input = ''remove'';
          target = (if removal then om_TargetUserID input else os_ActorID scope);
          eventType = (if removal then ConversationEventMemberRemoved else ConversationEventMemberLeft) in
      if removal \<and> \<not> list_ex (\<lambda>p. in_conversation (os_Kind scope) (os_ConversationID scope) p \<and> pr_UserID p = target)
                        (db_rows db)
        then Inr ('''', db)
      else let event = (ownershipEventInput scope eventType)\<lparr>ce_TargetUsers := if removal then [target] else []\<rparr>;
               db' = InsertConversationEvent eid event db in
           Inr (eid, delete_member (os_Kind scope) (os_ConversationID scope) target db'))"

definition normalizeOwnershipName :: "string \<Rightarrow> string \<Rightarrow> domain_error + string" where
  "normalizeOwnershipName kind name =
     (if kind = ''channel'' then NormalizeChannelDisplayName name
      else let name = go_trim_space name in
           if name = '''' \<or> RuneCountInString name > 120 then Inl ErrInvalidInput else Inr name)"

definition renameOwnershipConversation :: "string \<Rightarrow> OwnershipMutation \<Rightarrow> odb \<Rightarrow> store_error + string \<times> odb" where
  "renameOwnershipConversation eid input db =
     (let scope = om_Scope input; kind = os_Kind scope; conv = os_ConversationID scope in
      case normalizeOwnershipName kind (om_Name input) of
        Inl e \<Rightarrow> Inl (Domain e)
      | Inr name \<Rightarrow>
          (case db_names db kind conv of
             None \<Rightarrow> Inl ErrNoRows
           | Some previous \<Rightarrow>
               let event = (ownershipEventInput scope ConversationEventRenamed)\<lparr>ce_OldName := previous, ce_NewName := name\<rparr>
               in Inr (eid, InsertConversationEvent eid event
                    (db\<lparr>db_names := (db_names db)(kind := (db_names db kind)(conv := Some name))\<rparr>))))"

definition changeOwnershipRoles :: "OwnershipMutation \<Rightarrow> odb \<Rightarrow> store_error + odb" where
  "changeOwnershipRoles input db =
     (let scope = om_Scope input;
          (role, reason) = (if om_Operation input \<noteq> ''role'' then (ConversationOwner, ''transfer'')
                            else (om_Role input, ''manual'')) in
      bind_err (assignOwnership scope (om_TargetUserID input) role reason db) (\<lambda>db.
      if om_Operation input = ''role'' then Inr db
      else assignOwnership scope (os_ActorID scope) (om_Role input) reason db))"

definition applyOwnershipMutation :: "string \<Rightarrow> OwnershipMutation \<Rightarrow> odb \<Rightarrow> store_error + string \<times> odb" where
  "applyOwnershipMutation eid input db =
     (if om_Operation input \<in> {''leave'', ''remove''} then removeOwnershipMembership eid input db
      else if om_Operation input = ''rename'' then renameOwnershipConversation eid input db
      else bind_err (changeOwnershipRoles input db) (\<lambda>db.
           if om_Operation input = ''transfer-and-leave'' then removeOwnershipMembership eid input db
           else Inr ('''', db)))"

definition succeedOwnership :: "OwnershipScope \<Rightarrow> string \<Rightarrow> odb \<Rightarrow> store_error + odb" where
  "succeedOwnership scope departing db =
     (case Succeed ownershipSuccessionSession
             \<lparr>sc_WorkspaceID = os_WorkspaceID scope, sc_Kind = os_Kind scope, sc_ConversationID = os_ConversationID scope\<rparr>
             departing (os_ActorID scope) db of
        (None, db') \<Rightarrow> Inr db'
      | (Some e, _) \<Rightarrow> Inl (if SQLState e = ''P0953'' then Domain ErrOwnershipConflict else e))"

definition prepareOwnershipDeparture :: "OwnershipMutation \<Rightarrow> odb \<Rightarrow> store_error + odb" where
  "prepareOwnershipDeparture input db =
     (if om_Operation input = ''leave'' then succeedOwnership (om_Scope input) (os_ActorID (om_Scope input)) db
      else if om_Operation input = ''remove'' then succeedOwnership (om_Scope input) (om_TargetUserID input) db
      else Inr db)"

definition executeOwnershipTransfer :: "OwnershipMutation \<Rightarrow> odb \<Rightarrow> store_error + OwnershipMutationResult \<times> odb" where
  "executeOwnershipTransfer input db =
     bind_err (readConversationRolePolicy (om_Scope input) db) (\<lambda>(policy, enabled).
     require (authorizeOwnershipTransfer input policy enabled)
       (bind_err (if pp_Role (conversationRoleParticipant policy (om_TargetUserID input)) \<noteq> ConversationOwner
                  then assignOwnership (om_Scope input) (om_TargetUserID input) ConversationOwner ''transfer'' db
                  else Inr db) (\<lambda>db.
        bind_err (assignOwnership (om_Scope input) (os_ActorID (om_Scope input)) (om_Role input) ''transfer'' db) (\<lambda>db.
        Inr (\<lparr>or_Replayed = False, or_TargetUserID = om_TargetUserID input, or_Role = ConversationOwner,
              or_Left = False, or_EventID = ''''\<rparr>, db)))))"

definition executeOwnershipMutation ::
  "(OwnershipMember list \<Rightarrow> OwnershipMember list) \<Rightarrow> string \<Rightarrow> OwnershipMutation \<Rightarrow> odb \<Rightarrow>
   store_error + OwnershipMutationResult \<times> odb" where
  "executeOwnershipMutation arrange eid input db =
     (if om_Operation input = ''transfer'' then executeOwnershipTransfer input db
      else bind_err (readOwnershipDetails arrange (om_Scope input) db) (\<lambda>details.
        require (if \<not> od_Enabled details then Some ErrForbidden else None)
          (require (authorizeOwnershipMutation input details)
            (bind_err (prepareOwnershipDeparture input db) (\<lambda>db.
             bind_err (applyOwnershipMutation eid input db) (\<lambda>(eventID, db).
             Inr (\<lparr>or_Replayed = False, or_TargetUserID = om_TargetUserID input,
                   or_Role = (if om_Operation input = ''role'' then om_Role input else ConversationOwner),
                   or_Left = om_Operation input = ''transfer-and-leave'' \<or> om_Operation input = ''leave'',
                   or_EventID = eventID\<rparr>, db)))))))"

text \<open>
  The idempotency record of a transfer. \<open>hash\<close> is \<open>ownershipRequestHash\<close> on the fields it reads: the
  SHA-256 of their JSON. The stored response is the result without its \<open>Replayed\<close> mark, which JSON leaves out.
\<close>

definition is_transfer :: "OwnershipMutation \<Rightarrow> bool" where
  "is_transfer input \<longleftrightarrow> om_Operation input = ''transfer'' \<or> om_Operation input = ''transfer-and-leave''"

definition ownershipRequestHash :: "(string \<Rightarrow> string \<Rightarrow> string \<Rightarrow> string) \<Rightarrow> OwnershipMutation \<Rightarrow> string" where
  "ownershipRequestHash hash input = hash (om_Operation input) (om_TargetUserID input) (om_Role input)"

definition replayOwnershipRequest ::
  "(string \<Rightarrow> string \<Rightarrow> string \<Rightarrow> string) \<Rightarrow> OwnershipMutation \<Rightarrow> odb \<Rightarrow>
   store_error + OwnershipMutationResult option" where
  "replayOwnershipRequest hash input db =
     (if \<not> is_transfer input then Inr None
      else case find (\<lambda>q. rq_Scope q = om_Scope input \<and> rq_Key q = om_IdempotencyKey input) (db_requests db) of
             None \<Rightarrow> Inr None
           | Some q \<Rightarrow>
               if rq_Hash q \<noteq> ownershipRequestHash hash input then Inl (Domain ErrOwnershipConflict)
               else Inr (Some ((rq_Response q)\<lparr>or_Replayed := True\<rparr>)))"

definition persistOwnershipRequest ::
  "(string \<Rightarrow> string \<Rightarrow> string \<Rightarrow> string) \<Rightarrow> OwnershipMutation \<Rightarrow> OwnershipMutationResult \<Rightarrow> odb \<Rightarrow> odb" where
  "persistOwnershipRequest hash input result db =
     (if \<not> is_transfer input then db
      else db\<lparr>db_requests := db_requests db @
        [\<lparr>rq_Scope = om_Scope input, rq_Key = om_IdempotencyKey input,
          rq_Hash = ownershipRequestHash hash input, rq_Response = result\<lparr>or_Replayed := False\<rparr>\<rparr>]\<rparr>)"

text \<open>\<open>commit\<close> is the error a commit meets, if any; then nothing of the transaction remains.\<close>

definition transaction :: "store_error option \<Rightarrow> (odb \<Rightarrow> store_error + 'a \<times> odb) \<Rightarrow> odb \<Rightarrow> (store_error + 'a) \<times> odb" where
  "transaction commit body db =
     (case body db of
        Inl e \<Rightarrow> (Inl e, db)
      | Inr (r, db') \<Rightarrow> (case commit of Some e \<Rightarrow> (Inl e, db) | None \<Rightarrow> (Inr r, db')))"

definition mutateOnce ::
  "(string \<Rightarrow> string \<Rightarrow> string \<Rightarrow> string) \<Rightarrow> (OwnershipMember list \<Rightarrow> OwnershipMember list) \<Rightarrow> string \<Rightarrow>
   OwnershipMutation \<Rightarrow> odb \<Rightarrow> store_error + OwnershipMutationResult \<times> odb" where
  "mutateOnce hash arrange eid input db =
     bind_err (replayOwnershipRequest hash input db) (\<lambda>replayed.
     case replayed of
       Some result \<Rightarrow> Inr (result, db)
     | None \<Rightarrow>
         bind_err (executeOwnershipMutation arrange eid input db) (\<lambda>(result, db).
         Inr (result, persistOwnershipRequest hash input result db)))"

definition mutateRoleOnce :: "OwnershipMutation \<Rightarrow> odb \<Rightarrow> store_error + OwnershipMutationResult \<times> odb" where
  "mutateRoleOnce input db =
     bind_err (readConversationRolePolicy (om_Scope input) db) (\<lambda>(policy, enabled).
     require (authorizeConversationRole input policy enabled)
       (bind_err (if pp_Role (conversationRoleParticipant policy (om_TargetUserID input)) \<noteq> om_Role input
                  then assignOwnership (om_Scope input) (om_TargetUserID input) (om_Role input) ''manual'' db
                  else Inr db) (\<lambda>db.
        Inr (\<lparr>or_Replayed = False, or_TargetUserID = om_TargetUserID input, or_Role = om_Role input,
              or_Left = False, or_EventID = ''''\<rparr>, db))))"

definition mapOwnershipError :: "store_error \<Rightarrow> store_error" where
  "mapOwnershipError e =
     (case e of PgError s \<Rightarrow> if s = ''P0953'' then Domain ErrOwnershipConflict
                             else if s = ''P0954'' then Domain ErrNotFound else e
      | _ \<Rightarrow> e)"

text \<open>
  The state a retried mutation runs on: the database, and the commit results and event identifiers
  that await its attempts.
\<close>

type_synonym attempt_env = "(store_error option \<times> string) list"

definition attempt ::
  "(string \<Rightarrow> odb \<Rightarrow> store_error + 'a \<times> odb) \<Rightarrow> odb \<times> attempt_env \<Rightarrow> (store_error + 'a) \<times> odb \<times> attempt_env" where
  "attempt body s =
     (case s of
        (db, []) \<Rightarrow> (let (r, db') = transaction None (body '''') db in (r, db', []))
      | (db, (commit, eid) # env) \<Rightarrow> (let (r, db') = transaction commit (body eid) db in (r, db', env)))"

definition Mutate ::
  "(string \<Rightarrow> string \<Rightarrow> string \<Rightarrow> string) \<Rightarrow> (OwnershipMember list \<Rightarrow> OwnershipMember list) \<Rightarrow>
   (odb \<times> attempt_env \<Rightarrow> store_error option) \<Rightarrow> OwnershipMutation \<Rightarrow> odb \<times> attempt_env \<Rightarrow>
   (store_error + OwnershipMutationResult) \<times> odb \<times> attempt_env" where
  "Mutate hash arrange ctx_err input0 s =
     (let scope = (om_Scope input0)\<lparr>os_ActorID := ascii_to_lower (os_ActorID (om_Scope input0))\<rparr>;
          input = input0\<lparr>om_Scope := scope, om_TargetUserID := ascii_to_lower (om_TargetUserID input0)\<rparr> in
      case validateOwnershipMutation input of
        Some e \<Rightarrow> (Inl (Domain e), s)
      | None \<Rightarrow>
          let (r, s') = (if om_Operation input = ''role''
                         then Retry ctx_err (attempt (\<lambda>_. mutateRoleOnce input)) s
                         else Retry ctx_err (attempt (\<lambda>eid. mutateOnce hash arrange eid input)) s) in
          (case r of Inl e \<Rightarrow> Inl (mapOwnershipError e) | Inr a \<Rightarrow> Inr a, s'))"

end
