(* ===== verification/Ownership_Safety.thy ===== *)
theory Ownership_Safety
  imports Ownership_Store
begin

text \<open>
  The properties of the ownership transactions: no mutation orphans a conversation or touches
  another one, a transfer is idempotent, and the query that selects a successor in the database agrees with the
  selection in the service.
\<close>

section \<open>Members and owners of a conversation\<close>

definition member_row :: "odb \<Rightarrow> string \<Rightarrow> string \<Rightarrow> string \<Rightarrow> bool" where
  "member_row db k c u \<longleftrightarrow> (\<exists>p \<in> set (db_rows db). in_conversation k c p \<and> pr_UserID p = u)"

definition owner_row :: "odb \<Rightarrow> string \<Rightarrow> string \<Rightarrow> string \<Rightarrow> bool" where
  "owner_row db k c u \<longleftrightarrow>
     (\<exists>p \<in> set (db_rows db). in_conversation k c p \<and> pr_UserID p = u \<and> pr_Role p = ConversationOwner)"

definition orphan :: "odb \<Rightarrow> string \<Rightarrow> string \<Rightarrow> bool" where
  "orphan db k c \<longleftrightarrow> (\<exists>u. member_row db k c u) \<and> \<not> (\<exists>u. owner_row db k c u)"

definition row_key :: "participant_row \<Rightarrow> string \<times> string \<times> string" where
  "row_key p = (pr_Kind p, pr_ConversationID p, pr_UserID p)"

text \<open>What the schema guarantees of the view.\<close>

definition wf_db :: "odb \<Rightarrow> bool" where
  "wf_db db \<longleftrightarrow> distinct (map row_key (db_rows db)) \<and>
     (\<forall>p \<in> set (db_rows db). pr_UserID p \<noteq> '''' \<and> pr_ConversationID p \<noteq> '''' \<and> pr_WorkspaceID p \<noteq> '''') \<and>
     (\<forall>p \<in> set (db_rows db). \<forall>q \<in> set (db_rows db).
        pr_Kind p = pr_Kind q \<and> pr_ConversationID p = pr_ConversationID q \<longrightarrow> pr_WorkspaceID p = pr_WorkspaceID q)"

lemma wf_db_unique:
  "wf_db db \<Longrightarrow> p \<in> set (db_rows db) \<Longrightarrow> q \<in> set (db_rows db) \<Longrightarrow> row_key p = row_key q \<Longrightarrow> p = q"
  by (auto simp: wf_db_def distinct_map inj_on_def)

lemma owner_is_member: "owner_row db k c u \<Longrightarrow> member_row db k c u"
  by (auto simp: owner_row_def member_row_def)

lemma not_orphanI: "owner_row db k c u \<Longrightarrow> \<not> orphan db k c"
  by (auto simp: orphan_def)

definition re_row :: "string \<Rightarrow> string \<Rightarrow> string \<Rightarrow> string \<Rightarrow> participant_row \<Rightarrow> participant_row" where
  "re_row k c u r q = (if in_conversation k c q \<and> pr_UserID q = u then q\<lparr>pr_Role := r\<rparr> else q)"

lemma re_row_simps [simp]:
  "pr_Kind (re_row k c u r q) = pr_Kind q" "pr_ConversationID (re_row k c u r q) = pr_ConversationID q"
  "pr_WorkspaceID (re_row k c u r q) = pr_WorkspaceID q" "pr_UserID (re_row k c u r q) = pr_UserID q"
  "in_conversation k' c' (re_row k c u r q) = in_conversation k' c' q" "row_key (re_row k c u r q) = row_key q"
  "pr_Role (re_row k c u r q) = (if in_conversation k c q \<and> pr_UserID q = u then r else pr_Role q)"
  by (simp_all add: re_row_def in_conversation_def row_key_def)

text \<open>Assigning a role, when it succeeds, sets it on the member's row and changes no other row.\<close>

lemma assign_ownership_rows:
  assumes "wf_db db" and "assign_ownership k c u r actor reason db = Inr db'"
  shows "db_rows db' = map (re_row k c u r) (db_rows db)" and "member_row db k c u"
    and "db_enabled db' = db_enabled db" and "db_requests db' = db_requests db"
proof -
  obtain p where p: "find (\<lambda>p. in_conversation k c p \<and> pr_UserID p = u) (db_rows db) = Some p"
    using assms(2) by (auto simp: assign_ownership_def split: option.splits)
  then have in_p: "p \<in> set (db_rows db)" "in_conversation k c p" "pr_UserID p = u"
    by (auto simp: find_Some_iff)
  then show "member_row db k c u" by (auto simp: member_row_def)
  have same: "re_row k c u r q = q" if "pr_Role p = r" "q \<in> set (db_rows db)" for q
  proof (cases "in_conversation k c q \<and> pr_UserID q = u")
    case True
    then have "q = p" using wf_db_unique [OF assms(1)] in_p that(2) by (auto simp: row_key_def in_conversation_def)
    then show ?thesis using that(1) by (simp add: re_row_def)
  qed (auto simp: re_row_def)
  show "db_rows db' = map (re_row k c u r) (db_rows db)"
    using assms(2) p same by (auto simp: assign_ownership_def re_row_def [abs_def] map_idI split: if_splits)
  show "db_enabled db' = db_enabled db" "db_requests db' = db_requests db"
    using assms(2) p by (auto simp: assign_ownership_def split: if_splits)
qed

lemma wf_db_rows_cong:
  assumes "wf_db db" and "db_rows db' = map (re_row k c u r) (db_rows db)"
  shows "wf_db db'"
proof -
  have "map row_key (db_rows db') = map row_key (db_rows db)" using assms(2) by simp
  moreover have "set (db_rows db') = re_row k c u r ` set (db_rows db)" using assms(2) by simp
  ultimately show ?thesis using assms(1) unfolding wf_db_def by (simp only: ball_simps re_row_simps simp_thms) argo
qed

lemma rows_after_assign:
  assumes "db_rows db' = map (re_row k c u r) (db_rows db)"
  shows "member_row db' k' c' v \<longleftrightarrow> member_row db k' c' v"
    and "owner_row db' k' c' v \<longleftrightarrow>
      (if k' = k \<and> c' = c \<and> v = u then member_row db k c u \<and> r = ConversationOwner else owner_row db k' c' v)"
proof -
  have set: "set (db_rows db') = re_row k c u r ` set (db_rows db)" using assms by simp
  show "member_row db' k' c' v \<longleftrightarrow> member_row db k' c' v"
    unfolding member_row_def set by (simp only: bex_simps re_row_simps)
  let ?here = "k' = k \<and> c' = c \<and> v = u"
  have hit: "in_conversation k c p \<and> pr_UserID p = u \<longleftrightarrow> ?here" if "in_conversation k' c' p" "pr_UserID p = v" for p
    using that by (auto simp: in_conversation_def)
  have "owner_row db' k' c' v \<longleftrightarrow> (\<exists>p \<in> set (db_rows db). in_conversation k' c' p \<and> pr_UserID p = v \<and>
      (if in_conversation k c p \<and> pr_UserID p = u then r else pr_Role p) = ConversationOwner)"
    unfolding owner_row_def set by (simp only: bex_simps re_row_simps)
  also have "\<dots> \<longleftrightarrow> (\<exists>p \<in> set (db_rows db). in_conversation k' c' p \<and> pr_UserID p = v \<and>
      (if ?here then r else pr_Role p) = ConversationOwner)"
    by (intro bex_cong refl conj_cong) (subst hit, assumption+, rule refl)
  also have "\<dots> \<longleftrightarrow> (if ?here then member_row db k c u \<and> r = ConversationOwner else owner_row db k' c' v)"
  proof (cases ?here)
    case True
    then show ?thesis unfolding member_row_def by auto
  next
    case False
    then show ?thesis unfolding owner_row_def by (simp only: if_False)
  qed
  finally show "owner_row db' k' c' v \<longleftrightarrow> (if ?here then member_row db k c u \<and> r = ConversationOwner else owner_row db k' c' v)" .
qed

lemma rows_after_delete:
  "member_row (delete_member k c u db) k' c' v \<longleftrightarrow> member_row db k' c' v \<and> \<not> (k' = k \<and> c' = c \<and> v = u)"
  "owner_row (delete_member k c u db) k' c' v \<longleftrightarrow> owner_row db k' c' v \<and> \<not> (k' = k \<and> c' = c \<and> v = u)"
  "wf_db db \<Longrightarrow> wf_db (delete_member k c u db)"
  by (auto simp: member_row_def owner_row_def delete_member_def in_conversation_def wf_db_def distinct_map inj_on_def)

lemma rows_only:
  "db_rows db' = db_rows db \<Longrightarrow> member_row db' = member_row db \<and> owner_row db' = owner_row db \<and> (wf_db db' \<longleftrightarrow> wf_db db)"
  by (simp add: member_row_def owner_row_def wf_db_def fun_eq_iff)

text \<open>A change of one conversation that keeps it owned and leaves every other conversation alone.\<close>

definition keeps :: "string \<Rightarrow> string \<Rightarrow> odb \<Rightarrow> odb \<Rightarrow> bool" where
  "keeps k c db db' \<longleftrightarrow> wf_db db' \<and> (orphan db' k c \<longrightarrow> orphan db k c) \<and>
     (\<forall>k' c' v. (k', c') \<noteq> (k, c) \<longrightarrow>
        (member_row db' k' c' v \<longleftrightarrow> member_row db k' c' v) \<and> (owner_row db' k' c' v \<longleftrightarrow> owner_row db k' c' v))"

lemma keeps_refl: "wf_db db \<Longrightarrow> db_rows db' = db_rows db \<Longrightarrow> keeps k c db db'"
  using rows_only [of db' db] by (simp add: keeps_def orphan_def)

lemma keeps_trans: "keeps k c db db' \<Longrightarrow> keeps k c db' db'' \<Longrightarrow> keeps k c db db''"
  unfolding keeps_def by simp

lemma not_orphan_assign:
  assumes "wf_db db" and "assign_ownership k c u r actor reason db = Inr db'"
    and "r = ConversationOwner \<or> \<not> owner_row db k c u \<or> (\<exists>v. v \<noteq> u \<and> owner_row db k c v)"
    and no: "\<not> orphan db k c"
  shows "\<not> orphan db' k c"
proof (cases "r = ConversationOwner")
  case True
  then have "owner_row db' k c u"
    using assign_ownership_rows(2) [OF assms(1,2)] rows_after_assign(2) [OF assign_ownership_rows(1) [OF assms(1,2)]]
    by simp
  then show ?thesis by (rule not_orphanI)
next
  case False
  obtain w where w: "owner_row db k c w" using no assign_ownership_rows(2) [OF assms(1,2)] unfolding orphan_def by blast
  have "\<exists>v. v \<noteq> u \<and> owner_row db k c v" using assms(3) False w by (cases "w = u") blast+
  then obtain v where "v \<noteq> u" "owner_row db k c v" by blast
  then have "owner_row db' k c v" using rows_after_assign(2) [OF assign_ownership_rows(1) [OF assms(1,2)]] by simp
  then show ?thesis by (rule not_orphanI)
qed

lemma keeps_assign:
  assumes "wf_db db" and "assign_ownership k c u r actor reason db = Inr db'"
    and "r = ConversationOwner \<or> \<not> owner_row db k c u \<or> (\<exists>v. v \<noteq> u \<and> owner_row db k c v)"
  shows "keeps k c db db'"
  unfolding keeps_def
proof (intro conjI allI impI)
  note rows = assign_ownership_rows(1) [OF assms(1,2)]
  show "wf_db db'" by (rule wf_db_rows_cong [OF assms(1) rows])
  show "orphan db' k c \<Longrightarrow> orphan db k c" using not_orphan_assign [OF assms] by blast
  show "member_row db' k' c' v \<longleftrightarrow> member_row db k' c' v" for k' c' v by (rule rows_after_assign(1) [OF rows])
  show "owner_row db' k' c' v \<longleftrightarrow> owner_row db k' c' v" if "(k', c') \<noteq> (k, c)" for k' c' v
  proof -
    have "\<not> (k' = k \<and> c' = c \<and> v = u)" using that by blast
    then show ?thesis by (simp only: rows_after_assign(2) [OF rows] if_False)
  qed
qed

lemma keeps_delete:
  assumes "wf_db db" and "orphan (delete_member k c u db) k c \<Longrightarrow> orphan db k c"
  shows "keeps k c db (delete_member k c u db)"
  using assms rows_after_delete [where db = db] unfolding keeps_def by auto

section \<open>The two selections of a successor\<close>

definition row_facts :: "participant_row \<Rightarrow> OwnershipParticipant" where
  "row_facts p = \<lparr>op_UserID = pr_UserID p, op_Role = pr_Role p, op_JoinedAt = pr_JoinedAt p,
     op_HasAccess = True, op_Guest = pr_guest p\<rparr>"

lemma sort_key_hd_min: "sort_key k xs = y # ys \<Longrightarrow> y \<in> set xs \<and> (\<forall>x \<in> set xs. k y \<le> k x)"
proof -
  assume eq: "sort_key k xs = y # ys"
  then have "sorted (map k (y # ys))" by (metis sorted_sort_key)
  moreover have "set xs = set (y # ys)" by (metis eq set_sort)
  ultimately show ?thesis by auto
qed

lemma sql_successor_cases:
  "if \<exists>p \<in> set ps. candidate (row_facts p)
   then \<exists>p \<in> set ps. candidate (row_facts p) \<and> sql_successor ps = pr_UserID p \<and>
          (\<forall>q \<in> set ps. candidate (row_facts q) \<longrightarrow> successor_key (row_facts p) \<le> successor_key (row_facts q))
   else sql_successor ps = ''''"
proof -
  let ?k = "\<lambda>p. successor_key (row_facts p)" and ?cs = "filter (\<lambda>p. candidate (row_facts p)) ps"
  have key: "(\<lambda>p. (if pr_Role p = ''admin'' then 0 else 1 :: nat, pr_JoinedAt p, pr_UserID p)) = ?k"
    by (simp add: fun_eq_iff successor_key_def row_facts_def)
  have cand: "(\<lambda>p. \<not> pr_guest p \<and> (pr_Role p = ''admin'' \<or> pr_Role p = ''member'')) = (\<lambda>p. candidate (row_facts p))"
    by (simp add: fun_eq_iff candidate_def row_facts_def)
  have sel: "sql_successor ps = (case sort_key ?k ?cs of [] \<Rightarrow> '''' | p # _ \<Rightarrow> pr_UserID p)"
    unfolding sql_successor_def key cand ..
  show ?thesis
  proof (cases "sort_key ?k ?cs")
    case Nil
    then have "?cs = []" by (metis length_0_conv length_sort)
    then show ?thesis using sel Nil by (auto simp: filter_empty_conv)
  next
    case (Cons p rest)
    then show ?thesis using sel sort_key_hd_min [OF Cons] by auto
  qed
qed

lemma sql_successor_eq: "sql_successor ps = SelectOwnershipSuccessor (map row_facts ps)"
proof (cases "\<exists>p \<in> set ps. candidate (row_facts p)")
  case True
  obtain p where p: "p \<in> set ps" "candidate (row_facts p)" "sql_successor ps = pr_UserID p"
    "\<forall>q \<in> set ps. candidate (row_facts q) \<longrightarrow> successor_key (row_facts p) \<le> successor_key (row_facts q)"
    using sql_successor_cases [of ps] True by auto
  obtain q where q: "q \<in> set ps" "candidate (row_facts q)" "SelectOwnershipSuccessor (map row_facts ps) = op_UserID (row_facts q)"
    "\<forall>r \<in> set ps. candidate (row_facts r) \<longrightarrow> successor_key (row_facts q) \<le> successor_key (row_facts r)"
    using SelectOwnershipSuccessor_cases [of "map row_facts ps"] True by (auto split: if_splits)
  have "successor_key (row_facts p) = successor_key (row_facts q)" using p q by (intro antisym) auto
  then have "op_UserID (row_facts p) = op_UserID (row_facts q)" by (simp add: successor_key_def)
  then show ?thesis using p(3) q(3) by (simp add: row_facts_def)
next
  case False
  then show ?thesis
    using sql_successor_cases [of ps] SelectOwnershipSuccessor_cases [of "map row_facts ps"] by auto
qed

section \<open>A departure\<close>

lemma sql_successor_member:
  assumes "sql_successor ps \<noteq> ''''"
  shows "\<exists>p \<in> set ps. sql_successor ps = pr_UserID p"
  using sql_successor_cases [of ps] assms by (auto split: if_splits)

lemma remdups_one: "remdups (map f (filter (\<lambda>q. f q = s) qs)) = (if \<exists>q \<in> set qs. f q = s then [s] else [])"
  by (induction qs) auto

lemma in_scope_exact:
  assumes "sc_WorkspaceID s \<noteq> ''''" and "sc_Kind s \<noteq> ''''" and "sc_ConversationID s \<noteq> ''''"
  shows "in_scope s p \<longleftrightarrow> row_scope p = s"
  using assms by (cases s) (simp add: in_scope_def row_scope_def)

lemma affected_one:
  assumes "sc_WorkspaceID s \<noteq> ''''" and "sc_Kind s \<noteq> ''''" and "sc_ConversationID s \<noteq> ''''"
    and "db_enabled db" and "p \<in> set (db_rows db)" and "row_scope p = s"
  shows "affected db s u False = [s]"
  unfolding affected_def in_scope_exact [OF assms(1-3)] using assms(4-6) remdups_one [of row_scope s "db_rows db"]
  by auto

text \<open>In a well-formed database the scope of a row is its conversation.\<close>

lemma wf_db_workspace:
  "wf_db db \<Longrightarrow> p \<in> set (db_rows db) \<Longrightarrow> q \<in> set (db_rows db) \<Longrightarrow>
   pr_Kind p = pr_Kind q \<Longrightarrow> pr_ConversationID p = pr_ConversationID q \<Longrightarrow> pr_WorkspaceID p = pr_WorkspaceID q"
  unfolding wf_db_def by blast

lemma wf_db_named:
  "wf_db db \<Longrightarrow> p \<in> set (db_rows db) \<Longrightarrow> pr_UserID p \<noteq> '''' \<and> pr_ConversationID p \<noteq> '''' \<and> pr_WorkspaceID p \<noteq> ''''"
  unfolding wf_db_def by blast

lemma row_scope_conversation:
  assumes "wf_db db" and "p \<in> set (db_rows db)" and "q \<in> set (db_rows db)"
  shows "row_scope q = row_scope p \<longleftrightarrow> in_conversation (pr_Kind p) (pr_ConversationID p) q"
  using wf_db_workspace [OF assms(1,3,2)] unfolding row_scope_def in_conversation_def by (simp only: Scope.ext_inject) blast

text \<open>The members of a conversation but one.\<close>

definition rest_rows :: "odb \<Rightarrow> string \<Rightarrow> string \<Rightarrow> string \<Rightarrow> participant_row list" where
  "rest_rows db k c u = filter (\<lambda>q. in_conversation k c q \<and> pr_UserID q \<noteq> u) (db_rows db)"

lemma delete_member_rows:
  "in_conversation k c p \<and> p \<in> set (db_rows (delete_member k c u db)) \<longleftrightarrow> p \<in> set (rest_rows db k c u)"
  by (auto simp: rest_rows_def delete_member_def)

lemma rest_rows_orphan:
  "orphan (delete_member k c u db) k c \<longleftrightarrow>
     rest_rows db k c u \<noteq> [] \<and> filter (\<lambda>p. pr_Role p = ConversationOwner) (rest_rows db k c u) = []"
proof -
  have "(\<exists>v. member_row (delete_member k c u db) k c v) \<longleftrightarrow> (\<exists>r. r \<in> set (rest_rows db k c u))"
    unfolding member_row_def delete_member_rows [symmetric] by blast
  moreover have "(\<exists>v. owner_row (delete_member k c u db) k c v) \<longleftrightarrow>
      (\<exists>r \<in> set (rest_rows db k c u). pr_Role r = ConversationOwner)"
    unfolding owner_row_def Bex_def delete_member_rows [symmetric] by blast
  ultimately show ?thesis by (simp add: orphan_def filter_empty_conv ex_in_conv)
qed

definition departure_row :: "odb \<Rightarrow> participant_row \<Rightarrow> string \<Rightarrow> succession_row" where
  "departure_row db p u =
     (let rest = rest_rows db (pr_Kind p) (pr_ConversationID p) u in
      \<lparr>sr_scope = row_scope p, sr_members = length rest,
       sr_owners = length (filter (\<lambda>p. pr_Role p = ConversationOwner) rest), sr_candidate = sql_successor rest\<rparr>)"

lemma departure_row_orphaned:
  "orphaned_by (departure_row db p u) \<longleftrightarrow>
     orphan (delete_member (pr_Kind p) (pr_ConversationID p) u db) (pr_Kind p) (pr_ConversationID p)"
  unfolding rest_rows_orphan orphaned_by_def departure_row_def Let_def by auto

lemma SuccessorsSQL_one:
  assumes "wf_db db" and "db_enabled db" and "p \<in> set (db_rows db)" and "pr_Kind p \<noteq> ''''"
  shows "SuccessorsSQL db (row_scope p) u False = [departure_row db p u]"
proof -
  have "affected db (row_scope p) u False = [row_scope p]"
    using wf_db_named [OF assms(1,3)] assms(2-4) by (intro affected_one) (simp_all add: row_scope_def)
  moreover have "remaining_rows db u (row_scope p) = rest_rows db (pr_Kind p) (pr_ConversationID p) u"
    unfolding remaining_rows_def rest_rows_def
    by (rule filter_cong [OF refl]) (simp only: row_scope_conversation [OF assms(1,3)])
  ultimately show ?thesis unfolding SuccessorsSQL_def departure_row_def by simp
qed

lemma selectSuccessions_one:
  assumes "SuccessorsSQL db s u invalidation = [row]"
  shows "selectSuccessions ownershipSuccessionSession s u invalidation db =
    (if \<not> orphaned_by row then Inr []
     else if sr_candidate row = '''' then Inl ownershipConflict
     else Inr [\<lparr>su_scope = sr_scope row, su_candidate = sr_candidate row\<rparr>])"
  using selectSuccessions_loop_rows [of "[row]" "[]"] assms
  by (simp add: selectSuccessions_def ownershipSuccessionSession_def bind_err_def split: sum.split)

text \<open>What preparing a departure does to the database.\<close>

lemma succeedOwnership_cases:
  assumes "wf_db db" and "db_enabled db" and "p \<in> set (db_rows db)" and "pr_Kind p \<noteq> ''''"
    and scope: "os_WorkspaceID scope = pr_WorkspaceID p" "os_Kind scope = pr_Kind p" "os_ConversationID scope = pr_ConversationID p"
    and ok: "succeedOwnership scope u db = Inr db'"
  defines "k \<equiv> pr_Kind p" and "c \<equiv> pr_ConversationID p" and "v \<equiv> sr_candidate (departure_row db p u)"
  shows "if orphan (delete_member k c u db) k c
    then v \<noteq> '''' \<and> assign_ownership k c v ConversationOwner (os_ActorID scope) ''succession'' db = Inr db'
    else db' = db"
proof -
  have sc: "\<lparr>sc_WorkspaceID = os_WorkspaceID scope, sc_Kind = os_Kind scope, sc_ConversationID = os_ConversationID scope\<rparr> = row_scope p"
    by (simp add: row_scope_def scope)
  have row: "sr_scope (departure_row db p u) = row_scope p" by (simp add: departure_row_def Let_def)
  note sel = selectSuccessions_one [OF SuccessorsSQL_one [OF assms(1-4)]]
  show ?thesis
    using ok unfolding succeedOwnership_def sc Succeed_def succeed_def sel row departure_row_orphaned k_def c_def v_def
    by (auto simp: ownershipSuccessionSession_def row_scope_def split: sum.splits if_splits)
qed

lemma departure_candidate:
  assumes "sr_candidate (departure_row db p u) \<noteq> ''''"
  shows "sr_candidate (departure_row db p u) \<noteq> u"
proof -
  have "sql_successor (rest_rows db (pr_Kind p) (pr_ConversationID p) u) \<noteq> ''''"
    using assms by (simp add: departure_row_def Let_def)
  from sql_successor_member [OF this] show ?thesis by (auto simp: departure_row_def Let_def rest_rows_def)
qed

text \<open>
  Preparing a departure succeeds only if, once the member has gone, the conversation is empty or
  owned; it never orphans it meanwhile and touches no other.
\<close>

lemma succeedOwnership_prepares:
  assumes "wf_db db" and "db_enabled db" and "p \<in> set (db_rows db)" and "pr_Kind p \<noteq> ''''"
    and scope: "os_WorkspaceID scope = pr_WorkspaceID p" "os_Kind scope = pr_Kind p" "os_ConversationID scope = pr_ConversationID p"
    and ok: "succeedOwnership scope u db = Inr db'"
  defines "k \<equiv> pr_Kind p" and "c \<equiv> pr_ConversationID p"
  shows "keeps k c db db' \<and> \<not> orphan (delete_member k c u db') k c \<and> db_requests db' = db_requests db"
proof (cases "orphan (delete_member k c u db) k c")
  case False
  then have "db' = db" using succeedOwnership_cases [OF assms(1-8)] by (simp add: k_def c_def)
  then show ?thesis using False keeps_refl [OF assms(1) refl] by blast
next
  case True
  let ?v = "sr_candidate (departure_row db p u)"
  have "?v \<noteq> ''''" and a: "assign_ownership k c ?v ConversationOwner (os_ActorID scope) ''succession'' db = Inr db'"
    using succeedOwnership_cases [OF assms(1-8)] True by (simp_all add: k_def c_def)
  then have "?v \<noteq> u" using departure_candidate by blast
  moreover have "owner_row db' k c ?v"
    using assign_ownership_rows(2) [OF assms(1) a] rows_after_assign(2) [OF assign_ownership_rows(1) [OF assms(1) a]] by simp
  ultimately have "owner_row (delete_member k c u db') k c ?v" unfolding rows_after_delete by blast
  then show ?thesis
    using keeps_assign [OF assms(1) a] not_orphanI assign_ownership_rows(4) [OF assms(1) a] by blast
qed

section \<open>Every mutation keeps the conversation owned\<close>

lemma keeps_rows: "keeps k c db db1 \<Longrightarrow> db_rows db2 = db_rows db1 \<Longrightarrow> keeps k c db db2"
  using rows_only [of db2 db1] unfolding keeps_def orphan_def by simp

lemma delete_rows_cong:
  "db_rows db2 = db_rows db1 \<Longrightarrow> db_rows (delete_member k c u db2) = db_rows (delete_member k c u db1)"
  by (simp add: delete_member_def)

lemma wf_keeps: "keeps k c db db' \<Longrightarrow> wf_db db'"
  by (simp add: keeps_def)

lemma removeOwnershipMembership_effect:
  assumes "removeOwnershipMembership eid input db = Inr (e, db')"
  defines "scope \<equiv> om_Scope input"
    and "target \<equiv> (if om_Operation input = ''remove'' then om_TargetUserID input else os_ActorID (om_Scope input))"
  shows "(db_rows db' = db_rows db \<or> db_rows db' = db_rows (delete_member (os_Kind scope) (os_ConversationID scope) target db)) \<and>
    db_requests db' = db_requests db"
  using assms(1) unfolding removeOwnershipMembership_def Let_def scope_def target_def
  by (auto simp: InsertConversationEvent_def delete_member_def split: if_splits)

lemma keeps_removal:
  assumes "keeps k c db db1" and "\<not> orphan (delete_member k c u db1) k c"
    and "db_rows db2 = db_rows db1 \<or> db_rows db2 = db_rows (delete_member k c u db1)"
  shows "keeps k c db db2"
proof -
  have "keeps k c db1 (delete_member k c u db1)"
    using assms(1,2) by (intro keeps_delete) (auto dest: wf_keeps)
  then show ?thesis using assms keeps_rows keeps_trans by blast
qed

lemma ownershipFacts_eq:
  "ownershipFacts members a =
     (map om_Participant members,
      foldl (\<lambda>actor m. if op_UserID (om_Participant m) = a then om_Participant m else actor)
        zero_ownership_participant members)"
proof -
  have "foldl (\<lambda>(ps, actor) m. (ps @ [om_Participant m], if op_UserID (om_Participant m) = a then om_Participant m else actor))
      (ps, z) ms = (ps @ map om_Participant ms,
        foldl (\<lambda>actor m. if op_UserID (om_Participant m) = a then om_Participant m else actor) z ms)" for ps z and ms :: "OwnershipMember list"
    by (induction ms arbitrary: ps z) simp_all
  then show ?thesis by (simp add: ownershipFacts_def)
qed

lemma actor_fold:
  "foldl (\<lambda>actor m. if op_UserID (om_Participant m) = a then om_Participant m else actor) z members \<in>
     insert z {om_Participant m | m. m \<in> set members \<and> op_UserID (om_Participant m) = a}"
  by (induction members arbitrary: z) auto

lemma readOwnershipDetails_actor:
  assumes "readOwnershipDetails arrange scope db = Inr details" and "\<And>xs. set (arrange xs) = set xs"
  shows "\<exists>p \<in> set (db_rows db). in_conversation (os_Kind scope) (os_ConversationID scope) p \<and>
    pr_WorkspaceID p = os_WorkspaceID scope" and "od_Enabled details \<longleftrightarrow> db_enabled db"
proof -
  let ?members = "readOwnershipMembers arrange scope db"
  let ?actor = "snd (ownershipFacts ?members (ascii_to_lower (os_ActorID scope)))"
  have "op_HasAccess ?actor"
    using assms(1) by (auto simp: readOwnershipDetails_def Let_def split: prod.splits if_splits)
  then have "?actor \<noteq> zero_ownership_participant" by (auto simp: zero_ownership_participant_def)
  then obtain m where "m \<in> set ?members"
    using actor_fold [of "ascii_to_lower (os_ActorID scope)" zero_ownership_participant ?members]
    by (auto simp: ownershipFacts_eq)
  then show "\<exists>p \<in> set (db_rows db). in_conversation (os_Kind scope) (os_ConversationID scope) p \<and>
    pr_WorkspaceID p = os_WorkspaceID scope"
    by (auto simp: readOwnershipMembers_def assms(2))
  show "od_Enabled details \<longleftrightarrow> db_enabled db"
    using assms(1) by (auto simp: readOwnershipDetails_def Let_def split: prod.splits if_splits)
qed

text \<open>Leaving and removing.\<close>

lemma departure_keeps:
  assumes "wf_db db" and "db_enabled db" and "p \<in> set (db_rows db)"
    and "in_conversation (os_Kind scope) (os_ConversationID scope) p" and "pr_WorkspaceID p = os_WorkspaceID scope"
    and "os_Kind scope \<noteq> ''''" and "succeedOwnership scope u db = Inr db1"
    and "db_rows db2 = db_rows db1 \<or> db_rows db2 = db_rows (delete_member (os_Kind scope) (os_ConversationID scope) u db1)"
  shows "keeps (os_Kind scope) (os_ConversationID scope) db db2" and "db_requests db1 = db_requests db"
proof -
  have "os_Kind scope = pr_Kind p" "os_ConversationID scope = pr_ConversationID p"
    using assms(4) by (simp_all add: in_conversation_def)
  with succeedOwnership_prepares [OF assms(1-3), of scope u db1] assms(5-7)
  have prep: "keeps (os_Kind scope) (os_ConversationID scope) db db1 \<and>
    \<not> orphan (delete_member (os_Kind scope) (os_ConversationID scope) u db1) (os_Kind scope) (os_ConversationID scope) \<and>
    db_requests db1 = db_requests db" by simp
  then show "keeps (os_Kind scope) (os_ConversationID scope) db db2" using assms(8) keeps_removal by blast
  show "db_requests db1 = db_requests db" using prep by blast
qed

text \<open>Handing ownership over: the target first becomes an owner, then the actor steps down.\<close>

lemma handover_keeps:
  assumes "wf_db db" and "owner_row db k c target" and "actor \<noteq> target"
    and "assign_ownership k c actor role a reason db = Inr db'"
  shows "keeps k c db db'" and "owner_row db' k c target" and "db_requests db' = db_requests db"
proof -
  show "keeps k c db db'" using assms by (intro keeps_assign) auto
  show "owner_row db' k c target"
    using assms(2,3) rows_after_assign(2) [OF assign_ownership_rows(1) [OF assms(1,4)]] by simp
  show "db_requests db' = db_requests db" by (rule assign_ownership_rows(4) [OF assms(1,4)])
qed

lemma promote_keeps:
  assumes "wf_db db" and "assign_ownership k c target ConversationOwner a reason db = Inr db'"
  shows "keeps k c db db'" and "owner_row db' k c target" and "db_requests db' = db_requests db"
proof -
  show "keeps k c db db'" using assms by (intro keeps_assign) auto
  show "owner_row db' k c target"
    using assign_ownership_rows(2) [OF assms] rows_after_assign(2) [OF assign_ownership_rows(1) [OF assms]] by simp
  show "db_requests db' = db_requests db" by (rule assign_ownership_rows(4) [OF assms])
qed

lemma transfer_and_leave_keeps:
  assumes "wf_db db" and "om_Operation input = ''transfer-and-leave''"
    and "om_TargetUserID input \<noteq> os_ActorID (om_Scope input)"
    and "applyOwnershipMutation eid input db = Inr (e, db')"
  shows "keeps (os_Kind (om_Scope input)) (os_ConversationID (om_Scope input)) db db' \<and> db_requests db' = db_requests db"
proof -
  define scope k c where "scope = om_Scope input" and "k = os_Kind scope" and "c = os_ConversationID scope"
  obtain db2 where change: "changeOwnershipRoles input db = Inr db2"
    and rem: "removeOwnershipMembership eid input db2 = Inr (e, db')"
    using assms(2,4) by (auto simp: applyOwnershipMutation_def bind_err_Inr_iff)
  obtain db1 where a1: "assign_ownership k c (om_TargetUserID input) ConversationOwner (os_ActorID scope) ''transfer'' db = Inr db1"
    and a2: "assign_ownership k c (os_ActorID scope) (om_Role input) (os_ActorID scope) ''transfer'' db1 = Inr db2"
    using change assms(2)
    by (auto simp: changeOwnershipRoles_def assignOwnership_def Let_def bind_err_Inr_iff scope_def k_def c_def)
  note p = promote_keeps [OF assms(1) a1]
  note h = handover_keeps [OF wf_keeps [OF p(1)] p(2) _ a2]
  have ne: "os_ActorID scope \<noteq> om_TargetUserID input" using assms(3) by (simp add: scope_def)
  have "owner_row (delete_member k c (os_ActorID scope) db2) k c (om_TargetUserID input)"
    unfolding rows_after_delete using h(2) [OF ne] ne by simp
  then have "\<not> orphan (delete_member k c (os_ActorID scope) db2) k c" by (rule not_orphanI)
  moreover have "keeps k c db db2" by (rule keeps_trans [OF p(1) h(1) [OF ne]])
  moreover have "db_rows db' = db_rows db2 \<or> db_rows db' = db_rows (delete_member k c (os_ActorID scope) db2)"
    and "db_requests db' = db_requests db2"
    using removeOwnershipMembership_effect [OF rem] assms(2) by (simp_all add: scope_def k_def c_def)
  ultimately show ?thesis
    using keeps_removal h(3) [OF ne] p(3) unfolding k_def c_def scope_def by metis
qed

lemma executeOwnershipMutation_keeps:
  assumes "wf_db db" and "\<And>xs. set (arrange xs) = set xs" and "validateOwnershipMutation input = None"
    and "om_Operation input \<noteq> ''role''" and "om_Operation input \<noteq> ''transfer''"
    and ex: "executeOwnershipMutation arrange eid input db = Inr (r, db')"
  defines "k \<equiv> os_Kind (om_Scope input)" and "c \<equiv> os_ConversationID (om_Scope input)"
  shows "keeps k c db db' \<and> db_requests db' = db_requests db"
proof -
  obtain details db1 e where d: "readOwnershipDetails arrange (om_Scope input) db = Inr details" "od_Enabled details"
    and auth: "authorizeOwnershipMutation input details = None"
    and prep: "prepareOwnershipDeparture input db = Inr db1"
    and app: "applyOwnershipMutation eid input db1 = Inr (e, db')"
    using ex assms(5)
    by (auto simp: executeOwnershipMutation_def bind_err_Inr_iff require_def split: if_splits option.splits)
  note actor = readOwnershipDetails_actor [OF d(1) assms(2)]
  obtain p where p: "p \<in> set (db_rows db)" "in_conversation k c p" "pr_WorkspaceID p = os_WorkspaceID (om_Scope input)"
    using actor(1) unfolding k_def c_def by blast
  have k: "k \<noteq> ''''" and op: "om_Operation input \<in> {''leave'', ''remove'', ''rename'', ''transfer-and-leave''}"
    using assms(3-5) unfolding validateOwnershipMutation_def k_def by (auto split: if_splits)
  have departs: "keeps k c db db' \<and> db_requests db' = db_requests db"
    if "om_Operation input \<in> {''leave'', ''remove''}" "succeedOwnership (om_Scope input) u db = Inr db1"
      "u = (if om_Operation input = ''remove'' then om_TargetUserID input else os_ActorID (om_Scope input))" for u
  proof -
    have "removeOwnershipMembership eid input db1 = Inr (e, db')" using app that(1) by (auto simp: applyOwnershipMutation_def)
    from removeOwnershipMembership_effect [OF this]
      departure_keeps [OF assms(1) _ p [unfolded k_def c_def] k [unfolded k_def] that(2), of db'] actor(2) d(2) that(3)
    show ?thesis unfolding k_def c_def by simp
  qed
  consider "om_Operation input = ''leave''" | "om_Operation input = ''remove''" | "om_Operation input = ''rename''"
    | "om_Operation input = ''transfer-and-leave''" using op by blast
  then show ?thesis
  proof cases
    case 1
    then show ?thesis using prep by (intro departs) (auto simp: prepareOwnershipDeparture_def)
  next
    case 2
    then show ?thesis using prep by (intro departs) (auto simp: prepareOwnershipDeparture_def)
  next
    case 3
    then have "db_rows db' = db_rows db \<and> db_requests db' = db_requests db"
      using prep app by (auto simp: prepareOwnershipDeparture_def applyOwnershipMutation_def renameOwnershipConversation_def
          Let_def InsertConversationEvent_def split: sum.splits option.splits)
    then show ?thesis using keeps_refl [OF assms(1)] by blast
  next
    case 4
    have "om_TargetUserID input \<noteq> os_ActorID (om_Scope input)"
      using auth 4 by (auto simp: authorizeOwnershipMutation_def authorizeOwnershipRoles_def split: if_splits option.splits)
    moreover have "db1 = db" using prep 4 by (simp add: prepareOwnershipDeparture_def)
    ultimately show ?thesis using transfer_and_leave_keeps [OF assms(1) 4] app unfolding k_def c_def by blast
  qed
qed

text \<open>The roster of the role policy consists of rows of the conversation.\<close>

lemma policy_roster:
  assumes "readConversationRolePolicy scope db = Inr (policy, enabled)" and "m \<in> set (cx_Participants policy)"
  shows "\<exists>p \<in> set (db_rows db). in_conversation (os_Kind scope) (os_ConversationID scope) p \<and>
    pr_UserID p = pp_UserID m \<and> pr_Role p = pp_Role m"
proof -
  obtain x where "x \<in> set (db_rows db)" "in_conversation (os_Kind scope) (os_ConversationID scope) x"
    "pr_UserID x = pp_UserID m" "pr_Role x = pp_Role m"
    using assms by (auto simp: readConversationRolePolicy_def split: option.splits if_split_asm)
  then show ?thesis by blast
qed

lemma policy_owner_row:
  assumes "readConversationRolePolicy scope db = Inr (policy, enabled)" and "owns policy v"
  shows "owner_row db (os_Kind scope) (os_ConversationID scope) v"
  using assms(2) policy_roster [OF assms(1)] unfolding owns_def owner_row_def by metis

lemma policy_role_row:
  assumes "wf_db db" and "readConversationRolePolicy scope db = Inr (policy, enabled)"
    and "m \<in> set (cx_Participants policy)" and "owner_row db (os_Kind scope) (os_ConversationID scope) (pp_UserID m)"
  shows "pp_Role m = ConversationOwner"
proof -
  obtain p where p: "p \<in> set (db_rows db)" "in_conversation (os_Kind scope) (os_ConversationID scope) p"
    "pr_UserID p = pp_UserID m" "pr_Role p = pp_Role m" using policy_roster [OF assms(2,3)] by blast
  obtain q where q: "q \<in> set (db_rows db)" "in_conversation (os_Kind scope) (os_ConversationID scope) q"
    "pr_UserID q = pp_UserID m" "pr_Role q = ConversationOwner" using assms(4) unfolding owner_row_def by blast
  have "row_key p = row_key q" using p q by (simp add: row_key_def in_conversation_def)
  then have "p = q" by (rule wf_db_unique [OF assms(1) p(1) q(1)])
  then show ?thesis using p(4) q(4) by simp
qed

lemma conversationRoleParticipant_in:
  assumes "pp_Role (conversationRoleParticipant policy u) = ConversationOwner"
  shows "\<exists>m \<in> set (cx_Participants policy). pp_UserID m = u \<and> pp_Role m = ConversationOwner"
  using assms by (auto simp: conversationRoleParticipant_def zero_participant_def find_Some_iff split: option.splits)

lemma executeOwnershipTransfer_keeps:
  assumes "wf_db db" and "executeOwnershipTransfer input db = Inr (r, db')"
  defines "k \<equiv> os_Kind (om_Scope input)" and "c \<equiv> os_ConversationID (om_Scope input)"
  shows "keeps k c db db' \<and> db_requests db' = db_requests db"
proof -
  let ?a = "os_ActorID (om_Scope input)" and ?t = "om_TargetUserID input"
  obtain policy enabled db1 where pol: "readConversationRolePolicy (om_Scope input) db = Inr (policy, enabled)"
    and auth: "authorizeOwnershipTransfer input policy enabled = None"
    and first: "(if pp_Role (conversationRoleParticipant policy ?t) \<noteq> ConversationOwner
        then assignOwnership (om_Scope input) ?t ConversationOwner ''transfer'' db else Inr db) = Inr db1"
    and second: "assignOwnership (om_Scope input) ?a (om_Role input) ''transfer'' db1 = Inr db'"
    using assms(2) by (auto simp: executeOwnershipTransfer_def bind_err_Inr_iff require_def split: option.splits)
  have ne: "?a \<noteq> ?t"
    using auth by (auto simp: authorizeOwnershipTransfer_def CanTransferConversationOwnership_iff Let_def split: if_splits)
  have "keeps k c db db1 \<and> owner_row db1 k c ?t \<and> db_requests db1 = db_requests db"
  proof (cases "pp_Role (conversationRoleParticipant policy ?t) = ConversationOwner")
    case True
    then obtain m where "m \<in> set (cx_Participants policy)" "pp_UserID m = ?t" "pp_Role m = ConversationOwner"
      using conversationRoleParticipant_in by blast
    then have "owner_row db k c ?t" using policy_roster [OF pol] unfolding owner_row_def k_def c_def by metis
    then show ?thesis using True first keeps_refl [OF assms(1) refl] by simp
  next
    case False
    then have "assign_ownership k c ?t ConversationOwner ?a ''transfer'' db = Inr db1"
      using first by (simp add: assignOwnership_def k_def c_def)
    from promote_keeps [OF assms(1) this] show ?thesis by blast
  qed
  moreover note handover_keeps [OF wf_keeps _ ne second [unfolded assignOwnership_def k_def [symmetric] c_def [symmetric]]]
  ultimately show ?thesis using keeps_trans by metis
qed

lemma mutateRoleOnce_keeps:
  assumes "wf_db db" and "mutateRoleOnce input db = Inr (r, db')"
  shows "keeps (os_Kind (om_Scope input)) (os_ConversationID (om_Scope input)) db db'"
proof -
  define k c t where "k = os_Kind (om_Scope input)" and "c = os_ConversationID (om_Scope input)" and "t = om_TargetUserID input"
  obtain policy enabled where pol: "readConversationRolePolicy (om_Scope input) db = Inr (policy, enabled)"
    and auth: "authorizeConversationRole input policy enabled = None"
    and set: "(if pp_Role (conversationRoleParticipant policy t) \<noteq> om_Role input
        then assignOwnership (om_Scope input) t (om_Role input) ''manual'' db else Inr db) = Inr db'"
    using assms(2) unfolding mutateRoleOnce_def t_def [symmetric]
    by (auto simp: bind_err_Inr_iff require_def split: option.splits)
  have "keeps k c db db'"
  proof (cases "pp_Role (conversationRoleParticipant policy t) = om_Role input")
    case True
    then show ?thesis using set keeps_refl [OF assms(1) refl] by simp
  next
    case False
    then have can: "CanAssignConversationRole policy (os_ActorID (om_Scope input)) t (om_Role input)"
      and "CanAddConversationMember policy t"
      using auth by (auto simp: authorizeConversationRole_def Let_def t_def split: if_splits)
    then obtain m where m: "participant policy t = (m, True)"
      unfolding CanAddConversationMember_def snd_participant_iff by blast
    then have "m \<in> set (cx_Participants policy)" "pp_UserID m = t" by (auto simp: participant_iff)
    then have "owner_row db k c t \<Longrightarrow> \<exists>v. v \<noteq> t \<and> owner_row db k c v"
      using can m policy_role_row [OF assms(1) pol, of m] policy_owner_row [OF pol]
      unfolding CanAssignConversationRole_iff k_def c_def by auto
    moreover have "assign_ownership k c t (om_Role input) (os_ActorID (om_Scope input)) ''manual'' db = Inr db'"
      using set False by (simp add: assignOwnership_def k_def c_def)
    ultimately show ?thesis by (intro keeps_assign [OF assms(1)]) auto
  qed
  then show ?thesis unfolding k_def c_def .
qed

lemma mutateOnce_keeps:
  assumes "wf_db db" and "\<And>xs. set (arrange xs) = set xs" and "validateOwnershipMutation input = None"
    and "om_Operation input \<noteq> ''role''" and "mutateOnce hash arrange eid input db = Inr (r, db')"
  shows "keeps (os_Kind (om_Scope input)) (os_ConversationID (om_Scope input)) db db'"
proof -
  consider "db' = db" | result db1 where "executeOwnershipMutation arrange eid input db = Inr (result, db1)"
    "db_rows db' = db_rows db1"
    using assms(5)
    by (auto simp: mutateOnce_def bind_err_Inr_iff persistOwnershipRequest_def split: option.splits if_splits)
  then show ?thesis
  proof cases
    case 1
    then show ?thesis using keeps_refl [OF assms(1)] by blast
  next
    case (2 result db1)
    have "keeps (os_Kind (om_Scope input)) (os_ConversationID (om_Scope input)) db db1"
    proof (cases "om_Operation input = ''transfer''")
      case True
      then have "executeOwnershipTransfer input db = Inr (result, db1)" using 2(1) by (simp add: executeOwnershipMutation_def)
      then show ?thesis using executeOwnershipTransfer_keeps [OF assms(1)] by blast
    next
      case False
      then show ?thesis using executeOwnershipMutation_keeps [OF assms(1-4) False 2(1)] by blast
    qed
    then show ?thesis using 2(2) keeps_rows by blast
  qed
qed

lemma attempt_effect:
  "attempt body (db, env) = (r, db', env') \<Longrightarrow>
     (case r of Inl _ \<Rightarrow> db' = db | Inr a \<Rightarrow> \<exists>eid. body eid db = Inr (a, db'))"
  by (auto simp: attempt_def transaction_def Let_def split: list.splits prod.splits sum.splits option.splits)

lemma Retry_attempt:
  assumes "Retry_loop n ctx_err (attempt body) prev (db, env) = (r, db', env')" and "\<And>a. prev \<noteq> Inr a"
  shows "case r of Inl _ \<Rightarrow> db' = db | Inr a \<Rightarrow> \<exists>eid. body eid db = Inr (a, db')"
  using assms
proof (induction n arbitrary: prev env)
  case 0
  then show ?case by (cases r) auto
next
  case (Suc n)
  obtain r1 db1 env1 where o: "attempt body (db, env) = (r1, db1, env1)" by (cases "attempt body (db, env)")
  note eff = attempt_effect [OF o]
  show ?case
  proof (cases "transient r1")
    case False
    have "r1 = r" "db1 = db'" using False Suc.prems(1) o by (simp_all add: Retry_loop_Suc del: Retry_loop.simps)
    show ?thesis using eff unfolding \<open>r1 = r\<close> \<open>db1 = db'\<close> .
  next
    case True
    then have r1: "\<And>a. r1 \<noteq> Inr a" and "db1 = db" using eff by (auto simp: transient_def split: sum.splits)
    show ?thesis
    proof (cases "ctx_err (db1, env1)")
      case None
      then show ?thesis using Suc o True \<open>db1 = db\<close> r1 by (simp add: Retry_loop_Suc del: Retry_loop.simps)
    next
      case (Some e)
      then show ?thesis using Suc.prems(1) o True \<open>db1 = db\<close> by (auto simp: Retry_loop_Suc simp del: Retry_loop.simps)
    qed
  qed
qed

text \<open>The request as the transaction sees it.\<close>

definition normalized_input :: "OwnershipMutation \<Rightarrow> OwnershipMutation" where
  "normalized_input input = input\<lparr>
     om_Scope := (om_Scope input)\<lparr>os_ActorID := ascii_to_lower (os_ActorID (om_Scope input))\<rparr>,
     om_TargetUserID := ascii_to_lower (om_TargetUserID input)\<rparr>"

lemma normalized_input_simps [simp]:
  "os_Kind (om_Scope (normalized_input input)) = os_Kind (om_Scope input)"
  "os_ConversationID (om_Scope (normalized_input input)) = os_ConversationID (om_Scope input)"
  "om_Operation (normalized_input input) = om_Operation input"
  by (simp_all add: normalized_input_def)

lemma Mutate_cases:
  assumes "Mutate hash arrange ctx_err input (db, env) = (r, db', env')"
  shows "case r of Inl _ \<Rightarrow> db' = db
    | Inr a \<Rightarrow> validateOwnershipMutation (normalized_input input) = None \<and>
        (if om_Operation input = ''role'' then mutateRoleOnce (normalized_input input) db = Inr (a, db')
         else \<exists>eid. mutateOnce hash arrange eid (normalized_input input) db = Inr (a, db'))"
proof (cases "validateOwnershipMutation (normalized_input input)")
  case (Some e)
  then show ?thesis using assms by (auto simp: Mutate_def normalized_input_def Let_def)
next
  case None
  define body where "body = (if om_Operation input = ''role'' then (\<lambda>_. mutateRoleOnce (normalized_input input))
    else (\<lambda>eid. mutateOnce hash arrange eid (normalized_input input)))"
  obtain r1 where "Retry_loop 3 ctx_err (attempt body) (Inl ContextErr) (db, env) = (r1, db', env')"
    and r: "r = (case r1 of Inl e \<Rightarrow> Inl (mapOwnershipError e) | Inr a \<Rightarrow> Inr a)"
    using assms None unfolding body_def
    by (auto simp: Mutate_def normalized_input_def Retry_def Let_def split: prod.splits if_splits)
  from Retry_attempt [OF this(1)] show ?thesis
    using None r unfolding body_def by (auto split: sum.splits if_splits)
qed

text \<open>
  Claim C2. No mutation of ownership orphans a conversation. Whatever is requested, however often it
  is retried and whatever the commits meet, a conversation with members and no owner after the
  request was one before it, no member or owner of another conversation changes, and a request that is refused
  changes nothing at all. The database's own guard against orphans is not needed.
\<close>

theorem Mutate_never_orphans:
  assumes "wf_db db" and "\<And>xs. set (arrange xs) = set xs"
    and "Mutate hash arrange ctx_err input (db, env) = (r, db', env')"
  shows "wf_db db' \<and> (\<forall>k c. orphan db' k c \<longrightarrow> orphan db k c) \<and>
    (\<forall>k c v. (k, c) \<noteq> (os_Kind (om_Scope input), os_ConversationID (om_Scope input)) \<longrightarrow>
       (member_row db' k c v \<longleftrightarrow> member_row db k c v) \<and> (owner_row db' k c v \<longleftrightarrow> owner_row db k c v)) \<and>
    ((\<exists>e. r = Inl e) \<longrightarrow> db' = db)"
proof -
  let ?k = "os_Kind (om_Scope input)" and ?c = "os_ConversationID (om_Scope input)"
  note cases = Mutate_cases [OF assms(3)]
  have keeps: "keeps ?k ?c db db'"
  proof (cases r)
    case (Inl e)
    then show ?thesis using cases keeps_refl [OF assms(1)] by simp
  next
    case (Inr a)
    show ?thesis
    proof (cases "om_Operation input = ''role''")
      case True
      then show ?thesis using cases Inr mutateRoleOnce_keeps [OF assms(1), of "normalized_input input" a db'] by simp
    next
      case False
      then obtain eid where "mutateOnce hash arrange eid (normalized_input input) db = Inr (a, db')"
        and "validateOwnershipMutation (normalized_input input) = None" using cases Inr by auto
      then show ?thesis using mutateOnce_keeps [OF assms(1,2), of "normalized_input input" hash eid a db'] False by simp
    qed
  qed
  have "orphan db' k c \<longrightarrow> orphan db k c" for k c
    using keeps unfolding keeps_def orphan_def by (cases "(k, c) = (?k, ?c)") auto
  then show ?thesis using keeps cases unfolding keeps_def by (auto split: sum.splits)
qed

definition example_row :: "string \<Rightarrow> string \<Rightarrow> int \<Rightarrow> participant_row" where
  "example_row u r joined = \<lparr>pr_Kind = ''dm'', pr_ConversationID = ''c'', pr_WorkspaceID = ''w'', pr_UserID = u,
     pr_Role = r, pr_JoinedAt = joined, pr_WorkspaceRole = WorkspaceRoleMember, pr_DisplayName = u, pr_AvatarURL = ''''\<rparr>"

definition example_db :: odb where
  "example_db = \<lparr>db_enabled = True,
     db_rows = [example_row ''a'' ConversationOwner 1, example_row ''b'' ConversationMember 2, example_row ''d'' ConversationMember 3],
     db_resource = (\<lambda>kind conv. if kind = ''dm'' \<and> conv = ''c'' then Some (''w'', ''active'') else None),
     db_requests = [], db_audit = [], db_events = [], db_names = (\<lambda>_ _. None)\<rparr>"

definition example_mutation :: "string \<Rightarrow> string \<Rightarrow> string \<Rightarrow> OwnershipMutation" where
  "example_mutation operation target role = \<lparr>om_Scope = \<lparr>os_WorkspaceID = ''w'', os_Kind = ''dm'', os_ConversationID = ''c'',
       os_ActorID = ''A''\<rparr>, om_TargetUserID = target, om_Role = role, om_Operation = operation,
     om_IdempotencyKey = ''key'', om_Name = ''''\<rparr>"

lemma example_db_wf: "wf_db example_db"
  by (simp add: wf_db_def example_db_def example_row_def row_key_def)

definition example_hash :: "string \<Rightarrow> string \<Rightarrow> string \<Rightarrow> string" where
  "example_hash a b c = go_join CHR 0x00 [a, b, c]"

text \<open>The only owner leaves; the first commit meets a serialization failure; the older member succeeds.\<close>

theorem Mutate_never_orphans_witness:
  "case Mutate example_hash id (\<lambda>_. None) (example_mutation ''leave'' '''' '''') (example_db, [(Some (PgError ''40001''), ''e1''), (None, ''e2'')]) of
     (r, db', env') \<Rightarrow>
       r = Inr \<lparr>or_Replayed = False, or_TargetUserID = '''', or_Role = ConversationOwner, or_Left = True, or_EventID = ''e2''\<rparr> \<and>
       map (\<lambda>p. (pr_UserID p, pr_Role p)) (db_rows db') = [(''b'', ConversationOwner), (''d'', ConversationMember)] \<and>
       wf_db db' \<and> \<not> orphan db' ''dm'' ''c''"
proof -
  define m where "m = Mutate example_hash id (\<lambda>_. None) (example_mutation ''leave'' '''' '''')
    (example_db, [(Some (PgError ''40001''), ''e1''), (None, ''e2'')])"
  have "fst m = Inr \<lparr>or_Replayed = False, or_TargetUserID = '''', or_Role = ConversationOwner, or_Left = True, or_EventID = ''e2''\<rparr> \<and>
      map (\<lambda>p. (pr_UserID p, pr_Role p)) (db_rows (fst (snd m))) = [(''b'', ConversationOwner), (''d'', ConversationMember)]"
    unfolding m_def by code_simp
  moreover have "\<not> orphan example_db ''dm'' ''c''"
    by (rule not_orphanI [of _ _ _ "''a''"]) (simp add: owner_row_def example_db_def example_row_def in_conversation_def)
  moreover obtain r db' env' where "m = (r, db', env')" by (cases m)
  ultimately show ?thesis
    using Mutate_never_orphans [OF example_db_wf, of id example_hash "\<lambda>_. None" "example_mutation ''leave'' '''' ''''"
        "[(Some (PgError ''40001''), ''e1''), (None, ''e2'')]" r db' env']
    unfolding m_def [symmetric] by auto
qed

section \<open>Transfers are idempotent\<close>

lemma executeOwnershipMutation_requests:
  assumes "wf_db db" and "\<And>xs. set (arrange xs) = set xs" and "validateOwnershipMutation input = None"
    and "om_Operation input \<noteq> ''role''" and "executeOwnershipMutation arrange eid input db = Inr (r, db')"
  shows "db_requests db' = db_requests db \<and> \<not> or_Replayed r"
proof (cases "om_Operation input = ''transfer''")
  case True
  then have ex: "executeOwnershipTransfer input db = Inr (r, db')" using assms(5) by (simp add: executeOwnershipMutation_def)
  then have "\<not> or_Replayed r"
    by (auto simp: executeOwnershipTransfer_def bind_err_Inr_iff require_def split: option.splits)
  then show ?thesis using executeOwnershipTransfer_keeps [OF assms(1) ex] by simp
next
  case False
  have "\<not> or_Replayed r"
    using assms(5) False by (auto simp: executeOwnershipMutation_def bind_err_Inr_iff require_def split: option.splits if_splits)
  then show ?thesis using executeOwnershipMutation_keeps [OF assms(1-4) False assms(5)] by simp
qed

definition same_request :: "OwnershipMutation \<Rightarrow> ownership_request \<Rightarrow> bool" where
  "same_request input q \<longleftrightarrow> rq_Scope q = om_Scope input \<and> rq_Key q = om_IdempotencyKey input"

lemma find_append_None: "find P xs = None \<Longrightarrow> P y \<Longrightarrow> find P (xs @ [y]) = Some y"
  by (induction xs) (auto split: if_splits)

text \<open>After a transfer has succeeded its record is the one a repetition finds.\<close>

lemma mutateOnce_recorded:
  assumes "wf_db db" and "\<And>xs. set (arrange xs) = set xs" and "validateOwnershipMutation input = None"
    and "is_transfer input" and "mutateOnce hash arrange eid input db = Inr (r, db')"
  shows "\<exists>q. find (same_request input) (db_requests db') = Some q \<and> rq_Hash q = ownershipRequestHash hash input \<and>
    (rq_Response q)\<lparr>or_Replayed := True\<rparr> = r\<lparr>or_Replayed := True\<rparr>"
proof -
  have role: "om_Operation input \<noteq> ''role''" using assms(4) by (auto simp: is_transfer_def)
  consider q where "find (same_request input) (db_requests db) = Some q" "rq_Hash q = ownershipRequestHash hash input"
      "r = (rq_Response q)\<lparr>or_Replayed := True\<rparr>" "db' = db"
    | db1 where "find (same_request input) (db_requests db) = None"
      "executeOwnershipMutation arrange eid input db = Inr (r, db1)" "db' = persistOwnershipRequest hash input r db1"
    using assms(4,5) unfolding mutateOnce_def replayOwnershipRequest_def same_request_def [abs_def]
    by (auto simp: bind_err_Inr_iff split: option.splits if_splits)
  then show ?thesis
  proof cases
    case 1
    then show ?thesis by auto
  next
    case (2 db1)
    have "db_requests db1 = db_requests db"
      using executeOwnershipMutation_requests [OF assms(1-3) role 2(2)] by blast
    then show ?thesis
      using 2(3) assms(4) find_append_None [OF 2(1)] by (auto simp: persistOwnershipRequest_def same_request_def)
  qed
qed

lemma mutateOnce_replay:
  assumes "is_transfer input" and "find (same_request input) (db_requests db) = Some q"
  shows "mutateOnce hash arrange eid input db =
    (if rq_Hash q \<noteq> ownershipRequestHash hash input then Inl (Domain ErrOwnershipConflict)
     else Inr ((rq_Response q)\<lparr>or_Replayed := True\<rparr>, db))"
  using assms unfolding mutateOnce_def replayOwnershipRequest_def same_request_def [abs_def] by simp

lemma Retry_once:
  assumes "\<not> transient (fst (operation s))"
  shows "Retry ctx_err operation s = operation s"
  using assms unfolding Retry_def numeral_3_eq_3 Retry_loop_Suc by (cases "operation s") simp

lemma Mutate_replay:
  assumes "validateOwnershipMutation (normalized_input input) = None" and "is_transfer input"
    and "find (same_request (normalized_input input)) (db_requests db) = Some q"
  shows "Mutate hash arrange ctx_err input (db, []) =
    (if rq_Hash q \<noteq> ownershipRequestHash hash (normalized_input input) then (Inl (Domain ErrOwnershipConflict), db, [])
     else (Inr ((rq_Response q)\<lparr>or_Replayed := True\<rparr>), db, []))"
proof -
  have tr: "is_transfer (normalized_input input)" and role: "om_Operation input \<noteq> ''role''"
    using assms(2) by (auto simp: is_transfer_def)
  let ?op = "attempt (\<lambda>eid. mutateOnce hash arrange eid (normalized_input input))"
  have op: "?op (db, []) = (if rq_Hash q \<noteq> ownershipRequestHash hash (normalized_input input)
      then (Inl (Domain ErrOwnershipConflict), db, []) else (Inr ((rq_Response q)\<lparr>or_Replayed := True\<rparr>), db, []))"
    unfolding attempt_def transaction_def by (simp add: mutateOnce_replay [OF tr assms(3)])
  then have "\<not> transient (fst (?op (db, [])))" by (simp add: transient_def SQLState_def)
  then have "Retry ctx_err ?op (db, []) = ?op (db, [])" by (rule Retry_once)
  then show ?thesis
    using assms(1) role op unfolding Mutate_def normalized_input_def [symmetric] Let_def
    by (simp add: mapOwnershipError_def)
qed

text \<open>
  A transfer is idempotent. Once a transfer, with or without leaving, has succeeded, repeating the
  same request answers the same result, marked as replayed, and changes nothing, although its actor is no
  longer an owner or even a member; and reusing its key for another transfer is a conflict that changes
  nothing, provided the hash tells the requests apart.
\<close>

theorem transfer_idempotent:
  assumes "wf_db db" and "\<And>xs. set (arrange xs) = set xs" and "is_transfer input"
    and "Mutate hash arrange ctx_err input (db, env) = (Inr r, db', env')"
  shows "Mutate hash arrange ctx_err input (db', []) = (Inr (r\<lparr>or_Replayed := True\<rparr>), db', []) \<and>
    (\<forall>other. is_transfer other \<and> validateOwnershipMutation (normalized_input other) = None \<and>
       om_Scope other = om_Scope input \<and> om_IdempotencyKey other = om_IdempotencyKey input \<and>
       ownershipRequestHash hash (normalized_input other) \<noteq> ownershipRequestHash hash (normalized_input input) \<longrightarrow>
       Mutate hash arrange ctx_err other (db', []) = (Inl (Domain ErrOwnershipConflict), db', []))"
proof -
  have role: "om_Operation input \<noteq> ''role''" using assms(3) by (auto simp: is_transfer_def)
  obtain eid where v: "validateOwnershipMutation (normalized_input input) = None"
    and m: "mutateOnce hash arrange eid (normalized_input input) db = Inr (r, db')"
    using Mutate_cases [OF assms(4)] role by auto
  have tr: "is_transfer (normalized_input input)" using assms(3) by (simp add: is_transfer_def)
  obtain q where q: "find (same_request (normalized_input input)) (db_requests db') = Some q"
    "rq_Hash q = ownershipRequestHash hash (normalized_input input)"
    "(rq_Response q)\<lparr>or_Replayed := True\<rparr> = r\<lparr>or_Replayed := True\<rparr>"
    using mutateOnce_recorded [OF assms(1,2) v tr m] by blast
  show ?thesis
  proof (intro conjI allI impI; (elim conjE)?)
    show "Mutate hash arrange ctx_err input (db', []) = (Inr (r\<lparr>or_Replayed := True\<rparr>), db', [])"
      unfolding Mutate_replay [OF v assms(3) q(1)] q(2,3) by simp
    fix other
    assume other: "is_transfer other" "validateOwnershipMutation (normalized_input other) = None"
      "om_Scope other = om_Scope input" "om_IdempotencyKey other = om_IdempotencyKey input"
      "ownershipRequestHash hash (normalized_input other) \<noteq> ownershipRequestHash hash (normalized_input input)"
    have "same_request (normalized_input other) = same_request (normalized_input input)"
      using other(3,4) by (simp add: fun_eq_iff same_request_def normalized_input_def)
    then have "find (same_request (normalized_input other)) (db_requests db') = Some q" using q(1) by simp
    from Mutate_replay [OF other(2,1) this] show "Mutate hash arrange ctx_err other (db', []) =
        (Inl (Domain ErrOwnershipConflict), db', [])"
      using other(5) q(2) by simp
  qed
qed

theorem transfer_idempotent_witness:
  "case Mutate example_hash id (\<lambda>_. None) (example_mutation ''transfer-and-leave'' ''b'' ConversationMember) (example_db, []) of
     (r, db', _) \<Rightarrow> \<exists>result. r = Inr result \<and> \<not> or_Replayed result \<and>
       \<not> member_row db' ''dm'' ''c'' ''a'' \<and>
       Mutate example_hash id (\<lambda>_. None) (example_mutation ''transfer-and-leave'' ''b'' ConversationMember) (db', []) =
         (Inr (result\<lparr>or_Replayed := True\<rparr>), db', [])"
proof -
  let ?input = "example_mutation ''transfer-and-leave'' ''b'' ConversationMember"
  let ?result = "\<lparr>or_Replayed = False, or_TargetUserID = ''b'', or_Role = ConversationOwner, or_Left = True, or_EventID = ''''\<rparr>"
  define m where "m = Mutate example_hash id (\<lambda>_. None) ?input (example_db, [])"
  have "fst m = Inr ?result \<and> map pr_UserID (db_rows (fst (snd m))) = [''b'', ''d'']" unfolding m_def by code_simp
  moreover obtain r db' env' where m: "m = (r, db', env')" by (cases m)
  ultimately have r: "r = Inr ?result" and users: "map pr_UserID (db_rows db') = [''b'', ''d'']" by auto
  have "''a'' \<notin> set (map pr_UserID (db_rows db'))" unfolding users by simp
  then have "\<not> member_row db' ''dm'' ''c'' ''a''" unfolding member_row_def set_map by (metis imageI)
  moreover have eq: "Mutate example_hash id (\<lambda>_. None) ?input (example_db, []) = (Inr ?result, db', env')"
    unfolding m_def [symmetric] m r ..
  moreover have "is_transfer ?input" by (simp add: is_transfer_def example_mutation_def)
  then have "Mutate example_hash id (\<lambda>_. None) ?input (db', []) = (Inr (?result\<lparr>or_Replayed := True\<rparr>), db', [])"
    by (rule transfer_idempotent [OF example_db_wf _ _ eq, THEN conjunct1, rotated]) simp
  ultimately show ?thesis unfolding eq prod.case by (intro exI [of _ ?result]) (simp only: simp_thms OwnershipMutationResult.simps)
qed

section \<open>A departure does what was previewed\<close>

definition conversation_facts :: "odb \<Rightarrow> string \<Rightarrow> string \<Rightarrow> OwnershipParticipant list" where
  "conversation_facts db k c = map row_facts (filter (in_conversation k c) (db_rows db))"

lemma conversation_facts_distinct:
  assumes "wf_db db"
  shows "distinct (map op_UserID (conversation_facts db k c))"
proof -
  have "inj_on pr_UserID (set (filter (in_conversation k c) (db_rows db)))"
    using wf_db_unique [OF assms] unfolding inj_on_def by (auto simp: row_key_def in_conversation_def)
  moreover have "distinct (db_rows db)" using assms by (auto simp: wf_db_def distinct_map)
  ultimately have "distinct (map pr_UserID (filter (in_conversation k c) (db_rows db)))" by (simp add: distinct_map)
  moreover have "op_UserID \<circ> row_facts = pr_UserID" by (simp add: fun_eq_iff row_facts_def)
  ultimately show ?thesis by (simp add: conversation_facts_def)
qed

lemma others_facts: "others (conversation_facts db k c) u = map row_facts (rest_rows db k c u)"
  unfolding others_def conversation_facts_def rest_rows_def filter_map filter_filter
  by (intro arg_cong [where f = "map row_facts"] filter_cong) (auto simp: row_facts_def)

lemma last_owner_rows:
  "last_owner (conversation_facts db k c) u \<longleftrightarrow> owner_row db k c u \<and> \<not> (\<exists>v. v \<noteq> u \<and> owner_row db k c v)"
proof -
  have "(\<exists>p \<in> set (conversation_facts db k c). op_HasAccess p \<and> op_UserID p = u \<and> op_Role p = ConversationOwner) \<longleftrightarrow>
      owner_row db k c u"
    unfolding conversation_facts_def owner_row_def by (simp add: row_facts_def) blast
  moreover have "(\<forall>p \<in> set (others (conversation_facts db k c) u). op_Role p \<noteq> ConversationOwner) \<longleftrightarrow>
      \<not> (\<exists>v. v \<noteq> u \<and> owner_row db k c v)"
    unfolding others_facts rest_rows_def owner_row_def by (simp add: row_facts_def) blast
  ultimately show ?thesis unfolding last_owner_def by blast
qed

lemma orphaned_by_departure:
  assumes "owner_row db k c u"
  shows "orphan (delete_member k c u db) k c \<longleftrightarrow>
    last_owner (conversation_facts db k c) u \<and> others (conversation_facts db k c) u \<noteq> []"
proof -
  have "filter (\<lambda>p. pr_Role p = ConversationOwner) (rest_rows db k c u) = [] \<longleftrightarrow> \<not> (\<exists>v. v \<noteq> u \<and> owner_row db k c v)"
    unfolding rest_rows_def owner_row_def filter_empty_conv by (simp) blast
  then show ?thesis unfolding rest_rows_orphan last_owner_rows others_facts using assms by auto
qed

text \<open>
  Claim C16. An owner's departure does what the preview announced, although the preview is computed in
  the service and the succession by a query of the database: it is refused as a conflict exactly when
  the preview is blocked, it changes nothing when the preview names nobody, and otherwise it makes
  exactly the previewed successor an owner.
\<close>

theorem departure_as_previewed:
  assumes "wf_db db" and "db_enabled db" and "os_Kind scope \<noteq> ''''"
    and "p \<in> set (db_rows db)" and "pr_UserID p = u" and "pr_Role p = ConversationOwner"
    and "os_WorkspaceID scope = pr_WorkspaceID p" and "os_Kind scope = pr_Kind p" and "os_ConversationID scope = pr_ConversationID p"
  defines "preview \<equiv> PreviewOwnershipLeave (conversation_facts db (os_Kind scope) (os_ConversationID scope)) u"
  shows "succeedOwnership scope u db =
    (if lp_Blocked preview then Inl (Domain ErrOwnershipConflict)
     else if lp_SuccessorUserID preview = '''' then Inr db
     else assign_ownership (os_Kind scope) (os_ConversationID scope) (lp_SuccessorUserID preview) ConversationOwner
            (os_ActorID scope) ''succession'' db)"
proof -
  define k c where "k = pr_Kind p" and "c = pr_ConversationID p"
  let ?row = "departure_row db p u" and ?facts = "conversation_facts db k c"
  have sc: "\<lparr>sc_WorkspaceID = os_WorkspaceID scope, sc_Kind = os_Kind scope, sc_ConversationID = os_ConversationID scope\<rparr> = row_scope p"
    by (simp add: row_scope_def assms(7-9))
  have "owner_row db k c u" using assms(4-6) unfolding owner_row_def k_def c_def in_conversation_def by blast
  then have orph: "orphaned_by ?row \<longleftrightarrow> last_owner ?facts u \<and> others ?facts u \<noteq> []"
    unfolding departure_row_orphaned k_def [symmetric] c_def [symmetric] by (rule orphaned_by_departure)
  have cand: "sr_candidate ?row = SelectOwnershipSuccessor (others ?facts u)"
    unfolding departure_row_def Let_def others_facts by (simp add: sql_successor_eq k_def c_def)
  have scope: "sr_scope ?row = row_scope p" by (simp add: departure_row_def Let_def)
  have kind: "pr_Kind p \<noteq> ''''" using assms(3,8) by simp
  note sel = selectSuccessions_one [OF SuccessorsSQL_one [OF assms(1,2,4) kind]]
  have preview: "preview = (if last_owner ?facts u \<and> others ?facts u \<noteq> []
     then \<lparr>lp_LastOwner = True, lp_SuccessorUserID = SelectOwnershipSuccessor (others ?facts u),
           lp_Blocked = SelectOwnershipSuccessor (others ?facts u) = ''''\<rparr>
     else \<lparr>lp_LastOwner = last_owner ?facts u, lp_SuccessorUserID = '''', lp_Blocked = False\<rparr>)"
    unfolding preview_def assms(8,9) k_def c_def by (rule PreviewOwnershipLeave_eq [OF conversation_facts_distinct [OF assms(1)]])
  have exec: "ss_Exec ownershipSuccessionSession (row_scope p) v a ''succession'' db =
      assign_ownership (os_Kind scope) (os_ConversationID scope) v ConversationOwner a ''succession'' db" for v a
    by (simp add: ownershipSuccessionSession_def row_scope_def assms(8,9))
  have noP: "assign_ownership k' c' v r a re db = Inl e \<Longrightarrow> SQLState e \<noteq> ''P0953''" for k' c' v r a re e
    by (auto simp: assign_ownership_def SQLState_def split: option.splits if_splits)
  show ?thesis
    unfolding succeedOwnership_def sc Succeed_def succeed_def sel orph cand scope preview
    using noP by (auto simp: exec SQLState_def split: sum.split)
qed

theorem departure_as_previewed_witness:
  "let scope = \<lparr>os_WorkspaceID = ''w'', os_Kind = ''dm'', os_ConversationID = ''c'', os_ActorID = ''a''\<rparr> in
   lp_SuccessorUserID (PreviewOwnershipLeave (conversation_facts example_db ''dm'' ''c'') ''a'') = ''b'' \<and>
   succeedOwnership scope ''a'' example_db =
     assign_ownership ''dm'' ''c'' ''b'' ConversationOwner ''a'' ''succession'' example_db"
proof -
  let ?scope = "\<lparr>os_WorkspaceID = ''w'', os_Kind = ''dm'', os_ConversationID = ''c'', os_ActorID = ''a''\<rparr>"
  have pre: "PreviewOwnershipLeave (conversation_facts example_db ''dm'' ''c'') ''a'' =
      \<lparr>lp_LastOwner = True, lp_SuccessorUserID = ''b'', lp_Blocked = False\<rparr>" by code_simp
  have row: "example_row ''a'' ConversationOwner 1 \<in> set (db_rows example_db)" and en: "db_enabled example_db"
    by (simp_all add: example_db_def)
  have "succeedOwnership ?scope ''a'' example_db =
     assign_ownership ''dm'' ''c'' ''b'' ConversationOwner ''a'' ''succession'' example_db"
    using departure_as_previewed [OF example_db_wf en _ row, of ?scope "''a''"] by (simp add: example_row_def pre)
  then show ?thesis by (simp add: pre Let_def)
qed

end
