(* ===== verification/Ownership_Invalidation.thy ===== *)
theory Ownership_Invalidation
  imports Ownership_Safety
begin

text \<open>
  Invalidating an account touches every conversation it owns. The protocol against a
  \<open>Session\<close> is stated as an interface: what the callbacks must do for the package to keep
  every conversation owned. The database of \<open>Ownership_Store\<close> provides it.
\<close>

text \<open>
  A store with conversations, each with members and owners. The query reports, for exactly the
  conversations it covers, how many members and owners are left once a user has gone, and
  a successor among them; executing a change for a member succeeds, makes the successor an owner, and changes nobody else's standing.
\<close>

locale ownership_session =
  fixes session :: "'s Session"
    and good :: "'s \<Rightarrow> bool"
    and member :: "'s \<Rightarrow> Scope \<Rightarrow> string \<Rightarrow> bool"
    and owner :: "'s \<Rightarrow> Scope \<Rightarrow> string \<Rightarrow> bool"
    and covers :: "'s \<Rightarrow> Scope \<Rightarrow> string \<Rightarrow> bool \<Rightarrow> Scope \<Rightarrow> bool"
  assumes query: "good s \<Longrightarrow> \<exists>rows. ss_Query session s scope u invalidation = Inr (map Inr rows, None) \<and>
      (\<forall>c. covers s scope u invalidation c \<longleftrightarrow> (\<exists>row \<in> set rows. sr_scope row = c)) \<and>
      (\<forall>row \<in> set rows.
         (sr_members row = 0 \<longleftrightarrow> (\<forall>v. v \<noteq> u \<longrightarrow> \<not> member s (sr_scope row) v)) \<and>
         (sr_owners row = 0 \<longleftrightarrow> (\<forall>v. v \<noteq> u \<longrightarrow> \<not> owner s (sr_scope row) v)) \<and>
         (sr_candidate row \<noteq> '''' \<longrightarrow> sr_candidate row \<noteq> u \<and> member s (sr_scope row) (sr_candidate row)))"
    and exec: "good s \<Longrightarrow> member s c v \<Longrightarrow> \<exists>s'. ss_Exec session c v actor reason s = Inr s' \<and>
      good s' \<and> (\<forall>d w. owner s' d w \<longleftrightarrow> owner s d w \<or> d = c \<and> w = v) \<and> (\<forall>d w. member s' d w \<longleftrightarrow> member s d w)"
begin

lemma succeed_loop_owners:
  assumes "good s" and "\<forall>change \<in> set changes. member s (su_scope change) (su_candidate change)"
  shows "\<exists>s'. succeed_loop session actor reason changes s = (None, s') \<and> good s' \<and>
    (\<forall>d w. owner s' d w \<longleftrightarrow> owner s d w \<or> (\<exists>change \<in> set changes. d = su_scope change \<and> w = su_candidate change)) \<and>
    (\<forall>d w. member s' d w \<longleftrightarrow> member s d w)"
  using assms
proof (induction changes arbitrary: s)
  case (Cons change changes)
  have "member s (su_scope change) (su_candidate change)" using Cons.prems(2) by simp
  from exec [OF Cons.prems(1) this, of actor reason]
  obtain s1 where s1: "ss_Exec session (su_scope change) (su_candidate change) actor reason s = Inr s1" "good s1"
    "\<forall>d w. owner s1 d w \<longleftrightarrow> owner s d w \<or> d = su_scope change \<and> w = su_candidate change" "\<forall>d w. member s1 d w \<longleftrightarrow> member s d w"
    by blast
  have "\<forall>change \<in> set changes. member s1 (su_scope change) (su_candidate change)" using Cons.prems(2) s1(4) by simp
  from Cons.IH [OF s1(2) this] show ?case using s1(1,3,4) by auto
qed simp

text \<open>
  The protocol either finds no successor for some conversation and writes nothing, or makes one new owner for each conversation
  it covers that would have members and no owner once the user has gone; nobody is demoted or removed.
\<close>

lemma succeed_outcome:
  assumes "good s" and run: "succeed session scope u actor reason invalidation s = (err, s')"
  shows "(if err = None then \<forall>c. covers s scope u invalidation c \<longrightarrow>
        (\<exists>v. v \<noteq> u \<and> owner s' c v) \<or> (\<forall>v. v \<noteq> u \<longrightarrow> \<not> member s' c v)
      else err = Some ownershipConflict \<and> s' = s) \<and>
    (\<forall>c v. owner s c v \<longrightarrow> owner s' c v) \<and> (\<forall>c v. member s' c v \<longleftrightarrow> member s c v) \<and>
    (\<forall>c v. owner s' c v \<and> \<not> owner s c v \<longrightarrow> covers s scope u invalidation c \<and> (\<forall>w. w \<noteq> u \<longrightarrow> \<not> owner s c w))"
proof -
  obtain rows where q: "ss_Query session s scope u invalidation = Inr (map Inr rows, None)"
    and cov: "\<forall>c. covers s scope u invalidation c \<longleftrightarrow> (\<exists>row \<in> set rows. sr_scope row = c)"
    and laws: "\<forall>row \<in> set rows.
         (sr_members row = 0 \<longleftrightarrow> (\<forall>v. v \<noteq> u \<longrightarrow> \<not> member s (sr_scope row) v)) \<and>
         (sr_owners row = 0 \<longleftrightarrow> (\<forall>v. v \<noteq> u \<longrightarrow> \<not> owner s (sr_scope row) v)) \<and>
         (sr_candidate row \<noteq> '''' \<longrightarrow> sr_candidate row \<noteq> u \<and> member s (sr_scope row) (sr_candidate row))"
    using query [OF assms(1), of scope u invalidation] by blast
  note rows = bspec [OF laws]
  note left = rows [THEN conjunct1] and kept = rows [THEN conjunct2, THEN conjunct1] and heir = rows [THEN conjunct2, THEN conjunct2]
  have sel: "selectSuccessions session scope u invalidation s = selectSuccessions_loop (map Inr rows) []"
    by (simp add: selectSuccessions_def q bind_err_def split: sum.split)
  show ?thesis
  proof (cases "\<exists>row \<in> set rows. orphaned_by row \<and> sr_candidate row = ''''")
    case True
    then have "err = Some ownershipConflict" "s' = s" using run unfolding succeed_def sel selectSuccessions_loop_rows by simp_all
    then show ?thesis by simp
  next
    case none: False
    define changes where "changes = map (\<lambda>row. \<lparr>su_scope = sr_scope row, su_candidate = sr_candidate row\<rparr>) (filter orphaned_by rows)"
    have "member s (su_scope change) (su_candidate change)" if change: "change \<in> set changes" for change
    proof -
      obtain row where row: "row \<in> set rows" "orphaned_by row" "change = \<lparr>su_scope = sr_scope row, su_candidate = sr_candidate row\<rparr>"
        using change by (auto simp: changes_def)
      then show ?thesis using heir [OF row(1)] none by simp
    qed
    then have "\<forall>change \<in> set changes. member s (su_scope change) (su_candidate change)" by blast
    from succeed_loop_owners [OF assms(1) this, of actor reason]
    obtain s1 where s1: "succeed_loop session actor reason changes s = (None, s1)"
      "\<forall>d w. owner s1 d w \<longleftrightarrow> owner s d w \<or> (\<exists>change \<in> set changes. d = su_scope change \<and> w = su_candidate change)"
      "\<forall>d w. member s1 d w \<longleftrightarrow> member s d w" by blast
    have "selectSuccessions_loop (map Inr rows) [] = Inr changes" unfolding selectSuccessions_loop_rows changes_def using none by simp
    then have err: "err = None" and "s' = s1" using run s1(1) unfolding succeed_def sel by simp_all
    then have own: "\<And>d w. owner s' d w \<longleftrightarrow> owner s d w \<or> (\<exists>change \<in> set changes. d = su_scope change \<and> w = su_candidate change)"
      and mem: "\<And>d w. member s' d w \<longleftrightarrow> member s d w" using s1(2,3) by simp_all
    have "(\<exists>v. v \<noteq> u \<and> owner s' c v) \<or> (\<forall>v. v \<noteq> u \<longrightarrow> \<not> member s' c v)" if c: "covers s scope u invalidation c" for c
    proof -
      obtain row where row: "row \<in> set rows" "sr_scope row = c" using cov c by blast
      consider "sr_members row = 0" | "sr_owners row \<noteq> 0" | "orphaned_by row" by (auto simp: orphaned_by_def)
      then show ?thesis
      proof cases
        case 3
        then have "\<exists>change \<in> set changes. c = su_scope change \<and> sr_candidate row = su_candidate change"
          using row unfolding changes_def by (auto intro!: bexI [of _ row])
        then have "owner s' c (sr_candidate row)" unfolding own by blast
        moreover have "sr_candidate row \<noteq> u" using heir [OF row(1)] none 3 row(1) by blast
        ultimately show ?thesis by blast
      next
        case 1
        then have "\<forall>v. v \<noteq> u \<longrightarrow> \<not> member s c v" unfolding left [OF row(1)] row(2) .
        then show ?thesis unfolding mem by (rule disjI2)
      next
        case 2
        then have "\<not> (\<forall>v. v \<noteq> u \<longrightarrow> \<not> owner s c v)" unfolding kept [OF row(1)] row(2) .
        then obtain v where v: "v \<noteq> u" "owner s c v" by blast
        have "owner s' c v" unfolding own using v(2) by (rule disjI1)
        with v(1) show ?thesis by blast
      qed
    qed
    moreover have "covers s scope u invalidation c \<and> (\<forall>w. w \<noteq> u \<longrightarrow> \<not> owner s c w)" if "owner s' c v \<and> \<not> owner s c v" for c v
    proof -
      have "\<exists>change \<in> set changes. c = su_scope change" using that unfolding own by blast
      then obtain row where row: "row \<in> set rows" "orphaned_by row" "sr_scope row = c" by (auto simp: changes_def)
      then have "sr_owners row = 0" by (simp add: orphaned_by_def)
      then have "\<forall>w. w \<noteq> u \<longrightarrow> \<not> owner s c w" unfolding kept [OF row(1)] row(3) .
      then show ?thesis using cov row(1,3) by blast
    qed
    ultimately show ?thesis unfolding err if_P [OF refl] mem using own by blast
  qed
qed

end

section \<open>The database provides the interface\<close>

definition scope_member :: "odb \<Rightarrow> Scope \<Rightarrow> string \<Rightarrow> bool" where
  "scope_member db s v \<longleftrightarrow> (\<exists>p \<in> set (db_rows db). row_scope p = s \<and> pr_UserID p = v)"

definition scope_owner :: "odb \<Rightarrow> Scope \<Rightarrow> string \<Rightarrow> bool" where
  "scope_owner db s v \<longleftrightarrow> (\<exists>p \<in> set (db_rows db). row_scope p = s \<and> pr_UserID p = v \<and> pr_Role p = ConversationOwner)"

definition scope_covered :: "odb \<Rightarrow> Scope \<Rightarrow> string \<Rightarrow> bool \<Rightarrow> Scope \<Rightarrow> bool" where
  "scope_covered db scope u invalidation s \<longleftrightarrow> s \<in> set (affected db scope u invalidation)"

lemma row_scope_re_row [simp]: "row_scope (re_row k c u r p) = row_scope p"
  by (simp add: row_scope_def)

lemma SuccessorsSQL_rows:
  assumes "row \<in> set (SuccessorsSQL db scope u invalidation)"
  shows "(sr_members row = 0 \<longleftrightarrow> (\<forall>v. v \<noteq> u \<longrightarrow> \<not> scope_member db (sr_scope row) v)) \<and>
    (sr_owners row = 0 \<longleftrightarrow> (\<forall>v. v \<noteq> u \<longrightarrow> \<not> scope_owner db (sr_scope row) v)) \<and>
    (sr_candidate row \<noteq> '''' \<longrightarrow> sr_candidate row \<noteq> u \<and> scope_member db (sr_scope row) (sr_candidate row))"
proof -
  obtain s where row: "row = (let ps = remaining_rows db u s in \<lparr>sr_scope = s, sr_members = length ps,
      sr_owners = length (filter (\<lambda>p. pr_Role p = ''owner'') ps), sr_candidate = sql_successor ps\<rparr>)"
    using assms by (auto simp: SuccessorsSQL_def)
  have "remaining_rows db u s = [] \<longleftrightarrow> (\<forall>v. v \<noteq> u \<longrightarrow> \<not> scope_member db s v)"
    unfolding remaining_rows_def scope_member_def filter_empty_conv by blast
  moreover have "filter (\<lambda>p. pr_Role p = ''owner'') (remaining_rows db u s) = [] \<longleftrightarrow> (\<forall>v. v \<noteq> u \<longrightarrow> \<not> scope_owner db s v)"
    unfolding remaining_rows_def scope_owner_def filter_empty_conv set_filter by blast
  moreover have "sql_successor (remaining_rows db u s) \<noteq> u \<and> scope_member db s (sql_successor (remaining_rows db u s))"
    if "sql_successor (remaining_rows db u s) \<noteq> ''''"
    using sql_successor_member [OF that] by (auto simp: remaining_rows_def scope_member_def)
  ultimately show ?thesis unfolding row Let_def by simp
qed

lemma scope_rows_after_assign:
  assumes wf: "wf_db db" and "scope_member db s v"
    and a: "assign_ownership (sc_Kind s) (sc_ConversationID s) v ConversationOwner actor reason db = Inr db'"
  shows "wf_db db' \<and> (\<forall>d w. scope_owner db' d w \<longleftrightarrow> scope_owner db d w \<or> d = s \<and> w = v) \<and>
    (\<forall>d w. scope_member db' d w \<longleftrightarrow> scope_member db d w)"
proof -
  let ?f = "re_row (sc_Kind s) (sc_ConversationID s) v ConversationOwner"
  note rows = assign_ownership_rows(1) [OF wf a]
  have set: "set (db_rows db') = ?f ` set (db_rows db)" using rows by simp
  obtain p where p: "p \<in> set (db_rows db)" "row_scope p = s" "pr_UserID p = v" using assms(2) unfolding scope_member_def by blast
  have here: "row_scope q = s" if "q \<in> set (db_rows db)" "in_conversation (sc_Kind s) (sc_ConversationID s) q" for q
  proof -
    have same: "pr_Kind q = pr_Kind p" "pr_ConversationID q = pr_ConversationID p"
      using that(2) p(2) by (auto simp: row_scope_def in_conversation_def)
    then have "pr_WorkspaceID q = pr_WorkspaceID p" using wf that(1) p(1) unfolding wf_db_def by blast
    then show ?thesis using same p(2) by (simp add: row_scope_def)
  qed
  have "scope_owner db' d w \<longleftrightarrow> scope_owner db d w \<or> d = s \<and> w = v" for d w
  proof
    assume "scope_owner db' d w"
    then obtain q where q: "q \<in> set (db_rows db)" "row_scope q = d" "pr_UserID q = w" "pr_Role (?f q) = ConversationOwner"
      unfolding scope_owner_def set by auto
    show "scope_owner db d w \<or> d = s \<and> w = v"
    proof (cases "in_conversation (sc_Kind s) (sc_ConversationID s) q \<and> pr_UserID q = v")
      case True
      then show ?thesis using here [OF q(1)] q(2,3) by simp
    next
      case False
      then have "pr_Role q = ConversationOwner" using q(4) by (simp del: de_Morgan_conj)
      then show ?thesis using q unfolding scope_owner_def by blast
    qed
  next
    have "in_conversation (sc_Kind s) (sc_ConversationID s) p" using p by (auto simp: row_scope_def in_conversation_def)
    then have "scope_owner db' s v" unfolding scope_owner_def set using p by (intro bexI [of _ "?f p"]) simp_all
    moreover have "scope_owner db' d w" if o: "scope_owner db d w"
    proof -
      obtain q where q: "q \<in> set (db_rows db)" "row_scope q = d" "pr_UserID q = w" "pr_Role q = ConversationOwner"
        using o unfolding scope_owner_def by blast
      then show ?thesis unfolding scope_owner_def set by (intro bexI [of _ "?f q"]) simp_all
    qed
    moreover assume "scope_owner db d w \<or> d = s \<and> w = v"
    ultimately show "scope_owner db' d w" by blast
  qed
  moreover have "scope_member db' d w \<longleftrightarrow> scope_member db d w" for d w
    unfolding scope_member_def set by (simp only: bex_simps row_scope_re_row re_row_simps)
  ultimately show ?thesis using wf_db_rows_cong [OF wf rows] by blast
qed

lemma assign_ownership_member:
  assumes "scope_member db s v"
  shows "\<exists>db'. assign_ownership (sc_Kind s) (sc_ConversationID s) v r actor reason db = Inr db'"
proof -
  have "find (\<lambda>p. in_conversation (sc_Kind s) (sc_ConversationID s) p \<and> pr_UserID p = v) (db_rows db) \<noteq> None"
    using assms unfolding find_None_iff by (auto simp: scope_member_def row_scope_def in_conversation_def)
  then show ?thesis unfolding assign_ownership_def by (simp split: option.split)
qed

interpretation stored: ownership_session ownershipSuccessionSession wf_db scope_member scope_owner scope_covered
proof
  fix db scope u and invalidation :: bool
  have "ss_Query ownershipSuccessionSession db scope u invalidation =
      Inr (map Inr (SuccessorsSQL db scope u invalidation), None)"
    by (simp add: ownershipSuccessionSession_def)
  moreover have "scope_covered db scope u invalidation c \<longleftrightarrow> (\<exists>row \<in> set (SuccessorsSQL db scope u invalidation). sr_scope row = c)" for c
    by (auto simp: SuccessorsSQL_def scope_covered_def Let_def)
  ultimately show "\<exists>rows. ss_Query ownershipSuccessionSession db scope u invalidation = Inr (map Inr rows, None) \<and>
      (\<forall>c. scope_covered db scope u invalidation c \<longleftrightarrow> (\<exists>row \<in> set rows. sr_scope row = c)) \<and>
      (\<forall>row \<in> set rows.
         (sr_members row = 0 \<longleftrightarrow> (\<forall>v. v \<noteq> u \<longrightarrow> \<not> scope_member db (sr_scope row) v)) \<and>
         (sr_owners row = 0 \<longleftrightarrow> (\<forall>v. v \<noteq> u \<longrightarrow> \<not> scope_owner db (sr_scope row) v)) \<and>
         (sr_candidate row \<noteq> '''' \<longrightarrow> sr_candidate row \<noteq> u \<and> scope_member db (sr_scope row) (sr_candidate row)))"
    using SuccessorsSQL_rows by blast
next
  fix db s v actor reason
  assume wf: "wf_db db" and m: "scope_member db s v"
  obtain db' where "ss_Exec ownershipSuccessionSession s v actor reason db = Inr db'"
    using assign_ownership_member [OF m, of ConversationOwner actor reason] by (auto simp: ownershipSuccessionSession_def)
  then show "\<exists>db'. ss_Exec ownershipSuccessionSession s v actor reason db = Inr db' \<and> wf_db db' \<and>
      (\<forall>d w. scope_owner db' d w \<longleftrightarrow> scope_owner db d w \<or> d = s \<and> w = v) \<and> (\<forall>d w. scope_member db' d w \<longleftrightarrow> scope_member db d w)"
    using scope_rows_after_assign [OF wf m] by (auto simp: ownershipSuccessionSession_def)
qed

lemma invalidation_covers:
  assumes "wf_db db"
  shows "scope_covered db \<lparr>sc_WorkspaceID = ws, sc_Kind = '''', sc_ConversationID = ''''\<rparr> u True c \<longleftrightarrow>
    db_enabled db \<and> scope_owner db c u \<and> (ws = '''' \<or> sc_WorkspaceID c = ws)"
  unfolding scope_covered_def affected_def scope_owner_def by (auto simp: in_scope_def row_scope_def)



end
