(* ===== verification/Meeting.thy ===== *)
theory Meeting
  imports Conversation_Policy
begin

text \<open>
  Meetings, from \<open>services/chat-service/internal/domain\<close>: the aggregate and its lifecycle
  (\<open>meeting.go\<close>) and who may do what with it (\<open>meeting_policy.go\<close>). The UUID library is the
  argument \<open>parse\<close>, from a spelling to the canonical one; the embedded time zone database is the argument
  \<open>known\<close>; a fresh identifier is the argument \<open>mid\<close>.
\<close>

section \<open>The aggregate\<close>

abbreviation "MeetingStatusScheduled \<equiv> ''scheduled''"
abbreviation "MeetingStatusInProgress \<equiv> ''in_progress''"
abbreviation "MeetingStatusEnded \<equiv> ''ended''"
abbreviation "MeetingStatusCancelled \<equiv> ''cancelled''"
abbreviation "MeetingJoinInvitedOnly \<equiv> ''invited_only''"
abbreviation "MeetingJoinConversationMembers \<equiv> ''conversation_members''"
abbreviation "MeetingJoinWorkspaceLink \<equiv> ''workspace_members_with_link''"
abbreviation "MeetingRoleOrganizer \<equiv> ''organizer''"
abbreviation "MeetingRoleCohost \<equiv> ''cohost''"
abbreviation "MeetingRoleAttendee \<equiv> ''attendee''"
abbreviation "MeetingRSVPPending \<equiv> ''pending''"
abbreviation "MeetingRSVPAccepted \<equiv> ''accepted''"
abbreviation "MeetingRSVPDeclined \<equiv> ''declined''"
abbreviation "MeetingRSVPTentative \<equiv> ''tentative''"
abbreviation "MeetingConversationChannel \<equiv> ''channel''"
abbreviation "MeetingConversationDM \<equiv> ''dm''"

definition meetingTransitions :: "string \<Rightarrow> string list" where
  "meetingTransitions s =
     (if s = MeetingStatusScheduled then [MeetingStatusInProgress, MeetingStatusCancelled]
      else if s = MeetingStatusInProgress then [MeetingStatusEnded]
      else [])"

definition MeetingStatus_Valid :: "string \<Rightarrow> bool" where
  "MeetingStatus_Valid s \<longleftrightarrow>
     s \<in> {MeetingStatusScheduled, MeetingStatusInProgress, MeetingStatusEnded, MeetingStatusCancelled}"

definition MeetingStatus_Terminal :: "string \<Rightarrow> bool" where
  "MeetingStatus_Terminal s \<longleftrightarrow> s = MeetingStatusEnded \<or> s = MeetingStatusCancelled"

definition MeetingStatus_CanTransitionTo :: "string \<Rightarrow> string \<Rightarrow> bool" where
  "MeetingStatus_CanTransitionTo s next \<longleftrightarrow> next \<in> set (meetingTransitions s)"

definition MeetingJoinPolicy_Valid :: "string \<Rightarrow> bool" where
  "MeetingJoinPolicy_Valid p \<longleftrightarrow>
     p = MeetingJoinInvitedOnly \<or> p = MeetingJoinConversationMembers \<or> p = MeetingJoinWorkspaceLink"

definition orDefault :: "string \<Rightarrow> string" where
  "orDefault p = (if p = '''' then MeetingJoinInvitedOnly else p)"

definition MeetingRole_Valid :: "string \<Rightarrow> bool" where
  "MeetingRole_Valid r \<longleftrightarrow> r = MeetingRoleOrganizer \<or> r = MeetingRoleCohost \<or> r = MeetingRoleAttendee"

definition assignable :: "string \<Rightarrow> bool" where
  "assignable r \<longleftrightarrow> r = '''' \<or> r = MeetingRoleCohost \<or> r = MeetingRoleAttendee"

definition MeetingRSVP_Valid :: "string \<Rightarrow> bool" where
  "MeetingRSVP_Valid r \<longleftrightarrow>
     r \<in> {MeetingRSVPPending, MeetingRSVPAccepted, MeetingRSVPDeclined, MeetingRSVPTentative}"

record MeetingConversation =
  mc_Kind :: string
  mc_ID :: string

record MeetingDetails =
  md_Title :: string
  md_Description :: string
  md_StartsAt :: go_time
  md_EndsAt :: go_time
  md_Timezone :: string
  md_JoinPolicy :: string

record Meeting =
  mt_ID :: string
  mt_WorkspaceID :: string
  mt_Conversation :: "MeetingConversation option"
  mt_OrganizerUserID :: string
  mt_Details :: MeetingDetails
  mt_Status :: string
  mt_RoomKey :: string
  mt_Version :: int
  mt_CreatedAt :: go_time
  mt_UpdatedAt :: go_time

abbreviation mt_JoinPolicy :: "Meeting \<Rightarrow> string" where
  "mt_JoinPolicy m \<equiv> md_JoinPolicy (mt_Details m)"

record MeetingParticipant =
  mp_MeetingID :: string
  mp_UserID :: string
  mp_Role :: string
  mp_RSVP :: string
  mp_InvitedAt :: go_time
  mp_UpdatedAt :: go_time

abbreviation MaxMeetingTitleCodePoints :: nat where "MaxMeetingTitleCodePoints \<equiv> 120"
abbreviation MaxMeetingDescriptionCodePoints :: nat where "MaxMeetingDescriptionCodePoints \<equiv> 5000"
abbreviation maxMeetingTimezoneBytes :: nat where "maxMeetingTimezoneBytes \<equiv> 64"

section \<open>Normalising\<close>

definition canonicalMeetingConversation ::
  "(string \<Rightarrow> string option) \<Rightarrow> MeetingConversation option \<Rightarrow> domain_error + MeetingConversation option" where
  "canonicalMeetingConversation parse c =
     (case c of
        None \<Rightarrow> Inr None
      | Some conv \<Rightarrow>
          (case parse (mc_ID conv) of
             None \<Rightarrow> Inl ErrInvalidInput
           | Some cid \<Rightarrow>
               if mc_Kind conv \<noteq> MeetingConversationChannel \<and> mc_Kind conv \<noteq> MeetingConversationDM
               then Inl ErrInvalidInput
               else Inr (Some \<lparr>mc_Kind = mc_Kind conv, mc_ID = cid\<rparr>)))"

definition meetingTextValid :: "string \<Rightarrow> nat \<Rightarrow> bool \<Rightarrow> bool" where
  "meetingTextValid value maxRunes multiline =
     (if \<not> ValidString value \<or> RuneCountInString value > maxRunes then False
      else \<not> list_ex (\<lambda>(r, _). if multiline \<and> (r = 0x0A \<or> r = 0x0D \<or> r = 0x09) then False else IsControl r)
             (go_runes value))"

definition normalizeMeetingTitle :: "string \<Rightarrow> domain_error + string" where
  "normalizeMeetingTitle title0 =
     (let title = go_trim_space title0 in
      if title = '''' then Inl ErrMeetingTitleRequired
      else if \<not> meetingTextValid title MaxMeetingTitleCodePoints False then Inl ErrMeetingTitleInvalid
      else Inr title)"

text \<open>\<open>Time.Truncate\<close> to a microsecond.\<close>

definition truncate_us :: "go_time \<Rightarrow> go_time" where
  "truncate_us t = t - t mod 1000"

definition normalizeMeetingInterval :: "go_time \<Rightarrow> go_time \<Rightarrow> domain_error + go_time \<times> go_time" where
  "normalizeMeetingInterval startsAt endsAt =
     (let s = truncate_us startsAt; e = truncate_us endsAt in
      if IsZero s \<or> \<not> s < e then Inl ErrMeetingInvalidTimeRange else Inr (s, e))"

definition ValidateMeetingTimezone :: "(string \<Rightarrow> bool) \<Rightarrow> string \<Rightarrow> domain_error + string" where
  "ValidateMeetingTimezone known name0 =
     (let name = go_trim_space name0 in
      if name = '''' \<or> name = ''Local'' \<or> length name > maxMeetingTimezoneBytes then Inl ErrMeetingInvalidTimezone
      else if \<not> known name then Inl ErrMeetingInvalidTimezone
      else Inr name)"

definition normalizeMeetingDetails :: "(string \<Rightarrow> bool) \<Rightarrow> MeetingDetails \<Rightarrow> bool \<Rightarrow> domain_error + MeetingDetails" where
  "normalizeMeetingDetails known d hasConversation =
     bind_err (normalizeMeetingTitle (md_Title d)) (\<lambda>title.
     let description = go_trim_space (md_Description d) in
     if \<not> meetingTextValid description MaxMeetingDescriptionCodePoints True then Inl ErrMeetingDescriptionInvalid
     else bind_err (normalizeMeetingInterval (md_StartsAt d) (md_EndsAt d)) (\<lambda>(startsAt, endsAt).
     bind_err (ValidateMeetingTimezone known (md_Timezone d)) (\<lambda>timezone.
     let joinPolicy = orDefault (md_JoinPolicy d) in
     if \<not> MeetingJoinPolicy_Valid joinPolicy then Inl ErrMeetingInvalidJoinPolicy
     else if joinPolicy = MeetingJoinConversationMembers \<and> \<not> hasConversation then Inl ErrMeetingConversationRequired
     else Inr \<lparr>md_Title = title, md_Description = description, md_StartsAt = startsAt, md_EndsAt = endsAt,
               md_Timezone = timezone, md_JoinPolicy = joinPolicy\<rparr>)))"

section \<open>Operations\<close>

definition MeetingRoomKey :: "string \<Rightarrow> string" where
  "MeetingRoomKey meetingID = ''meeting:'' @ meetingID"

definition NewMeeting ::
  "(string \<Rightarrow> string option) \<Rightarrow> (string \<Rightarrow> bool) \<Rightarrow> string \<Rightarrow> string \<Rightarrow> string \<Rightarrow> MeetingConversation option \<Rightarrow>
   MeetingDetails \<Rightarrow> domain_error + Meeting" where
  "NewMeeting parse known mid workspaceID organizerUserID conversation details =
     (case (parse workspaceID, parse organizerUserID) of
        (Some workspace, Some organizer) \<Rightarrow>
          bind_err (canonicalMeetingConversation parse conversation) (\<lambda>conv.
          bind_err (normalizeMeetingDetails known details (conv \<noteq> None)) (\<lambda>normalized.
          Inr \<lparr>mt_ID = mid, mt_WorkspaceID = workspace, mt_Conversation = conv, mt_OrganizerUserID = organizer,
               mt_Details = normalized, mt_Status = MeetingStatusScheduled, mt_RoomKey = MeetingRoomKey mid,
               mt_Version = 1, mt_CreatedAt = time_zero, mt_UpdatedAt = time_zero\<rparr>))
      | _ \<Rightarrow> Inl ErrInvalidInput)"

definition Meeting_Update :: "(string \<Rightarrow> bool) \<Rightarrow> Meeting \<Rightarrow> MeetingDetails \<Rightarrow> int \<Rightarrow> domain_error + Meeting" where
  "Meeting_Update known m details expectedVersion =
     (if mt_Version m \<noteq> expectedVersion then Inl ErrMeetingStaleVersion
      else if MeetingStatus_Terminal (mt_Status m) then Inl ErrMeetingInvalidState
      else bind_err (normalizeMeetingDetails known details (mt_Conversation m \<noteq> None)) (\<lambda>normalized.
           Inr (m\<lparr>mt_Details := normalized\<rparr>)))"

definition Meeting_Transition :: "Meeting \<Rightarrow> string \<Rightarrow> int \<Rightarrow> domain_error + Meeting \<times> bool" where
  "Meeting_Transition m next expectedVersion =
     (if \<not> MeetingStatus_Valid next then Inl ErrInvalidInput
      else if mt_Status m = next then Inr (m, False)
      else if mt_Version m \<noteq> expectedVersion then Inl ErrMeetingStaleVersion
      else if \<not> MeetingStatus_CanTransitionTo (mt_Status m) next then Inl ErrMeetingInvalidState
      else Inr (m\<lparr>mt_Status := next\<rparr>, True))"

section \<open>The policy\<close>

datatype MeetingCapability =
    MeetingCapabilityCreate | MeetingCapabilityUpdate | MeetingCapabilityCancel
  | MeetingCapabilityManageParticipants | MeetingCapabilityJoin | MeetingCapabilityRSVP | MeetingCapabilityView

record MeetingActor =
  ma_UserID :: string
  ma_Membership :: "WorkspaceMember option"
  ma_Participant :: "MeetingParticipant option"
  ma_ConversationAccess :: bool

definition eligibleMeetingMember :: "Meeting \<Rightarrow> MeetingActor \<Rightarrow> bool" where
  "eligibleMeetingMember m a \<longleftrightarrow>
     ma_UserID a \<noteq> '''' \<and>
     (case ma_Membership a of
        None \<Rightarrow> False
      | Some wm \<Rightarrow> wm_UserID wm = ma_UserID a \<and> wm_WorkspaceID wm = mt_WorkspaceID m \<and>
                  eligibleConversationWorkspaceMember wm)"

definition meetingParticipant :: "Meeting \<Rightarrow> MeetingActor \<Rightarrow> MeetingParticipant option" where
  "meetingParticipant m a =
     (case ma_Participant a of
        None \<Rightarrow> None
      | Some p \<Rightarrow>
          if mp_MeetingID p \<noteq> mt_ID m \<or> mp_UserID p \<noteq> ma_UserID a \<or> \<not> MeetingRole_Valid (mp_Role p) \<or>
             (mp_Role p = MeetingRoleOrganizer) \<noteq> (ma_UserID a = mt_OrganizerUserID m)
          then None else Some p)"

definition isMeetingOrganizer :: "Meeting \<Rightarrow> MeetingActor \<Rightarrow> bool" where
  "isMeetingOrganizer m a =
     (case meetingParticipant m a of None \<Rightarrow> False | Some p \<Rightarrow> mp_Role p = MeetingRoleOrganizer)"

definition canSeeMeeting :: "Meeting \<Rightarrow> MeetingActor \<Rightarrow> bool" where
  "canSeeMeeting m a =
     (if \<not> eligibleMeetingMember m a then False
      else if meetingParticipant m a \<noteq> None then True
      else if mt_JoinPolicy m = MeetingJoinConversationMembers
        then mt_Conversation m \<noteq> None \<and> ma_ConversationAccess a
      else if mt_JoinPolicy m = MeetingJoinWorkspaceLink then CanReachPublicChannels (ma_Membership a)
      else False)"

definition meetingRoleAllows :: "MeetingParticipant option \<Rightarrow> MeetingCapability \<Rightarrow> bool" where
  "meetingRoleAllows p c =
     (let role = (case p of None \<Rightarrow> '''' | Some q \<Rightarrow> mp_Role q) in
      case c of
        MeetingCapabilityView \<Rightarrow> True
      | MeetingCapabilityJoin \<Rightarrow> True
      | MeetingCapabilityUpdate \<Rightarrow> role = MeetingRoleOrganizer \<or> role = MeetingRoleCohost
      | MeetingCapabilityManageParticipants \<Rightarrow> role = MeetingRoleOrganizer \<or> role = MeetingRoleCohost
      | MeetingCapabilityCancel \<Rightarrow> role = MeetingRoleOrganizer
      | MeetingCapabilityRSVP \<Rightarrow> role = MeetingRoleCohost \<or> role = MeetingRoleAttendee
      | MeetingCapabilityCreate \<Rightarrow> False)"

definition authorizeMeetingCreate :: "Meeting \<Rightarrow> MeetingActor \<Rightarrow> domain_error option" where
  "authorizeMeetingCreate m a =
     (if ma_UserID a \<noteq> mt_OrganizerUserID m \<or> \<not> eligibleMeetingMember m a \<or>
         \<not> CanReachPublicChannels (ma_Membership a) then Some ErrForbidden
      else if mt_Conversation m \<noteq> None \<and> \<not> ma_ConversationAccess a then Some ErrNotFound
      else None)"

definition AuthorizeMeeting :: "Meeting \<Rightarrow> MeetingActor \<Rightarrow> MeetingCapability \<Rightarrow> domain_error option" where
  "AuthorizeMeeting m a c =
     (if c = MeetingCapabilityCreate then authorizeMeetingCreate m a
      else if \<not> canSeeMeeting m a then Some ErrNotFound
      else if \<not> meetingRoleAllows (meetingParticipant m a) c then Some ErrForbidden
      else let needsOpen = c = MeetingCapabilityJoin \<or> c = MeetingCapabilityRSVP \<or> c = MeetingCapabilityManageParticipants in
           if needsOpen \<and> MeetingStatus_Terminal (mt_Status m) then Some ErrMeetingInvalidState else None)"

definition MeetingTransitionCapability :: "string \<Rightarrow> MeetingCapability" where
  "MeetingTransitionCapability next =
     (if next = MeetingStatusCancelled then MeetingCapabilityCancel else MeetingCapabilityUpdate)"

text \<open>Two checks in a row: the first refusal stands.\<close>

definition and_then :: "domain_error option \<Rightarrow> domain_error option \<Rightarrow> domain_error option" where
  "and_then first second = (case first of Some e \<Rightarrow> Some e | None \<Rightarrow> second)"

definition AuthorizeMeetingUpdate :: "Meeting \<Rightarrow> MeetingActor \<Rightarrow> string \<Rightarrow> domain_error option" where
  "AuthorizeMeetingUpdate m a joinPolicy =
     and_then (AuthorizeMeeting m a MeetingCapabilityUpdate)
       (if orDefault joinPolicy \<noteq> mt_JoinPolicy m \<and> \<not> isMeetingOrganizer m a then Some ErrForbidden else None)"

definition AuthorizeMeetingParticipantChange ::
  "Meeting \<Rightarrow> MeetingActor \<Rightarrow> MeetingParticipant option \<Rightarrow> string \<Rightarrow> domain_error option" where
  "AuthorizeMeetingParticipantChange m a target role =
     and_then (AuthorizeMeeting m a MeetingCapabilityManageParticipants)
       (if \<not> assignable role then Some ErrInvalidInput
        else if (case target of None \<Rightarrow> False | Some t \<Rightarrow> mp_Role t = MeetingRoleOrganizer) then Some ErrForbidden
        else let touchesCohost = role = MeetingRoleCohost \<or>
                   (case target of None \<Rightarrow> False | Some t \<Rightarrow> mp_Role t = MeetingRoleCohost) in
             if touchesCohost \<and> \<not> isMeetingOrganizer m a then Some ErrForbidden else None)"

definition AuthorizeMeetingParticipantBulk :: "Meeting \<Rightarrow> MeetingActor \<Rightarrow> domain_error option" where
  "AuthorizeMeetingParticipantBulk m actor =
     and_then (AuthorizeMeeting m actor MeetingCapabilityManageParticipants)
       (if mt_Conversation m = None then Some ErrInvalidInput
        else if \<not> ma_ConversationAccess actor then Some ErrForbidden
        else None)"

definition MeetingInviteeEligible :: "Meeting \<Rightarrow> MeetingActor \<Rightarrow> bool" where
  "MeetingInviteeEligible m invitee \<longleftrightarrow>
     eligibleMeetingMember m invitee \<and> CanReachPublicChannels (ma_Membership invitee) \<and>
     (mt_Conversation m = None \<or> ma_ConversationAccess invitee)"

section \<open>Normal forms\<close>

lemma truncate_us_idem [simp]: "truncate_us (truncate_us t) = truncate_us t"
  by (simp add: truncate_us_def mod_diff_eq)

lemma normalizeMeetingTitle_stable: "normalizeMeetingTitle t = Inr n \<Longrightarrow> normalizeMeetingTitle n = Inr n"
  by (auto simp: normalizeMeetingTitle_def Let_def split: if_splits)

lemma normalizeMeetingInterval_stable:
  "normalizeMeetingInterval s e = Inr (s', e') \<Longrightarrow> normalizeMeetingInterval s' e' = Inr (s', e')"
  by (auto simp: normalizeMeetingInterval_def Let_def split: if_splits)

lemma ValidateMeetingTimezone_stable:
  "ValidateMeetingTimezone known t = Inr n \<Longrightarrow> ValidateMeetingTimezone known n = Inr n"
  by (auto simp: ValidateMeetingTimezone_def Let_def split: if_splits)

lemma orDefault_idem [simp]: "orDefault (orDefault p) = orDefault p"
  by (simp add: orDefault_def)

lemma normalizeMeetingDetails_Inr:
  "normalizeMeetingDetails known d has = Inr n \<longleftrightarrow>
     normalizeMeetingTitle (md_Title d) = Inr (md_Title n) \<and>
     md_Description n = go_trim_space (md_Description d) \<and>
     meetingTextValid (md_Description n) MaxMeetingDescriptionCodePoints True \<and>
     normalizeMeetingInterval (md_StartsAt d) (md_EndsAt d) = Inr (md_StartsAt n, md_EndsAt n) \<and>
     ValidateMeetingTimezone known (md_Timezone d) = Inr (md_Timezone n) \<and>
     md_JoinPolicy n = orDefault (md_JoinPolicy d) \<and> MeetingJoinPolicy_Valid (md_JoinPolicy n) \<and>
     (md_JoinPolicy n = MeetingJoinConversationMembers \<longrightarrow> has)"
  by (cases n) (auto simp: normalizeMeetingDetails_def bind_err_Inr_iff Let_def split: if_splits)

lemma normalizeMeetingDetails_stable:
  assumes "normalizeMeetingDetails known d has = Inr n"
  shows "normalizeMeetingDetails known n has = Inr n"
proof -
  note n = assms [unfolded normalizeMeetingDetails_Inr]
  have "md_Description n = go_trim_space (md_Description n)" "md_JoinPolicy n = orDefault (md_JoinPolicy n)"
    using n by simp_all
  then show ?thesis
    unfolding normalizeMeetingDetails_Inr
    using n normalizeMeetingTitle_stable normalizeMeetingInterval_stable ValidateMeetingTimezone_stable by blast
qed

lemma truncate_us_mod: "truncate_us t mod 1000 = 0"
  by (simp add: truncate_us_def mod_diff_eq)

lemma normalized_interval:
  assumes "normalizeMeetingDetails known d has = Inr n"
  shows "md_StartsAt n < md_EndsAt n \<and> md_StartsAt n mod 1000 = 0 \<and> md_EndsAt n mod 1000 = 0"
proof -
  have "normalizeMeetingInterval (md_StartsAt d) (md_EndsAt d) = Inr (md_StartsAt n, md_EndsAt n)"
    using assms by (simp add: normalizeMeetingDetails_Inr)
  then show ?thesis
    using truncate_us_mod [of "md_StartsAt d"] truncate_us_mod [of "md_EndsAt d"]
    by (auto simp: normalizeMeetingInterval_def Let_def split: if_splits)
qed

section \<open>Who may see and change a meeting\<close>

lemma canSeeMeeting_eligible: "canSeeMeeting m a \<Longrightarrow> eligibleMeetingMember m a"
  by (simp add: canSeeMeeting_def split: if_splits)

lemma and_then_None [simp]: "and_then x y = None \<longleftrightarrow> x = None \<and> y = None"
  by (simp add: and_then_def split: option.split)

lemma AuthorizeMeeting_None:
  assumes "c \<noteq> MeetingCapabilityCreate"
  shows "AuthorizeMeeting m a c = None \<longleftrightarrow>
    canSeeMeeting m a \<and> meetingRoleAllows (meetingParticipant m a) c \<and>
    (c \<in> {MeetingCapabilityJoin, MeetingCapabilityRSVP, MeetingCapabilityManageParticipants} \<longrightarrow>
       \<not> MeetingStatus_Terminal (mt_Status m))"
  using assms by (simp add: AuthorizeMeeting_def Let_def)

lemma AuthorizeMeeting_NotFound:
  assumes "c \<noteq> MeetingCapabilityCreate"
  shows "AuthorizeMeeting m a c = Some ErrNotFound \<longleftrightarrow> \<not> canSeeMeeting m a"
  using assms by (simp add: AuthorizeMeeting_def Let_def)

text \<open>The actor is on the meeting's roster in one of the given roles, by a row that agrees with who organizes it.\<close>

definition holds :: "Meeting \<Rightarrow> MeetingActor \<Rightarrow> string set \<Rightarrow> bool" where
  "holds m a roles \<longleftrightarrow>
     (\<exists>p. ma_Participant a = Some p \<and> mp_MeetingID p = mt_ID m \<and> mp_UserID p = ma_UserID a \<and> mp_Role p \<in> roles \<and>
          (mp_Role p = MeetingRoleOrganizer \<longleftrightarrow> ma_UserID a = mt_OrganizerUserID m))"

lemma meetingRoleAllows_holds:
  "meetingRoleAllows (meetingParticipant m a) MeetingCapabilityUpdate \<longleftrightarrow> holds m a {MeetingRoleOrganizer, MeetingRoleCohost}"
  "meetingRoleAllows (meetingParticipant m a) MeetingCapabilityManageParticipants \<longleftrightarrow> holds m a {MeetingRoleOrganizer, MeetingRoleCohost}"
  "meetingRoleAllows (meetingParticipant m a) MeetingCapabilityCancel \<longleftrightarrow> holds m a {MeetingRoleOrganizer}"
  "meetingRoleAllows (meetingParticipant m a) MeetingCapabilityRSVP \<longleftrightarrow> holds m a {MeetingRoleCohost, MeetingRoleAttendee}"
  "isMeetingOrganizer m a \<longleftrightarrow> holds m a {MeetingRoleOrganizer}"
  by (auto simp: meetingRoleAllows_def isMeetingOrganizer_def holds_def meetingParticipant_def MeetingRole_Valid_def Let_def
      split: option.splits if_splits)

lemma meetingRoleAllows_anybody:
  "meetingRoleAllows p MeetingCapabilityView" "meetingRoleAllows p MeetingCapabilityJoin"
  by (simp_all add: meetingRoleAllows_def)

lemma AuthorizeMeetingParticipantChange_iff:
  "AuthorizeMeetingParticipantChange m a target role = None \<longleftrightarrow>
     AuthorizeMeeting m a MeetingCapabilityManageParticipants = None \<and> assignable role \<and>
     (\<forall>t. target = Some t \<longrightarrow> mp_Role t \<noteq> MeetingRoleOrganizer) \<and>
     (role = MeetingRoleCohost \<or> (\<exists>t. target = Some t \<and> mp_Role t = MeetingRoleCohost) \<longrightarrow> isMeetingOrganizer m a)"
  by (cases target) (auto simp: AuthorizeMeetingParticipantChange_def Let_def)


definition example_uuid :: "char \<Rightarrow> string" where
  "example_uuid c = ''00000000-0000-0000-0000-00000000000'' @ [c]"

abbreviation "example_ws \<equiv> example_uuid CHR ''a''"
abbreviation "example_organizer \<equiv> example_uuid CHR ''b''"
abbreviation "example_user \<equiv> example_uuid CHR ''c''"
abbreviation "example_id \<equiv> example_uuid CHR ''d''"
abbreviation "example_chan \<equiv> example_uuid CHR ''e''"

definition example_meeting :: Meeting where
  "example_meeting = \<lparr>mt_ID = example_id, mt_WorkspaceID = example_ws,
     mt_Conversation = Some \<lparr>mc_Kind = MeetingConversationChannel, mc_ID = example_chan\<rparr>, mt_OrganizerUserID = example_organizer,
     mt_Details = \<lparr>md_Title = ''T'', md_Description = '''', md_StartsAt = 1000, md_EndsAt = 2000, md_Timezone = ''UTC'',
       md_JoinPolicy = MeetingJoinInvitedOnly\<rparr>,
     mt_Status = MeetingStatusScheduled, mt_RoomKey = MeetingRoomKey example_id, mt_Version = 1, mt_CreatedAt = 1, mt_UpdatedAt = 1\<rparr>"

definition example_outsider :: MeetingActor where
  "example_outsider = \<lparr>ma_UserID = example_user,
     ma_Membership = Some \<lparr>wm_WorkspaceID = example_ws, wm_UserID = example_user, wm_Role = WorkspaceRoleMember, wm_Status = MemberStatusActive,
       wm_JoinedAt = time_zero\<rparr>,
     ma_Participant = None, ma_ConversationAccess = True\<rparr>"


end
