(* ===== verification/Meeting_Store.thy ===== *)
theory Meeting_Store
  imports Meeting
begin

text \<open>
  The meeting transactions of \<open>services/chat-service/internal/storage\<close>: \<open>meeting_store.go\<close>,
  \<open>meeting_patch.go\<close>, \<open>meeting_creation.go\<close> and \<open>meeting_bulk.go\<close>. An operation is a
  function on the tables it reads and writes; an error leaves them unchanged, which is what the
  rolled-back transaction does. The row locks are why an operation is one step. The UUID library is \<open>parse\<close>,
  the time zones are \<open>known\<close> and the database's clock is \<open>now\<close>.
\<close>

section \<open>Tables\<close>

record channel_row =
  cr_WorkspaceID :: string
  cr_Status :: string
  cr_Type :: string

record dm_row =
  dr_WorkspaceID :: string
  dr_Status :: string

record meeting_request_row =
  mr_WorkspaceID :: string
  mr_ActorID :: string
  mr_Key :: string
  mr_Hash :: string
  mr_MeetingID :: string

record mdb =
  db_workspaces :: "string \<Rightarrow> string option"
  db_channels :: "string \<Rightarrow> channel_row option"
  db_dms :: "string \<Rightarrow> dm_row option"
  db_workspace_members :: "string \<Rightarrow> string \<Rightarrow> (string \<times> string) option"
  db_accounts :: "string \<Rightarrow> bool option"
  db_channel_members :: "(string \<times> string) list"
  db_dm_members :: "(string \<times> string \<times> string) list"
  db_meetings :: "Meeting list"
  db_participants :: "MeetingParticipant list"
  db_creations :: "meeting_request_row list"

definition find_meeting :: "string \<Rightarrow> string \<Rightarrow> mdb \<Rightarrow> Meeting option" where
  "find_meeting mid ws db = find (\<lambda>m. mt_ID m = mid \<and> mt_WorkspaceID m = ws) (db_meetings db)"

definition find_participant :: "string \<Rightarrow> string \<Rightarrow> mdb \<Rightarrow> MeetingParticipant option" where
  "find_participant mid user db = find (\<lambda>p. mp_MeetingID p = mid \<and> mp_UserID p = user) (db_participants db)"

definition dm_status :: "string \<Rightarrow> string \<Rightarrow> mdb \<Rightarrow> string option" where
  "dm_status conv user db =
     (case find (\<lambda>(c, u, _). c = conv \<and> u = user) (db_dm_members db) of
        None \<Rightarrow> None | Some (_, _, status) \<Rightarrow> Some status)"

section \<open>Scopes\<close>

record MeetingScope =
  ms_WorkspaceID :: string
  ms_ActorID :: string
  ms_MeetingID :: string

abbreviation uuid_Nil :: string where "uuid_Nil \<equiv> ''00000000-0000-0000-0000-000000000000''"

definition canonical :: "(string \<Rightarrow> string option) \<Rightarrow> MeetingScope \<Rightarrow> domain_error + MeetingScope" where
  "canonical parse sc =
     (case (parse (ms_WorkspaceID sc), parse (ms_ActorID sc), parse (ms_MeetingID sc)) of
        (Some workspace, Some actor, Some meeting) \<Rightarrow>
          if workspace = uuid_Nil \<or> actor = uuid_Nil \<or> meeting = uuid_Nil then Inl ErrInvalidInput
          else Inr \<lparr>ms_WorkspaceID = workspace, ms_ActorID = actor, ms_MeetingID = meeting\<rparr>
      | _ \<Rightarrow> Inl ErrInvalidInput)"

section \<open>The facts of an actor\<close>

text \<open>The facts a write locks: \<open>meetingFacts\<close> per user and \<open>meetingAuthority\<close>.\<close>

record meetingFacts =
  mf_member :: "WorkspaceMember option"
  mf_account :: bool
  mf_listed :: bool
  mf_participant :: "MeetingParticipant option"

record meetingAuthority =
  au_meeting :: Meeting
  au_workspaceActive :: bool
  au_conversationOK :: bool
  au_public :: bool
  au_user :: "string \<Rightarrow> meetingFacts"

definition no_facts :: meetingFacts where
  "no_facts = \<lparr>mf_member = None, mf_account = False, mf_listed = False, mf_participant = None\<rparr>"

definition member_of :: "Meeting \<Rightarrow> string \<Rightarrow> mdb \<Rightarrow> WorkspaceMember option" where
  "member_of m user db =
     (case db_workspace_members db (mt_WorkspaceID m) user of
        None \<Rightarrow> None
      | Some (role, status) \<Rightarrow>
          Some \<lparr>wm_WorkspaceID = mt_WorkspaceID m, wm_UserID = user, wm_Role = role, wm_Status = status,
                wm_JoinedAt = time_zero\<rparr>)"

text \<open>\<open>queueConversation\<close>: the conversation row, active and in the workspace, and whether it is public.\<close>

definition queueConversation :: "Meeting \<Rightarrow> mdb \<Rightarrow> bool \<times> bool" where
  "queueConversation m db =
     (case mt_Conversation m of
        None \<Rightarrow> (False, False)
      | Some c \<Rightarrow>
          if mc_Kind c = MeetingConversationChannel
          then (case db_channels db (mc_ID c) of
                  None \<Rightarrow> (False, False)
                | Some ch \<Rightarrow> (cr_WorkspaceID ch = mt_WorkspaceID m \<and> cr_Status ch = ''active'', cr_Type ch = ''public''))
          else (case db_dms db (mc_ID c) of
                  None \<Rightarrow> (False, False)
                | Some d \<Rightarrow> (dr_WorkspaceID d = mt_WorkspaceID m \<and> dr_Status d = ''active'', False)))"

definition queuePlaces :: "Meeting \<Rightarrow> string \<Rightarrow> mdb \<Rightarrow> bool" where
  "queuePlaces m user db =
     (case mt_Conversation m of
        None \<Rightarrow> False
      | Some c \<Rightarrow>
          if mc_Kind c = MeetingConversationChannel then (mc_ID c, user) \<in> set (db_channel_members db)
          else dm_status (mc_ID c) user db = Some ''active'')"

definition lockMeetingAuthority :: "Meeting \<Rightarrow> string list \<Rightarrow> mdb \<Rightarrow> meetingAuthority" where
  "lockMeetingAuthority m ids db =
     (let (ok, public) = queueConversation m db in
      \<lparr>au_meeting = m,
       au_workspaceActive = db_workspaces db (mt_WorkspaceID m) = Some ''active'',
       au_conversationOK = ok, au_public = public,
       au_user = (\<lambda>user. if user \<notin> set ids then no_facts
         else \<lparr>mf_member = member_of m user db,
               mf_account = db_accounts db user = Some True,
               mf_listed = queuePlaces m user db,
               mf_participant = find_participant (mt_ID m) user db\<rparr>)\<rparr>)"

definition reaches :: "meetingAuthority \<Rightarrow> meetingFacts \<Rightarrow> bool" where
  "reaches a f =
     (case mt_Conversation (au_meeting a) of
        None \<Rightarrow> False
      | Some c \<Rightarrow>
          if mc_Kind c \<noteq> MeetingConversationChannel then mf_listed f
          else case mf_member f of
                 None \<Rightarrow> False
               | Some wm \<Rightarrow> wm_Status wm = MemberStatusActive \<and>
                   (mf_listed f \<or> au_public a \<and> wm_Role wm \<noteq> WorkspaceRoleGuest))"

definition authority_actor :: "meetingAuthority \<Rightarrow> string \<Rightarrow> MeetingActor" where
  "authority_actor a user =
     (let f = au_user a user in
      \<lparr>ma_UserID = user,
       ma_Membership = (if mf_member f \<noteq> None \<and> au_workspaceActive a \<and> mf_account f then mf_member f else None),
       ma_Participant = mf_participant f,
       ma_ConversationAccess = au_conversationOK a \<and> reaches a f\<rparr>)"

definition lockMeetingActors :: "Meeting \<Rightarrow> string \<Rightarrow> string \<Rightarrow> mdb \<Rightarrow> MeetingActor \<times> MeetingActor" where
  "lockMeetingActors m actorID targetID db =
     (let a = lockMeetingAuthority m (if targetID \<noteq> '''' then [actorID, targetID] else [actorID]) db in
      (authority_actor a actorID, authority_actor a targetID))"

text \<open>\<open>chat.channel_visible_to_user\<close> of migration 000022.\<close>

definition channel_visible_to_user :: "string \<Rightarrow> string \<Rightarrow> mdb \<Rightarrow> bool" where
  "channel_visible_to_user channel user db =
     (case db_channels db channel of
        None \<Rightarrow> False
      | Some ch \<Rightarrow>
          (case db_workspace_members db (cr_WorkspaceID ch) user of
             None \<Rightarrow> False
           | Some (role, status) \<Rightarrow> status = ''active'' \<and>
               ((channel, user) \<in> set (db_channel_members db) \<or>
                role \<in> {''owner'', ''admin'', ''moderator'', ''member''} \<and> cr_Type ch = ''public'')))"

definition loadMeetingActor :: "Meeting \<Rightarrow> string \<Rightarrow> mdb \<Rightarrow> MeetingActor" where
  "loadMeetingActor m user db =
     \<lparr>ma_UserID = user,
      ma_Membership = (if db_workspaces db (mt_WorkspaceID m) = Some ''active'' \<and> db_accounts db user = Some True
                       then member_of m user db else None),
      ma_Participant = find_participant (mt_ID m) user db,
      ma_ConversationAccess =
        (case mt_Conversation m of
           None \<Rightarrow> False
         | Some c \<Rightarrow>
             if mc_Kind c = ''channel''
             then (case db_channels db (mc_ID c) of
                     None \<Rightarrow> False
                   | Some ch \<Rightarrow> cr_WorkspaceID ch = mt_WorkspaceID m \<and> cr_Status ch = ''active'' \<and>
                       channel_visible_to_user (mc_ID c) user db)
             else if mc_Kind c = ''dm''
             then (case db_dms db (mc_ID c) of
                     None \<Rightarrow> False
                   | Some d \<Rightarrow> dr_WorkspaceID d = mt_WorkspaceID m \<and> dr_Status d = ''active'' \<and>
                       dm_status (mc_ID c) user db = Some ''active'')
             else False)\<rparr>"

section \<open>Reading and writing a meeting\<close>

text \<open>
  \<open>withMeeting\<close> for an operation that reads, and for one that holds its actor's facts. The body answers an
  error, or a result and the tables it wrote.
\<close>

definition withMeeting_read ::
  "(string \<Rightarrow> string option) \<Rightarrow> MeetingScope \<Rightarrow> (Meeting \<Rightarrow> MeetingActor \<Rightarrow> domain_error + 'a) \<Rightarrow> mdb \<Rightarrow>
   domain_error + 'a" where
  "withMeeting_read parse scope0 fn db =
     bind_err (canonical parse scope0) (\<lambda>scope.
     case find_meeting (ms_MeetingID scope) (ms_WorkspaceID scope) db of
       None \<Rightarrow> Inl ErrNotFound
     | Some m \<Rightarrow> fn m (loadMeetingActor m (ms_ActorID scope) db))"

definition withMeeting ::
  "(string \<Rightarrow> string option) \<Rightarrow> MeetingScope \<Rightarrow> string \<Rightarrow>
   (Meeting \<Rightarrow> MeetingActor \<Rightarrow> MeetingActor \<Rightarrow> mdb \<Rightarrow> domain_error + 'a \<times> mdb) \<Rightarrow> mdb \<Rightarrow> domain_error + 'a \<times> mdb" where
  "withMeeting parse scope0 target fn db =
     bind_err (canonical parse scope0) (\<lambda>scope.
     case find_meeting (ms_MeetingID scope) (ms_WorkspaceID scope) db of
       None \<Rightarrow> Inl ErrNotFound
     | Some m \<Rightarrow> let (actor, tgt) = lockMeetingActors m (ms_ActorID scope) target db in fn m actor tgt db)"

definition withParticipant ::
  "(string \<Rightarrow> string option) \<Rightarrow> MeetingScope \<Rightarrow> string \<Rightarrow>
   (Meeting \<Rightarrow> MeetingActor \<Rightarrow> MeetingActor \<Rightarrow> mdb \<Rightarrow> domain_error + 'a \<times> mdb) \<Rightarrow> mdb \<Rightarrow> domain_error + 'a \<times> mdb" where
  "withParticipant parse scope userID fn db =
     (case parse userID of None \<Rightarrow> Inl ErrInvalidInput | Some target \<Rightarrow> withMeeting parse scope target fn db)"

definition require_ok :: "domain_error option \<Rightarrow> domain_error + 'a \<Rightarrow> domain_error + 'a" where
  "require_ok check rest = (case check of Some e \<Rightarrow> Inl e | None \<Rightarrow> rest)"

definition GetMeeting ::
  "(string \<Rightarrow> string option) \<Rightarrow> MeetingScope \<Rightarrow> mdb \<Rightarrow> domain_error + Meeting \<times> MeetingParticipant list" where
  "GetMeeting parse scope db =
     withMeeting_read parse scope (\<lambda>m actor.
       require_ok (AuthorizeMeeting m actor MeetingCapabilityView)
         (Inr (m, sort_key (\<lambda>p. (mp_InvitedAt p, mp_UserID p)) (filter (\<lambda>p. mp_MeetingID p = mt_ID m) (db_participants db))))) db"

definition AuthorizeMeetingJoin :: "(string \<Rightarrow> string option) \<Rightarrow> MeetingScope \<Rightarrow> mdb \<Rightarrow> domain_error + Meeting" where
  "AuthorizeMeetingJoin parse scope db =
     withMeeting_read parse scope (\<lambda>m actor. require_ok (AuthorizeMeeting m actor MeetingCapabilityJoin) (Inr m)) db"

definition writeMeeting :: "go_time \<Rightarrow> Meeting \<Rightarrow> mdb \<Rightarrow> domain_error + Meeting \<times> mdb" where
  "writeMeeting now m db =
     (if list_ex (\<lambda>q. mt_ID q = mt_ID m \<and> mt_WorkspaceID q = mt_WorkspaceID m \<and> mt_Version q = mt_Version m) (db_meetings db)
      then let upd = (\<lambda>q. q\<lparr>mt_Details := mt_Details m, mt_Status := mt_Status m,
                             mt_Version := mt_Version q + 1, mt_UpdatedAt := now\<rparr>) in
           Inr (m\<lparr>mt_Version := mt_Version m + 1, mt_UpdatedAt := now\<rparr>,
                db\<lparr>db_meetings := map (\<lambda>q. if mt_ID q = mt_ID m \<and> mt_WorkspaceID q = mt_WorkspaceID m \<and>
                                              mt_Version q = mt_Version m then upd q else q) (db_meetings db)\<rparr>)
      else Inl ErrMeetingStaleVersion)"

record MeetingPatch =
  pt_Title :: "string option"
  pt_Description :: "string option"
  pt_StartsAt :: "go_time option"
  pt_EndsAt :: "go_time option"
  pt_Timezone :: "string option"
  pt_JoinPolicy :: "string option"

definition patch_details :: "MeetingPatch \<Rightarrow> MeetingDetails \<Rightarrow> MeetingDetails" where
  "patch_details p d =
     \<lparr>md_Title = (case pt_Title p of None \<Rightarrow> md_Title d | Some v \<Rightarrow> v),
      md_Description = (case pt_Description p of None \<Rightarrow> md_Description d | Some v \<Rightarrow> v),
      md_StartsAt = (case pt_StartsAt p of None \<Rightarrow> md_StartsAt d | Some v \<Rightarrow> v),
      md_EndsAt = (case pt_EndsAt p of None \<Rightarrow> md_EndsAt d | Some v \<Rightarrow> v),
      md_Timezone = (case pt_Timezone p of None \<Rightarrow> md_Timezone d | Some v \<Rightarrow> v),
      md_JoinPolicy = (case pt_JoinPolicy p of None \<Rightarrow> md_JoinPolicy d | Some v \<Rightarrow> v)\<rparr>"

definition PatchMeeting ::
  "(string \<Rightarrow> string option) \<Rightarrow> (string \<Rightarrow> bool) \<Rightarrow> go_time \<Rightarrow> MeetingScope \<Rightarrow> int \<Rightarrow> MeetingPatch \<Rightarrow> mdb \<Rightarrow>
   domain_error + Meeting \<times> mdb" where
  "PatchMeeting parse known now scope expectedVersion patch db =
     withMeeting parse scope '''' (\<lambda>m actor _ db.
       require_ok (AuthorizeMeeting m actor MeetingCapabilityUpdate)
         (if mt_Version m \<noteq> expectedVersion then Inl ErrMeetingStaleVersion
          else let details = patch_details patch (mt_Details m) in
               require_ok (AuthorizeMeetingUpdate m actor (md_JoinPolicy details))
                 (bind_err (Meeting_Update known m details expectedVersion) (\<lambda>next. writeMeeting now next db)))) db"

definition UpdateMeeting ::
  "(string \<Rightarrow> string option) \<Rightarrow> (string \<Rightarrow> bool) \<Rightarrow> go_time \<Rightarrow> MeetingScope \<Rightarrow> int \<Rightarrow> MeetingDetails \<Rightarrow> mdb \<Rightarrow>
   domain_error + Meeting \<times> mdb" where
  "UpdateMeeting parse known now scope expectedVersion d db =
     PatchMeeting parse known now scope expectedVersion
       \<lparr>pt_Title = Some (md_Title d), pt_Description = Some (md_Description d), pt_StartsAt = Some (md_StartsAt d),
        pt_EndsAt = Some (md_EndsAt d), pt_Timezone = Some (md_Timezone d), pt_JoinPolicy = Some (md_JoinPolicy d)\<rparr> db"

definition TransitionMeeting ::
  "(string \<Rightarrow> string option) \<Rightarrow> go_time \<Rightarrow> MeetingScope \<Rightarrow> int \<Rightarrow> string \<Rightarrow> mdb \<Rightarrow> domain_error + Meeting \<times> mdb" where
  "TransitionMeeting parse now scope expectedVersion next db =
     withMeeting parse scope '''' (\<lambda>m actor _ db.
       require_ok (AuthorizeMeeting m actor (MeetingTransitionCapability next))
         (bind_err (Meeting_Transition m next expectedVersion) (\<lambda>(moved, changed).
          if \<not> changed then Inr (moved, db) else writeMeeting now moved db))) db"

section \<open>The roster\<close>

definition new_participant :: "string \<Rightarrow> string \<Rightarrow> string \<Rightarrow> string \<Rightarrow> go_time \<Rightarrow> MeetingParticipant" where
  "new_participant mid user role rsvp now =
     \<lparr>mp_MeetingID = mid, mp_UserID = user, mp_Role = role, mp_RSVP = rsvp, mp_InvitedAt = now, mp_UpdatedAt = now\<rparr>"

definition AddMeetingParticipant ::
  "(string \<Rightarrow> string option) \<Rightarrow> go_time \<Rightarrow> MeetingScope \<Rightarrow> string \<Rightarrow> string \<Rightarrow> mdb \<Rightarrow>
   domain_error + MeetingParticipant \<times> mdb" where
  "AddMeetingParticipant parse now scope userID role db =
     (if role = '''' then Inl ErrInvalidInput
      else withParticipant parse scope userID (\<lambda>m actor target db.
        require_ok (AuthorizeMeetingParticipantChange m actor (ma_Participant target) role)
          (if ma_Participant target \<noteq> None then Inl ErrMeetingParticipantExists
           else if \<not> MeetingInviteeEligible m target then Inl ErrMeetingParticipantNotEligible
           else let p = new_participant (mt_ID m) (ma_UserID target) role MeetingRSVPPending now in
                Inr (p, db\<lparr>db_participants := db_participants db @ [p]\<rparr>))) db)"

definition update_participant ::
  "string \<Rightarrow> string \<Rightarrow> (MeetingParticipant \<Rightarrow> MeetingParticipant) \<Rightarrow> mdb \<Rightarrow> mdb" where
  "update_participant mid user f db =
     db\<lparr>db_participants := map (\<lambda>p. if mp_MeetingID p = mid \<and> mp_UserID p = user then f p else p) (db_participants db)\<rparr>"

definition ChangeMeetingParticipantRole ::
  "(string \<Rightarrow> string option) \<Rightarrow> go_time \<Rightarrow> MeetingScope \<Rightarrow> string \<Rightarrow> string \<Rightarrow> mdb \<Rightarrow>
   domain_error + MeetingParticipant \<times> mdb" where
  "ChangeMeetingParticipantRole parse now scope userID role db =
     (if role = '''' then Inl ErrInvalidInput
      else withParticipant parse scope userID (\<lambda>m actor target db.
        require_ok (AuthorizeMeetingParticipantChange m actor (ma_Participant target) role)
          (case ma_Participant target of
             None \<Rightarrow> Inl ErrNotFound
           | Some p \<Rightarrow>
               if mp_Role p = role then Inr (p, db)
               else let upd = (\<lambda>q. q\<lparr>mp_Role := role, mp_UpdatedAt := now\<rparr>) in
                    Inr (upd p, update_participant (mt_ID m) (ma_UserID target) upd db))) db)"

definition delete_participant :: "string \<Rightarrow> string \<Rightarrow> mdb \<Rightarrow> mdb" where
  "delete_participant mid user db =
     db\<lparr>db_participants := filter (\<lambda>p. \<not> (mp_MeetingID p = mid \<and> mp_UserID p = user)) (db_participants db)\<rparr>"

definition RemoveMeetingParticipant ::
  "(string \<Rightarrow> string option) \<Rightarrow> MeetingScope \<Rightarrow> string \<Rightarrow> mdb \<Rightarrow> domain_error + unit \<times> mdb" where
  "RemoveMeetingParticipant parse scope userID db =
     withParticipant parse scope userID (\<lambda>m actor target db.
       require_ok (AuthorizeMeetingParticipantChange m actor (ma_Participant target) '''')
         (if ma_Participant target = None then Inl ErrNotFound
          else Inr ((), delete_participant (mt_ID m) (ma_UserID target) db))) db"

definition SetMeetingRSVP ::
  "(string \<Rightarrow> string option) \<Rightarrow> go_time \<Rightarrow> MeetingScope \<Rightarrow> string \<Rightarrow> mdb \<Rightarrow> domain_error + MeetingParticipant \<times> mdb" where
  "SetMeetingRSVP parse now scope rsvp db =
     (if \<not> MeetingRSVP_Valid rsvp then Inl ErrInvalidInput
      else withMeeting parse scope '''' (\<lambda>m actor _ db.
        require_ok (AuthorizeMeeting m actor MeetingCapabilityRSVP)
          (let upd = (\<lambda>q. q\<lparr>mp_RSVP := rsvp, mp_UpdatedAt := now\<rparr>) in
           case find_participant (mt_ID m) (ma_UserID actor) db of
             None \<Rightarrow> Inl ErrDatabase
           | Some p \<Rightarrow> Inr (upd p, update_participant (mt_ID m) (ma_UserID actor) upd db))) db)"

section \<open>Creating\<close>

record MeetingInvitee =
  mi_UserID :: string
  mi_Role :: string

record MeetingCreation =
  mx_Meeting :: Meeting
  mx_Participants :: "MeetingInvitee list"
  mx_IdempotencyKey :: string
  mx_RequestHash :: string

definition insertMeeting :: "go_time \<Rightarrow> Meeting \<Rightarrow> mdb \<Rightarrow> domain_error + Meeting \<times> mdb" where
  "insertMeeting now m0 db =
     (let m = m0\<lparr>mt_CreatedAt := now, mt_UpdatedAt := now\<rparr> in
      if list_ex (\<lambda>q. mt_ID q = mt_ID m) (db_meetings db) then Inl ErrDatabase
      else Inr (m, db\<lparr>db_meetings := db_meetings db @ [m],
             db_participants := db_participants db @
               [new_participant (mt_ID m) (mt_OrganizerUserID m) MeetingRoleOrganizer MeetingRSVPAccepted now]\<rparr>))"

fun authorizeInitialMeetingParticipants ::
  "Meeting \<Rightarrow> MeetingActor \<Rightarrow> meetingAuthority \<Rightarrow> MeetingInvitee list \<Rightarrow> domain_error option" where
  "authorizeInitialMeetingParticipants m organizer authority [] = None"
| "authorizeInitialMeetingParticipants m organizer authority (p # ps) =
     (let org = organizer\<lparr>ma_Participant := Some \<lparr>mp_MeetingID = mt_ID m, mp_UserID = mt_OrganizerUserID m,
                mp_Role = MeetingRoleOrganizer, mp_RSVP = '''', mp_InvitedAt = time_zero, mp_UpdatedAt = time_zero\<rparr>\<rparr> in
      if mi_UserID p = mt_OrganizerUserID m \<or> mi_Role p = '''' then Some ErrInvalidInput
      else case AuthorizeMeetingParticipantChange m org None (mi_Role p) of
             Some e \<Rightarrow> Some e
           | None \<Rightarrow>
               if \<not> MeetingInviteeEligible m (authority_actor authority (mi_UserID p))
               then Some ErrMeetingParticipantNotEligible
               else authorizeInitialMeetingParticipants m organizer authority ps)"

definition authorizeMeetingCreation :: "MeetingCreation \<Rightarrow> mdb \<Rightarrow> domain_error option" where
  "authorizeMeetingCreation input db =
     (let m = mx_Meeting input;
          authority = lockMeetingAuthority m (mt_OrganizerUserID m # map mi_UserID (mx_Participants input)) db;
          organizer = authority_actor authority (mt_OrganizerUserID m) in
      and_then (AuthorizeMeeting m organizer MeetingCapabilityCreate)
        (authorizeInitialMeetingParticipants m organizer authority (mx_Participants input)))"

text \<open>
  A claim of the key: the claimed row, or the meeting to replay. A second row for a participant violates the primary key.
\<close>

definition claimMeetingCreation :: "MeetingCreation \<Rightarrow> mdb \<Rightarrow> domain_error + (string option \<times> mdb)" where
  "claimMeetingCreation input db =
     (let m = mx_Meeting input in
      case find (\<lambda>q. mr_WorkspaceID q = mt_WorkspaceID m \<and> mr_ActorID q = mt_OrganizerUserID m \<and>
                     mr_Key q = mx_IdempotencyKey input) (db_creations db) of
        None \<Rightarrow> Inr (None, db\<lparr>db_creations := db_creations db @
          [\<lparr>mr_WorkspaceID = mt_WorkspaceID m, mr_ActorID = mt_OrganizerUserID m, mr_Key = mx_IdempotencyKey input,
            mr_Hash = mx_RequestHash input, mr_MeetingID = mt_ID m\<rparr>]\<rparr>)
      | Some q \<Rightarrow>
          if mr_Hash q \<noteq> mx_RequestHash input then Inl ErrIdempotencyKeyReused
          else Inr (Some (mr_MeetingID q), db))"

definition replayMeetingCreation :: "Meeting \<Rightarrow> string \<Rightarrow> mdb \<Rightarrow> domain_error + Meeting" where
  "replayMeetingCreation intent mid db =
     (case find_meeting mid (mt_WorkspaceID intent) db of
        None \<Rightarrow> Inl ErrNotFound
      | Some m \<Rightarrow>
          let (actor, _) = lockMeetingActors m (mt_OrganizerUserID intent) '''' db in
          require_ok (AuthorizeMeeting m actor MeetingCapabilityView) (Inr m))"

fun insert_invitees :: "go_time \<Rightarrow> Meeting \<Rightarrow> MeetingInvitee list \<Rightarrow> mdb \<Rightarrow> domain_error + mdb" where
  "insert_invitees now m [] db = Inr db"
| "insert_invitees now m (p # ps) db =
     (if find_participant (mt_ID m) (mi_UserID p) db \<noteq> None then Inl ErrDatabase
      else insert_invitees now m ps
             (db\<lparr>db_participants := db_participants db @
                [new_participant (mt_ID m) (mi_UserID p) (mi_Role p) MeetingRSVPPending now]\<rparr>))"

definition createMeetingInTx :: "go_time \<Rightarrow> MeetingCreation \<Rightarrow> mdb \<Rightarrow> domain_error + (Meeting \<times> bool) \<times> mdb" where
  "createMeetingInTx now input db0 =
     bind_err (if mx_IdempotencyKey input \<noteq> '''' then claimMeetingCreation input db0 else Inr (None, db0)) (\<lambda>(claimed, db).
     case claimed of
       Some mid \<Rightarrow> bind_err (replayMeetingCreation (mx_Meeting input) mid db) (\<lambda>m. Inr ((m, True), db))
     | None \<Rightarrow>
         require_ok (authorizeMeetingCreation input db)
           (bind_err (insertMeeting now (mx_Meeting input) db) (\<lambda>(m, db').
            bind_err (insert_invitees now m (mx_Participants input) db') (\<lambda>db''.
            Inr ((m, False), db'')))))"

definition CreateMeetingWithParticipants :: "go_time \<Rightarrow> MeetingCreation \<Rightarrow> mdb \<Rightarrow> domain_error + (Meeting \<times> bool) \<times> mdb" where
  "CreateMeetingWithParticipants now input db =
     (if mx_IdempotencyKey input = '''' then Inl ErrInvalidInput else createMeetingInTx now input db)"

definition CreateMeeting :: "go_time \<Rightarrow> Meeting \<Rightarrow> mdb \<Rightarrow> domain_error + (Meeting \<times> bool) \<times> mdb" where
  "CreateMeeting now m db =
     createMeetingInTx now \<lparr>mx_Meeting = m, mx_Participants = [], mx_IdempotencyKey = '''', mx_RequestHash = ''''\<rparr> db"

section \<open>Inviting everybody\<close>

abbreviation MaxMeetingBulkMembers :: nat where "MaxMeetingBulkMembers \<equiv> 500"

text \<open>
  The cursor is the empty string on the first page; \<open>matches\<close> is the prefix search over the display
  and full names, which is true of everybody for an empty search. Canonical UUIDs order as their spellings do.
\<close>

definition queryMeetingCandidates :: "Meeting \<Rightarrow> string \<Rightarrow> string \<Rightarrow> (string \<Rightarrow> bool) \<Rightarrow> nat \<Rightarrow> mdb \<Rightarrow> string list" where
  "queryMeetingCandidates m exclude after matches limit db =
     (case mt_Conversation m of
        None \<Rightarrow> []
      | Some c \<Rightarrow>
          let members = (if mc_Kind c = ''channel'' then map snd (filter (\<lambda>(ch, _). ch = mc_ID c) (db_channel_members db))
                         else if mc_Kind c = ''dm''
                         then map (\<lambda>(_, u, _). u) (filter (\<lambda>(d, _, s). d = mc_ID c \<and> s = ''active'') (db_dm_members db))
                         else []) in
          take (limit + 1) (sort (filter (\<lambda>u.
            (case db_workspace_members db (mt_WorkspaceID m) u of
               None \<Rightarrow> False
             | Some (role, status) \<Rightarrow> status = ''active'' \<and> role \<in> {''owner'', ''admin'', ''moderator'', ''member''}) \<and>
            db_accounts db u = Some True \<and> u \<noteq> exclude \<and> (after = '''' \<or> after < u) \<and> matches u) members)))"

definition resolveMeetingBulk :: "Meeting \<Rightarrow> string \<Rightarrow> mdb \<Rightarrow> domain_error + string list" where
  "resolveMeetingBulk m actorID db =
     require_ok (AuthorizeMeetingParticipantBulk m (loadMeetingActor m actorID db))
       (let items = queryMeetingCandidates m (mt_OrganizerUserID m) '''' (\<lambda>_. True) MaxMeetingBulkMembers db in
        if length items > MaxMeetingBulkMembers then Inl ErrInvalidInput else Inr items)"

definition eligibleMeetingBulkIDs :: "Meeting \<Rightarrow> meetingAuthority \<Rightarrow> string list \<Rightarrow> string list" where
  "eligibleMeetingBulkIDs m authority ids =
     filter (\<lambda>u. mf_listed (au_user authority u) \<and> MeetingInviteeEligible m (authority_actor authority u)) ids"

fun insert_attendees :: "go_time \<Rightarrow> string \<Rightarrow> string list \<Rightarrow> nat \<Rightarrow> mdb \<Rightarrow> nat \<times> mdb" where
  "insert_attendees now mid [] n db = (n, db)"
| "insert_attendees now mid (u # us) n db =
     (if find_participant mid u db \<noteq> None then insert_attendees now mid us n db
      else insert_attendees now mid us (n + 1)
             (db\<lparr>db_participants := db_participants db @ [new_participant mid u MeetingRoleAttendee MeetingRSVPPending now]\<rparr>))"

definition InviteAllMeetingParticipants ::
  "(string \<Rightarrow> string option) \<Rightarrow> go_time \<Rightarrow> MeetingScope \<Rightarrow> mdb \<Rightarrow> domain_error + nat \<times> mdb" where
  "InviteAllMeetingParticipants parse now scope0 db =
     bind_err (canonical parse scope0) (\<lambda>scope.
     case find_meeting (ms_MeetingID scope) (ms_WorkspaceID scope) db of
       None \<Rightarrow> Inl ErrNotFound
     | Some m \<Rightarrow>
         bind_err (resolveMeetingBulk m (ms_ActorID scope) db) (\<lambda>ids.
         let authority = lockMeetingAuthority m (ids @ [ms_ActorID scope]) db;
             actor = authority_actor authority (ms_ActorID scope) in
         require_ok (AuthorizeMeetingParticipantBulk m actor)
           (Inr (insert_attendees now (mt_ID m) (eligibleMeetingBulkIDs m authority ids) 0 db))))"

end
