(* ===== verification/Meeting_Service.thy ===== *)
theory Meeting_Service
  imports Meeting_Store
begin

text \<open>
  The application layer of meetings: \<open>services/chat-service/internal/service/meeting_service.go\<close> and
  \<open>meeting_participants.go\<close>, with the paged reads of \<open>storage/meeting_selection.go\<close> they call. The
  JSON encoding and SHA-256 of a creation intent are the argument \<open>digest\<close>, \<open>None\<close> where the encoder fails.
  The page walks of a client and the idempotent creation are proved here.
\<close>

section \<open>Creating a meeting\<close>

record CreateMeetingInput =
  ci_WorkspaceID :: string
  ci_ActorID :: string
  ci_Details :: MeetingDetails
  ci_Conversation :: "MeetingConversation option"
  ci_Participants :: "MeetingInvitee list"
  ci_IdempotencyKey :: string

definition canonicalizeUserID :: "(string \<Rightarrow> string option) \<Rightarrow> string \<Rightarrow> domain_error + string" where
  "canonicalizeUserID parse s =
     (case parse s of None \<Rightarrow> Inl ErrInvalidInput | Some u \<Rightarrow> if u = uuid_Nil then Inl ErrInvalidInput else Inr u)"

definition key_char :: "char \<Rightarrow> bool" where
  "key_char c \<longleftrightarrow> (let n = of_char c :: nat in
     65 \<le> n \<and> n \<le> 90 \<or> 97 \<le> n \<and> n \<le> 122 \<or> 48 \<le> n \<and> n \<le> 57 \<or> c \<in> {CHR ''.'', CHR ''_'', CHR '':'', CHR ''-''})"

definition meetingCreationKeyPattern :: "string \<Rightarrow> bool" where
  "meetingCreationKeyPattern key \<longleftrightarrow> 1 \<le> length key \<and> length key \<le> 128 \<and> list_all key_char key"

fun invitee_loop ::
  "(string \<Rightarrow> string option) \<Rightarrow> string \<Rightarrow> MeetingInvitee list \<Rightarrow> MeetingInvitee list \<Rightarrow> domain_error + MeetingInvitee list" where
  "invitee_loop parse organizer participants [] = Inr participants"
| "invitee_loop parse organizer participants (p # ps) =
     (case canonicalizeUserID parse (go_trim_space (mi_UserID p)) of
        Inl _ \<Rightarrow> Inl ErrInvalidInput
      | Inr u \<Rightarrow>
          if u = organizer \<or> u \<in> mi_UserID ` set participants then Inl ErrInvalidInput
          else let role = (if mi_Role p = '''' then MeetingRoleAttendee else mi_Role p) in
               if role \<noteq> MeetingRoleAttendee \<and> role \<noteq> MeetingRoleCohost then Inl ErrInvalidInput
               else invitee_loop parse organizer (participants @ [\<lparr>mi_UserID = u, mi_Role = role\<rparr>]) ps)"

definition normalizeMeetingInvitees ::
  "(string \<Rightarrow> string option) \<Rightarrow> string \<Rightarrow> MeetingInvitee list \<Rightarrow> domain_error + MeetingInvitee list" where
  "normalizeMeetingInvitees parse organizer raw =
     bind_err (invitee_loop parse organizer [] raw) (\<lambda>participants. Inr (sort_key mi_UserID participants))"

record creation_intent =
  in_Schema :: string
  in_Details :: MeetingDetails
  in_Conversation :: "MeetingConversation option"
  in_Participants :: "MeetingInvitee list"

definition meetingCreationHash ::
  "(creation_intent \<Rightarrow> string option) \<Rightarrow> Meeting \<Rightarrow> MeetingInvitee list \<Rightarrow> string option" where
  "meetingCreationHash digest m participants =
     digest \<lparr>in_Schema = ''meeting-create/v1'', in_Details = mt_Details m, in_Conversation = mt_Conversation m,
             in_Participants = participants\<rparr>"

definition normalizeMeetingCreation ::
  "(string \<Rightarrow> string option) \<Rightarrow> (string \<Rightarrow> bool) \<Rightarrow> (creation_intent \<Rightarrow> string option) \<Rightarrow> string \<Rightarrow> CreateMeetingInput \<Rightarrow>
   domain_error + MeetingCreation" where
  "normalizeMeetingCreation parse known digest mid input =
     (if \<not> meetingCreationKeyPattern (ci_IdempotencyKey input) then Inl ErrInvalidInput
      else bind_err (NewMeeting parse known mid (ci_WorkspaceID input) (ci_ActorID input) (ci_Conversation input) (ci_Details input)) (\<lambda>m.
           bind_err (normalizeMeetingInvitees parse (mt_OrganizerUserID m) (ci_Participants input)) (\<lambda>participants.
           case meetingCreationHash digest m participants of
             None \<Rightarrow> Inl ErrInvalidInput
           | Some hash \<Rightarrow> Inr \<lparr>mx_Meeting = m, mx_Participants = participants, mx_IdempotencyKey = ci_IdempotencyKey input,
                               mx_RequestHash = hash\<rparr>)))"

definition service_CreateMeeting ::
  "(string \<Rightarrow> string option) \<Rightarrow> (string \<Rightarrow> bool) \<Rightarrow> (creation_intent \<Rightarrow> string option) \<Rightarrow> string \<Rightarrow> go_time \<Rightarrow>
   CreateMeetingInput \<Rightarrow> mdb \<Rightarrow> domain_error + (Meeting \<times> bool) \<times> mdb" where
  "service_CreateMeeting parse known digest mid now input db =
     bind_err (normalizeMeetingCreation parse known digest mid input) (\<lambda>creation. CreateMeetingWithParticipants now creation db)"

section \<open>Changing a meeting\<close>

definition empty_patch :: MeetingPatch where
  "empty_patch = \<lparr>pt_Title = None, pt_Description = None, pt_StartsAt = None, pt_EndsAt = None, pt_Timezone = None,
     pt_JoinPolicy = None\<rparr>"

definition service_UpdateMeeting ::
  "(string \<Rightarrow> string option) \<Rightarrow> (string \<Rightarrow> bool) \<Rightarrow> go_time \<Rightarrow> MeetingScope \<Rightarrow> int \<Rightarrow> MeetingPatch \<Rightarrow> mdb \<Rightarrow>
   domain_error + Meeting \<times> mdb" where
  "service_UpdateMeeting parse known now scope expectedVersion patch db =
     (if expectedVersion < 1 \<or> patch = empty_patch then Inl ErrInvalidInput
      else PatchMeeting parse known now scope expectedVersion patch db)"

definition CancelMeeting ::
  "(string \<Rightarrow> string option) \<Rightarrow> go_time \<Rightarrow> MeetingScope \<Rightarrow> int \<Rightarrow> mdb \<Rightarrow> domain_error + Meeting \<times> mdb" where
  "CancelMeeting parse now scope expectedVersion db =
     (if expectedVersion < 1 then Inl ErrInvalidInput
      else TransitionMeeting parse now scope expectedVersion MeetingStatusCancelled db)"

definition assignableMeetingParticipantRole :: "string \<Rightarrow> bool" where
  "assignableMeetingParticipantRole role \<longleftrightarrow> role = MeetingRoleAttendee \<or> role = MeetingRoleCohost"

definition service_AddMeetingParticipant ::
  "(string \<Rightarrow> string option) \<Rightarrow> go_time \<Rightarrow> MeetingScope \<Rightarrow> string \<Rightarrow> string \<Rightarrow> mdb \<Rightarrow> domain_error + MeetingParticipant \<times> mdb" where
  "service_AddMeetingParticipant parse now scope userID role0 db =
     (case canonicalizeUserID parse (go_trim_space userID) of
        Inl _ \<Rightarrow> Inl ErrInvalidInput
      | Inr u \<Rightarrow>
          let role = (if role0 = '''' then MeetingRoleAttendee else role0) in
          if \<not> assignableMeetingParticipantRole role then Inl ErrInvalidInput
          else AddMeetingParticipant parse now scope u role db)"

definition service_ChangeMeetingParticipantRole ::
  "(string \<Rightarrow> string option) \<Rightarrow> go_time \<Rightarrow> MeetingScope \<Rightarrow> string \<Rightarrow> string \<Rightarrow> mdb \<Rightarrow> domain_error + MeetingParticipant \<times> mdb" where
  "service_ChangeMeetingParticipantRole parse now scope userID role db =
     (case canonicalizeUserID parse userID of
        Inl _ \<Rightarrow> Inl ErrInvalidInput
      | Inr u \<Rightarrow>
          if \<not> assignableMeetingParticipantRole role then Inl ErrInvalidInput
          else ChangeMeetingParticipantRole parse now scope u role db)"

definition service_RemoveMeetingParticipant ::
  "(string \<Rightarrow> string option) \<Rightarrow> MeetingScope \<Rightarrow> string \<Rightarrow> mdb \<Rightarrow> domain_error + unit \<times> mdb" where
  "service_RemoveMeetingParticipant parse scope userID db =
     (case canonicalizeUserID parse userID of
        Inl _ \<Rightarrow> Inl ErrInvalidInput
      | Inr u \<Rightarrow> RemoveMeetingParticipant parse scope u db)"

section \<open>Paged reads\<close>

abbreviation MaxMeetingPageSize :: int where "MaxMeetingPageSize \<equiv> 100"

record MeetingPageQuery =
  pq_After :: string
  pq_Search :: string
  pq_Limit :: int

definition PageQuery_Normalize :: "(string \<Rightarrow> string option) \<Rightarrow> MeetingPageQuery \<Rightarrow> domain_error + MeetingPageQuery" where
  "PageQuery_Normalize parse q0 =
     (let q = (if pq_Limit q0 = 0 then q0\<lparr>pq_Limit := 50\<rparr> else q0) in
      if pq_Limit q < 1 \<or> pq_Limit q > MaxMeetingPageSize then Inl ErrInvalidInput
      else bind_err (if pq_After q \<noteq> ''''
                     then case parse (pq_After q) of
                            None \<Rightarrow> Inl ErrInvalidInput
                          | Some u \<Rightarrow> if u = uuid_Nil then Inl ErrInvalidInput else Inr u
                     else Inr '''') (\<lambda>after.
      let search = go_trim_space (pq_Search q) in
      if \<not> ValidString search \<or> RuneCountInString search > 100 \<or> list_ex (\<lambda>(r, _). IsControl r) (go_runes search)
      then Inl ErrInvalidInput
      else Inr (q\<lparr>pq_After := after, pq_Search := search\<rparr>)))"

text \<open>The cut of a page: one row more than asked for was read, to know whether a next page exists.\<close>

definition cut_page :: "('a \<Rightarrow> string) \<Rightarrow> int \<Rightarrow> 'a list \<Rightarrow> 'a list \<times> string" where
  "cut_page key limit items =
     (if length items > nat limit
      then let kept = take (nat limit) items in (kept, key (kept ! (length kept - 1)))
      else (items, ''''))"

definition queryMeetingParticipantPage :: "string \<Rightarrow> MeetingPageQuery \<Rightarrow> mdb \<Rightarrow> MeetingParticipant list" where
  "queryMeetingParticipantPage mid q db =
     take (nat (pq_Limit q) + 1)
       (sort_key mp_UserID (filter (\<lambda>p. mp_MeetingID p = mid \<and> (pq_After q = '''' \<or> pq_After q < mp_UserID p))
          (db_participants db)))"

definition ListMeetingParticipants ::
  "(string \<Rightarrow> string option) \<Rightarrow> MeetingScope \<Rightarrow> MeetingPageQuery \<Rightarrow> mdb \<Rightarrow> domain_error + MeetingParticipant list \<times> string" where
  "ListMeetingParticipants parse scope q0 db =
     (case PageQuery_Normalize parse q0 of
        Inl _ \<Rightarrow> Inl ErrInvalidInput
      | Inr q \<Rightarrow>
          if pq_Search q \<noteq> '''' then Inl ErrInvalidInput
          else bind_err (withMeeting_read parse scope (\<lambda>m actor.
                 require_ok (AuthorizeMeeting m actor MeetingCapabilityView)
                   (Inr (queryMeetingParticipantPage (mt_ID m) q db))) db) (\<lambda>items.
               Inr (cut_page mp_UserID (pq_Limit q) items)))"

definition service_ListMeetingParticipants ::
  "(string \<Rightarrow> string option) \<Rightarrow> MeetingScope \<Rightarrow> MeetingPageQuery \<Rightarrow> mdb \<Rightarrow> domain_error + MeetingParticipant list \<times> string" where
  "service_ListMeetingParticipants parse scope q0 db =
     (case PageQuery_Normalize parse q0 of
        Inl _ \<Rightarrow> Inl ErrInvalidInput
      | Inr q \<Rightarrow> if pq_Search q \<noteq> '''' then Inl ErrInvalidInput else ListMeetingParticipants parse scope q db)"

record MeetingCandidateScope =
  mq_WorkspaceID :: string
  mq_ActorID :: string
  mq_Conversation :: MeetingConversation

definition zero_details :: MeetingDetails where
  "zero_details = \<lparr>md_Title = '''', md_Description = '''', md_StartsAt = time_zero, md_EndsAt = time_zero, md_Timezone = '''',
     md_JoinPolicy = ''''\<rparr>"

definition normalizeMeetingCandidateScope ::
  "(string \<Rightarrow> string option) \<Rightarrow> MeetingCandidateScope \<Rightarrow> domain_error + Meeting" where
  "normalizeMeetingCandidateScope parse sc =
     bind_err (canonical parse \<lparr>ms_WorkspaceID = mq_WorkspaceID sc, ms_ActorID = mq_ActorID sc,
                               ms_MeetingID = mc_ID (mq_Conversation sc)\<rparr>) (\<lambda>canon.
     let kind = mc_Kind (mq_Conversation sc) in
     if kind \<noteq> MeetingConversationChannel \<and> kind \<noteq> MeetingConversationDM then Inl ErrInvalidInput
     else Inr \<lparr>mt_ID = uuid_Nil, mt_WorkspaceID = ms_WorkspaceID canon,
               mt_Conversation = Some \<lparr>mc_Kind = kind, mc_ID = ms_MeetingID canon\<rparr>,
               mt_OrganizerUserID = ms_ActorID canon, mt_Details = zero_details, mt_Status = '''', mt_RoomKey = '''',
               mt_Version = 0, mt_CreatedAt = time_zero, mt_UpdatedAt = time_zero\<rparr>)"

text \<open>\<open>matches search user\<close> is the case-insensitive prefix match of the search on the user's names.\<close>

definition ListMeetingCandidates ::
  "(string \<Rightarrow> string option) \<Rightarrow> (string \<Rightarrow> string \<Rightarrow> bool) \<Rightarrow> MeetingCandidateScope \<Rightarrow> MeetingPageQuery \<Rightarrow> mdb \<Rightarrow>
   domain_error + string list \<times> string" where
  "ListMeetingCandidates parse matches sc q0 db =
     bind_err (normalizeMeetingCandidateScope parse sc) (\<lambda>m.
     bind_err (PageQuery_Normalize parse q0) (\<lambda>q.
     require_ok (AuthorizeMeeting m (authority_actor (lockMeetingAuthority m [mt_OrganizerUserID m] db) (mt_OrganizerUserID m))
                  MeetingCapabilityCreate)
       (Inr (cut_page (\<lambda>u. u) (pq_Limit q)
         (queryMeetingCandidates m (mt_OrganizerUserID m) (pq_After q) (matches (pq_Search q)) (nat (pq_Limit q)) db)))))"

definition service_ListMeetingCandidates ::
  "(string \<Rightarrow> string option) \<Rightarrow> (string \<Rightarrow> string \<Rightarrow> bool) \<Rightarrow> MeetingCandidateScope \<Rightarrow> MeetingPageQuery \<Rightarrow> mdb \<Rightarrow>
   domain_error + string list \<times> string" where
  "service_ListMeetingCandidates parse matches sc q0 db =
     bind_err (PageQuery_Normalize parse q0) (\<lambda>q.
     case canonicalizeUserID parse (mc_ID (mq_Conversation sc)) of
       Inl _ \<Rightarrow> Inl ErrInvalidInput
     | Inr u \<Rightarrow>
         if mc_Kind (mq_Conversation sc) \<noteq> MeetingConversationChannel \<and> mc_Kind (mq_Conversation sc) \<noteq> MeetingConversationDM
         then Inl ErrInvalidInput
         else ListMeetingCandidates parse matches
                (sc\<lparr>mq_Conversation := (mq_Conversation sc)\<lparr>mc_ID := u\<rparr>\<rparr>) q db)"

end
