(* ===== verification/Meeting_Safety.thy ===== *)
theory Meeting_Safety
  imports Meeting_Service
begin

text \<open>
  The properties of the meeting transactions: the facts that are read and the facts that are locked decide
  alike, an invisible meeting is indistinguishable from none, and the invariant of meetings and
  rosters under every sequence of requests.
\<close>

section \<open>Reading and locking agree\<close>

definition wf_memberships :: "mdb \<Rightarrow> bool" where
  "wf_memberships db \<longleftrightarrow> (\<forall>ws u role status. db_workspace_members db ws u = Some (role, status) \<longrightarrow>
     role \<in> {WorkspaceRoleOwner, WorkspaceRoleAdmin, WorkspaceRoleModerator, WorkspaceRoleMember, WorkspaceRoleGuest})"

definition wf_conversation :: "Meeting \<Rightarrow> bool" where
  "wf_conversation m \<longleftrightarrow> (\<forall>c. mt_Conversation m = Some c \<longrightarrow>
     mc_Kind c = MeetingConversationChannel \<or> mc_Kind c = MeetingConversationDM)"

lemma wf_conversation_code [code]:
  "wf_conversation m = (case mt_Conversation m of None \<Rightarrow> True
     | Some c \<Rightarrow> mc_Kind c = MeetingConversationChannel \<or> mc_Kind c = MeetingConversationDM)"
  by (simp add: wf_conversation_def split: option.split)

lemma role_not_guest:
  assumes "wf_memberships db" and "db_workspace_members db ws u = Some (role, status)"
  shows "role \<noteq> WorkspaceRoleGuest \<longleftrightarrow> role \<in> {''owner'', ''admin'', ''moderator'', ''member''}"
  using assms unfolding wf_memberships_def by fastforce

lemma conversation_access_agrees:
  assumes "wf_memberships db" and "wf_conversation m" and "u \<in> set ids"
  shows "ma_ConversationAccess (authority_actor (lockMeetingAuthority m ids db) u) \<longleftrightarrow>
    ma_ConversationAccess (loadMeetingActor m u db)"
proof (cases "mt_Conversation m")
  case None
  then show ?thesis
    by (simp add: authority_actor_def lockMeetingAuthority_def loadMeetingActor_def queueConversation_def Let_def)
next
  case (Some c)
  consider "mc_Kind c = MeetingConversationChannel" | "mc_Kind c = MeetingConversationDM"
    using assms(2) Some by (auto simp: wf_conversation_def)
  then show ?thesis
  proof cases
    case 1
    show ?thesis
    proof (cases "db_channels db (mc_ID c)")
      case None
      then show ?thesis using Some 1
        by (simp add: authority_actor_def lockMeetingAuthority_def loadMeetingActor_def queueConversation_def Let_def)
    next
      case ch: (Some ch)
      show ?thesis
      proof (cases "cr_WorkspaceID ch = mt_WorkspaceID m")
        case ws: True
        show ?thesis
        proof (cases "db_workspace_members db (mt_WorkspaceID m) u")
          case None
          then show ?thesis using Some 1 ch ws assms(3)
            by (simp add: authority_actor_def lockMeetingAuthority_def loadMeetingActor_def queueConversation_def
                reaches_def member_of_def channel_visible_to_user_def Let_def)
        next
          case mem: (Some rs)
          obtain role status where rs: "rs = (role, status)" by (cases rs)
          note guest = role_not_guest [OF assms(1) mem [unfolded rs]]
          show ?thesis using Some 1 ch ws mem rs assms(3)
            by (simp add: authority_actor_def lockMeetingAuthority_def loadMeetingActor_def queueConversation_def
                reaches_def member_of_def channel_visible_to_user_def queuePlaces_def Let_def guest) argo
        qed
      qed (use Some 1 ch in \<open>simp add: authority_actor_def lockMeetingAuthority_def loadMeetingActor_def
            queueConversation_def Let_def\<close>)
    qed
  next
    case 2
    then show ?thesis using Some assms(3)
      by (simp add: authority_actor_def lockMeetingAuthority_def loadMeetingActor_def queueConversation_def
          reaches_def queuePlaces_def Let_def split: option.split)
  qed
qed

text \<open>
  The facts a write locks row by row and the facts a read collects in one statement are the same for every
  user they are asked about, as long as the database holds known roles and kinds; so a request is
  decided alike whichever of the two paths it takes.
\<close>

theorem actor_facts_agree:
  assumes "wf_memberships db" and "wf_conversation m" and "u \<in> set ids"
  shows "authority_actor (lockMeetingAuthority m ids db) u = loadMeetingActor m u db"
proof (rule MeetingActor.equality)
  show "ma_ConversationAccess (authority_actor (lockMeetingAuthority m ids db) u) = ma_ConversationAccess (loadMeetingActor m u db)"
    by (rule conversation_access_agrees [OF assms])
qed (use assms(3) in \<open>auto simp: authority_actor_def lockMeetingAuthority_def loadMeetingActor_def Let_def split: prod.splits\<close>)

definition example_mdb :: mdb where
  "example_mdb = \<lparr>db_workspaces = (\<lambda>w. if w = example_ws then Some ''active'' else None),
     db_channels = (\<lambda>c. if c = example_chan then Some \<lparr>cr_WorkspaceID = example_ws, cr_Status = ''active'', cr_Type = ''public''\<rparr> else None),
     db_dms = (\<lambda>_. None),
     db_workspace_members = (\<lambda>w u. if w = example_ws \<and> u \<in> {example_organizer, example_user} then Some (''member'', ''active'') else None),
     db_accounts = (\<lambda>u. if u \<in> {example_organizer, example_user} then Some True else None),
     db_channel_members = [(example_chan, example_organizer)], db_dm_members = [], db_meetings = [example_meeting],
     db_participants = [new_participant example_id example_organizer MeetingRoleOrganizer MeetingRSVPAccepted 1], db_creations = []\<rparr>"

lemma example_mdb_wf: "wf_memberships example_mdb" "wf_conversation example_meeting"
  by (simp_all add: wf_memberships_def wf_conversation_def example_mdb_def example_meeting_def)

theorem actor_facts_agree_witness:
  "authority_actor (lockMeetingAuthority example_meeting [example_user] example_mdb) example_user = loadMeetingActor example_meeting example_user example_mdb \<and>
   ma_ConversationAccess (loadMeetingActor example_meeting example_user example_mdb)"
proof -
  have "ma_ConversationAccess (loadMeetingActor example_meeting example_user example_mdb)"
    by (simp add: loadMeetingActor_def example_meeting_def example_mdb_def channel_visible_to_user_def example_uuid_def)
  with actor_facts_agree [OF example_mdb_wf, of example_user "[example_user]"] show ?thesis by simp
qed

section \<open>An invisible meeting is no meeting\<close>

definition invisible :: "MeetingScope \<Rightarrow> mdb \<Rightarrow> bool" where
  "invisible sc db =
     (case find_meeting (ms_MeetingID sc) (ms_WorkspaceID sc) db of
        None \<Rightarrow> True
      | Some m \<Rightarrow> wf_conversation m \<and> \<not> canSeeMeeting m (loadMeetingActor m (ms_ActorID sc) db))"

lemma lockMeetingActors_actor:
  assumes "wf_memberships db" and "wf_conversation m"
  shows "fst (lockMeetingActors m u t db) = loadMeetingActor m u db"
  using actor_facts_agree [OF assms, of u] by (simp add: lockMeetingActors_def Let_def)

lemma withMeeting_invisible:
  assumes "wf_memberships db" and "canonical parse scope = Inr sc" and "invisible sc db"
    and "\<And>m a tgt. \<not> canSeeMeeting m a \<Longrightarrow> fn m a tgt db = Inl ErrNotFound"
  shows "withMeeting parse scope t fn db = Inl ErrNotFound"
proof (cases "find_meeting (ms_MeetingID sc) (ms_WorkspaceID sc) db")
  case None
  then show ?thesis using assms(2) by (simp add: withMeeting_def)
next
  case (Some m)
  then have m: "wf_conversation m" "\<not> canSeeMeeting m (loadMeetingActor m (ms_ActorID sc) db)"
    using assms(3) by (simp_all add: invisible_def)
  obtain a tgt where at: "lockMeetingActors m (ms_ActorID sc) t db = (a, tgt)" by (cases "lockMeetingActors m (ms_ActorID sc) t db")
  then have "a = loadMeetingActor m (ms_ActorID sc) db" using lockMeetingActors_actor [OF assms(1) m(1)] by (metis fst_conv)
  then show ?thesis using assms(2,4) Some m(2) at by (simp add: withMeeting_def)
qed

lemma withMeeting_read_invisible:
  assumes "canonical parse scope = Inr sc" and "invisible sc db"
    and "\<And>m a. \<not> canSeeMeeting m a \<Longrightarrow> fn m a = Inl ErrNotFound"
  shows "withMeeting_read parse scope fn db = Inl ErrNotFound"
  using assms by (auto simp: withMeeting_read_def invisible_def split: option.splits)

lemma hidden:
  assumes "\<not> canSeeMeeting m a"
  shows "c \<noteq> MeetingCapabilityCreate \<Longrightarrow> AuthorizeMeeting m a c = Some ErrNotFound"
    and "AuthorizeMeetingUpdate m a policy = Some ErrNotFound"
    and "AuthorizeMeetingParticipantChange m a target role = Some ErrNotFound"
    and "AuthorizeMeetingParticipantBulk m a = Some ErrNotFound"
proof -
  have no: "AuthorizeMeeting m a c = Some ErrNotFound" if "c \<noteq> MeetingCapabilityCreate" for c
    using AuthorizeMeeting_NotFound [OF that] assms by blast
  show "c \<noteq> MeetingCapabilityCreate \<Longrightarrow> AuthorizeMeeting m a c = Some ErrNotFound" by (rule no)
  have "AuthorizeMeeting m a MeetingCapabilityUpdate = Some ErrNotFound"
    "AuthorizeMeeting m a MeetingCapabilityManageParticipants = Some ErrNotFound" by (rule no; simp)+
  then show "AuthorizeMeetingUpdate m a policy = Some ErrNotFound"
    and "AuthorizeMeetingParticipantChange m a target role = Some ErrNotFound"
    and "AuthorizeMeetingParticipantBulk m a = Some ErrNotFound"
    by (simp_all add: AuthorizeMeetingUpdate_def AuthorizeMeetingParticipantChange_def
        AuthorizeMeetingParticipantBulk_def and_then_def)
qed

text \<open>
  Claim C29. A meeting the actor may not see, in their workspace or another, is answered by every operation that names a
  meeting, once its other arguments are well formed, exactly like a meeting that does not exist: not found, with nothing written and, of
  the roster, nothing listed.
\<close>

theorem invisible_meeting_not_found:
  assumes "wf_memberships db" and "canonical parse scope = Inr sc" and "invisible sc db" and "parse user = Some target"
  shows "GetMeeting parse scope db = Inl ErrNotFound \<and> AuthorizeMeetingJoin parse scope db = Inl ErrNotFound \<and>
    PatchMeeting parse known now scope v patch db = Inl ErrNotFound \<and>
    UpdateMeeting parse known now scope v details db = Inl ErrNotFound \<and>
    TransitionMeeting parse now scope v status db = Inl ErrNotFound \<and>
    (1 \<le> v \<longrightarrow> CancelMeeting parse now scope v db = Inl ErrNotFound) \<and>
    (role \<noteq> '''' \<longrightarrow> AddMeetingParticipant parse now scope user role db = Inl ErrNotFound \<and>
       ChangeMeetingParticipantRole parse now scope user role db = Inl ErrNotFound) \<and>
    RemoveMeetingParticipant parse scope user db = Inl ErrNotFound \<and>
    (MeetingRSVP_Valid rsvp \<longrightarrow> SetMeetingRSVP parse now scope rsvp db = Inl ErrNotFound) \<and>
    InviteAllMeetingParticipants parse now scope db = Inl ErrNotFound \<and>
    (PageQuery_Normalize parse q = Inr page \<and> pq_Search page = '''' \<longrightarrow> ListMeetingParticipants parse scope q db = Inl ErrNotFound)"
proof (intro conjI impI)
  note writes = withMeeting_invisible [OF assms(1-3)] and reads = withMeeting_read_invisible [OF assms(2,3)]
  show "GetMeeting parse scope db = Inl ErrNotFound" "AuthorizeMeetingJoin parse scope db = Inl ErrNotFound"
    unfolding GetMeeting_def AuthorizeMeetingJoin_def by (rule reads; simp add: hidden require_ok_def)+
  have patch: "PatchMeeting parse known now scope v patch db = Inl ErrNotFound" for patch
    unfolding PatchMeeting_def by (rule writes) (simp add: hidden require_ok_def)
  then show "PatchMeeting parse known now scope v patch db = Inl ErrNotFound"
    and "UpdateMeeting parse known now scope v details db = Inl ErrNotFound" unfolding UpdateMeeting_def by blast+
  have move: "TransitionMeeting parse now scope v status db = Inl ErrNotFound" for status
    unfolding TransitionMeeting_def by (rule writes) (simp add: hidden require_ok_def MeetingTransitionCapability_def)
  then show "TransitionMeeting parse now scope v status db = Inl ErrNotFound" by blast
  show "1 \<le> v \<Longrightarrow> CancelMeeting parse now scope v db = Inl ErrNotFound" by (simp add: CancelMeeting_def move)
  show "role \<noteq> '''' \<Longrightarrow> AddMeetingParticipant parse now scope user role db = Inl ErrNotFound"
    "role \<noteq> '''' \<Longrightarrow> ChangeMeetingParticipantRole parse now scope user role db = Inl ErrNotFound"
    "RemoveMeetingParticipant parse scope user db = Inl ErrNotFound"
    unfolding AddMeetingParticipant_def ChangeMeetingParticipantRole_def RemoveMeetingParticipant_def withParticipant_def assms(4)
    by (auto intro!: writes simp: hidden require_ok_def)
  show "MeetingRSVP_Valid rsvp \<Longrightarrow> SetMeetingRSVP parse now scope rsvp db = Inl ErrNotFound"
    unfolding SetMeetingRSVP_def by (auto intro!: writes simp: hidden require_ok_def)
  show "InviteAllMeetingParticipants parse now scope db = Inl ErrNotFound"
    using assms(2,3) unfolding InviteAllMeetingParticipants_def invisible_def
    by (auto simp: resolveMeetingBulk_def require_ok_def hidden split: option.splits)
  assume "PageQuery_Normalize parse q = Inr page \<and> pq_Search page = ''''"
  moreover have "withMeeting_read parse scope (\<lambda>m actor. require_ok (AuthorizeMeeting m actor MeetingCapabilityView)
      (Inr (queryMeetingParticipantPage (mt_ID m) page db))) db = Inl ErrNotFound"
    by (rule reads) (simp add: hidden require_ok_def)
  ultimately show "ListMeetingParticipants parse scope q db = Inl ErrNotFound" by (simp add: ListMeetingParticipants_def)
qed

theorem invisible_meeting_not_found_witness:
  "let scope = \<lparr>ms_WorkspaceID = example_ws, ms_ActorID = example_user, ms_MeetingID = example_id\<rparr> in
   find_meeting example_id example_ws example_mdb \<noteq> None \<and> GetMeeting Some scope example_mdb = Inl ErrNotFound \<and>
   TransitionMeeting Some 5 scope 1 MeetingStatusCancelled example_mdb = Inl ErrNotFound"
proof -
  let ?scope = "\<lparr>ms_WorkspaceID = example_ws, ms_ActorID = example_user, ms_MeetingID = example_id\<rparr>"
  have can: "canonical Some ?scope = Inr ?scope" by (simp add: canonical_def example_uuid_def)
  have found: "find_meeting example_id example_ws example_mdb = Some example_meeting" by code_simp
  have "\<not> canSeeMeeting example_meeting (loadMeetingActor example_meeting example_user example_mdb)" by code_simp
  then have "invisible ?scope example_mdb" using found example_mdb_wf by (simp add: invisible_def)
  from invisible_meeting_not_found [OF example_mdb_wf(1) can this, of "example_user" "example_user" "\<lambda>_. True" 5 1 _ _ MeetingStatusCancelled]
  show ?thesis using found unfolding Let_def by blast
qed

end
