(* ===== verification/Meeting_Invariant.thy ===== *)
theory Meeting_Invariant
  imports Meeting_Safety
begin

text \<open>
  What every sequence of meeting requests keeps. A request runs at the service layer and commits or rolls back
  (\<open>meeting_step\<close>); an inductive relation \<open>effect\<close> lists the few changes a committed request may make to the
  three tables, every operation refines it, and the integrity rules of migration 000070, who comes
  onto a roster and the history of a meeting follow by cases on it.
\<close>

section \<open>Requests\<close>

datatype meeting_request =
    Req_Create string CreateMeetingInput
  | Req_Update MeetingScope int MeetingPatch
  | Req_Cancel MeetingScope int
  | Req_Transition MeetingScope int string
  | Req_Add MeetingScope string string
  | Req_ChangeRole MeetingScope string string
  | Req_Remove MeetingScope string
  | Req_RSVP MeetingScope string
  | Req_InviteAll MeetingScope
  | Req_Elsewhere mdb

text \<open>A transaction commits, or rolls back and leaves the tables as they were.\<close>

definition commit :: "mdb \<Rightarrow> domain_error + 'a \<times> mdb \<Rightarrow> mdb" where
  "commit db r = (case r of Inl _ \<Rightarrow> db | Inr (_, db') \<Rightarrow> db')"

text \<open>\<open>Req_Elsewhere\<close>: whatever the rest of the system did to its own tables in between.\<close>

fun meeting_step ::
  "(string \<Rightarrow> string option) \<Rightarrow> (string \<Rightarrow> bool) \<Rightarrow> (creation_intent \<Rightarrow> string option) \<Rightarrow> mdb \<Rightarrow> go_time \<times> meeting_request \<Rightarrow> mdb" where
  "meeting_step parse known digest db (now, Req_Create mid input) = commit db (service_CreateMeeting parse known digest mid now input db)"
| "meeting_step parse known digest db (now, Req_Update sc v patch) = commit db (service_UpdateMeeting parse known now sc v patch db)"
| "meeting_step parse known digest db (now, Req_Cancel sc v) = commit db (CancelMeeting parse now sc v db)"
| "meeting_step parse known digest db (now, Req_Transition sc v s) = commit db (TransitionMeeting parse now sc v s db)"
| "meeting_step parse known digest db (now, Req_Add sc u role) = commit db (service_AddMeetingParticipant parse now sc u role db)"
| "meeting_step parse known digest db (now, Req_ChangeRole sc u role) = commit db (service_ChangeMeetingParticipantRole parse now sc u role db)"
| "meeting_step parse known digest db (now, Req_Remove sc u) = commit db (service_RemoveMeetingParticipant parse sc u db)"
| "meeting_step parse known digest db (now, Req_RSVP sc rsvp) = commit db (SetMeetingRSVP parse now sc rsvp db)"
| "meeting_step parse known digest db (now, Req_InviteAll sc) = commit db (InviteAllMeetingParticipants parse now sc db)"
| "meeting_step parse known digest db (now, Req_Elsewhere db') =
     db'\<lparr>db_meetings := db_meetings db, db_participants := db_participants db, db_creations := db_creations db\<rparr>"

definition meeting_run ::
  "(string \<Rightarrow> string option) \<Rightarrow> (string \<Rightarrow> bool) \<Rightarrow> (creation_intent \<Rightarrow> string option) \<Rightarrow> mdb \<Rightarrow> (go_time \<times> meeting_request) list \<Rightarrow> mdb" where
  "meeting_run parse known digest = foldl (meeting_step parse known digest)"

section \<open>Effects\<close>

definition edit_row :: "Meeting \<Rightarrow> go_time \<Rightarrow> Meeting \<Rightarrow> Meeting" where
  "edit_row m now q =
     (if mt_ID q = mt_ID m \<and> mt_WorkspaceID q = mt_WorkspaceID m \<and> mt_Version q = mt_Version m
      then q\<lparr>mt_Details := mt_Details m, mt_Status := mt_Status m, mt_Version := mt_Version q + 1, mt_UpdatedAt := now\<rparr>
      else q)"

definition fresh_meeting :: "(string \<Rightarrow> bool) \<Rightarrow> Meeting \<Rightarrow> bool" where
  "fresh_meeting known m \<longleftrightarrow>
     mt_Status m = MeetingStatusScheduled \<and> mt_Version m = 1 \<and> mt_RoomKey m = MeetingRoomKey (mt_ID m) \<and>
     wf_conversation m \<and> normalizeMeetingDetails known (mt_Details m) (mt_Conversation m \<noteq> None) = Inr (mt_Details m)"

text \<open>
  Who may come onto the roster of a meeting, read from the tables themselves: an active member of its active workspace, in
  a role above guest and with an enabled account, who can read its conversation when it has one.
\<close>

definition may_attend :: "Meeting \<Rightarrow> string \<Rightarrow> mdb \<Rightarrow> bool" where
  "may_attend m u db \<longleftrightarrow>
     db_workspaces db (mt_WorkspaceID m) = Some ''active'' \<and> db_accounts db u = Some True \<and>
     (\<exists>role\<in>{WorkspaceRoleOwner, WorkspaceRoleAdmin, WorkspaceRoleModerator, WorkspaceRoleMember}.
        db_workspace_members db (mt_WorkspaceID m) u = Some (role, ''active'')) \<and>
     (case mt_Conversation m of
        None \<Rightarrow> True
      | Some c \<Rightarrow>
          if mc_Kind c = MeetingConversationChannel
          then case db_channels db (mc_ID c) of
                 None \<Rightarrow> False
               | Some ch \<Rightarrow> cr_WorkspaceID ch = mt_WorkspaceID m \<and> cr_Status ch = ''active'' \<and>
                   ((mc_ID c, u) \<in> set (db_channel_members db) \<or> cr_Type ch = ''public'')
          else case db_dms db (mc_ID c) of
                 None \<Rightarrow> False
               | Some d \<Rightarrow> dr_WorkspaceID d = mt_WorkspaceID m \<and> dr_Status d = ''active'' \<and>
                   dm_status (mc_ID c) u db = Some ''active'')"

definition same_request :: "meeting_request_row \<Rightarrow> meeting_request_row \<Rightarrow> bool" where
  "same_request a b \<longleftrightarrow> mr_WorkspaceID a = mr_WorkspaceID b \<and> mr_ActorID a = mr_ActorID b \<and> mr_Key a = mr_Key b"

inductive effect :: "(string \<Rightarrow> bool) \<Rightarrow> mdb \<Rightarrow> mdb \<Rightarrow> bool" for known where
  idle: "effect known db db"
| redetail: "m \<in> set (db_meetings db) \<Longrightarrow> \<not> MeetingStatus_Terminal (mt_Status m) \<Longrightarrow>
    normalizeMeetingDetails known d (mt_Conversation m \<noteq> None) = Inr d \<Longrightarrow>
    effect known db (db\<lparr>db_meetings := map (edit_row (m\<lparr>mt_Details := d\<rparr>) now) (db_meetings db)\<rparr>)"
| move: "m \<in> set (db_meetings db) \<Longrightarrow> MeetingStatus_CanTransitionTo (mt_Status m) s \<Longrightarrow> MeetingStatus_Valid s \<Longrightarrow>
    effect known db (db\<lparr>db_meetings := map (edit_row (m\<lparr>mt_Status := s\<rparr>) now) (db_meetings db)\<rparr>)"
| invite: "m \<in> set (db_meetings db) \<Longrightarrow> find_participant (mt_ID m) u db = None \<Longrightarrow>
    role = MeetingRoleCohost \<or> role = MeetingRoleAttendee \<Longrightarrow> may_attend m u db \<Longrightarrow>
    effect known db (db\<lparr>db_participants := db_participants db @ [new_participant (mt_ID m) u role MeetingRSVPPending now]\<rparr>)"
| rerole: "find_participant mid u db = Some p \<Longrightarrow> mp_Role p \<noteq> MeetingRoleOrganizer \<Longrightarrow>
    role = MeetingRoleCohost \<or> role = MeetingRoleAttendee \<Longrightarrow>
    effect known db (update_participant mid u (\<lambda>q. q\<lparr>mp_Role := role, mp_UpdatedAt := now\<rparr>) db)"
| reply: "find_participant mid u db = Some p \<Longrightarrow> mp_Role p \<noteq> MeetingRoleOrganizer \<Longrightarrow> MeetingRSVP_Valid rsvp \<Longrightarrow>
    effect known db (update_participant mid u (\<lambda>q. q\<lparr>mp_RSVP := rsvp, mp_UpdatedAt := now\<rparr>) db)"
| uninvite: "find_participant mid u db = Some p \<Longrightarrow> mp_Role p \<noteq> MeetingRoleOrganizer \<Longrightarrow>
    effect known db (delete_participant mid u db)"
| create: "fresh_meeting known m \<Longrightarrow> mt_ID m \<notin> mt_ID ` set (db_meetings db) \<Longrightarrow>
    mr_WorkspaceID row = mt_WorkspaceID m \<Longrightarrow> mr_ActorID row = mt_OrganizerUserID m \<Longrightarrow> mr_MeetingID row = mt_ID m \<Longrightarrow>
    (\<forall>q\<in>set (db_creations db). \<not> same_request q row) \<Longrightarrow> may_attend m (mt_OrganizerUserID m) db \<Longrightarrow>
    effect known db (db\<lparr>db_meetings := db_meetings db @ [m],
      db_participants := db_participants db @
        [new_participant (mt_ID m) (mt_OrganizerUserID m) MeetingRoleOrganizer MeetingRSVPAccepted now],
      db_creations := db_creations db @ [row]\<rparr>)"

inductive_cases effectE: "effect known db db'"

lemma may_attend_cong:
  assumes "mt_WorkspaceID n = mt_WorkspaceID m" and "mt_Conversation n = mt_Conversation m"
  shows "may_attend n u db = may_attend m u db"
  unfolding may_attend_def assms ..

lemma may_attend_roster [simp]:
  "may_attend m u (db\<lparr>db_meetings := ms\<rparr>) = may_attend m u db"
  "may_attend m u (db\<lparr>db_participants := ps\<rparr>) = may_attend m u db"
  "may_attend m u (db\<lparr>db_creations := cs\<rparr>) = may_attend m u db"
  by (simp_all add: may_attend_def dm_status_def cong: option.case_cong if_cong)

text \<open>The two checks the code makes of a newcomer read the same facts as \<^const>\<open>may_attend\<close>.\<close>

lemma authority_attends:
  assumes "eligibleMeetingMember m (authority_actor (lockMeetingAuthority m ids db) u)"
    and "CanReachPublicChannels (ma_Membership (authority_actor (lockMeetingAuthority m ids db) u))"
    and "mt_Conversation m = None \<or> ma_ConversationAccess (authority_actor (lockMeetingAuthority m ids db) u)"
  shows "may_attend m u db"
proof -
  let ?a = "lockMeetingAuthority m ids db"
  obtain wm where wm: "ma_Membership (authority_actor ?a u) = Some wm" "wm_Status wm = ''active''"
    "wm_Role wm \<in> {WorkspaceRoleOwner, WorkspaceRoleAdmin, WorkspaceRoleModerator, WorkspaceRoleMember}"
    using assms(1,2)
    by (auto simp: eligibleMeetingMember_def eligibleConversationWorkspaceMember_def CanReachPublicChannels_def split: option.splits if_splits)
  then have u: "u \<in> set ids" and wm': "member_of m u db = Some wm" and "db_workspaces db (mt_WorkspaceID m) = Some ''active''"
    and "db_accounts db u = Some True"
    by (auto simp: authority_actor_def lockMeetingAuthority_def no_facts_def Let_def split: if_splits prod.splits)
  moreover have "db_workspace_members db (mt_WorkspaceID m) u = Some (wm_Role wm, ''active'')"
    using wm' wm(2) by (auto simp: member_of_def split: option.splits)
  moreover have "mt_Conversation m = None \<or> fst (queueConversation m db) \<and> reaches ?a (au_user ?a u)"
    using assms(3) by (auto simp: authority_actor_def lockMeetingAuthority_def Let_def split: prod.splits)
  ultimately show ?thesis
    using wm(3) unfolding may_attend_def queueConversation_def reaches_def lockMeetingAuthority_def queuePlaces_def
    by (cases "mt_Conversation m") (auto simp: Let_def split: option.splits if_splits prod.splits)
qed

lemma eligible_attends:
  "MeetingInviteeEligible m (authority_actor (lockMeetingAuthority m ids db) u) \<Longrightarrow> may_attend m u db"
  unfolding MeetingInviteeEligible_def using authority_attends by blast

lemma creator_attends:
  "AuthorizeMeeting m (authority_actor (lockMeetingAuthority m ids db) u) MeetingCapabilityCreate = None \<Longrightarrow> may_attend m u db"
  by (rule authority_attends [of m ids]) (auto simp: AuthorizeMeeting_def authorizeMeetingCreate_def split: if_splits)

section \<open>Every request is a sequence of effects\<close>

lemma find_meetingD:
  "find_meeting mid ws db = Some m \<Longrightarrow> m \<in> set (db_meetings db) \<and> mt_ID m = mid \<and> mt_WorkspaceID m = ws"
  unfolding find_meeting_def by (drule find_SomeD) simp

lemma find_participantD:
  "find_participant mid u db = Some p \<Longrightarrow> p \<in> set (db_participants db) \<and> mp_MeetingID p = mid \<and> mp_UserID p = u"
  unfolding find_participant_def by (drule find_SomeD) simp

lemma find_participant_None:
  "find_participant mid u db = None \<longleftrightarrow> (mid, u) \<notin> (\<lambda>p. (mp_MeetingID p, mp_UserID p)) ` set (db_participants db)"
  by (auto simp: find_participant_def find_None_iff)

lemma require_ok_Inr [simp]: "require_ok c r = Inr x \<longleftrightarrow> c = None \<and> r = Inr x"
  by (simp add: require_ok_def split: option.split)

lemma withMeeting_Inr:
  assumes "withMeeting parse scope t fn db = Inr (x, db')"
  obtains m actor tgt where "m \<in> set (db_meetings db)" and "fn m actor tgt db = Inr (x, db')"
    and "ma_Participant actor = find_participant (mt_ID m) (ma_UserID actor) db" and "ma_UserID tgt = t"
    and "t \<noteq> '''' \<Longrightarrow> ma_Participant tgt = find_participant (mt_ID m) t db"
    and "\<exists>ids. tgt = authority_actor (lockMeetingAuthority m ids db) t"
proof -
  obtain sc m where m: "canonical parse scope = Inr sc" "find_meeting (ms_MeetingID sc) (ms_WorkspaceID sc) db = Some m"
    and fn: "(let (actor, tgt) = lockMeetingActors m (ms_ActorID sc) t db in fn m actor tgt db) = Inr (x, db')"
    using assms by (auto simp: withMeeting_def bind_err_Inr_iff split: option.splits)
  let ?ids = "if t \<noteq> '''' then [ms_ActorID sc, t] else [ms_ActorID sc]"
  let ?a = "lockMeetingAuthority m ?ids db"
  show thesis
  proof (rule that [of m "authority_actor ?a (ms_ActorID sc)" "authority_actor ?a t"])
    show "fn m (authority_actor ?a (ms_ActorID sc)) (authority_actor ?a t) db = Inr (x, db')"
      using fn by (simp add: lockMeetingActors_def Let_def)
    show "\<exists>ids. authority_actor ?a t = authority_actor (lockMeetingAuthority m ids db) t" by blast
  qed (use find_meetingD [OF m(2)] in \<open>auto simp: authority_actor_def lockMeetingAuthority_def Let_def split: prod.splits\<close>)
qed

lemma writeMeeting_Inr:
  "writeMeeting now m db = Inr (x, db') \<Longrightarrow> db' = db\<lparr>db_meetings := map (edit_row m now) (db_meetings db)\<rparr>"
  unfolding edit_row_def by (auto simp: writeMeeting_def Let_def split: if_splits)

lemma PatchMeeting_effect:
  assumes "PatchMeeting parse known now scope v patch db = Inr (x, db')"
  shows "effect known db db'"
proof -
  obtain m actor tgt where m: "m \<in> set (db_meetings db)"
    and "bind_err (Meeting_Update known m (patch_details patch (mt_Details m)) v) (\<lambda>n. writeMeeting now n db) = Inr (x, db')"
    using assms unfolding PatchMeeting_def
    by (elim withMeeting_Inr) (auto simp: Let_def split: if_splits)
  then obtain n where n: "Meeting_Update known m (patch_details patch (mt_Details m)) v = Inr n" and w: "writeMeeting now n db = Inr (x, db')"
    unfolding bind_err_Inr_iff by blast
  from n obtain d where d: "n = m\<lparr>mt_Details := d\<rparr>" "\<not> MeetingStatus_Terminal (mt_Status m)"
    "normalizeMeetingDetails known (patch_details patch (mt_Details m)) (mt_Conversation m \<noteq> None) = Inr d"
    by (auto simp: Meeting_Update_def bind_err_Inr_iff split: if_splits)
  show ?thesis
    unfolding writeMeeting_Inr [OF w] d(1)
    by (rule redetail [OF m d(2) normalizeMeetingDetails_stable [OF d(3)]])
qed

lemma TransitionMeeting_effect:
  assumes "TransitionMeeting parse now scope v s db = Inr (x, db')"
  shows "effect known db db'"
proof -
  obtain m actor tgt where m: "m \<in> set (db_meetings db)"
    and "bind_err (Meeting_Transition m s v) (\<lambda>(n, changed). if \<not> changed then Inr (n, db) else writeMeeting now n db) = Inr (x, db')"
    using assms unfolding TransitionMeeting_def by (elim withMeeting_Inr) auto
  then obtain n c where n: "Meeting_Transition m s v = Inr (n, c)" and w: "(if \<not> c then Inr (n, db) else writeMeeting now n db) = Inr (x, db')"
    by (auto simp: bind_err_Inr_iff)
  show ?thesis
  proof (cases c)
    case True
    then have "n = m\<lparr>mt_Status := s\<rparr>" "MeetingStatus_CanTransitionTo (mt_Status m) s" "MeetingStatus_Valid s"
      using n by (auto simp: Meeting_Transition_def split: if_splits)
    then show ?thesis using True w m writeMeeting_Inr [of now n db x db'] by (metis move)
  qed (use w idle in auto)
qed

lemma AuthorizeMeetingParticipantChange_None:
  assumes "AuthorizeMeetingParticipantChange m a target role = None"
  shows "role = '''' \<or> role = MeetingRoleCohost \<or> role = MeetingRoleAttendee"
    and "target = Some t \<Longrightarrow> mp_Role t \<noteq> MeetingRoleOrganizer"
  using assms by (auto simp: AuthorizeMeetingParticipantChange_def assignable_def split: if_splits)

locale uuid_library =
  fixes parse :: "string \<Rightarrow> string option"
  assumes parse_canonical: "parse s = Some u \<Longrightarrow> parse u = Some u"
    and parse_nonempty: "parse s = Some u \<Longrightarrow> u \<noteq> ''''"
begin

lemma withParticipant_Inr:
  assumes "withParticipant parse scope user fn db = Inr (x, db')"
  obtains m actor tgt where "m \<in> set (db_meetings db)" and "fn m actor tgt db = Inr (x, db')"
    and "ma_Participant tgt = find_participant (mt_ID m) (ma_UserID tgt) db"
    and "\<exists>ids. tgt = authority_actor (lockMeetingAuthority m ids db) (ma_UserID tgt)"
proof -
  obtain t where "parse user = Some t" and w: "withMeeting parse scope t fn db = Inr (x, db')"
    using assms(1) by (auto simp: withParticipant_def split: option.splits)
  then have "t \<noteq> ''''" using parse_nonempty by blast
  with w show thesis by (elim withMeeting_Inr) (use that in blast)
qed

lemma AddMeetingParticipant_effect:
  assumes "AddMeetingParticipant parse now scope user role db = Inr (x, db')"
  shows "effect known db db'"
proof -
  have role: "role \<noteq> ''''" using assms by (auto simp: AddMeetingParticipant_def)
  show ?thesis
  proof (rule withParticipant_Inr [OF assms [unfolded AddMeetingParticipant_def if_not_P [OF role]]], goal_cases)
    case (1 m actor tgt)
    then have ok: "AuthorizeMeetingParticipantChange m actor (ma_Participant tgt) role = None"
      and none: "find_participant (mt_ID m) (ma_UserID tgt) db = None" and eligible: "MeetingInviteeEligible m tgt"
      and db': "db' = db\<lparr>db_participants := db_participants db @ [new_participant (mt_ID m) (ma_UserID tgt) role MeetingRSVPPending now]\<rparr>"
      by (auto simp: Let_def split: if_splits)
    have "may_attend m (ma_UserID tgt) db" using 1(4) eligible eligible_attends by metis
    then show ?case
      unfolding db' using 1(1) none AuthorizeMeetingParticipantChange_None(1) [OF ok] role by (intro invite) auto
  qed
qed

lemma ChangeMeetingParticipantRole_effect:
  assumes "ChangeMeetingParticipantRole parse now scope user role db = Inr (x, db')"
  shows "effect known db db'"
proof -
  have role: "role \<noteq> ''''" using assms by (auto simp: ChangeMeetingParticipantRole_def)
  show ?thesis
  proof (rule withParticipant_Inr [OF assms [unfolded ChangeMeetingParticipantRole_def if_not_P [OF role]]], goal_cases)
    case (1 m actor tgt)
    then obtain p where ok: "AuthorizeMeetingParticipantChange m actor (Some p) role = None"
      and p: "find_participant (mt_ID m) (ma_UserID tgt) db = Some p"
      and db': "db' = db \<or> db' = update_participant (mt_ID m) (ma_UserID tgt) (\<lambda>q. q\<lparr>mp_Role := role, mp_UpdatedAt := now\<rparr>) db"
      by (auto simp: Let_def split: if_splits option.splits)
    have "effect known db (update_participant (mt_ID m) (ma_UserID tgt) (\<lambda>q. q\<lparr>mp_Role := role, mp_UpdatedAt := now\<rparr>) db)"
      using p AuthorizeMeetingParticipantChange_None [OF ok] role by (intro rerole) auto
    with db' show ?case using idle by auto
  qed
qed

lemma RemoveMeetingParticipant_effect:
  assumes "RemoveMeetingParticipant parse scope user db = Inr (x, db')"
  shows "effect known db db'"
proof (rule withParticipant_Inr [OF assms [unfolded RemoveMeetingParticipant_def]], goal_cases)
  case (1 m actor tgt)
  then obtain p where ok: "AuthorizeMeetingParticipantChange m actor (Some p) '''' = None"
    and p: "find_participant (mt_ID m) (ma_UserID tgt) db = Some p"
    and db': "db' = delete_participant (mt_ID m) (ma_UserID tgt) db"
    by (auto split: if_splits)
  show ?case unfolding db' using p AuthorizeMeetingParticipantChange_None(2) [OF ok] by (intro uninvite) auto
qed

end

lemma SetMeetingRSVP_effect:
  assumes "SetMeetingRSVP parse now scope rsvp db = Inr (x, db')"
  shows "effect known db db'"
proof -
  have valid: "MeetingRSVP_Valid rsvp" using assms by (auto simp: SetMeetingRSVP_def split: if_splits)
  then have "\<not> \<not> MeetingRSVP_Valid rsvp" by simp
  note w = assms [unfolded SetMeetingRSVP_def if_not_P [OF this]]
  show ?thesis
  proof (rule withMeeting_Inr [OF w], goal_cases)
    case (1 m actor tgt)
    then obtain p where ok: "AuthorizeMeeting m actor MeetingCapabilityRSVP = None"
      and p: "ma_Participant actor = Some p" "find_participant (mt_ID m) (ma_UserID actor) db = Some p"
      and db': "db' = update_participant (mt_ID m) (ma_UserID actor) (\<lambda>q. q\<lparr>mp_RSVP := rsvp, mp_UpdatedAt := now\<rparr>) db"
      by (auto simp: Let_def split: option.splits)
    have "mp_Role p \<noteq> MeetingRoleOrganizer"
      using ok p(1) by (auto simp: AuthorizeMeeting_None meetingRoleAllows_def meetingParticipant_def Let_def split: if_splits)
    then show ?case unfolding db' using p(2) valid by (intro reply)
  qed
qed

lemma insert_attendees_effects:
  "m \<in> set (db_meetings db) \<Longrightarrow> \<forall>u\<in>set us. may_attend m u db \<Longrightarrow> (effect known)\<^sup>*\<^sup>* db (snd (insert_attendees now (mt_ID m) us n db))"
proof (induction us arbitrary: n db)
  case (Cons u us)
  let ?db = "db\<lparr>db_participants := db_participants db @ [new_participant (mt_ID m) u MeetingRoleAttendee MeetingRSVPPending now]\<rparr>"
  show ?case
  proof (cases "find_participant (mt_ID m) u db = None")
    case True
    have "effect known db ?db" using Cons.prems by (intro invite [OF _ True]) simp_all
    also have "(effect known)\<^sup>*\<^sup>* ?db (snd (insert_attendees now (mt_ID m) us (n + 1) ?db))"
      using Cons.prems by (intro Cons.IH) simp_all
    finally show ?thesis using True by simp
  qed (use Cons in simp)
qed simp

lemma InviteAllMeetingParticipants_effects:
  assumes "InviteAllMeetingParticipants parse now scope db = Inr (x, db')"
  shows "(effect known)\<^sup>*\<^sup>* db db'"
proof -
  obtain mid ws m us auth ids where m: "find_meeting mid ws db = Some m" and ins: "insert_attendees now (mt_ID m) us 0 db = (x, db')"
    and us: "us = eligibleMeetingBulkIDs m (lockMeetingAuthority m auth db) ids"
    using assms by (auto simp: InviteAllMeetingParticipants_def bind_err_Inr_iff Let_def split: option.splits)
  have "\<forall>u\<in>set us. may_attend m u db" using eligible_attends unfolding us eligibleMeetingBulkIDs_def by auto
  then show ?thesis using insert_attendees_effects [of m db us known now 0] find_meetingD [OF m] ins by simp
qed

lemma NewMeeting_fresh: "NewMeeting parse known mid ws org conv d = Inr m \<Longrightarrow> fresh_meeting known m"
  using normalizeMeetingDetails_stable
  by (auto simp: NewMeeting_def fresh_meeting_def wf_conversation_def canonicalMeetingConversation_def bind_err_Inr_iff
      split: option.splits if_splits)

lemma insert_invitees_effects:
  assumes "insert_invitees now m ps db = Inr db'" and "m0 \<in> set (db_meetings db)" and "mt_ID m0 = mt_ID m"
    and "\<forall>p\<in>set ps. (mi_Role p = MeetingRoleCohost \<or> mi_Role p = MeetingRoleAttendee) \<and> may_attend m0 (mi_UserID p) db"
  shows "(effect known)\<^sup>*\<^sup>* db db'"
  using assms
proof (induction ps arbitrary: db)
  case (Cons p ps)
  let ?db = "db\<lparr>db_participants := db_participants db @ [new_participant (mt_ID m) (mi_UserID p) (mi_Role p) MeetingRSVPPending now]\<rparr>"
  have none: "find_participant (mt_ID m0) (mi_UserID p) db = None" and rest: "insert_invitees now m ps ?db = Inr db'"
    using Cons.prems(1,3) by (auto split: if_splits)
  have "effect known db ?db"
    using invite [OF Cons.prems(2) none, of "mi_Role p" known now] Cons.prems(3,4) by simp
  also have "(effect known)\<^sup>*\<^sup>* ?db db'" using Cons.prems rest by (intro Cons.IH) auto
  finally show ?case .
qed simp

lemma authorizeInitial_invitees:
  "authorizeInitialMeetingParticipants m org a ps = None \<Longrightarrow>
   \<forall>p\<in>set ps. (mi_Role p = MeetingRoleCohost \<or> mi_Role p = MeetingRoleAttendee) \<and> MeetingInviteeEligible m (authority_actor a (mi_UserID p))"
proof (induction ps)
  case (Cons p ps)
  then show ?case
    using AuthorizeMeetingParticipantChange_None(1) [of m _ None "mi_Role p"]
    by (auto simp: Let_def split: if_splits option.splits)
qed simp

lemma authorizeMeetingCreation_roster:
  assumes "authorizeMeetingCreation input db = None"
  shows "\<forall>p\<in>set (mx_Participants input). (mi_Role p = MeetingRoleCohost \<or> mi_Role p = MeetingRoleAttendee) \<and>
      may_attend (mx_Meeting input) (mi_UserID p) db"
    and "may_attend (mx_Meeting input) (mt_OrganizerUserID (mx_Meeting input)) db"
  using assms authorizeInitial_invitees eligible_attends creator_attends
  unfolding authorizeMeetingCreation_def Let_def and_then_None by blast+

lemma createMeetingInTx_effects:
  assumes "createMeetingInTx now input db = Inr (x, db')" and key: "mx_IdempotencyKey input \<noteq> ''''"
    and fresh: "fresh_meeting known (mx_Meeting input)"
  shows "(effect known)\<^sup>*\<^sup>* db db'"
proof -
  let ?m = "mx_Meeting input"
  obtain claimed db1 where c: "claimMeetingCreation input db = Inr (claimed, db1)" and
    rest: "(case claimed of
       Some mid \<Rightarrow> bind_err (replayMeetingCreation ?m mid db1) (\<lambda>m. Inr ((m, True), db1))
     | None \<Rightarrow> require_ok (authorizeMeetingCreation input db1)
           (bind_err (insertMeeting now ?m db1) (\<lambda>(m, db').
            bind_err (insert_invitees now m (mx_Participants input) db') (\<lambda>db''. Inr ((m, False), db''))))) = Inr (x, db')"
    using assms(1) key unfolding createMeetingInTx_def by (auto simp: bind_err_Inr_iff)
  show ?thesis
  proof (cases claimed)
    case (Some mid)
    then have "db' = db1" using rest by (auto simp: bind_err_Inr_iff)
    moreover have "db1 = db" using c Some by (auto simp: claimMeetingCreation_def Let_def split: option.splits if_splits)
    ultimately show ?thesis by simp
  next
    case None
    define row where "row = \<lparr>mr_WorkspaceID = mt_WorkspaceID ?m, mr_ActorID = mt_OrganizerUserID ?m, mr_Key = mx_IdempotencyKey input,
            mr_Hash = mx_RequestHash input, mr_MeetingID = mt_ID ?m\<rparr>"
    have db1: "db1 = db\<lparr>db_creations := db_creations db @ [row]\<rparr>"
      and unclaimed: "\<forall>q\<in>set (db_creations db). \<not> same_request q row"
      using c None by (auto simp: claimMeetingCreation_def row_def same_request_def Let_def find_None_iff split: option.splits if_splits)
    obtain m db2 where auth: "authorizeMeetingCreation input db1 = None" and m: "insertMeeting now ?m db1 = Inr (m, db2)"
      and ps: "insert_invitees now m (mx_Participants input) db2 = Inr db'"
      using rest None by (auto simp: bind_err_Inr_iff)
    have meq: "m = ?m\<lparr>mt_CreatedAt := now, mt_UpdatedAt := now\<rparr>" and new: "mt_ID m \<notin> mt_ID ` set (db_meetings db)"
      and db2: "db2 = db\<lparr>db_meetings := db_meetings db @ [m],
         db_participants := db_participants db @
           [new_participant (mt_ID m) (mt_OrganizerUserID m) MeetingRoleOrganizer MeetingRSVPAccepted now],
         db_creations := db_creations db @ [row]\<rparr>"
      using m by (auto simp: insertMeeting_def db1 Let_def list_ex_iff split: if_splits)
    have "fresh_meeting known m" using fresh by (simp add: meq fresh_meeting_def wf_conversation_def)
    have attend: "may_attend m u db \<longleftrightarrow> may_attend ?m u db1" for u
      using may_attend_cong [of m ?m u db] by (simp add: meq db1)
    have "may_attend m (mt_OrganizerUserID m) db" using authorizeMeetingCreation_roster(2) [OF auth] attend by (simp add: meq)
    then have "effect known db db2"
      unfolding db2 using new unclaimed \<open>fresh_meeting known m\<close> by (intro create) (simp_all add: row_def meq)
    also have "(effect known)\<^sup>*\<^sup>* db2 db'"
      using authorizeMeetingCreation_roster(1) [OF auth] attend by (intro insert_invitees_effects [OF ps, of m]) (simp_all add: db2)
    finally show ?thesis .
  qed
qed

lemma service_CreateMeeting_effects:
  assumes "service_CreateMeeting parse known digest mid now input db = Inr (x, db')"
  shows "(effect known)\<^sup>*\<^sup>* db db'"
proof -
  obtain c m where c: "CreateMeetingWithParticipants now c db = Inr (x, db')" and m: "mx_Meeting c = m"
    and new: "NewMeeting parse known mid (ci_WorkspaceID input) (ci_ActorID input) (ci_Conversation input) (ci_Details input) = Inr m"
    using assms
    by (fastforce simp: service_CreateMeeting_def normalizeMeetingCreation_def bind_err_Inr_iff split: if_splits option.splits)
  then show ?thesis
    using createMeetingInTx_effects [of now c db x db' known] NewMeeting_fresh [OF new]
    by (auto simp: CreateMeetingWithParticipants_def split: if_splits)
qed

context uuid_library
begin

lemma meeting_step_effects:
  assumes "\<nexists>other. req = Req_Elsewhere other"
  shows "(effect known)\<^sup>*\<^sup>* db (meeting_step parse known digest db (now, req))"
proof -
  have commit: "(effect known)\<^sup>*\<^sup>* db (commit db r)" if "\<And>x db'. r = Inr (x, db') \<Longrightarrow> (effect known)\<^sup>*\<^sup>* db db'"
    for r :: "domain_error + 'a \<times> mdb"
    using that by (auto simp: commit_def split: sum.split)
  show ?thesis
  proof (cases req)
    case (Req_Create mid input)
    show ?thesis unfolding Req_Create meeting_step.simps using service_CreateMeeting_effects by (rule commit)
  next
    case (Req_Update sc v patch)
    show ?thesis unfolding Req_Update meeting_step.simps service_UpdateMeeting_def
      using PatchMeeting_effect by (intro commit) (auto split: if_splits)
  next
    case (Req_Cancel sc v)
    show ?thesis unfolding Req_Cancel meeting_step.simps CancelMeeting_def
      using TransitionMeeting_effect by (intro commit) (auto split: if_splits)
  next
    case (Req_Transition sc v st)
    show ?thesis unfolding Req_Transition meeting_step.simps using TransitionMeeting_effect by (intro commit) auto
  next
    case (Req_Add sc u role)
    show ?thesis unfolding Req_Add meeting_step.simps service_AddMeetingParticipant_def
      using AddMeetingParticipant_effect by (intro commit) (auto simp: Let_def split: if_splits sum.splits)
  next
    case (Req_ChangeRole sc u role)
    show ?thesis unfolding Req_ChangeRole meeting_step.simps service_ChangeMeetingParticipantRole_def
      using ChangeMeetingParticipantRole_effect by (intro commit) (auto split: if_splits sum.splits)
  next
    case (Req_Remove sc u)
    show ?thesis unfolding Req_Remove meeting_step.simps service_RemoveMeetingParticipant_def
      using RemoveMeetingParticipant_effect by (intro commit) (auto split: sum.splits)
  next
    case (Req_RSVP sc rsvp)
    show ?thesis unfolding Req_RSVP meeting_step.simps using SetMeetingRSVP_effect by (intro commit) auto
  next
    case (Req_InviteAll sc)
    show ?thesis unfolding Req_InviteAll meeting_step.simps using InviteAllMeetingParticipants_effects by (rule commit)
  next
    case (Req_Elsewhere other)
    then show ?thesis using assms by blast
  qed
qed

text \<open>A step is a sequence of effects, or leaves the three tables alone.\<close>

lemma meeting_step_cases:
  obtains "(effect known)\<^sup>*\<^sup>* db (meeting_step parse known digest db r)"
  | "db_meetings (meeting_step parse known digest db r) = db_meetings db"
    "db_participants (meeting_step parse known digest db r) = db_participants db"
    "db_creations (meeting_step parse known digest db r) = db_creations db"
proof (cases "\<exists>other. snd r = Req_Elsewhere other")
  case True
  then obtain now other where "r = (now, Req_Elsewhere other)" by (metis prod.collapse)
  then show thesis by (intro that(2)) simp_all
next
  case False
  then show thesis using that(1) meeting_step_effects [of "snd r" known db digest "fst r"] by simp
qed

end

lemma meeting_run_Cons [simp]: "meeting_run parse known digest db (r # rs) = meeting_run parse known digest (meeting_step parse known digest db r) rs"
  and meeting_run_Nil [simp]: "meeting_run parse known digest db [] = db"
  and meeting_run_snoc: "meeting_run parse known digest db (rs @ [r]) = meeting_step parse known digest (meeting_run parse known digest db rs) r"
  by (simp_all add: meeting_run_def)

section \<open>The integrity rules\<close>

definition meeting_ok :: "(string \<Rightarrow> bool) \<Rightarrow> Meeting \<Rightarrow> bool" where
  "meeting_ok known m \<longleftrightarrow>
     MeetingStatus_Valid (mt_Status m) \<and> 0 < mt_Version m \<and> mt_RoomKey m = MeetingRoomKey (mt_ID m) \<and> wf_conversation m \<and>
     normalizeMeetingDetails known (mt_Details m) (mt_Conversation m \<noteq> None) = Inr (mt_Details m)"

definition participant_ok :: "MeetingParticipant \<Rightarrow> bool" where
  "participant_ok p \<longleftrightarrow>
     MeetingRole_Valid (mp_Role p) \<and> MeetingRSVP_Valid (mp_RSVP p) \<and>
     (mp_Role p = MeetingRoleOrganizer \<longrightarrow> mp_RSVP p = MeetingRSVPAccepted)"

abbreviation roster_key :: "MeetingParticipant \<Rightarrow> string \<times> string" where
  "roster_key p \<equiv> (mp_MeetingID p, mp_UserID p)"

definition roster_ok :: "mdb \<Rightarrow> bool" where
  "roster_ok db \<longleftrightarrow>
     (\<forall>m\<in>set (db_meetings db). (mt_ID m, mt_OrganizerUserID m) \<in> roster_key ` set (db_participants db)) \<and>
     (\<forall>p\<in>set (db_participants db). \<exists>m\<in>set (db_meetings db). mt_ID m = mp_MeetingID p \<and>
        (mp_Role p = MeetingRoleOrganizer \<longleftrightarrow> mp_UserID p = mt_OrganizerUserID m))"

definition claims_ok :: "mdb \<Rightarrow> bool" where
  "claims_ok db \<longleftrightarrow>
     sorted_wrt (\<lambda>a b. \<not> same_request a b) (db_creations db) \<and>
     (\<forall>r\<in>set (db_creations db). \<exists>m\<in>set (db_meetings db). mt_ID m = mr_MeetingID r \<and> mt_WorkspaceID m = mr_WorkspaceID r \<and>
        mt_OrganizerUserID m = mr_ActorID r)"

definition meetings_ok :: "(string \<Rightarrow> bool) \<Rightarrow> mdb \<Rightarrow> bool" where
  "meetings_ok known db \<longleftrightarrow>
     distinct (map mt_ID (db_meetings db)) \<and> distinct (map roster_key (db_participants db)) \<and>
     list_all (meeting_ok known) (db_meetings db) \<and> list_all participant_ok (db_participants db) \<and> roster_ok db \<and> claims_ok db"

lemma meetings_ok_cong:
  assumes "db_meetings db' = db_meetings db" "db_participants db' = db_participants db" "db_creations db' = db_creations db"
  shows "meetings_ok known db' = meetings_ok known db"
  by (simp add: meetings_ok_def roster_ok_def claims_ok_def assms)

lemma edit_row_simps [simp]:
  "mt_ID (edit_row n now q) = mt_ID q" "mt_OrganizerUserID (edit_row n now q) = mt_OrganizerUserID q"
  "mt_WorkspaceID (edit_row n now q) = mt_WorkspaceID q" "mt_Conversation (edit_row n now q) = mt_Conversation q"
  "mt_RoomKey (edit_row n now q) = mt_RoomKey q" "mt_CreatedAt (edit_row n now q) = mt_CreatedAt q"
  by (simp_all add: edit_row_def)

lemma edit_keeps_ok:
  assumes ok: "meetings_ok known db" and m: "m \<in> set (db_meetings db)" and n: "mt_ID n = mt_ID m"
    and new: "MeetingStatus_Valid (mt_Status n)"
      "normalizeMeetingDetails known (mt_Details n) (mt_Conversation m \<noteq> None) = Inr (mt_Details n)"
  shows "meetings_ok known (db\<lparr>db_meetings := map (edit_row n now) (db_meetings db)\<rparr>)"
proof -
  have one: "q = m" if "q \<in> set (db_meetings db)" "mt_ID q = mt_ID m" for q
    using ok m that by (auto simp: meetings_ok_def distinct_map inj_on_def)
  have "meeting_ok known (edit_row n now q)" if "q \<in> set (db_meetings db)" for q
  proof (cases "mt_ID q = mt_ID m")
    case True
    then have "q = m" using one that by blast
    then show ?thesis using ok m new by (auto simp: meetings_ok_def meeting_ok_def list_all_iff edit_row_def wf_conversation_def)
  next
    case False
    then show ?thesis using ok that n by (simp add: meetings_ok_def list_all_iff edit_row_def)
  qed
  then show ?thesis
    using ok by (simp add: meetings_ok_def list_all_iff comp_def roster_ok_def claims_ok_def)
qed

lemma roster_ok_map:
  assumes "roster_ok db" and "\<And>q. roster_key (g q) = roster_key q"
    and "\<And>q. q \<in> set (db_participants db) \<Longrightarrow> mp_Role (g q) = MeetingRoleOrganizer \<longleftrightarrow> mp_Role q = MeetingRoleOrganizer"
  shows "roster_ok (db\<lparr>db_participants := map g (db_participants db)\<rparr>)"
proof -
  have "roster_key ` g ` set (db_participants db) = roster_key ` set (db_participants db)"
    using assms(2) by (simp add: image_image)
  moreover have "mp_MeetingID (g q) = mp_MeetingID q" "mp_UserID (g q) = mp_UserID q" for q using assms(2) by simp_all
  ultimately show ?thesis using assms(1,3) unfolding roster_ok_def by simp
qed

text \<open>A change of the roster that keeps every row's key: only rows that are not an organizer's change.\<close>

lemma amend_keeps_ok:
  assumes ok: "meetings_ok known db" and p: "find_participant mid u db = Some p" "mp_Role p \<noteq> MeetingRoleOrganizer"
    and f: "\<And>q. roster_key (f q) = roster_key q" "participant_ok (f p)" "mp_Role (f p) \<noteq> MeetingRoleOrganizer"
  shows "meetings_ok known (update_participant mid u f db)"
proof -
  define g where "g q = (if mp_MeetingID q = mid \<and> mp_UserID q = u then f q else q)" for q
  have one: "q = p" if "q \<in> set (db_participants db)" "mp_MeetingID q = mid \<and> mp_UserID q = u" for q
    using ok find_participantD [OF p(1)] that by (auto simp: meetings_ok_def distinct_map inj_on_def)
  have key: "roster_key (g q) = roster_key q" for q using f(1) by (simp add: g_def)
  have role: "mp_Role (g q) = MeetingRoleOrganizer \<longleftrightarrow> mp_Role q = MeetingRoleOrganizer" and pok: "participant_ok (g q)"
    if "q \<in> set (db_participants db)" for q
    using one [OF that] that f(2,3) p(2) ok by (auto simp: meetings_ok_def list_all_iff g_def)
  have "roster_ok (db\<lparr>db_participants := map g (db_participants db)\<rparr>)"
    using ok role key by (intro roster_ok_map) (auto simp: meetings_ok_def)
  moreover have "map roster_key (map g (db_participants db)) = map roster_key (db_participants db)"
    by (simp add: key comp_def del: prod.inject)
  moreover have "update_participant mid u f db = db\<lparr>db_participants := map g (db_participants db)\<rparr>"
    by (simp add: update_participant_def g_def)
  ultimately show ?thesis
    using ok pok by (simp add: meetings_ok_def list_all_iff claims_ok_def del: map_map)
qed

lemma delete_keeps_ok:
  assumes ok: "meetings_ok known db" and p: "find_participant mid u db = Some p" "mp_Role p \<noteq> MeetingRoleOrganizer"
  shows "meetings_ok known (delete_participant mid u db)"
proof -
  let ?ps = "filter (\<lambda>q. \<not> (mp_MeetingID q = mid \<and> mp_UserID q = u)) (db_participants db)"
  note pd = find_participantD [OF p(1)]
  have uniq: "n = m" if "n \<in> set (db_meetings db)" "m \<in> set (db_meetings db)" "mt_ID n = mt_ID m" for n m
    using ok that by (auto simp: meetings_ok_def distinct_map inj_on_def)
  have "(mt_ID m, mt_OrganizerUserID m) \<in> roster_key ` set ?ps" if m: "m \<in> set (db_meetings db)" for m
  proof -
    obtain q where q: "q \<in> set (db_participants db)" "mp_MeetingID q = mt_ID m" "mp_UserID q = mt_OrganizerUserID m"
      using ok m by (fastforce simp: meetings_ok_def roster_ok_def)
    have "\<not> (mp_MeetingID q = mid \<and> mp_UserID q = u)"
    proof
      assume qu: "mp_MeetingID q = mid \<and> mp_UserID q = u"
      obtain n where n: "n \<in> set (db_meetings db)" "mt_ID n = mid" "mp_Role p = MeetingRoleOrganizer \<longleftrightarrow> u = mt_OrganizerUserID n"
        using ok pd unfolding meetings_ok_def roster_ok_def by blast
      then have "n = m" using uniq m q(2) qu by simp
      with n(3) p(2) q(3) qu show False by simp
    qed
    with q show ?thesis by force
  qed
  moreover have "distinct (map roster_key ?ps)" using ok by (simp add: meetings_ok_def distinct_map_filter)
  ultimately show ?thesis
    using ok by (simp add: meetings_ok_def delete_participant_def roster_ok_def list_all_iff claims_ok_def)
qed

lemma invite_keeps_ok:
  assumes ok: "meetings_ok known db" and m: "m \<in> set (db_meetings db)" and new: "find_participant (mt_ID m) u db = None"
    and role: "role = MeetingRoleCohost \<or> role = MeetingRoleAttendee"
  shows "meetings_ok known (db\<lparr>db_participants := db_participants db @ [new_participant (mt_ID m) u role MeetingRSVPPending now]\<rparr>)"
proof -
  have "u \<noteq> mt_OrganizerUserID m"
    using ok m new unfolding find_participant_None meetings_ok_def roster_ok_def by blast
  moreover have "role \<noteq> MeetingRoleOrganizer" "MeetingRole_Valid role" using role by (auto simp: MeetingRole_Valid_def)
  ultimately show ?thesis
    using ok m new unfolding find_participant_None
    by (auto simp: meetings_ok_def roster_ok_def claims_ok_def participant_ok_def new_participant_def MeetingRSVP_Valid_def)
qed

lemma create_keeps_ok:
  assumes ok: "meetings_ok known db" and fresh: "fresh_meeting known m" and new: "mt_ID m \<notin> mt_ID ` set (db_meetings db)"
    and row: "mr_WorkspaceID row = mt_WorkspaceID m" "mr_ActorID row = mt_OrganizerUserID m" "mr_MeetingID row = mt_ID m"
      "\<forall>q\<in>set (db_creations db). \<not> same_request q row"
  shows "meetings_ok known (db\<lparr>db_meetings := db_meetings db @ [m],
      db_participants := db_participants db @
        [new_participant (mt_ID m) (mt_OrganizerUserID m) MeetingRoleOrganizer MeetingRSVPAccepted now],
      db_creations := db_creations db @ [row]\<rparr>)"
proof -
  let ?p = "new_participant (mt_ID m) (mt_OrganizerUserID m) MeetingRoleOrganizer MeetingRSVPAccepted now"
  have "roster_key ?p \<notin> roster_key ` set (db_participants db)"
  proof
    assume "roster_key ?p \<in> roster_key ` set (db_participants db)"
    then obtain q where "q \<in> set (db_participants db)" "mp_MeetingID q = mt_ID m" by (auto simp: new_participant_def)
    then show False using ok new unfolding meetings_ok_def roster_ok_def by (metis imageI)
  qed
  moreover have "meeting_ok known m" using fresh by (simp add: fresh_meeting_def meeting_ok_def MeetingStatus_Valid_def)
  moreover have "participant_ok ?p"
    by (simp add: participant_ok_def new_participant_def MeetingRole_Valid_def MeetingRSVP_Valid_def)
  moreover have "roster_key ?p = (mt_ID m, mt_OrganizerUserID m)" "mp_Role ?p = MeetingRoleOrganizer"
    by (simp_all add: new_participant_def)
  ultimately show ?thesis
    using ok new row by (auto simp: meetings_ok_def roster_ok_def claims_ok_def sorted_wrt_append)
qed

lemma effect_keeps_ok:
  assumes "effect known db db'" and ok: "meetings_ok known db"
  shows "meetings_ok known db'"
  using assms(1)
proof cases
  case idle
  then show ?thesis using ok by simp
next
  case (redetail m d now)
  have "MeetingStatus_Valid (mt_Status m)" using ok redetail(2) by (simp add: meetings_ok_def list_all_iff meeting_ok_def)
  then show ?thesis unfolding redetail(1) using redetail by (intro edit_keeps_ok [OF ok redetail(2)]) simp_all
next
  case (move m s now)
  have "normalizeMeetingDetails known (mt_Details m) (mt_Conversation m \<noteq> None) = Inr (mt_Details m)"
    using ok move(2) by (simp add: meetings_ok_def list_all_iff meeting_ok_def)
  then show ?thesis unfolding move(1) using move by (intro edit_keeps_ok [OF ok move(2)]) simp_all
next
  case (invite m u role now)
  then show ?thesis using invite_keeps_ok [OF ok] by blast
next
  case (rerole mid u p role now)
  have "participant_ok p" using ok find_participantD [OF rerole(2)] by (simp add: meetings_ok_def list_all_iff)
  then show ?thesis unfolding rerole(1) using rerole
    by (intro amend_keeps_ok [OF ok rerole(2,3)]) (auto simp: participant_ok_def MeetingRole_Valid_def)
next
  case (reply mid u p rsvp now)
  have "participant_ok p" using ok find_participantD [OF reply(2)] by (simp add: meetings_ok_def list_all_iff)
  then show ?thesis unfolding reply(1) using reply
    by (intro amend_keeps_ok [OF ok reply(2,3)]) (auto simp: participant_ok_def)
next
  case (uninvite mid u p)
  then show ?thesis using delete_keeps_ok [OF ok] by blast
next
  case (create m row now)
  then show ?thesis using create_keeps_ok [OF ok] by blast
qed

lemma effects_keep_ok: "(effect known)\<^sup>*\<^sup>* db db' \<Longrightarrow> meetings_ok known db \<Longrightarrow> meetings_ok known db'"
  by (induction rule: rtranclp_induct) (auto intro: effect_keeps_ok)

context uuid_library
begin

lemma meeting_step_keeps_ok: "meetings_ok known db \<Longrightarrow> meetings_ok known (meeting_step parse known digest db r)"
  by (rule meeting_step_cases [of known db digest r]) (use effects_keep_ok meetings_ok_cong in blast)+

lemma meeting_run_keeps_ok: "meetings_ok known db \<Longrightarrow> meetings_ok known (meeting_run parse known digest db reqs)"
  by (induction reqs arbitrary: db) (simp_all add: meeting_step_keeps_ok)

end

section \<open>Who comes onto a roster\<close>

lemma effect_attend: "effect known db db' \<Longrightarrow> may_attend m u db' = may_attend m u db"
  by (elim effectE) (simp_all add: update_participant_def delete_participant_def)

lemma effect_roster:
  assumes "effect known db db'" and "p \<in> set (db_participants db')"
  shows "roster_key p \<in> roster_key ` set (db_participants db) \<or>
    (\<exists>m\<in>set (db_meetings db'). mt_ID m = mp_MeetingID p \<and> may_attend m (mp_UserID p) db)"
  using assms
  by (cases rule: effect.cases)
    (auto simp: update_participant_def delete_participant_def new_participant_def intro: rev_image_eqI split: if_splits)

lemma effect_meeting:
  assumes "effect known db db'" and "m \<in> set (db_meetings db)"
  shows "\<exists>n\<in>set (db_meetings db'). mt_ID n = mt_ID m \<and> mt_WorkspaceID n = mt_WorkspaceID m \<and> mt_Conversation n = mt_Conversation m"
  using assms by (cases rule: effect.cases) (auto simp: update_participant_def delete_participant_def)

definition admitted :: "mdb \<Rightarrow> mdb \<Rightarrow> MeetingParticipant \<Rightarrow> bool" where
  "admitted after db p \<longleftrightarrow> (\<exists>m\<in>set (db_meetings after). mt_ID m = mp_MeetingID p \<and> may_attend m (mp_UserID p) db)"

lemma effect_admitted: "effect known db db' \<Longrightarrow> admitted db at p \<Longrightarrow> admitted db' at p"
  unfolding admitted_def using effect_meeting may_attend_cong by metis

lemma effects_admitted: "(effect known)\<^sup>*\<^sup>* db db' \<Longrightarrow> admitted db at p \<Longrightarrow> admitted db' at p"
  by (induction rule: rtranclp_induct) (auto intro: effect_admitted)

lemma admitted_key: "roster_key p = roster_key q \<Longrightarrow> admitted after db p = admitted after db q"
  by (simp add: admitted_def)

lemma effects_attend: "(effect known)\<^sup>*\<^sup>* db db' \<Longrightarrow> may_attend m u db' = may_attend m u db"
  by (induction rule: rtranclp_induct) (auto simp: effect_attend)

lemma effects_roster:
  "(effect known)\<^sup>*\<^sup>* db db' \<Longrightarrow> p \<in> set (db_participants db') \<Longrightarrow>
   roster_key p \<in> roster_key ` set (db_participants db) \<or> admitted db' db p"
proof (induction arbitrary: p rule: rtranclp_induct)
  case (step y z)
  from effect_roster [OF step.hyps(2) step.prems] show ?case
  proof
    assume "roster_key p \<in> roster_key ` set (db_participants y)"
    then obtain q where "q \<in> set (db_participants y)" "roster_key p = roster_key q" by blast
    then show ?thesis
      using step.IH [of q] effect_admitted [OF step.hyps(2), of db q] admitted_key [of p q z db] by metis
  next
    assume "\<exists>m\<in>set (db_meetings z). mt_ID m = mp_MeetingID p \<and> may_attend m (mp_UserID p) y"
    then show ?thesis unfolding admitted_def using effects_attend [OF step.hyps(1)] by auto
  qed
qed blast

context uuid_library
begin

lemma meeting_step_admitted: "admitted db at p \<Longrightarrow> admitted (meeting_step parse known digest db r) at p"
  by (rule meeting_step_cases [of known db digest r]) (use effects_admitted in \<open>auto simp: admitted_def\<close>)

lemma meeting_step_roster:
  "p \<in> set (db_participants (meeting_step parse known digest db r)) \<Longrightarrow>
   roster_key p \<in> roster_key ` set (db_participants db) \<or> admitted (meeting_step parse known digest db r) db p"
  by (rule meeting_step_cases [of known db digest r]) (use effects_roster in auto)

lemma meeting_run_roster:
  "p \<in> set (db_participants (meeting_run parse known digest db reqs)) \<Longrightarrow>
   roster_key p \<in> roster_key ` set (db_participants db) \<or>
   (\<exists>k<length reqs. admitted (meeting_run parse known digest db reqs) (meeting_run parse known digest db (take k reqs)) p)"
proof (induction reqs arbitrary: p rule: rev_induct)
  case (snoc r reqs)
  let ?mid = "meeting_run parse known digest db reqs" and ?after = "meeting_run parse known digest db (reqs @ [r])"
  from meeting_step_roster [OF snoc.prems [unfolded meeting_run_snoc]] show ?case
  proof
    assume "roster_key p \<in> roster_key ` set (db_participants ?mid)"
    then obtain q where q: "q \<in> set (db_participants ?mid)" "roster_key p = roster_key q" by blast
    from snoc.IH [OF q(1)] show ?thesis
    proof
      assume "\<exists>k<length reqs. admitted ?mid (meeting_run parse known digest db (take k reqs)) q"
      then obtain k where k: "k < length reqs" "admitted ?mid (meeting_run parse known digest db (take k reqs)) q" by blast
      have "admitted ?after (meeting_run parse known digest db (take k (reqs @ [r]))) p"
        using meeting_step_admitted [OF k(2)] admitted_key [OF q(2)] k(1) by (simp add: meeting_run_snoc)
      then show ?thesis using k(1) by (intro disjI2 exI [of _ k]) simp
    qed (use q in auto)
  next
    assume "admitted (meeting_step parse known digest ?mid r) ?mid p"
    then show ?thesis by (intro disjI2 exI [of _ "length reqs"]) (simp add: meeting_run_snoc)
  qed
qed simp

end

section \<open>The history of a meeting\<close>

text \<open>What may change of a meeting between two points of a run, and how.\<close>

definition evolves :: "Meeting \<Rightarrow> Meeting \<Rightarrow> bool" where
  "evolves m n \<longleftrightarrow>
     mt_ID n = mt_ID m \<and> mt_WorkspaceID n = mt_WorkspaceID m \<and> mt_Conversation n = mt_Conversation m \<and>
     mt_OrganizerUserID n = mt_OrganizerUserID m \<and> mt_RoomKey n = mt_RoomKey m \<and> mt_CreatedAt n = mt_CreatedAt m \<and>
     mt_Version m \<le> mt_Version n \<and> (mt_Version n = mt_Version m \<longrightarrow> n = m) \<and>
     (MeetingStatus_Terminal (mt_Status m) \<longrightarrow> n = m) \<and>
     (mt_Status n = mt_Status m \<or> mt_Status m = MeetingStatusScheduled \<or>
      mt_Status m = MeetingStatusInProgress \<and> mt_Status n = MeetingStatusEnded)"

lemma evolves_refl: "evolves m m"
  by (simp add: evolves_def)

lemma evolves_trans:
  assumes "evolves a b" and "evolves b c"
  shows "evolves a c"
  using assms unfolding evolves_def MeetingStatus_Terminal_def by (smt (verit))

lemma meeting_unique:
  assumes "meetings_ok known db" and "x \<in> set (db_meetings db)" and "y \<in> set (db_meetings db)" and "mt_ID x = mt_ID y"
  shows "x = y"
  using assms by (auto simp: meetings_ok_def distinct_map inj_on_def)

lemma edit_evolves:
  assumes ok: "meetings_ok known db" and q: "q \<in> set (db_meetings db)" and n: "mt_ID n = mt_ID q" "mt_WorkspaceID n = mt_WorkspaceID q"
    and x: "x \<in> set (db_meetings db)" and live: "\<not> MeetingStatus_Terminal (mt_Status q)"
    and status: "mt_Status n = mt_Status q \<or> mt_Status q = MeetingStatusScheduled \<or>
      mt_Status q = MeetingStatusInProgress \<and> mt_Status n = MeetingStatusEnded"
  shows "evolves x (edit_row n now x)"
proof (cases "mt_ID x = mt_ID n")
  case True
  then have "x = q" using meeting_unique [OF ok x q] n(1) by simp
  then show ?thesis using live status by (simp add: evolves_def edit_row_def)
next
  case False
  then show ?thesis using evolves_refl by (simp add: edit_row_def)
qed

lemma effect_evolves:
  assumes "effect known db db'" and ok: "meetings_ok known db" and m: "m \<in> set (db_meetings db)"
  shows "\<exists>n\<in>set (db_meetings db'). evolves m n"
  using assms(1)
proof cases
  case (redetail q d now)
  have "evolves m (edit_row (q\<lparr>mt_Details := d\<rparr>) now m)" using redetail m by (intro edit_evolves [OF ok redetail(2)]) simp_all
  then show ?thesis unfolding redetail(1) using m by auto
next
  case (move q s now)
  have "mt_Status q = MeetingStatusScheduled \<or> mt_Status q = MeetingStatusInProgress \<and> s = MeetingStatusEnded"
    using move(3) by (auto simp: MeetingStatus_CanTransitionTo_def meetingTransitions_def split: if_splits)
  then have "evolves m (edit_row (q\<lparr>mt_Status := s\<rparr>) now m)"
    using m by (intro edit_evolves [OF ok move(2)]) (auto simp: MeetingStatus_Terminal_def)
  then show ?thesis unfolding move(1) using m by auto
qed (use m evolves_refl in \<open>auto simp: update_participant_def delete_participant_def\<close>)

lemma effects_evolve:
  "(effect known)\<^sup>*\<^sup>* db db' \<Longrightarrow> meetings_ok known db \<Longrightarrow> m \<in> set (db_meetings db) \<Longrightarrow> \<exists>n\<in>set (db_meetings db'). evolves m n"
proof (induction rule: rtranclp_induct)
  case base
  then show ?case using evolves_refl by blast
next
  case (step y z)
  then show ?case using effect_evolves effects_keep_ok evolves_trans by meson
qed

context uuid_library
begin

lemma meeting_run_evolves:
  "meetings_ok known db \<Longrightarrow> m \<in> set (db_meetings db) \<Longrightarrow> \<exists>n\<in>set (db_meetings (meeting_run parse known digest db reqs)). evolves m n"
proof (induction reqs arbitrary: db m)
  case (Cons r reqs)
  have "\<exists>n\<in>set (db_meetings (meeting_step parse known digest db r)). evolves m n"
    by (rule meeting_step_cases [of known db digest r]) (use effects_evolve Cons.prems in blast, use evolves_refl Cons.prems in auto)
  then show ?case using Cons.IH [OF meeting_step_keeps_ok [OF Cons.prems(1)]] evolves_trans by simp meson
qed (auto intro: evolves_refl)

end

section \<open>The UUID library\<close>

text \<open>The canonical spelling of a UUID, in the form \<open>uuid.Parse\<close> documents first: 36 characters, hyphens at 8, 13, 18 and 23.\<close>

definition hex_digit :: "char \<Rightarrow> bool" where
  "hex_digit c \<longleftrightarrow> c \<in> set ''0123456789abcdefABCDEF''"

definition rfc4122 :: "string \<Rightarrow> string option" where
  "rfc4122 s =
     (if length s = 36 \<and> list_all (\<lambda>i. if i \<in> {8, 13, 18, 23} then s ! i = CHR ''-'' else hex_digit (s ! i)) [0..<36]
      then Some (map ascii_lower s) else None)"

lemma ascii_lower_idem: "ascii_lower (ascii_lower c) = ascii_lower c"
  by (simp add: ascii_lower_def Let_def)

lemma ascii_lower_hex: "hex_digit c \<Longrightarrow> hex_digit (ascii_lower c)"
proof -
  have "list_all (\<lambda>c. hex_digit (ascii_lower c)) ''0123456789abcdefABCDEF''" by code_simp
  then show "hex_digit c \<Longrightarrow> hex_digit (ascii_lower c)" unfolding list_all_iff hex_digit_def by blast
qed

lemma rfc4122_canonical:
  assumes "rfc4122 s = Some u"
  shows "rfc4122 u = Some u"
proof -
  let ?ok = "\<lambda>s i. if i \<in> {8, 13, 18, 23::nat} then s ! i = CHR ''-'' else hex_digit (s ! i)"
  have len: "length s = 36" and u: "u = map ascii_lower s" and ok: "\<forall>i\<in>set [0..<36]. ?ok s i"
    using assms unfolding rfc4122_def list_all_iff by (simp_all split: if_splits)
  have dash: "ascii_lower CHR ''-'' = CHR ''-''" by code_simp
  have "\<forall>i\<in>set [0..<36]. ?ok u i"
  proof
    fix i :: nat assume i: "i \<in> set [0..<36]"
    show "?ok u i" using bspec [OF ok i] i len ascii_lower_hex [of "s ! i"] unfolding u by (simp add: dash split: if_splits)
  qed
  moreover have "map ascii_lower u = u" "length u = 36" using len by (simp_all add: u ascii_lower_idem)
  ultimately show ?thesis unfolding rfc4122_def list_all_iff by presburger
qed

interpretation canonical_uuid: uuid_library rfc4122
proof
  show "rfc4122 s = Some u \<Longrightarrow> rfc4122 u = Some u" for s u by (rule rfc4122_canonical)
  show "rfc4122 s = Some u \<Longrightarrow> u \<noteq> ''''" for s u by (auto simp: rfc4122_def split: if_splits)
qed

section \<open>What every run keeps\<close>

lemma one_organizer:
  assumes ok: "meetings_ok known db" and m: "m \<in> set (db_meetings db)"
  shows "\<exists>!p. p \<in> set (db_participants db) \<and> mp_MeetingID p = mt_ID m \<and> mp_Role p = MeetingRoleOrganizer"
proof -
  have role: "mp_Role p = MeetingRoleOrganizer \<longleftrightarrow> mp_UserID p = mt_OrganizerUserID m"
    if p: "p \<in> set (db_participants db)" "mp_MeetingID p = mt_ID m" for p
  proof -
    obtain n where n: "n \<in> set (db_meetings db)" "mt_ID n = mp_MeetingID p"
      "mp_Role p = MeetingRoleOrganizer \<longleftrightarrow> mp_UserID p = mt_OrganizerUserID n"
      using ok p(1) unfolding meetings_ok_def roster_ok_def by blast
    then have "n = m" using meeting_unique [OF ok _ m] p(2) by simp
    then show ?thesis using n(3) by simp
  qed
  have "(mt_ID m, mt_OrganizerUserID m) \<in> roster_key ` set (db_participants db)"
    using ok m unfolding meetings_ok_def roster_ok_def by blast
  then obtain p where p: "p \<in> set (db_participants db)" "mp_MeetingID p = mt_ID m" "mp_UserID p = mt_OrganizerUserID m"
    by auto
  have inj: "inj_on roster_key (set (db_participants db))" using ok by (simp add: meetings_ok_def distinct_map)
  show ?thesis
  proof (rule ex1I [of _ p])
    fix q assume "q \<in> set (db_participants db) \<and> mp_MeetingID q = mt_ID m \<and> mp_Role q = MeetingRoleOrganizer"
    then show "q = p" using inj_onD [OF inj, of q p] role [of q] p by simp
  qed (use p role in simp)
qed

text \<open>
  Claim C3. Every sequence of meeting requests, whatever the rest of the system does in between, keeps the rules
  of migration 000070: identifiers and roster keys are unique, details are in normal form (so a title, a positive interval and a
  policy that fits the conversation), the room key is the meeting's own, statuses, roles and answers are known ones,
  every roster row has its meeting, every idempotency key its own creation, and each meeting has exactly
  one organizer row, that of its organizer, who has accepted. And whoever is on a roster at the end and was not at the start came
  onto it by one of the requests, in a state in which they might attend that meeting: as an active member of its
  workspace above guest, with an enabled account, who could read its conversation if it has one.
\<close>

theorem meeting_integrity:
  fixes digest :: "creation_intent \<Rightarrow> string option" and reqs :: "(go_time \<times> meeting_request) list"
  assumes "uuid_library parse" and "meetings_ok known db"
  defines "after \<equiv> meeting_run parse known digest db reqs"
  shows "meetings_ok known after \<and>
    (\<forall>m\<in>set (db_meetings after). \<exists>!p. p \<in> set (db_participants after) \<and> mp_MeetingID p = mt_ID m \<and>
       mp_Role p = MeetingRoleOrganizer) \<and>
    (\<forall>p\<in>set (db_participants after). roster_key p \<in> roster_key ` set (db_participants db) \<or>
       (\<exists>k<length reqs. \<exists>m\<in>set (db_meetings after). mt_ID m = mp_MeetingID p \<and>
          may_attend m (mp_UserID p) (meeting_run parse known digest db (take k reqs))))"
proof -
  have "meetings_ok known after"
    using uuid_library.meeting_run_keeps_ok [OF assms(1,2)] by (simp add: after_def)
  then show ?thesis
    using one_organizer uuid_library.meeting_run_roster [OF assms(1)] unfolding after_def admitted_def by blast
qed

lemma example_mdb_ok: "meetings_ok (\<lambda>_. True) example_mdb"
  by code_simp

theorem meeting_integrity_witness:
  "meetings_ok (\<lambda>_. True) (meeting_run rfc4122 (\<lambda>_. True) (\<lambda>_. Some ''h'') example_mdb
     [(7, Req_Cancel \<lparr>ms_WorkspaceID = example_ws, ms_ActorID = example_organizer, ms_MeetingID = example_id\<rparr> 1)])"
  using meeting_integrity [OF canonical_uuid.uuid_library_axioms example_mdb_ok] by blast

text \<open>
  A meeting is never lost, and its history only goes forward: identity, workspace, conversation, organizer,
  room and creation time never change; the version never decreases and an unchanged version means an unchanged
  meeting; the status follows the lifecycle; and an ended or cancelled meeting never changes again.
\<close>

theorem meeting_history:
  assumes "uuid_library parse" and "meetings_ok known db" and "m \<in> set (db_meetings db)"
  shows "\<exists>n\<in>set (db_meetings (meeting_run parse known digest db reqs)). evolves m n"
  by (rule uuid_library.meeting_run_evolves [OF assms])

theorem meeting_history_witness:
  "\<exists>n\<in>set (db_meetings (meeting_run rfc4122 (\<lambda>_. True) (\<lambda>_. Some ''h'') example_mdb
     [(7, Req_Cancel \<lparr>ms_WorkspaceID = example_ws, ms_ActorID = example_organizer, ms_MeetingID = example_id\<rparr> 1)])). evolves example_meeting n"
  by (rule meeting_history [OF canonical_uuid.uuid_library_axioms example_mdb_ok]) (simp add: example_mdb_def)

end
