(* ===== verification/Meeting_Requests.thy ===== *)
theory Meeting_Requests
  imports Meeting_Invariant "HOL-Library.Multiset"
begin

text \<open>
  What a client may rely on: walking the roster's pages visits every participant once, and a creation
  may be retried with its idempotency key.
\<close>

section \<open>Walking the pages\<close>

text \<open>A client's walk: fetch a page, go on from its cursor until there is none; \<open>None\<close> is a walk cut off by its fuel.\<close>

fun walk_pages :: "nat \<Rightarrow> (string \<Rightarrow> 'e + 'a list \<times> string) \<Rightarrow> string \<Rightarrow> ('e + 'a list) option" where
  "walk_pages 0 fetch after = None"
| "walk_pages (Suc n) fetch after =
     (case fetch after of
        Inl e \<Rightarrow> Some (Inl e)
      | Inr (items, cursor) \<Rightarrow>
          if cursor = '''' then Some (Inr items)
          else case walk_pages n fetch cursor of
                 None \<Rightarrow> None
               | Some (Inl e) \<Rightarrow> Some (Inl e)
               | Some (Inr rest) \<Rightarrow> Some (Inr (items @ rest)))"

abbreviation beyond :: "('a \<Rightarrow> string) \<Rightarrow> string \<Rightarrow> 'a \<Rightarrow> bool" where
  "beyond key after r \<equiv> after = '''' \<or> after < key r"

lemma filter_beyond_nth:
  assumes "sorted_wrt (\<lambda>a b. key a < key b) R" and "k < length R"
  shows "filter (\<lambda>r. key (R ! k) < (key r :: string)) R = drop (Suc k) R"
proof -
  have split: "R = take (Suc k) R @ drop (Suc k) R" by simp
  have "\<not> key (R ! k) < key r" if r: "r \<in> set (take (Suc k) R)" for r
  proof -
    obtain i where "i < length (take (Suc k) R)" "take (Suc k) R ! i = r" using r unfolding in_set_conv_nth by blast
    then have "i \<le> k" "r = R ! i" by simp_all
    then show ?thesis using assms sorted_wrt_nth_less [OF assms(1), of i k] by (cases "i = k") (auto dest: order_less_imp_not_less)
  qed
  then have "filter (\<lambda>r. key (R ! k) < key r) (take (Suc k) R) = []" by (simp add: filter_empty_conv)
  moreover have "key (R ! k) < key r" if r: "r \<in> set (drop (Suc k) R)" for r
  proof -
    obtain i where "i < length (drop (Suc k) R)" "drop (Suc k) R ! i = r" using r unfolding in_set_conv_nth by blast
    then show ?thesis using sorted_wrt_nth_less [OF assms(1), of k "Suc (k + i)"] assms(2) by simp
  qed
  then have "filter (\<lambda>r. key (R ! k) < key r) (drop (Suc k) R) = drop (Suc k) R" by simp
  ultimately show ?thesis using split by (metis append_Nil filter_append)
qed

lemma beyond_cursor:
  assumes "sorted_wrt (\<lambda>a b. key a < key b) rows" and "\<And>r. r \<in> set rows \<Longrightarrow> key r \<noteq> ''''"
    and "k < length (filter (beyond key after) rows)"
  defines "c \<equiv> key (filter (beyond key after) rows ! k)"
  shows "c \<noteq> '''' \<and> c \<in> key ` set rows \<and> filter (beyond key c) rows = drop (Suc k) (filter (beyond key after) rows)"
proof -
  let ?R = "filter (beyond key after) rows"
  have mem: "?R ! k \<in> set ?R" using assms(3) by (rule nth_mem)
  then have c: "c \<noteq> ''''" "c \<in> key ` set rows" "after = '''' \<or> after < c"
    using assms(2) by (auto simp: c_def)
  have "filter (beyond key c) rows = filter (\<lambda>r. c < key r) ?R"
    unfolding filter_filter using c by (intro filter_cong) auto
  also have "\<dots> = drop (Suc k) ?R"
    unfolding c_def using assms(3) by (intro filter_beyond_nth) (use assms(1) in \<open>simp_all add: sorted_wrt_filter\<close>)
  finally show ?thesis using c by simp
qed

lemma walk_pages_all:
  assumes rows: "sorted_wrt (\<lambda>a b. key a < key b) rows" "\<And>r. r \<in> set rows \<Longrightarrow> key r \<noteq> ''''" and limit: "1 \<le> limit"
    and fetch: "\<And>after. after = '''' \<or> after \<in> key ` set rows \<Longrightarrow>
      fetch after = Inr (cut_page key limit (take (nat limit + 1) (filter (beyond key after) rows)))"
  shows "after = '''' \<or> after \<in> key ` set rows \<Longrightarrow> length (filter (beyond key after) rows) < n \<Longrightarrow>
    walk_pages n fetch after = Some (Inr (filter (beyond key after) rows))"
proof (induction n arbitrary: after)
  case (Suc n)
  let ?R = "filter (beyond key after) rows"
  show ?case
  proof (cases "length ?R \<le> nat limit")
    case True
    then show ?thesis using fetch [OF Suc.prems(1)] by (simp add: cut_page_def)
  next
    case False
    let ?k = "nat limit - 1"
    let ?c = "key (?R ! ?k)"
    have k: "?k < length ?R" "Suc ?k = nat limit" using False limit by linarith+
    note c = beyond_cursor [OF rows k(1)]
    have page: "fetch after = Inr (take (nat limit) ?R, ?c)"
      using fetch [OF Suc.prems(1)] False limit k by (simp add: cut_page_def Let_def min_def)
    have rest: "filter (beyond key ?c) rows = drop (nat limit) ?R" using c unfolding k(2) by blast
    have "length (drop (nat limit) ?R) < n" using Suc.prems(2) limit False by simp
    then have "walk_pages n fetch ?c = Some (Inr (drop (nat limit) ?R))"
      using Suc.IH [of ?c] c unfolding rest by blast
    then show ?thesis using page c by simp
  qed
qed simp

section \<open>The roster's pages\<close>

lemma PageQuery_Normalize_cursor:
  assumes "uuid_library parse" and "1 \<le> limit" and "limit \<le> 100" and "after = '''' \<or> parse after = Some after \<and> after \<noteq> uuid_Nil"
  shows "PageQuery_Normalize parse \<lparr>pq_After = after, pq_Search = '''', pq_Limit = limit\<rparr> =
    Inr \<lparr>pq_After = after, pq_Search = '''', pq_Limit = limit\<rparr>"
proof -
  have "ValidString '''' \<and> RuneCountInString '''' = 0 \<and> go_runes '''' = []" by code_simp
  then show ?thesis using assms(2-4) by (auto simp: PageQuery_Normalize_def Let_def)
qed

definition meeting_rows :: "string \<Rightarrow> mdb \<Rightarrow> MeetingParticipant list" where
  "meeting_rows mid db = sort_key mp_UserID (filter (\<lambda>p. mp_MeetingID p = mid) (db_participants db))"

lemma sort_key_strict:
  assumes "distinct (map f xs)"
  shows "sorted_wrt (\<lambda>a b. f a < f b) (sort_key f xs)"
proof -
  have "sorted_wrt (<) (map f (sort_key f xs))"
    using assms by (simp add: strict_sorted_iff distinct_map)
  then show ?thesis by (simp add: sorted_wrt_map)
qed

lemma meeting_rows_strict:
  assumes "meetings_ok known db"
  shows "sorted_wrt (\<lambda>a b. mp_UserID a < mp_UserID b) (meeting_rows mid db)"
proof -
  have "inj_on roster_key (set (db_participants db))" "distinct (db_participants db)"
    using assms by (simp_all add: meetings_ok_def distinct_map)
  then have "distinct (map mp_UserID (filter (\<lambda>p. mp_MeetingID p = mid) (db_participants db)))"
    by (auto simp: distinct_map inj_on_def)
  then show ?thesis unfolding meeting_rows_def by (rule sort_key_strict)
qed

lemma ListMeetingParticipants_page:
  assumes "GetMeeting parse scope db = Inr (m, roster)" and "1 \<le> limit" and q: "PageQuery_Normalize parse q = Inr q"
    and "pq_Search q = ''''" "pq_Limit q = limit"
  shows "service_ListMeetingParticipants parse scope q db =
    Inr (cut_page mp_UserID limit (take (nat limit + 1) (filter (beyond mp_UserID (pq_After q)) (meeting_rows (mt_ID m) db))))"
proof -
  have read: "withMeeting_read parse scope (\<lambda>m actor. require_ok (AuthorizeMeeting m actor MeetingCapabilityView) (Inr (g m))) db = Inr (g m)"
    for g :: "Meeting \<Rightarrow> MeetingParticipant list"
    using assms(1) by (auto simp: GetMeeting_def withMeeting_read_def bind_err_Inr_iff split: option.splits)
  have "queryMeetingParticipantPage (mt_ID m) q db =
      take (nat limit + 1) (filter (beyond mp_UserID (pq_After q)) (meeting_rows (mt_ID m) db))"
    by (simp add: queryMeetingParticipantPage_def meeting_rows_def filter_sort assms(5) conj_commute)
  then show ?thesis using q assms(4,5) by (simp add: service_ListMeetingParticipants_def ListMeetingParticipants_def read)
qed

text \<open>
  Claim C35. Walking the roster page by page, with any page size the service accepts, ends, and shows every
  participant that reading the meeting shows, each exactly once and in the order of their identifiers.
\<close>

theorem roster_pages_complete:
  assumes "uuid_library parse" and "meetings_ok known db" and "GetMeeting parse scope db = Inr (m, roster)"
    and "1 \<le> limit" and "limit \<le> 100"
    and "\<forall>p\<in>set (db_participants db). parse (mp_UserID p) = Some (mp_UserID p) \<and> mp_UserID p \<noteq> uuid_Nil"
  shows "\<exists>rows. walk_pages (Suc (length roster))
      (\<lambda>after. service_ListMeetingParticipants parse scope \<lparr>pq_After = after, pq_Search = '''', pq_Limit = limit\<rparr> db) '''' =
      Some (Inr rows) \<and> mset rows = mset roster \<and> sorted_wrt (\<lambda>a b. mp_UserID a < mp_UserID b) rows"
proof (intro exI conjI)
  let ?rows = "meeting_rows (mt_ID m) db"
  have roster: "mset roster = mset ?rows" "length roster = length ?rows"
    using assms(3) by (auto simp: GetMeeting_def withMeeting_read_def bind_err_Inr_iff meeting_rows_def split: option.splits)
  then show "mset ?rows = mset roster" by simp
  show "sorted_wrt (\<lambda>a b. mp_UserID a < mp_UserID b) ?rows" by (rule meeting_rows_strict [OF assms(2)])
  have ids: "parse (mp_UserID p) = Some (mp_UserID p) \<and> mp_UserID p \<noteq> uuid_Nil" if "p \<in> set ?rows" for p
    using that assms(6) by (auto simp: meeting_rows_def)
  then have keys: "mp_UserID p \<noteq> ''''" if "p \<in> set ?rows" for p
    using that uuid_library.parse_nonempty [OF assms(1)] by blast
  have fetch: "service_ListMeetingParticipants parse scope \<lparr>pq_After = after, pq_Search = '''', pq_Limit = limit\<rparr> db =
      Inr (cut_page mp_UserID limit (take (nat limit + 1) (filter (beyond mp_UserID after) ?rows)))"
    if "after = '''' \<or> after \<in> mp_UserID ` set ?rows" for after
    using ListMeetingParticipants_page [OF assms(3,4) PageQuery_Normalize_cursor [OF assms(1,4,5), of after]] that ids by auto
  show "walk_pages (Suc (length roster))
      (\<lambda>after. service_ListMeetingParticipants parse scope \<lparr>pq_After = after, pq_Search = '''', pq_Limit = limit\<rparr> db) '''' =
      Some (Inr ?rows)"
    using walk_pages_all [OF meeting_rows_strict [OF assms(2)] keys assms(4) fetch, of "''''" "Suc (length roster)"] roster(2) by simp
qed

theorem roster_pages_complete_witness:
  "\<exists>rows. walk_pages 2
      (\<lambda>after. service_ListMeetingParticipants rfc4122 \<lparr>ms_WorkspaceID = example_ws, ms_ActorID = example_organizer, ms_MeetingID = example_id\<rparr>
         \<lparr>pq_After = after, pq_Search = '''', pq_Limit = 1\<rparr> example_mdb) '''' = Some (Inr rows) \<and>
    mset rows = mset (db_participants example_mdb)"
proof -
  have "GetMeeting rfc4122 \<lparr>ms_WorkspaceID = example_ws, ms_ActorID = example_organizer, ms_MeetingID = example_id\<rparr> example_mdb =
      Inr (example_meeting, db_participants example_mdb)" by code_simp
  moreover have "list_all (\<lambda>p. rfc4122 (mp_UserID p) = Some (mp_UserID p) \<and> mp_UserID p \<noteq> uuid_Nil) (db_participants example_mdb)"
    by code_simp
  moreover have "length (db_participants example_mdb) = 1" by (simp add: example_mdb_def)
  ultimately show ?thesis
    using roster_pages_complete [OF canonical_uuid.uuid_library_axioms example_mdb_ok, of _ example_meeting "db_participants example_mdb" 1]
    unfolding list_all_iff by (metis One_nat_def Suc_1 order_refl one_le_numeral)
qed

section \<open>Retrying a creation\<close>

definition norm_invitee :: "(string \<Rightarrow> string option) \<Rightarrow> MeetingInvitee \<Rightarrow> MeetingInvitee option" where
  "norm_invitee parse p =
     (case canonicalizeUserID parse (go_trim_space (mi_UserID p)) of
        Inl _ \<Rightarrow> None
      | Inr u \<Rightarrow>
          let role = (if mi_Role p = '''' then MeetingRoleAttendee else mi_Role p) in
          if role \<noteq> MeetingRoleAttendee \<and> role \<noteq> MeetingRoleCohost then None
          else Some \<lparr>mi_UserID = u, mi_Role = role\<rparr>)"

lemma invitee_loop_Inr:
  "invitee_loop parse organizer acc ps = Inr r \<Longrightarrow>
   (\<forall>p\<in>set ps. norm_invitee parse p \<noteq> None) \<and>
   r = acc @ map (\<lambda>p. the (norm_invitee parse p)) ps \<and>
   (distinct (map mi_UserID acc) \<longrightarrow> distinct (map mi_UserID r)) \<and> (\<forall>p\<in>set r - set acc. mi_UserID p \<noteq> organizer)"
proof (induction ps arbitrary: acc)
  case (Cons p ps)
  obtain u role where u: "canonicalizeUserID parse (go_trim_space (mi_UserID p)) = Inr u" "u \<noteq> organizer" "u \<notin> mi_UserID ` set acc"
    and role: "role = (if mi_Role p = '''' then MeetingRoleAttendee else mi_Role p)" "role = MeetingRoleAttendee \<or> role = MeetingRoleCohost"
    and rest: "invitee_loop parse organizer (acc @ [\<lparr>mi_UserID = u, mi_Role = role\<rparr>]) ps = Inr r"
    using Cons.prems by (auto simp: Let_def split: sum.splits if_splits)
  have p: "norm_invitee parse p = Some \<lparr>mi_UserID = u, mi_Role = role\<rparr>"
    using u(1) role by (auto simp: norm_invitee_def Let_def)
  have "distinct (map mi_UserID r)" if "distinct (map mi_UserID acc)"
  proof -
    have "distinct (map mi_UserID (acc @ [\<lparr>mi_UserID = u, mi_Role = role\<rparr>]))" using that u(3) by simp
    then show ?thesis using Cons.IH [OF rest] by blast
  qed
  then show ?case using Cons.IH [OF rest] p u by (auto simp del: distinct_append)
qed simp

lemma invitee_loop_complete:
  assumes "\<forall>p\<in>set ps. norm_invitee parse p \<noteq> None"
    and "distinct (map mi_UserID (acc @ map (\<lambda>p. the (norm_invitee parse p)) ps))"
    and "\<forall>p\<in>set ps. mi_UserID (the (norm_invitee parse p)) \<noteq> organizer"
  shows "invitee_loop parse organizer acc ps = Inr (acc @ map (\<lambda>p. the (norm_invitee parse p)) ps)"
  using assms
proof (induction ps arbitrary: acc)
  case (Cons p ps)
  obtain q where q: "norm_invitee parse p = Some q" using Cons.prems(1) by auto
  then have u: "canonicalizeUserID parse (go_trim_space (mi_UserID p)) = Inr (mi_UserID q)"
    and role: "mi_Role q = (if mi_Role p = '''' then MeetingRoleAttendee else mi_Role p)"
      "mi_Role q = MeetingRoleAttendee \<or> mi_Role q = MeetingRoleCohost"
    by (auto simp: norm_invitee_def Let_def split: sum.splits if_splits)
  have eq: "q = \<lparr>mi_UserID = mi_UserID q, mi_Role = mi_Role q\<rparr>" by simp
  have "invitee_loop parse organizer (acc @ [q]) ps = Inr ((acc @ [q]) @ map (\<lambda>p. the (norm_invitee parse p)) ps)"
    using Cons.prems q by (intro Cons.IH) auto
  moreover have "mi_UserID q \<noteq> organizer" "mi_UserID q \<notin> mi_UserID ` set acc" using Cons.prems q by auto
  moreover have "invitee_loop parse organizer acc (p # ps) = invitee_loop parse organizer (acc @ [q]) ps"
    if "mi_UserID q \<noteq> organizer" "mi_UserID q \<notin> mi_UserID ` set acc"
    using that u role(2) unfolding invitee_loop.simps Let_def role(1) [symmetric] by (cases q) auto
  ultimately show ?case using q by simp
qed simp

text \<open>The order in which a client lists the invitees does not matter.\<close>

lemma normalizeMeetingInvitees_perm:
  assumes "normalizeMeetingInvitees parse organizer ps = Inr r" and "mset qs = mset ps"
  shows "normalizeMeetingInvitees parse organizer qs = Inr r"
proof -
  let ?f = "\<lambda>p. the (norm_invitee parse p)"
  obtain s where s: "invitee_loop parse organizer [] ps = Inr s" and r: "r = sort_key mi_UserID s"
    using assms(1) by (auto simp: normalizeMeetingInvitees_def bind_err_Inr_iff)
  note loop = invitee_loop_Inr [OF s]
  have sets: "set qs = set ps" using assms(2) by (metis set_mset_mset)
  have perm: "mset (map ?f qs) = mset s" using loop assms(2) by simp
  then have ids: "mset (map mi_UserID (map ?f qs)) = mset (map mi_UserID s)" unfolding mset_map by simp
  have dist: "distinct (map mi_UserID s)" using loop by (metis distinct.simps(1) list.map(1))
  then have dist': "distinct (map mi_UserID (map ?f qs))" using ids by (metis mset_eq_imp_distinct_iff)
  have org: "\<forall>p\<in>set qs. mi_UserID (?f p) \<noteq> organizer" using loop sets by auto
  have "invitee_loop parse organizer [] qs = Inr ([] @ map ?f qs)"
    by (rule invitee_loop_complete) (use loop sets dist' org in auto)
  moreover have ds: "distinct (map mi_UserID (sort_key mi_UserID xs)) = distinct (map mi_UserID xs)" for xs :: "MeetingInvitee list"
    by (simp add: distinct_map)
  moreover have "sort_key mi_UserID (map ?f qs) = sort_key mi_UserID s"
  proof (rule map_sorted_distinct_set_unique)
    have "set (map ?f qs) = set s" using perm by (metis set_mset_mset)
    then show "inj_on mi_UserID (set (sort_key mi_UserID (map ?f qs)) \<union> set (sort_key mi_UserID s))"
      and "set (sort_key mi_UserID (map ?f qs)) = set (sort_key mi_UserID s)"
      using dist by (simp_all add: distinct_map)
  qed (use dist dist' ds in \<open>simp_all del: map_map\<close>)
  ultimately show ?thesis by (simp add: normalizeMeetingInvitees_def r)
qed

lemma insert_invitees_appends:
  "insert_invitees now m ps db = Inr db' \<Longrightarrow> \<exists>qs. db' = db\<lparr>db_participants := db_participants db @ qs\<rparr>"
proof (induction ps arbitrary: db)
  case Nil
  then have "db' = db\<lparr>db_participants := db_participants db @ []\<rparr>" by simp
  then show ?case by blast
next
  case (Cons p ps)
  let ?p = "new_participant (mt_ID m) (mi_UserID p) (mi_Role p) MeetingRSVPPending now"
  obtain qs where "db' = db\<lparr>db_participants := (db_participants db @ [?p]) @ qs\<rparr>"
    using Cons.IH [of "db\<lparr>db_participants := db_participants db @ [?p]\<rparr>"] Cons.prems by (auto split: if_splits)
  then have "db' = db\<lparr>db_participants := db_participants db @ (?p # qs)\<rparr>" by simp
  then show ?case by blast
qed

definition request_row :: "MeetingCreation \<Rightarrow> meeting_request_row" where
  "request_row c = \<lparr>mr_WorkspaceID = mt_WorkspaceID (mx_Meeting c), mr_ActorID = mt_OrganizerUserID (mx_Meeting c),
     mr_Key = mx_IdempotencyKey c, mr_Hash = mx_RequestHash c, mr_MeetingID = mt_ID (mx_Meeting c)\<rparr>"

lemma createMeetingInTx_created:
  assumes "createMeetingInTx now c db = Inr ((m, False), db')" and "mx_IdempotencyKey c \<noteq> ''''"
  obtains qs where "m = (mx_Meeting c)\<lparr>mt_CreatedAt := now, mt_UpdatedAt := now\<rparr>"
    and "mt_ID m \<notin> mt_ID ` set (db_meetings db)" and "\<forall>q\<in>set (db_creations db). \<not> same_request q (request_row c)"
    and "db' = db\<lparr>db_meetings := db_meetings db @ [m],
      db_participants := db_participants db @
        new_participant (mt_ID m) (mt_OrganizerUserID m) MeetingRoleOrganizer MeetingRSVPAccepted now # qs,
      db_creations := db_creations db @ [request_row c]\<rparr>"
    and "authorizeMeetingCreation c (db\<lparr>db_creations := db_creations db @ [request_row c]\<rparr>) = None"
proof -
  let ?db = "db\<lparr>db_creations := db_creations db @ [request_row c]\<rparr>"
  obtain claimed db1 where c: "claimMeetingCreation c db = Inr (claimed, db1)" and
    rest: "(case claimed of
       Some mid \<Rightarrow> bind_err (replayMeetingCreation (mx_Meeting c) mid db1) (\<lambda>m. Inr ((m, True), db1))
     | None \<Rightarrow> require_ok (authorizeMeetingCreation c db1)
           (bind_err (insertMeeting now (mx_Meeting c) db1) (\<lambda>(m, db').
            bind_err (insert_invitees now m (mx_Participants c) db') (\<lambda>db''. Inr ((m, False), db''))))) = Inr ((m, False), db')"
    using assms unfolding createMeetingInTx_def by (auto simp: bind_err_Inr_iff)
  have None: "claimed = None" using rest by (cases claimed) (auto simp: bind_err_Inr_iff)
  have db1: "db1 = ?db" and new: "\<forall>q\<in>set (db_creations db). \<not> same_request q (request_row c)"
    using c None by (auto simp: claimMeetingCreation_def request_row_def same_request_def Let_def find_None_iff split: option.splits if_splits)
  obtain db2 where auth: "authorizeMeetingCreation c ?db = None" and m: "insertMeeting now (mx_Meeting c) ?db = Inr (m, db2)"
    and ps: "insert_invitees now m (mx_Participants c) db2 = Inr db'"
    using rest None db1 by (auto simp: bind_err_Inr_iff)
  obtain qs where qs: "db' = db2\<lparr>db_participants := db_participants db2 @ qs\<rparr>" using insert_invitees_appends [OF ps] by blast
  show thesis
  proof (rule that)
    show "m = (mx_Meeting c)\<lparr>mt_CreatedAt := now, mt_UpdatedAt := now\<rparr>" "mt_ID m \<notin> mt_ID ` set (db_meetings db)"
      using m by (auto simp: insertMeeting_def Let_def list_ex_iff split: if_splits)
    show "db' = db\<lparr>db_meetings := db_meetings db @ [m],
      db_participants := db_participants db @
        new_participant (mt_ID m) (mt_OrganizerUserID m) MeetingRoleOrganizer MeetingRSVPAccepted now # qs,
      db_creations := db_creations db @ [request_row c]\<rparr>"
      using m qs by (auto simp: insertMeeting_def Let_def split: if_splits)
  qed (use new auth in auto)
qed

lemma find_append_fresh: "\<forall>x\<in>set xs. \<not> P x \<Longrightarrow> P y \<Longrightarrow> find P (xs @ y # ys) = Some y"
  by (induction xs) auto

text \<open>A created meeting is replayed to its organizer as it was created.\<close>

lemma created_replays:
  assumes created: "createMeetingInTx now c db = Inr ((m, False), db')" "mx_IdempotencyKey c \<noteq> ''''" and ok: "meetings_ok known db"
    and again: "mt_WorkspaceID (mx_Meeting d) = mt_WorkspaceID (mx_Meeting c)"
      "mt_OrganizerUserID (mx_Meeting d) = mt_OrganizerUserID (mx_Meeting c)" "mx_IdempotencyKey d = mx_IdempotencyKey c"
  shows "createMeetingInTx now' d db' =
    (if mx_RequestHash d = mx_RequestHash c then Inr ((m, True), db') else Inl ErrIdempotencyKeyReused)"
proof -
  let ?org = "mt_OrganizerUserID m"
  let ?row = "new_participant (mt_ID m) ?org MeetingRoleOrganizer MeetingRSVPAccepted now"
  obtain qs where m: "m = (mx_Meeting c)\<lparr>mt_CreatedAt := now, mt_UpdatedAt := now\<rparr>"
    and fresh: "mt_ID m \<notin> mt_ID ` set (db_meetings db)" and new: "\<forall>q\<in>set (db_creations db). \<not> same_request q (request_row c)"
    and db': "db' = db\<lparr>db_meetings := db_meetings db @ [m], db_participants := db_participants db @ ?row # qs,
      db_creations := db_creations db @ [request_row c]\<rparr>"
    and auth: "authorizeMeetingCreation c (db\<lparr>db_creations := db_creations db @ [request_row c]\<rparr>) = None"
    by (rule createMeetingInTx_created [OF created])
  have found: "find (\<lambda>q. mr_WorkspaceID q = mt_WorkspaceID (mx_Meeting d) \<and> mr_ActorID q = mt_OrganizerUserID (mx_Meeting d) \<and>
        mr_Key q = mx_IdempotencyKey d) (db_creations db') = Some (request_row c)"
    unfolding db' again using new by (auto intro!: find_append_fresh [where ys = "[]"] simp: same_request_def request_row_def)
  have meeting: "find_meeting (mt_ID m) (mt_WorkspaceID m) db' = Some m"
  proof -
    have "\<forall>x\<in>set (db_meetings db). \<not> (mt_ID x = mt_ID m \<and> mt_WorkspaceID x = mt_WorkspaceID m)" using fresh by (metis imageI)
    from find_append_fresh [OF this, of m "[]"] show ?thesis by (simp add: find_meeting_def db')
  qed
  have row: "find_participant (mt_ID m) ?org db' = Some ?row"
  proof -
    have "mp_MeetingID p \<noteq> mt_ID m" if "p \<in> set (db_participants db)" for p
      using ok that fresh unfolding meetings_ok_def roster_ok_def by (metis imageI)
    then show ?thesis unfolding find_participant_def db' by (auto intro!: find_append_fresh simp: new_participant_def)
  qed
  define actor where "actor = fst (lockMeetingActors m ?org '''' db')"
  have "eligibleMeetingMember m actor"
    using auth unfolding actor_def
    by (auto simp: authorizeMeetingCreation_def AuthorizeMeeting_def authorizeMeetingCreate_def eligibleMeetingMember_def m db'
        lockMeetingActors_def authority_actor_def lockMeetingAuthority_def member_of_def Let_def split: prod.splits if_splits option.splits)
  moreover have "meetingParticipant m actor \<noteq> None"
    using row by (simp add: actor_def lockMeetingActors_def authority_actor_def lockMeetingAuthority_def meetingParticipant_def
        new_participant_def MeetingRole_Valid_def Let_def split: prod.splits)
  ultimately have "AuthorizeMeeting m actor MeetingCapabilityView = None"
    by (simp add: AuthorizeMeeting_None canSeeMeeting_def meetingRoleAllows_def Let_def)
  then have replay: "replayMeetingCreation (mx_Meeting d) (mt_ID m) db' = Inr m"
    using meeting again m by (simp add: replayMeetingCreation_def actor_def case_prod_unfold Let_def)
  have "claimMeetingCreation d db' = (if mx_RequestHash d = mx_RequestHash c then Inr (Some (mt_ID m), db') else Inl ErrIdempotencyKeyReused)"
    unfolding claimMeetingCreation_def Let_def found by (simp add: request_row_def m)
  then show ?thesis using replay created(2) again(3) by (simp add: createMeetingInTx_def)
qed

lemma NewMeeting_id:
  assumes "NewMeeting parse known mid ws org conv d = Inr m"
  shows "NewMeeting parse known mid' ws org conv d = Inr (m\<lparr>mt_ID := mid', mt_RoomKey := MeetingRoomKey mid'\<rparr>)"
  using assms by (auto simp: NewMeeting_def bind_err_Inr_iff split: option.splits)

lemma normalizeMeetingCreation_retry:
  assumes "normalizeMeetingCreation parse known digest mid input = Inr c" and "mset ps = mset (ci_Participants input)"
  shows "normalizeMeetingCreation parse known digest mid' (input\<lparr>ci_Participants := ps\<rparr>) =
    Inr (c\<lparr>mx_Meeting := (mx_Meeting c)\<lparr>mt_ID := mid', mt_RoomKey := MeetingRoomKey mid'\<rparr>\<rparr>)"
proof -
  obtain m r h where key: "meetingCreationKeyPattern (ci_IdempotencyKey input)"
    and m: "NewMeeting parse known mid (ci_WorkspaceID input) (ci_ActorID input) (ci_Conversation input) (ci_Details input) = Inr m"
    and r: "normalizeMeetingInvitees parse (mt_OrganizerUserID m) (ci_Participants input) = Inr r"
    and h: "meetingCreationHash digest m r = Some h"
    and c: "c = \<lparr>mx_Meeting = m, mx_Participants = r, mx_IdempotencyKey = ci_IdempotencyKey input, mx_RequestHash = h\<rparr>"
    using assms(1) by (auto simp: normalizeMeetingCreation_def bind_err_Inr_iff split: if_splits option.splits)
  have "meetingCreationHash digest (m\<lparr>mt_ID := mid', mt_RoomKey := MeetingRoomKey mid'\<rparr>) r = Some h"
    using h by (simp add: meetingCreationHash_def)
  then show ?thesis
    using key NewMeeting_id [OF m] normalizeMeetingInvitees_perm [OF r assms(2)] c by (simp add: normalizeMeetingCreation_def)
qed

text \<open>
  Claim C32. A creation may be retried. Sending the request again with its key, even with the invitees listed in another
  order and whatever identifier and clock the retry draws, answers the meeting that was created and
  writes nothing; the same actor reusing the key for another intent is refused, as long as the digest tells the two apart.
\<close>

theorem create_idempotent:
  assumes created: "service_CreateMeeting parse known digest mid now input db = Inr ((m, False), db')" and ok: "meetings_ok known db"
    and "mset ps = mset (ci_Participants input)"
  shows "service_CreateMeeting parse known digest mid' now' (input\<lparr>ci_Participants := ps\<rparr>) db' = Inr ((m, True), db') \<and>
    (\<forall>c other d. normalizeMeetingCreation parse known digest mid input = Inr c \<longrightarrow>
       normalizeMeetingCreation parse known digest mid' other = Inr d \<longrightarrow>
       ci_WorkspaceID other = ci_WorkspaceID input \<longrightarrow> ci_ActorID other = ci_ActorID input \<longrightarrow>
       ci_IdempotencyKey other = ci_IdempotencyKey input \<longrightarrow> mx_RequestHash d \<noteq> mx_RequestHash c \<longrightarrow>
       service_CreateMeeting parse known digest mid' now' other db' = Inl ErrIdempotencyKeyReused)"
proof -
  obtain c where c: "normalizeMeetingCreation parse known digest mid input = Inr c"
    and tx: "createMeetingInTx now c db = Inr ((m, False), db')" and key: "mx_IdempotencyKey c \<noteq> ''''"
    using created by (auto simp: service_CreateMeeting_def CreateMeetingWithParticipants_def bind_err_Inr_iff split: if_splits)
  note replay = created_replays [OF tx key ok]
  have "service_CreateMeeting parse known digest mid' now' (input\<lparr>ci_Participants := ps\<rparr>) db' = Inr ((m, True), db')"
    using replay [of "c\<lparr>mx_Meeting := (mx_Meeting c)\<lparr>mt_ID := mid', mt_RoomKey := MeetingRoomKey mid'\<rparr>\<rparr>" now'] key
    by (simp add: service_CreateMeeting_def CreateMeetingWithParticipants_def normalizeMeetingCreation_retry [OF c assms(3)])
  moreover have "service_CreateMeeting parse known digest mid' now' other db' = Inl ErrIdempotencyKeyReused"
    if d: "normalizeMeetingCreation parse known digest mid' other = Inr d" and same: "ci_WorkspaceID other = ci_WorkspaceID input"
      "ci_ActorID other = ci_ActorID input" "ci_IdempotencyKey other = ci_IdempotencyKey input"
      and hash: "mx_RequestHash d \<noteq> mx_RequestHash c" for other d
  proof -
    have "mt_WorkspaceID (mx_Meeting d) = mt_WorkspaceID (mx_Meeting c)" "mt_OrganizerUserID (mx_Meeting d) = mt_OrganizerUserID (mx_Meeting c)"
      "mx_IdempotencyKey d = mx_IdempotencyKey c"
      using c d same by (auto simp: normalizeMeetingCreation_def NewMeeting_def bind_err_Inr_iff split: if_splits option.splits)
    then show ?thesis
      using replay [of d now'] key hash d by (simp add: service_CreateMeeting_def CreateMeetingWithParticipants_def)
  qed
  ultimately show ?thesis using c by simp
qed

definition example_input :: CreateMeetingInput where
  "example_input = \<lparr>ci_WorkspaceID = example_ws, ci_ActorID = example_organizer, ci_Details = mt_Details example_meeting,
     ci_Conversation = mt_Conversation example_meeting, ci_Participants = [\<lparr>mi_UserID = example_user, mi_Role = ''''\<rparr>],
     ci_IdempotencyKey = ''k-1''\<rparr>"

definition example_tables :: mdb where
  "example_tables = example_mdb\<lparr>db_meetings := [], db_participants := []\<rparr>"

definition example_created :: "Meeting \<times> mdb" where
  "example_created = (case service_CreateMeeting rfc4122 (\<lambda>_. True) (\<lambda>_. Some ''h'') example_id 5 example_input example_tables of
     Inr ((m, _), db) \<Rightarrow> (m, db) | Inl _ \<Rightarrow> (example_meeting, example_tables))"

theorem create_idempotent_witness:
  "service_CreateMeeting rfc4122 (\<lambda>_. True) (\<lambda>_. Some ''h'') (example_uuid CHR ''f'') 9 example_input (snd example_created) =
     Inr ((fst example_created, True), snd example_created)"
proof -
  have "(case service_CreateMeeting rfc4122 (\<lambda>_. True) (\<lambda>_. Some ''h'') example_id 5 example_input example_tables of
    Inr ((_, replayed), _) \<Rightarrow> \<not> replayed | Inl _ \<Rightarrow> False)" by code_simp
  then have "service_CreateMeeting rfc4122 (\<lambda>_. True) (\<lambda>_. Some ''h'') example_id 5 example_input example_tables =
      Inr ((fst example_created, False), snd example_created)"
    unfolding example_created_def by (auto split: sum.splits)
  moreover have "meetings_ok (\<lambda>_. True) example_tables" by code_simp
  moreover have "example_input\<lparr>ci_Participants := ci_Participants example_input\<rparr> = example_input" by simp
  ultimately show ?thesis
    using create_idempotent [of rfc4122 "\<lambda>_. True" "\<lambda>_. Some ''h''" example_id 5 example_input example_tables _ _ "ci_Participants example_input"]
    by metis
qed

end
