(* ===== verification/Call_Store.thy ===== *)
theory Call_Store
  imports Meeting_Store
begin

text \<open>
  Calls, from \<open>services/chat-service/internal\<close>: \<open>domain/call.go\<close> and the transactions of
  \<open>storage/call_store.go\<close>. A direct call rings one user; a resource call belongs to a channel or a group and is
  joined under leases, each fenced by the participation identifier of its admission. Every admission, heartbeat and leave of a
  person takes that person's advisory lock and the row lock of the call, which is why an operation is one step.
  The database's clock is \<open>now\<close>; fresh identifiers are arguments; \<open>announce\<close> is the presence layer a commit
  has to announce itself to, \<open>Some\<close> error when it refuses.
\<close>

section \<open>Calls\<close>

abbreviation "CallTypeAudio \<equiv> ''audio''"
abbreviation "CallTypeVideo \<equiv> ''video''"
abbreviation "CallTargetUser \<equiv> ''user''"
abbreviation "CallTargetChannel \<equiv> ''channel''"
abbreviation "CallTargetDM \<equiv> ''dm''"
abbreviation "CallStatusRinging \<equiv> ''ringing''"
abbreviation "CallStatusActive \<equiv> ''active''"
abbreviation "CallStatusDeclined \<equiv> ''declined''"
abbreviation "CallStatusCancelled \<equiv> ''cancelled''"
abbreviation "CallStatusTimedOut \<equiv> ''timed_out''"
abbreviation "CallStatusEnded \<equiv> ''ended''"

definition CallType_Valid :: "string \<Rightarrow> bool" where
  "CallType_Valid t \<longleftrightarrow> t = CallTypeAudio \<or> t = CallTypeVideo"

definition CallStatus_Valid :: "string \<Rightarrow> bool" where
  "CallStatus_Valid s \<longleftrightarrow>
     s \<in> {CallStatusRinging, CallStatusActive, CallStatusDeclined, CallStatusCancelled, CallStatusTimedOut, CallStatusEnded}"

definition CallStatus_Terminal :: "string \<Rightarrow> bool" where
  "CallStatus_Terminal s \<longleftrightarrow>
     s = CallStatusDeclined \<or> s = CallStatusCancelled \<or> s = CallStatusTimedOut \<or> s = CallStatusEnded"

record Call =
  cl_ID :: string
  cl_WorkspaceID :: string
  cl_RequestID :: string
  cl_CallerID :: string
  cl_CalleeID :: string
  cl_TargetType :: string
  cl_TargetID :: string
  cl_Type :: string
  cl_Status :: string
  cl_Version :: int
  cl_CreatedAt :: go_time
  cl_UpdatedAt :: go_time
  cl_ExpiresAt :: go_time
  cl_AcceptedAt :: "go_time option"
  cl_EndedAt :: "go_time option"

definition IsDirect :: "Call \<Rightarrow> bool" where
  "IsDirect c \<longleftrightarrow> cl_TargetType c = CallTargetUser \<or> (cl_TargetType c = '''' \<and> cl_CalleeID c \<noteq> '''')"

definition IsParticipant :: "Call \<Rightarrow> string \<Rightarrow> bool" where
  "IsParticipant c user \<longleftrightarrow> IsDirect c \<and> (user = cl_CallerID c \<or> user = cl_CalleeID c)"

definition IsResource :: "Call \<Rightarrow> bool" where
  "IsResource c \<longleftrightarrow> cl_TargetType c = CallTargetChannel \<or> cl_TargetType c = CallTargetDM"

section \<open>Tables\<close>

record lease_row =
  le_CallID :: string
  le_UserID :: string
  le_ParticipationID :: "string option"
  le_ExpiresAt :: go_time

record call_event =
  ev_ID :: string
  ev_Started :: bool
  ev_Call :: string
  ev_Actor :: string
  ev_Duration :: int

text \<open>
  \<open>cd_world\<close> holds the channels, conversations and memberships; \<open>cd_announced\<close> logs what was announced
  to the presence layer.
\<close>

record cdb =
  cd_world :: mdb
  cd_dm_type :: "string \<Rightarrow> string option"
  cd_calls :: "Call list"
  cd_leases :: "lease_row list"
  cd_events :: "call_event list"
  cd_announced :: "(string \<times> string) list"

definition find_call :: "string \<Rightarrow> string \<Rightarrow> cdb \<Rightarrow> Call option" where
  "find_call ws cid db = find (\<lambda>c. cl_WorkspaceID c = ws \<and> cl_ID c = cid) (cd_calls db)"

definition find_request :: "string \<Rightarrow> string \<Rightarrow> string \<Rightarrow> cdb \<Rightarrow> Call option" where
  "find_request ws caller request db =
     find (\<lambda>c. cl_WorkspaceID c = ws \<and> cl_CallerID c = caller \<and> cl_RequestID c = request) (cd_calls db)"

definition active_member :: "string \<Rightarrow> string \<Rightarrow> cdb \<Rightarrow> bool" where
  "active_member ws user db =
     (case db_workspace_members (cd_world db) ws user of None \<Rightarrow> False | Some (_, status) \<Rightarrow> status = ''active'')"

definition live_lease :: "go_time \<Rightarrow> string \<Rightarrow> string \<Rightarrow> cdb \<Rightarrow> bool" where
  "live_lease now cid user db \<longleftrightarrow>
     list_ex (\<lambda>l. le_CallID l = cid \<and> le_UserID l = user \<and> now < le_ExpiresAt l) (cd_leases db)"

text \<open>
  \<open>OpenPresenceFacts\<close> of the presence layer: an error, or the announcement is open. A store on which \<open>SetPresenceFacts\<close>
  was never called has none, and commits without announcing.
\<close>

type_synonym PresenceFacts = "string \<Rightarrow> string list \<Rightarrow> domain_error option"

definition commitAnnounced ::
  "PresenceFacts option \<Rightarrow> string \<Rightarrow> string list \<Rightarrow> 'a \<Rightarrow> cdb \<Rightarrow> domain_error + 'a \<times> cdb" where
  "commitAnnounced presence ws users x db =
     (case presence of
        None \<Rightarrow> Inr (x, db)
      | Some announce \<Rightarrow>
          if users = [] then Inr (x, db)
          else case announce ws users of
                 Some e \<Rightarrow> Inl e
               | None \<Rightarrow> Inr (x, db\<lparr>cd_announced := cd_announced db @ map (Pair ws) users\<rparr>))"

section \<open>Who may, and who is busy\<close>

definition authorizeResourceTarget :: "string \<Rightarrow> string \<Rightarrow> string \<Rightarrow> string \<Rightarrow> cdb \<Rightarrow> domain_error + bool" where
  "authorizeResourceTarget ws actor targetType target db =
     (if targetType = CallTargetChannel then
        Inr (active_member ws actor db \<and>
             (case db_channels (cd_world db) target of
                None \<Rightarrow> False
              | Some ch \<Rightarrow> cr_WorkspaceID ch = ws \<and> cr_Status ch = ''active'' \<and> channel_visible_to_user target actor (cd_world db)))
      else if targetType = CallTargetDM then
        Inr (active_member ws actor db \<and> dm_status target actor (cd_world db) = Some ''active'' \<and>
             (case db_dms (cd_world db) target of
                None \<Rightarrow> False
              | Some d \<Rightarrow> dr_WorkspaceID d = ws \<and> dr_Status d = ''active'' \<and> cd_dm_type db target = Some ''group''))
      else Inl ErrInvalidInput)"

text \<open>A call that engages a user: a direct call that rings or is active, or an active resource call they hold a live lease on.\<close>

definition direct_engages :: "string \<Rightarrow> string \<Rightarrow> Call \<Rightarrow> bool" where
  "direct_engages ws user c \<longleftrightarrow>
     cl_WorkspaceID c = ws \<and> cl_TargetType c = ''user'' \<and> (cl_Status c = ''ringing'' \<or> cl_Status c = ''active'') \<and>
     (cl_CallerID c = user \<or> cl_CalleeID c = user)"

definition lease_engages :: "go_time \<Rightarrow> string \<Rightarrow> string \<Rightarrow> cdb \<Rightarrow> Call \<Rightarrow> bool" where
  "lease_engages now ws user db c \<longleftrightarrow>
     cl_WorkspaceID c = ws \<and> cl_Status c = ''active'' \<and> (cl_TargetType c = ''channel'' \<or> cl_TargetType c = ''dm'') \<and>
     live_lease now (cl_ID c) user db"

definition callParticipantBusy :: "go_time \<Rightarrow> string \<Rightarrow> string \<Rightarrow> string \<Rightarrow> cdb \<Rightarrow> bool" where
  "callParticipantBusy now ws actor except db \<longleftrightarrow>
     list_ex (\<lambda>c. direct_engages ws actor c \<or> lease_engages now ws actor db c \<and> cl_ID c \<noteq> except) (cd_calls db)"

definition busy_pair :: "go_time \<Rightarrow> string \<Rightarrow> string \<Rightarrow> string \<Rightarrow> cdb \<Rightarrow> bool" where
  "busy_pair now ws caller callee db \<longleftrightarrow>
     list_ex (\<lambda>c. direct_engages ws caller c \<or> direct_engages ws callee c \<or>
        lease_engages now ws caller db c \<or> lease_engages now ws callee db c) (cd_calls db)"

section \<open>Leases\<close>

text \<open>The upsert of an admission, which always rotates the participation identifier.\<close>

definition admitCallPresence :: "string \<Rightarrow> string \<Rightarrow> string \<Rightarrow> go_time \<Rightarrow> cdb \<Rightarrow> cdb" where
  "admitCallPresence pid cid actor expiresAt db =
     (let row = \<lparr>le_CallID = cid, le_UserID = actor, le_ParticipationID = Some pid, le_ExpiresAt = expiresAt\<rparr> in
      if list_ex (\<lambda>l. le_CallID l = cid \<and> le_UserID l = actor) (cd_leases db)
      then db\<lparr>cd_leases := map (\<lambda>l. if le_CallID l = cid \<and> le_UserID l = actor then row else l) (cd_leases db)\<rparr>
      else db\<lparr>cd_leases := cd_leases db @ [row]\<rparr>)"

datatype leaseRenewal = leaseNotRenewed | leaseExtended | leaseRevived

definition moved :: "leaseRenewal \<Rightarrow> string \<Rightarrow> string list" where
  "moved r actor = (if r = leaseRevived then [actor] else [])"

definition fence :: "string \<Rightarrow> string option" where
  "fence participation = (if participation \<noteq> '''' then Some participation else None)"

definition lease_is :: "string \<Rightarrow> string \<Rightarrow> string \<Rightarrow> lease_row \<Rightarrow> bool" where
  "lease_is cid actor participation l \<longleftrightarrow>
     le_CallID l = cid \<and> le_UserID l = actor \<and> le_ParticipationID l = fence participation"

definition renewCallPresenceFenced ::
  "go_time \<Rightarrow> string \<Rightarrow> string \<Rightarrow> string \<Rightarrow> go_time \<Rightarrow> cdb \<Rightarrow> leaseRenewal \<times> cdb" where
  "renewCallPresenceFenced now cid actor participation expiresAt db =
     (case find (lease_is cid actor participation) (cd_leases db) of
        None \<Rightarrow> (leaseNotRenewed, db)
      | Some prior \<Rightarrow>
          (if le_ExpiresAt prior \<le> now then leaseRevived else leaseExtended,
           db\<lparr>cd_leases := map (\<lambda>l. if lease_is cid actor participation l then l\<lparr>le_ExpiresAt := expiresAt\<rparr> else l) (cd_leases db)\<rparr>))"

definition currentParticipationID :: "string \<Rightarrow> string \<Rightarrow> cdb \<Rightarrow> string" where
  "currentParticipationID cid actor db =
     (case find (\<lambda>l. le_CallID l = cid \<and> le_UserID l = actor) (cd_leases db) of
        None \<Rightarrow> ''''
      | Some l \<Rightarrow> (case le_ParticipationID l of None \<Rightarrow> '''' | Some p \<Rightarrow> p))"

section \<open>Starting\<close>

record CreateCallInput =
  cc_WorkspaceID :: string
  cc_RequestID :: string
  cc_CallerID :: string
  cc_CalleeID :: string
  cc_Type :: string
  cc_ExpiresAt :: go_time

definition insert_call :: "Call \<Rightarrow> cdb \<Rightarrow> domain_error + cdb" where
  "insert_call c db =
     (if list_ex (\<lambda>q. cl_ID q = cl_ID c) (cd_calls db) then Inl ErrDatabase else Inr (db\<lparr>cd_calls := cd_calls db @ [c]\<rparr>))"

definition CreateCall :: "string \<Rightarrow> go_time \<Rightarrow> CreateCallInput \<Rightarrow> cdb \<Rightarrow> domain_error + (Call \<times> bool) \<times> cdb" where
  "CreateCall cid now i db =
     (case find_request (cc_WorkspaceID i) (cc_CallerID i) (cc_RequestID i) db of
        Some existing \<Rightarrow>
          if cl_CalleeID existing \<noteq> cc_CalleeID i \<or> cl_Type existing \<noteq> cc_Type i then Inl ErrConflict
          else Inr ((existing, False), db)
      | None \<Rightarrow>
          let member = (\<lambda>u. active_member (cc_WorkspaceID i) u db);
              memberCount = (if member (cc_CallerID i) then 1 else 0) +
                            (if cc_CalleeID i \<noteq> cc_CallerID i \<and> member (cc_CalleeID i) then 1 else 0 :: nat) in
          if memberCount \<noteq> 2 then Inl ErrForbidden
          else if busy_pair now (cc_WorkspaceID i) (cc_CallerID i) (cc_CalleeID i) db then Inl ErrCallParticipantBusy
          else let c = \<lparr>cl_ID = cid, cl_WorkspaceID = cc_WorkspaceID i, cl_RequestID = cc_RequestID i, cl_CallerID = cc_CallerID i,
                        cl_CalleeID = cc_CalleeID i, cl_TargetType = CallTargetUser, cl_TargetID = cc_CalleeID i, cl_Type = cc_Type i,
                        cl_Status = CallStatusRinging, cl_Version = 1, cl_CreatedAt = now, cl_UpdatedAt = now,
                        cl_ExpiresAt = cc_ExpiresAt i, cl_AcceptedAt = None, cl_EndedAt = None\<rparr> in
               bind_err (insert_call c db) (\<lambda>db'. Inr ((c, True), db')))"

record CreateResourceCallInput =
  rc_WorkspaceID :: string
  rc_RequestID :: string
  rc_CallerID :: string
  rc_TargetType :: string
  rc_TargetID :: string
  rc_Type :: string
  rc_ExpiresAt :: go_time

text \<open>\<open>Duration.Seconds\<close> to an integer, exact to the second for calls of less than 48 days, where the float64 is.\<close>

definition whole_seconds :: "go_duration \<Rightarrow> int" where
  "whole_seconds d = (if 0 \<le> d then d div duration_second else - ((- d) div duration_second))"

definition insertCallStartedEvent :: "string \<Rightarrow> Call \<Rightarrow> cdb \<Rightarrow> string \<times> cdb" where
  "insertCallStartedEvent eid c db =
     (if IsResource c
      then (eid, db\<lparr>cd_events := cd_events db @ [\<lparr>ev_ID = eid, ev_Started = True, ev_Call = cl_ID c, ev_Actor = cl_CallerID c, ev_Duration = 0\<rparr>]\<rparr>)
      else ('''', db))"

definition insertCallEndedEvent :: "string \<Rightarrow> Call \<Rightarrow> cdb \<Rightarrow> string \<times> cdb" where
  "insertCallEndedEvent eid c db =
     (if IsResource c
      then (eid, db\<lparr>cd_events := cd_events db @ [\<lparr>ev_ID = eid, ev_Started = False, ev_Call = cl_ID c, ev_Actor = cl_CallerID c,
             ev_Duration = (case (cl_AcceptedAt c, cl_EndedAt c) of (Some a, Some e) \<Rightarrow> whole_seconds (time_sub e a) | _ \<Rightarrow> 0)\<rparr>]\<rparr>)
      else ('''', db))"

definition find_active_resource :: "string \<Rightarrow> string \<Rightarrow> string \<Rightarrow> cdb \<Rightarrow> Call option" where
  "find_active_resource ws targetType target db =
     find (\<lambda>c. cl_WorkspaceID c = ws \<and> cl_TargetType c = targetType \<and> cl_TargetID c = target \<and> cl_Status c = ''active'') (cd_calls db)"

definition new_resource_call :: "string \<Rightarrow> go_time \<Rightarrow> CreateResourceCallInput \<Rightarrow> Call" where
  "new_resource_call cid now i =
     \<lparr>cl_ID = cid, cl_WorkspaceID = rc_WorkspaceID i, cl_RequestID = rc_RequestID i, cl_CallerID = rc_CallerID i,
      cl_CalleeID = '''', cl_TargetType = rc_TargetType i, cl_TargetID = rc_TargetID i, cl_Type = rc_Type i,
      cl_Status = CallStatusActive, cl_Version = 1, cl_CreatedAt = now, cl_UpdatedAt = now,
      cl_ExpiresAt = rc_ExpiresAt i, cl_AcceptedAt = Some now, cl_EndedAt = None\<rparr>"

definition CreateResourceCall ::
  "PresenceFacts option \<Rightarrow> string \<Rightarrow> string \<Rightarrow> string \<Rightarrow> go_time \<Rightarrow> CreateResourceCallInput \<Rightarrow> cdb \<Rightarrow>
   domain_error + (Call \<times> bool \<times> string \<times> string) \<times> cdb" where
  "CreateResourceCall announce cid pid eid now i db =
     (case find_request (rc_WorkspaceID i) (rc_CallerID i) (rc_RequestID i) db of
        Some existing \<Rightarrow>
          if cl_TargetType existing \<noteq> rc_TargetType i \<or> cl_TargetID existing \<noteq> rc_TargetID i \<or> cl_Type existing \<noteq> rc_Type i
          then Inl ErrConflict
          else let replay = currentParticipationID (cl_ID existing) (rc_CallerID i) db in
               if replay = '''' then Inl ErrCallParticipationStale else Inr ((existing, False, replay, ''''), db)
      | None \<Rightarrow>
          bind_err (authorizeResourceTarget (rc_WorkspaceID i) (rc_CallerID i) (rc_TargetType i) (rc_TargetID i) db) (\<lambda>authorized.
          if \<not> authorized then Inl ErrForbidden
          else bind_err
            (case find_active_resource (rc_WorkspaceID i) (rc_TargetType i) (rc_TargetID i) db of
               Some active \<Rightarrow> Inr (active, False, db)
             | None \<Rightarrow>
                 let c = new_resource_call cid now i in bind_err (insert_call c db) (\<lambda>db'. Inr (c, True, db')))
            (\<lambda>(active, justCreated, db1).
             if callParticipantBusy now (rc_WorkspaceID i) (rc_CallerID i) (cl_ID active) db1 then Inl ErrCallParticipantBusy
             else let db2 = admitCallPresence pid (cl_ID active) (rc_CallerID i) (rc_ExpiresAt i) db1;
                      (event, db3) = (if justCreated then insertCallStartedEvent eid active db2 else ('''', db2)) in
                  commitAnnounced announce (rc_WorkspaceID i) [rc_CallerID i]
                    (active, cl_RequestID active = rc_RequestID i \<and> cl_CallerID active = rc_CallerID i, pid, event) db3)))"

section \<open>Heartbeats, joining and leaving\<close>

record RenewCallPresenceInput =
  rn_WorkspaceID :: string
  rn_CallID :: string
  rn_ActorID :: string
  rn_ExpiresAt :: go_time
  rn_ParticipationID :: string

definition RenewCallPresence ::
  "PresenceFacts option \<Rightarrow> go_time \<Rightarrow> RenewCallPresenceInput \<Rightarrow> cdb \<Rightarrow> domain_error + unit \<times> cdb" where
  "RenewCallPresence announce now i db =
     (case find_call (rn_WorkspaceID i) (rn_CallID i) db of
        None \<Rightarrow> Inl ErrNotFound
      | Some c \<Rightarrow>
          if \<not> IsResource c \<or> cl_Status c \<noteq> CallStatusActive then Inl ErrNotFound
          else bind_err (authorizeResourceTarget (rn_WorkspaceID i) (rn_ActorID i) (cl_TargetType c) (cl_TargetID c) db) (\<lambda>authorized.
               if \<not> authorized then Inl ErrNotFound
               else if callParticipantBusy now (rn_WorkspaceID i) (rn_ActorID i) (cl_ID c) db then Inl ErrCallParticipantBusy
               else let (renewal, db') = renewCallPresenceFenced now (cl_ID c) (rn_ActorID i) (rn_ParticipationID i) (rn_ExpiresAt i) db in
                    if renewal = leaseNotRenewed then Inl ErrCallParticipationStale
                    else commitAnnounced announce (rn_WorkspaceID i) (moved renewal (rn_ActorID i)) () db'))"

record JoinResourceCallInput =
  jn_WorkspaceID :: string
  jn_CallID :: string
  jn_ActorID :: string
  jn_TargetType :: string
  jn_TargetID :: string
  jn_ExpiresAt :: go_time

definition JoinResourceCall ::
  "PresenceFacts option \<Rightarrow> string \<Rightarrow> go_time \<Rightarrow> JoinResourceCallInput \<Rightarrow> cdb \<Rightarrow>
   domain_error + (Call \<times> string) \<times> cdb" where
  "JoinResourceCall announce pid now i db =
     (case find_call (jn_WorkspaceID i) (jn_CallID i) db of
        None \<Rightarrow> Inl ErrNotFound
      | Some c \<Rightarrow>
          if \<not> IsResource c then Inl ErrNotFound
          else if cl_TargetType c \<noteq> jn_TargetType i \<or> cl_TargetID c \<noteq> jn_TargetID i then Inl ErrNotFound
          else if cl_Status c \<noteq> CallStatusActive then Inl ErrConflict
          else bind_err (authorizeResourceTarget (jn_WorkspaceID i) (jn_ActorID i) (cl_TargetType c) (cl_TargetID c) db) (\<lambda>authorized.
               if \<not> authorized then Inl ErrNotFound
               else if callParticipantBusy now (jn_WorkspaceID i) (jn_ActorID i) (cl_ID c) db then Inl ErrCallParticipantBusy
               else commitAnnounced announce (jn_WorkspaceID i) [jn_ActorID i] (c, pid)
                      (admitCallPresence pid (cl_ID c) (jn_ActorID i) (jn_ExpiresAt i) db)))"

record TransitionCallResult =
  tr_Call :: "Call option"
  tr_Changed :: bool
  tr_TimedOut :: bool
  tr_Released :: bool
  tr_EventMessageID :: string

definition no_result :: TransitionCallResult where
  "no_result = \<lparr>tr_Call = None, tr_Changed = False, tr_TimedOut = False, tr_Released = False, tr_EventMessageID = ''''\<rparr>"

definition status_update :: "go_time \<Rightarrow> string \<Rightarrow> Call \<Rightarrow> Call" where
  "status_update now status c =
     c\<lparr>cl_Status := status, cl_Version := cl_Version c + 1, cl_UpdatedAt := now,
       cl_AcceptedAt := (if status = ''active'' then Some now else cl_AcceptedAt c),
       cl_EndedAt := (if status \<in> {''declined'', ''cancelled'', ''timed_out'', ''ended''} then Some now else cl_EndedAt c)\<rparr>"

definition updateCallStatus :: "go_time \<Rightarrow> string \<Rightarrow> string \<Rightarrow> cdb \<Rightarrow> cdb" where
  "updateCallStatus now cid status db =
     db\<lparr>cd_calls := map (\<lambda>c. if cl_ID c = cid then status_update now status c else c) (cd_calls db)\<rparr>"

record LeaveResourceCallInput =
  lv_WorkspaceID :: string
  lv_CallID :: string
  lv_ActorID :: string
  lv_ParticipationID :: string

definition LeaveResourceCall ::
  "PresenceFacts option \<Rightarrow> go_time \<Rightarrow> LeaveResourceCallInput \<Rightarrow> cdb \<Rightarrow> domain_error + TransitionCallResult \<times> cdb" where
  "LeaveResourceCall announce now i db =
     (case find_call (lv_WorkspaceID i) (lv_CallID i) db of
        None \<Rightarrow> Inl ErrNotFound
      | Some c \<Rightarrow>
          if \<not> IsResource c then Inl ErrNotFound
          else let mine = lease_is (cl_ID c) (lv_ActorID i) (lv_ParticipationID i);
                   hadLease = list_ex mine (cd_leases db);
                   db1 = db\<lparr>cd_leases := filter (\<lambda>l. \<not> mine l) (cd_leases db)\<rparr> in
               if \<not> hadLease then
                 bind_err (authorizeResourceTarget (lv_WorkspaceID i) (lv_ActorID i) (cl_TargetType c) (cl_TargetID c) db) (\<lambda>authorized.
                 if \<not> authorized then Inl ErrNotFound else Inr (no_result\<lparr>tr_Call := Some c\<rparr>, db))
               else if cl_Status c \<noteq> CallStatusActive then
                 commitAnnounced announce (lv_WorkspaceID i) [lv_ActorID i] (no_result\<lparr>tr_Call := Some c, tr_Released := True\<rparr>) db1
               else if list_ex (\<lambda>l. le_CallID l = cl_ID c \<and> now < le_ExpiresAt l) (cd_leases db1) then
                 commitAnnounced announce (lv_WorkspaceID i) [lv_ActorID i] (no_result\<lparr>tr_Call := Some c, tr_Released := True\<rparr>) db1
               else commitAnnounced announce (lv_WorkspaceID i) [lv_ActorID i]
                      (no_result\<lparr>tr_Call := Some (status_update now CallStatusEnded c), tr_Changed := True, tr_Released := True\<rparr>)
                      (updateCallStatus now (cl_ID c) CallStatusEnded db1))"

section \<open>Transitions\<close>

abbreviation "CallActionAccept \<equiv> ''accept''"
abbreviation "CallActionDecline \<equiv> ''decline''"
abbreviation "CallActionCancel \<equiv> ''cancel''"
abbreviation "CallActionEnd \<equiv> ''end''"

definition authorizeCallTransition :: "Call \<Rightarrow> string \<Rightarrow> string \<Rightarrow> domain_error + string \<times> bool" where
  "authorizeCallTransition c actor action =
     (if IsResource c then
        if action \<noteq> CallActionEnd \<or> actor \<noteq> cl_CallerID c then Inl ErrNotFound
        else if cl_Status c = CallStatusEnded then Inr (CallStatusEnded, True)
        else if cl_Status c \<noteq> CallStatusActive then Inl ErrConflict
        else Inr (CallStatusEnded, False)
      else
        let decide = (\<lambda>requiredActor start to.
              if requiredActor \<noteq> '''' \<and> actor \<noteq> requiredActor then Inl ErrNotFound
              else if cl_Status c = to then Inr (to, True)
              else if cl_Status c \<noteq> start then Inl ErrConflict
              else Inr (to, False)) in
        if action = CallActionAccept then decide (cl_CalleeID c) CallStatusRinging CallStatusActive
        else if action = CallActionDecline then decide (cl_CalleeID c) CallStatusRinging CallStatusDeclined
        else if action = CallActionCancel then decide (cl_CallerID c) CallStatusRinging CallStatusCancelled
        else if action = CallActionEnd then decide '''' CallStatusActive CallStatusEnded
        else Inl ErrInvalidInput)"

definition participationChangedBy :: "Call \<Rightarrow> string \<Rightarrow> cdb \<Rightarrow> string list" where
  "participationChangedBy c next db =
     (if cl_Status c \<noteq> CallStatusActive \<and> next \<noteq> CallStatusActive then []
      else if \<not> IsResource c then [cl_CallerID c, cl_CalleeID c]
      else map le_UserID (filter (\<lambda>l. le_CallID l = cl_ID c) (cd_leases db)))"

record TransitionCallInput =
  tn_WorkspaceID :: string
  tn_CallID :: string
  tn_ActorID :: string
  tn_Action :: string

text \<open>A timed-out call is committed and reported as a conflict, so the answer carries a result and an error.\<close>

definition TransitionCall ::
  "PresenceFacts option \<Rightarrow> string \<Rightarrow> go_time \<Rightarrow> TransitionCallInput \<Rightarrow> cdb \<Rightarrow>
   domain_error + (TransitionCallResult \<times> domain_error option) \<times> cdb" where
  "TransitionCall announce eid now i db =
     (case find_call (tn_WorkspaceID i) (tn_CallID i) db of
        None \<Rightarrow> Inl ErrNotFound
      | Some c \<Rightarrow>
          if (IsResource c \<and> cl_CallerID c \<noteq> tn_ActorID i) \<or> (\<not> IsResource c \<and> \<not> IsParticipant c (tn_ActorID i)) then Inl ErrNotFound
          else if cl_Status c = CallStatusRinging \<and> \<not> now < cl_ExpiresAt c then
            Inr ((no_result\<lparr>tr_Call := Some (status_update now CallStatusTimedOut c), tr_Changed := True, tr_TimedOut := True\<rparr>,
                  Some ErrConflict), updateCallStatus now (cl_ID c) CallStatusTimedOut db)
          else bind_err (authorizeCallTransition c (tn_ActorID i) (tn_Action i)) (\<lambda>(next, idempotent).
               if idempotent then Inr ((no_result\<lparr>tr_Call := Some c\<rparr>, None), db)
               else let updated = status_update now next c;
                        db1 = updateCallStatus now (cl_ID c) next db;
                        (event, db2) = (if IsResource c then insertCallEndedEvent eid updated db1 else ('''', db1)) in
                    commitAnnounced announce (tn_WorkspaceID i) (participationChangedBy c next db1)
                      (no_result\<lparr>tr_Call := Some updated, tr_Changed := True, tr_EventMessageID := event\<rparr>, None) db2))"

section \<open>Reading and expiring\<close>

record ActiveResourceCallResult =
  ar_Call :: "Call option"
  ar_Authorized :: bool
  ar_ObservedAt :: go_time

definition ActiveResourceCall ::
  "go_time \<Rightarrow> string \<Rightarrow> string \<Rightarrow> string \<Rightarrow> string \<Rightarrow> cdb \<Rightarrow> domain_error + ActiveResourceCallResult" where
  "ActiveResourceCall now ws actor targetType target db =
     (if targetType \<noteq> CallTargetChannel \<and> targetType \<noteq> CallTargetDM then Inl ErrInvalidInput
      else bind_err (authorizeResourceTarget ws actor targetType target db) (\<lambda>authorized.
           Inr \<lparr>ar_Call = (if authorized then find_active_resource ws targetType target db else None),
                ar_Authorized = authorized, ar_ObservedAt = now\<rparr>))"

definition CurrentCallForUser :: "string \<Rightarrow> string \<Rightarrow> string \<Rightarrow> cdb \<Rightarrow> domain_error + Call" where
  "CurrentCallForUser ws user cid db =
     (let live = (\<lambda>c. cl_WorkspaceID c = ws \<and> (cl_Status c = ''ringing'' \<or> cl_Status c = ''active''));
          visible = (\<lambda>c. cl_TargetType c = ''user'' \<and> (cl_CallerID c = user \<or> cl_CalleeID c = user) \<or>
                        (cl_TargetType c = ''channel'' \<or> cl_TargetType c = ''dm'') \<and>
                          authorizeResourceTarget ws user (cl_TargetType c) (cl_TargetID c) db = Inr True);
          found = (if cid = '''' then
                     (case sort_key (\<lambda>c. - cl_CreatedAt c)
                        (filter (\<lambda>c. live c \<and> (cl_CallerID c = user \<or> cl_TargetType c = ''user'' \<and> cl_CalleeID c = user)) (cd_calls db)) of
                        [] \<Rightarrow> None | c # _ \<Rightarrow> Some c)
                   else find (\<lambda>c. live c \<and> cl_ID c = cid \<and> visible c) (cd_calls db)) in
      case found of None \<Rightarrow> Inl ErrNotFound | Some c \<Rightarrow> Inr c)"

text \<open>\<open>locked\<close> are the rows another transaction holds, which the sweep skips.\<close>

definition due_call :: "go_time \<Rightarrow> cdb \<Rightarrow> Call \<Rightarrow> bool" where
  "due_call now db c \<longleftrightarrow>
     cl_Status c = ''ringing'' \<and> cl_ExpiresAt c \<le> now \<or>
     cl_Status c = ''active'' \<and> (cl_TargetType c = ''channel'' \<or> cl_TargetType c = ''dm'') \<and>
       \<not> list_ex (\<lambda>l. le_CallID l = cl_ID c \<and> now < le_ExpiresAt l) (cd_leases db)"

definition expire_update :: "go_time \<Rightarrow> Call \<Rightarrow> Call" where
  "expire_update now c =
     c\<lparr>cl_Status := (if cl_Status c = ''ringing'' then ''timed_out'' else ''ended''), cl_Version := cl_Version c + 1,
       cl_UpdatedAt := now, cl_EndedAt := Some now\<rparr>"

definition ExpireDueCalls :: "(string \<Rightarrow> bool) \<Rightarrow> go_time \<Rightarrow> nat \<Rightarrow> cdb \<Rightarrow> Call list \<times> cdb" where
  "ExpireDueCalls locked now limit db =
     (let due = take limit (sort_key (\<lambda>c. (cl_UpdatedAt c, cl_ID c)) (filter (\<lambda>c. due_call now db c \<and> \<not> locked (cl_ID c)) (cd_calls db)));
          picked = (\<lambda>c. cl_ID c \<in> set (map cl_ID due)) in
      (map (expire_update now) (filter picked (cd_calls db)),
       db\<lparr>cd_calls := map (\<lambda>c. if picked c then expire_update now c else c) (cd_calls db)\<rparr>))"

end
