(* ===== verification/Call_Safety.thy ===== *)
theory Call_Safety
  imports Call_Store Meeting_Invariant
begin

text \<open>
  What every sequence of call operations keeps, under any clock that does not go back: a person is engaged in at
  most one call of a workspace, a channel or group has at most one active call, a call's history only goes forward, every
  change of participation is announced to the presence layer, and a superseded participation can do nothing.
\<close>

section \<open>Operations and runs\<close>

datatype call_request =
    Cq_Create string CreateCallInput
  | Cq_CreateResource string string string CreateResourceCallInput
  | Cq_Renew RenewCallPresenceInput
  | Cq_Join string JoinResourceCallInput
  | Cq_Leave LeaveResourceCallInput
  | Cq_Transition string TransitionCallInput
  | Cq_Expire "string \<Rightarrow> bool" nat
  | Cq_Elsewhere mdb "string \<Rightarrow> string option"

definition settle :: "cdb \<Rightarrow> domain_error + 'a \<times> cdb \<Rightarrow> cdb" where
  "settle db r = (case r of Inl _ \<Rightarrow> db | Inr (_, db') \<Rightarrow> db')"

fun call_step :: "PresenceFacts option \<Rightarrow> cdb \<Rightarrow> go_time \<times> call_request \<Rightarrow> cdb" where
  "call_step announce db (now, Cq_Create cid i) = settle db (CreateCall cid now i db)"
| "call_step announce db (now, Cq_CreateResource cid pid eid i) = settle db (CreateResourceCall announce cid pid eid now i db)"
| "call_step announce db (now, Cq_Renew i) = settle db (RenewCallPresence announce now i db)"
| "call_step announce db (now, Cq_Join pid i) = settle db (JoinResourceCall announce pid now i db)"
| "call_step announce db (now, Cq_Leave i) = settle db (LeaveResourceCall announce now i db)"
| "call_step announce db (now, Cq_Transition eid i) = settle db (TransitionCall announce eid now i db)"
| "call_step announce db (now, Cq_Expire locked limit) = snd (ExpireDueCalls locked now limit db)"
| "call_step announce db (now, Cq_Elsewhere world dms) = db\<lparr>cd_world := world, cd_dm_type := dms\<rparr>"

definition call_run :: "PresenceFacts option \<Rightarrow> cdb \<Rightarrow> (go_time \<times> call_request) list \<Rightarrow> cdb" where
  "call_run announce = foldl (call_step announce)"

text \<open>A heartbeat asks for a lease that ends after the database's present.\<close>

fun forward :: "go_time \<times> call_request \<Rightarrow> bool" where
  "forward (now, Cq_Renew i) = (now < rn_ExpiresAt i)"
| "forward _ = True"

section \<open>Engagement and participation\<close>

definition engages :: "go_time \<Rightarrow> string \<Rightarrow> string \<Rightarrow> cdb \<Rightarrow> Call \<Rightarrow> bool" where
  "engages now ws user db c \<longleftrightarrow> direct_engages ws user c \<or> lease_engages now ws user db c"

definition participating :: "go_time \<Rightarrow> string \<Rightarrow> string \<Rightarrow> cdb \<Rightarrow> bool" where
  "participating now ws user db \<longleftrightarrow>
     (\<exists>c\<in>set (cd_calls db). cl_WorkspaceID c = ws \<and> cl_Status c = ''active'' \<and>
        (cl_TargetType c = ''user'' \<and> (cl_CallerID c = user \<or> cl_CalleeID c = user) \<or>
         IsResource c \<and> live_lease now (cl_ID c) user db))"

definition call_ok :: "Call \<Rightarrow> bool" where
  "call_ok c \<longleftrightarrow> (cl_TargetType c = ''user'' \<or> IsResource c) \<and> CallStatus_Valid (cl_Status c) \<and> 0 < cl_Version c \<and>
     (IsResource c \<longrightarrow> cl_Status c \<noteq> ''ringing'')"

definition same_target :: "Call \<Rightarrow> Call \<Rightarrow> bool" where
  "same_target c d \<longleftrightarrow> cl_WorkspaceID c = cl_WorkspaceID d \<and> cl_TargetType c = cl_TargetType d \<and> cl_TargetID c = cl_TargetID d"

definition calls_ok :: "go_time \<Rightarrow> cdb \<Rightarrow> bool" where
  "calls_ok now db \<longleftrightarrow>
     distinct (map cl_ID (cd_calls db)) \<and> list_all call_ok (cd_calls db) \<and>
     (\<forall>l\<in>set (cd_leases db). le_CallID l \<in> cl_ID ` set (cd_calls db)) \<and>
     (\<forall>ws u. \<forall>c\<in>set (cd_calls db). \<forall>d\<in>set (cd_calls db). engages now ws u db c \<longrightarrow> engages now ws u db d \<longrightarrow> c = d) \<and>
     (\<forall>c\<in>set (cd_calls db). \<forall>d\<in>set (cd_calls db). IsResource c \<longrightarrow> same_target c d \<longrightarrow>
        cl_Status c = ''active'' \<longrightarrow> cl_Status d = ''active'' \<longrightarrow> c = d)"

lemma live_lease_cong: "cd_leases db' = cd_leases db \<Longrightarrow> live_lease now cid u db' = live_lease now cid u db"
  by (simp add: live_lease_def)

lemma engages_cong: "cd_leases db' = cd_leases db \<Longrightarrow> engages now ws u db' c = engages now ws u db c"
  by (simp only: engages_def lease_engages_def live_lease_def)

lemma engages_later: "engages now' ws u db c \<Longrightarrow> now \<le> now' \<Longrightarrow> engages now ws u db c"
  by (fastforce simp: engages_def lease_engages_def live_lease_def list_ex_iff)

lemma calls_ok_later:
  assumes "calls_ok now db" and "now \<le> now'"
  shows "calls_ok now' db"
proof -
  have "c = d" if "c \<in> set (cd_calls db)" "d \<in> set (cd_calls db)" "engages now' ws u db c" "engages now' ws u db d" for ws u c d
    using assms that engages_later [OF _ assms(2)] unfolding calls_ok_def by blast
  then show ?thesis using assms(1) unfolding calls_ok_def by blast
qed

lemma callParticipantBusy_iff:
  "callParticipantBusy now ws u x db \<longleftrightarrow>
     (\<exists>c\<in>set (cd_calls db). direct_engages ws u c \<or> lease_engages now ws u db c \<and> cl_ID c \<noteq> x)"
  by (simp add: callParticipantBusy_def list_ex_iff)

lemma busy_pair_iff:
  "busy_pair now ws a b db \<longleftrightarrow> (\<exists>c\<in>set (cd_calls db). engages now ws a db c \<or> engages now ws b db c)"
  unfolding busy_pair_def list_ex_iff engages_def by blast

section \<open>Effects\<close>

text \<open>
  The changes an operation may make at a time \<open>now\<close> with the announcements \<open>A\<close>. A move of a call that starts or ends
  somebody's participation needs that person in \<open>A\<close>.
\<close>

definition call_move :: "go_time \<Rightarrow> (string \<times> string) set \<Rightarrow> cdb \<Rightarrow> Call \<Rightarrow> Call \<Rightarrow> bool" where
  "call_move now A db c d \<longleftrightarrow>
     cl_ID d = cl_ID c \<and> cl_WorkspaceID d = cl_WorkspaceID c \<and> cl_RequestID d = cl_RequestID c \<and> cl_CallerID d = cl_CallerID c \<and>
     cl_CalleeID d = cl_CalleeID c \<and> cl_TargetType d = cl_TargetType c \<and> cl_TargetID d = cl_TargetID c \<and> cl_Type d = cl_Type c \<and>
     cl_CreatedAt d = cl_CreatedAt c \<and> cl_ExpiresAt d = cl_ExpiresAt c \<and> cl_Version d = cl_Version c + 1 \<and>
     (cl_Status c = ''ringing'' \<and> cl_Status d \<in> {''declined'', ''cancelled'', ''timed_out''} \<or>
      cl_Status c = ''ringing'' \<and> cl_Status d = ''active'' \<and> \<not> IsResource c \<and>
        {(cl_WorkspaceID c, cl_CallerID c), (cl_WorkspaceID c, cl_CalleeID c)} \<subseteq> A \<or>
      cl_Status c = ''active'' \<and> cl_Status d = ''ended'' \<and>
        (if IsResource c then \<forall>u. live_lease now (cl_ID c) u db \<longrightarrow> (cl_WorkspaceID c, u) \<in> A
         else {(cl_WorkspaceID c, cl_CallerID c), (cl_WorkspaceID c, cl_CalleeID c)} \<subseteq> A))"

definition lease_for :: "Call \<Rightarrow> string \<Rightarrow> lease_row \<Rightarrow> bool" where
  "lease_for c u l \<longleftrightarrow> le_CallID l = cl_ID c \<and> le_UserID l = u"

inductive call_effect :: "go_time \<Rightarrow> (string \<times> string) set \<Rightarrow> cdb \<Rightarrow> cdb \<Rightarrow> bool" for now A where
  idle: "cd_calls db' = cd_calls db \<Longrightarrow> cd_leases db' = cd_leases db \<Longrightarrow> call_effect now A db db'"
| ring: "cd_calls db' = cd_calls db @ [c] \<Longrightarrow> cd_leases db' = cd_leases db \<Longrightarrow> cl_ID c \<notin> cl_ID ` set (cd_calls db) \<Longrightarrow>
    cl_TargetType c = ''user'' \<Longrightarrow> cl_Status c = ''ringing'' \<Longrightarrow> cl_Version c = 1 \<Longrightarrow>
    \<not> busy_pair now (cl_WorkspaceID c) (cl_CallerID c) (cl_CalleeID c) db \<Longrightarrow> call_effect now A db db'"
| opened: "cd_calls db' = cd_calls db @ [c] \<Longrightarrow> cd_leases db' = cd_leases db \<Longrightarrow> cl_ID c \<notin> cl_ID ` set (cd_calls db) \<Longrightarrow>
    IsResource c \<Longrightarrow> cl_Status c = ''active'' \<Longrightarrow> cl_Version c = 1 \<Longrightarrow>
    find_active_resource (cl_WorkspaceID c) (cl_TargetType c) (cl_TargetID c) db = None \<Longrightarrow> call_effect now A db db'"
| leased: "cd_calls db' = cd_calls db \<Longrightarrow> c \<in> set (cd_calls db) \<Longrightarrow> IsResource c \<Longrightarrow>
    filter (\<lambda>l. \<not> lease_for c u l) (cd_leases db') = filter (\<lambda>l. \<not> lease_for c u l) (cd_leases db) \<Longrightarrow>
    (\<not> callParticipantBusy now (cl_WorkspaceID c) u (cl_ID c) db) \<or> (\<forall>t. live_lease t (cl_ID c) u db' \<longrightarrow> live_lease t (cl_ID c) u db) \<Longrightarrow>
    (cl_WorkspaceID c, u) \<in> A \<or> live_lease now (cl_ID c) u db \<and> live_lease now (cl_ID c) u db' \<Longrightarrow> call_effect now A db db'"
| moves: "cd_calls db' = map f (cd_calls db) \<Longrightarrow> cd_leases db' = cd_leases db \<Longrightarrow>
    (\<And>c. c \<in> set (cd_calls db) \<Longrightarrow> f c = c \<or> call_move now A db c (f c)) \<Longrightarrow> call_effect now A db db'"

lemma filter_other_live:
  assumes "filter (\<lambda>l. \<not> lease_for c u l) xs = filter (\<lambda>l. \<not> lease_for c u l) ys" and "cid \<noteq> cl_ID c \<or> v \<noteq> u"
  shows "list_ex (\<lambda>l. le_CallID l = cid \<and> le_UserID l = v \<and> now < le_ExpiresAt l) xs =
    list_ex (\<lambda>l. le_CallID l = cid \<and> le_UserID l = v \<and> now < le_ExpiresAt l) ys"
proof -
  have other: "\<not> lease_for c u l" if "le_CallID l = cid \<and> le_UserID l = v \<and> now < le_ExpiresAt l" for l
    using assms(2) that unfolding lease_for_def by blast
  have "list_ex (\<lambda>l. le_CallID l = cid \<and> le_UserID l = v \<and> now < le_ExpiresAt l) zs =
      list_ex (\<lambda>l. le_CallID l = cid \<and> le_UserID l = v \<and> now < le_ExpiresAt l) (filter (\<lambda>l. \<not> lease_for c u l) zs)" for zs
    unfolding list_ex_iff set_filter using other by blast
  from this [of xs] this [of ys] assms(1) show ?thesis by simp
qed

lemma leased_live:
  assumes "filter (\<lambda>l. \<not> lease_for c u l) (cd_leases db') = filter (\<lambda>l. \<not> lease_for c u l) (cd_leases db)" and "cid \<noteq> cl_ID c \<or> v \<noteq> u"
  shows "live_lease t cid v db' = live_lease t cid v db"
  unfolding live_lease_def by (rule filter_other_live [OF assms])

section \<open>Effects keep the invariant\<close>

lemma leased_engages:
  assumes "filter (\<lambda>l. \<not> lease_for c u l) (cd_leases db') = filter (\<lambda>l. \<not> lease_for c u l) (cd_leases db)"
    and "cl_ID d \<noteq> cl_ID c \<or> v \<noteq> u"
  shows "engages now ws v db' d = engages now ws v db d"
  unfolding engages_def lease_engages_def using leased_live [OF assms] by blast

lemma direct_only_parties: "direct_engages ws u c \<Longrightarrow> ws = cl_WorkspaceID c \<and> (u = cl_CallerID c \<or> u = cl_CalleeID c)"
  by (auto simp: direct_engages_def)

lemma fresh_no_lease:
  assumes "calls_ok now db" and "cid \<notin> cl_ID ` set (cd_calls db)"
  shows "\<not> live_lease t cid u db"
  using assms unfolding calls_ok_def live_lease_def list_ex_iff by blast

lemma call_unique:
  assumes "calls_ok now db" and "c \<in> set (cd_calls db)" and "d \<in> set (cd_calls db)" and "cl_ID c = cl_ID d"
  shows "c = d"
proof -
  have "inj_on cl_ID (set (cd_calls db))" using assms(1) unfolding calls_ok_def distinct_map by blast
  then show ?thesis using assms(2-4) by (simp add: inj_on_def)
qed

lemma new_call_keeps_ok:
  assumes ok: "calls_ok now db" and calls: "cd_calls db' = cd_calls db @ [c]" and leases: "cd_leases db' = cd_leases db"
    and fresh: "cl_ID c \<notin> cl_ID ` set (cd_calls db)" and c: "call_ok c"
    and free: "\<And>ws u d. d \<in> set (cd_calls db) \<Longrightarrow> engages now ws u db c \<Longrightarrow> \<not> engages now ws u db d"
    and target: "\<And>d. d \<in> set (cd_calls db) \<Longrightarrow> same_target c d \<Longrightarrow> IsResource c \<Longrightarrow> cl_Status c = ''active'' \<Longrightarrow> cl_Status d \<noteq> ''active''"
  shows "calls_ok now db'"
  unfolding calls_ok_def
proof (intro conjI allI ballI impI)
  show "distinct (map cl_ID (cd_calls db'))" using ok fresh unfolding calls_ok_def calls by simp
  show "list_all call_ok (cd_calls db')" using ok c unfolding calls_ok_def calls by simp
  show "le_CallID l \<in> cl_ID ` set (cd_calls db')" if "l \<in> set (cd_leases db')" for l
    using ok that unfolding calls_ok_def calls leases by auto
next
  fix ws u a b
  assume "a \<in> set (cd_calls db')" "b \<in> set (cd_calls db')" "engages now ws u db' a" "engages now ws u db' b"
  then show "a = b"
    using ok free unfolding calls_ok_def calls engages_cong [OF leases] by auto
next
  fix a b assume a: "a \<in> set (cd_calls db')" and b: "b \<in> set (cd_calls db')" and "IsResource a" "same_target a b"
    "cl_Status a = ''active''" "cl_Status b = ''active''"
  moreover have "IsResource b" "same_target b a" using calculation by (simp_all add: IsResource_def same_target_def)
  ultimately show "a = b" using ok target unfolding calls_ok_def calls by auto
qed

lemma ring_keeps_ok:
  assumes ok: "calls_ok now db" and calls: "cd_calls db' = cd_calls db @ [c]" and leases: "cd_leases db' = cd_leases db"
    and fresh: "cl_ID c \<notin> cl_ID ` set (cd_calls db)" and c: "cl_TargetType c = ''user''" "cl_Status c = ''ringing''" "cl_Version c = 1"
    and free: "\<not> busy_pair now (cl_WorkspaceID c) (cl_CallerID c) (cl_CalleeID c) db"
  shows "calls_ok now db'"
proof (rule new_call_keeps_ok [OF ok calls leases fresh])
  show "call_ok c" using c by (simp add: call_ok_def CallStatus_Valid_def IsResource_def)
  show "\<not> engages now ws u db d" if "d \<in> set (cd_calls db)" "engages now ws u db c" for ws u d
  proof -
    have "direct_engages ws u c" using that(2) c by (auto simp: engages_def lease_engages_def)
    from direct_only_parties [OF this] show ?thesis using free that(1) unfolding busy_pair_iff by blast
  qed
qed (use c in simp)

lemma opened_keeps_ok:
  assumes ok: "calls_ok now db" and calls: "cd_calls db' = cd_calls db @ [c]" and leases: "cd_leases db' = cd_leases db"
    and fresh: "cl_ID c \<notin> cl_ID ` set (cd_calls db)" and c: "IsResource c" "cl_Status c = ''active''" "cl_Version c = 1"
    and free: "find_active_resource (cl_WorkspaceID c) (cl_TargetType c) (cl_TargetID c) db = None"
  shows "calls_ok now db'"
proof (rule new_call_keeps_ok [OF ok calls leases fresh])
  show "call_ok c" using c by (simp add: call_ok_def CallStatus_Valid_def)
  show "\<not> engages now ws u db d" if "engages now ws u db c" for ws u d
    using that fresh_no_lease [OF ok fresh] c by (auto simp: engages_def lease_engages_def direct_engages_def IsResource_def)
  show "cl_Status d \<noteq> ''active''" if "d \<in> set (cd_calls db)" "same_target c d" for d
    using free that by (auto simp: find_active_resource_def find_None_iff same_target_def)
qed

lemma leased_keeps_ok:
  assumes ok: "calls_ok now db" and calls: "cd_calls db' = cd_calls db" and c: "c \<in> set (cd_calls db)" "IsResource c"
    and same: "filter (\<lambda>l. \<not> lease_for c u l) (cd_leases db') = filter (\<lambda>l. \<not> lease_for c u l) (cd_leases db)"
    and free: "\<not> callParticipantBusy now (cl_WorkspaceID c) u (cl_ID c) db \<or>
      (\<forall>t. live_lease t (cl_ID c) u db' \<longrightarrow> live_lease t (cl_ID c) u db)"
  shows "calls_ok now db'"
proof -
  have fk: "le_CallID l \<in> cl_ID ` set (cd_calls db')" if l: "l \<in> set (cd_leases db')" for l
  proof (cases "lease_for c u l")
    case True
    then show ?thesis using c calls by (simp add: lease_for_def)
  next
    case False
    then have "l \<in> set (filter (\<lambda>l. \<not> lease_for c u l) (cd_leases db'))" using l by simp
    then have "l \<in> set (cd_leases db)" unfolding same by simp
    then show ?thesis using ok unfolding calls_ok_def calls by blast
  qed
  have one: "d = e" if d: "d \<in> set (cd_calls db)" "engages now ws v db' d" and e: "e \<in> set (cd_calls db)" "engages now ws v db' e" for ws v d e
  proof (cases "engages now ws v db d \<and> engages now ws v db e")
    case True
    then show ?thesis using ok d(1) e(1) unfolding calls_ok_def by blast
  next
    case False
    have new: "x = c \<and> v = u \<and> ws = cl_WorkspaceID c \<and> \<not> live_lease now (cl_ID c) u db \<and> live_lease now (cl_ID c) u db'"
      if x: "x \<in> set (cd_calls db)" "engages now ws v db' x" "\<not> engages now ws v db x" for x
    proof -
      have id: "cl_ID x = cl_ID c" "v = u" using leased_engages [OF same, of x v now ws] x by blast+
      then have "x = c" using call_unique [OF ok x(1) c(1)] by simp
      moreover have "lease_engages now ws v db' x" "\<not> lease_engages now ws v db x" using x(2,3) unfolding engages_def by blast+
      ultimately show ?thesis using id unfolding lease_engages_def by blast
    qed
    from False consider "\<not> engages now ws v db d" | "\<not> engages now ws v db e" by blast
    then have here: "v = u" "ws = cl_WorkspaceID c" "\<not> callParticipantBusy now ws u (cl_ID c) db"
      using new d e free by (metis)+
    have "x = c" if x: "x \<in> set (cd_calls db)" "engages now ws v db' x" for x
    proof (cases "engages now ws v db x")
      case True
      then have "cl_ID x = cl_ID c" using here x(1) unfolding callParticipantBusy_iff engages_def by blast
      then show ?thesis using call_unique [OF ok x(1) c(1)] by simp
    next
      case False
      then show ?thesis using new x by blast
    qed
    then show ?thesis using d e by blast
  qed
  show ?thesis
    using ok fk one unfolding calls_ok_def calls by blast
qed

lemma call_move_status:
  assumes "call_move now A db c d"
  shows "cl_Status c \<noteq> cl_Status d" and "cl_Status d = ''ringing'' \<Longrightarrow> False"
    and "cl_Status d = ''active'' \<Longrightarrow> cl_Status c = ''ringing'' \<and> \<not> IsResource c"
    and "CallStatus_Valid (cl_Status d)"
  using assms by (auto simp: call_move_def CallStatus_Valid_def)

lemma call_move_same:
  assumes "call_move now A db c d"
  shows "cl_ID d = cl_ID c" "cl_WorkspaceID d = cl_WorkspaceID c" "cl_TargetType d = cl_TargetType c" "cl_TargetID d = cl_TargetID c"
    "cl_CallerID d = cl_CallerID c" "cl_CalleeID d = cl_CalleeID c" "cl_Version d = cl_Version c + 1" "IsResource d = IsResource c"
  using assms unfolding call_move_def IsResource_def by simp_all

lemma call_move_engages:
  assumes "call_move now A db c d" and "engages now ws u db d"
  shows "engages now ws u db c"
proof (cases "direct_engages ws u d")
  case True
  then show ?thesis using assms(1) unfolding engages_def direct_engages_def call_move_def by auto
next
  case False
  then have "lease_engages now ws u db d" using assms(2) unfolding engages_def by blast
  then show ?thesis
    using call_move_status(3) [OF assms(1)] call_move_same [OF assms(1)]
    unfolding lease_engages_def IsResource_def by auto
qed

lemma kept_or_moved:
  assumes "f c = c \<or> call_move now A db c (f c)"
  shows "cl_ID (f c) = cl_ID c" and "cl_WorkspaceID (f c) = cl_WorkspaceID c" and "cl_TargetType (f c) = cl_TargetType c"
    and "cl_TargetID (f c) = cl_TargetID c" and "IsResource (f c) = IsResource c"
    and "engages now ws u db (f c) \<Longrightarrow> engages now ws u db c"
    and "call_ok c \<Longrightarrow> call_ok (f c)"
    and "IsResource c \<Longrightarrow> cl_Status (f c) = ''active'' \<Longrightarrow> f c = c"
proof -
  show "cl_ID (f c) = cl_ID c" "cl_WorkspaceID (f c) = cl_WorkspaceID c" "cl_TargetType (f c) = cl_TargetType c"
    "cl_TargetID (f c) = cl_TargetID c" "IsResource (f c) = IsResource c"
    using assms call_move_same by (elim disjE; simp)+
  show "engages now ws u db (f c) \<Longrightarrow> engages now ws u db c"
    using assms call_move_engages by (elim disjE; simp)
  show "IsResource c \<Longrightarrow> cl_Status (f c) = ''active'' \<Longrightarrow> f c = c"
    using assms call_move_status(3) by blast
  show "call_ok (f c)" if c: "call_ok c"
    using assms
  proof
    assume m: "call_move now A db c (f c)"
    have "cl_Status (f c) \<noteq> ''ringing''" using call_move_status(2) [OF m] by blast
    then show ?thesis
      using c call_move_same [OF m] call_move_status(4) [OF m] unfolding call_ok_def by simp
  qed (use c in simp)
qed

lemma moves_keeps_ok:
  assumes ok: "calls_ok now db" and calls: "cd_calls db' = map f (cd_calls db)" and leases: "cd_leases db' = cd_leases db"
    and f: "\<And>c. c \<in> set (cd_calls db) \<Longrightarrow> f c = c \<or> call_move now A db c (f c)"
  shows "calls_ok now db'"
  unfolding calls_ok_def
proof (intro conjI allI ballI impI)
  have "map cl_ID (map f (cd_calls db)) = map cl_ID (cd_calls db)" using kept_or_moved(1) [where f = f, OF f] by simp
  then show "distinct (map cl_ID (cd_calls db'))" using ok unfolding calls calls_ok_def by (simp del: map_map)
  show "list_all call_ok (cd_calls db')"
    using ok kept_or_moved(7) [where f = f, OF f] unfolding calls calls_ok_def list_all_iff by simp
  show "le_CallID l \<in> cl_ID ` set (cd_calls db')" if l: "l \<in> set (cd_leases db')" for l
  proof -
    obtain c where "c \<in> set (cd_calls db)" "le_CallID l = cl_ID c" using ok l unfolding leases calls_ok_def by blast
    then have "le_CallID l = cl_ID (f c)" "f c \<in> set (cd_calls db')" using kept_or_moved(1) [where f = f, OF f] by (simp_all add: calls)
    then show ?thesis by blast
  qed
next
  fix ws u x y assume xy: "x \<in> set (cd_calls db')" "y \<in> set (cd_calls db')" "engages now ws u db' x" "engages now ws u db' y"
  then obtain c d where cd: "c \<in> set (cd_calls db)" "x = f c" "d \<in> set (cd_calls db)" "y = f d" unfolding calls by auto
  then have "engages now ws u db c" "engages now ws u db d"
    using xy(3,4) kept_or_moved(6) [where f = f, OF f] unfolding engages_cong [OF leases] by blast+
  then have "c = d" using ok cd unfolding calls_ok_def by blast
  then show "x = y" using cd by simp
next
  fix x y assume xy: "x \<in> set (cd_calls db')" "y \<in> set (cd_calls db')" "IsResource x" "same_target x y"
    "cl_Status x = ''active''" "cl_Status y = ''active''"
  then obtain c d where cd: "c \<in> set (cd_calls db)" "x = f c" "d \<in> set (cd_calls db)" "y = f d" unfolding calls by auto
  have r: "IsResource c" "same_target c d"
    using xy(3,4) cd kept_or_moved(2-5) [where f = f, OF f [OF cd(1)]] kept_or_moved(2-5) [where f = f, OF f [OF cd(3)]] by (simp_all add: same_target_def)
  then have "IsResource d" by (simp add: IsResource_def same_target_def)
  then have "f c = c" "f d = d" using kept_or_moved(8) [where f = f, OF f] cd xy r by blast+
  then show "x = y" using ok cd xy r unfolding calls_ok_def by metis
qed

lemma call_effect_keeps_ok:
  assumes "call_effect now A db db'" and ok: "calls_ok now db"
  shows "calls_ok now db'"
  using assms(1)
proof cases
  case idle
  show ?thesis using moves_keeps_ok [OF ok, of db' "\<lambda>c. c" A] idle by simp
next
  case (ring c)
  show ?thesis by (rule ring_keeps_ok [OF ok ring])
next
  case (opened c)
  show ?thesis by (rule opened_keeps_ok [OF ok opened])
next
  case (leased c u)
  show ?thesis by (rule leased_keeps_ok [OF ok leased(1-5)])
next
  case (moves f)
  show ?thesis by (rule moves_keeps_ok [OF ok moves])
qed

lemma call_effects_keep_ok: "(call_effect now A)\<^sup>*\<^sup>* db db' \<Longrightarrow> calls_ok now db \<Longrightarrow> calls_ok now db'"
  by (induction rule: rtranclp_induct) (auto intro: call_effect_keeps_ok)

section \<open>Effects announce what they change\<close>

lemma participating_engaged:
  "participating now ws u db \<longleftrightarrow> (\<exists>c\<in>set (cd_calls db). engages now ws u db c \<and> cl_Status c = ''active'')"
  unfolding participating_def engages_def direct_engages_def lease_engages_def IsResource_def by blast

lemma call_move_participation:
  assumes m: "call_move now A db c d" and "(ws, u) \<notin> A" and "call_ok c"
  shows "engages now ws u db d \<and> cl_Status d = ''active'' \<longleftrightarrow> engages now ws u db c \<and> cl_Status c = ''active''"
proof -
  have "\<not> (engages now ws u db d \<and> cl_Status d = ''active'')"
  proof
    assume d: "engages now ws u db d \<and> cl_Status d = ''active''"
    then have c: "engages now ws u db c" "cl_Status c = ''ringing''" using call_move_engages [OF m] call_move_status(3) [OF m] by blast+
    then have "direct_engages ws u c" unfolding engages_def lease_engages_def by auto
    then show False using direct_only_parties [of ws u c] m d c(2) assms(2) unfolding call_move_def by auto
  qed
  moreover have "\<not> (engages now ws u db c \<and> cl_Status c = ''active'')"
  proof
    assume c: "engages now ws u db c \<and> cl_Status c = ''active''"
    show False
    proof (cases "IsResource c")
      case True
      then have "lease_engages now ws u db c" using c unfolding engages_def direct_engages_def IsResource_def by auto
      then show False using m c True assms(2) unfolding call_move_def lease_engages_def by auto
    next
      case False
      then have "direct_engages ws u c" using c unfolding engages_def lease_engages_def IsResource_def by auto
      then show False using direct_only_parties [of ws u c] m c False assms(2) unfolding call_move_def by auto
    qed
  qed
  ultimately show ?thesis by blast
qed

lemma call_effect_announced:
  assumes "call_effect now A db db'" and ok: "calls_ok now db" and quiet: "(ws, u) \<notin> A"
  shows "participating now ws u db' = participating now ws u db"
  using assms(1)
proof cases
  case idle
  show ?thesis unfolding participating_engaged engages_cong [OF idle(2)] idle(1) ..
next
  case (ring c)
  have "cl_Status c \<noteq> ''active''" using ring(5) by simp
  then show ?thesis unfolding participating_engaged engages_cong [OF ring(2)] ring(1) by auto
next
  case (opened c)
  have "\<not> engages now ws u db c"
    using fresh_no_lease [OF ok opened(3)] opened(4) by (auto simp: engages_def lease_engages_def direct_engages_def IsResource_def)
  then show ?thesis unfolding participating_engaged engages_cong [OF opened(2)] opened(1) by auto
next
  case (leased c v)
  have "engages now ws u db' d = engages now ws u db d" if d: "d \<in> set (cd_calls db)" for d
  proof (cases "cl_ID d \<noteq> cl_ID c \<or> u \<noteq> v")
    case True
    then show ?thesis using leased_engages [OF leased(4)] by blast
  next
    case False
    then have dc: "d = c" "u = v" using call_unique [OF ok d leased(2)] by auto
    show ?thesis
    proof (cases "ws = cl_WorkspaceID c")
      case True
      then have "live_lease now (cl_ID c) v db \<and> live_lease now (cl_ID c) v db'" using leased(6) quiet dc by blast
      then show ?thesis using dc unfolding engages_def lease_engages_def by blast
    next
      case False
      then show ?thesis using dc unfolding engages_def lease_engages_def by blast
    qed
  qed
  then show ?thesis unfolding participating_engaged leased(1) by blast
next
  case (moves f)
  have "engages now ws u db (f c) \<and> cl_Status (f c) = ''active'' \<longleftrightarrow> engages now ws u db c \<and> cl_Status c = ''active''"
    if c: "c \<in> set (cd_calls db)" for c
  proof -
    have "call_ok c" using ok c unfolding calls_ok_def list_all_iff by blast
    from moves(3) [OF c] show ?thesis
    proof
      assume "call_move now A db c (f c)"
      from call_move_participation [OF this quiet \<open>call_ok c\<close>] show ?thesis .
    qed simp
  qed
  then show ?thesis unfolding participating_engaged engages_cong [OF moves(2)] moves(1) by auto
qed

lemma call_effects_announced:
  "(call_effect now A)\<^sup>*\<^sup>* db db' \<Longrightarrow> calls_ok now db \<Longrightarrow> (ws, u) \<notin> A \<Longrightarrow> participating now ws u db' = participating now ws u db"
proof (induction rule: rtranclp_induct)
  case (step y z)
  then show ?case using call_effect_announced call_effects_keep_ok by metis
qed simp

section \<open>Effects only go forward\<close>

definition call_evolves :: "Call \<Rightarrow> Call \<Rightarrow> bool" where
  "call_evolves c d \<longleftrightarrow>
     cl_ID d = cl_ID c \<and> cl_WorkspaceID d = cl_WorkspaceID c \<and> cl_RequestID d = cl_RequestID c \<and> cl_CallerID d = cl_CallerID c \<and>
     cl_CalleeID d = cl_CalleeID c \<and> cl_TargetType d = cl_TargetType c \<and> cl_TargetID d = cl_TargetID c \<and> cl_Type d = cl_Type c \<and>
     cl_Version c \<le> cl_Version d \<and> (cl_Version d = cl_Version c \<longrightarrow> d = c) \<and>
     (CallStatus_Terminal (cl_Status c) \<longrightarrow> d = c) \<and>
     (cl_Status d = cl_Status c \<or> cl_Status c = ''ringing'' \<or> cl_Status c = ''active'' \<and> cl_Status d = ''ended'')"

lemma call_evolves_refl: "call_evolves c c"
  by (simp add: call_evolves_def)

lemma call_evolves_trans: "call_evolves a b \<Longrightarrow> call_evolves b c \<Longrightarrow> call_evolves a c"
  unfolding call_evolves_def CallStatus_Terminal_def by (smt (verit))

lemma call_move_evolves: "call_move now A db c d \<Longrightarrow> call_evolves c d"
  unfolding call_move_def call_evolves_def CallStatus_Terminal_def by auto

lemma call_effect_evolves:
  assumes "call_effect now A db db'" and c: "c \<in> set (cd_calls db)"
  shows "\<exists>d\<in>set (cd_calls db'). call_evolves c d"
  using assms(1)
proof cases
  case (moves f)
  have "call_evolves c (f c)" using moves(3) [OF c] call_move_evolves call_evolves_refl by metis
  then show ?thesis using c unfolding moves(1) by auto
qed (use c call_evolves_refl in auto)

lemma call_effects_evolve:
  "(call_effect now A)\<^sup>*\<^sup>* db db' \<Longrightarrow> c \<in> set (cd_calls db) \<Longrightarrow> \<exists>d\<in>set (cd_calls db'). call_evolves c d"
proof (induction rule: rtranclp_induct)
  case base
  then show ?case using call_evolves_refl by blast
next
  case (step y z)
  then show ?case using call_effect_evolves call_evolves_trans by meson
qed

section \<open>Every operation is a sequence of effects\<close>

lemma filter_not_map_if: "(\<And>l. P l \<Longrightarrow> P (g l)) \<Longrightarrow> filter (\<lambda>l. \<not> P l) (map (\<lambda>l. if P l then g l else l) xs) = filter (\<lambda>l. \<not> P l) xs"
  by (induction xs) auto

lemma commitAnnounced_Inr:
  assumes "commitAnnounced announce ws users x db = Inr (y, db')"
  shows "y = x" and "cd_calls db' = cd_calls db" and "cd_leases db' = cd_leases db"
  using assms by (auto simp: commitAnnounced_def split: if_splits option.splits)

definition announced :: "cdb \<Rightarrow> cdb \<Rightarrow> (string \<times> string) set" where
  "announced db db' = set (drop (length (cd_announced db)) (cd_announced db'))"

text \<open>
  Whose participation an operation may change: those it announced, by an announcement the presence layer took; and with no
  presence layer, anybody's.
\<close>

definition told :: "PresenceFacts option \<Rightarrow> cdb \<Rightarrow> cdb \<Rightarrow> (string \<times> string) set" where
  "told presence db db' =
     (case presence of
        None \<Rightarrow> UNIV
      | Some announce \<Rightarrow> {(ws, u) \<in> announced db db'. \<exists>users. u \<in> set users \<and> announce ws users = None})"

lemma commitAnnounced_told:
  assumes "commitAnnounced presence ws users x d = Inr (y, db')" and "cd_announced d = cd_announced db" and "u \<in> set users"
  shows "(ws, u) \<in> told presence db db'"
  using assms by (fastforce simp: commitAnnounced_def told_def announced_def split: if_splits option.splits)

lemma find_callD: "find_call ws cid db = Some c \<Longrightarrow> c \<in> set (cd_calls db) \<and> cl_WorkspaceID c = ws \<and> cl_ID c = cid"
  unfolding find_call_def by (drule find_SomeD) simp

lemma insert_call_Inr:
  "insert_call c db = Inr db' \<Longrightarrow> db' = db\<lparr>cd_calls := cd_calls db @ [c]\<rparr> \<and> cl_ID c \<notin> cl_ID ` set (cd_calls db)"
  by (auto simp: insert_call_def list_ex_iff split: if_splits)

lemma CreateCall_effect:
  assumes "CreateCall cid now i db = Inr (x, db')"
  shows "call_effect now A db db'"
proof (cases "find_request (cc_WorkspaceID i) (cc_CallerID i) (cc_RequestID i) db")
  case (Some e)
  then have "db' = db" using assms by (auto simp: CreateCall_def split: if_splits)
  then show ?thesis by (intro idle) simp_all
next
  case None
  obtain c where c: "insert_call c db = Inr db'" "cl_TargetType c = ''user''" "cl_Status c = ''ringing''" "cl_Version c = 1"
    and free: "\<not> busy_pair now (cl_WorkspaceID c) (cl_CallerID c) (cl_CalleeID c) db"
    using assms None by (fastforce simp: CreateCall_def Let_def bind_err_Inr_iff split: if_splits)
  show ?thesis using insert_call_Inr [OF c(1)] c free by (intro ring [of db' db c]) simp_all
qed

lemma admit_leases:
  "filter (\<lambda>l. \<not> lease_for c u l) (cd_leases (admitCallPresence pid (cl_ID c) u e db)) = filter (\<lambda>l. \<not> lease_for c u l) (cd_leases db)"
proof -
  let ?row = "\<lparr>le_CallID = cl_ID c, le_UserID = u, le_ParticipationID = Some pid, le_ExpiresAt = e\<rparr>"
  have row: "lease_for c u ?row" by (simp add: lease_for_def)
  have "filter (\<lambda>l. \<not> lease_for c u l) (map (\<lambda>l. if lease_for c u l then ?row else l) xs) = filter (\<lambda>l. \<not> lease_for c u l) xs" for xs
    by (rule filter_not_map_if) (rule row)
  then show "filter (\<lambda>l. \<not> lease_for c u l) (cd_leases (admitCallPresence pid (cl_ID c) u e db)) = filter (\<lambda>l. \<not> lease_for c u l) (cd_leases db)"
    using row unfolding admitCallPresence_def Let_def lease_for_def [symmetric] by simp
qed

lemma admit_frame [simp]:
  "cd_calls (admitCallPresence pid cid u e db) = cd_calls db"
  "cd_announced (admitCallPresence pid cid u e db) = cd_announced db"
  by (simp_all add: admitCallPresence_def Let_def)

lemma admitted_effect:
  assumes "c \<in> set (cd_calls db)" and "IsResource c" and "\<not> callParticipantBusy now (cl_WorkspaceID c) u (cl_ID c) db"
    and db1: "cd_calls db1 = cd_calls db" "cd_leases db1 = cd_leases (admitCallPresence pid (cl_ID c) u e db)"
    and "(cl_WorkspaceID c, u) \<in> A"
  shows "call_effect now A db db1"
  using assms admit_leases by (intro leased [of db1 db c u]) simp_all

lemma JoinResourceCall_effect:
  assumes "JoinResourceCall announce pid now i db = Inr (x, db')"
  shows "call_effect now (told announce db db') db db'"
proof -
  obtain c where found: "find_call (jn_WorkspaceID i) (jn_CallID i) db = Some c" and res: "IsResource c"
    and free: "\<not> callParticipantBusy now (jn_WorkspaceID i) (jn_ActorID i) (cl_ID c) db"
    and fin: "commitAnnounced announce (jn_WorkspaceID i) [jn_ActorID i] (c, pid)
      (admitCallPresence pid (cl_ID c) (jn_ActorID i) (jn_ExpiresAt i) db) = Inr (x, db')"
    using assms by (auto simp: JoinResourceCall_def bind_err_Inr_iff split: option.splits if_splits)
  note c = find_callD [OF found] and after = commitAnnounced_Inr [OF fin]
  have "(cl_WorkspaceID c, jn_ActorID i) \<in> told announce db db'" using commitAnnounced_told [OF fin] c by simp
  then show ?thesis using c res free after by (intro admitted_effect [of c]) simp_all
qed

lemma renewed:
  assumes "renewCallPresenceFenced now (cl_ID c) u p e db = (r, db1)" and "r \<noteq> leaseNotRenewed"
  shows "filter (\<lambda>l. \<not> lease_for c u l) (cd_leases db1) = filter (\<lambda>l. \<not> lease_for c u l) (cd_leases db)"
    and "cd_calls db1 = cd_calls db" and "cd_announced db1 = cd_announced db"
    and "r = leaseExtended \<Longrightarrow> now < e \<Longrightarrow> live_lease now (cl_ID c) u db \<and> live_lease now (cl_ID c) u db1"
proof -
  obtain prior where prior: "find (lease_is (cl_ID c) u p) (cd_leases db) = Some prior"
    and db1: "db1 = db\<lparr>cd_leases := map (\<lambda>l. if lease_is (cl_ID c) u p l then l\<lparr>le_ExpiresAt := e\<rparr> else l) (cd_leases db)\<rparr>"
    and r: "r = (if le_ExpiresAt prior \<le> now then leaseRevived else leaseExtended)"
    using assms by (auto simp: renewCallPresenceFenced_def split: option.splits)
  have sub: "lease_is (cl_ID c) u p l \<Longrightarrow> lease_for c u l" for l by (simp add: lease_is_def lease_for_def)
  have "filter (\<lambda>l. \<not> lease_for c u l) (map (\<lambda>l. if lease_is (cl_ID c) u p l then l\<lparr>le_ExpiresAt := e\<rparr> else l) xs) =
      filter (\<lambda>l. \<not> lease_for c u l) xs" for xs
    by (induction xs) (auto simp: lease_is_def lease_for_def)
  then show "filter (\<lambda>l. \<not> lease_for c u l) (cd_leases db1) = filter (\<lambda>l. \<not> lease_for c u l) (cd_leases db)" by (simp add: db1)
  show "cd_calls db1 = cd_calls db" "cd_announced db1 = cd_announced db" by (simp_all add: db1)
  show "live_lease now (cl_ID c) u db \<and> live_lease now (cl_ID c) u db1" if "r = leaseExtended" "now < e"
  proof
    have p: "prior \<in> set (cd_leases db)" "lease_is (cl_ID c) u p prior" using find_SomeD [OF prior] by simp_all
    have "now < le_ExpiresAt prior" using that(1) r by (simp split: if_splits)
    then show "live_lease now (cl_ID c) u db" using p unfolding live_lease_def list_ex_iff lease_is_def by blast
    have "prior\<lparr>le_ExpiresAt := e\<rparr> \<in> set (cd_leases db1)" using p by (force simp: db1)
    moreover have "le_CallID (prior\<lparr>le_ExpiresAt := e\<rparr>) = cl_ID c \<and> le_UserID (prior\<lparr>le_ExpiresAt := e\<rparr>) = u \<and>
        now < le_ExpiresAt (prior\<lparr>le_ExpiresAt := e\<rparr>)" using p(2) that(2) by (simp add: lease_is_def)
    ultimately show "live_lease now (cl_ID c) u db1" unfolding live_lease_def list_ex_iff by blast
  qed
qed

lemma RenewCallPresence_effect:
  assumes "RenewCallPresence announce now i db = Inr (x, db')" and "now < rn_ExpiresAt i"
  shows "call_effect now (told announce db db') db db'"
proof -
  obtain c r db1 where found: "find_call (rn_WorkspaceID i) (rn_CallID i) db = Some c" and res: "IsResource c"
    and free: "\<not> callParticipantBusy now (rn_WorkspaceID i) (rn_ActorID i) (cl_ID c) db"
    and renew: "renewCallPresenceFenced now (cl_ID c) (rn_ActorID i) (rn_ParticipationID i) (rn_ExpiresAt i) db = (r, db1)"
    and r: "r \<noteq> leaseNotRenewed" and fin: "commitAnnounced announce (rn_WorkspaceID i) (moved r (rn_ActorID i)) () db1 = Inr (x, db')"
    using assms(1) by (auto simp: RenewCallPresence_def bind_err_Inr_iff split: option.splits if_splits prod.splits)
  note c = find_callD [OF found] and after = commitAnnounced_Inr [OF fin] and re = renewed [OF renew r]
  have live: "live_lease t cid u db' = live_lease t cid u db1" for t cid u using after(3) by (simp add: live_lease_def)
  have "(cl_WorkspaceID c, rn_ActorID i) \<in> told announce db db' \<or>
      live_lease now (cl_ID c) (rn_ActorID i) db \<and> live_lease now (cl_ID c) (rn_ActorID i) db'"
  proof (cases r)
    case leaseRevived
    then show ?thesis using commitAnnounced_told [OF fin re(3)] c by (simp add: moved_def)
  qed (use r re(4) assms(2) live in auto)
  then show ?thesis using c res free after re by (intro leased [of db' db c "rn_ActorID i"]) simp_all
qed

lemma CreateResourceCall_effects:
  assumes "CreateResourceCall announce cid pid eid now i db = Inr (x, db')"
  shows "(call_effect now (told announce db db'))\<^sup>*\<^sup>* db db'"
proof (cases "find_request (rc_WorkspaceID i) (rc_CallerID i) (rc_RequestID i) db")
  case (Some e)
  then have "db' = db" using assms by (auto simp: CreateResourceCall_def Let_def split: if_splits)
  then show ?thesis by simp
next
  case None
  let ?A = "told announce db db'"
  obtain c new db1 where authorized: "authorizeResourceTarget (rc_WorkspaceID i) (rc_CallerID i) (rc_TargetType i) (rc_TargetID i) db = Inr True"
    and start: "(case find_active_resource (rc_WorkspaceID i) (rc_TargetType i) (rc_TargetID i) db of
               Some active \<Rightarrow> Inr (active, False, db)
             | None \<Rightarrow>
                 let c = new_resource_call cid now i in bind_err (insert_call c db) (\<lambda>db'. Inr (c, True, db'))) = Inr (c, new, db1)"
    and free: "\<not> callParticipantBusy now (rc_WorkspaceID i) (rc_CallerID i) (cl_ID c) db1"
    and fin: "(let db2 = admitCallPresence pid (cl_ID c) (rc_CallerID i) (rc_ExpiresAt i) db1;
                      (event, db3) = (if new then insertCallStartedEvent eid c db2 else ('''', db2)) in
                  commitAnnounced announce (rc_WorkspaceID i) [rc_CallerID i]
                    (c, cl_RequestID c = rc_RequestID i \<and> cl_CallerID c = rc_CallerID i, pid, event) db3) = Inr (x, db')"
    using assms None unfolding CreateResourceCall_def
    by (auto simp: bind_err_Inr_iff split: if_splits)
  have target: "rc_TargetType i = ''channel'' \<or> rc_TargetType i = ''dm''"
    using authorized by (auto simp: authorizeResourceTarget_def split: if_splits)
  have c: "cl_WorkspaceID c = rc_WorkspaceID i \<and> IsResource c \<and> c \<in> set (cd_calls db1) \<and> cd_announced db1 = cd_announced db \<and>
      call_effect now ?A db db1"
  proof (cases "find_active_resource (rc_WorkspaceID i) (rc_TargetType i) (rc_TargetID i) db")
    case None
    have c: "insert_call c db = Inr db1" "cl_WorkspaceID c = rc_WorkspaceID i" "cl_TargetType c = rc_TargetType i"
      "cl_TargetID c = rc_TargetID i" "cl_Status c = ''active''" "cl_Version c = 1"
      using start None by (auto simp: bind_err_Inr_iff new_resource_call_def Let_def)
    note ins = insert_call_Inr [OF c(1)]
    have "IsResource c" using c(3) target by (simp add: IsResource_def)
    then have "call_effect now ?A db db1" using ins c None by (intro opened [of db1 db c]) simp_all
    then show ?thesis using ins c \<open>IsResource c\<close> by simp
  next
    case (Some a)
    then have "c = a" "db1 = db" using start by auto
    moreover have "a \<in> set (cd_calls db)" "cl_WorkspaceID a = rc_WorkspaceID i" "cl_TargetType a = rc_TargetType i"
      using find_SomeD [OF Some [unfolded find_active_resource_def]] by simp_all
    moreover have "call_effect now ?A db db" by (rule idle) simp_all
    ultimately show ?thesis using target by (simp add: IsResource_def)
  qed
  have after: "cd_calls db' = cd_calls db1" "cd_leases db' = cd_leases (admitCallPresence pid (cl_ID c) (rc_CallerID i) (rc_ExpiresAt i) db1)"
    "(rc_WorkspaceID i, rc_CallerID i) \<in> ?A"
  proof -
    obtain y db3 where db3: "commitAnnounced announce (rc_WorkspaceID i) [rc_CallerID i] y db3 = Inr (x, db')"
      "cd_calls db3 = cd_calls db1" "cd_announced db3 = cd_announced db1"
      "cd_leases db3 = cd_leases (admitCallPresence pid (cl_ID c) (rc_CallerID i) (rc_ExpiresAt i) db1)"
      using fin c by (cases new) (auto simp: Let_def insertCallStartedEvent_def)
    from commitAnnounced_Inr [OF db3(1)] commitAnnounced_told [OF db3(1)] db3(2-4) c
    show "cd_calls db' = cd_calls db1" "cd_leases db' = cd_leases (admitCallPresence pid (cl_ID c) (rc_CallerID i) (rc_ExpiresAt i) db1)"
      "(rc_WorkspaceID i, rc_CallerID i) \<in> ?A" by simp_all
  qed
  have "call_effect now ?A db1 db'"
    using c free after by (intro admitted_effect [of c]) simp_all
  then show ?thesis using c by (meson converse_rtranclp_into_rtranclp r_into_rtranclp)
qed

lemma status_effect:
  assumes ok: "calls_ok t db" and c: "c \<in> set (cd_calls db)" and move: "call_move now A db c (g c)"
    and calls: "cd_calls db' = map (\<lambda>q. if cl_ID q = cl_ID c then g q else q) (cd_calls db)"
    and leases: "cd_leases db' = cd_leases db"
  shows "call_effect now A db db'"
proof (rule moves [OF calls leases])
  fix q assume q: "q \<in> set (cd_calls db)"
  show "(if cl_ID q = cl_ID c then g q else q) = q \<or> call_move now A db q (if cl_ID q = cl_ID c then g q else q)"
  proof (cases "cl_ID q = cl_ID c")
    case True
    then have "q = c" by (rule call_unique [OF ok q c])
    then show ?thesis using move by simp
  qed simp
qed

lemma status_update_move:
  assumes "cl_Status c = ''ringing'' \<and> s \<in> {''declined'', ''cancelled'', ''timed_out''} \<or>
      cl_Status c = ''ringing'' \<and> s = ''active'' \<and> \<not> IsResource c \<and>
        {(cl_WorkspaceID c, cl_CallerID c), (cl_WorkspaceID c, cl_CalleeID c)} \<subseteq> A \<or>
      cl_Status c = ''active'' \<and> s = ''ended'' \<and>
        (if IsResource c then \<forall>u. live_lease now (cl_ID c) u db \<longrightarrow> (cl_WorkspaceID c, u) \<in> A
         else {(cl_WorkspaceID c, cl_CallerID c), (cl_WorkspaceID c, cl_CalleeID c)} \<subseteq> A)"
  shows "call_move now A db c (status_update now s c)"
proof -
  have "cl_Status (status_update now s c) = s" by (simp add: status_update_def)
  then show ?thesis using assms unfolding call_move_def by (simp add: status_update_def)
qed

lemma LeaveResourceCall_effects:
  assumes "LeaveResourceCall announce now i db = Inr (x, db')" and ok: "calls_ok now db"
  shows "(call_effect now (told announce db db'))\<^sup>*\<^sup>* db db'"
proof -
  let ?A = "told announce db db'"
  obtain c where found: "find_call (lv_WorkspaceID i) (lv_CallID i) db = Some c" and res: "IsResource c"
    using assms(1) by (auto simp: LeaveResourceCall_def split: option.splits if_splits)
  note c = find_callD [OF found]
  define mine where "mine = lease_is (cl_ID c) (lv_ActorID i) (lv_ParticipationID i)"
  define db1 where "db1 = db\<lparr>cd_leases := filter (\<lambda>l. \<not> mine l) (cd_leases db)\<rparr>"
  have leave: "LeaveResourceCall announce now i db =
      (if \<not> list_ex mine (cd_leases db) then
         bind_err (authorizeResourceTarget (lv_WorkspaceID i) (lv_ActorID i) (cl_TargetType c) (cl_TargetID c) db) (\<lambda>authorized.
         if \<not> authorized then Inl ErrNotFound else Inr (no_result\<lparr>tr_Call := Some c\<rparr>, db))
       else if cl_Status c \<noteq> CallStatusActive then
         commitAnnounced announce (lv_WorkspaceID i) [lv_ActorID i] (no_result\<lparr>tr_Call := Some c, tr_Released := True\<rparr>) db1
       else if list_ex (\<lambda>l. le_CallID l = cl_ID c \<and> now < le_ExpiresAt l) (cd_leases db1) then
         commitAnnounced announce (lv_WorkspaceID i) [lv_ActorID i] (no_result\<lparr>tr_Call := Some c, tr_Released := True\<rparr>) db1
       else commitAnnounced announce (lv_WorkspaceID i) [lv_ActorID i]
              (no_result\<lparr>tr_Call := Some (status_update now CallStatusEnded c), tr_Changed := True, tr_Released := True\<rparr>)
              (updateCallStatus now (cl_ID c) CallStatusEnded db1))"
    using found res unfolding LeaveResourceCall_def mine_def db1_def Let_def by simp
  have leases: "filter (\<lambda>l. \<not> lease_for c (lv_ActorID i) l) (filter (\<lambda>l. \<not> mine l) xs) = filter (\<lambda>l. \<not> lease_for c (lv_ActorID i) l) xs" for xs
    by (induction xs) (auto simp: mine_def lease_is_def lease_for_def)
  have release: "call_effect now A db d"
    if "cd_calls d = cd_calls db" "cd_leases d = cd_leases db1" "(lv_WorkspaceID i, lv_ActorID i) \<in> A" for A d
    using that c res leases by (intro leased [of d db c "lv_ActorID i"]) (auto simp: db1_def live_lease_def list_ex_iff)
  show ?thesis
  proof (cases "list_ex mine (cd_leases db)")
    case False
    then have "db' = db" using assms(1) unfolding leave by (auto simp: bind_err_Inr_iff split: if_splits)
    then show ?thesis by simp
  next
    case True
    show ?thesis
    proof (cases "cl_Status c = CallStatusActive \<and> \<not> list_ex (\<lambda>l. le_CallID l = cl_ID c \<and> now < le_ExpiresAt l) (cd_leases db1)")
      case False
      then obtain y where "commitAnnounced announce (lv_WorkspaceID i) [lv_ActorID i] y db1 = Inr (x, db')"
        using assms(1) True unfolding leave by (auto split: if_splits)
      note after = commitAnnounced_Inr [OF this] and tell = commitAnnounced_told [OF this, of db]
      have "call_effect now ?A db db'" using after tell by (intro release) (simp_all add: db1_def)
      then show ?thesis by blast
    next
      case ended: True
      then obtain y where "commitAnnounced announce (lv_WorkspaceID i) [lv_ActorID i] y (updateCallStatus now (cl_ID c) CallStatusEnded db1) = Inr (x, db')"
        using assms(1) True unfolding leave by (auto split: if_splits)
      note after = commitAnnounced_Inr [OF this, unfolded updateCallStatus_def, simplified] and tell = commitAnnounced_told [OF this, of db]
      have released: "call_effect now ?A db db1" using tell by (intro release) (simp_all add: db1_def updateCallStatus_def)
      have "\<not> live_lease now (cl_ID c) u db1" for u using ended unfolding live_lease_def list_ex_iff by blast
      then have "call_move now ?A db1 c (status_update now ''ended'' c)"
        using ended res by (intro status_update_move) simp
      moreover have "calls_ok now db1" by (rule call_effect_keeps_ok [OF released ok])
      ultimately have "call_effect now ?A db1 db'"
        using c after by (intro status_effect [where c = c and g = "status_update now ''ended''"]) (simp_all add: db1_def)
      then show ?thesis using released by (meson converse_rtranclp_into_rtranclp r_into_rtranclp)
    qed
  qed
qed

lemma authorizeCallTransition_move:
  assumes "authorizeCallTransition c actor action = Inr (s, False)"
  shows "cl_Status c = ''ringing'' \<and> s \<in> {''declined'', ''cancelled''} \<or>
    cl_Status c = ''ringing'' \<and> s = ''active'' \<and> \<not> IsResource c \<or> cl_Status c = ''active'' \<and> s = ''ended''"
  using assms unfolding authorizeCallTransition_def Let_def by (auto split: if_splits)

lemma TransitionCall_effect:
  assumes "TransitionCall announce eid now i db = Inr (x, db')" and ok: "calls_ok now db"
  shows "call_effect now (told announce db db') db db'"
proof -
  let ?A = "told announce db db'"
  obtain c where found: "find_call (tn_WorkspaceID i) (tn_CallID i) db = Some c"
    using assms(1) by (auto simp: TransitionCall_def split: option.splits)
  note c = find_callD [OF found]
  show ?thesis
  proof (cases "cl_Status c = CallStatusRinging \<and> \<not> now < cl_ExpiresAt c")
    case True
    then have "db' = updateCallStatus now (cl_ID c) CallStatusTimedOut db"
      using assms(1) found by (auto simp: TransitionCall_def split: if_splits)
    moreover have "call_move now ?A db c (status_update now ''timed_out'' c)" using True by (intro status_update_move) simp
    ultimately show ?thesis
      using c by (intro status_effect [OF ok, where c = c and g = "status_update now ''timed_out''"]) (simp_all add: updateCallStatus_def)
  next
    case False
    then obtain s idem where auth: "authorizeCallTransition c (tn_ActorID i) (tn_Action i) = Inr (s, idem)"
      and rest: "(if idem then Inr ((no_result\<lparr>tr_Call := Some c\<rparr>, None), db)
               else let updated = status_update now s c;
                        db1 = updateCallStatus now (cl_ID c) s db;
                        (event, db2) = (if IsResource c then insertCallEndedEvent eid updated db1 else ('''', db1)) in
                    commitAnnounced announce (tn_WorkspaceID i) (participationChangedBy c s db1)
                      (no_result\<lparr>tr_Call := Some updated, tr_Changed := True, tr_EventMessageID := event\<rparr>, None) db2) = Inr (x, db')"
      using assms(1) found by (auto simp: TransitionCall_def bind_err_Inr_iff split: if_splits)
    show ?thesis
    proof (cases idem)
      case True
      then show ?thesis using rest by (intro idle) auto
    next
      case False
      let ?db1 = "updateCallStatus now (cl_ID c) s db"
      obtain y db2 where fin: "commitAnnounced announce (tn_WorkspaceID i) (participationChangedBy c s ?db1) y db2 = Inr (x, db')"
        and db2: "cd_calls db2 = cd_calls ?db1" "cd_leases db2 = cd_leases db" "cd_announced db2 = cd_announced db"
        using rest False by (cases "IsResource c") (auto simp: Let_def insertCallEndedEvent_def updateCallStatus_def split: if_splits)
      note after = commitAnnounced_Inr [OF fin]
      have A: "(cl_WorkspaceID c, u) \<in> ?A" if "u \<in> set (participationChangedBy c s ?db1)" for u
        using commitAnnounced_told [OF fin db2(3) that] c by simp
      have lease: "(cl_WorkspaceID c, u) \<in> ?A" if "cl_Status c = ''active''" "IsResource c" "live_lease now (cl_ID c) u db" for u
        using that by (intro A) (auto simp: participationChangedBy_def live_lease_def list_ex_iff updateCallStatus_def)
      have parties: "{(cl_WorkspaceID c, cl_CallerID c), (cl_WorkspaceID c, cl_CalleeID c)} \<subseteq> ?A"
        if "cl_Status c = ''active'' \<or> s = ''active''" "\<not> IsResource c"
        using that A by (auto simp: participationChangedBy_def)
      have auth': "authorizeCallTransition c (tn_ActorID i) (tn_Action i) = Inr (s, False)" using auth False by simp
      have move: "call_move now ?A db c (status_update now s c)"
        using authorizeCallTransition_move [OF auth']
      proof (elim disjE)
        assume "cl_Status c = ''ringing'' \<and> s \<in> {''declined'', ''cancelled''}"
        then show ?thesis by (intro status_update_move disjI1) blast
      next
        assume s: "cl_Status c = ''ringing'' \<and> s = ''active'' \<and> \<not> IsResource c"
        show ?thesis by (rule status_update_move, rule disjI2, rule disjI1) (use s parties in blast)
      next
        assume s: "cl_Status c = ''active'' \<and> s = ''ended''"
        have "if IsResource c then \<forall>u. live_lease now (cl_ID c) u db \<longrightarrow> (cl_WorkspaceID c, u) \<in> ?A
             else {(cl_WorkspaceID c, cl_CallerID c), (cl_WorkspaceID c, cl_CalleeID c)} \<subseteq> ?A"
        proof (cases "IsResource c")
          case True
          then show ?thesis using lease s unfolding if_P [OF True] by blast
        next
          case False
          then show ?thesis using parties s unfolding if_not_P [OF False] by blast
        qed
        then show ?thesis by (intro status_update_move disjI2) (use s in blast)
      qed
      show ?thesis
        using c move after db2 by (intro status_effect [OF ok, where c = c and g = "status_update now s"]) (simp_all add: updateCallStatus_def)
    qed
  qed
qed

lemma ExpireDueCalls_effect:
  assumes ok: "calls_ok now db"
  shows "call_effect now A db (snd (ExpireDueCalls locked now limit db))"
proof -
  define due where "due = take limit (sort_key (\<lambda>c. (cl_UpdatedAt c, cl_ID c)) (filter (\<lambda>c. due_call now db c \<and> \<not> locked (cl_ID c)) (cd_calls db)))"
  define f where "f c = (if cl_ID c \<in> set (map cl_ID due) then expire_update now c else c)" for c
  have result: "snd (ExpireDueCalls locked now limit db) = db\<lparr>cd_calls := map f (cd_calls db)\<rparr>"
    unfolding ExpireDueCalls_def due_def [symmetric] Let_def f_def by simp
  have "f c = c \<or> call_move now A db c (f c)" if c: "c \<in> set (cd_calls db)" for c
  proof (cases "cl_ID c \<in> set (map cl_ID due)")
    case True
    then obtain d where d: "d \<in> set due" "cl_ID c = cl_ID d" by auto
    then have "d \<in> set (cd_calls db) \<and> due_call now db d" unfolding due_def by (auto dest!: in_set_takeD)
    then have due: "due_call now db c" using call_unique [OF ok c] d by metis
    have "\<not> live_lease now (cl_ID c) u db" if "cl_Status c = ''active''" for u
      using due that unfolding due_call_def live_lease_def list_ex_iff by auto
    moreover have "IsResource c" if "cl_Status c = ''active''" using due that unfolding due_call_def IsResource_def by auto
    moreover have "cl_Status c = ''ringing'' \<or> cl_Status c = ''active''" using due unfolding due_call_def by blast
    moreover have "f c = expire_update now c" using True by (simp add: f_def)
    ultimately show ?thesis unfolding call_move_def expire_update_def by auto
  qed (simp add: f_def)
  then show ?thesis unfolding result by (intro moves [where f = f]) simp_all
qed

lemma call_step_effects:
  assumes ok: "calls_ok now db" and "forward (now, r)"
  shows "(call_effect now (told announce db (call_step announce db (now, r))))\<^sup>*\<^sup>* db (call_step announce db (now, r))"
proof -
  have settle: "(call_effect now (told announce db (settle db res)))\<^sup>*\<^sup>* db (settle db res)"
    if "\<And>x db'. res = Inr (x, db') \<Longrightarrow> (call_effect now (told announce db db'))\<^sup>*\<^sup>* db db'" for res :: "domain_error + 'a \<times> cdb"
    using that by (auto simp: settle_def split: sum.split)
  show ?thesis
  proof (cases r)
    case (Cq_Create cid i)
    show ?thesis unfolding Cq_Create call_step.simps using CreateCall_effect by (intro settle) blast
  next
    case (Cq_CreateResource cid pid eid i)
    show ?thesis unfolding Cq_CreateResource call_step.simps using CreateResourceCall_effects by (rule settle)
  next
    case (Cq_Renew i)
    show ?thesis unfolding Cq_Renew call_step.simps using RenewCallPresence_effect assms(2) Cq_Renew by (intro settle) auto
  next
    case (Cq_Join pid i)
    show ?thesis unfolding Cq_Join call_step.simps using JoinResourceCall_effect by (intro settle) blast
  next
    case (Cq_Leave i)
    show ?thesis unfolding Cq_Leave call_step.simps using LeaveResourceCall_effects ok by (intro settle) blast
  next
    case (Cq_Transition eid i)
    show ?thesis unfolding Cq_Transition call_step.simps using TransitionCall_effect ok by (intro settle) blast
  next
    case (Cq_Expire locked limit)
    show ?thesis unfolding Cq_Expire call_step.simps using ExpireDueCalls_effect [OF ok] by blast
  next
    case (Cq_Elsewhere world dms)
    show ?thesis unfolding Cq_Elsewhere call_step.simps by (rule r_into_rtranclp, rule idle) simp_all
  qed
qed

section \<open>What every run keeps\<close>

lemma call_run_ok:
  assumes "calls_ok t0 db" and "sorted (t0 # map fst reqs)" and "list_all forward reqs" and "\<forall>r\<in>set reqs. fst r \<le> t" and "t0 \<le> t"
  shows "calls_ok t (call_run announce db reqs) \<and> (\<forall>c\<in>set (cd_calls db). \<exists>d\<in>set (cd_calls (call_run announce db reqs)). call_evolves c d)"
  using assms
proof (induction reqs arbitrary: db t0)
  case Nil
  then have "calls_ok t db" using calls_ok_later by simp
  then show ?case using call_evolves_refl unfolding call_run_def foldl.simps by blast
next
  case (Cons r reqs)
  obtain now q where r: "r = (now, q)" by (cases r)
  let ?db = "call_step announce db r"
  have now: "calls_ok now db" using Cons.prems(1,2) calls_ok_later unfolding r by auto
  note step = call_step_effects [OF now, of q announce]
  have fw: "forward (now, q)" using Cons.prems(3) r by simp
  have ok: "calls_ok now ?db" using call_effects_keep_ok [OF step [OF fw] now] r by simp
  have "calls_ok t (call_run announce ?db reqs) \<and>
      (\<forall>c\<in>set (cd_calls ?db). \<exists>d\<in>set (cd_calls (call_run announce ?db reqs)). call_evolves c d)"
    by (rule Cons.IH [OF ok]) (use Cons.prems r in auto)
  moreover have "\<exists>d\<in>set (cd_calls ?db). call_evolves c d" if "c \<in> set (cd_calls db)" for c
    using call_effects_evolve [OF step [OF fw] that] r by simp
  ultimately show ?case using call_evolves_trans unfolding call_run_def foldl.simps by meson
qed

lemma at_most_one:
  assumes "distinct xs" and "\<And>a b. a \<in> set xs \<Longrightarrow> b \<in> set xs \<Longrightarrow> P a \<Longrightarrow> P b \<Longrightarrow> a = b"
  shows "length (filter P xs) \<le> 1"
proof -
  have "card (set (filter P xs)) \<le> 1" using assms(2) by (auto simp: card_le_Suc0_iff_eq)
  then show ?thesis using assms(1) by (metis distinct_card distinct_filter)
qed

text \<open>
  Claim C1. Under any sequence of call operations on a clock that does not go back, a person is engaged in at most one call of a
  workspace at any time, counting calls that ring, and a channel or group has at most one active call.
\<close>

theorem one_call_at_a_time:
  assumes "calls_ok t0 db" and "sorted (t0 # map fst reqs)" and "list_all forward reqs" and "\<forall>r\<in>set reqs. fst r \<le> t" and "t0 \<le> t"
  shows "length (filter (engages t ws u (call_run announce db reqs)) (cd_calls (call_run announce db reqs))) \<le> 1 \<and>
    length (filter (\<lambda>c. IsResource c \<and> cl_WorkspaceID c = ws \<and> cl_TargetType c = kind \<and> cl_TargetID c = target \<and>
      cl_Status c = CallStatusActive) (cd_calls (call_run announce db reqs))) \<le> 1"
proof -
  let ?db = "call_run announce db reqs"
  have ok: "calls_ok t ?db" using call_run_ok [OF assms] by blast
  then have d: "distinct (cd_calls ?db)" unfolding calls_ok_def distinct_map by blast
  have "length (filter (engages t ws u ?db) (cd_calls ?db)) \<le> 1"
    using ok unfolding calls_ok_def by (intro at_most_one [OF d]) blast
  moreover have "a = b" if "a \<in> set (cd_calls ?db)" "b \<in> set (cd_calls ?db)"
    "IsResource a \<and> cl_WorkspaceID a = ws \<and> cl_TargetType a = kind \<and> cl_TargetID a = target \<and> cl_Status a = CallStatusActive"
    "IsResource b \<and> cl_WorkspaceID b = ws \<and> cl_TargetType b = kind \<and> cl_TargetID b = target \<and> cl_Status b = CallStatusActive" for a b
  proof -
    have "same_target a b" using that by (simp add: same_target_def)
    then show ?thesis using ok that unfolding calls_ok_def by blast
  qed
  then have "length (filter (\<lambda>c. IsResource c \<and> cl_WorkspaceID c = ws \<and> cl_TargetType c = kind \<and> cl_TargetID c = target \<and>
      cl_Status c = CallStatusActive) (cd_calls ?db)) \<le> 1"
    by (rule at_most_one [OF d])
  ultimately show ?thesis by (rule conjI)
qed

text \<open>
  Claim C30. A call is never lost and only moves forward: who calls whom about what never changes, the version grows with
  every change, and a call that was declined, cancelled, timed out or ended stays as it is.
\<close>

theorem call_history:
  assumes "calls_ok t0 db" and "sorted (t0 # map fst reqs)" and "list_all forward reqs" and "c \<in> set (cd_calls db)"
  shows "\<exists>d\<in>set (cd_calls (call_run announce db reqs)). call_evolves c d"
proof -
  have "\<forall>r\<in>set reqs. fst r \<le> Max (insert t0 (fst ` set reqs))" "t0 \<le> Max (insert t0 (fst ` set reqs))" by simp_all
  from call_run_ok [OF assms(1-3) this] show ?thesis using assms(4) by blast
qed

text \<open>
  Claim C12. In a store that has been given the presence layer, nobody's participation in a call starts or ends at an operation that did
  not announce that person first, by an announcement the presence layer accepted; so where it refuses them all, nobody's does. The
  one operation with a condition is the heartbeat: it asks for a lease that ends after the database's present.
\<close>

theorem participation_announced:
  assumes "calls_ok now db" and "forward (now, r)"
    and "participating now ws u (call_step (Some announce) db (now, r)) \<noteq> participating now ws u db"
  shows "(ws, u) \<in> announced db (call_step (Some announce) db (now, r)) \<and> (\<exists>users. u \<in> set users \<and> announce ws users = None)"
proof -
  have "(ws, u) \<in> told (Some announce) db (call_step (Some announce) db (now, r))"
    using call_effects_announced [OF call_step_effects [OF assms(1,2)] assms(1)] assms(3) by blast
  then show ?thesis by (simp add: told_def)
qed

section \<open>Superseded participations\<close>

text \<open>Where a lease's identifier comes from: it was there before, or an operation admitted somebody under it.\<close>

definition leases_from :: "string set \<Rightarrow> cdb \<Rightarrow> cdb \<Rightarrow> bool" where
  "leases_from pids db db' \<longleftrightarrow> (\<forall>l\<in>set (cd_leases db'). le_ParticipationID l \<in> Some ` pids \<or>
     (\<exists>k\<in>set (cd_leases db). le_CallID k = le_CallID l \<and> le_UserID k = le_UserID l \<and> le_ParticipationID k = le_ParticipationID l))"

lemma leases_same: "cd_leases db' = cd_leases db \<Longrightarrow> leases_from pids db db'"
  by (auto simp: leases_from_def)

lemma leases_admit: "cd_leases db' = cd_leases (admitCallPresence pid cid u e db) \<Longrightarrow> leases_from {pid} db db'"
  by (auto simp: leases_from_def admitCallPresence_def Let_def)

lemma commit_leases: "commitAnnounced announce ws users x d = Inr (y, db') \<Longrightarrow> leases_from pids db d \<Longrightarrow> leases_from pids db db'"
  using commitAnnounced_Inr(3) unfolding leases_from_def by metis

fun admissions :: "call_request \<Rightarrow> string set" where
  "admissions (Cq_CreateResource cid pid eid i) = {pid}"
| "admissions (Cq_Join pid i) = {pid}"
| "admissions _ = {}"

lemma CreateResourceCall_admits:
  assumes "CreateResourceCall announce cid pid eid now i db = Inr ((c, x), db')"
    and "find_request (rc_WorkspaceID i) (rc_CallerID i) (rc_RequestID i) db = None"
  shows "cd_leases db' = cd_leases (admitCallPresence pid (cl_ID c) (rc_CallerID i) (rc_ExpiresAt i) db)"
proof -
  obtain a new db1 where start: "(case find_active_resource (rc_WorkspaceID i) (rc_TargetType i) (rc_TargetID i) db of
               Some active \<Rightarrow> Inr (active, False, db)
             | None \<Rightarrow>
                 let c = new_resource_call cid now i in bind_err (insert_call c db) (\<lambda>db'. Inr (c, True, db'))) = Inr (a, new, db1)"
    and fin: "(let db2 = admitCallPresence pid (cl_ID a) (rc_CallerID i) (rc_ExpiresAt i) db1;
                      (event, db3) = (if new then insertCallStartedEvent eid a db2 else ('''', db2)) in
                  commitAnnounced announce (rc_WorkspaceID i) [rc_CallerID i]
                    (a, cl_RequestID a = rc_RequestID i \<and> cl_CallerID a = rc_CallerID i, pid, event) db3) = Inr ((c, x), db')"
    using assms unfolding CreateResourceCall_def by (auto simp: bind_err_Inr_iff split: if_splits)
  have "cd_leases db1 = cd_leases db" using start by (auto simp: bind_err_Inr_iff insert_call_def Let_def split: option.splits if_splits)
  then have admit: "cd_leases (admitCallPresence p k u e db1) = cd_leases (admitCallPresence p k u e db)" for p k u e
    by (simp add: admitCallPresence_def Let_def)
  obtain y db3 where db3: "commitAnnounced announce (rc_WorkspaceID i) [rc_CallerID i] (a, y) db3 = Inr ((c, x), db')"
    "cd_leases db3 = cd_leases (admitCallPresence pid (cl_ID a) (rc_CallerID i) (rc_ExpiresAt i) db1)"
    using fin by (cases new) (auto simp: Let_def insertCallStartedEvent_def split: if_splits)
  show ?thesis using commitAnnounced_Inr(1,3) [OF db3(1)] db3(2) admit by simp
qed

lemma JoinResourceCall_admits:
  assumes "JoinResourceCall announce pid now i db = Inr ((c, x), db')"
  shows "cd_leases db' = cd_leases (admitCallPresence pid (cl_ID c) (jn_ActorID i) (jn_ExpiresAt i) db)"
  using assms
  by (auto simp: JoinResourceCall_def bind_err_Inr_iff commitAnnounced_def split: option.splits if_splits)

lemma CreateResourceCall_leases:
  assumes "CreateResourceCall announce cid pid eid now i db = Inr (x, db')"
  shows "leases_from {pid} db db'"
proof (cases "find_request (rc_WorkspaceID i) (rc_CallerID i) (rc_RequestID i) db")
  case (Some e)
  then have "db' = db" using assms by (auto simp: CreateResourceCall_def Let_def split: if_splits)
  then show ?thesis by (simp add: leases_same)
next
  case None
  obtain c y where "x = (c, y)" by (cases x)
  then show ?thesis using CreateResourceCall_admits [OF _ None] assms leases_admit by blast
qed

lemma RenewCallPresence_leases:
  assumes "RenewCallPresence announce now i db = Inr (x, db')"
  shows "leases_from {} db db'"
proof -
  obtain cid r db1 where renew: "renewCallPresenceFenced now cid (rn_ActorID i) (rn_ParticipationID i) (rn_ExpiresAt i) db = (r, db1)"
    and fin: "commitAnnounced announce (rn_WorkspaceID i) (moved r (rn_ActorID i)) () db1 = Inr (x, db')"
    using assms by (auto simp: RenewCallPresence_def bind_err_Inr_iff split: option.splits if_splits prod.splits)
  have "leases_from {} db db1" using renew by (force simp: renewCallPresenceFenced_def leases_from_def split: option.splits)
  then show ?thesis by (rule commit_leases [OF fin])
qed

lemma LeaveResourceCall_leases:
  assumes "LeaveResourceCall announce now i db = Inr (x, db')"
  shows "leases_from {} db db'"
proof -
  have "\<exists>P. cd_leases db' = filter P (cd_leases db)"
  proof (cases "db' = db")
    case True
    then show ?thesis by (intro exI [of _ "\<lambda>_. True"]) simp
  next
    case False
    then obtain P d y where fin: "commitAnnounced announce (lv_WorkspaceID i) [lv_ActorID i] y d = Inr (x, db')"
      and "cd_leases d = filter P (cd_leases db)"
      using assms by (fastforce simp: LeaveResourceCall_def Let_def bind_err_Inr_iff updateCallStatus_def split: option.splits if_splits)
    then show ?thesis using commitAnnounced_Inr(3) [OF fin] by metis
  qed
  then show ?thesis by (auto simp: leases_from_def)
qed

lemma TransitionCall_leases:
  assumes "TransitionCall announce eid now i db = Inr (x, db')"
  shows "cd_leases db' = cd_leases db"
proof -
  consider "cd_leases db' = cd_leases db"
    | d users y where "commitAnnounced announce (tn_WorkspaceID i) users y d = Inr (x, db')" "cd_leases d = cd_leases db"
    using assms
    by (fastforce simp: TransitionCall_def Let_def bind_err_Inr_iff updateCallStatus_def insertCallEndedEvent_def split: option.splits if_splits)
  then show ?thesis by cases (use commitAnnounced_Inr(3) in metis)+
qed

lemma call_step_leases: "leases_from (admissions r) db (call_step announce db (now, r))"
proof -
  have settle: "leases_from pids db (settle db res)" if "\<And>x db'. res = Inr (x, db') \<Longrightarrow> leases_from pids db db'"
    for res :: "domain_error + 'a \<times> cdb" and pids
    using that by (auto simp: settle_def leases_same split: sum.split)
  show ?thesis
  proof (cases r)
    case (Cq_Create cid i)
    show ?thesis unfolding Cq_Create call_step.simps
      by (rule settle, rule leases_same) (auto simp: CreateCall_def insert_call_def bind_err_Inr_iff Let_def split: option.splits if_splits)
  next
    case (Cq_CreateResource cid pid eid i)
    show ?thesis unfolding Cq_CreateResource call_step.simps admissions.simps using CreateResourceCall_leases by (rule settle)
  next
    case (Cq_Renew i)
    show ?thesis unfolding Cq_Renew call_step.simps admissions.simps using RenewCallPresence_leases by (rule settle)
  next
    case (Cq_Join pid i)
    show ?thesis unfolding Cq_Join call_step.simps admissions.simps
      using JoinResourceCall_admits leases_admit by (intro settle) (metis prod.exhaust)
  next
    case (Cq_Leave i)
    show ?thesis unfolding Cq_Leave call_step.simps admissions.simps using LeaveResourceCall_leases by (rule settle)
  next
    case (Cq_Transition eid i)
    show ?thesis unfolding Cq_Transition call_step.simps admissions.simps using TransitionCall_leases leases_same by (intro settle) blast
  next
    case (Cq_Expire locked limit)
    show ?thesis unfolding Cq_Expire call_step.simps by (rule leases_same) (simp add: ExpireDueCalls_def Let_def)
  next
    case (Cq_Elsewhere world dms)
    show ?thesis unfolding Cq_Elsewhere call_step.simps by (rule leases_same) simp
  qed
qed

text \<open>No lease of the person in the call answers to the identifier.\<close>

definition fenced_off :: "string \<Rightarrow> string \<Rightarrow> string \<Rightarrow> cdb \<Rightarrow> bool" where
  "fenced_off cid u p db \<longleftrightarrow> (\<forall>l\<in>set (cd_leases db). \<not> lease_is cid u p l)"

lemma call_step_fenced:
  assumes "fenced_off cid u p db" and "p \<notin> admissions (snd r)"
  shows "fenced_off cid u p (call_step announce db r)"
proof -
  have "leases_from (admissions (snd r)) db (call_step announce db r)" using call_step_leases [of "snd r" db announce "fst r"] by simp
  moreover have "fence p \<notin> Some ` admissions (snd r)" using assms(2) by (auto simp: fence_def)
  ultimately show ?thesis using assms(1) unfolding fenced_off_def leases_from_def lease_is_def by metis
qed

lemma call_run_fenced:
  "fenced_off cid u p db \<Longrightarrow> \<forall>r\<in>set reqs. p \<notin> admissions (snd r) \<Longrightarrow> fenced_off cid u p (call_run announce db reqs)"
  by (induction reqs arbitrary: db) (simp_all add: call_run_def call_step_fenced)

lemma admission_fences:
  assumes "cd_leases db1 = cd_leases (admitCallPresence pid cid u e db)" and "p \<noteq> pid"
  shows "fenced_off cid u p db1"
  using assms(2) unfolding fenced_off_def assms(1) by (auto simp: admitCallPresence_def Let_def lease_is_def fence_def list_ex_iff)

lemma fenced_inert:
  assumes "fenced_off cid u p db"
  shows "call_step announce db (now, Cq_Renew \<lparr>rn_WorkspaceID = ws, rn_CallID = cid, rn_ActorID = u, rn_ExpiresAt = e, rn_ParticipationID = p\<rparr>) = db"
    and "LeaveResourceCall announce now \<lparr>lv_WorkspaceID = ws, lv_CallID = cid, lv_ActorID = u, lv_ParticipationID = p\<rparr> db = Inr (result, db') \<Longrightarrow>
      db' = db \<and> \<not> tr_Released result \<and> \<not> tr_Changed result"
proof -
  have none: "\<not> list_ex (lease_is cid u p) (cd_leases db)" "find (lease_is cid u p) (cd_leases db) = None"
    using assms by (auto simp: fenced_off_def list_ex_iff find_None_iff)
  have id: "cl_ID c = cid" if "find_call ws cid db = Some c" for c using find_callD [OF that] by simp
  show "call_step announce db (now, Cq_Renew \<lparr>rn_WorkspaceID = ws, rn_CallID = cid, rn_ActorID = u, rn_ExpiresAt = e, rn_ParticipationID = p\<rparr>) = db"
    using none id
    by (auto simp: settle_def RenewCallPresence_def renewCallPresenceFenced_def bind_err_Inr_iff split: option.splits sum.splits if_splits)
  show "db' = db \<and> \<not> tr_Released result \<and> \<not> tr_Changed result"
    if "LeaveResourceCall announce now \<lparr>lv_WorkspaceID = ws, lv_CallID = cid, lv_ActorID = u, lv_ParticipationID = p\<rparr> db = Inr (result, db')"
    using that none id
    by (auto simp: LeaveResourceCall_def Let_def no_result_def bind_err_Inr_iff split: option.splits if_splits)
qed

text \<open>
  Claim C26. A participation is fenced by its identifier: once a newer admission of the same person to the same call has been
  granted, by joining it or by calling its channel or group, then for as long as no later admission reuses an older identifier, a heartbeat
  or a leave that carries that one, or none at all, changes nothing and releases nothing, whatever calls, heartbeats
  and departures came in between.
\<close>

theorem superseded_participation_inert:
  assumes "JoinResourceCall announce pid now i db = Inr ((c, p'), db1) \<and> u = jn_ActorID i \<or>
      CreateResourceCall announce cid pid eid now j db = Inr ((c, new, p', event), db1) \<and> u = rc_CallerID j \<and>
        find_request (rc_WorkspaceID j) (rc_CallerID j) (rc_RequestID j) db = None"
    and "p \<noteq> pid" and "\<forall>r\<in>set reqs. p \<notin> admissions (snd r)"
  defines "later \<equiv> call_run announce db1 reqs"
  shows "call_step announce later (now', Cq_Renew \<lparr>rn_WorkspaceID = ws, rn_CallID = cl_ID c, rn_ActorID = u,
      rn_ExpiresAt = e, rn_ParticipationID = p\<rparr>) = later \<and>
    call_step announce later (now', Cq_Leave \<lparr>lv_WorkspaceID = ws, lv_CallID = cl_ID c, lv_ActorID = u, lv_ParticipationID = p\<rparr>) = later \<and>
    (\<forall>result db2. LeaveResourceCall announce now' \<lparr>lv_WorkspaceID = ws, lv_CallID = cl_ID c, lv_ActorID = u,
      lv_ParticipationID = p\<rparr> later = Inr (result, db2) \<longrightarrow> \<not> tr_Released result \<and> \<not> tr_Changed result)"
proof -
  have "fenced_off (cl_ID c) u p db1"
    using assms(1) admission_fences [OF JoinResourceCall_admits assms(2)] admission_fences [OF CreateResourceCall_admits assms(2)] by blast
  then have off: "fenced_off (cl_ID c) u p later" unfolding later_def using assms(3) by (rule call_run_fenced)
  then show ?thesis using fenced_inert [OF off] by (auto simp: settle_def split: sum.splits)
qed

section \<open>An example\<close>

definition example_cdb :: cdb where
  "example_cdb = \<lparr>cd_world = example_mdb, cd_dm_type = (\<lambda>_. None), cd_calls = [], cd_leases = [], cd_events = [], cd_announced = []\<rparr>"

abbreviation announce_all :: "PresenceFacts option" where
  "announce_all \<equiv> Some (\<lambda>_ _. None)"

definition example_start :: call_request where
  "example_start = Cq_CreateResource ''call'' ''p1'' ''event'' \<lparr>rc_WorkspaceID = example_ws, rc_RequestID = ''r1'', rc_CallerID = example_user,
     rc_TargetType = CallTargetChannel, rc_TargetID = example_chan, rc_Type = CallTypeAudio, rc_ExpiresAt = 100\<rparr>"

definition example_ring :: call_request where
  "example_ring = Cq_Create ''call2'' \<lparr>cc_WorkspaceID = example_ws, cc_RequestID = ''r2'', cc_CallerID = example_organizer,
     cc_CalleeID = example_user, cc_Type = CallTypeVideo, cc_ExpiresAt = 100\<rparr>"

definition example_join :: JoinResourceCallInput where
  "example_join = \<lparr>jn_WorkspaceID = example_ws, jn_CallID = ''call'', jn_ActorID = example_user, jn_TargetType = CallTargetChannel,
     jn_TargetID = example_chan, jn_ExpiresAt = 120\<rparr>"

definition example_talk :: cdb where
  "example_talk = call_run announce_all example_cdb [(1, example_start)]"

lemma example_cdb_ok: "calls_ok 0 example_cdb"
  by (simp add: calls_ok_def example_cdb_def)

lemma example_talk_ok: "calls_ok 1 example_talk"
proof -
  have "list_all forward [(1, example_start)]" by (simp add: example_start_def)
  then show ?thesis unfolding example_talk_def
    using call_run_ok [OF example_cdb_ok, of "[(1, example_start)]" 1 announce_all] by simp
qed

text \<open>The user is in the channel's call, so the second caller is refused; ten minutes later they would not be.\<close>

theorem one_call_at_a_time_witness:
  "length (filter (engages 2 example_ws example_user (call_run announce_all example_cdb [(1, example_start), (2, example_ring)]))
     (cd_calls (call_run announce_all example_cdb [(1, example_start), (2, example_ring)]))) \<le> 1 \<and>
   map cl_ID (cd_calls (call_run announce_all example_cdb [(1, example_start), (2, example_ring)])) = [''call''] \<and>
   map cl_ID (cd_calls (call_run announce_all example_cdb [(1, example_start), (200, example_ring)])) = [''call'', ''call2'']"
proof -
  have "map cl_ID (cd_calls (call_run announce_all example_cdb [(1, example_start), (2, example_ring)])) = [''call''] \<and>
    map cl_ID (cd_calls (call_run announce_all example_cdb [(1, example_start), (200, example_ring)])) = [''call'', ''call2'']" by code_simp
  moreover have "list_all forward [(1, example_start), (2, example_ring)]" by (simp add: example_start_def example_ring_def)
  ultimately show ?thesis
    using one_call_at_a_time [OF example_cdb_ok, of "[(1, example_start), (2, example_ring)]" 2 example_ws example_user announce_all] by simp
qed

theorem call_history_witness:
  "\<exists>d\<in>set (cd_calls (call_run announce_all example_talk
     [(9, Cq_Transition ''e'' \<lparr>tn_WorkspaceID = example_ws, tn_CallID = ''call'', tn_ActorID = example_user, tn_Action = CallActionEnd\<rparr>)])).
   call_evolves (hd (cd_calls example_talk)) d"
proof -
  have "cd_calls example_talk \<noteq> []" by code_simp
  then have "hd (cd_calls example_talk) \<in> set (cd_calls example_talk)" by (rule hd_in_set)
  from call_history [OF example_talk_ok _ _ this] show ?thesis by simp
qed

theorem participation_announced_witness:
  "(example_ws, example_user) \<in> announced example_cdb (call_step announce_all example_cdb (1, example_start))"
proof (rule participation_announced [THEN conjunct1])
  show "calls_ok 1 example_cdb" using calls_ok_later [OF example_cdb_ok] by simp
  show "forward (1, example_start)" by (simp add: example_start_def)
  have "participating 1 example_ws example_user (call_step announce_all example_cdb (1, example_start))" by code_simp
  moreover have "\<not> participating 1 example_ws example_user example_cdb" by (simp add: participating_def example_cdb_def)
  ultimately show "participating 1 example_ws example_user (call_step announce_all example_cdb (1, example_start)) \<noteq>
    participating 1 example_ws example_user example_cdb" by simp
qed

definition example_rejoined :: "Call \<times> cdb" where
  "example_rejoined = (case JoinResourceCall announce_all ''p2'' 5 example_join example_talk of
     Inr ((c, _), db) \<Rightarrow> (c, db) | Inl _ \<Rightarrow> (hd (cd_calls example_talk), example_talk))"

text \<open>The user joins again under a new identifier and keeps it alive; the first participation can then end nothing.\<close>

theorem superseded_participation_inert_witness:
  "let later = call_run announce_all (snd example_rejoined) [(7, Cq_Renew \<lparr>rn_WorkspaceID = example_ws, rn_CallID = ''call'',
     rn_ActorID = example_user, rn_ExpiresAt = 200, rn_ParticipationID = ''p2''\<rparr>)] in
   call_step announce_all later (8, Cq_Leave \<lparr>lv_WorkspaceID = example_ws, lv_CallID = ''call'', lv_ActorID = example_user,
     lv_ParticipationID = ''p1''\<rparr>) = later \<and> map le_ExpiresAt (cd_leases later) = [200]"
proof -
  let ?reqs = "[(7, Cq_Renew \<lparr>rn_WorkspaceID = example_ws, rn_CallID = ''call'', rn_ActorID = example_user, rn_ExpiresAt = 200,
     rn_ParticipationID = ''p2''\<rparr>)]"
  have "(case JoinResourceCall announce_all ''p2'' 5 example_join example_talk of Inr _ \<Rightarrow> True | Inl _ \<Rightarrow> False)" by code_simp
  then obtain p where join: "JoinResourceCall announce_all ''p2'' 5 example_join example_talk = Inr ((fst example_rejoined, p), snd example_rejoined)"
    unfolding example_rejoined_def by (auto split: sum.splits)
  have id: "cl_ID (fst example_rejoined) = ''call''" and "map le_ExpiresAt (cd_leases (call_run announce_all (snd example_rejoined) ?reqs)) = [200]"
    by code_simp+
  then show ?thesis
    using superseded_participation_inert [of announce_all "''p2''" 5 example_join example_talk "fst example_rejoined" p "snd example_rejoined"
        example_user, unfolded id, OF disjI1 [OF conjI [OF join]], of "''p1''" ?reqs 8 example_ws]
    by (simp add: example_join_def Let_def)
qed

end
