(* ===== verification/Call_Service.thy ===== *)
theory Call_Service
  imports Call_Safety
begin

text \<open>
  The application service of calls, \<open>services/chat-service/internal/service/call_service.go\<close>: it validates identifiers, runs
  the store's transaction and publishes what was committed. An operation answers its result, the calls and the
  timeline events it published, and the tables. \<open>clock\<close> is the service's own clock, \<open>now\<close> the database's; a service without
  its store, which only answers invalid input, has no counterpart.
\<close>

record 'a served =
  sv_result :: "domain_error + 'a"
  sv_published :: "Call list"
  sv_events :: "(string \<times> string \<times> string \<times> string) list"
  sv_db :: cdb

definition refuse :: "domain_error \<Rightarrow> cdb \<Rightarrow> 'a served" where
  "refuse e db = \<lparr>sv_result = Inl e, sv_published = [], sv_events = [], sv_db = db\<rparr>"

definition canonicalUUID :: "(string \<Rightarrow> string option) \<Rightarrow> string \<Rightarrow> domain_error + string" where
  "canonicalUUID parse value = (case parse value of None \<Rightarrow> Inl ErrInvalidInput | Some u \<Rightarrow> Inr u)"

definition canonicalParticipationID :: "(string \<Rightarrow> string option) \<Rightarrow> string \<Rightarrow> domain_error + string" where
  "canonicalParticipationID parse value = (if value = '''' then Inr '''' else canonicalUUID parse value)"

text \<open>The next identifier, or invalid input.\<close>

definition with_id :: "domain_error + string \<Rightarrow> cdb \<Rightarrow> (string \<Rightarrow> 'a served) \<Rightarrow> 'a served" where
  "with_id r db f = (case r of Inl _ \<Rightarrow> refuse ErrInvalidInput db | Inr u \<Rightarrow> f u)"

definition call_conversation_event :: "string \<Rightarrow> string \<Rightarrow> string \<Rightarrow> string \<Rightarrow> (string \<times> string \<times> string \<times> string) list" where
  "call_conversation_event ws targetType target message = (if message = '''' then [] else [(ws, targetType, target, message)])"

record StartCallInput =
  si_WorkspaceID :: string
  si_RequestID :: string
  si_CallerID :: string
  si_CalleeID :: string
  si_TargetType :: string
  si_TargetID :: string
  si_Type :: string

definition start_resource ::
  "PresenceFacts option \<Rightarrow> string \<Rightarrow> string \<Rightarrow> string \<Rightarrow> go_time \<Rightarrow> CreateResourceCallInput \<Rightarrow> cdb \<Rightarrow>
   (Call \<times> string) served" where
  "start_resource announce cid pid eid now i db =
     (case CreateResourceCall announce cid pid eid now i db of
        Inl e \<Rightarrow> refuse e db
      | Inr ((call, created, participation, event), db') \<Rightarrow>
          \<lparr>sv_result = Inr (call, participation),
           sv_published = (if created \<or> cl_Status call = CallStatusActive then [call] else []),
           sv_events = call_conversation_event (rc_WorkspaceID i) (cl_TargetType call) (cl_TargetID call) event, sv_db = db'\<rparr>)"

definition start_direct :: "string \<Rightarrow> go_time \<Rightarrow> CreateCallInput \<Rightarrow> cdb \<Rightarrow> (Call \<times> string) served" where
  "start_direct cid now i db =
     (case CreateCall cid now i db of
        Inl e \<Rightarrow> refuse e db
      | Inr ((call, created), db') \<Rightarrow>
          \<lparr>sv_result = Inr (call, ''''), sv_published = (if created then [call] else []), sv_events = [], sv_db = db'\<rparr>)"

definition Start ::
  "PresenceFacts option \<Rightarrow> (string \<Rightarrow> string option) \<Rightarrow> go_duration \<Rightarrow> string \<Rightarrow> string \<Rightarrow> string \<Rightarrow>
   go_time \<Rightarrow> go_time \<Rightarrow> StartCallInput \<Rightarrow> cdb \<Rightarrow> (Call \<times> string) served" where
  "Start announce parse timeout cid pid eid clock now input db =
     with_id (canonicalUUID parse (si_WorkspaceID input)) db (\<lambda>ws.
     with_id (canonicalUUID parse (si_RequestID input)) db (\<lambda>request.
     with_id (canonicalUUID parse (si_CallerID input)) db (\<lambda>caller.
     if \<not> CallType_Valid (si_Type input) \<or> timeout \<le> 0 then refuse ErrInvalidInput db
     else if si_CalleeID input = '''' then
       (if si_TargetType input \<noteq> CallTargetChannel \<and> si_TargetType input \<noteq> CallTargetDM then refuse ErrInvalidInput db
        else with_id (canonicalUUID parse (si_TargetID input)) db (\<lambda>target.
          start_resource announce cid pid eid now
            \<lparr>rc_WorkspaceID = ws, rc_RequestID = request, rc_CallerID = caller, rc_TargetType = si_TargetType input,
             rc_TargetID = target, rc_Type = si_Type input, rc_ExpiresAt = clock + timeout\<rparr> db))
     else if si_TargetType input \<noteq> '''' \<or> si_TargetID input \<noteq> '''' then refuse ErrInvalidInput db
     else with_id (canonicalUUID parse (si_CalleeID input)) db (\<lambda>callee.
       if caller = callee then refuse ErrInvalidInput db
       else start_direct cid now
              \<lparr>cc_WorkspaceID = ws, cc_RequestID = request, cc_CallerID = caller, cc_CalleeID = callee,
               cc_Type = si_Type input, cc_ExpiresAt = clock + timeout\<rparr> db))))"

definition Presence ::
  "PresenceFacts option \<Rightarrow> (string \<Rightarrow> string option) \<Rightarrow> go_duration \<Rightarrow> go_time \<Rightarrow> go_time \<Rightarrow>
   string \<Rightarrow> string \<Rightarrow> string \<Rightarrow> string \<Rightarrow> cdb \<Rightarrow> unit served" where
  "Presence announce parse timeout clock now workspaceID actorID callID participationID db =
     with_id (canonicalUUID parse workspaceID) db (\<lambda>ws.
     with_id (canonicalUUID parse actorID) db (\<lambda>actor.
     with_id (canonicalUUID parse callID) db (\<lambda>call.
     with_id (canonicalParticipationID parse participationID) db (\<lambda>participation.
     if timeout \<le> 0 then refuse ErrInvalidInput db
     else case RenewCallPresence announce now
                 \<lparr>rn_WorkspaceID = ws, rn_CallID = call, rn_ActorID = actor, rn_ExpiresAt = clock + timeout,
                  rn_ParticipationID = participation\<rparr> db of
            Inl e \<Rightarrow> refuse e db
          | Inr (_, db') \<Rightarrow> \<lparr>sv_result = Inr (), sv_published = [], sv_events = [], sv_db = db'\<rparr>))))"

definition Leave ::
  "PresenceFacts option \<Rightarrow> (string \<Rightarrow> string option) \<Rightarrow> go_time \<Rightarrow>
   string \<Rightarrow> string \<Rightarrow> string \<Rightarrow> string \<Rightarrow> cdb \<Rightarrow> (Call option \<times> bool) served" where
  "Leave announce parse now workspaceID actorID callID participationID db =
     with_id (canonicalUUID parse workspaceID) db (\<lambda>ws.
     with_id (canonicalUUID parse actorID) db (\<lambda>actor.
     with_id (canonicalUUID parse callID) db (\<lambda>call.
     with_id (canonicalParticipationID parse participationID) db (\<lambda>participation.
     case LeaveResourceCall announce now
            \<lparr>lv_WorkspaceID = ws, lv_CallID = call, lv_ActorID = actor, lv_ParticipationID = participation\<rparr> db of
       Inl e \<Rightarrow> refuse e db
     | Inr (result, db') \<Rightarrow>
         \<lparr>sv_result = Inr (tr_Call result, tr_Released result),
          sv_published = (case tr_Call result of Some c \<Rightarrow> if tr_Changed result then [c] else [] | None \<Rightarrow> []),
          sv_events = [], sv_db = db'\<rparr>))))"

record JoinCallInput =
  ji_WorkspaceID :: string
  ji_ActorID :: string
  ji_CallID :: string
  ji_TargetType :: string
  ji_TargetID :: string

definition Join ::
  "PresenceFacts option \<Rightarrow> (string \<Rightarrow> string option) \<Rightarrow> go_duration \<Rightarrow> string \<Rightarrow> go_time \<Rightarrow> go_time \<Rightarrow>
   JoinCallInput \<Rightarrow> cdb \<Rightarrow> (Call \<times> string) served" where
  "Join announce parse timeout pid clock now input db =
     with_id (canonicalUUID parse (ji_WorkspaceID input)) db (\<lambda>ws.
     with_id (canonicalUUID parse (ji_ActorID input)) db (\<lambda>actor.
     with_id (canonicalUUID parse (ji_CallID input)) db (\<lambda>call.
     with_id (canonicalUUID parse (ji_TargetID input)) db (\<lambda>target.
     if timeout \<le> 0 \<or> (ji_TargetType input \<noteq> CallTargetChannel \<and> ji_TargetType input \<noteq> CallTargetDM) then refuse ErrInvalidInput db
     else case JoinResourceCall announce pid now
                 \<lparr>jn_WorkspaceID = ws, jn_CallID = call, jn_ActorID = actor, jn_TargetType = ji_TargetType input,
                  jn_TargetID = target, jn_ExpiresAt = clock + timeout\<rparr> db of
            Inl e \<Rightarrow> refuse e db
          | Inr (admission, db') \<Rightarrow> \<lparr>sv_result = Inr admission, sv_published = [], sv_events = [], sv_db = db'\<rparr>))))"

text \<open>A call that timed out is published and reported as a conflict.\<close>

definition transition ::
  "PresenceFacts option \<Rightarrow> (string \<Rightarrow> string option) \<Rightarrow> string \<Rightarrow> go_time \<Rightarrow>
   string \<Rightarrow> string \<Rightarrow> string \<Rightarrow> string \<Rightarrow> cdb \<Rightarrow> (Call option) served" where
  "transition announce parse eid now workspaceID actorID callID action db =
     with_id (canonicalUUID parse workspaceID) db (\<lambda>ws.
     with_id (canonicalUUID parse actorID) db (\<lambda>actor.
     with_id (canonicalUUID parse callID) db (\<lambda>call.
     case TransitionCall announce eid now
            \<lparr>tn_WorkspaceID = ws, tn_CallID = call, tn_ActorID = actor, tn_Action = action\<rparr> db of
       Inl e \<Rightarrow> refuse e db
     | Inr ((result, err), db') \<Rightarrow>
         \<lparr>sv_result = (case err of Some e \<Rightarrow> Inl e | None \<Rightarrow> Inr (tr_Call result)),
          sv_published = (case tr_Call result of Some c \<Rightarrow> if tr_Changed result then [c] else [] | None \<Rightarrow> []),
          sv_events = (case tr_Call result of
             Some c \<Rightarrow> call_conversation_event ws (cl_TargetType c) (cl_TargetID c) (tr_EventMessageID result) | None \<Rightarrow> []),
          sv_db = db'\<rparr>)))"

definition Accept where "Accept announce parse eid now ws actor call = transition announce parse eid now ws actor call CallActionAccept"
definition Decline where "Decline announce parse eid now ws actor call = transition announce parse eid now ws actor call CallActionDecline"
definition Cancel where "Cancel announce parse eid now ws actor call = transition announce parse eid now ws actor call CallActionCancel"
definition End where "End announce parse eid now ws actor call = transition announce parse eid now ws actor call CallActionEnd"

definition ResourceSync ::
  "(string \<Rightarrow> string option) \<Rightarrow> go_time \<Rightarrow> string \<Rightarrow> string \<Rightarrow> string \<Rightarrow> string \<Rightarrow> cdb \<Rightarrow> domain_error + Call option \<times> go_time" where
  "ResourceSync parse now workspaceID actorID targetType targetID db =
     (case (parse workspaceID, parse actorID, parse targetID) of
        (Some ws, Some actor, Some target) \<Rightarrow>
          if targetType \<noteq> CallTargetChannel \<and> targetType \<noteq> CallTargetDM then Inl ErrInvalidInput
          else bind_err (ActiveResourceCall now ws actor targetType target db) (\<lambda>result. Inr (ar_Call result, ar_ObservedAt result))
      | _ \<Rightarrow> Inl ErrInvalidInput)"

definition Current :: "(string \<Rightarrow> string option) \<Rightarrow> string \<Rightarrow> string \<Rightarrow> string \<Rightarrow> cdb \<Rightarrow> domain_error + Call" where
  "Current parse workspaceID actorID callID db =
     bind_err (canonicalUUID parse workspaceID) (\<lambda>ws.
     bind_err (canonicalUUID parse actorID) (\<lambda>actor.
     bind_err (canonicalParticipationID parse callID) (\<lambda>call. CurrentCallForUser ws actor call db)))"

definition ExpireDue :: "(string \<Rightarrow> bool) \<Rightarrow> go_time \<Rightarrow> cdb \<Rightarrow> unit served" where
  "ExpireDue locked now db =
     (let (calls, db') = ExpireDueCalls locked now 100 db in
      \<lparr>sv_result = Inr (), sv_published = calls, sv_events = [], sv_db = db'\<rparr>)"

section \<open>What is published is what was committed\<close>

text \<open>Every call the operation created or changed is published, and only calls as they are stored.\<close>

definition publishes_exactly :: "cdb \<Rightarrow> 'a served \<Rightarrow> bool" where
  "publishes_exactly db s \<longleftrightarrow>
     set (cd_calls (sv_db s)) - set (cd_calls db) \<subseteq> set (sv_published s) \<and> set (sv_published s) \<subseteq> set (cd_calls (sv_db s))"

lemma publishes_refuse [simp]: "publishes_exactly db (refuse e db)"
  by (simp add: publishes_exactly_def refuse_def)

lemma publishes_with_id [intro]: "(\<And>u. publishes_exactly db (f u)) \<Longrightarrow> publishes_exactly db (with_id r db f)"
  by (simp add: with_id_def split: sum.split)

lemma publishes_silent:
  "cd_calls d = cd_calls db \<Longrightarrow> publishes_exactly db \<lparr>sv_result = r, sv_published = [], sv_events = e, sv_db = d\<rparr>"
  by (simp add: publishes_exactly_def)

lemma publishes_direct: "publishes_exactly db (start_direct cid now i db)"
  by (auto simp: start_direct_def CreateCall_def Let_def bind_err_def publishes_exactly_def refuse_def
      split: sum.splits if_splits option.splits dest!: insert_call_Inr)

lemma publishes_resource: "publishes_exactly db (start_resource announce cid pid eid now i db)"
proof (cases "CreateResourceCall announce cid pid eid now i db")
  case (Inl e)
  then show ?thesis by (simp add: start_resource_def)
next
  case (Inr x)
  obtain c created participation event db' where x: "x = ((c, created, participation, event), db')" by (cases x) auto
  note run = Inr [unfolded x]
  show ?thesis
  proof (cases "find_request (rc_WorkspaceID i) (rc_CallerID i) (rc_RequestID i) db")
    case (Some e)
    then have "db' = db" "c = e" using run by (auto simp: CreateResourceCall_def Let_def split: if_splits)
    moreover have "e \<in> set (cd_calls db)" using find_SomeD [OF Some [unfolded find_request_def]] by simp
    ultimately show ?thesis using run by (auto simp: start_resource_def publishes_exactly_def)
  next
    case None
    then obtain new db1 db3 where start: "(case find_active_resource (rc_WorkspaceID i) (rc_TargetType i) (rc_TargetID i) db of
               Some active \<Rightarrow> Inr (active, False, db)
             | None \<Rightarrow> let c = new_resource_call cid now i in bind_err (insert_call c db) (\<lambda>db'. Inr (c, True, db'))) = Inr (c, new, db1)"
      and created: "created \<longleftrightarrow> cl_RequestID c = rc_RequestID i \<and> cl_CallerID c = rc_CallerID i"
      and calls: "cd_calls db' = cd_calls db1"
      using run unfolding CreateResourceCall_def
      by (fastforce simp: bind_err_Inr_iff Let_def insertCallStartedEvent_def commitAnnounced_def split: if_splits option.splits)
    have "set (cd_calls db1) - set (cd_calls db) \<subseteq> {c} \<and> c \<in> set (cd_calls db1) \<and> cl_Status c = ''active''"
    proof (cases "find_active_resource (rc_WorkspaceID i) (rc_TargetType i) (rc_TargetID i) db")
      case None
      then have "c = new_resource_call cid now i" "insert_call c db = Inr db1" using start by (auto simp: bind_err_Inr_iff Let_def)
      moreover from this have "db1 = db\<lparr>cd_calls := cd_calls db @ [c]\<rparr>" using insert_call_Inr by blast
      then have "set (cd_calls db1) = insert c (set (cd_calls db))" by simp
      ultimately show ?thesis by (auto simp: new_resource_call_def)
    next
      case (Some a)
      then have "a = c" "db1 = db" using start by auto
      then show ?thesis using find_SomeD [OF Some [unfolded find_active_resource_def]] by auto
    qed
    then show ?thesis using run calls by (auto simp: start_resource_def publishes_exactly_def)
  qed
qed

lemma updated_calls:
  assumes "calls_ok t db" and c: "c \<in> set (cd_calls db)" and "cd_calls db' = map (\<lambda>q. if cl_ID q = cl_ID c then g q else q) (cd_calls db)"
  shows "set (cd_calls db') - set (cd_calls db) \<subseteq> {g c} \<and> g c \<in> set (cd_calls db')"
proof -
  have "x = g c" if x: "x \<in> set (cd_calls db')" and new: "x \<notin> set (cd_calls db)" for x
  proof -
    obtain q where q: "q \<in> set (cd_calls db)" "x = (if cl_ID q = cl_ID c then g q else q)" using x assms(3) by auto
    then have "cl_ID q = cl_ID c" using new by (auto split: if_splits)
    moreover from this have "q = c" by (rule call_unique [OF assms(1) q(1) c])
    ultimately show ?thesis using q(2) by simp
  qed
  moreover have "g c \<in> set (cd_calls db')" using c assms(3) by auto
  ultimately show ?thesis by blast
qed

lemma publishes_result:
  fixes e :: "TransitionCallResult \<Rightarrow> (string \<times> string \<times> string \<times> string) list" and f :: "'x \<Rightarrow> TransitionCallResult"
  assumes "\<And>r db' c. run = Inr (r, db') \<Longrightarrow> tr_Call (f r) = Some c \<Longrightarrow>
      set (cd_calls db') - set (cd_calls db) \<subseteq> (if tr_Changed (f r) then {c} else {}) \<and> (tr_Changed (f r) \<longrightarrow> c \<in> set (cd_calls db'))"
    and "\<And>r db'. run = Inr (r, db') \<Longrightarrow> tr_Call (f r) \<noteq> None"
  shows "publishes_exactly db (case run of Inl x \<Rightarrow> refuse x db
     | Inr (r, db') \<Rightarrow> \<lparr>sv_result = g r, sv_published = (case tr_Call (f r) of None \<Rightarrow> [] | Some c \<Rightarrow> if tr_Changed (f r) then [c] else []),
          sv_events = h r, sv_db = db'\<rparr>)"
proof (cases run)
  case (Inr x)
  obtain r db' where x: "x = (r, db')" by (cases x)
  obtain c where c: "tr_Call (f r) = Some c" using assms(2) Inr x by blast
  show ?thesis using assms(1) [OF Inr [unfolded x] c] Inr x c by (auto simp: publishes_exactly_def split: if_splits)
qed simp

lemma publishes_leave:
  assumes "calls_ok now db"
  shows "publishes_exactly db (Leave announce parse now ws actor cid participation db)"
  unfolding Leave_def
proof (intro publishes_with_id)
  fix ws actor cid participation
  let ?i = "\<lparr>lv_WorkspaceID = ws, lv_CallID = cid, lv_ActorID = actor, lv_ParticipationID = participation\<rparr>"
  have "set (cd_calls db') - set (cd_calls db) \<subseteq> (if tr_Changed r then {c} else {}) \<and> (tr_Changed r \<longrightarrow> c \<in> set (cd_calls db'))"
    if run: "LeaveResourceCall announce now ?i db = Inr (r, db')" and c: "tr_Call r = Some c" for r db' c
  proof -
    obtain d where d: "find_call ws cid db = Some d" using run by (auto simp: LeaveResourceCall_def split: option.splits)
    have quiet: "cd_calls db' = cd_calls db \<and> \<not> tr_Changed r \<or>
        cd_calls db' = map (\<lambda>q. if cl_ID q = cl_ID d then status_update now ''ended'' q else q) (cd_calls db) \<and> tr_Changed r \<and>
        c = status_update now ''ended'' d"
      using run d c by (auto simp: LeaveResourceCall_def Let_def no_result_def updateCallStatus_def commitAnnounced_def bind_err_Inr_iff
          split: if_splits option.splits)
    then show ?thesis
    proof (elim disjE conjE)
      assume "cd_calls db' = cd_calls db" "\<not> tr_Changed r"
      then show ?thesis by simp
    next
      assume "cd_calls db' = map (\<lambda>q. if cl_ID q = cl_ID d then status_update now ''ended'' q else q) (cd_calls db)"
        and changed: "tr_Changed r" and "c = status_update now ''ended'' d"
      then have "set (cd_calls db') - set (cd_calls db) \<subseteq> {c} \<and> c \<in> set (cd_calls db')"
        using updated_calls [OF assms] find_callD [OF d] by blast
      then show ?thesis using changed by simp
    qed
  qed
  moreover have "tr_Call r \<noteq> None" if "LeaveResourceCall announce now ?i db = Inr (r, db')" for r db'
    using that by (auto simp: LeaveResourceCall_def Let_def no_result_def commitAnnounced_def bind_err_Inr_iff split: if_splits option.splits)
  ultimately show "publishes_exactly db (case LeaveResourceCall announce now ?i db of Inl e \<Rightarrow> refuse e db
     | Inr (result, db') \<Rightarrow> \<lparr>sv_result = Inr (tr_Call result, tr_Released result),
          sv_published = (case tr_Call result of None \<Rightarrow> [] | Some c \<Rightarrow> if tr_Changed result then [c] else []), sv_events = [], sv_db = db'\<rparr>)"
    by (rule publishes_result)
qed

lemma publishes_transition:
  assumes "calls_ok now db"
  shows "publishes_exactly db (transition announce parse eid now ws actor cid action db)"
  unfolding transition_def
proof (intro publishes_with_id)
  fix ws actor cid
  let ?i = "\<lparr>tn_WorkspaceID = ws, tn_CallID = cid, tn_ActorID = actor, tn_Action = action\<rparr>"
  have shape: "\<exists>d c. find_call ws cid db = Some d \<and> tr_Call (fst x) = Some c \<and>
      (cd_calls db' = cd_calls db \<and> \<not> tr_Changed (fst x) \<or>
       (\<exists>st. cd_calls db' = map (\<lambda>q. if cl_ID q = cl_ID d then status_update now st q else q) (cd_calls db) \<and> tr_Changed (fst x) \<and>
         c = status_update now st d))"
    if run: "TransitionCall announce eid now ?i db = Inr (x, db')" for x db'
  proof -
    obtain d where d: "find_call ws cid db = Some d" using run by (auto simp: TransitionCall_def split: option.splits)
    show ?thesis using run d
      by (auto simp: TransitionCall_def Let_def no_result_def updateCallStatus_def insertCallEndedEvent_def commitAnnounced_def bind_err_Inr_iff
          split: if_splits option.splits)
  qed
  have *: "set (cd_calls db') - set (cd_calls db) \<subseteq> (if tr_Changed (fst x) then {c} else {}) \<and> (tr_Changed (fst x) \<longrightarrow> c \<in> set (cd_calls db'))"
    if run: "TransitionCall announce eid now ?i db = Inr (x, db')" and c: "tr_Call (fst x) = Some c" for x db' c
  proof -
    from shape [OF run] obtain d where d: "find_call ws cid db = Some d"
      and "cd_calls db' = cd_calls db \<and> \<not> tr_Changed (fst x) \<or>
       (\<exists>st. cd_calls db' = map (\<lambda>q. if cl_ID q = cl_ID d then status_update now st q else q) (cd_calls db) \<and> tr_Changed (fst x) \<and>
         c = status_update now st d)" using c by auto
    then show ?thesis
    proof (elim disjE exE conjE)
      assume "cd_calls db' = cd_calls db" "\<not> tr_Changed (fst x)"
      then show ?thesis by simp
    next
      fix st assume "cd_calls db' = map (\<lambda>q. if cl_ID q = cl_ID d then status_update now st q else q) (cd_calls db)"
        and changed: "tr_Changed (fst x)" and "c = status_update now st d"
      then have "set (cd_calls db') - set (cd_calls db) \<subseteq> {c} \<and> c \<in> set (cd_calls db')"
        using updated_calls [OF assms] find_callD [OF d] by blast
      then show ?thesis using changed by simp
    qed
  qed
  have some: "tr_Call (fst x) \<noteq> None" if "TransitionCall announce eid now ?i db = Inr (x, db')" for x db'
    using shape [OF that] by auto
  have published: "publishes_exactly db (case TransitionCall announce eid now ?i db of Inl x \<Rightarrow> refuse x db
     | Inr (r, db') \<Rightarrow> \<lparr>sv_result = (case snd r of None \<Rightarrow> Inr (tr_Call (fst r)) | Some e \<Rightarrow> Inl e),
          sv_published = (case tr_Call (fst r) of None \<Rightarrow> [] | Some c \<Rightarrow> if tr_Changed (fst r) then [c] else []),
          sv_events = (case tr_Call (fst r) of None \<Rightarrow> []
             | Some c \<Rightarrow> call_conversation_event ws (cl_TargetType c) (cl_TargetID c) (tr_EventMessageID (fst r))), sv_db = db'\<rparr>)"
    by (rule publishes_result [where f = fst]) (erule (1) *, erule some)
  show "publishes_exactly db (case TransitionCall announce eid now ?i db of Inl e \<Rightarrow> refuse e db
     | Inr ((result, err), db') \<Rightarrow>
         \<lparr>sv_result = (case err of None \<Rightarrow> Inr (tr_Call result) | Some e \<Rightarrow> Inl e),
          sv_published = (case tr_Call result of None \<Rightarrow> [] | Some c \<Rightarrow> if tr_Changed result then [c] else []),
          sv_events = (case tr_Call result of None \<Rightarrow> []
             | Some c \<Rightarrow> call_conversation_event ws (cl_TargetType c) (cl_TargetID c) (tr_EventMessageID result)),
          sv_db = db'\<rparr>)"
    using published by (cases "TransitionCall announce eid now ?i db") (auto split: prod.splits cong: option.case_cong)
qed

lemma publishes_expire: "publishes_exactly db (ExpireDue locked now db)"
  by (auto simp: ExpireDue_def ExpireDueCalls_def Let_def publishes_exactly_def split: if_splits)

lemma publishes_start: "publishes_exactly db (Start announce parse timeout cid pid eid clock now i db)"
  unfolding Start_def by (simp add: publishes_direct publishes_resource publishes_with_id)

lemma publishes_join: "publishes_exactly db (Join announce parse timeout pid clock now i db)"
  unfolding Join_def
  by (intro publishes_with_id)
    (auto simp: JoinResourceCall_def admitCallPresence_def commitAnnounced_def bind_err_Inr_iff Let_def intro!: publishes_silent
      split: sum.split option.splits if_splits)

lemma publishes_presence: "publishes_exactly db (Presence announce parse timeout clock now ws actor cid participation db)"
  unfolding Presence_def
  by (intro publishes_with_id)
    (auto simp: RenewCallPresence_def renewCallPresenceFenced_def commitAnnounced_def bind_err_Inr_iff Let_def intro!: publishes_silent
      split: sum.split option.splits if_splits prod.splits)

text \<open>Claim C34. The service broadcasts exactly what was committed: whatever the operation and its outcome, every call
  whose stored row the operation created or changed is published, with its new contents, and nothing is published that is
  not stored as published. A transition that finds the call timed out answers a conflict and still publishes the timed out
  call.\<close>

theorem calls_published_as_committed:
  assumes "calls_ok now db"
  shows "publishes_exactly db (Start announce parse timeout cid pid eid clock now i db) \<and>
    publishes_exactly db (Join announce parse timeout pid clock now j db) \<and>
    publishes_exactly db (Presence announce parse timeout clock now ws actor call participation db) \<and>
    publishes_exactly db (Leave announce parse now ws actor call participation db) \<and>
    publishes_exactly db (transition announce parse eid now ws actor call action db) \<and>
    publishes_exactly db (ExpireDue locked now db)"
  by (intro conjI publishes_start publishes_join publishes_presence publishes_leave [OF assms] publishes_transition [OF assms] publishes_expire)

text \<open>The host ends the call of the example, and the ended call is what is broadcast.\<close>

theorem calls_published_as_committed_witness:
  "publishes_exactly example_talk (End announce_all Some ''e'' 9 example_ws example_user ''call'' example_talk) \<and>
   map cl_Status (sv_published (End announce_all Some ''e'' 9 example_ws example_user ''call'' example_talk)) = [''ended'']"
proof -
  have "map cl_Status (sv_published (End announce_all Some ''e'' 9 example_ws example_user ''call'' example_talk)) = [''ended'']" by code_simp
  moreover have "calls_ok 9 example_talk" using calls_ok_later [OF example_talk_ok] by simp
  ultimately show ?thesis using calls_published_as_committed [of 9 example_talk announce_all Some] unfolding End_def by blast
qed

end
