(* ===== verification/Notification_Outbox.thy ===== *)
theory Notification_Outbox
  imports Notification_Policy Go_Utf8 "HOL-Library.Char_ord" "HOL-Library.List_Lexorder" "HOL-Library.Product_Lexorder"
begin

text \<open>
  The notification outbox, \<open>services/notification-service/internal/storage/notification_outbox_store.go\<close> and
  \<open>reminder_store.go\<close>: every statement the worker runs, as a function on the tables it reads and writes. Each statement is
  one transaction. \<open>now\<close> is the database's clock, at the resolution the tables keep; \<open>held\<close> are the outbox rows, and \<open>busy\<close> the
  recipient rows, that another transaction has locked, which \<open>SKIP LOCKED\<close> passes over. An update goes through the table's
  own guards, the trigger on the state machine and the check on the suppression reason (\<open>migrations/chat/000042\<close>).
\<close>

section \<open>Tables\<close>

record outbox_row =
  or_ID :: string
  or_WorkspaceID :: string
  or_MessageID :: string
  or_RecipientID :: string
  or_Kind :: string
  or_Status :: string
  or_SourceType :: string
  or_OccurredAt :: go_time
  or_Priority :: string
  or_Origin :: string
  or_DedupeKey :: "string option"
  or_Attempts :: nat
  or_NextAttemptAt :: "go_time option"
  or_SuppressedReason :: "string option"
  or_LastError :: "string option"
  or_ProcessedAt :: "go_time option"
  or_UpdatedAt :: go_time

record message_row =
  mr_ID :: string
  mr_WorkspaceID :: string
  mr_ChannelID :: "string option"
  mr_DMConversationID :: "string option"
  mr_SenderID :: string
  mr_Kind :: string
  mr_Status :: string
  mr_Deleted :: bool
  mr_BodyText :: string
  mr_LinkSafetyState :: string
  mr_CreatedAt :: go_time
  mr_PersistentNotifications :: bool
  mr_AcknowledgementRequired :: bool

record ack_row =
  ak_MessageID :: string
  ak_RecipientID :: string
  ak_State :: string
  ak_ResolvedAt :: "go_time option"
  ak_ReminderCount :: nat
  ak_NextReminderAt :: "go_time option"

record pref_row =
  np_UserID :: string
  np_WorkspaceID :: string
  np_ChannelID :: "string option"
  np_DMConversationID :: "string option"
  np_MutedAt :: "go_time option"
  np_Level :: string

record presence_row =
  up_WorkspaceID :: string
  up_UserID :: string
  up_ManualState :: string
  up_ManualExpiresAt :: "go_time option"

record channel_row =
  ch_row_ID :: string
  ch_row_WorkspaceID :: string
  ch_row_DisplayName :: string
  ch_row_Status :: string
  ch_row_Type :: string

record dm_row =
  dm_row_ID :: string
  dm_row_WorkspaceID :: string
  dm_row_Type :: string
  dm_row_Title :: "string option"
  dm_row_Status :: string

record user_row =
  us_ID :: string
  us_DisplayName :: string
  us_Status :: string
  us_Deleted :: bool

text \<open>Membership tables keep the columns the statements read: workspace, user, status and role; channel and user;
  conversation, user and status.\<close>

record ndb =
  nd_outbox :: "outbox_row list"
  nd_acks :: "ack_row list"
  nd_messages :: "message_row list"
  nd_prefs :: "pref_row list"
  nd_presence :: "presence_row list"
  nd_workspaces :: "(string \<times> string) list"
  nd_members :: "(string \<times> string \<times> string \<times> string) list"
  nd_users :: "user_row list"
  nd_channels :: "channel_row list"
  nd_channel_members :: "(string \<times> string) list"
  nd_dms :: "dm_row list"
  nd_dm_members :: "(string \<times> string \<times> string) list"
  nd_attachments :: "string list"

datatype outbox_error = ErrNotificationStateConflict | ErrInvalidNotificationTransition | ErrStatement

section \<open>What a batch read resolves about a row\<close>

definition preferenceRowJoin :: "ndb \<Rightarrow> outbox_row \<Rightarrow> pref_row list" where
  "preferenceRowJoin db o' =
     concat (map (\<lambda>m. filter (\<lambda>p. np_UserID p = or_RecipientID o' \<and> np_WorkspaceID p = or_WorkspaceID o' \<and>
         (np_ChannelID p \<noteq> None \<and> np_ChannelID p = mr_ChannelID m \<or>
          np_DMConversationID p \<noteq> None \<and> np_DMConversationID p = mr_DMConversationID m)) (nd_prefs db))
       (filter (\<lambda>m. mr_ID m = or_MessageID o' \<and> mr_WorkspaceID m = or_WorkspaceID o') (nd_messages db)))"

definition mutedProjection :: "ndb \<Rightarrow> outbox_row \<Rightarrow> bool" where
  "mutedProjection db o' \<longleftrightarrow> list_ex (\<lambda>p. np_MutedAt p \<noteq> None) (preferenceRowJoin db o')"

definition levelProjection :: "ndb \<Rightarrow> outbox_row \<Rightarrow> string" where
  "levelProjection db o' = (case preferenceRowJoin db o' of [] \<Rightarrow> ''all'' | p # _ \<Rightarrow> np_Level p)"

definition doNotDisturbProjection :: "go_time \<Rightarrow> ndb \<Rightarrow> outbox_row \<Rightarrow> bool" where
  "doNotDisturbProjection now db o' \<longleftrightarrow>
     list_ex (\<lambda>u. up_WorkspaceID u = or_WorkspaceID o' \<and> up_UserID u = or_RecipientID o' \<and> up_ManualState u = ''dnd'' \<and>
                  (case up_ManualExpiresAt u of None \<Rightarrow> False | Some t \<Rightarrow> now < t)) (nd_presence db)"

record MessagePresentation =
  mp_Sender :: string
  mp_Context :: string
  mp_GroupDM :: bool
  mp_Body :: string
  mp_Attachment :: bool

definition zero_presentation :: MessagePresentation where
  "zero_presentation = \<lparr>mp_Sender = '''', mp_Context = '''', mp_GroupDM = False, mp_Body = '''', mp_Attachment = False\<rparr>"

text \<open>SQL's \<open>left\<close>, which counts characters.\<close>

primrec left_bytes :: "nat \<Rightarrow> nat list \<Rightarrow> nat list" where
  "left_bytes 0 bs = []"
| "left_bytes (Suc n) bs = (if bs = [] then [] else let w = snd (snd (decode_rune bs)) in take w bs @ left_bytes n (drop w bs))"

definition sql_left :: "nat \<Rightarrow> string \<Rightarrow> string" where
  "sql_left n s = map char_of (left_bytes n (map of_char s))"

abbreviation presentationBodyChars :: nat where "presentationBodyChars \<equiv> 500"
abbreviation presentationNameChars :: nat where "presentationNameChars \<equiv> 100"
abbreviation presentationTitleChars :: nat where "presentationTitleChars \<equiv> 120"

definition active_membership :: "ndb \<Rightarrow> string \<Rightarrow> string \<Rightarrow> bool" where
  "active_membership db ws user \<longleftrightarrow> list_ex (\<lambda>(w, u, st, _). w = ws \<and> u = user \<and> st = ''active'') (nd_members db)"

definition channel_visible_to_user :: "ndb \<Rightarrow> string \<Rightarrow> string \<Rightarrow> bool" where
  "channel_visible_to_user db channel user \<longleftrightarrow>
     list_ex (\<lambda>c. ch_row_ID c = channel \<and>
       list_ex (\<lambda>(w, u, st, role). w = ch_row_WorkspaceID c \<and> u = user \<and> st = ''active'' \<and>
         (list_ex (\<lambda>(cm, cu). cm = ch_row_ID c \<and> cu = user) (nd_channel_members db) \<or>
          role \<in> {''owner'', ''admin'', ''moderator'', ''member''} \<and> ch_row_Type c = ''public'')) (nd_members db)) (nd_channels db)"

definition presentation_authorized :: "ndb \<Rightarrow> outbox_row \<Rightarrow> message_row \<Rightarrow> channel_row option \<Rightarrow> dm_row option \<Rightarrow> bool" where
  "presentation_authorized db o' m c d \<longleftrightarrow>
     mr_ID m = or_MessageID o' \<and> mr_WorkspaceID m = or_WorkspaceID o' \<and>
     list_ex (\<lambda>(w, st). w = mr_WorkspaceID m \<and> st = ''active'') (nd_workspaces db) \<and>
     active_membership db (mr_WorkspaceID m) (or_RecipientID o') \<and>
     list_ex (\<lambda>u. us_ID u = or_RecipientID o' \<and> us_Status u = ''active'' \<and> \<not> us_Deleted u) (nd_users db) \<and>
     mr_Kind m = ''user'' \<and> mr_Status m = ''active'' \<and> \<not> mr_Deleted m \<and> mr_LinkSafetyState m \<noteq> ''malicious'' \<and>
     ((case (mr_ChannelID m, c) of (Some i, Some ch) \<Rightarrow> ch_row_Status ch = ''active'' \<and> channel_visible_to_user db i (or_RecipientID o')
        | _ \<Rightarrow> False) \<or>
      (case (mr_DMConversationID m, d) of
         (Some i, Some dm) \<Rightarrow> dm_row_Status dm = ''active'' \<and>
            list_ex (\<lambda>(k, u, st). k = i \<and> u = or_RecipientID o' \<and> st = ''active'') (nd_dm_members db)
       | _ \<Rightarrow> False))"

definition joined_channel :: "ndb \<Rightarrow> message_row \<Rightarrow> channel_row option" where
  "joined_channel db m =
     find (\<lambda>c. mr_ChannelID m = Some (ch_row_ID c) \<and> ch_row_WorkspaceID c = mr_WorkspaceID m) (nd_channels db)"

definition joined_dm :: "ndb \<Rightarrow> message_row \<Rightarrow> dm_row option" where
  "joined_dm db m =
     find (\<lambda>d. mr_DMConversationID m = Some (dm_row_ID d) \<and> dm_row_WorkspaceID d = mr_WorkspaceID m) (nd_dms db)"

definition presentationProjection :: "ndb \<Rightarrow> outbox_row \<Rightarrow> MessagePresentation option" where
  "presentationProjection db o' =
     (case find (\<lambda>m. presentation_authorized db o' m (joined_channel db m) (joined_dm db m) \<and>
                     list_ex (\<lambda>u. us_ID u = mr_SenderID m) (nd_users db)) (nd_messages db) of
        None \<Rightarrow> None
      | Some m \<Rightarrow>
          let group = (case joined_dm db m of None \<Rightarrow> False | Some d \<Rightarrow> dm_row_Type d = ''group'') in
          Some \<lparr>mp_Sender = (case find (\<lambda>u. us_ID u = mr_SenderID m) (nd_users db) of
                              None \<Rightarrow> '''' | Some u \<Rightarrow> sql_left presentationNameChars (us_DisplayName u)),
                mp_Context = (if mr_ChannelID m \<noteq> None
                              then (case joined_channel db m of None \<Rightarrow> ''''
                                    | Some c \<Rightarrow> CHR ''#'' # sql_left presentationNameChars (ch_row_DisplayName c))
                              else if group then (case joined_dm db m of None \<Rightarrow> ''''
                                    | Some d \<Rightarrow> sql_left presentationTitleChars (case dm_row_Title d of None \<Rightarrow> '''' | Some t \<Rightarrow> t))
                              else ''''),
                mp_GroupDM = group, mp_Body = sql_left presentationBodyChars (mr_BodyText m),
                mp_Attachment = (mr_ID m \<in> set (nd_attachments db))\<rparr>)"

record NotificationEvent =
  ev_ID :: string
  ev_WorkspaceID :: string
  ev_RecipientID :: string
  ev_EventType :: string
  ev_Priority :: string
  ev_SourceType :: string
  ev_SourceID :: string
  ev_Origin :: string
  ev_DedupeKey :: string
  ev_Attempts :: nat
  ev_OccurredAt :: go_time
  ev_Muted :: bool
  ev_NotificationLevel :: string
  ev_DoNotDisturb :: bool
  ev_Presentation :: MessagePresentation

definition notificationColumns :: "go_time \<Rightarrow> ndb \<Rightarrow> MessagePresentation option \<Rightarrow> outbox_row \<Rightarrow> NotificationEvent" where
  "notificationColumns now db p r =
     \<lparr>ev_ID = or_ID r, ev_WorkspaceID = or_WorkspaceID r, ev_RecipientID = or_RecipientID r, ev_EventType = or_Kind r,
      ev_Priority = or_Priority r, ev_SourceType = or_SourceType r, ev_SourceID = or_MessageID r, ev_Origin = or_Origin r,
      ev_DedupeKey = (case or_DedupeKey r of None \<Rightarrow> '''' | Some k \<Rightarrow> k), ev_Attempts = or_Attempts r,
      ev_OccurredAt = or_OccurredAt r, ev_Muted = mutedProjection db r, ev_NotificationLevel = levelProjection db r,
      ev_DoNotDisturb = doNotDisturbProjection now db r,
      ev_Presentation = (case p of None \<Rightarrow> zero_presentation | Some q \<Rightarrow> q)\<rparr>"

section \<open>Updates and the table's own guards\<close>

definition enforce_notification_outbox_transition :: "outbox_row \<Rightarrow> outbox_row \<Rightarrow> bool" where
  "enforce_notification_outbox_transition old new \<longleftrightarrow>
     or_Status new = or_Status old \<or>
     or_Status old = ''pending'' \<and> or_Status new \<in> {''eligible'', ''suppressed''} \<or>
     or_Status old = ''eligible'' \<and> or_Status new \<in> {''processing'', ''suppressed''} \<or>
     or_Status old = ''processing'' \<and> or_Status new \<in> {''sent'', ''retrying'', ''failed''} \<or>
     or_Status old = ''retrying'' \<and> or_Status new \<in> {''processing'', ''failed''}"

definition suppressed_reason_check :: "outbox_row \<Rightarrow> bool" where
  "suppressed_reason_check r \<longleftrightarrow>
     (or_Status r = ''suppressed'') = (or_SuppressedReason r \<noteq> None) \<and>
     (case or_SuppressedReason r of None \<Rightarrow> True
      | Some s \<Rightarrow> 1 \<le> RuneCountInString s \<and> RuneCountInString s \<le> 200)"

definition update_outbox :: "(outbox_row \<Rightarrow> bool) \<Rightarrow> (outbox_row \<Rightarrow> outbox_row) \<Rightarrow> ndb \<Rightarrow> outbox_error + nat \<times> ndb" where
  "update_outbox p f db =
     (let hit = filter p (nd_outbox db) in
      if list_all (\<lambda>r. enforce_notification_outbox_transition r (f r) \<and> suppressed_reason_check (f r)) hit
      then Inr (length hit, db\<lparr>nd_outbox := map (\<lambda>r. if p r then f r else r) (nd_outbox db)\<rparr>)
      else Inl ErrInvalidNotificationTransition)"

definition applyTransition :: "(outbox_row \<Rightarrow> bool) \<Rightarrow> (outbox_row \<Rightarrow> outbox_row) \<Rightarrow> string \<Rightarrow> ndb \<Rightarrow> outbox_error + ndb" where
  "applyTransition p f i db =
     (if i = '''' then Inl ErrInvalidNotificationTransition
      else bind_err (update_outbox (\<lambda>r. or_ID r = i \<and> p r) f db) (\<lambda>(n, db').
           if n = 0 then Inl ErrNotificationStateConflict else Inr db'))"

section \<open>Evaluation\<close>

definition ListPending :: "go_time \<Rightarrow> int \<Rightarrow> ndb \<Rightarrow> NotificationEvent list" where
  "ListPending now limit db =
     (if limit \<le> 0 then []
      else map (notificationColumns now db None)
             (take (nat limit) (sort_key (\<lambda>r. (or_OccurredAt r, or_ID r))
                (filter (\<lambda>r. or_Status r = ''pending'') (nd_outbox db)))))"

definition MarkEvaluated :: "go_time \<Rightarrow> string \<Rightarrow> string \<Rightarrow> string \<Rightarrow> ndb \<Rightarrow> outbox_error + ndb" where
  "MarkEvaluated now i state reason db =
     (if \<not> State_CanTransitionTo StatePending state then Inl ErrInvalidNotificationTransition
      else case ValidateSuppressedReason state reason of
             Inl _ \<Rightarrow> Inl ErrInvalidNotificationTransition
           | Inr _ \<Rightarrow> applyTransition (\<lambda>r. or_Status r = ''pending'')
               (\<lambda>r. r\<lparr>or_Status := state, or_SuppressedReason := (if reason = '''' then None else Some reason),
                      or_NextAttemptAt := (if state = ''eligible'' then Some now else or_NextAttemptAt r),
                      or_ProcessedAt := (if state = ''suppressed'' then Some now else or_ProcessedAt r),
                      or_UpdatedAt := now\<rparr>) i db)"

section \<open>Claiming\<close>

definition reminderRecipientPending :: "ndb \<Rightarrow> outbox_row \<Rightarrow> bool" where
  "reminderRecipientPending db r \<longleftrightarrow>
     list_ex (\<lambda>a. ak_MessageID a = or_MessageID r \<and> ak_RecipientID a = or_RecipientID r \<and> ak_State a = ''pending'') (nd_acks db)"

definition ReminderRecipientPendingForClaim :: "(string \<times> string \<Rightarrow> bool) \<Rightarrow> ndb \<Rightarrow> outbox_row \<Rightarrow> bool" where
  "ReminderRecipientPendingForClaim busy db r \<longleftrightarrow>
     reminderRecipientPending db r \<and> \<not> busy (or_MessageID r, or_RecipientID r)"

definition claimable :: "nat \<Rightarrow> outbox_row \<Rightarrow> bool" where
  "claimable maxAttempts r \<longleftrightarrow>
     (or_Status r = ''eligible'' \<or> or_Status r = ''retrying'' \<or> or_Status r = ''processing'') \<and> or_Attempts r < maxAttempts"

definition available_at :: "go_time \<Rightarrow> outbox_row \<Rightarrow> bool" where
  "available_at now r \<longleftrightarrow> (case or_NextAttemptAt r of None \<Rightarrow> False | Some t \<Rightarrow> t \<le> now)"

definition due_row :: "(string \<times> string \<Rightarrow> bool) \<Rightarrow> go_time \<Rightarrow> nat \<Rightarrow> ndb \<Rightarrow> outbox_row \<Rightarrow> bool" where
  "due_row busy now maxAttempts db r \<longleftrightarrow>
     claimable maxAttempts r \<and> available_at now r \<and>
     (or_Kind r \<noteq> EventTypeUrgentReminder \<or> ReminderRecipientPendingForClaim busy db r)"

definition claim_key :: "outbox_row \<Rightarrow> go_time \<times> go_time \<times> string" where
  "claim_key r = (case or_NextAttemptAt r of None \<Rightarrow> 0 | Some t \<Rightarrow> t, or_OccurredAt r, or_ID r)"

definition claim_update :: "go_time \<Rightarrow> go_duration \<Rightarrow> outbox_row \<Rightarrow> outbox_row" where
  "claim_update now lease r =
     r\<lparr>or_Status := ''processing'', or_Attempts := min (or_Attempts r + 1) 32767, or_NextAttemptAt := Some (now + lease),
       or_UpdatedAt := now\<rparr>"

definition claimed_rows ::
  "(string \<Rightarrow> bool) \<Rightarrow> (string \<times> string \<Rightarrow> bool) \<Rightarrow> go_time \<Rightarrow> nat \<Rightarrow> nat \<Rightarrow> ndb \<Rightarrow> outbox_row list" where
  "claimed_rows held busy now batch maxAttempts db =
     take batch (sort_key claim_key (filter (\<lambda>r. due_row busy now maxAttempts db r \<and> \<not> held (or_ID r)) (nd_outbox db)))"

definition ClaimDue ::
  "(string \<Rightarrow> bool) \<Rightarrow> (string \<times> string \<Rightarrow> bool) \<Rightarrow> bool \<Rightarrow> go_time \<Rightarrow> int \<Rightarrow> int \<Rightarrow> go_duration \<Rightarrow> ndb \<Rightarrow>
   outbox_error + NotificationEvent list \<times> ndb" where
  "ClaimDue held busy preview now batchSize maxAttempts lease db =
     (if batchSize \<le> 0 \<or> maxAttempts \<le> 0 then Inr ([], db)
      else let picked = (\<lambda>r. or_ID r \<in> set (map or_ID (claimed_rows held busy now (nat batchSize) (nat maxAttempts) db))) in
           bind_err (update_outbox picked (claim_update now lease) db) (\<lambda>(_, db').
             Inr (map (\<lambda>r. notificationColumns now db (if preview then presentationProjection db r else None) (claim_update now lease r))
                    (filter picked (nd_outbox db)), db')))"

section \<open>Ending a claim\<close>

definition claimed_as :: "nat \<Rightarrow> outbox_row \<Rightarrow> bool" where
  "claimed_as attempt r \<longleftrightarrow> or_Status r = ''processing'' \<and> or_Attempts r = attempt"

definition MarkDelivered :: "go_time \<Rightarrow> string \<Rightarrow> nat \<Rightarrow> ndb \<Rightarrow> outbox_error + ndb" where
  "MarkDelivered now i attempt =
     applyTransition (claimed_as attempt)
       (\<lambda>r. r\<lparr>or_Status := ''sent'', or_ProcessedAt := Some now, or_NextAttemptAt := None, or_LastError := None, or_UpdatedAt := now\<rparr>) i"

definition ScheduleRetry :: "go_time \<Rightarrow> string \<Rightarrow> nat \<Rightarrow> go_duration \<Rightarrow> string \<Rightarrow> ndb \<Rightarrow> outbox_error + ndb" where
  "ScheduleRetry now i attempt delay category =
     applyTransition (claimed_as attempt)
       (\<lambda>r. r\<lparr>or_Status := ''retrying'', or_NextAttemptAt := Some (now + delay), or_LastError := Some category, or_UpdatedAt := now\<rparr>) i"

definition MarkFailed :: "go_time \<Rightarrow> string \<Rightarrow> nat \<Rightarrow> string \<Rightarrow> ndb \<Rightarrow> outbox_error + ndb" where
  "MarkFailed now i attempt category =
     applyTransition (claimed_as attempt)
       (\<lambda>r. r\<lparr>or_Status := ''failed'', or_ProcessedAt := Some now, or_NextAttemptAt := None, or_LastError := Some category, or_UpdatedAt := now\<rparr>) i"

definition FailExhausted :: "go_time \<Rightarrow> int \<Rightarrow> ndb \<Rightarrow> outbox_error + nat \<times> ndb" where
  "FailExhausted now maxAttempts db =
     (if maxAttempts \<le> 0 then Inr (0, db)
      else update_outbox (\<lambda>r. or_Status r = ''processing'' \<and> nat maxAttempts \<le> or_Attempts r \<and> available_at now r)
             (\<lambda>r. r\<lparr>or_Status := ''failed'', or_ProcessedAt := Some now, or_NextAttemptAt := None,
                    or_LastError := Some ''attempts_exhausted'', or_UpdatedAt := now\<rparr>) db)"

definition Backlog :: "ndb \<Rightarrow> nat" where
  "Backlog db = length (filter (\<lambda>r. or_Status r = ''pending'' \<or> or_Status r = ''eligible'' \<or> or_Status r = ''retrying'') (nd_outbox db))"

section \<open>Reminders\<close>

text \<open>A number as PostgreSQL casts it to text.\<close>

fun sql_text :: "nat \<Rightarrow> string" where
  "sql_text n = (if n < 10 then [char_of (48 + n)] else sql_text (n div 10) @ [char_of (48 + n mod 10)])"

definition UrgentReminderDedupeKeySQL :: "string \<Rightarrow> nat \<Rightarrow> string" where
  "UrgentReminderDedupeKeySQL messageID occurrence =
     SourceTypeMessage @ '':'' @ messageID @ '':'' @ EventTypeUrgentReminder @ '':'' @ sql_text occurrence"

record ReminderScheduleResult =
  rs_Scheduled :: int
  rs_Deduplicated :: int
  rs_Expired :: int

definition reminder_message :: "ndb \<Rightarrow> ack_row \<Rightarrow> message_row option" where
  "reminder_message db a =
     find (\<lambda>m. mr_ID m = ak_MessageID a \<and> mr_PersistentNotifications m \<and> mr_Status m = ''active'' \<and> \<not> mr_Deleted m) (nd_messages db)"

definition due_reminder :: "go_time \<Rightarrow> ndb \<Rightarrow> ack_row \<Rightarrow> bool" where
  "due_reminder now db a \<longleftrightarrow>
     ak_State a = ''pending'' \<and> (case ak_NextReminderAt a of None \<Rightarrow> False | Some t \<Rightarrow> t \<le> now) \<and> reminder_message db a \<noteq> None"

definition due_reminders :: "(string \<times> string \<Rightarrow> bool) \<Rightarrow> go_time \<Rightarrow> nat \<Rightarrow> ndb \<Rightarrow> ack_row list" where
  "due_reminders busy now batch db =
     take batch (sort_key (\<lambda>a. case ak_NextReminderAt a of None \<Rightarrow> 0 | Some t \<Rightarrow> t)
       (filter (\<lambda>a. due_reminder now db a \<and> \<not> busy (ak_MessageID a, ak_RecipientID a)) (nd_acks db)))"

text \<open>The inserted row, with the identifier the database generates and its clock for the default of \<open>updated_at\<close>.\<close>

definition reminder_row :: "(string \<times> string \<times> nat \<Rightarrow> string) \<Rightarrow> go_time \<Rightarrow> ack_row \<Rightarrow> message_row \<Rightarrow> outbox_row" where
  "reminder_row gen clock a m =
     \<lparr>or_ID = gen (ak_MessageID a, ak_RecipientID a, ak_ReminderCount a + 1), or_WorkspaceID = mr_WorkspaceID m, or_MessageID = ak_MessageID a,
      or_RecipientID = ak_RecipientID a, or_Kind = EventTypeUrgentReminder, or_Status = ''pending'', or_SourceType = SourceTypeMessage,
      or_OccurredAt = mr_CreatedAt m, or_Priority = PriorityHigh, or_Origin = OriginLive,
      or_DedupeKey = Some (UrgentReminderDedupeKeySQL (ak_MessageID a) (ak_ReminderCount a + 1)), or_Attempts = 0,
      or_NextAttemptAt = None, or_SuppressedReason = None, or_LastError = None, or_ProcessedAt = None, or_UpdatedAt = clock\<rparr>"

text \<open>\<open>ON CONFLICT DO NOTHING\<close> against \<open>notification_outbox_dedupe_uq\<close>.\<close>

definition same_event :: "outbox_row \<Rightarrow> outbox_row \<Rightarrow> bool" where
  "same_event r q \<longleftrightarrow> or_DedupeKey r \<noteq> None \<and> or_DedupeKey r = or_DedupeKey q \<and>
     or_WorkspaceID r = or_WorkspaceID q \<and> or_RecipientID r = or_RecipientID q"

definition insert_unless_known :: "outbox_row \<Rightarrow> outbox_row list \<Rightarrow> outbox_row list" where
  "insert_unless_known r rows = (if list_ex (same_event r) rows then rows else rows @ [r])"

definition advance_reminder :: "go_time \<Rightarrow> message_row \<Rightarrow> ack_row \<Rightarrow> ack_row" where
  "advance_reminder now m a =
     (let n = ak_ReminderCount a + 1; spent = MaxUrgentReminders \<le> n; expire = spent \<and> \<not> mr_AcknowledgementRequired m in
      a\<lparr>ak_ReminderCount := n, ak_NextReminderAt := (if spent then None else Some (now + UrgentReminderInterval)),
        ak_State := (if expire then ''expired'' else ak_State a), ak_ResolvedAt := (if expire then Some now else ak_ResolvedAt a)\<rparr>)"

definition same_ack :: "ack_row \<Rightarrow> ack_row \<Rightarrow> bool" where
  "same_ack a b \<longleftrightarrow> ak_MessageID a = ak_MessageID b \<and> ak_RecipientID a = ak_RecipientID b"

definition ScheduleDueReminders ::
  "(string \<times> string \<Rightarrow> bool) \<Rightarrow> (string \<times> string \<times> nat \<Rightarrow> string) \<Rightarrow> go_time \<Rightarrow> go_time \<Rightarrow> int \<Rightarrow> ndb \<Rightarrow>
   outbox_error + ReminderScheduleResult \<times> ndb" where
  "ScheduleDueReminders busy gen clock now batchSize db =
     (if batchSize \<le> 0 then Inr (\<lparr>rs_Scheduled = 0, rs_Deduplicated = 0, rs_Expired = 0\<rparr>, db)
      else if IsZero now then Inl ErrStatement
      else let due = due_reminders busy now (nat batchSize) db;
               message = (\<lambda>a. the (reminder_message db a));
               rows = fold (\<lambda>a. insert_unless_known (reminder_row gen clock a (message a))) due (nd_outbox db);
               picked = (\<lambda>a. list_ex (same_ack a) due);
               acks = map (\<lambda>a. if picked a then advance_reminder now (message a) a else a) (nd_acks db);
               scheduled = int (length rows) - int (length (nd_outbox db));
               advanced = filter picked (nd_acks db) in
           Inr (\<lparr>rs_Scheduled = scheduled, rs_Deduplicated = int (length advanced) - scheduled,
                 rs_Expired = int (length (filter (\<lambda>a. ak_NextReminderAt (advance_reminder now (message a) a) = None) advanced))\<rparr>,
                db\<lparr>nd_outbox := rows, nd_acks := acks\<rparr>))"

definition suppressResolvedRemindersReason :: string where
  "suppressResolvedRemindersReason = ''recipient_resolved''"

definition SuppressResolvedReminders :: "go_time \<Rightarrow> ndb \<Rightarrow> outbox_error + nat \<times> ndb" where
  "SuppressResolvedReminders now db =
     update_outbox (\<lambda>r. or_Kind r = EventTypeUrgentReminder \<and> (or_Status r = ''pending'' \<or> or_Status r = ''eligible'') \<and>
                        \<not> reminderRecipientPending db r)
       (\<lambda>r. r\<lparr>or_Status := ''suppressed'', or_SuppressedReason := Some suppressResolvedRemindersReason, or_ProcessedAt := Some now,
              or_NextAttemptAt := None, or_UpdatedAt := now\<rparr>) db"

section \<open>Shared lemmas\<close>

lemma sort_take_distinct:
  assumes "distinct (map f xs)"
  shows "distinct (map f (take n (sort_key k (filter P xs))))"
proof -
  have "distinct (map f (filter P xs))" using assms by (simp add: distinct_map_filter)
  then have "distinct (map f (sort_key k (filter P xs)))" by (simp add: distinct_map)
  then show ?thesis by (simp add: take_map [symmetric])
qed

text \<open>Inserting rows unless they are known appends some of them, each at most as often as it was given.\<close>

lemma insert_events:
  "\<exists>ds. fold (\<lambda>a. insert_unless_known (row a)) due rows = rows @ map row ds \<and> set ds \<subseteq> set due \<and> (distinct due \<longrightarrow> distinct ds)"
proof (induction due arbitrary: rows)
  case (Cons a due)
  show ?case
  proof (cases "list_ex (same_event (row a)) rows")
    case True
    with Cons.IH [of rows] show ?thesis by (auto simp: insert_unless_known_def)
  next
    case False
    obtain ds where ds: "fold (\<lambda>a. insert_unless_known (row a)) due (rows @ [row a]) = (rows @ [row a]) @ map row ds"
        "set ds \<subseteq> set due" "distinct due \<longrightarrow> distinct ds"
      using Cons.IH [of "rows @ [row a]"] by blast
    then have "fold (\<lambda>a. insert_unless_known (row a)) (a # due) rows = rows @ map row (a # ds)"
      using False by (simp add: insert_unless_known_def)
    moreover have "set (a # ds) \<subseteq> set (a # due)" "distinct (a # due) \<longrightarrow> distinct (a # ds)" using ds(2,3) by auto
    ultimately show ?thesis by blast
  qed
qed simp

lemma due_reminders_due:
  assumes "a \<in> set (due_reminders busy now batch db)"
  shows "a \<in> set (nd_acks db)" and "due_reminder now db a"
  using set_take_subset [of batch] assms unfolding due_reminders_def by fastforce+

end
