(* ===== verification/Notification_Worker.thy ===== *)
theory Notification_Worker
  imports Notification_Outbox
begin

text \<open>
  The worker that drains the outbox, \<open>services/notification-service/internal/worker\<close>: its bounded configuration
  (\<open>config/notification_worker.go\<close>), the retry policy (\<open>notification_retry.go\<close>), the adapter to the policy engine
  (\<open>notification_policy.go\<close>) and the handlers of one pass (\<open>notification_worker.go\<close>, \<open>notification_delivery.go\<close>). The
  deliverer is an argument, the outcome of each attempt; log lines and metrics are what a handler counts.
\<close>

section \<open>Configuration\<close>

abbreviation notificationFinaliseGraceSeconds :: int where "notificationFinaliseGraceSeconds \<equiv> 5"
abbreviation notificationDefaultPollSeconds :: int where "notificationDefaultPollSeconds \<equiv> 5"
abbreviation notificationDefaultBatchSize :: int where "notificationDefaultBatchSize \<equiv> 10"
abbreviation notificationDefaultMaxConcurrency :: int where "notificationDefaultMaxConcurrency \<equiv> 5"
abbreviation notificationDefaultLeaseSeconds :: int where "notificationDefaultLeaseSeconds \<equiv> 60"
abbreviation notificationDefaultMaxAttempts :: int where "notificationDefaultMaxAttempts \<equiv> 6"
abbreviation notificationDefaultRetryBaseSeconds :: int where "notificationDefaultRetryBaseSeconds \<equiv> 30"
abbreviation notificationDefaultRetryMaxSeconds :: int where "notificationDefaultRetryMaxSeconds \<equiv> 900"
abbreviation notificationDefaultDeliverySeconds :: int where "notificationDefaultDeliverySeconds \<equiv> 10"

record NotificationWorkerConfig =
  wc_Enabled :: bool
  wc_PollSeconds :: int
  wc_BatchSize :: int
  wc_MaxConcurrency :: int
  wc_LeaseSeconds :: int
  wc_MaxAttempts :: int
  wc_RetryBaseSeconds :: int
  wc_RetryMaxSeconds :: int
  wc_DeliveryTimeoutSeconds :: int

definition clampSeconds :: "int \<Rightarrow> int \<Rightarrow> int \<Rightarrow> int \<Rightarrow> int" where
  "clampSeconds v minimum maximum fallback = (if v \<le> 0 then fallback else min (max v minimum) maximum)"

definition Normalized :: "NotificationWorkerConfig \<Rightarrow> NotificationWorkerConfig" where
  "Normalized c =
     (let base = clampSeconds (wc_RetryBaseSeconds c) 1 600 notificationDefaultRetryBaseSeconds;
          ceiling = clampSeconds (wc_RetryMaxSeconds c) 1 86400 notificationDefaultRetryMaxSeconds in
      \<lparr>wc_Enabled = wc_Enabled c,
       wc_PollSeconds = clampSeconds (wc_PollSeconds c) 1 300 notificationDefaultPollSeconds,
       wc_BatchSize = clampSeconds (wc_BatchSize c) 1 200 notificationDefaultBatchSize,
       wc_MaxConcurrency = clampSeconds (wc_MaxConcurrency c) 1 64 notificationDefaultMaxConcurrency,
       wc_LeaseSeconds = clampSeconds (wc_LeaseSeconds c) 5 3600 notificationDefaultLeaseSeconds,
       wc_MaxAttempts = clampSeconds (wc_MaxAttempts c) 1 20 notificationDefaultMaxAttempts,
       wc_RetryBaseSeconds = base,
       wc_RetryMaxSeconds = (if ceiling < base then base else ceiling),
       wc_DeliveryTimeoutSeconds = clampSeconds (wc_DeliveryTimeoutSeconds c) 1 120 notificationDefaultDeliverySeconds\<rparr>)"

definition ProcessingBudget :: "NotificationWorkerConfig \<Rightarrow> go_duration" where
  "ProcessingBudget c =
     (let n = Normalized c;
          waves = (wc_BatchSize n + wc_MaxConcurrency n - 1) div wc_MaxConcurrency n in
      (waves * wc_DeliveryTimeoutSeconds n + notificationFinaliseGraceSeconds) * duration_second)"

definition ProtectedProcessingSeconds :: "NotificationWorkerConfig \<Rightarrow> int" where
  "ProtectedProcessingSeconds c = ProcessingBudget c div duration_second"

definition LeaseCoversProcessing :: "NotificationWorkerConfig \<Rightarrow> bool" where
  "LeaseCoversProcessing c \<longleftrightarrow> wc_LeaseSeconds (Normalized c) > ProtectedProcessingSeconds c"

section \<open>The retry policy\<close>

text \<open>A duration is 64 bits wide here, where the doubling could leave it. \<open>rand\<close> is the cryptographic source, which can fail.\<close>

record RetryPolicy =
  rp_Base :: go_duration
  rp_Max :: go_duration
  rp_Jitter :: "(int \<Rightarrow> int) option"

abbreviation retryMaxShift :: int where "retryMaxShift \<equiv> 20"

definition retry_bounds :: "RetryPolicy \<Rightarrow> go_duration \<times> go_duration" where
  "retry_bounds p =
     (let base = (if rp_Base p \<le> 0 then duration_second else rp_Base p) in
      (base, if rp_Max p < base then base else rp_Max p))"

definition randomBelow :: "(int \<Rightarrow> int option) \<Rightarrow> RetryPolicy \<Rightarrow> int \<Rightarrow> int" where
  "randomBelow rand p span =
     (if span \<le> 0 then 0
      else case rp_Jitter p of
             Some jitter \<Rightarrow> min (max (jitter span) 0) (span - 1)
           | None \<Rightarrow> (case rand span of None \<Rightarrow> 0 | Some v \<Rightarrow> v))"

definition spread :: "(int \<Rightarrow> int option) \<Rightarrow> RetryPolicy \<Rightarrow> go_duration \<Rightarrow> go_duration" where
  "spread rand p delay = (let half = delay div 2 in if half \<le> 0 then delay else half + randomBelow rand p half)"

definition Delay :: "(int \<Rightarrow> int option) \<Rightarrow> RetryPolicy \<Rightarrow> int \<Rightarrow> go_duration" where
  "Delay rand p attempt =
     (let (base, ceiling) = retry_bounds p;
          shift = nat (min (max (attempt - 1) 0) retryMaxShift);
          delay = sint (push_bit shift (of_int base :: 64 word)) in
      spread rand p (if delay \<le> 0 \<or> delay > ceiling then ceiling else delay))"

section \<open>What an adapter answered\<close>

text \<open>An error as the chain \<open>errors.Is\<close> and \<open>errors.As\<close> walk.\<close>

datatype delivery_error =
    ErrPermanentDelivery
  | DeadlineExceeded
  | Canceled
  | ProviderError
  | Wrapping delivery_error
  | RetryAfterError go_duration delivery_error

fun error_chain :: "delivery_error \<Rightarrow> delivery_error list" where
  "error_chain (Wrapping e) = Wrapping e # error_chain e"
| "error_chain (RetryAfterError d e) = RetryAfterError d e # error_chain e"
| "error_chain e = [e]"

abbreviation CategoryTransient :: string where "CategoryTransient \<equiv> ''delivery_transient''"
abbreviation CategoryTimeout :: string where "CategoryTimeout \<equiv> ''delivery_timeout''"
abbreviation CategoryPermanent :: string where "CategoryPermanent \<equiv> ''delivery_permanent''"

definition classifyDelivery :: "delivery_error option \<Rightarrow> string \<times> bool" where
  "classifyDelivery err =
     (case err of
        None \<Rightarrow> ('''', False)
      | Some e \<Rightarrow> if ErrPermanentDelivery \<in> set (error_chain e) then (CategoryPermanent, True)
                 else if DeadlineExceeded \<in> set (error_chain e) \<or> Canceled \<in> set (error_chain e) then (CategoryTimeout, False)
                 else (CategoryTransient, False))"

text \<open>\<open>errors.As\<close> stops at the first error of the type, whatever delay it carries.\<close>

fun requestedRetryDelay :: "delivery_error \<Rightarrow> go_duration" where
  "requestedRetryDelay (RetryAfterError d e) = (if d > 0 then d else 0)"
| "requestedRetryDelay (Wrapping e) = requestedRetryDelay e"
| "requestedRetryDelay e = 0"

section \<open>The policy adapter\<close>

record Notification =
  nt_ID :: string
  nt_WorkspaceID :: string
  nt_RecipientID :: string
  nt_EventType :: string
  nt_Priority :: string
  nt_SourceType :: string
  nt_SourceID :: string
  nt_Origin :: string
  nt_DedupeKey :: string
  nt_Attempt :: nat
  nt_OccurredAt :: go_time
  nt_Muted :: bool
  nt_NotificationLevel :: string
  nt_DoNotDisturb :: bool
  nt_Presentation :: MessagePresentation

definition IdempotencyKey :: "Notification \<Rightarrow> string" where
  "IdempotencyKey n = nt_ID n"

definition notificationFrom :: "NotificationEvent \<Rightarrow> Notification" where
  "notificationFrom e =
     \<lparr>nt_ID = ev_ID e, nt_WorkspaceID = ev_WorkspaceID e, nt_RecipientID = ev_RecipientID e, nt_EventType = ev_EventType e,
      nt_Priority = ev_Priority e, nt_SourceType = ev_SourceType e, nt_SourceID = ev_SourceID e, nt_Origin = ev_Origin e,
      nt_DedupeKey = ev_DedupeKey e, nt_Attempt = ev_Attempts e, nt_OccurredAt = ev_OccurredAt e, nt_Muted = ev_Muted e,
      nt_NotificationLevel = ev_NotificationLevel e, nt_DoNotDisturb = ev_DoNotDisturb e, nt_Presentation = ev_Presentation e\<rparr>"

record Verdict =
  vd_Deliver :: bool
  vd_SuppressedReason :: string
  vd_PolicyVersion :: int

definition defaultSuppressedReason :: string where
  "defaultSuppressedReason = ''policy_suppressed''"

definition Verdict_Reason :: "Verdict \<Rightarrow> string" where
  "Verdict_Reason v =
     (if vd_Deliver v then '''' else if vd_SuppressedReason v = '''' then defaultSuppressedReason else vd_SuppressedReason v)"

definition policyContext :: "Notification \<Rightarrow> Context" where
  "policyContext n =
     \<lparr>cx_EventID = nt_ID n, cx_WorkspaceID = nt_WorkspaceID n, cx_RecipientID = nt_RecipientID n, cx_EventType = nt_EventType n,
      cx_Priority = nt_Priority n, cx_Origin = nt_Origin n, cx_Conversation = '''', cx_WorkSchedule = StateNotConfigured,
      cx_Presence = PresenceUnknown, cx_ConversationOpen = False,
      cx_Preferences = \<lparr>pf_Status = PreferenceStatusResolved, pf_Disabled = False, pf_DoNotDisturb = nt_DoNotDisturb n,
        pf_Muted = nt_Muted n, pf_ConversationLevel = nt_NotificationLevel n, pf_SoundMode = ''''\<rparr>,
      cx_WebPushAvailable = True, cx_Duplicate = False, cx_BurstCooldown = False\<rparr>"

definition policyVerdict :: "Decision \<Rightarrow> Verdict" where
  "policyVerdict d =
     \<lparr>vd_Deliver = ch_WebPush (dec_Channels d), vd_SuppressedReason = SuppressedReason d, vd_PolicyVersion = dec_PolicyVersion d\<rparr>"

definition NewPolicyEvaluator :: "Notification \<Rightarrow> delivery_error + Verdict" where
  "NewPolicyEvaluator n = Inr (policyVerdict (Policy_Evaluate (policyContext n)))"

section \<open>The handlers of a pass\<close>

datatype worker_result = resultEligible | resultSuppressed | resultDelivered | resultRetry | resultFailed | resultLeaseLost | resultError

definition recordTransitionFailure :: "outbox_error \<Rightarrow> worker_result" where
  "recordTransitionFailure e = (if e = ErrNotificationStateConflict then resultLeaseLost else resultError)"

definition evaluateOne :: "(Notification \<Rightarrow> delivery_error + Verdict) \<Rightarrow> go_time \<Rightarrow> NotificationEvent \<Rightarrow> ndb \<Rightarrow> worker_result \<times> ndb" where
  "evaluateOne evaluator now event db =
     (case evaluator (notificationFrom event) of
        Inl _ \<Rightarrow> (resultError, db)
      | Inr verdict \<Rightarrow>
          let (state, result) = (if vd_Deliver verdict then (StateEligible, resultEligible) else (StateSuppressed, resultSuppressed)) in
          case MarkEvaluated now (ev_ID event) state (Verdict_Reason verdict) db of
            Inl e \<Rightarrow> (recordTransitionFailure e, db)
          | Inr db' \<Rightarrow> (result, db'))"

definition retryDelay :: "NotificationWorkerConfig \<Rightarrow> RetryPolicy \<Rightarrow> (int \<Rightarrow> int option) \<Rightarrow> nat \<Rightarrow> delivery_error \<Rightarrow> go_duration" where
  "retryDelay cfg retry rand attempt e =
     (let delay = Delay rand retry (int attempt); requested = requestedRetryDelay e in
      if requested \<le> delay then delay else min requested (wc_RetryMaxSeconds cfg * duration_second))"

definition recordOutcome ::
  "NotificationWorkerConfig \<Rightarrow> RetryPolicy \<Rightarrow> (int \<Rightarrow> int option) \<Rightarrow> go_time \<Rightarrow> Notification \<Rightarrow> delivery_error option \<Rightarrow> ndb \<Rightarrow>
   worker_result \<times> (outbox_error + ndb)" where
  "recordOutcome cfg retry rand now n err db =
     (case err of
        None \<Rightarrow> (resultDelivered, MarkDelivered now (nt_ID n) (nt_Attempt n) db)
      | Some e \<Rightarrow>
          let (category, permanent) = classifyDelivery (Some e) in
          if permanent \<or> int (nt_Attempt n) \<ge> wc_MaxAttempts cfg
          then (resultFailed, MarkFailed now (nt_ID n) (nt_Attempt n) category db)
          else (resultRetry, ScheduleRetry now (nt_ID n) (nt_Attempt n) (retryDelay cfg retry rand (nt_Attempt n) e) category db))"

definition deliverOne ::
  "NotificationWorkerConfig \<Rightarrow> RetryPolicy \<Rightarrow> (int \<Rightarrow> int option) \<Rightarrow> (Notification \<Rightarrow> delivery_error option) \<Rightarrow> go_time \<Rightarrow>
   NotificationEvent \<Rightarrow> ndb \<Rightarrow> worker_result \<times> ndb" where
  "deliverOne cfg retry rand deliver now event db =
     (let n = notificationFrom event in
      case recordOutcome cfg retry rand now n (deliver n) db of
        (_, Inl e) \<Rightarrow> (recordTransitionFailure e, db)
      | (result, Inr db') \<Rightarrow> (result, db'))"

definition NewNotificationWorker :: "NotificationWorkerConfig \<Rightarrow> NotificationWorkerConfig \<times> RetryPolicy" where
  "NewNotificationWorker cfg =
     (let n = Normalized cfg in
      (n, \<lparr>rp_Base = wc_RetryBaseSeconds n * duration_second, rp_Max = wc_RetryMaxSeconds n * duration_second, rp_Jitter = None\<rparr>))"

text \<open>
  A pass is a sequence of statements, each at its own instant: \<open>tick n\<close> is the database's clock at the \<open>n\<close>-th of them. The
  deliveries of a batch run concurrently; \<open>order\<close> is the order in which they finish. A statement that fails is logged and
  leaves the tables as they were.
\<close>

fun evaluate_events ::
  "(Notification \<Rightarrow> delivery_error + Verdict) \<Rightarrow> (nat \<Rightarrow> go_time) \<Rightarrow> nat \<Rightarrow> NotificationEvent list \<Rightarrow> ndb \<Rightarrow> ndb" where
  "evaluate_events evaluator tick n [] db = db"
| "evaluate_events evaluator tick n (e # es) db = evaluate_events evaluator tick (n + 1) es (snd (evaluateOne evaluator (tick n) e db))"

definition evaluatePending ::
  "NotificationWorkerConfig \<Rightarrow> (Notification \<Rightarrow> delivery_error + Verdict) \<Rightarrow> (nat \<Rightarrow> go_time) \<Rightarrow> nat \<Rightarrow> ndb \<Rightarrow> nat \<times> ndb" where
  "evaluatePending cfg evaluator tick n db =
     (let events = ListPending (tick n) (wc_BatchSize cfg) db in
      (n + 1 + length events, evaluate_events evaluator tick (n + 1) events db))"

fun deliverBatch ::
  "NotificationWorkerConfig \<Rightarrow> RetryPolicy \<Rightarrow> (int \<Rightarrow> int option) \<Rightarrow> (Notification \<Rightarrow> delivery_error option) \<Rightarrow> (nat \<Rightarrow> go_time) \<Rightarrow> nat \<Rightarrow>
   NotificationEvent list \<Rightarrow> ndb \<Rightarrow> ndb" where
  "deliverBatch cfg retry rand deliver tick n [] db = db"
| "deliverBatch cfg retry rand deliver tick n (e # es) db =
     deliverBatch cfg retry rand deliver tick (n + 1) es (snd (deliverOne cfg retry rand deliver (tick n) e db))"

definition lease :: "NotificationWorkerConfig \<Rightarrow> go_duration" where
  "lease cfg = wc_LeaseSeconds cfg * duration_second"

definition deliverDue ::
  "NotificationWorkerConfig \<Rightarrow> RetryPolicy \<Rightarrow> (int \<Rightarrow> int option) \<Rightarrow> (Notification \<Rightarrow> delivery_error option) \<Rightarrow> bool \<Rightarrow> (string \<Rightarrow> bool) \<Rightarrow>
   (string \<times> string \<Rightarrow> bool) \<Rightarrow> (NotificationEvent list \<Rightarrow> NotificationEvent list) \<Rightarrow> (nat \<Rightarrow> go_time) \<Rightarrow> nat \<Rightarrow> ndb \<Rightarrow> ndb" where
  "deliverDue cfg retry rand deliver preview held busy order tick n db =
     (case ClaimDue held busy preview (tick n) (wc_BatchSize cfg) (wc_MaxAttempts cfg) (lease cfg) db of
        Inl _ \<Rightarrow> db
      | Inr (events, db') \<Rightarrow> deliverBatch cfg retry rand deliver tick (n + 1) (order events) db')"

definition retireExhausted :: "NotificationWorkerConfig \<Rightarrow> go_time \<Rightarrow> ndb \<Rightarrow> ndb" where
  "retireExhausted cfg now db = (case FailExhausted now (wc_MaxAttempts cfg) db of Inl _ \<Rightarrow> db | Inr (_, db') \<Rightarrow> db')"

definition scheduleReminders ::
  "NotificationWorkerConfig \<Rightarrow> (string \<times> string \<Rightarrow> bool) \<Rightarrow> (string \<times> string \<times> nat \<Rightarrow> string) \<Rightarrow> go_time \<Rightarrow> go_time \<Rightarrow> ndb \<Rightarrow> ndb" where
  "scheduleReminders cfg busy gen clock now db =
     (case ScheduleDueReminders busy gen clock now (wc_BatchSize cfg) db of Inl _ \<Rightarrow> db | Inr (_, db') \<Rightarrow> db')"

definition retireResolvedReminders :: "go_time \<Rightarrow> ndb \<Rightarrow> ndb" where
  "retireResolvedReminders now db = (case SuppressResolvedReminders now db of Inl _ \<Rightarrow> db | Inr (_, db') \<Rightarrow> db')"

text \<open>\<open>wall\<close> is the worker's own clock, which only the scheduling rule of reminders reads; \<open>observeBacklog\<close> changes nothing.\<close>

definition runPass ::
  "NotificationWorkerConfig \<Rightarrow> RetryPolicy \<Rightarrow> (int \<Rightarrow> int option) \<Rightarrow> (Notification \<Rightarrow> delivery_error + Verdict) \<Rightarrow>
   (Notification \<Rightarrow> delivery_error option) \<Rightarrow> bool \<Rightarrow> (string \<Rightarrow> bool) \<Rightarrow> (string \<times> string \<Rightarrow> bool) \<Rightarrow>
   (string \<times> string \<times> nat \<Rightarrow> string) \<Rightarrow> (NotificationEvent list \<Rightarrow> NotificationEvent list) \<Rightarrow> go_time \<Rightarrow> (nat \<Rightarrow> go_time) \<Rightarrow> ndb \<Rightarrow> ndb" where
  "runPass cfg retry rand evaluator deliver preview held busy gen order wall tick db =
     (let db1 = retireExhausted cfg (tick 0) db;
          db2 = scheduleReminders cfg busy gen (tick 1) wall db1;
          db3 = retireResolvedReminders (tick 2) db2;
          (n, db4) = evaluatePending cfg evaluator tick 3 db3 in
      deliverDue cfg retry rand deliver preview held busy order tick n db4)"

end
