(* ===== verification/Notification_Delivery.thy ===== *)
theory Notification_Delivery
  imports Notification_Worker
begin

text \<open>
  Several workers draining one outbox. A step is one statement of some worker, at some instant, with any configuration that
  worker's \<open>Start\<close> accepts, or a change by the rest of the system: producers append pending events, other tables change
  freely. The claims and the outcomes recorded are kept beside the tables, so that a worker that died is one that records
  nothing more.
\<close>

section \<open>The system\<close>

record claim =
  cl_ID :: string
  cl_Attempt :: nat
  cl_At :: go_time
  cl_PassEnd :: go_time
  cl_LeaseEnd :: go_time

record system =
  sy_now :: go_time
  sy_db :: ndb
  sy_claims :: "claim list"
  sy_outcomes :: "(string \<times> nat \<times> worker_result) list"

definition new_claim :: "NotificationWorkerConfig \<Rightarrow> go_time \<Rightarrow> NotificationEvent \<Rightarrow> claim" where
  "new_claim cfg now e =
     \<lparr>cl_ID = ev_ID e, cl_Attempt = ev_Attempts e, cl_At = now, cl_PassEnd = now + ProcessingBudget cfg, cl_LeaseEnd = now + lease (Normalized cfg)\<rparr>"

definition fresh_row :: "outbox_row \<Rightarrow> bool" where
  "fresh_row r \<longleftrightarrow> or_Status r = ''pending'' \<and> or_Attempts r = 0 \<and> or_SuppressedReason r = None \<and> or_ID r \<noteq> ''''"

text \<open>What the rest of the system may do to the outbox: append events nobody has looked at, under identifiers of their own.\<close>

definition world_may :: "ndb \<Rightarrow> ndb \<Rightarrow> bool" where
  "world_may db db' \<longleftrightarrow>
     (\<exists>new. nd_outbox db' = nd_outbox db @ new \<and> list_all fresh_row new \<and> distinct (map or_ID new) \<and>
            (\<forall>r \<in> set new. or_ID r \<notin> or_ID ` set (nd_outbox db)))"

text \<open>The database generates identifiers nobody has.\<close>

definition generates_fresh :: "(string \<times> string \<times> nat \<Rightarrow> string) \<Rightarrow> ndb \<Rightarrow> bool" where
  "generates_fresh gen db \<longleftrightarrow> inj gen \<and> (\<forall>k. gen k \<noteq> '''' \<and> gen k \<notin> or_ID ` set (nd_outbox db))"

text \<open>What \<open>crypto/rand.Int\<close> promises.\<close>

definition rand_in_range :: "(int \<Rightarrow> int option) \<Rightarrow> bool" where
  "rand_in_range rand \<longleftrightarrow> (\<forall>span v. rand span = Some v \<longrightarrow> 0 \<le> v \<and> v < span)"

text \<open>The primary key of the recipients' requests.\<close>

definition ack_key :: "ndb \<Rightarrow> bool" where
  "ack_key db \<longleftrightarrow> distinct (map (\<lambda>a. (ak_MessageID a, ak_RecipientID a)) (nd_acks db))"

inductive outbox_step :: "system \<Rightarrow> system \<Rightarrow> bool" where
  Clock: "sy_now s \<le> t \<Longrightarrow> outbox_step s (s\<lparr>sy_now := t\<rparr>)"
| World: "world_may (sy_db s) db' \<Longrightarrow> outbox_step s (s\<lparr>sy_db := db'\<rparr>)"
| Evaluate: "evaluateOne evaluator (sy_now s) event (sy_db s) = (result, db') \<Longrightarrow> outbox_step s (s\<lparr>sy_db := db'\<rparr>)"
| Claim: "LeaseCoversProcessing cfg \<Longrightarrow>
    ClaimDue held busy preview (sy_now s) (wc_BatchSize (Normalized cfg)) (wc_MaxAttempts (Normalized cfg)) (lease (Normalized cfg)) (sy_db s)
      = Inr (events, db') \<Longrightarrow>
    outbox_step s (s\<lparr>sy_db := db', sy_claims := sy_claims s @ map (new_claim cfg (sy_now s)) events\<rparr>)"
| Finish: "rand_in_range rand \<Longrightarrow> c \<in> set (sy_claims s) \<Longrightarrow> nt_ID n = cl_ID c \<Longrightarrow> nt_Attempt n = cl_Attempt c \<Longrightarrow>
    recordOutcome (fst (NewNotificationWorker cfg)) (snd (NewNotificationWorker cfg)) rand (sy_now s) n err (sy_db s) = (result, Inr db') \<Longrightarrow>
    outbox_step s (s\<lparr>sy_db := db', sy_outcomes := sy_outcomes s @ [(cl_ID c, cl_Attempt c, result)]\<rparr>)"
| Retire: "FailExhausted (sy_now s) (wc_MaxAttempts (Normalized cfg)) (sy_db s) = Inr (k, db') \<Longrightarrow> outbox_step s (s\<lparr>sy_db := db'\<rparr>)"
| Remind: "generates_fresh gen (sy_db s) \<Longrightarrow> ack_key (sy_db s) \<Longrightarrow>
    ScheduleDueReminders busy gen (sy_now s) wall (wc_BatchSize (Normalized cfg)) (sy_db s) = Inr (res, db') \<Longrightarrow>
    outbox_step s (s\<lparr>sy_db := db'\<rparr>)"
| Resolve: "SuppressResolvedReminders (sy_now s) (sy_db s) = Inr (k, db') \<Longrightarrow> outbox_step s (s\<lparr>sy_db := db'\<rparr>)"

inductive_cases outbox_stepE: "outbox_step s s'"

section \<open>The invariant\<close>

definition claims_of :: "string \<Rightarrow> system \<Rightarrow> claim list" where
  "claims_of i s = filter (\<lambda>c. cl_ID c = i) (sy_claims s)"

definition released :: "system \<Rightarrow> claim \<Rightarrow> claim \<Rightarrow> bool" where
  "released s c c' \<longleftrightarrow> cl_LeaseEnd c \<le> cl_At c' \<or> (cl_ID c, cl_Attempt c, resultRetry) \<in> set (sy_outcomes s)"

fun outcome_state :: "worker_result \<Rightarrow> string" where
  "outcome_state resultDelivered = StateSent"
| "outcome_state resultFailed = StateFailed"
| "outcome_state resultRetry = StateRetrying"
| "outcome_state _ = ''''"

definition row_shape :: "outbox_row \<Rightarrow> bool" where
  "row_shape r \<longleftrightarrow> State_Valid (or_Status r) \<and> suppressed_reason_check r \<and> or_Attempts r \<le> 20 \<and> or_ID r \<noteq> '''' \<and>
     (or_Status r \<in> {StatePending, StateEligible, StateSuppressed} \<longrightarrow> or_Attempts r = 0) \<and>
     (or_Status r \<in> {StateEligible, StateRetrying, StateProcessing} \<longrightarrow> or_NextAttemptAt r \<noteq> None)"

definition row_claims :: "system \<Rightarrow> outbox_row \<Rightarrow> bool" where
  "row_claims s r \<longleftrightarrow>
     map cl_Attempt (claims_of (or_ID r) s) = [1..<Suc (or_Attempts r)] \<and>
     sorted_wrt (released s) (claims_of (or_ID r) s) \<and>
     (or_Status r = StateProcessing \<longrightarrow> or_Attempts r \<noteq> 0 \<and> or_NextAttemptAt r = Some (cl_LeaseEnd (last (claims_of (or_ID r) s))))"

definition row_outcomes :: "system \<Rightarrow> outbox_row \<Rightarrow> bool" where
  "row_outcomes s r \<longleftrightarrow>
     (\<forall>n res. (or_ID r, n, res) \<in> set (sy_outcomes s) \<longrightarrow>
        n \<in> {1..or_Attempts r} \<and> (n = or_Attempts r \<longrightarrow> or_Status r = outcome_state res) \<and>
        (res \<noteq> resultRetry \<longrightarrow> n = or_Attempts r)) \<and>
     (or_Status r = StateRetrying \<longrightarrow> (or_ID r, or_Attempts r, resultRetry) \<in> set (sy_outcomes s))"

definition system_ok :: "system \<Rightarrow> bool" where
  "system_ok s \<longleftrightarrow>
     distinct (map or_ID (nd_outbox (sy_db s))) \<and>
     (\<forall>r \<in> set (nd_outbox (sy_db s)). row_shape r \<and> row_claims s r \<and> row_outcomes s r) \<and>
     (\<forall>c \<in> set (sy_claims s). cl_ID c \<in> or_ID ` set (nd_outbox (sy_db s)) \<and> cl_At c \<le> sy_now s \<and> cl_PassEnd c < cl_LeaseEnd c) \<and>
     (\<forall>x \<in> set (sy_outcomes s). fst x \<in> or_ID ` set (nd_outbox (sy_db s))) \<and>
     distinct (map (\<lambda>(i, n, _). (i, n)) (sy_outcomes s))"

subsection \<open>Statements that end no claim\<close>

lemma update_outbox_Inr:
  assumes "update_outbox p f db = Inr (n, db')"
  shows "db' = db\<lparr>nd_outbox := map (\<lambda>r. if p r then f r else r) (nd_outbox db)\<rparr>" and "n = length (filter p (nd_outbox db))"
    and "\<And>r. r \<in> set (nd_outbox db) \<Longrightarrow> p r \<Longrightarrow> suppressed_reason_check (f r)"
  using assms by (auto simp: update_outbox_def Let_def list_all_iff split: if_splits)

lemma claims_of_db [simp]: "claims_of i (s\<lparr>sy_db := db\<rparr>) = claims_of i s"
  by (simp add: claims_of_def)

lemma row_claims_db [simp]: "row_claims (s\<lparr>sy_db := db\<rparr>) r = row_claims s r"
  by (simp add: row_claims_def released_def [abs_def])

lemma row_outcomes_db [simp]: "row_outcomes (s\<lparr>sy_db := db\<rparr>) r = row_outcomes s r"
  by (simp add: row_outcomes_def)

text \<open>A row whose attempts stay the same may leave the states in which nothing has been reported about the last of them.\<close>

definition quiet_change :: "outbox_row \<Rightarrow> outbox_row \<Rightarrow> bool" where
  "quiet_change r r' \<longleftrightarrow> or_ID r' = or_ID r \<and> or_Attempts r' = or_Attempts r \<and> row_shape r' \<and>
     or_Status r \<in> {StatePending, StateEligible, StateProcessing} \<and> or_Status r' \<notin> {StateProcessing, StateRetrying}"

lemma outcome_states: "outcome_state res \<notin> {StatePending, StateEligible, StateProcessing}"
  by (cases res) auto

lemma quiet_outcomes:
  assumes "row_outcomes s r" and "quiet_change r r'"
  shows "row_outcomes s r'"
proof -
  have none: "or_Status r \<noteq> outcome_state res" for res
    using assms(2) outcome_states [of res] unfolding quiet_change_def by metis
  show ?thesis using assms none unfolding row_outcomes_def quiet_change_def by auto
qed

lemma quiet_row:
  assumes "row_shape r \<and> row_claims s r \<and> row_outcomes s r" and "quiet_change r r'"
  shows "row_shape r' \<and> row_claims s r' \<and> row_outcomes s r'"
  using assms quiet_outcomes [of s r r'] by (auto simp: row_claims_def quiet_change_def)

lemma system_okD:
  assumes "system_ok s"
  shows "distinct (map or_ID (nd_outbox (sy_db s)))"
    and "r \<in> set (nd_outbox (sy_db s)) \<Longrightarrow> row_shape r \<and> row_claims s r \<and> row_outcomes s r"
    and "c \<in> set (sy_claims s) \<Longrightarrow> cl_ID c \<in> or_ID ` set (nd_outbox (sy_db s)) \<and> cl_At c \<le> sy_now s \<and> cl_PassEnd c < cl_LeaseEnd c"
    and "x \<in> set (sy_outcomes s) \<Longrightarrow> fst x \<in> or_ID ` set (nd_outbox (sy_db s))"
    and "distinct (map (\<lambda>(i, n, _). (i, n)) (sy_outcomes s))"
  using assms by (auto simp: system_ok_def)

lemma system_okI:
  assumes "distinct (map or_ID (nd_outbox (sy_db s)))"
    and "\<And>r. r \<in> set (nd_outbox (sy_db s)) \<Longrightarrow> row_shape r \<and> row_claims s r \<and> row_outcomes s r"
    and "\<And>c. c \<in> set (sy_claims s) \<Longrightarrow> cl_ID c \<in> or_ID ` set (nd_outbox (sy_db s)) \<and> cl_At c \<le> sy_now s \<and> cl_PassEnd c < cl_LeaseEnd c"
    and "\<And>x. x \<in> set (sy_outcomes s) \<Longrightarrow> fst x \<in> or_ID ` set (nd_outbox (sy_db s))"
    and "distinct (map (\<lambda>(i, n, _). (i, n)) (sy_outcomes s))"
  shows "system_ok s"
  using assms by (simp add: system_ok_def)

text \<open>A step that keeps the identifiers, the claims and the outcomes only has to account for each row.\<close>

lemma system_ok_rows:
  assumes ok: "system_ok s" and ids: "map or_ID (nd_outbox db') = map or_ID (nd_outbox (sy_db s))"
    and rows: "\<And>r. r \<in> set (nd_outbox db') \<Longrightarrow> row_shape r \<and> row_claims s r \<and> row_outcomes s r"
  shows "system_ok (s\<lparr>sy_db := db'\<rparr>)"
proof -
  have "or_ID ` set (nd_outbox db') = or_ID ` set (nd_outbox (sy_db s))" using ids by (metis set_map)
  then show ?thesis using system_okD [OF ok] ids rows by (intro system_okI) simp_all
qed

lemma map_or_ID: "(\<And>r. or_ID (g r) = or_ID r) \<Longrightarrow> map or_ID (map g rows) = map or_ID rows"
  by simp

lemma same_row:
  assumes "distinct (map or_ID rows)" "r \<in> set rows" "q \<in> set rows" "or_ID r = or_ID q"
  shows "r = q"
  using assms by (metis distinct_map inj_on_def)

lemma quiet_update:
  assumes ok: "system_ok s" and run: "update_outbox p f (sy_db s) = Inr (n, db')"
    and quiet: "\<And>r. r \<in> set (nd_outbox (sy_db s)) \<Longrightarrow> p r \<Longrightarrow> suppressed_reason_check (f r) \<Longrightarrow> row_shape r \<Longrightarrow> quiet_change r (f r)"
    and ids: "\<And>r. or_ID (f r) = or_ID r"
  shows "system_ok (s\<lparr>sy_db := db'\<rparr>)"
proof -
  let ?g = "\<lambda>r. if p r then f r else r"
  have rows: "nd_outbox db' = map ?g (nd_outbox (sy_db s))" using update_outbox_Inr(1) [OF run] by simp
  have "row_shape r \<and> row_claims s r \<and> row_outcomes s r" if r: "r \<in> set (nd_outbox db')" for r
  proof -
    obtain q where q: "q \<in> set (nd_outbox (sy_db s))" "r = ?g q" using r rows by auto
    then show ?thesis using system_okD(2) [OF ok q(1)] quiet_row [of q s r] quiet [OF q(1)] update_outbox_Inr(3) [OF run q(1)] by auto
  qed
  moreover have "map or_ID (nd_outbox db') = map or_ID (nd_outbox (sy_db s))" unfolding rows using ids by (intro map_or_ID) simp
  ultimately show ?thesis by (intro system_ok_rows [OF ok])
qed

lemma applyTransition_Inr:
  assumes "applyTransition p f i db = Inr db'"
  obtains n where "update_outbox (\<lambda>r. or_ID r = i \<and> p r) f db = Inr (n, db')" and "n \<noteq> 0"
proof -
  from assms obtain n d where "update_outbox (\<lambda>r. or_ID r = i \<and> p r) f db = Inr (n, d)" and "(if n = 0 then Inl ErrNotificationStateConflict else Inr d) = Inr db'"
    by (auto simp: applyTransition_def bind_err_Inr_iff split: if_splits)
  then have "update_outbox (\<lambda>r. or_ID r = i \<and> p r) f db = Inr (n, db') \<and> n \<noteq> 0" by (cases "n = 0") auto
  then show thesis using that by blast
qed

definition evaluation_update :: "go_time \<Rightarrow> string \<Rightarrow> string \<Rightarrow> outbox_row \<Rightarrow> outbox_row" where
  "evaluation_update now state reason r =
     r\<lparr>or_Status := state, or_SuppressedReason := (if reason = '''' then None else Some reason),
       or_NextAttemptAt := (if state = ''eligible'' then Some now else or_NextAttemptAt r),
       or_ProcessedAt := (if state = ''suppressed'' then Some now else or_ProcessedAt r), or_UpdatedAt := now\<rparr>"

lemma MarkEvaluated_Inr:
  assumes "MarkEvaluated now i state reason db = Inr db'"
  obtains n where "update_outbox (\<lambda>r. or_ID r = i \<and> or_Status r = ''pending'') (evaluation_update now state reason) db = Inr (n, db')"
    and "state = StateEligible \<or> state = StateSuppressed" and "n \<noteq> 0"
proof -
  have can: "State_CanTransitionTo StatePending state" using assms by (auto simp: MarkEvaluated_def split: if_splits)
  then have state: "state = StateEligible \<or> state = StateSuppressed" unfolding State_CanTransitionTo_iff if_P [OF refl] .
  obtain u where "ValidateSuppressedReason state reason = Inr u" using assms can by (cases "ValidateSuppressedReason state reason") (auto simp: MarkEvaluated_def)
  then have "applyTransition (\<lambda>r. or_Status r = ''pending'') (evaluation_update now state reason) i db = Inr db'"
    using assms can by (simp add: MarkEvaluated_def evaluation_update_def [abs_def])
  then show thesis by (rule applyTransition_Inr) (use that state in blast)
qed

lemma evaluation_quiet:
  assumes "row_shape r" and "or_Status r = StatePending" and "state = StateEligible \<or> state = StateSuppressed"
    and "suppressed_reason_check (evaluation_update now state reason r)"
  shows "quiet_change r (evaluation_update now state reason r)"
proof -
  have "or_Attempts r = 0" "or_ID r \<noteq> ''''" using assms(1,2) by (simp_all add: row_shape_def)
  then show ?thesis using assms(2-4)
    by (elim disjE) (simp_all add: quiet_change_def row_shape_def evaluation_update_def State_Valid_iff)
qed

lemma evaluate_ok:
  assumes ok: "system_ok s" and run: "evaluateOne evaluator (sy_now s) event (sy_db s) = (result, db')"
  shows "system_ok (s\<lparr>sy_db := db'\<rparr>)"
proof (cases "db' = sy_db s")
  case False
  then obtain state reason where "MarkEvaluated (sy_now s) (ev_ID event) state reason (sy_db s) = Inr db'"
    using run by (auto simp: evaluateOne_def Let_def split: sum.splits if_splits)
  then show ?thesis
  proof (rule MarkEvaluated_Inr)
    fix n
    assume upd: "update_outbox (\<lambda>r. or_ID r = ev_ID event \<and> or_Status r = ''pending'') (evaluation_update (sy_now s) state reason) (sy_db s) = Inr (n, db')"
      and state: "state = StateEligible \<or> state = StateSuppressed"
    show ?thesis by (rule quiet_update [OF ok upd]) (use evaluation_quiet state in \<open>auto simp: evaluation_update_def\<close>)
  qed
next
  case True
  with ok show ?thesis by simp
qed

lemma retire_ok:
  assumes ok: "system_ok s" and run: "FailExhausted (sy_now s) m (sy_db s) = Inr (k, db')"
  shows "system_ok (s\<lparr>sy_db := db'\<rparr>)"
proof (cases "m \<le> 0")
  case True
  then have "db' = sy_db s" using run by (simp add: FailExhausted_def)
  with ok show ?thesis by simp
next
  case False
  note upd = run [unfolded FailExhausted_def if_not_P [OF False]]
  show ?thesis by (rule quiet_update [OF ok upd])
      (auto simp: quiet_change_def row_shape_def State_Valid_iff suppressed_reason_check_def)
qed

lemma resolve_ok:
  assumes ok: "system_ok s" and run: "SuppressResolvedReminders (sy_now s) (sy_db s) = Inr (k, db')"
  shows "system_ok (s\<lparr>sy_db := db'\<rparr>)"
  by (rule quiet_update [OF ok run [unfolded SuppressResolvedReminders_def]])
    (auto simp: quiet_change_def row_shape_def State_Valid_iff suppressed_reason_check_def)

subsection \<open>New events\<close>

lemma claims_of_unknown:
  assumes "system_ok s" and "i \<notin> or_ID ` set (nd_outbox (sy_db s))"
  shows "claims_of i s = []" and "\<And>n res. (i, n, res) \<notin> set (sy_outcomes s)"
proof -
  show "claims_of i s = []"
    using system_okD(3) [OF assms(1)] assms(2) by (auto simp: claims_of_def filter_empty_conv)
  show "(i, n, res) \<notin> set (sy_outcomes s)" for n res
    using system_okD(4) [OF assms(1), of "(i, n, res)"] assms(2) by auto
qed

lemma append_ok:
  assumes ok: "system_ok s" and db': "nd_outbox db' = nd_outbox (sy_db s) @ new" and fresh: "list_all fresh_row new"
    and "distinct (map or_ID new)" and unknown: "\<forall>r \<in> set new. or_ID r \<notin> or_ID ` set (nd_outbox (sy_db s))"
  shows "system_ok (s\<lparr>sy_db := db'\<rparr>)"
proof (rule system_okI)
  show "distinct (map or_ID (nd_outbox (sy_db (s\<lparr>sy_db := db'\<rparr>))))"
    using system_okD(1) [OF ok] assms(4) unknown by (auto simp: db') (metis imageI)
  fix r assume "r \<in> set (nd_outbox (sy_db (s\<lparr>sy_db := db'\<rparr>)))"
  then consider "r \<in> set (nd_outbox (sy_db s))" | "r \<in> set new" by (auto simp: db')
  then show "row_shape r \<and> row_claims (s\<lparr>sy_db := db'\<rparr>) r \<and> row_outcomes (s\<lparr>sy_db := db'\<rparr>) r"
  proof cases
    case 1
    with system_okD(2) [OF ok] show ?thesis by simp
  next
    case 2
    with fresh have "fresh_row r" by (simp add: list_all_iff)
    with claims_of_unknown [OF ok, of "or_ID r"] 2 unknown show ?thesis
      by (simp add: fresh_row_def row_shape_def State_Valid_iff suppressed_reason_check_def row_claims_def row_outcomes_def)
  qed
qed (use system_okD(3-5) [OF ok] in \<open>simp_all add: db' image_Un\<close>)

lemma insert_rows:
  "\<exists>new. fold (\<lambda>a. insert_unless_known (row a)) due rows = rows @ new \<and> set new \<subseteq> row ` set due \<and>
     (distinct (map (or_ID \<circ> row) due) \<longrightarrow> distinct (map or_ID new))"
proof -
  obtain ds where ds: "fold (\<lambda>a. insert_unless_known (row a)) due rows = rows @ map row ds" "set ds \<subseteq> set due" "distinct due \<longrightarrow> distinct ds"
    using insert_events [of row due rows] by blast
  have "distinct (map or_ID (map row ds))" if "distinct (map (or_ID \<circ> row) due)"
    using that ds(2,3) by (auto simp: distinct_map intro: inj_on_subset)
  with ds(1,2) show ?thesis by (intro exI [of _ "map row ds"]) auto
qed

lemma remind_ok:
  assumes ok: "system_ok s" and gen: "generates_fresh gen (sy_db s)" and "ack_key (sy_db s)"
    and run: "ScheduleDueReminders busy gen clock wall batch (sy_db s) = Inr (res, db')"
  shows "system_ok (s\<lparr>sy_db := db'\<rparr>)"
proof (cases "batch \<le> 0 \<or> IsZero wall")
  case True
  then have "db' = sy_db s" using run by (auto simp: ScheduleDueReminders_def split: if_splits)
  with ok show ?thesis by simp
next
  case False
  let ?due = "due_reminders busy wall (nat batch) (sy_db s)"
  let ?row = "\<lambda>a. reminder_row gen clock a (the (reminder_message (sy_db s) a))"
  have rows: "nd_outbox db' = fold (\<lambda>a. insert_unless_known (?row a)) ?due (nd_outbox (sy_db s))"
    using run False by (auto simp: ScheduleDueReminders_def Let_def)
  obtain new where new: "nd_outbox db' = nd_outbox (sy_db s) @ new" "set new \<subseteq> ?row ` set ?due"
    "distinct (map (or_ID \<circ> ?row) ?due) \<longrightarrow> distinct (map or_ID new)"
    using insert_rows [of ?row ?due "nd_outbox (sy_db s)"] rows by auto
  have keys: "distinct (map (\<lambda>a. (ak_MessageID a, ak_RecipientID a)) ?due)"
    using assms(3) unfolding due_reminders_def ack_key_def by (rule sort_take_distinct)
  have "inj_on (or_ID \<circ> ?row) (set ?due)"
  proof (rule inj_onI)
    fix a b assume "a \<in> set ?due" "b \<in> set ?due" "(or_ID \<circ> ?row) a = (or_ID \<circ> ?row) b"
    moreover from this(3) have "ak_MessageID a = ak_MessageID b \<and> ak_RecipientID a = ak_RecipientID b"
      using gen by (auto simp: generates_fresh_def reminder_row_def dest: injD)
    ultimately show "a = b" using keys by (auto simp: distinct_map inj_on_def)
  qed
  moreover have "distinct ?due" using keys by (simp add: distinct_map)
  ultimately have "distinct (map or_ID new)" using new(3) by (simp add: distinct_map)
  moreover have "fresh_row r \<and> or_ID r \<notin> or_ID ` set (nd_outbox (sy_db s))" if r: "r \<in> set new" for r
  proof -
    obtain a where "r = ?row a" using r new(2) by blast
    then have "fresh_row r" and id: "or_ID r = gen (ak_MessageID a, ak_RecipientID a, ak_ReminderCount a + 1)"
      using gen by (simp_all add: fresh_row_def reminder_row_def generates_fresh_def)
    then show ?thesis using gen unfolding id generates_fresh_def by blast
  qed
  ultimately show ?thesis by (intro append_ok [OF ok new(1)]) (auto simp: list_all_iff)
qed

subsection \<open>Claiming\<close>

lemma Normalized_bounds:
  "1 \<le> wc_BatchSize (Normalized c)" "wc_BatchSize (Normalized c) \<le> 200"
  "1 \<le> wc_MaxAttempts (Normalized c)" "wc_MaxAttempts (Normalized c) \<le> 20"
  "5 \<le> wc_LeaseSeconds (Normalized c)" "1 \<le> wc_RetryBaseSeconds (Normalized c)"
  "wc_RetryBaseSeconds (Normalized c) \<le> wc_RetryMaxSeconds (Normalized c)"
  "wc_RetryBaseSeconds (Normalized c) \<le> 600" "wc_RetryMaxSeconds (Normalized c) \<le> 86400"
  by (auto simp: Normalized_def clampSeconds_def Let_def)

lemma claim_pass_end: "LeaseCoversProcessing cfg \<Longrightarrow> now + ProcessingBudget cfg < now + lease (Normalized cfg)"
proof -
  assume "LeaseCoversProcessing cfg"
  moreover obtain k where "ProcessingBudget cfg = k * duration_second" unfolding ProcessingBudget_def Let_def by blast
  ultimately show ?thesis by (simp add: LeaseCoversProcessing_def ProtectedProcessingSeconds_def lease_def)
qed

lemma claimed_rows_due:
  assumes "r \<in> set (claimed_rows held busy now batch m db)"
  shows "r \<in> set (nd_outbox db)" and "due_row busy now m db r"
  using set_take_subset [of batch] assms unfolding claimed_rows_def by fastforce+

lemma ClaimDue_Inr:
  assumes run: "ClaimDue held busy preview now batch m l db = Inr (events, db')" and "0 < batch" "0 < m"
    and ids: "distinct (map or_ID (nd_outbox db))"
  defines "picked \<equiv> \<lambda>r. r \<in> set (claimed_rows held busy now (nat batch) (nat m) db)"
  shows "nd_outbox db' = map (\<lambda>r. if picked r then claim_update now l r else r) (nd_outbox db)"
    and "map (\<lambda>e. (ev_ID e, ev_Attempts e)) events =
           map (\<lambda>r. (or_ID r, or_Attempts (claim_update now l r))) (filter picked (nd_outbox db))"
    and "db' = db\<lparr>nd_outbox := nd_outbox db'\<rparr>"
proof -
  let ?p = "\<lambda>r. or_ID r \<in> set (map or_ID (claimed_rows held busy now (nat batch) (nat m) db))"
  have same: "?p r \<longleftrightarrow> picked r" if r: "r \<in> set (nd_outbox db)" for r
  proof
    assume "?p r"
    then obtain q where q: "q \<in> set (claimed_rows held busy now (nat batch) (nat m) db)" "or_ID r = or_ID q" by auto
    then show "picked r" using same_row [OF ids r claimed_rows_due(1) [OF q(1)] q(2)] by (simp add: picked_def)
  qed (simp add: picked_def)
  have upd: "update_outbox ?p (claim_update now l) db = Inr (length (filter ?p (nd_outbox db)), db')"
    and events: "events = map (\<lambda>r. notificationColumns now db (if preview then presentationProjection db r else None) (claim_update now l r))
                    (filter ?p (nd_outbox db))"
    using run assms(2,3) by (auto simp: ClaimDue_def Let_def bind_err_Inr_iff update_outbox_Inr(2))
  show "nd_outbox db' = map (\<lambda>r. if picked r then claim_update now l r else r) (nd_outbox db)"
    using update_outbox_Inr(1) [OF upd] same by simp
  have "filter ?p (nd_outbox db) = filter picked (nd_outbox db)" using same by (intro filter_cong) auto
  then show "map (\<lambda>e. (ev_ID e, ev_Attempts e)) events = map (\<lambda>r. (or_ID r, or_Attempts (claim_update now l r))) (filter picked (nd_outbox db))"
    unfolding events by (simp add: comp_def notificationColumns_def claim_update_def)
  show "db' = db\<lparr>nd_outbox := nd_outbox db'\<rparr>" using update_outbox_Inr(1) [OF upd] by simp
qed

text \<open>One row under a claim: its claims grow by one, numbered by the new attempt, and the one before has been released.\<close>

lemma claim_row:
  assumes shape: "row_shape r" and claims: "row_claims s r" and outs: "row_outcomes s r"
    and due: "claimable m r" "available_at now r" and "m \<le> 20"
    and of: "claims_of (or_ID r) s' = claims_of (or_ID r) s @ [c]" and c: "cl_Attempt c = Suc (or_Attempts r)" "cl_At c = now" "cl_LeaseEnd c = now + l"
      "cl_ID c = or_ID r"
    and past: "\<And>d. d \<in> set (claims_of (or_ID r) s) \<Longrightarrow> cl_At d \<le> now \<and> cl_ID d = or_ID r"
    and same: "sy_outcomes s' = sy_outcomes s"
  shows "row_shape (claim_update now l r) \<and> row_claims s' (claim_update now l r) \<and> row_outcomes s' (claim_update now l r)"
proof -
  let ?cs = "claims_of (or_ID r) s"
  have n: "or_Attempts (claim_update now l r) = Suc (or_Attempts r)"
    using due(1) assms(6) by (simp add: claim_update_def claimable_def)
  have attempts: "map cl_Attempt ?cs = [1..<Suc (or_Attempts r)]" and sorted: "sorted_wrt (released s) ?cs" using claims by (simp_all add: row_claims_def)
  have rel: "released s' d e = released s d e" for d e by (simp add: released_def same)
  have "released s d c" if d: "d \<in> set ?cs" for d
  proof -
    have "?cs \<noteq> []" using d by auto
    then obtain ds z where cs: "?cs = ds @ [z]" by (metis append_butlast_last_id)
    have "or_Attempts r \<noteq> 0" using attempts cs by (cases "or_Attempts r") auto
    then have z: "cl_Attempt z = or_Attempts r" using attempts cs by (cases "or_Attempts r") auto
    have last: "released s z c"
    proof (cases "or_Status r = StateProcessing")
      case True
      then have "or_NextAttemptAt r = Some (cl_LeaseEnd z)" using claims cs by (simp add: row_claims_def)
      then show ?thesis using due(2) c(2) by (simp add: released_def available_at_def)
    next
      case False
      then have "or_Status r = StateRetrying" using due(1) shape \<open>or_Attempts r \<noteq> 0\<close> by (auto simp: claimable_def row_shape_def)
      then have "(or_ID r, or_Attempts r, resultRetry) \<in> set (sy_outcomes s)" using outs by (simp add: row_outcomes_def)
      then show ?thesis using z past [of z] cs by (simp add: released_def)
    qed
    show ?thesis
    proof (cases "d = z")
      case False
      then have "d \<in> set ds" using d cs by simp
      then have "released s d z" using sorted cs by (auto simp: sorted_wrt_append)
      then show ?thesis using past [of z] cs c(2) by (auto simp: released_def)
    qed (use last in simp)
  qed
  then have "sorted_wrt (released s) (?cs @ [c])" using sorted by (simp add: sorted_wrt_append)
  then have "row_claims s' (claim_update now l r)"
    using attempts n c of by (simp add: row_claims_def rel [abs_def] claim_update_def)
  moreover have "row_shape (claim_update now l r)"
    using shape due(1) assms(6) n by (auto simp: row_shape_def claim_update_def State_Valid_iff suppressed_reason_check_def claimable_def)
  moreover have "row_outcomes s' (claim_update now l r)"
    unfolding row_outcomes_def
  proof (intro conjI allI impI)
    fix k res assume "(or_ID (claim_update now l r), k, res) \<in> set (sy_outcomes s')"
    then have k: "(or_ID r, k, res) \<in> set (sy_outcomes s)" by (simp add: claim_update_def same)
    then have *: "k \<in> {1..or_Attempts r}" and st: "k = or_Attempts r \<longrightarrow> or_Status r = outcome_state res" and "res \<noteq> resultRetry \<longrightarrow> k = or_Attempts r"
      using outs by (simp_all add: row_outcomes_def)
    show "k \<in> {1..or_Attempts (claim_update now l r)}" using * n by simp
    show "or_Status (claim_update now l r) = outcome_state res" if "k = or_Attempts (claim_update now l r)" using that * n by simp
    show "k = or_Attempts (claim_update now l r)" if "res \<noteq> resultRetry"
    proof -
      have "or_Status r = outcome_state res" using that st \<open>res \<noteq> resultRetry \<longrightarrow> k = or_Attempts r\<close> by blast
      then show ?thesis using that due(1) by (cases res) (auto simp: claimable_def)
    qed
  qed (simp add: claim_update_def)
  ultimately show ?thesis by blast
qed

lemma filter_own_id: "distinct (map or_ID rows) \<Longrightarrow> r \<in> set rows \<Longrightarrow> filter (\<lambda>q. or_ID q = or_ID r) rows = [r]"
proof (induction rows)
  case (Cons a rows)
  show ?case
  proof (cases "r = a")
    case True
    then have "filter (\<lambda>q. or_ID q = or_ID r) rows = []" using Cons.prems(1) by (auto simp: filter_empty_conv) (metis imageI)
    with True show ?thesis by simp
  next
    case False
    then have "r \<in> set rows" using Cons.prems(2) by simp
    moreover from this have "or_ID a \<noteq> or_ID r" using Cons.prems(1) by auto
    ultimately show ?thesis using Cons by simp
  qed
qed simp

text \<open>What a claim does to the table and to the history: exactly the claimed rows change, and each gains one claim.\<close>

lemma claim_rows:
  assumes ids: "distinct (map or_ID (nd_outbox (sy_db s)))"
    and run: "ClaimDue held busy preview (sy_now s) (wc_BatchSize (Normalized cfg)) (wc_MaxAttempts (Normalized cfg)) (lease (Normalized cfg)) (sy_db s)
      = Inr (events, db')"
  defines "picked \<equiv> \<lambda>r. r \<in> set (claimed_rows held busy (sy_now s) (nat (wc_BatchSize (Normalized cfg))) (nat (wc_MaxAttempts (Normalized cfg))) (sy_db s))"
    and "taken \<equiv> claim_update (sy_now s) (lease (Normalized cfg))"
    and "made \<equiv> \<lambda>r. \<lparr>cl_ID = or_ID r, cl_Attempt = or_Attempts (claim_update (sy_now s) (lease (Normalized cfg)) r), cl_At = sy_now s,
                   cl_PassEnd = sy_now s + ProcessingBudget cfg, cl_LeaseEnd = sy_now s + lease (Normalized cfg)\<rparr>"
  shows "nd_outbox db' = map (\<lambda>r. if picked r then taken r else r) (nd_outbox (sy_db s))"
    and "map (new_claim cfg (sy_now s)) events = map made (filter picked (nd_outbox (sy_db s)))"
    and "r \<in> set (nd_outbox (sy_db s)) \<Longrightarrow>
      claims_of (or_ID r) (s\<lparr>sy_db := db', sy_claims := sy_claims s @ map (new_claim cfg (sy_now s)) events\<rparr>) =
      claims_of (or_ID r) s @ (if picked r then [made r] else [])"
proof -
  let ?old = "nd_outbox (sy_db s)"
  have bounds: "0 < wc_BatchSize (Normalized cfg)" "0 < wc_MaxAttempts (Normalized cfg)" using Normalized_bounds [of cfg] by simp_all
  let ?h = "\<lambda>(i, n). \<lparr>cl_ID = i, cl_Attempt = n, cl_At = sy_now s, cl_PassEnd = sy_now s + ProcessingBudget cfg,
      cl_LeaseEnd = sy_now s + lease (Normalized cfg)\<rparr>"
  have ev: "map (\<lambda>e. (ev_ID e, ev_Attempts e)) events = map (\<lambda>r. (or_ID r, or_Attempts (taken r))) (filter picked ?old)"
    using ClaimDue_Inr(2) [OF run bounds ids] by (simp add: picked_def taken_def)
  have "map (new_claim cfg (sy_now s)) events = map ?h (map (\<lambda>e. (ev_ID e, ev_Attempts e)) events)" by (simp add: new_claim_def)
  then show new: "map (new_claim cfg (sy_now s)) events = map made (filter picked ?old)"
    unfolding ev by (simp add: comp_def made_def taken_def)
  show "nd_outbox db' = map (\<lambda>r. if picked r then taken r else r) ?old"
    using ClaimDue_Inr(1) [OF run bounds ids] by (simp add: picked_def taken_def)
  assume r: "r \<in> set ?old"
  have "filter (\<lambda>q. or_ID q = or_ID r) (filter picked ?old) = filter picked (filter (\<lambda>q. or_ID q = or_ID r) ?old)"
    by (simp add: conj_commute)
  also have "\<dots> = (if picked r then [r] else [])" using filter_own_id [OF ids r] by simp
  finally show "claims_of (or_ID r) (s\<lparr>sy_db := db', sy_claims := sy_claims s @ map (new_claim cfg (sy_now s)) events\<rparr>) =
      claims_of (or_ID r) s @ (if picked r then [made r] else [])"
    by (simp add: claims_of_def new filter_map comp_def made_def)
qed

lemma claim_ok:
  assumes ok: "system_ok s" and covers: "LeaseCoversProcessing cfg"
    and run: "ClaimDue held busy preview (sy_now s) (wc_BatchSize (Normalized cfg)) (wc_MaxAttempts (Normalized cfg)) (lease (Normalized cfg)) (sy_db s)
      = Inr (events, db')"
  shows "system_ok (s\<lparr>sy_db := db', sy_claims := sy_claims s @ map (new_claim cfg (sy_now s)) events\<rparr>)" (is "system_ok ?s'")
proof -
  let ?m = "wc_MaxAttempts (Normalized cfg)" and ?l = "lease (Normalized cfg)" and ?now = "sy_now s"
  let ?old = "nd_outbox (sy_db s)"
  let ?picked = "\<lambda>r. r \<in> set (claimed_rows held busy ?now (nat (wc_BatchSize (Normalized cfg))) (nat ?m) (sy_db s))"
  let ?h = "\<lambda>(i, n). \<lparr>cl_ID = i, cl_Attempt = n, cl_At = ?now, cl_PassEnd = ?now + ProcessingBudget cfg, cl_LeaseEnd = ?now + ?l\<rparr>"
  let ?n = "\<lambda>r. (or_ID r, or_Attempts (claim_update ?now ?l r))"
  have bounds: "nat ?m \<le> 20" using Normalized_bounds [of cfg] by simp
  note ids = system_okD(1) [OF ok]
  have rows: "nd_outbox db' = map (\<lambda>r. if ?picked r then claim_update ?now ?l r else r) ?old"
    and new: "map (new_claim cfg ?now) events = map (\<lambda>r. ?h (?n r)) (filter ?picked ?old)"
    and of: "\<And>r. r \<in> set ?old \<Longrightarrow> claims_of (or_ID r) ?s' = claims_of (or_ID r) s @ (if ?picked r then [?h (?n r)] else [])"
    using claim_rows [OF ids run] by simp_all
  have ids': "map or_ID (nd_outbox db') = map or_ID ?old" unfolding rows by (intro map_or_ID) (simp add: claim_update_def)
  have set': "or_ID ` set (nd_outbox db') = or_ID ` set ?old" using ids' by (metis set_map)
  show ?thesis
  proof (rule system_okI)
    fix r assume "r \<in> set (nd_outbox (sy_db ?s'))"
    then obtain q where q: "q \<in> set ?old" "r = (if ?picked q then claim_update ?now ?l q else q)" by (auto simp: rows)
    note old = system_okD(2) [OF ok q(1)]
    have rel: "released ?s' = released s" by (intro ext) (simp add: released_def)
    show "row_shape r \<and> row_claims ?s' r \<and> row_outcomes ?s' r"
    proof (cases "?picked q")
      case False
      then have "claims_of (or_ID q) ?s' = claims_of (or_ID q) s" "r = q" using of [OF q(1)] q(2) by simp_all
      with old show ?thesis by (simp add: row_claims_def row_outcomes_def rel)
    next
      case True
      then have "r = claim_update ?now ?l q" using q(2) by simp
      have due: "claimable (nat ?m) q" "available_at ?now q" using claimed_rows_due(2) [OF True] by (simp_all add: due_row_def)
      then have n: "or_Attempts (claim_update ?now ?l q) = Suc (or_Attempts q)" using bounds by (simp add: claim_update_def claimable_def)
      have "row_shape (claim_update ?now ?l q) \<and> row_claims ?s' (claim_update ?now ?l q) \<and> row_outcomes ?s' (claim_update ?now ?l q)"
        by (rule claim_row [OF conjunct1 [OF old] _ _ due bounds, of s _ "?h (?n q)"])
          (use old of [OF q(1)] True n system_okD(3) [OF ok] in \<open>auto simp: claims_of_def\<close>)
      then show ?thesis using \<open>r = claim_update ?now ?l q\<close> by simp
    qed
  next
    fix c assume "c \<in> set (sy_claims ?s')"
    then consider "c \<in> set (sy_claims s)" | q where "q \<in> set ?old" "c = ?h (?n q)" by (auto simp: new)
    then show "cl_ID c \<in> or_ID ` set (nd_outbox (sy_db ?s')) \<and> cl_At c \<le> sy_now ?s' \<and> cl_PassEnd c < cl_LeaseEnd c"
      by cases (use system_okD(3) [OF ok] claim_pass_end [OF covers] in \<open>auto simp: set'\<close>)
  qed (use ids ids' set' system_okD(4,5) [OF ok] in simp_all)
qed

subsection \<open>Ending a claim\<close>

definition ending :: "worker_result \<Rightarrow> (outbox_row \<Rightarrow> outbox_row) \<Rightarrow> bool" where
  "ending res f \<longleftrightarrow> res \<in> {resultDelivered, resultFailed, resultRetry} \<and>
     (\<forall>r. or_ID (f r) = or_ID r \<and> or_Attempts (f r) = or_Attempts r \<and> or_Status (f r) = outcome_state res \<and>
          or_SuppressedReason (f r) = or_SuppressedReason r \<and> (res = resultRetry \<longrightarrow> or_NextAttemptAt (f r) \<noteq> None))"

lemma recordOutcome_Inr:
  assumes "recordOutcome cfg retry rand now n err db = (res, Inr db')"
  obtains f k where "update_outbox (\<lambda>r. or_ID r = nt_ID n \<and> claimed_as (nt_Attempt n) r) f db = Inr (k, db')" "k \<noteq> 0" "ending res f"
proof -
  have "\<exists>f. applyTransition (claimed_as (nt_Attempt n)) f (nt_ID n) db = Inr db' \<and> ending res f"
    using assms by (auto simp: recordOutcome_def MarkDelivered_def MarkFailed_def ScheduleRetry_def ending_def Let_def
        intro!: exI split: option.splits prod.splits if_splits)
  then obtain f where f: "applyTransition (claimed_as (nt_Attempt n)) f (nt_ID n) db = Inr db'" "ending res f" by blast
  from f(1) show thesis by (rule applyTransition_Inr) (use that f(2) in blast)
qed

lemma ended_row:
  assumes row: "row_shape r \<and> row_claims s r \<and> row_outcomes s r" and "claimed_as n r" and f: "ending res f"
    and s': "s' = s\<lparr>sy_db := db', sy_outcomes := sy_outcomes s @ [(or_ID r, n, res)]\<rparr>"
  shows "row_shape (f r) \<and> row_claims s' (f r) \<and> row_outcomes s' (f r)"
proof -
  have st: "or_Status r = StateProcessing" and n: "or_Attempts r = n" using assms(2) by (simp_all add: claimed_as_def)
  have pos: "or_Attempts r \<noteq> 0" using row st by (simp add: row_claims_def)
  have f': "or_ID (f r) = or_ID r" "or_Attempts (f r) = n" "or_Status (f r) = outcome_state res" "or_SuppressedReason (f r) = or_SuppressedReason r"
      "res = resultRetry \<longrightarrow> or_NextAttemptAt (f r) \<noteq> None" using f n by (simp_all add: ending_def)
  have res: "outcome_state res \<in> {StateSent, StateFailed, StateRetrying}" "outcome_state res = StateRetrying \<longleftrightarrow> res = resultRetry"
    using f by (auto simp: ending_def)
  have "row_shape (f r)"
    using row st f' res pos n by (auto simp: row_shape_def suppressed_reason_check_def State_Valid_iff)
  moreover have "row_claims s' (f r)"
  proof -
    have "sorted_wrt (released s') (claims_of (or_ID r) s)"
      using row by (auto simp: row_claims_def released_def s' elim!: sorted_wrt_mono_rel [rotated])
    then show ?thesis using row f' res n by (auto simp: row_claims_def s' claims_of_def)
  qed
  moreover have "row_outcomes s' (f r)"
    unfolding row_outcomes_def
  proof (intro conjI allI impI)
    fix k out assume "(or_ID (f r), k, out) \<in> set (sy_outcomes s')"
    then consider (new) "k = n" "out = res" | (old) "(or_ID r, k, out) \<in> set (sy_outcomes s)" by (auto simp: s' f')
    then have "k \<in> {1..n} \<and> (k = n \<longrightarrow> out = res) \<and> (out \<noteq> resultRetry \<longrightarrow> k = n)"
    proof cases
      case old
      then have "k \<in> {1..n}" "k = n \<longrightarrow> or_Status r = outcome_state out" "out \<noteq> resultRetry \<longrightarrow> k = n"
        using row n by (simp_all add: row_outcomes_def)
      moreover have "or_Status r \<noteq> outcome_state out" using st outcome_states [of out] by auto
      ultimately show ?thesis by blast
    qed (use pos n in auto)
    then show "k \<in> {1..or_Attempts (f r)}" "k = or_Attempts (f r) \<Longrightarrow> or_Status (f r) = outcome_state out"
      "out \<noteq> resultRetry \<Longrightarrow> k = or_Attempts (f r)" using f' by auto
  next
    assume "or_Status (f r) = StateRetrying"
    then show "(or_ID (f r), or_Attempts (f r), resultRetry) \<in> set (sy_outcomes s')" using f' res(2) by (simp add: s')
  qed
  ultimately show ?thesis by blast
qed

lemma other_row:
  assumes "row_shape r \<and> row_claims s r \<and> row_outcomes s r" and "or_ID r \<noteq> i"
  shows "row_shape r \<and> row_claims (s\<lparr>sy_db := db', sy_outcomes := sy_outcomes s @ [(i, n, res)]\<rparr>) r \<and>
    row_outcomes (s\<lparr>sy_db := db', sy_outcomes := sy_outcomes s @ [(i, n, res)]\<rparr>) r"
proof -
  have "sorted_wrt (released (s\<lparr>sy_db := db', sy_outcomes := sy_outcomes s @ [(i, n, res)]\<rparr>)) (claims_of (or_ID r) s)"
    using assms(1) by (auto simp: row_claims_def released_def elim!: sorted_wrt_mono_rel [rotated])
  with assms show ?thesis by (auto simp: row_claims_def row_outcomes_def claims_of_def)
qed

lemma finish_ok:
  assumes ok: "system_ok s" and n: "nt_ID n = cl_ID c" "nt_Attempt n = cl_Attempt c"
    and run: "recordOutcome cfg retry rand (sy_now s) n err (sy_db s) = (res, Inr db')"
  shows "system_ok (s\<lparr>sy_db := db', sy_outcomes := sy_outcomes s @ [(cl_ID c, cl_Attempt c, res)]\<rparr>)" (is "system_ok ?s'")
  using run
proof (rule recordOutcome_Inr)
  fix f k
  let ?p = "\<lambda>r. or_ID r = nt_ID n \<and> claimed_as (nt_Attempt n) r" and ?old = "nd_outbox (sy_db s)"
  assume upd: "update_outbox ?p f (sy_db s) = Inr (k, db')" and "k \<noteq> 0" and f: "ending res f"
  have rows: "nd_outbox db' = map (\<lambda>r. if ?p r then f r else r) ?old" using update_outbox_Inr(1) [OF upd] by simp
  have "filter ?p ?old \<noteq> []" using update_outbox_Inr(2) [OF upd] \<open>k \<noteq> 0\<close> by auto
  then obtain r where r: "r \<in> set ?old" "or_ID r = cl_ID c" "claimed_as (cl_Attempt c) r" by (auto simp: filter_empty_conv n)
  have ids': "map or_ID (nd_outbox db') = map or_ID ?old" unfolding rows using f by (intro map_or_ID) (simp add: ending_def)
  have set': "or_ID ` set (nd_outbox db') = or_ID ` set ?old" using ids' by (metis set_map)
  show ?thesis
  proof (rule system_okI)
    fix q assume "q \<in> set (nd_outbox (sy_db ?s'))"
    then obtain q0 where q0: "q0 \<in> set ?old" "q = (if ?p q0 then f q0 else q0)" by (auto simp: rows)
    show "row_shape q \<and> row_claims ?s' q \<and> row_outcomes ?s' q"
    proof (cases "or_ID q0 = cl_ID c")
      case True
      then have "q0 = r" using same_row [OF system_okD(1) [OF ok] q0(1) r(1)] r(2) by simp
      then have "q = f r" using q0(2) r n by simp
      then show ?thesis using ended_row [OF system_okD(2) [OF ok r(1)] r(3) f, of ?s' db'] r(2) by simp
    next
      case False
      then show ?thesis using other_row [OF system_okD(2) [OF ok q0(1)] False] q0(2) n by simp
    qed
  next
    have "(cl_ID c, cl_Attempt c, out) \<notin> set (sy_outcomes s)" for out
      using system_okD(2) [OF ok r(1)] r(2,3) outcome_states [of out] by (auto simp: row_outcomes_def claimed_as_def)
    then have "(cl_ID c, cl_Attempt c) \<notin> set (map (\<lambda>(i, n, _). (i, n)) (sy_outcomes s))" by auto
    then show "distinct (map (\<lambda>(i, n, _). (i, n)) (sy_outcomes ?s'))" using system_okD(5) [OF ok] by simp
  next
    fix x assume "x \<in> set (sy_outcomes ?s')"
    then consider "x \<in> set (sy_outcomes s)" | "fst x = or_ID r" by (auto simp: r(2))
    then show "fst x \<in> or_ID ` set (nd_outbox (sy_db ?s'))" by cases (use system_okD(4) [OF ok] r(1) in \<open>simp_all add: set'\<close>)
  qed (use system_okD [OF ok] ids' set' in simp_all)
qed

section \<open>Every reachable system\<close>

lemma clock_ok: "system_ok s \<Longrightarrow> sy_now s \<le> t \<Longrightarrow> system_ok (s\<lparr>sy_now := t\<rparr>)"
  by (force simp: system_ok_def row_claims_def row_outcomes_def claims_of_def released_def [abs_def])

lemma step_ok: "outbox_step s s' \<Longrightarrow> system_ok s \<Longrightarrow> system_ok s'"
proof (induction rule: outbox_step.induct)
  case (World s db')
  then obtain new where "nd_outbox db' = nd_outbox (sy_db s) @ new" "list_all fresh_row new" "distinct (map or_ID new)"
    "\<forall>r \<in> set new. or_ID r \<notin> or_ID ` set (nd_outbox (sy_db s))" by (auto simp: world_may_def)
  then show ?case using append_ok [OF World(2)] by blast
qed (auto intro: clock_ok evaluate_ok claim_ok finish_ok retire_ok remind_ok resolve_ok)

definition initial_system :: "system \<Rightarrow> bool" where
  "initial_system s \<longleftrightarrow> nd_outbox (sy_db s) = [] \<and> sy_claims s = [] \<and> sy_outcomes s = []"

lemma reachable_ok: "outbox_step\<^sup>*\<^sup>* s0 s \<Longrightarrow> initial_system s0 \<Longrightarrow> system_ok s"
proof (induction rule: rtranclp_induct)
  case base
  then show ?case by (simp add: initial_system_def system_ok_def)
next
  case (step s s')
  then show ?case by (simp add: step_ok)
qed

lemma distinct_claims:
  assumes "\<And>i. distinct (map cl_Attempt (filter (\<lambda>c. cl_ID c = i) cs))"
  shows "distinct (map (\<lambda>c. (cl_ID c, cl_Attempt c)) cs)"
  using assms
proof (induction cs)
  case (Cons c cs)
  have "distinct (map cl_Attempt (filter (\<lambda>c. cl_ID c = i) cs))" for i using Cons.prems [of i] by (auto split: if_splits)
  then have "distinct (map (\<lambda>c. (cl_ID c, cl_Attempt c)) cs)" by (rule Cons.IH)
  moreover have "(cl_ID c, cl_Attempt c) \<notin> set (map (\<lambda>c. (cl_ID c, cl_Attempt c)) cs)" using Cons.prems [of "cl_ID c"] by auto
  ultimately show ?case by simp
qed simp

lemma claims_numbered:
  assumes "system_ok s"
  shows "\<exists>k\<le>20. map cl_Attempt (claims_of i s) = [1..<Suc k] \<and> sorted_wrt (released s) (claims_of i s) \<and>
    (\<forall>n res. (i, n, res) \<in> set (sy_outcomes s) \<longrightarrow> n \<in> {1..k} \<and> (res \<noteq> resultRetry \<longrightarrow> n = k))"
proof (cases "i \<in> or_ID ` set (nd_outbox (sy_db s))")
  case True
  then obtain r where r: "r \<in> set (nd_outbox (sy_db s))" "or_ID r = i" by auto
  from system_okD(2) [OF assms r(1)] have "or_Attempts r \<le> 20" "row_claims s r" "row_outcomes s r" by (simp_all add: row_shape_def)
  then show ?thesis using r(2) by (intro exI [of _ "or_Attempts r"]) (auto simp: row_claims_def row_outcomes_def)
next
  case False
  then show ?thesis using claims_of_unknown [OF assms False] by (intro exI [of _ 0]) simp
qed

text \<open>Claim C5. An attempt number is a fence. However many workers drain the outbox, crash or finish late, every claim of an
  event has an attempt number of its own, there are at most twenty of them, an outcome is recorded at most once per claim and
  only for a claim that was made, and an event that was delivered or failed has no later claim and no other final outcome.\<close>

theorem attempts_fenced:
  assumes "initial_system s0" and "outbox_step\<^sup>*\<^sup>* s0 s"
  shows "distinct (map (\<lambda>c. (cl_ID c, cl_Attempt c)) (sy_claims s)) \<and> (\<forall>i. length (claims_of i s) \<le> 20) \<and>
    distinct (map (\<lambda>(i, n, _). (i, n)) (sy_outcomes s)) \<and>
    (\<forall>i n res. (i, n, res) \<in> set (sy_outcomes s) \<longrightarrow>
       (\<exists>c \<in> set (sy_claims s). cl_ID c = i \<and> cl_Attempt c = n) \<and>
       (res \<noteq> resultRetry \<longrightarrow> (\<forall>c \<in> set (sy_claims s). cl_ID c = i \<longrightarrow> cl_Attempt c \<le> n)))"
proof -
  note ok = reachable_ok [OF assms(2,1)]
  have distinct: "distinct (map cl_Attempt (filter (\<lambda>c. cl_ID c = i) (sy_claims s)))" for i
    using claims_numbered [OF ok, of i] by (auto simp: claims_of_def)
  have small: "length (claims_of i s) \<le> 20" for i
  proof -
    obtain k where "k \<le> 20" "map cl_Attempt (claims_of i s) = [1..<Suc k]" using claims_numbered [OF ok, of i] by auto
    then show ?thesis by (metis length_map length_upt diff_Suc_1)
  qed
  have "(\<exists>c \<in> set (sy_claims s). cl_ID c = i \<and> cl_Attempt c = n) \<and>
       (res \<noteq> resultRetry \<longrightarrow> (\<forall>c \<in> set (sy_claims s). cl_ID c = i \<longrightarrow> cl_Attempt c \<le> n))"
    if "(i, n, res) \<in> set (sy_outcomes s)" for i n res
  proof -
    obtain k where k: "map cl_Attempt (claims_of i s) = [1..<Suc k]" "n \<in> {1..k}" "res \<noteq> resultRetry \<longrightarrow> n = k"
      using claims_numbered [OF ok, of i] \<open>(i, n, res) \<in> set (sy_outcomes s)\<close> by blast
    then have at: "cl_Attempt ` set (claims_of i s) = {1..k}" by (metis atLeastLessThanSuc_atLeastAtMost set_map set_upt)
    then have "n \<in> cl_Attempt ` set (claims_of i s)" using k(2) by simp
    moreover have "cl_Attempt c \<le> k" if "c \<in> set (claims_of i s)" for c using at that by fastforce
    ultimately show ?thesis using k(3) by (auto simp: claims_of_def)
  qed
  then show ?thesis using distinct_claims [OF distinct] small system_okD(5) [OF ok] by blast
qed

text \<open>Claim C20. Claims of one event do not overlap: a later claim was made only after the earlier worker had handed the event
  back for another attempt, or after the whole time that worker's pass may last, because its lease had run out and the lease
  covers the pass.\<close>

theorem lease_exclusive:
  assumes "initial_system s0" and "outbox_step\<^sup>*\<^sup>* s0 s"
    and "c \<in> set (sy_claims s)" and "d \<in> set (sy_claims s)" and "cl_ID c = cl_ID d" and "cl_Attempt c < cl_Attempt d"
  shows "cl_PassEnd c < cl_At d \<or> (cl_ID c, cl_Attempt c, resultRetry) \<in> set (sy_outcomes s)"
proof -
  note ok = reachable_ok [OF assms(2,1)]
  let ?cs = "claims_of (cl_ID d) s"
  obtain k where at: "map cl_Attempt ?cs = [1..<Suc k]" and sorted: "sorted_wrt (released s) ?cs" using claims_numbered [OF ok, of "cl_ID d"] by auto
  have "c \<in> set ?cs" "d \<in> set ?cs" using assms by (simp_all add: claims_of_def)
  then obtain x y where xy: "x < length ?cs" "y < length ?cs" "?cs ! x = c" "?cs ! y = d" unfolding in_set_conv_nth by blast
  have len: "length ?cs = k" using arg_cong [OF at, of length] by simp
  have num: "cl_Attempt (?cs ! j) = Suc j" if j: "j < length ?cs" for j
  proof -
    have "cl_Attempt (?cs ! j) = map cl_Attempt ?cs ! j" using j by simp
    also have "\<dots> = [1..<Suc k] ! j" by (simp only: at)
    also have "\<dots> = Suc j" using j len by (simp del: upt_Suc)
    finally show ?thesis .
  qed
  have "x < y" using num [OF xy(1)] num [OF xy(2)] assms(6) by (simp add: xy(3,4))
  have "released s (?cs ! x) (?cs ! y)" by (rule sorted_wrt_nth_less [OF sorted \<open>x < y\<close> xy(2)])
  then have "released s c d" unfolding xy(3,4) .
  moreover have "cl_PassEnd c < cl_LeaseEnd c" using system_okD(3) [OF ok assms(3)] by blast
  ultimately show ?thesis unfolding released_def by linarith
qed

section \<open>Examples\<close>

definition example_config :: NotificationWorkerConfig where
  "example_config = \<lparr>wc_Enabled = True, wc_PollSeconds = 0, wc_BatchSize = 0, wc_MaxConcurrency = 0, wc_LeaseSeconds = 0, wc_MaxAttempts = 0,
     wc_RetryBaseSeconds = 0, wc_RetryMaxSeconds = 0, wc_DeliveryTimeoutSeconds = 0\<rparr>"

definition example_outbox :: "string \<Rightarrow> outbox_row list \<Rightarrow> ndb" where
  "example_outbox ack rows = \<lparr>nd_outbox = rows, nd_acks = [\<lparr>ak_MessageID = ''m'', ak_RecipientID = ''u'', ak_State = ack, ak_ResolvedAt = None,
       ak_ReminderCount = 1, ak_NextReminderAt = None\<rparr>], nd_messages = [], nd_prefs = [], nd_presence = [], nd_workspaces = [],
     nd_members = [], nd_users = [], nd_channels = [], nd_channel_members = [], nd_dms = [], nd_dm_members = [], nd_attachments = []\<rparr>"

definition example_row :: outbox_row where
  "example_row = \<lparr>or_ID = ''n'', or_WorkspaceID = ''w'', or_MessageID = ''m'', or_RecipientID = ''u'', or_Kind = EventTypeUrgentReminder,
     or_Status = ''pending'', or_SourceType = SourceTypeMessage, or_OccurredAt = 0, or_Priority = PriorityHigh, or_Origin = OriginLive,
     or_DedupeKey = Some ''message:m:urgent_reminder:1'', or_Attempts = 0, or_NextAttemptAt = None, or_SuppressedReason = None,
     or_LastError = None, or_ProcessedAt = None, or_UpdatedAt = 0\<rparr>"

definition system_at :: "go_time \<Rightarrow> ndb \<Rightarrow> claim list \<Rightarrow> (string \<times> nat \<times> worker_result) list \<Rightarrow> system" where
  "system_at now db claims outcomes = \<lparr>sy_now = now, sy_db = db, sy_claims = claims, sy_outcomes = outcomes\<rparr>"

definition example_start :: "outbox_row \<Rightarrow> system" where
  "example_start r = system_at 1 (example_outbox ''pending'' [r]) [] []"

definition deliver_all :: "Notification \<Rightarrow> delivery_error + Verdict" where
  "deliver_all n = Inr \<lparr>vd_Deliver = True, vd_SuppressedReason = '''', vd_PolicyVersion = 3\<rparr>"

lemma example_start_reachable: "initial_system (system_at 1 (example_outbox ''pending'' []) [] [])"
    "fresh_row r \<Longrightarrow> outbox_step (system_at 1 (example_outbox ''pending'' []) [] []) (example_start r)"
proof -
  assume "fresh_row r"
  then have "world_may (example_outbox ''pending'' []) (example_outbox ''pending'' [r])" by (auto simp: world_may_def example_outbox_def)
  from outbox_step.World [of "system_at 1 (example_outbox ''pending'' []) [] []", unfolded system_at_def system.simps, OF this]
  show "outbox_step (system_at 1 (example_outbox ''pending'' []) [] []) (example_start r)" by (simp add: system_at_def example_start_def)
qed (simp add: initial_system_def system_at_def example_outbox_def)

lemma example_values:
  "LeaseCoversProcessing example_config" "wc_BatchSize (Normalized example_config) = 10" "wc_MaxAttempts (Normalized example_config) = 6"
  "lease (Normalized example_config) = 60 * duration_second" "ProcessingBudget example_config = 25 * duration_second"
  by code_simp+

lemma claim_only_row:
  assumes "nd_outbox db = [r]" and "due_row (\<lambda>_. False) now 6 db r" and "suppressed_reason_check (claim_update now l r)"
  shows "ClaimDue (\<lambda>_. False) (\<lambda>_. False) False now 10 6 l db =
    Inr ([notificationColumns now db None (claim_update now l r)], db\<lparr>nd_outbox := [claim_update now l r]\<rparr>)"
  using assms by (auto simp: ClaimDue_def Let_def claimed_rows_def update_outbox_def enforce_notification_outbox_transition_def
      claim_update_def due_row_def claimable_def)

text \<open>The event is evaluated at 1, claimed at 2 and, its worker gone, claimed again when the lease has run out.\<close>

definition example_eligible :: outbox_row where
  "example_eligible = example_row\<lparr>or_Status := ''eligible'', or_NextAttemptAt := Some 1, or_UpdatedAt := 1\<rparr>"

definition example_processing :: "nat \<Rightarrow> go_time \<Rightarrow> outbox_row" where
  "example_processing n t = example_row\<lparr>or_Status := ''processing'', or_Attempts := n, or_NextAttemptAt := Some (t + 60 * duration_second), or_UpdatedAt := t\<rparr>"

definition example_claim :: "nat \<Rightarrow> go_time \<Rightarrow> claim" where
  "example_claim n t = \<lparr>cl_ID = ''n'', cl_Attempt = n, cl_At = t, cl_PassEnd = t + 25 * duration_second, cl_LeaseEnd = t + 60 * duration_second\<rparr>"

lemmas example_defs = example_outbox_def example_row_def example_eligible_def example_processing_def example_claim_def

lemma example_evaluated: "outbox_step (example_start example_row) (system_at 1 (example_outbox ''pending'' [example_eligible]) [] [])"
proof -
  have "evaluateOne deliver_all 1 (notificationColumns 1 (example_outbox ''pending'' [example_row]) None example_row) (example_outbox ''pending'' [example_row]) =
    (resultEligible, example_outbox ''pending'' [example_eligible])" by code_simp
  from outbox_step.Evaluate [of _ "example_start example_row", unfolded example_start_def system_at_def system.simps, OF this]
  show ?thesis by (simp add: example_start_def system_at_def)
qed

lemma example_claim_step:
  assumes "due_row (\<lambda>_. False) now 6 (example_outbox ''pending'' [r]) r" and "claim_update now (60 * duration_second) r = example_processing n now"
  shows "outbox_step (system_at now (example_outbox ''pending'' [r]) claims outcomes)
    (system_at now (example_outbox ''pending'' [example_processing n now]) (claims @ [example_claim n now]) outcomes)"
proof -
  let ?s = "system_at now (example_outbox ''pending'' [r]) claims outcomes" and ?e = "notificationColumns now (example_outbox ''pending'' [r]) None (example_processing n now)"
  have "ClaimDue (\<lambda>_. False) (\<lambda>_. False) False now 10 6 (60 * duration_second) (example_outbox ''pending'' [r]) =
    Inr ([?e], example_outbox ''pending'' [example_processing n now])"
    using claim_only_row [OF _ assms(1), of "60 * duration_second"] assms(2) by (simp add: example_defs suppressed_reason_check_def)
  then have "outbox_step ?s (?s\<lparr>sy_db := example_outbox ''pending'' [example_processing n now], sy_claims := sy_claims ?s @ map (new_claim example_config (sy_now ?s)) [?e]\<rparr>)"
    by (intro outbox_step.Claim [OF example_values(1)]) (simp add: example_values system_at_def)
  moreover have "new_claim example_config now ?e = example_claim n now"
    by (simp add: new_claim_def example_claim_def example_values notificationColumns_def example_processing_def example_row_def)
  ultimately show ?thesis by (simp add: system_at_def)
qed

lemma example_due:
  "due_row (\<lambda>_. False) 2 6 (example_outbox ''pending'' [example_eligible]) example_eligible"
  "due_row (\<lambda>_. False) 60000000002 6 (example_outbox ''pending'' [example_processing 1 2]) (example_processing 1 2)"
  by code_simp+

abbreviation example_first :: system where
  "example_first \<equiv> system_at 2 (example_outbox ''pending'' [example_processing 1 2]) [example_claim 1 2] []"

abbreviation example_second :: system where
  "example_second \<equiv> system_at 60000000002 (example_outbox ''pending'' [example_processing 2 60000000002]) [example_claim 1 2, example_claim 2 60000000002] []"

lemma clock_to: "now \<le> t \<Longrightarrow> outbox_step (system_at now db c h) (system_at t db c h)"
  using outbox_step.Clock [of "system_at now db c h" t] by (simp add: system_at_def)

lemma example_reachable:
  "outbox_step\<^sup>*\<^sup>* (system_at 1 (example_outbox ''pending'' []) [] []) (system_at 2 (example_outbox ''pending'' [example_eligible]) [] [])"
  "outbox_step\<^sup>*\<^sup>* (system_at 1 (example_outbox ''pending'' []) [] []) example_first"
  "outbox_step\<^sup>*\<^sup>* (system_at 1 (example_outbox ''pending'' []) [] []) example_second"
proof -
  have "outbox_step (system_at 1 (example_outbox ''pending'' []) [] []) (example_start example_row)"
    by (rule example_start_reachable(2)) (simp add: fresh_row_def example_row_def)
  from this example_evaluated clock_to [of 1 2]
  show eligible: "outbox_step\<^sup>*\<^sup>* (system_at 1 (example_outbox ''pending'' []) [] []) (system_at 2 (example_outbox ''pending'' [example_eligible]) [] [])"
    by (meson rtranclp.rtrancl_into_rtrancl r_into_rtranclp one_le_numeral)
  have "outbox_step (system_at 2 (example_outbox ''pending'' [example_eligible]) [] []) example_first"
    using example_claim_step [OF example_due(1), of 1 "[]" "[]"] by (simp add: claim_update_def example_defs)
  with eligible show first: "outbox_step\<^sup>*\<^sup>* (system_at 1 (example_outbox ''pending'' []) [] []) example_first" by simp
  have "outbox_step (system_at 60000000002 (example_outbox ''pending'' [example_processing 1 2]) [example_claim 1 2] []) example_second"
    using example_claim_step [OF example_due(2), of 2 "[example_claim 1 2]" "[]"] by (simp add: claim_update_def example_defs)
  with first clock_to [of 2 60000000002 "example_outbox ''pending'' [example_processing 1 2]" "[example_claim 1 2]" "[]"]
  show "outbox_step\<^sup>*\<^sup>* (system_at 1 (example_outbox ''pending'' []) [] []) example_second" by simp
qed

theorem attempts_fenced_witness:
  "distinct (map (\<lambda>c. (cl_ID c, cl_Attempt c)) (sy_claims example_second)) \<and> length (sy_claims example_second) = 2 \<and>
   length (claims_of ''n'' example_second) \<le> 20"
  using attempts_fenced [OF example_start_reachable(1) example_reachable(3)] by (simp add: system_at_def)

theorem lease_exclusive_witness: "cl_PassEnd (example_claim 1 2) < cl_At (example_claim 2 60000000002)"
  using lease_exclusive [OF example_start_reachable(1) example_reachable(3), of "example_claim 1 2" "example_claim 2 60000000002"]
  by (simp add: system_at_def example_claim_def)

end
