(* ===== verification/Notification_Queue.thy ===== *)
theory Notification_Queue
  imports Notification_Delivery
begin

text \<open>
  What the worker promises beyond the fencing of claims: retries are scheduled within their bounds, an event that is due is
  not starved by the others, the database never has to refuse a statement, and a reminder follows its recipient's request.
\<close>

section \<open>The backoff\<close>

lemma doubling_exact:
  assumes "0 < b" and "b \<le> 2 ^ 40" and "n \<le> 20"
  shows "sint (push_bit n (of_int b :: 64 word)) = b * 2 ^ n"
proof -
  have "(2::int) ^ n \<le> 2 ^ 20" using assms(3) by (intro power_increasing) auto
  then have "b * 2 ^ n \<le> 2 ^ 40 * 2 ^ 20" using assms(1,2) by (intro mult_mono) auto
  then have small: "b * 2 ^ n < 2 ^ 63" "0 \<le> b * 2 ^ n" using assms(1) by simp_all
  have "push_bit n (of_int b :: 64 word) = of_int (b * 2 ^ n)" by (simp add: push_bit_eq_mult)
  then have "sint (push_bit n (of_int b :: 64 word)) = signed_take_bit 63 (b * 2 ^ n)"
    by (simp only: sint_sbintrunc') simp
  also have "\<dots> = b * 2 ^ n" using small by (intro signed_take_bit_int_eq_self) auto
  finally show ?thesis .
qed

lemma spread_bounds:
  assumes "rand_in_range rand" and "2 \<le> d"
  shows "d div 2 \<le> spread rand p d \<and> spread rand p d < d"
proof -
  have "0 < d div 2" using assms(2) by simp
  then have "0 \<le> randomBelow rand p (d div 2) \<and> randomBelow rand p (d div 2) < d div 2"
    using assms(1) by (auto simp: randomBelow_def rand_in_range_def split: option.splits)
  moreover have "d div 2 + d div 2 \<le> d" by simp
  ultimately show ?thesis using \<open>0 < d div 2\<close> by (simp add: spread_def Let_def)
qed

definition backoff :: "NotificationWorkerConfig \<Rightarrow> nat \<Rightarrow> go_duration" where
  "backoff cfg attempt =
     min (wc_RetryBaseSeconds (Normalized cfg) * duration_second * 2 ^ min (attempt - 1) 20) (wc_RetryMaxSeconds (Normalized cfg) * duration_second)"

lemma backoff_bounds: "duration_second \<le> backoff cfg attempt" "backoff cfg attempt \<le> wc_RetryMaxSeconds (Normalized cfg) * duration_second"
proof -
  have "(1::int) \<le> 2 ^ min (attempt - 1) 20" by simp
  then have "1 * 1 \<le> wc_RetryBaseSeconds (Normalized cfg) * 2 ^ min (attempt - 1) 20"
    using Normalized_bounds(6) [of cfg] by (intro mult_mono) auto
  then show "duration_second \<le> backoff cfg attempt" using Normalized_bounds(6,7) [of cfg] by (simp add: backoff_def)
qed (simp add: backoff_def)

lemma Delay_eq:
  assumes "0 < rp_Base p" "rp_Base p \<le> 2 ^ 40" "rp_Base p \<le> rp_Max p"
  shows "Delay rand p (int attempt) = spread rand p (min (rp_Base p * 2 ^ min (attempt - 1) 20) (rp_Max p))"
proof -
  let ?d = "rp_Base p * 2 ^ min (attempt - 1) 20"
  have "0 < ?d" using assms(1) by simp
  then have "(if ?d \<le> 0 \<or> rp_Max p < ?d then rp_Max p else ?d) = min ?d (rp_Max p)" by auto
  moreover have "retry_bounds p = (rp_Base p, rp_Max p)" using assms by (simp add: retry_bounds_def)
  moreover have "nat (min (max (int attempt - 1) 0) retryMaxShift) = min (attempt - 1) 20" by simp
  ultimately show ?thesis using doubling_exact [OF assms(1,2) min.cobounded2 [of "attempt - 1" 20]] by (simp only: Delay_def Let_def prod.case)
qed

lemma Delay_backoff:
  "Delay rand (snd (NewNotificationWorker cfg)) (int attempt) = spread rand (snd (NewNotificationWorker cfg)) (backoff cfg attempt)"
proof -
  have "rp_Base (snd (NewNotificationWorker cfg)) = wc_RetryBaseSeconds (Normalized cfg) * duration_second"
    "rp_Max (snd (NewNotificationWorker cfg)) = wc_RetryMaxSeconds (Normalized cfg) * duration_second"
    by (simp_all add: NewNotificationWorker_def Let_def)
  then show ?thesis using Delay_eq [of "snd (NewNotificationWorker cfg)" rand attempt] Normalized_bounds(6-8) [of cfg] by (simp add: backoff_def)
qed

lemma retryDelay_bounds:
  assumes "rand_in_range rand"
  shows "0 < retryDelay (fst (NewNotificationWorker cfg)) (snd (NewNotificationWorker cfg)) rand attempt e"
    and "retryDelay (fst (NewNotificationWorker cfg)) (snd (NewNotificationWorker cfg)) rand attempt e \<le> wc_RetryMaxSeconds (Normalized cfg) * duration_second"
    and "backoff cfg attempt div 2 \<le> retryDelay (fst (NewNotificationWorker cfg)) (snd (NewNotificationWorker cfg)) rand attempt e"
proof -
  have d: "backoff cfg attempt div 2 \<le> Delay rand (snd (NewNotificationWorker cfg)) (int attempt)"
      "Delay rand (snd (NewNotificationWorker cfg)) (int attempt) < backoff cfg attempt"
    using spread_bounds [OF assms, of "backoff cfg attempt"] backoff_bounds(1) [of cfg attempt] by (simp_all add: Delay_backoff)
  moreover have "0 < backoff cfg attempt div 2" using backoff_bounds(1) [of cfg attempt] by simp
  moreover have "wc_RetryMaxSeconds (fst (NewNotificationWorker cfg)) = wc_RetryMaxSeconds (Normalized cfg)" by (simp add: NewNotificationWorker_def Let_def)
  ultimately show "0 < retryDelay (fst (NewNotificationWorker cfg)) (snd (NewNotificationWorker cfg)) rand attempt e"
    "retryDelay (fst (NewNotificationWorker cfg)) (snd (NewNotificationWorker cfg)) rand attempt e \<le> wc_RetryMaxSeconds (Normalized cfg) * duration_second"
    "backoff cfg attempt div 2 \<le> retryDelay (fst (NewNotificationWorker cfg)) (snd (NewNotificationWorker cfg)) rand attempt e"
    using backoff_bounds(2) [of cfg attempt] by (auto simp: retryDelay_def Let_def)
qed

section \<open>The queue drains\<close>

text \<open>The claimable rows that a claim would take before a given one.\<close>

definition before :: "outbox_row \<Rightarrow> outbox_row \<Rightarrow> bool" where
  "before r q \<longleftrightarrow> claimable 20 q \<and> claim_key q < claim_key r"

definition ahead :: "outbox_row \<Rightarrow> ndb \<Rightarrow> nat" where
  "ahead r db = card {q \<in> set (nd_outbox db). before r q}"

text \<open>What waits for a worker: an event for its first attempt or the next one, and one whose worker has not reported.\<close>

definition waiting :: "outbox_row \<Rightarrow> bool" where
  "waiting r \<longleftrightarrow> or_Status r = StateEligible \<or> or_Status r = StateRetrying \<or> or_Status r = StateProcessing"

text \<open>What a step does to the rows: those it changes are no longer claimable or become available only now.\<close>

definition behind :: "go_time \<Rightarrow> outbox_row \<Rightarrow> bool" where
  "behind now q \<longleftrightarrow> \<not> claimable 20 q \<or> (case or_NextAttemptAt q of None \<Rightarrow> False | Some t \<Rightarrow> now \<le> t)"

definition moves_behind :: "go_time \<Rightarrow> ndb \<Rightarrow> ndb \<Rightarrow> (outbox_row \<Rightarrow> bool) \<Rightarrow> bool" where
  "moves_behind now db db' touched \<longleftrightarrow>
     (\<forall>q \<in> set (nd_outbox db'). q \<in> set (nd_outbox db) \<and> \<not> touched q \<or> behind now q) \<and>
     (\<forall>q \<in> set (nd_outbox db). \<not> touched q \<longrightarrow> q \<in> set (nd_outbox db'))"

lemma behind_not_before:
  assumes "behind now q" and "or_NextAttemptAt r = Some t" and "t < now"
  shows "\<not> before r q"
  using assms by (auto simp: behind_def before_def claim_key_def split: option.splits)

lemma moves_ahead:
  assumes "moves_behind now db db' touched" and "or_NextAttemptAt r = Some t" "t < now"
  shows "{q \<in> set (nd_outbox db'). before r q} \<subseteq> {q \<in> set (nd_outbox db). before r q \<and> \<not> touched q}"
  using assms behind_not_before [OF _ assms(2,3)] by (auto simp: moves_behind_def)

lemma update_moves:
  assumes "update_outbox p f db = Inr (n, db')" and "\<And>q. q \<in> set (nd_outbox db) \<Longrightarrow> p q \<Longrightarrow> behind now (f q)"
  shows "moves_behind now db db' p"
  using update_outbox_Inr(1) [OF assms(1)] assms(2) by (auto simp: moves_behind_def)

lemma unchanged_moves: "nd_outbox db' = nd_outbox db \<Longrightarrow> moves_behind now db db' (\<lambda>_. False)"
  by (simp add: moves_behind_def)

lemma append_moves: "nd_outbox db' = nd_outbox db @ new \<Longrightarrow> list_all fresh_row new \<Longrightarrow> moves_behind now db db' (\<lambda>_. False)"
  by (auto simp: moves_behind_def behind_def claimable_def list_all_iff fresh_row_def)

lemma finish_moves:
  assumes run: "recordOutcome (fst (NewNotificationWorker cfg)) (snd (NewNotificationWorker cfg)) rand now n err db = (res, Inr db')"
    and rand: "rand_in_range rand"
  shows "moves_behind now db db' (\<lambda>r. or_ID r = nt_ID n \<and> claimed_as (nt_Attempt n) r)"
proof -
  let ?p = "\<lambda>r. or_ID r = nt_ID n \<and> claimed_as (nt_Attempt n) r"
  have nonneg: "0 \<le> retryDelay (fst (NewNotificationWorker cfg)) (snd (NewNotificationWorker cfg)) rand (nt_Attempt n) e" for e
    using retryDelay_bounds(1) [OF rand, of cfg "nt_Attempt n" e] by simp
  have "\<exists>f. applyTransition (claimed_as (nt_Attempt n)) f (nt_ID n) db = Inr db' \<and> (\<forall>q. behind now (f q))"
    using run nonneg
    by (auto simp: recordOutcome_def MarkDelivered_def MarkFailed_def ScheduleRetry_def behind_def claimable_def Let_def
        intro!: exI split: option.splits prod.splits if_splits)
  then obtain f where f: "applyTransition (claimed_as (nt_Attempt n)) f (nt_ID n) db = Inr db'" "\<forall>q. behind now (f q)" by blast
  from f(1) obtain k where "update_outbox ?p f db = Inr (k, db')" by (rule applyTransition_Inr)
  then show "moves_behind now db db' ?p" using f(2) by (intro update_moves) auto
qed

lemma evaluate_moves:
  assumes run: "evaluateOne evaluator now event db = (result, db')"
  shows "\<exists>touched. moves_behind now db db' touched \<and> (\<forall>q. touched q \<longrightarrow> or_Status q = StatePending)"
proof (cases "db' = db")
  case True
  then show ?thesis using unchanged_moves [of db' db now] by blast
next
  case False
  then obtain state reason where "MarkEvaluated now (ev_ID event) state reason db = Inr db'"
    using run by (auto simp: evaluateOne_def Let_def split: sum.splits if_splits)
  then obtain n where upd: "update_outbox (\<lambda>r. or_ID r = ev_ID event \<and> or_Status r = ''pending'') (evaluation_update now state reason) db = Inr (n, db')"
    and state: "state = StateEligible \<or> state = StateSuppressed" by (rule MarkEvaluated_Inr)
  have "moves_behind now db db' (\<lambda>r. or_ID r = ev_ID event \<and> or_Status r = ''pending'')"
    using upd by (rule update_moves) (use state in \<open>auto simp: behind_def evaluation_update_def claimable_def\<close>)
  then show ?thesis by blast
qed

lemma claims_of_other:
  assumes "sy_claims s' = sy_claims s"
  shows "claims_of i s' = claims_of i s"
  using assms by (simp add: claims_of_def)

text \<open>
  The rows a step touches, and why: an evaluation needs a pending event; a report needs a claimed one and is recorded, a retirement
  ends it as failed; the cleanup of
  reminders withdraws an eligible reminder; and a claim leaves its mark in the history and only takes a reminder while it is wanted.
\<close>

definition has_status :: "string \<Rightarrow> string \<Rightarrow> system \<Rightarrow> bool" where
  "has_status i st s \<longleftrightarrow> (\<exists>q \<in> set (nd_outbox (sy_db s)). or_ID q = i \<and> or_Status q = st)"

definition settled :: "system \<Rightarrow> outbox_row \<Rightarrow> bool" where
  "settled s r \<longleftrightarrow>
     or_Status r = StateProcessing \<and> ((\<exists>res. (or_ID r, or_Attempts r, res) \<in> set (sy_outcomes s)) \<or> has_status (or_ID r) StateFailed s) \<or>
     or_Status r = StateEligible \<and> or_Kind r = EventTypeUrgentReminder \<and> has_status (or_ID r) StateSuppressed s"

definition touchable :: "system \<Rightarrow> system \<Rightarrow> outbox_row \<Rightarrow> bool" where
  "touchable s s' q \<longleftrightarrow> or_Status q = StatePending \<or> settled s' q \<or>
     length (claims_of (or_ID q) s) < length (claims_of (or_ID q) s') \<and>
       (or_Kind q \<noteq> EventTypeUrgentReminder \<or> reminderRecipientPending (sy_db s) q)"

definition step_shape :: "system \<Rightarrow> system \<Rightarrow> bool" where
  "step_shape s s' \<longleftrightarrow> sy_now s \<le> sy_now s' \<and> (\<forall>i. length (claims_of i s) \<le> length (claims_of i s')) \<and>
     (\<exists>touched. moves_behind (sy_now s) (sy_db s) (sy_db s') touched \<and>
        (\<forall>q \<in> set (nd_outbox (sy_db s)). touched q \<longrightarrow> touchable s s' q))"

lemma step_shapeI:
  assumes "sy_claims s' = sy_claims s" "sy_now s \<le> sy_now s'" "moves_behind (sy_now s) (sy_db s) (sy_db s') touched"
    and "\<And>q. q \<in> set (nd_outbox (sy_db s)) \<Longrightarrow> touched q \<Longrightarrow> or_Status q = StatePending \<or> settled s' q"
  shows "step_shape s s'"
  using assms claims_of_other [OF assms(1)] unfolding step_shape_def touchable_def by auto

lemma update_has_status:
  assumes "update_outbox p f (sy_db s) = Inr (n, sy_db s')" and "q \<in> set (nd_outbox (sy_db s))" and "p q" and "or_ID (f q) = or_ID q"
  shows "has_status (or_ID q) (or_Status (f q)) s'"
  using update_outbox_Inr(1) [OF assms(1)] assms(2-4) unfolding has_status_def by (intro bexI [of _ "f q"]) force+

lemma claim_shape:
  assumes ok: "system_ok s"
    and run: "ClaimDue held busy preview (sy_now s) (wc_BatchSize (Normalized cfg)) (wc_MaxAttempts (Normalized cfg)) (lease (Normalized cfg)) (sy_db s)
      = Inr (events, db')"
  shows "step_shape s (s\<lparr>sy_db := db', sy_claims := sy_claims s @ map (new_claim cfg (sy_now s)) events\<rparr>)" (is "step_shape s ?s'")
proof -
  let ?picked = "\<lambda>r. r \<in> set (claimed_rows held busy (sy_now s) (nat (wc_BatchSize (Normalized cfg))) (nat (wc_MaxAttempts (Normalized cfg))) (sy_db s))"
  note rows = claim_rows [OF system_okD(1) [OF ok] run]
  have "0 \<le> lease (Normalized cfg)" using Normalized_bounds(5) [of cfg] by (simp add: lease_def)
  then have m: "moves_behind (sy_now s) (sy_db s) (sy_db ?s') ?picked"
    using rows(1) by (auto simp: moves_behind_def behind_def claim_update_def)
  have "touchable s ?s' q" if "q \<in> set (nd_outbox (sy_db s))" "?picked q" for q
    using rows(3) [OF that(1)] that(2) claimed_rows_due(2) [OF that(2)]
    by (auto simp: touchable_def due_row_def ReminderRecipientPendingForClaim_def)
  then show ?thesis using m unfolding step_shape_def by (auto simp: claims_of_def)
qed

lemma step_shape:
  assumes "outbox_step s s'" and ok: "system_ok s"
  shows "step_shape s s'"
  using assms(1)
proof (rule outbox_stepE, goal_cases)
  case (1 t)
  then show ?case using unchanged_moves [of "sy_db s'" "sy_db s"] by (intro step_shapeI [of _ _ "\<lambda>_. False"]) auto
next
  case (2 db')
  then show ?case using append_moves by (intro step_shapeI [of _ _ "\<lambda>_. False"]) (auto simp: world_may_def)
next
  case (3 evaluator event result db')
  from evaluate_moves [OF this(2)] obtain touched where "moves_behind (sy_now s) (sy_db s) db' touched" "\<forall>q. touched q \<longrightarrow> or_Status q = StatePending" by blast
  then show ?case using 3(1) by (intro step_shapeI [of _ _ touched]) auto
next
  case (4 cfg held busy preview events db')
  then show ?case using claim_shape [OF ok] by blast
next
  case (5 rand c n cfg err result db')
  show ?case
    using finish_moves [OF 5(6,2)] 5(1,4,5)
    by (intro step_shapeI [of _ _ "\<lambda>r. or_ID r = nt_ID n \<and> claimed_as (nt_Attempt n) r"]) (auto simp: settled_def claimed_as_def)
next
  case (6 cfg k db')
  let ?p = "\<lambda>r. or_Status r = ''processing'' \<and> nat (wc_MaxAttempts (Normalized cfg)) \<le> or_Attempts r \<and> available_at (sy_now s) r"
  have "\<not> wc_MaxAttempts (Normalized cfg) \<le> 0" using Normalized_bounds(3) [of cfg] by simp
  note upd = 6(2) [unfolded FailExhausted_def if_not_P [OF this]]
  have "moves_behind (sy_now s) (sy_db s) db' ?p" using upd by (rule update_moves) (auto simp: behind_def claimable_def)
  moreover have "settled s' q" if "q \<in> set (nd_outbox (sy_db s))" "?p q" for q
    using update_has_status [of ?p _ s _ s' q] upd that 6(1) by (fastforce simp: settled_def)
  ultimately show ?case using 6(1) by (intro step_shapeI [of _ _ ?p]) auto
next
  case (7 gen busy wall cfg res db')
  have "\<exists>new. nd_outbox db' = nd_outbox (sy_db s) @ new \<and> list_all fresh_row new"
  proof (cases "IsZero wall")
    case False
    let ?row = "\<lambda>a. reminder_row gen (sy_now s) a (the (reminder_message (sy_db s) a))"
    have "nd_outbox db' = fold (\<lambda>a. insert_unless_known (?row a)) (due_reminders busy wall (nat (wc_BatchSize (Normalized cfg))) (sy_db s)) (nd_outbox (sy_db s))"
      using 7(4) False Normalized_bounds(1) [of cfg] by (auto simp: ScheduleDueReminders_def Let_def)
    moreover have "fresh_row (?row a)" for a using 7(2) by (simp add: fresh_row_def reminder_row_def generates_fresh_def)
    ultimately show ?thesis
      using insert_rows [of ?row "due_reminders busy wall (nat (wc_BatchSize (Normalized cfg))) (sy_db s)" "nd_outbox (sy_db s)"]
      by (fastforce simp: list_all_iff)
  qed (use 7(4) Normalized_bounds(1) [of cfg] in \<open>auto simp: ScheduleDueReminders_def\<close>)
  then show ?case using 7(1) append_moves by (intro step_shapeI [of _ _ "\<lambda>_. False"]) auto
next
  case (8 k db')
  let ?p = "\<lambda>r. or_Kind r = EventTypeUrgentReminder \<and> (or_Status r = ''pending'' \<or> or_Status r = ''eligible'') \<and> \<not> reminderRecipientPending (sy_db s) r"
  note upd = 8(2) [unfolded SuppressResolvedReminders_def]
  have "moves_behind (sy_now s) (sy_db s) db' ?p" using upd by (rule update_moves) (auto simp: behind_def claimable_def)
  moreover have "or_Status q = StatePending \<or> settled s' q" if "q \<in> set (nd_outbox (sy_db s))" "?p q" for q
    using update_has_status [of ?p _ s _ s' q] upd that 8(1) by (fastforce simp: settled_def)
  ultimately show ?case using 8(1) by (intro step_shapeI [of _ _ ?p]) auto
qed

text \<open>What is settled stays settled: outcomes are only added, and a failed or suppressed event is not touched again.\<close>

lemma step_has_status:
  assumes shape: "step_shape s s'" and "has_status i st s" and "st = StateFailed \<or> st = StateSuppressed"
  shows "has_status i st s' \<or> length (claims_of i s) < length (claims_of i s')"
proof -
  obtain q where q: "q \<in> set (nd_outbox (sy_db s))" "or_ID q = i" "or_Status q = st" using assms(2) by (auto simp: has_status_def)
  from shape obtain touched where m: "moves_behind (sy_now s) (sy_db s) (sy_db s') touched" and t: "touched q \<Longrightarrow> touchable s s' q"
    using q(1) unfolding step_shape_def by blast
  show ?thesis
  proof (cases "touched q")
    case True
    then show ?thesis using t assms(3) q by (auto simp: touchable_def settled_def)
  next
    case False
    then have "q \<in> set (nd_outbox (sy_db s'))" using m q(1) by (simp add: moves_behind_def)
    then show ?thesis using q unfolding has_status_def by blast
  qed
qed

lemma step_settled:
  assumes "outbox_step s s'" and "system_ok s" and "settled s r"
  shows "settled s' r \<or> length (claims_of (or_ID r) s) < length (claims_of (or_ID r) s')"
proof -
  have "set (sy_outcomes s) \<subseteq> set (sy_outcomes s')" using assms(1) by cases auto
  then show ?thesis using assms(3) step_has_status [OF step_shape [OF assms(1,2)]] unfolding settled_def by blast
qed

text \<open>Every step leaves a waiting event alone, claims it or settles it, and lets nothing in before it.\<close>

lemma step_queue:
  assumes "outbox_step s s'" and ok: "system_ok s" and r: "r \<in> set (nd_outbox (sy_db s))" "waiting r" "or_NextAttemptAt r = Some t" "t < sy_now s"
  shows "(length (claims_of (or_ID r) s) < length (claims_of (or_ID r) s') \<or> settled s' r \<or>
      r \<in> set (nd_outbox (sy_db s')) \<and> {q \<in> set (nd_outbox (sy_db s')). before r q} \<subseteq> {q \<in> set (nd_outbox (sy_db s)). before r q}) \<and>
    length (claims_of (or_ID r) s) \<le> length (claims_of (or_ID r) s') \<and> sy_now s \<le> sy_now s'"
proof -
  from step_shape [OF assms(1) ok] obtain touched where m: "moves_behind (sy_now s) (sy_db s) (sy_db s') touched"
    and "touched r \<Longrightarrow> touchable s s' r" and grows: "length (claims_of (or_ID r) s) \<le> length (claims_of (or_ID r) s')" "sy_now s \<le> sy_now s'"
    using r(1) unfolding step_shape_def by blast
  then have "touched r \<Longrightarrow> length (claims_of (or_ID r) s) < length (claims_of (or_ID r) s') \<or> settled s' r" using r(2) by (auto simp: touchable_def waiting_def)
  then show ?thesis using moves_ahead [OF m r(3,4)] m r(1) grows by (auto simp: moves_behind_def)
qed

text \<open>A claim that does not reach a row that is due fills its batch with rows before it.\<close>

lemma claim_fills:
  assumes ids: "distinct (map or_ID (nd_outbox db))" and r: "r \<in> set (nd_outbox db)" "due_row busy now m db r" "\<not> held (or_ID r)"
    and unpicked: "r \<notin> set (claimed_rows held busy now batch m db)" and "m \<le> 20"
  shows "set (claimed_rows held busy now batch m db) \<subseteq> {q \<in> set (nd_outbox db). before r q}" (is ?sub)
    and "card (set (claimed_rows held busy now batch m db)) = batch"
proof -
  let ?due = "filter (\<lambda>r. due_row busy now m db r \<and> \<not> held (or_ID r)) (nd_outbox db)"
  let ?q = "sort_key claim_key ?due"
  have "distinct (nd_outbox db)" using ids by (simp add: distinct_map)
  then have distinct: "distinct ?q" by simp
  have "r \<in> set ?q" using r by simp
  then have "r \<in> set (take batch ?q) \<or> r \<in> set (drop batch ?q)" by (metis append_take_drop_id Un_iff set_append)
  then have late: "r \<in> set (drop batch ?q)" using unpicked by (simp add: claimed_rows_def)
  then have "batch \<le> length ?q" by (cases "batch \<le> length ?q") auto
  then show "card (set (claimed_rows held busy now batch m db)) = batch"
    using distinct unfolding claimed_rows_def by (simp add: distinct_card)
  show ?sub
  proof
    fix q assume q: "q \<in> set (claimed_rows held busy now batch m db)"
    have "sorted (map claim_key (take batch ?q @ drop batch ?q))" by simp
    then have "claim_key q \<le> claim_key r" using q late unfolding claimed_rows_def by (simp only: map_append sorted_append) auto
    moreover have "or_ID q \<noteq> or_ID r"
      using same_row [OF ids claimed_rows_due(1) [OF q] r(1)] q unpicked by auto
    then have "claim_key q \<noteq> claim_key r" by (simp add: claim_key_def)
    ultimately have "claim_key q < claim_key r" by simp
    moreover have "claimable 20 q" using claimed_rows_due(2) [OF q] assms(6) by (auto simp: due_row_def claimable_def)
    ultimately show "q \<in> {q \<in> set (nd_outbox db). before r q}" using claimed_rows_due(1) [OF q] by (simp add: before_def)
  qed
qed

text \<open>
  A run of the system in which \<open>n\<close> of the claims were made by workers that could have taken the event: it has attempts left for
  them, no other transaction holds its row, and for a reminder its recipient's request is pending and not held either.
\<close>

inductive queue_run :: "outbox_row \<Rightarrow> system \<Rightarrow> nat \<Rightarrow> system \<Rightarrow> bool" for r s where
  Start: "queue_run r s 0 s"
| Step: "queue_run r s n s' \<Longrightarrow> outbox_step s' s'' \<Longrightarrow> queue_run r s n s''"
| Claimed: "queue_run r s n s' \<Longrightarrow> LeaseCoversProcessing cfg \<Longrightarrow> or_Attempts r < nat (wc_MaxAttempts (Normalized cfg)) \<Longrightarrow> \<not> held (or_ID r) \<Longrightarrow>
    or_Kind r \<noteq> EventTypeUrgentReminder \<or> ReminderRecipientPendingForClaim busy (sy_db s') r \<Longrightarrow>
    ClaimDue held busy preview (sy_now s') (wc_BatchSize (Normalized cfg)) (wc_MaxAttempts (Normalized cfg)) (lease (Normalized cfg)) (sy_db s')
      = Inr (events, db') \<Longrightarrow>
    queue_run r s (Suc n) (s'\<lparr>sy_db := db', sy_claims := sy_claims s' @ map (new_claim cfg (sy_now s')) events\<rparr>)"

lemma claim_progress:
  assumes ok: "system_ok s" and r: "r \<in> set (nd_outbox (sy_db s))" "waiting r" "or_NextAttemptAt r = Some t" "t < sy_now s"
    and "or_Attempts r < nat (wc_MaxAttempts (Normalized cfg))" and "\<not> held (or_ID r)"
    and wanted: "or_Kind r \<noteq> EventTypeUrgentReminder \<or> ReminderRecipientPendingForClaim busy (sy_db s) r"
    and run: "ClaimDue held busy preview (sy_now s) (wc_BatchSize (Normalized cfg)) (wc_MaxAttempts (Normalized cfg)) (lease (Normalized cfg)) (sy_db s)
      = Inr (events, db')"
  defines "s' \<equiv> s\<lparr>sy_db := db', sy_claims := sy_claims s @ map (new_claim cfg (sy_now s)) events\<rparr>"
  shows "length (claims_of (or_ID r) s) < length (claims_of (or_ID r) s') \<or>
    r \<in> set (nd_outbox (sy_db s')) \<and> ahead r (sy_db s') < ahead r (sy_db s)"
proof -
  let ?taken = "set (claimed_rows held busy (sy_now s) (nat (wc_BatchSize (Normalized cfg))) (nat (wc_MaxAttempts (Normalized cfg))) (sy_db s))"
  let ?B = "{q \<in> set (nd_outbox (sy_db s)). before r q}"
  note ids = system_okD(1) [OF ok]
  note rows = claim_rows [OF ids run]
  have due: "due_row busy (sy_now s) (nat (wc_MaxAttempts (Normalized cfg))) (sy_db s) r"
    using r assms(6) wanted by (auto simp: due_row_def waiting_def claimable_def available_at_def)
  show ?thesis
  proof (cases "r \<in> ?taken")
    case True
    then show ?thesis using rows(3) [OF r(1)] by (simp add: s'_def)
  next
    case False
    have m: "nat (wc_MaxAttempts (Normalized cfg)) \<le> 20" and batch: "0 < nat (wc_BatchSize (Normalized cfg))" using Normalized_bounds [of cfg] by simp_all
    note fills = claim_fills [OF ids r(1) due assms(7) False m]
    have "0 \<le> lease (Normalized cfg)" using Normalized_bounds(5) [of cfg] by (simp add: lease_def)
    then have moves: "moves_behind (sy_now s) (sy_db s) db' (\<lambda>q. q \<in> ?taken)" using rows(1) by (auto simp: moves_behind_def behind_def claim_update_def)
    have "{q \<in> set (nd_outbox db'). before r q} \<subseteq> ?B - ?taken" using moves_ahead [OF moves r(3,4)] by auto
    then have "ahead r db' \<le> card (?B - ?taken)" unfolding ahead_def by (intro card_mono) auto
    also have "\<dots> = card ?B - card ?taken" using fills(1) by (intro card_Diff_subset) (auto intro: finite_subset)
    also have "\<dots> < card ?B" using fills batch card_mono [OF _ fills(1)] by simp
    finally have "ahead r db' < ahead r (sy_db s)" by (simp add: ahead_def)
    moreover have "r \<in> set (nd_outbox db')" using moves r(1) False by (simp add: moves_behind_def)
    ultimately show ?thesis by (simp add: s'_def)
  qed
qed

lemma queue_run_reaches: "queue_run r s n s' \<Longrightarrow> outbox_step\<^sup>*\<^sup>* s s'"
proof (induction rule: queue_run.induct)
  case (Claimed n s' cfg held busy preview events db')
  show ?case by (rule rtranclp.rtrancl_into_rtrancl [OF Claimed(7) outbox_step.Claim [OF Claimed(2,6)]])
qed auto

text \<open>
  Claim C11. A due event is not starved. Whatever else the workers and the rest of the system do meanwhile, an event that
  is due, whether it waits for its first attempt or for the next one or its worker's lease ran out without a report, is
  claimed once the claims made by workers that may take it outnumber the claimable events that were
  before it in the queue: nothing that becomes available later overtakes it. Only two things may come first: the late worker
  still reports, or a worker whose limit it has reached retires it; and an eligible reminder is withdrawn when its recipient answered.
\<close>

theorem due_not_starved:
  assumes "initial_system s0" and "outbox_step\<^sup>*\<^sup>* s0 s"
    and r: "r \<in> set (nd_outbox (sy_db s))" "waiting r" "or_NextAttemptAt r = Some t" "t < sy_now s"
    and run: "queue_run r s n s'" and "ahead r (sy_db s) < n"
  shows "length (claims_of (or_ID r) s) < length (claims_of (or_ID r) s') \<or>
    or_Status r = StateProcessing \<and> ((\<exists>res. (or_ID r, or_Attempts r, res) \<in> set (sy_outcomes s')) \<or> has_status (or_ID r) StateFailed s') \<or>
    or_Status r = StateEligible \<and> or_Kind r = EventTypeUrgentReminder \<and> has_status (or_ID r) StateSuppressed s'"
proof -
  let ?gone = "\<lambda>s'. length (claims_of (or_ID r) s) < length (claims_of (or_ID r) s') \<or> settled s' r"
  have "sy_now s \<le> sy_now s' \<and> length (claims_of (or_ID r) s) \<le> length (claims_of (or_ID r) s') \<and>
    (?gone s' \<or> r \<in> set (nd_outbox (sy_db s')) \<and> ahead r (sy_db s') + n \<le> ahead r (sy_db s))"
    using run
  proof (induction rule: queue_run.induct)
    case (Step n s' s'')
    have ok: "system_ok s'" using assms(1,2) queue_run_reaches [OF Step(1)] by (meson reachable_ok rtranclp_trans)
    have grows: "sy_now s' \<le> sy_now s'' \<and> length (claims_of (or_ID r) s') \<le> length (claims_of (or_ID r) s'')"
      using Step(2) by cases (auto simp: claims_of_def)
    show ?case
    proof (cases "?gone s'")
      case True
      with step_settled [OF Step(2) ok, of r] grows Step show ?thesis by auto
    next
      case False
      with Step have in': "r \<in> set (nd_outbox (sy_db s'))" "ahead r (sy_db s') + n \<le> ahead r (sy_db s)" "t < sy_now s'" using r(4) by auto
      from step_queue [OF Step(2) ok in'(1) r(2,3) in'(3)] show ?thesis
        using Step in'(2) card_mono [of "{q \<in> set (nd_outbox (sy_db s')). before r q}" "{q \<in> set (nd_outbox (sy_db s'')). before r q}"]
        by (auto simp: ahead_def)
    qed
  next
    case (Claimed n s' cfg held busy preview events db')
    have ok: "system_ok s'" using assms(1,2) queue_run_reaches [OF Claimed(1)] by (meson reachable_ok rtranclp_trans)
    let ?s = "s'\<lparr>sy_db := db', sy_claims := sy_claims s' @ map (new_claim cfg (sy_now s')) events\<rparr>"
    have grows: "length (claims_of (or_ID r) s') \<le> length (claims_of (or_ID r) ?s)" by (simp add: claims_of_def)
    show ?case
    proof (cases "?gone s'")
      case True
      with step_settled [OF outbox_step.Claim [OF Claimed(2,6)] ok, of r] grows Claimed(7) show ?thesis by auto
    next
      case False
      with Claimed have in': "r \<in> set (nd_outbox (sy_db s'))" "ahead r (sy_db s') + n \<le> ahead r (sy_db s)" "t < sy_now s'" using r(4) by auto
      from claim_progress [OF ok in'(1) r(2,3) in'(3) Claimed(3-6)] show ?thesis using in'(2) Claimed grows by auto
    qed
  qed (use r in simp)
  with assms(8) show ?thesis unfolding settled_def by auto
qed

section \<open>A reminder whose recipient answered\<close>

text \<open>
  Claim C39. A reminder that failed once and whose recipient then answered stays in the backlog for ever. Once it waits for
  another attempt and its recipient is no longer pending, no step claims it, suppresses it or fails it while that remains so:
  the claim requires a pending recipient and the cleanup of resolved reminders looks only at pending and eligible events.
\<close>

theorem answered_retry_stranded:
  assumes "initial_system s0" and "outbox_step\<^sup>*\<^sup>* s0 s"
    and r: "r \<in> set (nd_outbox (sy_db s))" "or_Kind r = EventTypeUrgentReminder" "or_Status r = StateRetrying" "\<not> reminderRecipientPending (sy_db s) r"
    and "(\<lambda>s s'. outbox_step s s' \<and> \<not> reminderRecipientPending (sy_db s') r)\<^sup>*\<^sup>* s s'"
  shows "r \<in> set (nd_outbox (sy_db s')) \<and> 0 < Backlog (sy_db s')"
proof -
  have "r \<in> set (nd_outbox (sy_db s')) \<and> outbox_step\<^sup>*\<^sup>* s0 s' \<and> \<not> reminderRecipientPending (sy_db s') r"
    using assms(7)
  proof (induction rule: rtranclp_induct)
    case (step s' s'')
    then have "system_ok s'" using reachable_ok assms(1) by blast
    then obtain touched where m: "moves_behind (sy_now s') (sy_db s') (sy_db s'') touched" and "touched r \<Longrightarrow> touchable s' s'' r"
      using step_shape step unfolding step_shape_def by blast
    then have "\<not> touched r" using r(2,3) step by (auto simp: touchable_def settled_def)
    then have "r \<in> set (nd_outbox (sy_db s''))" using m step by (simp add: moves_behind_def)
    then show ?case using step by (meson rtranclp.rtrancl_into_rtrancl)
  qed (use assms r in simp)
  moreover from this have "filter (\<lambda>r. or_Status r = ''pending'' \<or> or_Status r = ''eligible'' \<or> or_Status r = ''retrying'') (nd_outbox (sy_db s')) \<noteq> []"
    using r(3) by (auto simp: filter_empty_conv)
  ultimately show ?thesis by (simp add: Backlog_def)
qed

section \<open>The table's guards\<close>

lemma rune_count_pos: "s \<noteq> [] \<Longrightarrow> 1 \<le> RuneCountInString s"
  by (cases s) (auto simp: RuneCountInString_def go_runes_def decode_runes.simps Let_def Suc_le_eq split: prod.splits)

lemma update_accepted:
  assumes "\<And>r. r \<in> set (nd_outbox db) \<Longrightarrow> p r \<Longrightarrow> enforce_notification_outbox_transition r (f r) \<and> suppressed_reason_check (f r)"
  shows "update_outbox p f db = Inr (length (filter p (nd_outbox db)), db\<lparr>nd_outbox := map (\<lambda>r. if p r then f r else r) (nd_outbox db)\<rparr>)"
  using assms by (simp add: update_outbox_def list_all_iff)

definition recordable :: "string \<Rightarrow> string \<Rightarrow> bool" where
  "recordable state reason \<longleftrightarrow> (state = StateEligible \<and> reason = '''') \<or> (state = StateSuppressed \<and> reason \<noteq> '''' \<and> length reason \<le> 200)"

lemma MarkEvaluated_accepted:
  assumes "i \<noteq> ''''" and rec: "recordable state reason"
  shows "MarkEvaluated now i state reason db =
    (if filter (\<lambda>r. or_ID r = i \<and> or_Status r = ''pending'') (nd_outbox db) = [] then Inl ErrNotificationStateConflict
     else Inr (db\<lparr>nd_outbox := map (\<lambda>r. if or_ID r = i \<and> or_Status r = ''pending'' then evaluation_update now state reason r else r) (nd_outbox db)\<rparr>))"
proof -
  let ?p = "\<lambda>r. or_ID r = i \<and> or_Status r = ''pending''" and ?f = "evaluation_update now state reason"
  have "State_CanTransitionTo StatePending state" and "ValidateSuppressedReason state reason = Inr ()"
    using rec by (auto simp: recordable_def State_CanTransitionTo_iff ValidateSuppressedReason_def)
  then have "MarkEvaluated now i state reason db = applyTransition (\<lambda>r. or_Status r = ''pending'') ?f i db"
    by (simp add: MarkEvaluated_def evaluation_update_def [abs_def])
  moreover have "update_outbox ?p ?f db = Inr (length (filter ?p (nd_outbox db)), db\<lparr>nd_outbox := map (\<lambda>r. if ?p r then ?f r else r) (nd_outbox db)\<rparr>)"
  proof (rule update_accepted)
    fix r :: outbox_row assume "?p r"
    then show "enforce_notification_outbox_transition r (?f r) \<and> suppressed_reason_check (?f r)"
      using rec rune_count_pos [of reason] RuneCountInString_le [of reason]
      by (auto simp: recordable_def enforce_notification_outbox_transition_def suppressed_reason_check_def evaluation_update_def)
  qed
  ultimately show ?thesis using assms(1) by (simp add: applyTransition_def)
qed

definition wanted :: "go_time \<Rightarrow> ndb \<Rightarrow> outbox_row \<Rightarrow> bool" where
  "wanted now db r \<longleftrightarrow> or_Origin r = OriginLive \<and> or_Kind r \<noteq> EventTypeReaction \<and> \<not> doNotDisturbProjection now db r \<and> \<not> mutedProjection db r \<and>
     \<not> (levelProjection db r = ConversationLevelMentionsReplies \<and> or_Kind r \<in> {EventTypeChannelMessage, EventTypeDirectMessage})"

lemma worker_verdict:
  assumes "policyVerdict (Policy_Evaluate (policyContext (notificationFrom (notificationColumns now db p r)))) = v"
  shows "vd_Deliver v \<longleftrightarrow> wanted now db r" and "recordable (if vd_Deliver v then StateEligible else StateSuppressed) (Verdict_Reason v)"
proof -
  let ?c = "policyContext (notificationFrom (notificationColumns now db p r))"
  have chans: "dec_Channels (Policy_Evaluate ?c) = \<lparr>ch_InApp = False, ch_Sound = False, ch_WebPush = wanted now db r\<rparr>"
    unfolding decision_channels
    by (auto simp: interruption_allowed_def policyContext_def notificationFrom_def notificationColumns_def wanted_def)
  then show deliver: "vd_Deliver v \<longleftrightarrow> wanted now db r" using assms by (auto simp: policyVerdict_def)
  have "ValidateSuppressedReason (if Suppressed (Policy_Evaluate ?c) then StateSuppressed else StateEligible) (SuppressedReason (Policy_Evaluate ?c)) = Inr ()"
    by (rule SuppressedReason_recorded)
  moreover have "Suppressed (Policy_Evaluate ?c) \<longleftrightarrow> \<not> wanted now db r" by (simp add: Suppressed_def Eligible_def chans)
  ultimately show "recordable (if vd_Deliver v then StateEligible else StateSuppressed) (Verdict_Reason v)"
    using assms deliver by (auto simp: recordable_def Verdict_Reason_def policyVerdict_def ValidateSuppressedReason_def split: if_splits)
qed

text \<open>
  Claim C28. An event is decided by the preferences in force when its batch was read. The worker's evaluation of a pending
  event makes it available for delivery at once if it is live, not a reaction, its recipient is not in do not disturb, has
  not muted the conversation and has not restricted it to mentions and replies where the event is an ordinary message;
  otherwise it is suppressed with a reason. It succeeds, and changes no other event.
\<close>

theorem evaluation_follows_preferences:
  assumes "initial_system s0" and "outbox_step\<^sup>*\<^sup>* s0 s" and r: "r \<in> set (nd_outbox (sy_db s))" "or_Status r = StatePending"
  shows "\<exists>reason. evaluateOne NewPolicyEvaluator now (notificationColumns t db p r) (sy_db s) =
      (if wanted t db r then resultEligible else resultSuppressed,
       (sy_db s)\<lparr>nd_outbox := map (\<lambda>q. if q = r then
          (if wanted t db r then r\<lparr>or_Status := StateEligible, or_NextAttemptAt := Some now, or_UpdatedAt := now\<rparr>
           else r\<lparr>or_Status := StateSuppressed, or_SuppressedReason := Some reason, or_ProcessedAt := Some now, or_UpdatedAt := now\<rparr>)
          else q) (nd_outbox (sy_db s))\<rparr>)"
proof -
  let ?e = "notificationColumns t db p r" and ?old = "nd_outbox (sy_db s)"
  define v where "v = policyVerdict (Policy_Evaluate (policyContext (notificationFrom ?e)))"
  let ?st = "if vd_Deliver v then StateEligible else StateSuppressed"
  note verdict = worker_verdict [OF v_def [symmetric]]
  note ok = reachable_ok [OF assms(2,1)]
  have shape: "row_shape r" using system_okD(2) [OF ok r(1)] by blast
  then have id: "or_ID r \<noteq> ''''" and none: "or_SuppressedReason r = None" using r(2) by (auto simp: row_shape_def suppressed_reason_check_def)
  have same: "or_ID q = or_ID r \<and> or_Status q = ''pending'' \<longleftrightarrow> q = r" if "q \<in> set ?old" for q
    using same_row [OF system_okD(1) [OF ok] that r(1)] r(2) by blast
  have "filter (\<lambda>q. or_ID q = or_ID r \<and> or_Status q = ''pending'') ?old \<noteq> []" using r by (auto simp: filter_empty_conv)
  then have "MarkEvaluated now (or_ID r) ?st (Verdict_Reason v) (sy_db s) =
      Inr ((sy_db s)\<lparr>nd_outbox := map (\<lambda>q. if or_ID q = or_ID r \<and> or_Status q = ''pending'' then evaluation_update now ?st (Verdict_Reason v) q else q) ?old\<rparr>)"
    using MarkEvaluated_accepted [OF id verdict(2)] by simp
  also have "map (\<lambda>q. if or_ID q = or_ID r \<and> or_Status q = ''pending'' then evaluation_update now ?st (Verdict_Reason v) q else q) ?old =
      map (\<lambda>q. if q = r then evaluation_update now ?st (Verdict_Reason v) r else q) ?old"
    using same by (intro map_cong refl) auto
  finally have mark: "MarkEvaluated now (or_ID r) ?st (Verdict_Reason v) (sy_db s) =
      Inr ((sy_db s)\<lparr>nd_outbox := map (\<lambda>q. if q = r then evaluation_update now ?st (Verdict_Reason v) r else q) ?old\<rparr>)" .
  have ev: "ev_ID ?e = or_ID r" "NewPolicyEvaluator (notificationFrom ?e) = Inr v" by (simp_all add: notificationColumns_def NewPolicyEvaluator_def v_def)
  have "Verdict_Reason v = '''' \<longleftrightarrow> wanted t db r" using verdict by (auto simp: recordable_def split: if_splits)
  then show ?thesis using mark verdict(1) ev none
    by (intro exI [of _ "Verdict_Reason v"]) (auto simp: evaluateOne_def evaluation_update_def)
qed

lemma applyTransition_accepted:
  assumes "\<And>r. r \<in> set (nd_outbox db) \<Longrightarrow> p r \<Longrightarrow> enforce_notification_outbox_transition r (f r) \<and> suppressed_reason_check (f r)" and "i \<noteq> ''''"
  shows "applyTransition p f i db \<in> range Inr \<union> {Inl ErrNotificationStateConflict}"
  using update_accepted [of db "\<lambda>r. or_ID r = i \<and> p r" f] assms by (auto simp: applyTransition_def)

lemma claimed_ends:
  assumes "row_shape r" and "claimed_as n r" and "or_Status r' \<in> {StateSent, StateRetrying, StateFailed}" and "or_SuppressedReason r' = or_SuppressedReason r"
  shows "enforce_notification_outbox_transition r r' \<and> suppressed_reason_check r'"
  using assms by (auto simp: row_shape_def claimed_as_def enforce_notification_outbox_transition_def suppressed_reason_check_def)

text \<open>
  The state machine in the database never has to refuse the worker. In every reachable system the trigger and the
  check constraint accept every statement: claiming, retiring and suppressing always succeed, and reporting an outcome either
  succeeds or finds that the claim is no longer held.
\<close>

theorem guards_never_fire:
  assumes "initial_system s0" and "outbox_step\<^sup>*\<^sup>* s0 s"
  shows "ClaimDue held busy preview now batch m l (sy_db s) \<in> range Inr \<and> FailExhausted now m (sy_db s) \<in> range Inr \<and>
    SuppressResolvedReminders now (sy_db s) \<in> range Inr \<and>
    (nt_ID n \<noteq> '''' \<longrightarrow> snd (recordOutcome cfg retry rand now n err (sy_db s)) \<in> range Inr \<union> {Inl ErrNotificationStateConflict})"
proof (intro conjI impI)
  note ok = reachable_ok [OF assms(2,1)]
  have shape: "row_shape r" if "r \<in> set (nd_outbox (sy_db s))" for r using system_okD(2) [OF ok that] by blast
  show "ClaimDue held busy preview now batch m l (sy_db s) \<in> range Inr"
  proof (cases "batch \<le> 0 \<or> m \<le> 0")
    case False
    let ?p = "\<lambda>r. or_ID r \<in> set (map or_ID (claimed_rows held busy now (nat batch) (nat m) (sy_db s)))"
    have "enforce_notification_outbox_transition r (claim_update now l r) \<and> suppressed_reason_check (claim_update now l r)"
      if r: "r \<in> set (nd_outbox (sy_db s))" "?p r" for r
    proof -
      obtain q where q: "q \<in> set (claimed_rows held busy now (nat batch) (nat m) (sy_db s))" "or_ID r = or_ID q" using r(2) by auto
      then have "r = q" using same_row [OF system_okD(1) [OF ok] r(1) claimed_rows_due(1) [OF q(1)]] by simp
      then have "claimable (nat m) r" using claimed_rows_due(2) [OF q(1)] by (simp add: due_row_def)
      then show ?thesis using shape [OF r(1)]
        by (auto simp: row_shape_def claimable_def enforce_notification_outbox_transition_def suppressed_reason_check_def claim_update_def)
    qed
    then show ?thesis using update_accepted [of "sy_db s" ?p "claim_update now l"] False by (simp add: ClaimDue_def Let_def)
  qed (simp add: ClaimDue_def)
  show "FailExhausted now m (sy_db s) \<in> range Inr"
  proof (cases "m \<le> 0")
    case False
    show ?thesis unfolding FailExhausted_def if_not_P [OF False]
    proof (subst update_accepted)
      fix r assume "r \<in> set (nd_outbox (sy_db s))" and "or_Status r = ''processing'' \<and> nat m \<le> or_Attempts r \<and> available_at now r"
      then show "enforce_notification_outbox_transition r (r\<lparr>or_Status := ''failed'', or_ProcessedAt := Some now, or_NextAttemptAt := None,
            or_LastError := Some ''attempts_exhausted'', or_UpdatedAt := now\<rparr>) \<and>
          suppressed_reason_check (r\<lparr>or_Status := ''failed'', or_ProcessedAt := Some now, or_NextAttemptAt := None,
            or_LastError := Some ''attempts_exhausted'', or_UpdatedAt := now\<rparr>)"
        by (intro claimed_ends [OF shape, of _ "or_Attempts r"]) (simp_all add: claimed_as_def)
    qed simp
  qed (simp add: FailExhausted_def)
  have "1 \<le> RuneCountInString ''recipient_resolved'' \<and> RuneCountInString ''recipient_resolved'' \<le> 200" by code_simp
  then show "SuppressResolvedReminders now (sy_db s) \<in> range Inr"
    unfolding SuppressResolvedReminders_def
    by (subst update_accepted) (auto simp: enforce_notification_outbox_transition_def suppressed_reason_check_def suppressResolvedRemindersReason_def)
  assume "nt_ID n \<noteq> ''''"
  then have "applyTransition (claimed_as (nt_Attempt n)) f (nt_ID n) (sy_db s) \<in> range Inr \<union> {Inl ErrNotificationStateConflict}"
    if "\<And>r. or_Status (f r) \<in> {StateSent, StateRetrying, StateFailed} \<and> or_SuppressedReason (f r) = or_SuppressedReason r" for f
    using claimed_ends shape that by (intro applyTransition_accepted) blast+
  then show "snd (recordOutcome cfg retry rand now n err (sy_db s)) \<in> range Inr \<union> {Inl ErrNotificationStateConflict}"
    by (auto simp: recordOutcome_def MarkDelivered_def MarkFailed_def ScheduleRetry_def Let_def split: option.split prod.split)
qed

section \<open>Examples\<close>

theorem guards_never_fire_witness: "FailExhausted 5 6 (sy_db example_first) \<in> range Inr"
  using guards_never_fire [OF example_start_reachable(1) example_reachable(2)] by blast

text \<open>The event of the example as an ordinary mention, waiting and due.\<close>

definition example_mention :: outbox_row where
  "example_mention = example_eligible\<lparr>or_Kind := EventTypeMention\<rparr>"

lemma example_mention_steps:
  "outbox_step\<^sup>*\<^sup>* (system_at 1 (example_outbox ''pending'' []) [] []) (example_start (example_row\<lparr>or_Kind := EventTypeMention\<rparr>))"
  "outbox_step (example_start (example_row\<lparr>or_Kind := EventTypeMention\<rparr>)) (system_at 1 (example_outbox ''pending'' [example_mention]) [] [])"
proof -
  show "outbox_step\<^sup>*\<^sup>* (system_at 1 (example_outbox ''pending'' []) [] []) (example_start (example_row\<lparr>or_Kind := EventTypeMention\<rparr>))"
    by (rule r_into_rtranclp, rule example_start_reachable(2)) (simp add: fresh_row_def example_row_def)
  let ?r = "example_row\<lparr>or_Kind := EventTypeMention\<rparr>"
  have "evaluateOne deliver_all 1 (notificationColumns 1 (example_outbox ''pending'' [?r]) None ?r) (example_outbox ''pending'' [?r]) =
    (resultEligible, example_outbox ''pending'' [example_mention])" by code_simp
  from outbox_step.Evaluate [of _ "example_start ?r", unfolded example_start_def system_at_def system.simps, OF this]
  show "outbox_step (example_start ?r) (system_at 1 (example_outbox ''pending'' [example_mention]) [] [])" by (simp add: example_start_def system_at_def)
qed

theorem evaluation_follows_preferences_witness:
  "fst (evaluateOne NewPolicyEvaluator 1 (notificationColumns 1 (example_outbox ''pending'' []) None (example_row\<lparr>or_Kind := EventTypeMention\<rparr>))
     (sy_db (example_start (example_row\<lparr>or_Kind := EventTypeMention\<rparr>)))) = resultEligible"
proof -
  let ?r = "example_row\<lparr>or_Kind := EventTypeMention\<rparr>"
  have "?r \<in> set (nd_outbox (sy_db (example_start ?r)))" "or_Status ?r = StatePending"
    by (simp_all add: example_start_def system_at_def example_defs)
  note * = evaluation_follows_preferences [OF example_start_reachable(1) example_mention_steps(1) this, of 1 1 "example_outbox ''pending'' []" None]
  have "wanted 1 (example_outbox ''pending'' []) ?r" by code_simp
  with * show ?thesis by auto
qed

theorem due_not_starved_witness:
  "length (claims_of ''n'' (system_at 2 (example_outbox ''pending'' [example_mention]) [] [])) <
   length (claims_of ''n'' (system_at 2 ((example_outbox ''pending'' [])\<lparr>nd_outbox := [claim_update 2 (60 * duration_second) example_mention]\<rparr>) [example_claim 1 2] []))"
proof -
  let ?db = "example_outbox ''pending'' [example_mention]" and ?after = "(example_outbox ''pending'' [])\<lparr>nd_outbox := [claim_update 2 (60 * duration_second) example_mention]\<rparr>"
  let ?s = "system_at 2 ?db [] []" and ?e = "notificationColumns 2 ?db None (claim_update 2 (60 * duration_second) example_mention)"
  have reach: "outbox_step\<^sup>*\<^sup>* (system_at 1 (example_outbox ''pending'' []) [] []) ?s"
    using example_mention_steps clock_to [of 1 2 ?db "[]" "[]"] by (meson rtranclp.rtrancl_into_rtrancl one_le_numeral)
  have "due_row (\<lambda>_. False) 2 6 ?db example_mention" by code_simp
  then have "ClaimDue (\<lambda>_. False) (\<lambda>_. False) False 2 10 6 (60 * duration_second) ?db = Inr ([?e], ?after)"
    using claim_only_row [of ?db example_mention 2 "60 * duration_second"]
    by (simp add: example_mention_def example_defs suppressed_reason_check_def claim_update_def)
  then have "queue_run example_mention ?s (Suc 0) (?s\<lparr>sy_db := ?after, sy_claims := sy_claims ?s @ map (new_claim example_config (sy_now ?s)) [?e]\<rparr>)"
    by (intro queue_run.Claimed [OF queue_run.Start example_values(1)]) (simp_all add: example_values system_at_def example_mention_def example_defs)
  moreover have "new_claim example_config 2 ?e = example_claim 1 2"
    by (simp add: new_claim_def example_claim_def example_values notificationColumns_def claim_update_def example_mention_def example_defs)
  ultimately have run: "queue_run example_mention ?s (Suc 0) (system_at 2 ?after [example_claim 1 2] [])" by (simp add: system_at_def)
  have "{q \<in> set (nd_outbox (sy_db ?s)). before example_mention q} = {}" by (auto simp: system_at_def example_outbox_def before_def)
  then have none: "ahead example_mention (sy_db ?s) = 0" by (simp add: ahead_def)
  have row: "example_mention \<in> set (nd_outbox (sy_db ?s))" "waiting example_mention" "or_NextAttemptAt example_mention = Some 1" "1 < sy_now ?s"
    by (simp_all add: system_at_def example_outbox_def waiting_def example_mention_def example_eligible_def example_row_def)
  have "or_ID example_mention = ''n''" by (simp add: example_mention_def example_defs)
  moreover have "or_Status example_mention = StateEligible" "or_Kind example_mention \<noteq> EventTypeUrgentReminder"
    by (simp_all add: example_mention_def example_defs)
  ultimately show ?thesis using due_not_starved [OF example_start_reachable(1) reach row run] none by simp
qed

text \<open>The reminder of the example fails once, its recipient answers, and it is never touched again.\<close>

definition example_notification :: Notification where
  "example_notification = notificationFrom (notificationColumns 2 (example_outbox ''pending'' []) None (example_processing 1 2))"

definition example_retrying :: outbox_row where
  "example_retrying = (example_processing 1 2)\<lparr>or_Status := ''retrying'', or_NextAttemptAt := Some 15000000002, or_LastError := Some CategoryTransient\<rparr>"

lemma example_failure:
  "recordOutcome (fst (NewNotificationWorker example_config)) (snd (NewNotificationWorker example_config)) (\<lambda>_. None) 2 example_notification
     (Some ProviderError) (example_outbox ''pending'' [example_processing 1 2]) = (resultRetry, Inr (example_outbox ''pending'' [example_retrying]))"
proof -
  have "retryDelay (fst (NewNotificationWorker example_config)) (snd (NewNotificationWorker example_config)) (\<lambda>_. None) 1 ProviderError = 15000000000"
    unfolding retryDelay_def Delay_backoff by code_simp
  moreover have "wc_MaxAttempts (fst (NewNotificationWorker example_config)) = 6" by code_simp
  ultimately show ?thesis
    by (simp add: recordOutcome_def classifyDelivery_def ScheduleRetry_def applyTransition_def update_outbox_def claimed_as_def
        example_notification_def notificationFrom_def notificationColumns_def example_retrying_def example_defs
        enforce_notification_outbox_transition_def suppressed_reason_check_def)
qed

theorem answered_retry_stranded_witness:
  "example_retrying \<in> set (nd_outbox (sy_db (system_at 100000000000 (example_outbox ''acknowledged'' [example_retrying]) [example_claim 1 2] [(''n'', 1, resultRetry)]))) \<and>
   Backlog (example_outbox ''acknowledged'' [example_retrying]) = 1"
proof -
  let ?h = "[(''n'', 1, resultRetry)]" and ?c = "[example_claim 1 2]"
  let ?s = "system_at 2 (example_outbox ''acknowledged'' [example_retrying]) ?c ?h"
  have "outbox_step example_first (system_at 2 (example_outbox ''pending'' [example_retrying]) ?c ?h)"
    using outbox_step.Finish [of "\<lambda>_. None" "example_claim 1 2" example_first example_notification example_config "Some ProviderError" resultRetry
        "example_outbox ''pending'' [example_retrying]"] example_failure
    by (simp add: system_at_def rand_in_range_def example_notification_def notificationFrom_def notificationColumns_def example_defs)
  moreover have "outbox_step (system_at 2 (example_outbox ''pending'' [example_retrying]) ?c ?h) ?s"
    using outbox_step.World [of "system_at 2 (example_outbox ''pending'' [example_retrying]) ?c ?h" "example_outbox ''acknowledged'' [example_retrying]"]
    by (simp add: system_at_def world_may_def example_outbox_def)
  ultimately have reach: "outbox_step\<^sup>*\<^sup>* (system_at 1 (example_outbox ''pending'' []) [] []) ?s"
    using example_reachable(2) by (meson rtranclp.rtrancl_into_rtrancl)
  have row: "example_retrying \<in> set (nd_outbox (sy_db ?s))" "or_Kind example_retrying = EventTypeUrgentReminder" "or_Status example_retrying = StateRetrying"
      "\<not> reminderRecipientPending (sy_db ?s) example_retrying"
    by (simp_all add: system_at_def example_retrying_def example_defs reminderRecipientPending_def)
  have "(\<lambda>s s'. outbox_step s s' \<and> \<not> reminderRecipientPending (sy_db s') example_retrying)\<^sup>*\<^sup>* ?s
      (system_at 100000000000 (example_outbox ''acknowledged'' [example_retrying]) ?c ?h)"
    using clock_to [of 2 100000000000 "example_outbox ''acknowledged'' [example_retrying]" ?c ?h] row(4)
    by (intro r_into_rtranclp) (simp add: system_at_def)
  from answered_retry_stranded [OF example_start_reachable(1) reach row this] show ?thesis
    by (simp add: Backlog_def example_outbox_def example_retrying_def)
qed

end
