(* ===== verification/Acknowledgement.thy ===== *)
theory Acknowledgement
  imports Notification_Outbox
begin

text \<open>
  Requests for confirmation and persistent reminders: the states of \<open>chat-service/internal/domain/acknowledgement.go\<close>, the
  store of \<open>storage/acknowledgement_store.go\<close>, the service above it, and the statements of \<open>storage/message_store.go\<close> and
  \<open>storage/link_scan_store.go\<close> that create, answer, withdraw and start requests. The tables are those the notification
  worker reads: both services work on one database. \<open>now\<close> is the database's clock.
\<close>

section \<open>States\<close>

abbreviation AcknowledgementStatePending :: string where "AcknowledgementStatePending \<equiv> ''pending''"
abbreviation AcknowledgementStateAcknowledged :: string where "AcknowledgementStateAcknowledged \<equiv> ''acknowledged''"
abbreviation AcknowledgementStateResponded :: string where "AcknowledgementStateResponded \<equiv> ''responded''"
abbreviation AcknowledgementStateExpired :: string where "AcknowledgementStateExpired \<equiv> ''expired''"
abbreviation AcknowledgementStateCancelled :: string where "AcknowledgementStateCancelled \<equiv> ''cancelled''"

definition AcknowledgementState_Valid :: "string \<Rightarrow> bool" where
  "AcknowledgementState_Valid s \<longleftrightarrow>
     s \<in> {AcknowledgementStatePending, AcknowledgementStateAcknowledged, AcknowledgementStateResponded,
          AcknowledgementStateExpired, AcknowledgementStateCancelled}"

definition AcknowledgementState_Resolved :: "string \<Rightarrow> bool" where
  "AcknowledgementState_Resolved s \<longleftrightarrow> AcknowledgementState_Valid s \<and> s \<noteq> AcknowledgementStatePending"

definition CanResolveAcknowledgement :: "string \<Rightarrow> string \<Rightarrow> bool" where
  "CanResolveAcknowledgement from_state to_state \<longleftrightarrow> from_state = AcknowledgementStatePending \<and> AcknowledgementState_Resolved to_state"

abbreviation MaxAcknowledgementRecipients :: nat where "MaxAcknowledgementRecipients \<equiv> 200"

record AcknowledgementRecipient =
  ar_RecipientID :: string
  ar_State :: string
  ar_ResolvedAt :: go_time

record AcknowledgementSummary =
  as_Required :: bool
  as_Total :: int
  as_Pending :: int
  as_Acknowledged :: int
  as_Responded :: int
  as_Expired :: int
  as_Cancelled :: int
  as_ViewerState :: string
  as_Recipients :: "AcknowledgementRecipient list"

definition Summary_Resolved :: "AcknowledgementSummary \<Rightarrow> int" where
  "Summary_Resolved s = as_Total s - as_Pending s"

datatype request_error = ErrRequestNotFound | ErrRequestInvalidInput | ErrRequestForbidden

section \<open>Who may read a message\<close>

definition messageAccessPredicate :: "ndb \<Rightarrow> string \<Rightarrow> message_row \<Rightarrow> bool" where
  "messageAccessPredicate db user m \<longleftrightarrow>
     list_ex (\<lambda>(w, st). w = mr_WorkspaceID m \<and> st = ''active'') (nd_workspaces db) \<and>
     active_membership db (mr_WorkspaceID m) user \<and>
     ((case mr_ChannelID m of None \<Rightarrow> False
       | Some i \<Rightarrow> list_ex (\<lambda>c. ch_row_ID c = i \<and> ch_row_Status c = ''active'') (nd_channels db) \<and> channel_visible_to_user db i user) \<or>
      (case mr_DMConversationID m of None \<Rightarrow> False
       | Some i \<Rightarrow> list_ex (\<lambda>d. dm_row_ID d = i \<and> dm_row_Status d = ''active'') (nd_dms db) \<and>
           list_ex (\<lambda>(k, u, st). k = i \<and> u = user \<and> st = ''active'') (nd_dm_members db)))"

definition messageVisibilityPredicate :: "string \<Rightarrow> message_row \<Rightarrow> bool" where
  "messageVisibilityPredicate user m \<longleftrightarrow> mr_Status m \<noteq> ''pending_link_scan'' \<or> mr_SenderID m = user"

definition readable_message :: "ndb \<Rightarrow> string \<Rightarrow> string \<Rightarrow> message_row \<Rightarrow> bool" where
  "readable_message db ws user m \<longleftrightarrow>
     mr_WorkspaceID m = ws \<and> messageVisibilityPredicate user m \<and> messageAccessPredicate db user m"

definition acknowledgementAuthorizedCTE :: "ndb \<Rightarrow> string \<Rightarrow> string \<Rightarrow> string \<Rightarrow> message_row option" where
  "acknowledgementAuthorizedCTE db ws viewer i = find (\<lambda>m. mr_ID m = i \<and> readable_message db ws viewer m) (nd_messages db)"

section \<open>Reading\<close>

record AcknowledgementRoute =
  rt_TargetType :: string
  rt_TargetID :: string

definition messageRoute :: "string \<Rightarrow> string \<Rightarrow> AcknowledgementRoute" where
  "messageRoute channelID conversationID =
     (if channelID \<noteq> '''' then \<lparr>rt_TargetType = ''channel'', rt_TargetID = channelID\<rparr>
      else \<lparr>rt_TargetType = ''dm'', rt_TargetID = conversationID\<rparr>)"

definition sql_text_or_empty :: "string option \<Rightarrow> string" where
  "sql_text_or_empty x = (case x of None \<Rightarrow> '''' | Some s \<Rightarrow> s)"

record authorizedSummary =
  au_Summary :: AcknowledgementSummary
  au_senderIsViewer :: bool
  au_route :: AcknowledgementRoute

text \<open>The requests of a message, none unless the message asked for confirmation, and their counts by state.\<close>

definition asked :: "ndb \<Rightarrow> message_row \<Rightarrow> ack_row list" where
  "asked db m = filter (\<lambda>a. ak_MessageID a = mr_ID m \<and> mr_AcknowledgementRequired m) (nd_acks db)"

definition in_state :: "string \<Rightarrow> ack_row list \<Rightarrow> int" where
  "in_state s rows = int (length (filter (\<lambda>a. ak_State a = s) rows))"

definition own_state :: "string \<Rightarrow> ack_row list \<Rightarrow> string" where
  "own_state viewer rows = (case find (\<lambda>a. ak_RecipientID a = viewer) rows of None \<Rightarrow> '''' | Some a \<Rightarrow> ak_State a)"

definition summarize :: "message_row \<Rightarrow> string \<Rightarrow> ack_row list \<Rightarrow> AcknowledgementRecipient list \<Rightarrow> AcknowledgementSummary" where
  "summarize m viewer rows detail =
     \<lparr>as_Required = mr_AcknowledgementRequired m, as_Total = int (length rows), as_Pending = in_state ''pending'' rows,
      as_Acknowledged = in_state ''acknowledged'' rows, as_Responded = in_state ''responded'' rows,
      as_Expired = in_state ''expired'' rows, as_Cancelled = in_state ''cancelled'' rows,
      as_ViewerState = own_state viewer rows, as_Recipients = detail\<rparr>"

definition authorized_summary :: "message_row \<Rightarrow> string \<Rightarrow> AcknowledgementSummary \<Rightarrow> authorizedSummary" where
  "authorized_summary m viewer s =
     \<lparr>au_Summary = s, au_senderIsViewer = (mr_SenderID m = viewer),
      au_route = messageRoute (sql_text_or_empty (mr_ChannelID m)) (sql_text_or_empty (mr_DMConversationID m))\<rparr>"

definition acknowledgementSummaryQuery :: "ndb \<Rightarrow> string \<Rightarrow> string \<Rightarrow> string \<Rightarrow> authorizedSummary option" where
  "acknowledgementSummaryQuery db ws viewer i =
     map_option (\<lambda>m. authorized_summary m viewer (summarize m viewer (asked db m) [])) (acknowledgementAuthorizedCTE db ws viewer i)"

definition recipient_detail :: "ack_row \<Rightarrow> AcknowledgementRecipient" where
  "recipient_detail a =
     \<lparr>ar_RecipientID = ak_RecipientID a, ar_State = ak_State a,
      ar_ResolvedAt = (case ak_ResolvedAt a of None \<Rightarrow> time_zero | Some t \<Rightarrow> t)\<rparr>"

definition acknowledgementReadQuery :: "ndb \<Rightarrow> string \<Rightarrow> string \<Rightarrow> string \<Rightarrow> authorizedSummary option" where
  "acknowledgementReadQuery db ws viewer i =
     map_option (\<lambda>m. authorized_summary m viewer (summarize m viewer (asked db m)
         (if mr_SenderID m = viewer then map recipient_detail (sort_key ak_RecipientID (asked db m)) else [])))
       (acknowledgementAuthorizedCTE db ws viewer i)"

definition ReadAcknowledgement :: "ndb \<Rightarrow> string \<Rightarrow> string \<Rightarrow> string \<Rightarrow> request_error + AcknowledgementSummary" where
  "ReadAcknowledgement db ws viewer i =
     (case acknowledgementReadQuery db ws viewer i of None \<Rightarrow> Inl ErrRequestNotFound | Some s \<Rightarrow> Inr (au_Summary s))"

text \<open>The batch read groups the requests of all the readable messages at once.\<close>

definition batch_authorized :: "ndb \<Rightarrow> string \<Rightarrow> string \<Rightarrow> string list \<Rightarrow> message_row list" where
  "batch_authorized db ws viewer ids = filter (\<lambda>m. mr_ID m \<in> set ids \<and> readable_message db ws viewer m) (nd_messages db)"

definition batch_rows :: "ndb \<Rightarrow> message_row list \<Rightarrow> ack_row list" where
  "batch_rows db authorized =
     filter (\<lambda>a. list_ex (\<lambda>m. mr_ID m = ak_MessageID a \<and> mr_AcknowledgementRequired m) authorized) (nd_acks db)"

definition ReadAcknowledgementBatch :: "ndb \<Rightarrow> string \<Rightarrow> string \<Rightarrow> string list \<Rightarrow> (string \<rightharpoonup> AcknowledgementSummary)" where
  "ReadAcknowledgementBatch db ws viewer ids =
     (if ids = [] then Map.empty
      else let authorized = batch_authorized db ws viewer ids; rows = batch_rows db authorized in
           fold (\<lambda>m out. out(mr_ID m \<mapsto> summarize m viewer (filter (\<lambda>a. ak_MessageID a = mr_ID m) rows) [])) authorized Map.empty)"

section \<open>Answering and withdrawing\<close>

record AcknowledgeResult =
  ag_Summary :: AcknowledgementSummary
  ag_Route :: AcknowledgementRoute
  ag_Changed :: bool

definition resolve_row :: "string \<Rightarrow> go_time \<Rightarrow> ack_row \<Rightarrow> ack_row" where
  "resolve_row state now a = a\<lparr>ak_State := state, ak_ResolvedAt := Some now, ak_NextReminderAt := None\<rparr>"

definition acknowledgeStatement :: "ndb \<Rightarrow> string \<Rightarrow> string \<Rightarrow> string \<Rightarrow> ack_row \<Rightarrow> bool" where
  "acknowledgeStatement db ws recipient i a \<longleftrightarrow>
     ak_MessageID a = i \<and> ak_RecipientID a = recipient \<and> ak_State a = ''pending'' \<and>
     list_ex (\<lambda>m. mr_ID m = i \<and> mr_AcknowledgementRequired m \<and> readable_message db ws recipient m) (nd_messages db)"

definition Acknowledge :: "go_time \<Rightarrow> string \<Rightarrow> string \<Rightarrow> string \<Rightarrow> ndb \<Rightarrow> request_error + AcknowledgeResult \<times> ndb" where
  "Acknowledge now ws i recipient db =
     (let hit = acknowledgeStatement db ws recipient i;
          db' = db\<lparr>nd_acks := map (\<lambda>a. if hit a then resolve_row ''acknowledged'' now a else a) (nd_acks db)\<rparr> in
      case acknowledgementSummaryQuery db' ws recipient i of
        None \<Rightarrow> Inl ErrRequestNotFound
      | Some s \<Rightarrow>
          if as_ViewerState (au_Summary s) = '''' then Inl ErrRequestNotFound
          else Inr (\<lparr>ag_Summary = au_Summary s, ag_Route = au_route s, ag_Changed = list_ex hit (nd_acks db)\<rparr>, db'))"

definition cancel_authorized :: "ndb \<Rightarrow> string \<Rightarrow> string \<Rightarrow> string \<Rightarrow> message_row option" where
  "cancel_authorized db ws i sender =
     find (\<lambda>m. mr_WorkspaceID m = ws \<and> mr_ID m = i \<and> mr_SenderID m = sender \<and> mr_PersistentNotifications m) (nd_messages db)"

definition stop_reminders :: "go_time \<Rightarrow> message_row \<Rightarrow> ack_row \<Rightarrow> ack_row" where
  "stop_reminders now m a =
     (if mr_AcknowledgementRequired m then a\<lparr>ak_NextReminderAt := None\<rparr> else resolve_row ''cancelled'' now a)"

definition CancelPersistentNotifications :: "go_time \<Rightarrow> string \<Rightarrow> string \<Rightarrow> string \<Rightarrow> ndb \<Rightarrow> request_error + nat \<times> ndb" where
  "CancelPersistentNotifications now ws i sender db =
     (case cancel_authorized db ws i sender of
        None \<Rightarrow> Inl ErrRequestNotFound
      | Some m \<Rightarrow>
          let hit = (\<lambda>a. ak_MessageID a = mr_ID m \<and> ak_State a = ''pending'' \<and> ak_NextReminderAt a \<noteq> None) in
          Inr (length (filter hit (nd_acks db)),
               db\<lparr>nd_acks := map (\<lambda>a. if hit a then stop_reminders now m a else a) (nd_acks db)\<rparr>))"

section \<open>Creating, answering by a reply, deleting, publishing\<close>

definition acknowledgementRecipientsSQL :: "bool \<Rightarrow> ndb \<Rightarrow> string \<Rightarrow> string option \<Rightarrow> string option \<Rightarrow> string \<Rightarrow> string list" where
  "acknowledgementRecipientsSQL guard db ws channel dm sender =
     (let member = (\<lambda>user. active_membership db ws user \<and>
                      list_ex (\<lambda>u. us_ID u = user \<and> us_Status u = ''active'' \<and> \<not> us_Deleted u) (nd_users db)) in
      map snd (filter (\<lambda>(c, user). guard \<and> channel = Some c \<and> user \<noteq> sender \<and> member user \<and>
          list_ex (\<lambda>r. ch_row_ID r = c \<and> ch_row_WorkspaceID r = ws \<and> ch_row_Status r = ''active'') (nd_channels db)) (nd_channel_members db)) @
      map (fst \<circ> snd) (filter (\<lambda>(d, user, st). guard \<and> dm = Some d \<and> st = ''active'' \<and> user \<noteq> sender \<and> member user \<and>
          list_ex (\<lambda>r. dm_row_ID r = d \<and> dm_row_WorkspaceID r = ws \<and> dm_row_Status r = ''active'') (nd_dms db)) (nd_dm_members db)))"

definition eligible_acknowledgement_recipients :: "ndb \<Rightarrow> message_row \<Rightarrow> string list" where
  "eligible_acknowledgement_recipients db m =
     take (MaxAcknowledgementRecipients + 1)
       (acknowledgementRecipientsSQL (mr_AcknowledgementRequired m \<or> mr_PersistentNotifications m) db (mr_WorkspaceID m)
          (mr_ChannelID m) (mr_DMConversationID m) (mr_SenderID m))"

definition invalid_acknowledgement_fanout :: "ndb \<Rightarrow> message_row \<Rightarrow> bool" where
  "invalid_acknowledgement_fanout db m \<longleftrightarrow> drop MaxAcknowledgementRecipients (eligible_acknowledgement_recipients db m) \<noteq> []"

definition acknowledgement_recipients :: "ndb \<Rightarrow> message_row \<Rightarrow> string list" where
  "acknowledgement_recipients db m = (if invalid_acknowledgement_fanout db m then [] else eligible_acknowledgement_recipients db m)"

definition acknowledgement_row :: "message_row \<Rightarrow> string \<Rightarrow> ack_row" where
  "acknowledgement_row m recipient =
     \<lparr>ak_MessageID = mr_ID m, ak_RecipientID = recipient, ak_State = ''pending'', ak_ResolvedAt = None, ak_ReminderCount = 0,
      ak_NextReminderAt = (if mr_PersistentNotifications m \<and> mr_Status m = ''active'' then Some (mr_CreatedAt m + UrgentReminderInterval) else None)\<rparr>"

definition insert_request :: "ack_row \<Rightarrow> ack_row list \<Rightarrow> ack_row list" where
  "insert_request a rows = (if list_ex (same_ack a) rows then rows else rows @ [a])"

definition answered_acknowledgement :: "go_time \<Rightarrow> string option \<Rightarrow> message_row \<Rightarrow> ack_row \<Rightarrow> ack_row" where
  "answered_acknowledgement now parent m a =
     (if mr_Status m = ''active'' \<and> parent = Some (ak_MessageID a) \<and> ak_RecipientID a = mr_SenderID m \<and> ak_State a = ''pending''
      then resolve_row ''responded'' now a else a)"

text \<open>What the creating statement does to messages and requests, for the row \<open>m\<close> its other checks admit.\<close>

definition create_requests :: "go_time \<Rightarrow> string option \<Rightarrow> message_row \<Rightarrow> ndb \<Rightarrow> ndb option" where
  "create_requests now parent m db =
     (if invalid_acknowledgement_fanout db m then None
      else Some (db\<lparr>nd_messages := nd_messages db @ [m],
             nd_acks := fold (\<lambda>r. insert_request (acknowledgement_row m r)) (acknowledgement_recipients db m)
                          (map (answered_acknowledgement now parent m) (nd_acks db))\<rparr>))"

definition ValidateMessageDelete :: "message_row \<Rightarrow> string \<Rightarrow> bool" where
  "ValidateMessageDelete m requester \<longleftrightarrow> mr_SenderID m = requester \<and> mr_Kind m = ''user''"

definition applyMessageDeletion :: "go_time \<Rightarrow> string \<Rightarrow> string \<Rightarrow> string \<Rightarrow> ndb \<Rightarrow> request_error + ndb" where
  "applyMessageDeletion now ws i requester db =
     (let hit = (\<lambda>m. mr_ID m = i \<and> mr_WorkspaceID m = ws \<and> mr_SenderID m = requester) in
      if length (filter hit (nd_messages db)) \<noteq> 1 then Inl ErrRequestNotFound
      else Inr (db\<lparr>nd_messages := map (\<lambda>m. if hit m then m\<lparr>mr_Status := ''deleted'', mr_Deleted := True\<rparr> else m) (nd_messages db),
             nd_acks := map (\<lambda>a. if ak_MessageID a = i \<and> ak_State a = ''pending'' then resolve_row ''cancelled'' now a else a) (nd_acks db)\<rparr>))"

definition DeleteMessage :: "go_time \<Rightarrow> string \<Rightarrow> string \<Rightarrow> string \<Rightarrow> ndb \<Rightarrow> request_error + message_row option \<times> bool \<times> ndb" where
  "DeleteMessage now ws i requester db =
     (case find (\<lambda>m. mr_WorkspaceID m = ws \<and> mr_ID m = i \<and> messageAccessPredicate db requester m) (nd_messages db) of
        None \<Rightarrow> Inl ErrRequestNotFound
      | Some current \<Rightarrow>
          if \<not> ValidateMessageDelete current requester then Inl ErrRequestForbidden
          else let changed = (mr_Status current \<noteq> ''deleted'' \<or> \<not> mr_Deleted current) in
               bind_err (if changed then applyMessageDeletion now ws i requester db else Inr db) (\<lambda>db'.
                 Inr (find (\<lambda>m. mr_ID m = i \<and> mr_WorkspaceID m = ws) (nd_messages db'), changed, db')))"

text \<open>Publication of a withheld message starts its reminders.\<close>

definition reminders_started :: "go_time \<Rightarrow> message_row \<Rightarrow> ack_row \<Rightarrow> ack_row" where
  "reminders_started now m a =
     (if mr_PersistentNotifications m \<and> ak_MessageID a = mr_ID m \<and> ak_State a = ''pending'' \<and> ak_NextReminderAt a = None
      then a\<lparr>ak_NextReminderAt := Some (now + UrgentReminderInterval)\<rparr> else a)"

section \<open>The service\<close>

record AcknowledgementActionInput =
  ai_WorkspaceID :: string
  ai_MessageID :: string
  ai_ActorUserID :: string

definition validateAcknowledgementAction :: "AcknowledgementActionInput \<Rightarrow> request_error + AcknowledgementActionInput" where
  "validateAcknowledgementAction input =
     (let t = \<lparr>ai_WorkspaceID = go_trim_space (ai_WorkspaceID input), ai_MessageID = go_trim_space (ai_MessageID input),
               ai_ActorUserID = go_trim_space (ai_ActorUserID input)\<rparr> in
      if ai_WorkspaceID t = '''' \<or> ai_MessageID t = '''' \<or> ai_ActorUserID t = '''' then Inl ErrRequestInvalidInput else Inr t)"

definition service_Acknowledge :: "go_time \<Rightarrow> AcknowledgementActionInput \<Rightarrow> ndb \<Rightarrow> request_error + AcknowledgeResult \<times> ndb" where
  "service_Acknowledge now input db =
     bind_err (validateAcknowledgementAction input) (\<lambda>t. Acknowledge now (ai_WorkspaceID t) (ai_MessageID t) (ai_ActorUserID t) db)"

definition service_Read :: "AcknowledgementActionInput \<Rightarrow> ndb \<Rightarrow> request_error + AcknowledgementSummary" where
  "service_Read input db =
     bind_err (validateAcknowledgementAction input) (\<lambda>t. ReadAcknowledgement db (ai_WorkspaceID t) (ai_ActorUserID t) (ai_MessageID t))"

abbreviation MaxAcknowledgementBatchSize :: nat where "MaxAcknowledgementBatchSize \<equiv> 100"

text \<open>\<open>parse\<close> is \<open>uuid.Parse\<close>, with the canonical form of what it accepts.\<close>

fun collect_ids :: "(string \<Rightarrow> string option) \<Rightarrow> string list \<Rightarrow> string list \<Rightarrow> request_error + string list" where
  "collect_ids parse [] ids = Inr ids"
| "collect_ids parse (raw # rest) ids =
     (case parse (go_trim_space raw) of
        None \<Rightarrow> Inl ErrRequestInvalidInput
      | Some i \<Rightarrow> collect_ids parse rest (if i \<in> set ids then ids else ids @ [i]))"

definition normalizeMessageIDBatch :: "(string \<Rightarrow> string option) \<Rightarrow> string list \<Rightarrow> nat \<Rightarrow> request_error + string list" where
  "normalizeMessageIDBatch parse rawIDs maxSize =
     (if rawIDs = [] \<or> maxSize < length rawIDs then Inl ErrRequestInvalidInput else collect_ids parse rawIDs [])"

definition service_ReadBatch ::
  "(string \<Rightarrow> string option) \<Rightarrow> string \<Rightarrow> string \<Rightarrow> string list \<Rightarrow> ndb \<Rightarrow> request_error + (string \<rightharpoonup> AcknowledgementSummary)" where
  "service_ReadBatch parse ws viewer rawIDs db =
     (if go_trim_space ws = '''' \<or> go_trim_space viewer = '''' then Inl ErrRequestInvalidInput
      else bind_err (normalizeMessageIDBatch parse rawIDs MaxAcknowledgementBatchSize) (\<lambda>ids.
             Inr (ReadAcknowledgementBatch db (go_trim_space ws) (go_trim_space viewer) ids)))"

definition service_CancelPersistentNotifications :: "go_time \<Rightarrow> AcknowledgementActionInput \<Rightarrow> ndb \<Rightarrow> request_error + nat \<times> ndb" where
  "service_CancelPersistentNotifications now input db =
     bind_err (validateAcknowledgementAction input) (\<lambda>t.
       CancelPersistentNotifications now (ai_WorkspaceID t) (ai_MessageID t) (ai_ActorUserID t) db)"

end
