(* ===== verification/Request_Lifecycle.thy ===== *)
theory Request_Lifecycle
  imports Acknowledgement
begin

text \<open>
  Requests over time. A step is one transaction of the chat service (a send, an answer, a reply, a cancellation, a deletion,
  the publication or refusal of a withheld message), one scheduling pass of the notification worker, or anything else either
  service does, which may change conversations, accounts, bodies and the delivery of notifications but neither requests nor
  which reminders exist.
\<close>

section \<open>Steps\<close>

definition is_reminder :: "string \<Rightarrow> string \<Rightarrow> outbox_row \<Rightarrow> bool" where
  "is_reminder i u r \<longleftrightarrow> or_Kind r = EventTypeUrgentReminder \<and> or_MessageID r = i \<and> or_RecipientID r = u"

definition reminders :: "ndb \<Rightarrow> string \<Rightarrow> string \<Rightarrow> string option list" where
  "reminders db i u = map or_DedupeKey (filter (is_reminder i u) (nd_outbox db))"

definition event_identity :: "outbox_row \<Rightarrow> string \<times> string \<times> string \<times> string option" where
  "event_identity r = (or_MessageID r, or_RecipientID r, or_Kind r, or_DedupeKey r)"

definition message_standing :: "message_row \<Rightarrow> string \<times> string \<times> string \<times> bool \<times> bool" where
  "message_standing m = (mr_ID m, mr_WorkspaceID m, mr_Status m, mr_PersistentNotifications m, mr_AcknowledgementRequired m)"

definition other_may :: "ndb \<Rightarrow> ndb \<Rightarrow> bool" where
  "other_may db db' \<longleftrightarrow>
     nd_acks db' = nd_acks db \<and> map message_standing (nd_messages db') = map message_standing (nd_messages db) \<and>
     (\<exists>new. map event_identity (nd_outbox db') = map event_identity (nd_outbox db) @ map event_identity new \<and>
            (\<forall>r \<in> set new. or_Kind r \<noteq> EventTypeUrgentReminder))"

inductive request_step :: "ndb \<Rightarrow> ndb \<Rightarrow> bool" where
  Send: "mr_ID m \<notin> mr_ID ` set (nd_messages db) \<Longrightarrow> mr_Status m \<in> {''active'', ''pending_link_scan''} \<Longrightarrow>
    create_requests now parent m db = Some db' \<Longrightarrow> request_step db db'"
| Confirm: "service_Acknowledge now input db = Inr (res, db') \<Longrightarrow> request_step db db'"
| Cancel: "service_CancelPersistentNotifications now input db = Inr (n, db') \<Longrightarrow> request_step db db'"
| Delete: "DeleteMessage now ws i requester db = Inr (out, changed, db') \<Longrightarrow> request_step db db'"
| Publish: "m \<in> set (nd_messages db) \<Longrightarrow> mr_Status m = ''pending_link_scan'' \<Longrightarrow>
    request_step db (db\<lparr>nd_messages := map (\<lambda>x. if mr_ID x = mr_ID m then x\<lparr>mr_Status := ''active''\<rparr> else x) (nd_messages db),
                        nd_acks := map (reminders_started now m) (nd_acks db)\<rparr>)"
| Refuse: "m \<in> set (nd_messages db) \<Longrightarrow> mr_Status m = ''pending_link_scan'' \<Longrightarrow>
    request_step db (db\<lparr>nd_messages := map (\<lambda>x. if mr_ID x = mr_ID m then x\<lparr>mr_Status := ''deleted'', mr_Deleted := True\<rparr> else x) (nd_messages db)\<rparr>)"
| Remind: "ScheduleDueReminders busy gen clock wall batch db = Inr (res, db') \<Longrightarrow> request_step db db'"
| Other: "other_may db db' \<Longrightarrow> request_step db db'"

text \<open>The worker's other statements are among those that leave requests and reminders alone.\<close>

lemma update_other:
  assumes "update_outbox p f db = Inr (n, db')" and "\<And>r. event_identity (f r) = event_identity r"
  shows "other_may db db'"
proof -
  have "db' = db\<lparr>nd_outbox := map (\<lambda>r. if p r then f r else r) (nd_outbox db)\<rparr>"
    using assms(1) by (auto simp: update_outbox_def Let_def split: if_splits)
  then show ?thesis unfolding other_may_def using assms(2) by (intro conjI exI [of _ "[]"]) (auto simp: comp_def)
qed

lemma applyTransition_other:
  assumes "applyTransition p f i db = Inr db'" and "\<And>r. event_identity (f r) = event_identity r"
  shows "other_may db db'"
  using assms update_other by (fastforce simp: applyTransition_def bind_err_Inr_iff split: if_splits)

lemma worker_steps_other:
  shows "MarkDelivered now i n db = Inr db' \<Longrightarrow> other_may db db'" and "ScheduleRetry now i n delay c db = Inr db' \<Longrightarrow> other_may db db'"
    and "MarkFailed now i n c db = Inr db' \<Longrightarrow> other_may db db'" and "MarkEvaluated now i st reason db = Inr db' \<Longrightarrow> other_may db db'"
    and "SuppressResolvedReminders now db = Inr (k, db') \<Longrightarrow> other_may db db'"
    and "FailExhausted now m db = Inr (k, db') \<Longrightarrow> other_may db db'"
    and "ClaimDue held busy preview now batch m l db = Inr (events, db') \<Longrightarrow> other_may db db'"
proof -
  have same: "other_may db db" unfolding other_may_def by (intro conjI exI [of _ "[]"]) simp_all
  show "MarkDelivered now i n db = Inr db' \<Longrightarrow> other_may db db'" unfolding MarkDelivered_def
    by (erule applyTransition_other) (simp add: event_identity_def)
  show "ScheduleRetry now i n delay c db = Inr db' \<Longrightarrow> other_may db db'" unfolding ScheduleRetry_def
    by (erule applyTransition_other) (simp add: event_identity_def)
  show "MarkFailed now i n c db = Inr db' \<Longrightarrow> other_may db db'" unfolding MarkFailed_def
    by (erule applyTransition_other) (simp add: event_identity_def)
  show "SuppressResolvedReminders now db = Inr (k, db') \<Longrightarrow> other_may db db'" unfolding SuppressResolvedReminders_def
    by (erule update_other) (simp add: event_identity_def)
  show "MarkEvaluated now i st reason db = Inr db' \<Longrightarrow> other_may db db'" unfolding MarkEvaluated_def
    by (auto simp: event_identity_def elim!: applyTransition_other split: if_splits sum.splits)
  show "FailExhausted now m db = Inr (k, db') \<Longrightarrow> other_may db db'" unfolding FailExhausted_def
    using same by (auto simp: event_identity_def elim!: update_other split: if_splits)
  show "ClaimDue held busy preview now batch m l db = Inr (events, db') \<Longrightarrow> other_may db db'" unfolding ClaimDue_def Let_def
    using same by (auto simp: event_identity_def claim_update_def bind_err_Inr_iff elim!: update_other split: if_splits)
qed

section \<open>What holds of requests\<close>

definition request_key :: "ack_row \<Rightarrow> string \<times> string" where
  "request_key a = (ak_MessageID a, ak_RecipientID a)"

lemma same_ack_key: "same_ack a b \<longleftrightarrow> request_key a = request_key b"
  by (simp add: same_ack_def request_key_def)

definition request_ok :: "message_row \<Rightarrow> ack_row \<Rightarrow> bool" where
  "request_ok m a \<longleftrightarrow>
     mr_ID m = ak_MessageID a \<and> AcknowledgementState_Valid (ak_State a) \<and>
     (ak_State a = AcknowledgementStatePending) = (ak_ResolvedAt a = None) \<and> ak_ReminderCount a \<le> MaxUrgentReminders \<and>
     (ak_NextReminderAt a \<noteq> None \<longrightarrow> ak_State a = AcknowledgementStatePending \<and> ak_ReminderCount a < MaxUrgentReminders \<and>
        mr_Status m = ''active'' \<and> mr_PersistentNotifications m) \<and>
     (mr_Status m = ''pending_link_scan'' \<longrightarrow> ak_ReminderCount a = 0 \<and> ak_NextReminderAt a = None)"

lemma request_okD:
  assumes "request_ok m a"
  shows "mr_ID m = ak_MessageID a" and "AcknowledgementState_Valid (ak_State a)"
    and "(ak_State a = AcknowledgementStatePending) = (ak_ResolvedAt a = None)" and "ak_ReminderCount a \<le> MaxUrgentReminders"
  using assms unfolding request_ok_def by blast+

definition reminder_known :: "ack_row list \<Rightarrow> outbox_row \<Rightarrow> bool" where
  "reminder_known acks r \<longleftrightarrow>
     (\<exists>a \<in> set acks. request_key a = (or_MessageID r, or_RecipientID r) \<and>
        (\<exists>k \<in> {1..ak_ReminderCount a}. or_DedupeKey r = Some (UrgentReminderDedupeKeySQL (or_MessageID r) k)))"

definition requests_ok :: "ndb \<Rightarrow> bool" where
  "requests_ok db \<longleftrightarrow>
     distinct (map mr_ID (nd_messages db)) \<and> distinct (map request_key (nd_acks db)) \<and>
     (\<forall>a \<in> set (nd_acks db). \<exists>m \<in> set (nd_messages db). request_ok m a) \<and>
     (\<forall>i. length (filter (\<lambda>a. ak_MessageID a = i) (nd_acks db)) \<le> MaxAcknowledgementRecipients) \<and>
     (\<forall>r \<in> set (nd_outbox db). or_Kind r = EventTypeUrgentReminder \<longrightarrow> reminder_known (nd_acks db) r) \<and>
     (\<forall>i u. distinct (reminders db i u))"

text \<open>What a request may become: nothing once it is resolved, and otherwise only what the domain allows.\<close>

definition request_moves :: "ack_row \<Rightarrow> ack_row \<Rightarrow> bool" where
  "request_moves a a' \<longleftrightarrow> request_key a' = request_key a \<and> ak_ReminderCount a \<le> ak_ReminderCount a' \<and>
     (if ak_State a = AcknowledgementStatePending
      then ak_State a' = AcknowledgementStatePending \<or> CanResolveAcknowledgement (ak_State a) (ak_State a')
      else a' = a)"

lemma request_moves_refl [simp]: "request_moves a a"
  by (simp add: request_moves_def)

lemma request_moves_trans: "request_moves a b \<Longrightarrow> request_moves b c \<Longrightarrow> request_moves a c"
  by (auto simp: request_moves_def CanResolveAcknowledgement_def split: if_splits)

definition requests_advance :: "ndb \<Rightarrow> ndb \<Rightarrow> bool" where
  "requests_advance db db' \<longleftrightarrow>
     mr_ID ` set (nd_messages db) \<subseteq> mr_ID ` set (nd_messages db') \<and>
     (\<forall>a \<in> set (nd_acks db). \<exists>a' \<in> set (nd_acks db'). request_moves a a') \<and>
     (\<forall>a' \<in> set (nd_acks db'). ak_MessageID a' \<in> mr_ID ` set (nd_messages db) \<longrightarrow> request_key a' \<in> request_key ` set (nd_acks db)) \<and>
     (\<forall>a \<in> set (nd_acks db). ak_State a \<noteq> AcknowledgementStatePending \<longrightarrow>
        reminders db' (ak_MessageID a) (ak_RecipientID a) = reminders db (ak_MessageID a) (ak_RecipientID a))"

section \<open>Every step keeps them\<close>

lemma requests_okD:
  assumes "requests_ok db"
  shows "distinct (map mr_ID (nd_messages db))" and "distinct (map request_key (nd_acks db))"
    and "a \<in> set (nd_acks db) \<Longrightarrow> \<exists>m \<in> set (nd_messages db). request_ok m a"
    and "length (filter (\<lambda>a. ak_MessageID a = i) (nd_acks db)) \<le> MaxAcknowledgementRecipients"
    and "r \<in> set (nd_outbox db) \<Longrightarrow> or_Kind r = EventTypeUrgentReminder \<Longrightarrow> reminder_known (nd_acks db) r"
    and "distinct (reminders db i u)"
  using assms by (auto simp: requests_ok_def)

lemma same_request:
  assumes "requests_ok db" and "a \<in> set (nd_acks db)" and "b \<in> set (nd_acks db)" and "request_key a = request_key b"
  shows "a = b"
  using requests_okD(2) [OF assms(1)] assms(2-4) by (auto simp: distinct_map inj_on_def)

lemma same_message:
  assumes "requests_ok db" and "m \<in> set (nd_messages db)" and "m' \<in> set (nd_messages db)" and "mr_ID m = mr_ID m'"
  shows "m = m'"
  using requests_okD(1) [OF assms(1)] assms(2-4) by (auto simp: distinct_map inj_on_def)

lemma request_of_message:
  assumes "requests_ok db" and "a \<in> set (nd_acks db)" and "m \<in> set (nd_messages db)" and "mr_ID m = ak_MessageID a"
  shows "request_ok m a"
proof -
  obtain m' where m': "m' \<in> set (nd_messages db)" "request_ok m' a" using requests_okD(3) [OF assms(1,2)] by blast
  then have "m = m'" using same_message [OF assms(1,3) m'(1)] assms(4) by (simp add: request_ok_def)
  with m' show ?thesis by simp
qed

lemma reminder_known_moves:
  assumes "reminder_known acks r" and "\<And>a. a \<in> set acks \<Longrightarrow> \<exists>b \<in> set acks'. request_moves a b"
  shows "reminder_known acks' r"
proof -
  obtain a k where a: "a \<in> set acks" "request_key a = (or_MessageID r, or_RecipientID r)" "k \<in> {1..ak_ReminderCount a}"
    "or_DedupeKey r = Some (UrgentReminderDedupeKeySQL (or_MessageID r) k)" using assms(1) unfolding reminder_known_def by blast
  obtain b where b: "b \<in> set acks'" "request_moves a b" using assms(2) [OF a(1)] by blast
  then have "request_key b = (or_MessageID r, or_RecipientID r)" "k \<in> {1..ak_ReminderCount b}" using a by (auto simp: request_moves_def)
  then show ?thesis using a(4) b(1) unfolding reminder_known_def by blast
qed

lemma reminders_outbox: "nd_outbox db' = nd_outbox db \<Longrightarrow> reminders db' = reminders db"
  by (simp add: reminders_def fun_eq_iff)

text \<open>A statement that updates requests and messages in place only has to account for each pair.\<close>

lemma update_requests:
  assumes ok: "requests_ok db" and acks: "nd_acks db' = map g (nd_acks db)" and msgs: "nd_messages db' = map h (nd_messages db)"
    and out: "nd_outbox db' = nd_outbox db" and ids: "\<And>m. mr_ID (h m) = mr_ID m"
    and moves: "\<And>a. a \<in> set (nd_acks db) \<Longrightarrow> request_moves a (g a)"
    and rows: "\<And>m a. m \<in> set (nd_messages db) \<Longrightarrow> a \<in> set (nd_acks db) \<Longrightarrow> request_ok m a \<Longrightarrow> request_ok (h m) (g a)"
  shows "requests_ok db' \<and> requests_advance db db'"
proof -
  have key: "request_key (g a) = request_key a" if "a \<in> set (nd_acks db)" for a using moves [OF that] by (simp add: request_moves_def)
  then have keys: "map request_key (nd_acks db') = map request_key (nd_acks db)" by (simp add: acks)
  have mids: "map mr_ID (nd_messages db') = map mr_ID (nd_messages db)" by (simp add: msgs ids)
  have "length (filter (\<lambda>a. ak_MessageID a = i) (nd_acks db')) = length (filter (\<lambda>a. ak_MessageID a = i) (nd_acks db))" for i
  proof -
    have "filter (\<lambda>k. fst k = i) (map request_key (nd_acks db')) = filter (\<lambda>k. fst k = i) (map request_key (nd_acks db))" by (simp only: keys)
    then have "length (filter ((\<lambda>k. fst k = i) \<circ> request_key) (nd_acks db')) = length (filter ((\<lambda>k. fst k = i) \<circ> request_key) (nd_acks db))"
      unfolding filter_map by (metis length_map)
    then show ?thesis by (simp add: request_key_def comp_def)
  qed
  moreover have "\<exists>m \<in> set (nd_messages db'). request_ok m a" if a: "a \<in> set (nd_acks db')" for a
  proof -
    obtain b where b: "b \<in> set (nd_acks db)" "a = g b" using a by (auto simp: acks)
    obtain m where "m \<in> set (nd_messages db)" "request_ok m b" using requests_okD(3) [OF ok b(1)] by blast
    then show ?thesis using rows b by (auto simp: msgs)
  qed
  moreover have "reminder_known (nd_acks db') r" if "reminder_known (nd_acks db) r" for r
    by (rule reminder_known_moves [OF that]) (use moves in \<open>auto simp: acks\<close>)
  ultimately have "requests_ok db'" using requests_okD [OF ok] by (simp add: requests_ok_def keys mids out reminders_outbox [OF out])
  moreover have "requests_advance db db'"
  proof -
    have "mr_ID ` set (nd_messages db) \<subseteq> mr_ID ` set (nd_messages db')" using mids by (metis set_map subset_refl)
    moreover have "\<forall>a' \<in> set (nd_acks db'). request_key a' \<in> request_key ` set (nd_acks db)" using keys by (metis imageI set_map)
    moreover have "\<forall>a \<in> set (nd_acks db). \<exists>a' \<in> set (nd_acks db'). request_moves a a'" using moves by (auto simp: acks)
    ultimately show ?thesis by (simp add: requests_advance_def reminders_outbox [OF out])
  qed
  ultimately show ?thesis by blast
qed

subsection \<open>Answers, cancellation, deletion, publication\<close>

lemma resolve_request:
  assumes "ak_State a = AcknowledgementStatePending" and "AcknowledgementState_Resolved st"
  shows "request_moves a (resolve_row st now a)" and "request_ok m a \<Longrightarrow> request_ok m (resolve_row st now a)"
  using assms by (auto simp: request_moves_def request_ok_def resolve_row_def request_key_def CanResolveAcknowledgement_def AcknowledgementState_Resolved_def)

lemma resolved_states [simp]:
  "AcknowledgementState_Resolved AcknowledgementStateAcknowledged" "AcknowledgementState_Resolved AcknowledgementStateResponded"
  "AcknowledgementState_Resolved AcknowledgementStateExpired" "AcknowledgementState_Resolved AcknowledgementStateCancelled"
  by (simp_all add: AcknowledgementState_Resolved_def AcknowledgementState_Valid_def)

lemma Acknowledge_Inr:
  assumes "Acknowledge now ws i u db = Inr (res, db')"
  shows "db' = db\<lparr>nd_acks := map (\<lambda>a. if acknowledgeStatement db ws u i a then resolve_row ''acknowledged'' now a else a) (nd_acks db)\<rparr>"
  using assms by (auto simp: Acknowledge_def Let_def split: option.splits if_splits)

lemma confirm_step:
  assumes "requests_ok db" and "service_Acknowledge now input db = Inr (res, db')"
  shows "requests_ok db' \<and> requests_advance db db'"
proof -
  obtain ws i u where "Acknowledge now ws i u db = Inr (res, db')" using assms(2) by (auto simp: service_Acknowledge_def bind_err_Inr_iff)
  note db' = Acknowledge_Inr [OF this]
  show ?thesis
    by (rule update_requests [OF assms(1), where g = "\<lambda>a. if acknowledgeStatement db ws u i a then resolve_row ''acknowledged'' now a else a" and h = "\<lambda>m. m"])
      (auto simp: db' acknowledgeStatement_def intro: resolve_request)
qed

lemma stop_reminders_request:
  assumes "ak_State a = AcknowledgementStatePending"
  shows "request_moves a (stop_reminders now m a)" and "request_ok m' a \<Longrightarrow> request_ok m' (stop_reminders now m a)"
proof -
  have stop: "stop_reminders now m a = (if mr_AcknowledgementRequired m then a\<lparr>ak_NextReminderAt := None\<rparr> else resolve_row ''cancelled'' now a)"
    by (simp add: stop_reminders_def)
  have "request_moves a (a\<lparr>ak_NextReminderAt := None\<rparr>)" using assms by (simp add: request_moves_def request_key_def)
  then show "request_moves a (stop_reminders now m a)" unfolding stop using resolve_request(1) [OF assms resolved_states(4)] by (rule if_split [THEN iffD2, OF conjI, OF impI impI])
  assume r: "request_ok m' a"
  then have "request_ok m' (a\<lparr>ak_NextReminderAt := None\<rparr>)" by (simp add: request_ok_def)
  then show "request_ok m' (stop_reminders now m a)" unfolding stop using resolve_request(2) [OF assms resolved_states(4) r] by (rule if_split [THEN iffD2, OF conjI, OF impI impI])
qed

lemma cancel_step:
  assumes "requests_ok db" and "service_CancelPersistentNotifications now input db = Inr (n, db')"
  shows "requests_ok db' \<and> requests_advance db db'"
proof -
  obtain m where db': "db' = db\<lparr>nd_acks := map (\<lambda>a. if ak_MessageID a = mr_ID m \<and> ak_State a = ''pending'' \<and> ak_NextReminderAt a \<noteq> None
      then stop_reminders now m a else a) (nd_acks db)\<rparr>"
    using assms(2) by (auto simp: service_CancelPersistentNotifications_def CancelPersistentNotifications_def bind_err_Inr_iff Let_def split: option.splits)
  show ?thesis
    by (rule update_requests [OF assms(1), where h = "\<lambda>m. m" and g = "\<lambda>a. if ak_MessageID a = mr_ID m \<and> ak_State a = ''pending'' \<and> ak_NextReminderAt a \<noteq> None
      then stop_reminders now m a else a"]) (auto simp: db' intro: stop_reminders_request)
qed

lemma request_of_removed:
  assumes "request_ok m a" and "ak_NextReminderAt a = None" and "message_standing m' = message_standing (m\<lparr>mr_Status := ''deleted''\<rparr>)"
  shows "request_ok m' a"
  using assms by (simp add: request_ok_def message_standing_def)

lemma applyMessageDeletion_step:
  assumes ok: "requests_ok db" and run: "applyMessageDeletion now ws i requester db = Inr db'"
  shows "requests_ok db' \<and> requests_advance db db'"
proof -
  let ?g = "\<lambda>a. if ak_MessageID a = i \<and> ak_State a = ''pending'' then resolve_row ''cancelled'' now a else a"
  let ?h = "\<lambda>m. if mr_ID m = i \<and> mr_WorkspaceID m = ws \<and> mr_SenderID m = requester then m\<lparr>mr_Status := ''deleted'', mr_Deleted := True\<rparr> else m"
  have db': "db' = db\<lparr>nd_messages := map ?h (nd_messages db), nd_acks := map ?g (nd_acks db)\<rparr>"
    using run by (auto simp: applyMessageDeletion_def Let_def split: if_splits)
  show ?thesis
  proof (rule update_requests [OF ok, where g = ?g and h = ?h])
    fix m a assume "m \<in> set (nd_messages db)" "a \<in> set (nd_acks db)" and r: "request_ok m a"
    then have "request_ok m (?g a)" using resolve_request(2) [OF _ resolved_states(4)] by simp
    moreover have "ak_NextReminderAt (?g a) = None" if "mr_ID m = i"
      using r that by (auto simp: request_ok_def resolve_row_def)
    ultimately show "request_ok (?h m) (?g a)" using request_of_removed [of m "?g a" "?h m"] by (auto simp: message_standing_def)
  qed (auto simp: db' intro: resolve_request)
qed

lemma requests_advance_refl [simp]: "requests_advance db db"
  by (auto simp: requests_advance_def intro: request_moves_refl)

lemma delete_step:
  assumes "requests_ok db" and "DeleteMessage now ws i requester db = Inr (out, changed, db')"
  shows "requests_ok db' \<and> requests_advance db db'"
proof -
  from assms(2) have "applyMessageDeletion now ws i requester db = Inr db' \<or> db' = db"
    by (auto simp: DeleteMessage_def Let_def bind_err_Inr_iff split: option.splits if_splits)
  then show ?thesis using applyMessageDeletion_step [OF assms(1)] assms(1) by auto
qed

lemma publish_step:
  assumes ok: "requests_ok db" and m: "m \<in> set (nd_messages db)" "mr_Status m = ''pending_link_scan''"
  shows "requests_ok (db\<lparr>nd_messages := map (\<lambda>x. if mr_ID x = mr_ID m then x\<lparr>mr_Status := ''active''\<rparr> else x) (nd_messages db),
      nd_acks := map (reminders_started now m) (nd_acks db)\<rparr>) \<and>
    requests_advance db (db\<lparr>nd_messages := map (\<lambda>x. if mr_ID x = mr_ID m then x\<lparr>mr_Status := ''active''\<rparr> else x) (nd_messages db),
      nd_acks := map (reminders_started now m) (nd_acks db)\<rparr>)" (is "requests_ok ?db' \<and> requests_advance db ?db'")
proof (rule update_requests [OF ok, where g = "reminders_started now m" and h = "\<lambda>x. if mr_ID x = mr_ID m then x\<lparr>mr_Status := ''active''\<rparr> else x"])
  fix x a assume x: "x \<in> set (nd_messages db)" and "request_ok x a"
  moreover have "x = m" if "mr_ID x = mr_ID m" using same_message [OF ok x m(1) that] .
  ultimately show "request_ok (if mr_ID x = mr_ID m then x\<lparr>mr_Status := ''active''\<rparr> else x) (reminders_started now m a)"
    using m(2) by (auto simp: request_ok_def reminders_started_def)
qed (auto simp: reminders_started_def request_moves_def request_key_def)

lemma refuse_step:
  assumes ok: "requests_ok db" and m: "m \<in> set (nd_messages db)" "mr_Status m = ''pending_link_scan''"
  shows "requests_ok (db\<lparr>nd_messages := map (\<lambda>x. if mr_ID x = mr_ID m then x\<lparr>mr_Status := ''deleted'', mr_Deleted := True\<rparr> else x) (nd_messages db)\<rparr>) \<and>
    requests_advance db (db\<lparr>nd_messages := map (\<lambda>x. if mr_ID x = mr_ID m then x\<lparr>mr_Status := ''deleted'', mr_Deleted := True\<rparr> else x) (nd_messages db)\<rparr>)"
proof (rule update_requests [OF ok, where g = "\<lambda>a. a" and h = "\<lambda>x. if mr_ID x = mr_ID m then x\<lparr>mr_Status := ''deleted'', mr_Deleted := True\<rparr> else x"])
  fix x a assume x: "x \<in> set (nd_messages db)" and r: "request_ok x a"
  have "x = m" if "mr_ID x = mr_ID m" using same_message [OF ok x m(1) that] .
  then show "request_ok (if mr_ID x = mr_ID m then x\<lparr>mr_Status := ''deleted'', mr_Deleted := True\<rparr> else x) a"
    using r m(2) request_of_removed [OF r, of "x\<lparr>mr_Status := ''deleted'', mr_Deleted := True\<rparr>"] by (auto simp: request_ok_def message_standing_def)
qed auto

lemma requests_advanceD:
  assumes "requests_advance db db'"
  shows "mr_ID ` set (nd_messages db) \<subseteq> mr_ID ` set (nd_messages db')"
    and "a \<in> set (nd_acks db) \<Longrightarrow> \<exists>a' \<in> set (nd_acks db'). request_moves a a'"
    and "a' \<in> set (nd_acks db') \<Longrightarrow> ak_MessageID a' \<in> mr_ID ` set (nd_messages db) \<Longrightarrow> request_key a' \<in> request_key ` set (nd_acks db)"
    and "a \<in> set (nd_acks db) \<Longrightarrow> ak_State a \<noteq> AcknowledgementStatePending \<Longrightarrow>
      reminders db' (ak_MessageID a) (ak_RecipientID a) = reminders db (ak_MessageID a) (ak_RecipientID a)"
  using assms unfolding requests_advance_def by blast+

lemma resolved_moves: "request_moves a a' \<Longrightarrow> ak_State a \<noteq> AcknowledgementStatePending \<Longrightarrow> a' = a"
  by (simp add: request_moves_def)

lemma requests_advance_trans:
  assumes fst: "requests_advance db db'" and snd: "requests_advance db' db''"
  shows "requests_advance db db''"
  unfolding requests_advance_def
proof (intro conjI ballI impI)
  show "mr_ID ` set (nd_messages db) \<subseteq> mr_ID ` set (nd_messages db'')" using requests_advanceD(1) [OF fst] requests_advanceD(1) [OF snd] by (rule subset_trans)
next
  fix a assume a: "a \<in> set (nd_acks db)"
  obtain a' where a': "a' \<in> set (nd_acks db')" "request_moves a a'" using requests_advanceD(2) [OF fst a] by blast
  obtain a'' where "a'' \<in> set (nd_acks db'')" "request_moves a' a''" using requests_advanceD(2) [OF snd a'(1)] by blast
  then show "\<exists>a' \<in> set (nd_acks db''). request_moves a a'" using request_moves_trans [OF a'(2)] by blast
  assume resolved: "ak_State a \<noteq> AcknowledgementStatePending"
  have "a' = a" by (rule resolved_moves [OF a'(2) resolved])
  then show "reminders db'' (ak_MessageID a) (ak_RecipientID a) = reminders db (ak_MessageID a) (ak_RecipientID a)"
    using requests_advanceD(4) [OF snd, of a] requests_advanceD(4) [OF fst a resolved] a'(1) resolved by metis
next
  fix a assume a: "a \<in> set (nd_acks db'')" and i: "ak_MessageID a \<in> mr_ID ` set (nd_messages db)"
  have "ak_MessageID a \<in> mr_ID ` set (nd_messages db')" using i requests_advanceD(1) [OF fst] by (rule set_mp [rotated])
  then obtain b where b: "b \<in> set (nd_acks db')" "request_key b = request_key a" using requests_advanceD(3) [OF snd a] by fastforce
  then have "ak_MessageID b \<in> mr_ID ` set (nd_messages db)" using i by (simp add: request_key_def)
  then show "request_key a \<in> request_key ` set (nd_acks db)" using requests_advanceD(3) [OF fst b(1)] b(2) by simp
qed

subsection \<open>Sending\<close>

lemma insert_requests:
  "\<exists>new. fold (\<lambda>r. insert_request (row r)) rs acks = acks @ new \<and> set new \<subseteq> row ` set rs \<and> length new \<le> length rs \<and>
     (distinct (map request_key acks) \<longrightarrow> distinct (map request_key (acks @ new)))"
proof (induction rs arbitrary: acks)
  case (Cons r rs)
  show ?case
  proof (cases "list_ex (same_ack (row r)) acks")
    case True
    obtain new where "fold (\<lambda>r. insert_request (row r)) rs acks = acks @ new" "set new \<subseteq> row ` set rs" "length new \<le> length rs"
      "distinct (map request_key acks) \<longrightarrow> distinct (map request_key (acks @ new))" using Cons.IH [of acks] by blast
    moreover have "insert_request (row r) acks = acks" using True by (simp add: insert_request_def)
    ultimately show ?thesis by (intro exI [of _ new]) auto
  next
    case False
    then have fresh: "request_key (row r) \<notin> set (map request_key acks)" by (auto simp: list_ex_iff same_ack_key)
    obtain new where new: "fold (\<lambda>r. insert_request (row r)) rs (acks @ [row r]) = (acks @ [row r]) @ new" "set new \<subseteq> row ` set rs"
      "length new \<le> length rs" "distinct (map request_key (acks @ [row r])) \<longrightarrow> distinct (map request_key ((acks @ [row r]) @ new))"
      using Cons.IH [of "acks @ [row r]"] by blast
    have "distinct (map request_key (acks @ row r # new))" if "distinct (map request_key acks)" using new(4) that fresh by simp
    moreover have "fold (\<lambda>r. insert_request (row r)) (r # rs) acks = acks @ row r # new" using False new(1) by (simp add: insert_request_def)
    ultimately show ?thesis using new(2,3) by (intro exI [of _ "row r # new"]) auto
  qed
qed simp

lemma fanout_bound:
  assumes "\<not> invalid_acknowledgement_fanout db m"
  shows "length (acknowledgement_recipients db m) \<le> MaxAcknowledgementRecipients"
  using assms by (simp add: acknowledgement_recipients_def invalid_acknowledgement_fanout_def)

lemma new_request_ok:
  "mr_Status m \<in> {''active'', ''pending_link_scan''} \<Longrightarrow> request_ok m (acknowledgement_row m r)"
  by (auto simp: request_ok_def acknowledgement_row_def AcknowledgementState_Valid_def)

lemma append_requests:
  assumes ok: "requests_ok db" and fresh: "mr_ID m \<notin> mr_ID ` set (nd_messages db)" and len: "length new \<le> MaxAcknowledgementRecipients"
    and rows: "\<And>a. a \<in> set new \<Longrightarrow> request_ok m a" and keys: "distinct (map request_key (nd_acks db @ new))"
    and db': "db' = db\<lparr>nd_messages := nd_messages db @ [m], nd_acks := nd_acks db @ new\<rparr>"
  shows "requests_ok db' \<and> requests_advance db db'"
proof -
  have new: "ak_MessageID a = mr_ID m" if "a \<in> set new" for a using rows [OF that] by (simp add: request_ok_def)
  have old: "ak_MessageID a \<noteq> mr_ID m" if a: "a \<in> set (nd_acks db)" for a
  proof -
    obtain x where "x \<in> set (nd_messages db)" "mr_ID x = ak_MessageID a" using requests_okD(3) [OF ok a] unfolding request_ok_def by blast
    then show ?thesis using fresh by (metis imageI)
  qed
  have out: "nd_outbox db' = nd_outbox db" by (simp add: db')
  have "length (filter (\<lambda>a. ak_MessageID a = i) (nd_acks db @ new)) \<le> MaxAcknowledgementRecipients" for i
  proof (cases "i = mr_ID m")
    case True
    then have "filter (\<lambda>a. ak_MessageID a = i) (nd_acks db) = []" using old by (auto simp: filter_empty_conv)
    then show ?thesis using len le_trans [OF length_filter_le len] by simp
  next
    case False
    then have "filter (\<lambda>a. ak_MessageID a = i) new = []" using new by (auto simp: filter_empty_conv)
    then show ?thesis using requests_okD(4) [OF ok] by simp
  qed
  moreover have "reminder_known (nd_acks db @ new) r" if "reminder_known (nd_acks db) r" for r
    by (rule reminder_known_moves [OF that]) (metis UnI1 request_moves_refl set_append)
  moreover have "\<exists>x \<in> set (nd_messages db'). request_ok x a" if "a \<in> set (nd_acks db')" for a
    using that requests_okD(3) [OF ok, of a] rows [of a] by (auto simp: db')
  moreover have "distinct (map mr_ID (nd_messages db'))" using requests_okD(1) [OF ok] fresh by (simp add: db')
  ultimately have "requests_ok db'" using requests_okD(5,6) [OF ok] keys by (simp add: requests_ok_def db' reminders_def)
  moreover have "requests_advance db db'" unfolding requests_advance_def reminders_outbox [OF out]
    using new fresh by (auto simp: db' intro!: exI [of _ x for x] intro: request_moves_refl)
  ultimately show ?thesis by blast
qed

lemma send_step:
  assumes ok: "requests_ok db" and fresh: "mr_ID m \<notin> mr_ID ` set (nd_messages db)" and st: "mr_Status m \<in> {''active'', ''pending_link_scan''}"
    and run: "create_requests now parent m db = Some db'"
  shows "requests_ok db' \<and> requests_advance db db'"
proof -
  let ?acks = "map (answered_acknowledgement now parent m) (nd_acks db)" and ?mid = "db\<lparr>nd_acks := map (answered_acknowledgement now parent m) (nd_acks db)\<rparr>"
  have mid: "requests_ok ?mid \<and> requests_advance db ?mid"
    by (rule update_requests [OF ok, where g = "answered_acknowledgement now parent m" and h = "\<lambda>m. m"])
      (auto simp: answered_acknowledgement_def intro: resolve_request)
  have small: "\<not> invalid_acknowledgement_fanout db m" using run by (auto simp: create_requests_def)
  obtain new where new: "fold (\<lambda>r. insert_request (acknowledgement_row m r)) (acknowledgement_recipients db m) ?acks = ?acks @ new"
    "set new \<subseteq> acknowledgement_row m ` set (acknowledgement_recipients db m)" "length new \<le> length (acknowledgement_recipients db m)"
    "distinct (map request_key ?acks) \<longrightarrow> distinct (map request_key (?acks @ new))" using insert_requests by blast
  have "requests_ok db' \<and> requests_advance ?mid db'"
  proof (rule append_requests [where new = new and m = m])
    show "db' = ?mid\<lparr>nd_messages := nd_messages ?mid @ [m], nd_acks := nd_acks ?mid @ new\<rparr>" using run small by (simp add: create_requests_def new(1))
    show "distinct (map request_key (nd_acks ?mid @ new))" using new(4) mid requests_okD(2) [of ?mid] by simp
  qed (use mid fresh new(2,3) fanout_bound [OF small] new_request_ok [OF st] in auto)
  then show ?thesis using mid requests_advance_trans by blast
qed

subsection \<open>Reminding\<close>

text \<open>The text of a number determines it.\<close>

definition text_value :: "string \<Rightarrow> nat" where
  "text_value s = foldl (\<lambda>v c. 10 * v + (of_char c - 48)) 0 s"

lemma text_value_sql_text: "text_value (sql_text n) = n"
proof (induction n rule: sql_text.induct)
  case (1 n)
  have digit: "of_char (char_of (48 + d) :: char) = 48 + d" if "d < 10" for d :: nat using that by simp
  show ?case
  proof (cases "n < 10")
    case True
    then show ?thesis using digit [OF True] by (simp add: text_value_def)
  next
    case False
    then have "text_value (sql_text n) = 10 * text_value (sql_text (n div 10)) + (of_char (char_of (48 + n mod 10) :: char) - 48)"
      by (simp add: text_value_def)
    also have "\<dots> = n" using 1 [OF False] digit [of "n mod 10"] by simp
    finally show ?thesis .
  qed
qed

lemma reminder_key_inj: "UrgentReminderDedupeKeySQL i j = UrgentReminderDedupeKeySQL i k \<longleftrightarrow> j = k"
  unfolding UrgentReminderDedupeKeySQL_def by (metis append_same_eq same_append_eq text_value_sql_text)

lemma advance_request:
  assumes "request_ok m a" and "ak_State a = AcknowledgementStatePending" and "ak_NextReminderAt a \<noteq> None"
  shows "request_moves a (advance_reminder now m a)" and "request_ok m (advance_reminder now m a)"
proof -
  have "ak_ReminderCount a < MaxUrgentReminders" using assms unfolding request_ok_def by blast
  then show "request_ok m (advance_reminder now m a)" using assms
    by (auto simp: request_ok_def advance_reminder_def Let_def AcknowledgementState_Valid_def)
  show "request_moves a (advance_reminder now m a)" using assms(2)
    by (simp add: request_moves_def advance_reminder_def Let_def request_key_def CanResolveAcknowledgement_def)
qed

lemma reminder_message_request:
  assumes "requests_ok db" and "a \<in> set (nd_acks db)" and "due_reminder now db a"
  shows "request_ok (the (reminder_message db a)) a" and "ak_State a = AcknowledgementStatePending" and "ak_NextReminderAt a \<noteq> None"
proof -
  obtain m where m: "reminder_message db a = Some m" using assms(3) unfolding due_reminder_def by blast
  then have "m \<in> set (nd_messages db)" "mr_ID m = ak_MessageID a" unfolding reminder_message_def find_Some_iff by (auto simp: in_set_conv_nth)
  then show "request_ok (the (reminder_message db a)) a" using request_of_message [OF assms(1,2)] m by simp
  show "ak_State a = AcknowledgementStatePending" "ak_NextReminderAt a \<noteq> None" using assms(3) unfolding due_reminder_def by (auto split: option.splits)
qed

definition due_advanced :: "go_time \<Rightarrow> ack_row list \<Rightarrow> ndb \<Rightarrow> ack_row \<Rightarrow> ack_row" where
  "due_advanced wall due db a = (if list_ex (same_ack a) due then advance_reminder wall (the (reminder_message db a)) a else a)"

lemma ScheduleDueReminders_Inr:
  assumes ok: "requests_ok db" and run: "ScheduleDueReminders busy gen clock wall batch db = Inr (res, db')" and "\<not> (batch \<le> 0 \<or> IsZero wall)"
  defines "due \<equiv> due_reminders busy wall (nat batch) db"
  obtains ds where "db' = db\<lparr>nd_acks := map (due_advanced wall due db) (nd_acks db),
        nd_outbox := nd_outbox db @ map (\<lambda>a. reminder_row gen clock a (the (reminder_message db a))) ds\<rparr>"
    and "set ds \<subseteq> set due" and "distinct ds"
proof -
  let ?row = "\<lambda>a. reminder_row gen clock a (the (reminder_message db a))"
  have "distinct (map request_key due)" unfolding due_def due_reminders_def by (rule sort_take_distinct [OF requests_okD(2) [OF ok]])
  then have "distinct due" by (simp add: distinct_map)
  then obtain ds where ds: "fold (\<lambda>a. insert_unless_known (?row a)) due (nd_outbox db) = nd_outbox db @ map ?row ds" "set ds \<subseteq> set due" "distinct ds"
    using insert_events [of ?row due "nd_outbox db"] by blast
  have "db' = db\<lparr>nd_outbox := fold (\<lambda>a. insert_unless_known (?row a)) due (nd_outbox db), nd_acks := map (due_advanced wall due db) (nd_acks db)\<rparr>"
    using run assms(3) unfolding ScheduleDueReminders_def Let_def due_def due_advanced_def [abs_def] by (simp split: if_splits)
  then show thesis using that [OF _ ds(2,3)] unfolding ds(1) by simp
qed

lemma due_request:
  assumes "requests_ok db" and "a \<in> set (due_reminders busy wall n db)" and "b \<in> set (nd_acks db)" and "request_key a = request_key b"
  shows "a = b"
  using same_request [OF assms(1) due_reminders_due(1) [OF assms(2)] assms(3,4)] .

lemma advance_requests:
  assumes ok: "requests_ok db" and due: "due = due_reminders busy wall n db"
  shows "requests_ok (db\<lparr>nd_acks := map (due_advanced wall due db) (nd_acks db)\<rparr>) \<and>
    requests_advance db (db\<lparr>nd_acks := map (due_advanced wall due db) (nd_acks db)\<rparr>)"
proof (rule update_requests [OF ok, where g = "due_advanced wall due db" and h = "\<lambda>m. m"])
  fix a assume a: "a \<in> set (nd_acks db)"
  have hit: "request_ok (the (reminder_message db a)) a \<and> ak_State a = AcknowledgementStatePending \<and> ak_NextReminderAt a \<noteq> None"
    if p: "list_ex (same_ack a) due"
  proof -
    obtain b where b: "b \<in> set due" "request_key b = request_key a" using p by (auto simp: list_ex_iff same_ack_key)
    then have "b = a" using due_request [OF ok _ a] unfolding due by blast
    with b have "due_reminder wall db a" unfolding due using due_reminders_due(2) by blast
    then show ?thesis using reminder_message_request [OF ok a] by blast
  qed
  show "request_moves a (due_advanced wall due db a)"
  proof (cases "list_ex (same_ack a) due")
    case True
    then show ?thesis unfolding due_advanced_def if_P [OF True] using advance_request(1) hit [OF True] by blast
  qed (simp add: due_advanced_def)
  fix m assume m: "m \<in> set (nd_messages db)" and r: "request_ok m a"
  show "request_ok m (due_advanced wall due db a)"
  proof (cases "list_ex (same_ack a) due")
    case True
    obtain x where x: "x \<in> set (nd_messages db)" "reminder_message db a = Some x"
    proof -
      obtain b where b: "b \<in> set due" "request_key b = request_key a" using True by (auto simp: list_ex_iff same_ack_key)
      then have "b = a" using due_request [OF ok _ a] unfolding due by blast
      with b have "due_reminder wall db a" unfolding due using due_reminders_due(2) by blast
      then obtain x where "reminder_message db a = Some x" unfolding due_reminder_def by blast
      moreover from this have "x \<in> set (nd_messages db)" unfolding reminder_message_def find_Some_iff by (auto simp: in_set_conv_nth)
      ultimately show thesis using that by blast
    qed
    have "mr_ID x = mr_ID m" using hit [OF True] r x(2) unfolding request_ok_def by (simp only: option.sel)
    then have "x = m" by (rule same_message [OF ok x(1) m])
    then show ?thesis unfolding due_advanced_def if_P [OF True] x(2) option.sel using advance_request(2) hit [OF True] r by blast
  qed (use r in \<open>simp add: due_advanced_def\<close>)
qed simp_all

lemma reminders_appended:
  "nd_outbox db' = nd_outbox db @ map (\<lambda>a. reminder_row gen clock a (msg a)) ds \<Longrightarrow>
   reminders db' i u = reminders db i u @
     map (\<lambda>a. Some (UrgentReminderDedupeKeySQL i (ak_ReminderCount a + 1))) (filter (\<lambda>a. request_key a = (i, u)) ds)"
proof -
  assume out: "nd_outbox db' = nd_outbox db @ map (\<lambda>a. reminder_row gen clock a (msg a)) ds"
  have "is_reminder i u (reminder_row gen clock a (msg a)) \<longleftrightarrow> request_key a = (i, u)" for a
    by (simp add: is_reminder_def reminder_row_def request_key_def)
  moreover have "or_DedupeKey (reminder_row gen clock a (msg a)) = Some (UrgentReminderDedupeKeySQL i (ak_ReminderCount a + 1))"
    if "request_key a = (i, u)" for a using that by (simp add: reminder_row_def request_key_def)
  ultimately show ?thesis by (simp add: reminders_def out filter_map comp_def)
qed

lemma unique_element:
  assumes "distinct xs" and "\<And>x y. x \<in> set xs \<Longrightarrow> y \<in> set xs \<Longrightarrow> x = y"
  shows "xs = [] \<or> (\<exists>x. xs = [x])"
proof (cases xs)
  case (Cons x rest)
  have "y \<notin> set rest" for y
  proof
    assume "y \<in> set rest"
    then show False using assms(1) assms(2) [of x y] unfolding Cons by auto
  qed
  then have "rest = []" by (cases rest) auto
  with Cons show ?thesis by blast
qed simp

lemma reminders_stay_distinct:
  assumes ok: "requests_ok db" and ds: "set ds \<subseteq> set (due_reminders busy wall n db)" "distinct ds"
  shows "distinct (reminders db i u @
     map (\<lambda>a. Some (UrgentReminderDedupeKeySQL i (ak_ReminderCount a + 1))) (filter (\<lambda>a. request_key a = (i, u)) ds))"
proof -
  let ?mine = "filter (\<lambda>a. request_key a = (i, u)) ds"
  have "x = y" if "x \<in> set ?mine" "y \<in> set ?mine" for x y
  proof -
    have x: "x \<in> set (due_reminders busy wall n db)" and y: "y \<in> set (due_reminders busy wall n db)" and "request_key x = request_key y"
      using that ds(1) by auto
    then show ?thesis using due_request [OF ok x due_reminders_due(1) [OF y]] by blast
  qed
  then have "?mine = [] \<or> (\<exists>a. ?mine = [a])" by (intro unique_element distinct_filter ds(2)) blast
  then consider "?mine = []" | a where "?mine = [a]" by blast
  then show ?thesis
  proof cases
    case 2
    have "a \<in> set ?mine" unfolding 2 by simp
    then have a: "a \<in> set (due_reminders busy wall n db)" "request_key a = (i, u)" using ds(1) by auto
    have "Some (UrgentReminderDedupeKeySQL i (ak_ReminderCount a + 1)) \<notin> set (reminders db i u)"
    proof
      assume "Some (UrgentReminderDedupeKeySQL i (ak_ReminderCount a + 1)) \<in> set (reminders db i u)"
      then obtain r where r: "r \<in> set (nd_outbox db)" "is_reminder i u r" "or_DedupeKey r = Some (UrgentReminderDedupeKeySQL i (ak_ReminderCount a + 1))"
        unfolding reminders_def by auto
      have kind: "or_Kind r = EventTypeUrgentReminder" and who: "or_MessageID r = i" "or_RecipientID r = u" using r(2) unfolding is_reminder_def by blast+
      obtain b k where b: "b \<in> set (nd_acks db)" "request_key b = (i, u)" "k \<in> {1..ak_ReminderCount b}" "or_DedupeKey r = Some (UrgentReminderDedupeKeySQL i k)"
        using requests_okD(5) [OF ok r(1) kind] unfolding reminder_known_def who by blast
      have "a = b" using due_request [OF ok a(1) b(1)] unfolding a(2) b(2) by blast
      moreover have "k = ak_ReminderCount a + 1" using b(4) unfolding r(3) option.inject reminder_key_inj by (rule sym)
      ultimately show False using b(3) by simp
    qed
    then show ?thesis unfolding 2 using requests_okD(6) [OF ok, of i u] by (simp only: distinct_append list.map distinct.simps list.set) blast
  next
    case 1
    show ?thesis unfolding 1 using requests_okD(6) [OF ok, of i u] by (simp only: list.map append_Nil2)
  qed
qed

lemma new_reminder_known:
  assumes "a \<in> set (nd_acks db)" and "list_ex (same_ack a) due"
  shows "reminder_known (map (due_advanced wall due db) (nd_acks db)) (reminder_row gen clock a m)"
proof -
  let ?a = "due_advanced wall due db a" and ?r = "reminder_row gen clock a m"
  have "?a \<in> set (map (due_advanced wall due db) (nd_acks db))" using assms(1) by simp
  moreover have "request_key ?a = (or_MessageID ?r, or_RecipientID ?r)" "ak_ReminderCount ?a = ak_ReminderCount a + 1"
    using assms(2) by (simp_all add: due_advanced_def advance_reminder_def Let_def request_key_def reminder_row_def)
  moreover have "or_DedupeKey ?r = Some (UrgentReminderDedupeKeySQL (or_MessageID ?r) (ak_ReminderCount a + 1))"
    by (simp add: reminder_row_def)
  moreover have "ak_ReminderCount a + 1 \<in> {1..ak_ReminderCount a + 1}" by simp
  ultimately show ?thesis unfolding reminder_known_def by metis
qed

lemma remind_step:
  assumes ok: "requests_ok db" and run: "ScheduleDueReminders busy gen clock wall batch db = Inr (res, db')"
  shows "requests_ok db' \<and> requests_advance db db'"
proof (cases "batch \<le> 0 \<or> IsZero wall")
  case True
  then have "db' = db" using run by (auto simp: ScheduleDueReminders_def split: if_splits)
  with ok show ?thesis by simp
next
  case False
  define due where "due = due_reminders busy wall (nat batch) db"
  define row where "row = (\<lambda>a. reminder_row gen clock a (the (reminder_message db a)))"
  define mid where "mid = db\<lparr>nd_acks := map (due_advanced wall due db) (nd_acks db)\<rparr>"
  obtain ds where db': "db' = mid\<lparr>nd_outbox := nd_outbox db @ map row ds\<rparr>" and ds: "set ds \<subseteq> set due" "distinct ds"
    using ScheduleDueReminders_Inr [OF ok run False] unfolding mid_def row_def due_def by (metis (no_types, lifting) ndb.unfold_congs(1) ndb.update_convs(1,2))
  have mid: "requests_ok mid" "requests_advance db mid" using advance_requests [OF ok due_def] unfolding mid_def by blast+
  have out: "nd_outbox mid = nd_outbox db" and same: "nd_acks db' = nd_acks mid" "nd_messages db' = nd_messages mid" by (simp_all add: mid_def db')
  have new: "reminders db' i u = reminders db i u @ map (\<lambda>a. Some (UrgentReminderDedupeKeySQL i (ak_ReminderCount a + 1))) (filter (\<lambda>a. request_key a = (i, u)) ds)" for i u
    by (rule reminders_appended [where gen = gen and clock = clock and msg = "\<lambda>a. the (reminder_message db a)"]) (simp add: db' row_def)
  have "reminder_known (nd_acks db') r" if r: "r \<in> set (nd_outbox db')" "or_Kind r = EventTypeUrgentReminder" for r
  proof (cases "r \<in> set (nd_outbox db)")
    case True
    then show ?thesis using requests_okD(5) [OF mid(1)] r(2) unfolding same out by blast
  next
    case False
    then obtain a where a: "a \<in> set ds" "r = row a" using r(1) by (auto simp: db')
    have "a \<in> set (nd_acks db)" "list_ex (same_ack a) due" using a(1) ds(1) due_reminders_due(1) by (auto simp: list_ex_iff same_ack_key due_def)
    then show ?thesis unfolding a(2) row_def same mid_def by (simp add: new_reminder_known)
  qed
  moreover have "distinct (reminders db' i u)" for i u unfolding new by (rule reminders_stay_distinct [OF ok ds [unfolded due_def]])
  ultimately have "requests_ok db'" using requests_okD(1-4) [OF mid(1)] unfolding requests_ok_def same by blast
  moreover have "reminders db' (ak_MessageID a) (ak_RecipientID a) = reminders db (ak_MessageID a) (ak_RecipientID a)"
    if a: "a \<in> set (nd_acks db)" "ak_State a \<noteq> AcknowledgementStatePending" for a
  proof -
    have "request_key b \<noteq> (ak_MessageID a, ak_RecipientID a)" if b: "b \<in> set ds" for b
    proof
      assume "request_key b = (ak_MessageID a, ak_RecipientID a)"
      then have "b = a" using due_request [OF ok _ a(1)] b ds(1) unfolding due_def by (metis request_key_def subsetD)
      then have "due_reminder wall db a" using b ds(1) due_reminders_due(2) unfolding due_def by blast
      then show False using reminder_message_request(2) [OF ok a(1)] a(2) by blast
    qed
    then have "filter (\<lambda>b. request_key b = (ak_MessageID a, ak_RecipientID a)) ds = []" unfolding filter_empty_conv by blast
    then show ?thesis by (simp add: new)
  qed
  ultimately show ?thesis using requests_advanceD(1-3) [OF mid(2)] unfolding requests_advance_def same by blast
qed

subsection \<open>Everything else\<close>

lemma request_ok_standing: "message_standing m = message_standing m' \<Longrightarrow> request_ok m a \<longleftrightarrow> request_ok m' a"
  unfolding message_standing_def request_ok_def prod.inject by (elim conjE) (simp only:)

lemma reminders_identity:
  "reminders db i u = map (\<lambda>(_, _, _, d). d) (filter (\<lambda>(m, r, k, _). k = EventTypeUrgentReminder \<and> m = i \<and> r = u) (map event_identity (nd_outbox db)))"
  unfolding reminders_def is_reminder_def filter_map comp_def event_identity_def by simp

lemma reminder_known_identity: "event_identity r = event_identity r' \<Longrightarrow> reminder_known acks r \<longleftrightarrow> reminder_known acks r'"
  unfolding event_identity_def reminder_known_def prod.inject by (elim conjE) (simp only:)

lemma other_step:
  assumes ok: "requests_ok db" and may: "other_may db db'"
  shows "requests_ok db' \<and> requests_advance db db'"
proof -
  obtain new where acks: "nd_acks db' = nd_acks db" and msgs: "map message_standing (nd_messages db') = map message_standing (nd_messages db)"
    and out: "map event_identity (nd_outbox db') = map event_identity (nd_outbox db) @ map event_identity new"
    and none: "\<And>r. r \<in> set new \<Longrightarrow> or_Kind r \<noteq> EventTypeUrgentReminder" using may unfolding other_may_def by blast
  have "map (fst \<circ> message_standing) (nd_messages db') = map (fst \<circ> message_standing) (nd_messages db)"
    using arg_cong [OF msgs, of "map fst"] by (simp add: comp_def)
  then have ids: "map mr_ID (nd_messages db') = map mr_ID (nd_messages db)" by (simp add: message_standing_def comp_def)
  have "filter (\<lambda>(m, r, k, _). k = EventTypeUrgentReminder \<and> m = i \<and> r = u) (map event_identity new) = []" for i u
    unfolding filter_empty_conv set_map using none unfolding event_identity_def by blast
  then have same: "reminders db' i u = reminders db i u" for i u unfolding reminders_identity out by simp
  have known: "reminder_known (nd_acks db') r" if r: "r \<in> set (nd_outbox db')" "or_Kind r = EventTypeUrgentReminder" for r
  proof -
    have "event_identity r \<in> set (map event_identity (nd_outbox db) @ map event_identity new)" unfolding out [symmetric] using r(1) by simp
    then have "event_identity r \<in> event_identity ` (set (nd_outbox db) \<union> set new)" unfolding set_append set_map image_Un .
    then obtain q where q: "event_identity r = event_identity q" "q \<in> set (nd_outbox db) \<union> set new" by (rule imageE)
    then have kind: "or_Kind q = EventTypeUrgentReminder" using r(2) unfolding event_identity_def prod.inject by (elim conjE) (simp only:)
    then have "q \<in> set (nd_outbox db)" using q(2) none by blast
    then show ?thesis using requests_okD(5) [OF ok _ kind] unfolding reminder_known_identity [OF q(1)] acks by blast
  qed
  have "\<exists>m \<in> set (nd_messages db'). request_ok m a" if a: "a \<in> set (nd_acks db')" for a
  proof -
    obtain m where m: "m \<in> set (nd_messages db)" "request_ok m a" using requests_okD(3) [OF ok] a unfolding acks by blast
    have "message_standing m \<in> set (map message_standing (nd_messages db'))" unfolding msgs using m(1) by simp
    then have "message_standing m \<in> message_standing ` set (nd_messages db')" unfolding set_map .
    then obtain m' where "message_standing m = message_standing m'" "m' \<in> set (nd_messages db')" by (rule imageE)
    then show ?thesis using request_ok_standing m(2) by blast
  qed
  with known have "requests_ok db'" using requests_okD(1,2,4,6) [OF ok] unfolding requests_ok_def acks ids same by blast
  moreover have "mr_ID ` set (nd_messages db') = mr_ID ` set (nd_messages db)" using ids by (metis set_map)
  ultimately show ?thesis unfolding requests_advance_def acks same using request_moves_refl by blast
qed

lemma request_step_ok:
  assumes "request_step db db'" and "requests_ok db"
  shows "requests_ok db' \<and> requests_advance db db'"
  using assms(1)
  by cases (fact send_step [OF assms(2)] confirm_step [OF assms(2)] cancel_step [OF assms(2)] delete_step [OF assms(2)] remind_step [OF assms(2)]
    other_step [OF assms(2)] | use publish_step [OF assms(2)] refuse_step [OF assms(2)] send_step [OF assms(2)] confirm_step [OF assms(2)] cancel_step [OF assms(2)]
    delete_step [OF assms(2)] remind_step [OF assms(2)] other_step [OF assms(2)] in blast)+

lemma requests_run:
  assumes "request_step\<^sup>*\<^sup>* db db'" and "requests_ok db"
  shows "requests_ok db' \<and> requests_advance db db'"
  using assms(1)
proof (induction rule: rtranclp_induct)
  case (step db' db'')
  then show ?case using request_step_ok requests_advance_trans by blast
qed (use assms(2) in simp)

section \<open>Properties\<close>

text \<open>Where the feature starts: messages, no requests and no reminders.\<close>

definition initial_requests :: "ndb \<Rightarrow> bool" where
  "initial_requests db \<longleftrightarrow> nd_acks db = [] \<and> distinct (map mr_ID (nd_messages db)) \<and>
     list_all (\<lambda>r. or_Kind r \<noteq> EventTypeUrgentReminder) (nd_outbox db)"

lemma initial_requests_ok: "initial_requests db \<Longrightarrow> requests_ok db"
proof -
  assume i: "initial_requests db"
  then have "\<And>r. r \<in> set (nd_outbox db) \<Longrightarrow> or_Kind r \<noteq> EventTypeUrgentReminder" unfolding initial_requests_def list_all_iff by blast
  then have "reminders db i u = []" for i u unfolding reminders_def is_reminder_def map_is_Nil_conv filter_empty_conv by blast
  then show ?thesis using i unfolding requests_ok_def initial_requests_def list_all_iff by auto
qed

text \<open>
  Claim C9. A recipient answers once. However sends, confirmations, replies, cancellations, deletions, publications and
  scheduling passes interleave, a request that exists stays the only one of that message and recipient; once it is resolved
  no step changes anything of it, and until then it moves only as the domain's rule allows, with an instant of resolution
  exactly when it is resolved.
\<close>

theorem requests_resolve_once:
  assumes "initial_requests db0" and "request_step\<^sup>*\<^sup>* db0 db" and "request_step\<^sup>*\<^sup>* db db'" and a: "a \<in> set (nd_acks db)"
  shows "\<exists>a'. filter (same_ack a) (nd_acks db') = [a'] \<and>
    (AcknowledgementState_Resolved (ak_State a) \<longrightarrow> a' = a) \<and>
    (ak_State a' \<noteq> ak_State a \<longrightarrow> CanResolveAcknowledgement (ak_State a) (ak_State a')) \<and>
    (AcknowledgementState_Resolved (ak_State a') \<longleftrightarrow> ak_ResolvedAt a' \<noteq> None)"
proof -
  have ok: "requests_ok db" using requests_run [OF assms(2)] initial_requests_ok [OF assms(1)] by blast
  note run = requests_run [OF assms(3) ok]
  obtain a' where a': "a' \<in> set (nd_acks db')" "request_moves a a'" using requests_advanceD(2) run a by blast
  let ?mine = "filter (same_ack a) (nd_acks db')"
  have "request_key a' = request_key a" using a'(2) by (simp add: request_moves_def)
  then have in': "a' \<in> set ?mine" using a'(1) by (simp add: same_ack_key)
  have "x = y" if "x \<in> set ?mine" "y \<in> set ?mine" for x y
    using same_request [OF conjunct1 [OF run], of x y] that by (simp add: same_ack_key)
  moreover have "distinct ?mine" using requests_okD(2) [OF conjunct1 [OF run]] by (simp add: distinct_map)
  ultimately have "?mine = [] \<or> (\<exists>x. ?mine = [x])" by (intro unique_element) blast+
  then have "?mine = [a']" using in' by (metis empty_iff empty_set set_ConsD)
  moreover obtain m where m: "request_ok m a'" using requests_okD(3) [OF conjunct1 [OF run] a'(1)] by blast
  have "AcknowledgementState_Resolved (ak_State a') \<longleftrightarrow> ak_ResolvedAt a' \<noteq> None"
    unfolding AcknowledgementState_Resolved_def request_okD(3) [OF m] by (simp only: request_okD(2) [OF m] simp_thms)
  moreover have "AcknowledgementState_Resolved (ak_State a) \<longrightarrow> a' = a"
    using resolved_moves [OF a'(2)] unfolding AcknowledgementState_Resolved_def by blast
  moreover have "ak_State a' \<noteq> ak_State a \<longrightarrow> CanResolveAcknowledgement (ak_State a) (ak_State a')"
    using a'(2) unfolding request_moves_def by metis
  ultimately show ?thesis by blast
qed

text \<open>
  Who was asked is decided by the send. The recipients of a message that exists never change, whoever joins or
  leaves afterwards, and a message never asks more than the permitted number.
\<close>

theorem recipients_fixed_at_send:
  assumes "initial_requests db0" and "request_step\<^sup>*\<^sup>* db0 db" and "request_step\<^sup>*\<^sup>* db db'" and m: "m \<in> set (nd_messages db)"
  shows "ak_RecipientID ` {a \<in> set (nd_acks db'). ak_MessageID a = mr_ID m} = ak_RecipientID ` {a \<in> set (nd_acks db). ak_MessageID a = mr_ID m} \<and>
    length (filter (\<lambda>a. ak_MessageID a = mr_ID m) (nd_acks db')) \<le> MaxAcknowledgementRecipients"
proof -
  have ok: "requests_ok db" using requests_run [OF assms(2)] initial_requests_ok [OF assms(1)] by blast
  note run = requests_run [OF assms(3) ok]
  have "ak_RecipientID a \<in> ak_RecipientID ` {a \<in> set (nd_acks db). ak_MessageID a = mr_ID m}" if "a \<in> set (nd_acks db')" "ak_MessageID a = mr_ID m" for a
  proof -
    have "request_key a \<in> request_key ` set (nd_acks db)" by (rule requests_advanceD(3) [OF conjunct2 [OF run] that(1)]) (use that(2) m in auto)
    then show ?thesis using that(2) by (auto simp: request_key_def)
  qed
  moreover have "ak_RecipientID a \<in> ak_RecipientID ` {a \<in> set (nd_acks db'). ak_MessageID a = mr_ID m}" if a: "a \<in> set (nd_acks db)" "ak_MessageID a = mr_ID m" for a
  proof -
    obtain a' where "a' \<in> set (nd_acks db')" "request_moves a a'" using requests_advanceD(2) [OF conjunct2 [OF run] a(1)] by blast
    moreover from this(2) have "ak_MessageID a' = mr_ID m" "ak_RecipientID a' = ak_RecipientID a"
      using a(2) unfolding request_moves_def request_key_def prod.inject by (elim conjE; simp only:)+
    ultimately show ?thesis by (metis (mono_tags, lifting) imageI mem_Collect_eq)
  qed
  ultimately show ?thesis using requests_okD(4) [OF conjunct1 [OF run]] by blast
qed

lemma reminders_counted:
  assumes ok: "requests_ok db" and a: "a \<in> set (nd_acks db)"
  shows "length (reminders db (ak_MessageID a) (ak_RecipientID a)) \<le> ak_ReminderCount a"
proof -
  let ?i = "ak_MessageID a" and ?u = "ak_RecipientID a"
  have "d \<in> (\<lambda>k. Some (UrgentReminderDedupeKeySQL ?i k)) ` {1..ak_ReminderCount a}" if "d \<in> set (reminders db ?i ?u)" for d
  proof -
    obtain r where r: "r \<in> set (nd_outbox db)" "is_reminder ?i ?u r" "or_DedupeKey r = d" using \<open>d \<in> _\<close> unfolding reminders_def by auto
    have kind: "or_Kind r = EventTypeUrgentReminder" and who: "or_MessageID r = ?i" "or_RecipientID r = ?u" using r(2) unfolding is_reminder_def by blast+
    obtain b k where b: "b \<in> set (nd_acks db)" "request_key b = (?i, ?u)" "k \<in> {1..ak_ReminderCount b}" "d = Some (UrgentReminderDedupeKeySQL ?i k)"
      using requests_okD(5) [OF ok r(1) kind] unfolding reminder_known_def who r(3) by blast
    have "b = a" by (rule same_request [OF ok b(1) a]) (simp only: b(2), simp only: request_key_def)
    with b show ?thesis by blast
  qed
  then have "card (set (reminders db ?i ?u)) \<le> card ((\<lambda>k. Some (UrgentReminderDedupeKeySQL ?i k)) ` {1..ak_ReminderCount a})" by (intro card_mono) auto
  also have "\<dots> \<le> ak_ReminderCount a" using card_image_le [of "{1..ak_ReminderCount a}"] by simp
  finally show ?thesis using distinct_card [OF requests_okD(6) [OF ok]] by metis
qed

text \<open>
  Claim C17. Reminders are bounded and end with the answer. A recipient is reminded of a message at most twelve times, each
  occurrence once and nobody who was not asked; and from the moment a recipient is no longer pending no further reminder of
  that message is created for them.
\<close>

theorem reminders_bounded:
  assumes "initial_requests db0" and "request_step\<^sup>*\<^sup>* db0 db" and "request_step\<^sup>*\<^sup>* db db'"
  shows "distinct (reminders db i u) \<and> length (reminders db i u) \<le> MaxUrgentReminders \<and>
    (reminders db i u \<noteq> [] \<longrightarrow> (i, u) \<in> (\<lambda>a. (ak_MessageID a, ak_RecipientID a)) ` set (nd_acks db)) \<and>
    ((\<exists>a \<in> set (nd_acks db). ak_MessageID a = i \<and> ak_RecipientID a = u \<and> AcknowledgementState_Resolved (ak_State a)) \<longrightarrow>
      reminders db' i u = reminders db i u)"
proof -
  have ok: "requests_ok db" using requests_run [OF assms(2)] initial_requests_ok [OF assms(1)] by blast
  have asked: "\<exists>a \<in> set (nd_acks db). ak_MessageID a = i \<and> ak_RecipientID a = u" if ne: "reminders db i u \<noteq> []"
  proof -
    obtain r where r: "r \<in> set (nd_outbox db)" "is_reminder i u r" using ne unfolding reminders_def map_is_Nil_conv filter_empty_conv by blast
    have kind: "or_Kind r = EventTypeUrgentReminder" and who: "or_MessageID r = i" "or_RecipientID r = u" using r(2) unfolding is_reminder_def by blast+
    then show ?thesis using requests_okD(5) [OF ok r(1) kind] unfolding reminder_known_def request_key_def who prod.inject by blast
  qed
  have "length (reminders db i u) \<le> MaxUrgentReminders"
  proof (cases "reminders db i u = []")
    case False
    then obtain a where a: "a \<in> set (nd_acks db)" "ak_MessageID a = i" "ak_RecipientID a = u" using asked by blast
    have "ak_ReminderCount a \<le> MaxUrgentReminders" using requests_okD(3) [OF ok a(1)] unfolding request_ok_def by blast
    then show ?thesis using reminders_counted [OF ok a(1)] a(2,3) by simp
  qed simp
  moreover have "reminders db' i u = reminders db i u" if "a \<in> set (nd_acks db)" "ak_MessageID a = i" "ak_RecipientID a = u" "AcknowledgementState_Resolved (ak_State a)" for a
    using requests_advanceD(4) [OF conjunct2 [OF requests_run [OF assms(3) ok]] that(1)] that(2-4) unfolding AcknowledgementState_Resolved_def by blast
  ultimately show ?thesis using requests_okD(6) [OF ok] asked by blast
qed

section \<open>Examples\<close>

text \<open>An urgent message to a channel of three; one recipient confirms, the other is reminded.\<close>

definition request_example :: "message_row list \<Rightarrow> ack_row list \<Rightarrow> outbox_row list \<Rightarrow> ndb" where
  "request_example msgs acks rows = \<lparr>nd_outbox = rows, nd_acks = acks, nd_messages = msgs, nd_prefs = [], nd_presence = [],
     nd_workspaces = [(''w'', ''active'')],
     nd_members = [(''w'', ''s'', ''active'', ''member''), (''w'', ''u'', ''active'', ''member''), (''w'', ''v'', ''active'', ''member'')],
     nd_users = map (\<lambda>i. \<lparr>us_ID = i, us_DisplayName = i, us_Status = ''active'', us_Deleted = False\<rparr>) [''s'', ''u'', ''v''],
     nd_channels = [\<lparr>ch_row_ID = ''c'', ch_row_WorkspaceID = ''w'', ch_row_DisplayName = ''c'', ch_row_Status = ''active'', ch_row_Type = ''public''\<rparr>],
     nd_channel_members = [(''c'', ''s''), (''c'', ''u''), (''c'', ''v'')], nd_dms = [], nd_dm_members = [], nd_attachments = []\<rparr>"

definition urgent_message :: message_row where
  "urgent_message = \<lparr>mr_ID = ''m'', mr_WorkspaceID = ''w'', mr_ChannelID = Some ''c'', mr_DMConversationID = None, mr_SenderID = ''s'',
     mr_Kind = ''user'', mr_Status = ''active'', mr_Deleted = False, mr_BodyText = ''x'', mr_LinkSafetyState = ''safe'', mr_CreatedAt = 1,
     mr_PersistentNotifications = True, mr_AcknowledgementRequired = True\<rparr>"

definition example_request :: "string \<Rightarrow> string \<Rightarrow> go_time option \<Rightarrow> nat \<Rightarrow> go_time option \<Rightarrow> ack_row" where
  "example_request u st resolved n due = \<lparr>ak_MessageID = ''m'', ak_RecipientID = u, ak_State = st, ak_ResolvedAt = resolved,
     ak_ReminderCount = n, ak_NextReminderAt = due\<rparr>"

definition example_sent :: ndb where
  "example_sent = request_example [urgent_message] [example_request ''u'' ''pending'' None 0 (Some 300000000001),
     example_request ''v'' ''pending'' None 0 (Some 300000000001)] []"

definition example_confirmed :: ndb where
  "example_confirmed = request_example [urgent_message] [example_request ''u'' ''acknowledged'' (Some 5) 0 None,
     example_request ''v'' ''pending'' None 0 (Some 300000000001)] []"

definition example_reminder :: outbox_row where
  "example_reminder = reminder_row (\<lambda>_. ''n'') 7 (example_request ''v'' ''pending'' None 0 (Some 300000000001)) urgent_message"

definition example_reminded :: ndb where
  "example_reminded = request_example [urgent_message] [example_request ''u'' ''acknowledged'' (Some 5) 0 None,
     example_request ''v'' ''pending'' None 1 (Some 600000000002)] [example_reminder]"

definition confirm_input :: AcknowledgementActionInput where
  "confirm_input = \<lparr>ai_WorkspaceID = ''w'', ai_MessageID = ''m'', ai_ActorUserID = ''u''\<rparr>"

lemma example_initial: "initial_requests (request_example [] [] [])"
  by (simp add: initial_requests_def request_example_def)

lemma example_send_value: "create_requests 1 None urgent_message (request_example [] [] []) = Some example_sent"
  by code_simp

lemma example_confirm_value: "map_sum id snd (service_Acknowledge 5 confirm_input example_sent) = Inr example_confirmed"
  by code_simp

lemma example_remind_value:
  "map_sum id snd (ScheduleDueReminders (\<lambda>_. False) (\<lambda>_. ''n'') 7 300000000002 10 example_confirmed) = Inr example_reminded"
  by code_simp

lemma map_sum_Inr_snd: "map_sum id snd x = Inr d \<Longrightarrow> \<exists>r. x = Inr (r, d)"
  by (cases x) auto

lemma example_runs:
  "request_step\<^sup>*\<^sup>* (request_example [] [] []) example_sent" "request_step\<^sup>*\<^sup>* (request_example [] [] []) example_confirmed"
  "request_step\<^sup>*\<^sup>* example_sent example_confirmed" "request_step\<^sup>*\<^sup>* example_confirmed example_reminded"
  "request_step\<^sup>*\<^sup>* example_sent example_reminded"
proof -
  have "request_step (request_example [] [] []) example_sent"
    by (rule request_step.Send [OF _ _ example_send_value]) (simp_all add: request_example_def urgent_message_def)
  moreover have c: "request_step example_sent example_confirmed" using map_sum_Inr_snd [OF example_confirm_value] request_step.Confirm by blast
  moreover have r: "request_step example_confirmed example_reminded" using map_sum_Inr_snd [OF example_remind_value] request_step.Remind by blast
  ultimately show "request_step\<^sup>*\<^sup>* (request_example [] [] []) example_sent" "request_step\<^sup>*\<^sup>* (request_example [] [] []) example_confirmed"
    "request_step\<^sup>*\<^sup>* example_sent example_confirmed" "request_step\<^sup>*\<^sup>* example_confirmed example_reminded"
    "request_step\<^sup>*\<^sup>* example_sent example_reminded" by (blast intro: rtranclp.rtrancl_into_rtrancl r_into_rtranclp)+
qed

theorem requests_resolve_once_witness:
  "\<exists>a'. filter (same_ack (example_request ''u'' ''acknowledged'' (Some 5) 0 None)) (nd_acks example_reminded) = [a'] \<and>
     a' = example_request ''u'' ''acknowledged'' (Some 5) 0 None"
proof -
  have "AcknowledgementState_Resolved (ak_State (example_request ''u'' ''acknowledged'' (Some 5) 0 None))"
    by (simp add: example_request_def)
  then show ?thesis
    using requests_resolve_once [OF example_initial example_runs(2,4), of "example_request ''u'' ''acknowledged'' (Some 5) 0 None"]
    by (auto simp: example_confirmed_def request_example_def)
qed

theorem recipients_fixed_at_send_witness:
  "ak_RecipientID ` {a \<in> set (nd_acks example_reminded). ak_MessageID a = ''m''} = {''u'', ''v''}"
proof -
  have "ak_RecipientID ` {a \<in> set (nd_acks example_reminded). ak_MessageID a = mr_ID urgent_message} =
      ak_RecipientID ` {a \<in> set (nd_acks example_sent). ak_MessageID a = mr_ID urgent_message}"
    using recipients_fixed_at_send [OF example_initial example_runs(1,5), of urgent_message] by (simp add: example_sent_def request_example_def)
  also have "{a \<in> set (nd_acks example_sent). ak_MessageID a = mr_ID urgent_message} = set (nd_acks example_sent)"
    by (auto simp: example_sent_def request_example_def example_request_def urgent_message_def)
  also have "ak_RecipientID ` set (nd_acks example_sent) = {''u'', ''v''}" by (simp add: example_sent_def request_example_def example_request_def)
  finally show ?thesis by (simp add: urgent_message_def)
qed

theorem reminders_bounded_witness:
  "length (reminders example_confirmed ''m'' ''v'') \<le> MaxUrgentReminders \<and> reminders example_reminded ''m'' ''u'' = reminders example_confirmed ''m'' ''u'' \<and>
   reminders example_reminded ''m'' ''v'' = [Some ''message:m:urgent_reminder:1'']"
proof -
  have "\<exists>a \<in> set (nd_acks example_confirmed). ak_MessageID a = ''m'' \<and> ak_RecipientID a = ''u'' \<and> AcknowledgementState_Resolved (ak_State a)"
    by (simp add: example_confirmed_def request_example_def example_request_def)
  moreover have "reminders example_reminded ''m'' ''v'' = [Some ''message:m:urgent_reminder:1'']" by code_simp
  ultimately show ?thesis using reminders_bounded [OF example_initial example_runs(2,4)] by blast
qed

end
