(* ===== verification/Request_Reads.thy ===== *)
theory Request_Reads
  imports Request_Lifecycle
begin

text \<open>
  What the answers of the acknowledgement store say: confirming is idempotent and touches one row, and the reads of one
  message and of a page agree with each other and with the rows.
\<close>

section \<open>Confirming\<close>

lemma readable_message_acks [simp]: "readable_message (db\<lparr>nd_acks := acks\<rparr>) ws u m = readable_message db ws u m"
  by (simp add: readable_message_def messageAccessPredicate_def active_membership_def channel_visible_to_user_def cong: option.case_cong)

lemma authorized_acks [simp]: "acknowledgementAuthorizedCTE (db\<lparr>nd_acks := acks\<rparr>) ws u i = acknowledgementAuthorizedCTE db ws u i"
  by (simp add: acknowledgementAuthorizedCTE_def)

lemma statement_acks [simp]: "acknowledgeStatement (db\<lparr>nd_acks := acks\<rparr>) ws u i a = acknowledgeStatement db ws u i a"
  by (simp add: acknowledgeStatement_def)

lemma asked_own:
  assumes "own_state u (asked db m) \<noteq> ''''"
  obtains a where "a \<in> set (nd_acks db)" "ak_MessageID a = mr_ID m" "ak_RecipientID a = u" "own_state u (asked db m) = ak_State a" "mr_AcknowledgementRequired m"
proof -
  obtain a where "find (\<lambda>a. ak_RecipientID a = u) (asked db m) = Some a" using assms unfolding own_state_def by (auto split: option.splits)
  moreover from this have "a \<in> set (asked db m)" "ak_RecipientID a = u" unfolding find_Some_iff by (auto simp: in_set_conv_nth)
  ultimately show thesis using that [of a] unfolding own_state_def asked_def by auto
qed

lemma confirmed_not_pending:
  assumes m: "acknowledgementAuthorizedCTE db ws u i = Some m" "mr_AcknowledgementRequired m"
    and a: "a \<in> set (map (\<lambda>a. if acknowledgeStatement db ws u i a then resolve_row ''acknowledged'' now a else a) acks)"
    and key: "ak_MessageID a = i" "ak_RecipientID a = u"
  shows "ak_State a \<noteq> ''pending''"
proof -
  obtain b where b: "a = (if acknowledgeStatement db ws u i b then resolve_row ''acknowledged'' now b else b)" using a unfolding set_map by (rule imageE)
  have ex: "list_ex (\<lambda>m. mr_ID m = i \<and> mr_AcknowledgementRequired m \<and> readable_message db ws u m) (nd_messages db)"
    using m unfolding acknowledgementAuthorizedCTE_def find_Some_iff list_ex_iff by (metis nth_mem)
  show ?thesis
  proof (cases "acknowledgeStatement db ws u i b")
    case True
    then show ?thesis unfolding b by (simp add: resolve_row_def)
  next
    case False
    then have "a = b" by (simp add: b)
    then show ?thesis using False ex key unfolding acknowledgeStatement_def by blast
  qed
qed

lemma Acknowledge_cases:
  assumes "Acknowledge now ws i u db = Inr (res, db')"
  obtains m where "acknowledgementAuthorizedCTE db ws u i = Some m" "mr_ID m = i" "mr_AcknowledgementRequired m"
    and "res = \<lparr>ag_Summary = summarize m u (asked db' m) [], ag_Route = au_route (authorized_summary m u (summarize m u (asked db' m) [])),
           ag_Changed = list_ex (acknowledgeStatement db ws u i) (nd_acks db)\<rparr>"
    and "own_state u (asked db' m) \<noteq> ''''"
proof -
  note db' = Acknowledge_Inr [OF assms]
  obtain m where m: "acknowledgementAuthorizedCTE db ws u i = Some m"
    and s: "own_state u (asked db' m) \<noteq> ''''"
    and res: "res = \<lparr>ag_Summary = summarize m u (asked db' m) [], ag_Route = au_route (authorized_summary m u (summarize m u (asked db' m) [])),
           ag_Changed = list_ex (acknowledgeStatement db ws u i) (nd_acks db)\<rparr>"
    using assms unfolding Acknowledge_def Let_def db' [symmetric] acknowledgementSummaryQuery_def
    by (auto simp: authorized_summary_def summarize_def db' split: option.splits if_splits)
  moreover have "mr_ID m = i" using m unfolding acknowledgementAuthorizedCTE_def find_Some_iff by auto
  moreover have "mr_AcknowledgementRequired m" by (rule asked_own [OF s])
  ultimately show thesis using that by blast
qed

text \<open>
  Claim C33. Confirming is idempotent and personal. A confirmation that is answered leaves the caller's own request
  resolved, as the answer says, and touches no other request; sent again, at any time before something else happens, it
  answers the same summary, reports that nothing changed and changes nothing.
\<close>

theorem acknowledge_idempotent:
  assumes run: "Acknowledge now ws i u db = Inr (res, db')"
  shows "Acknowledge now' ws i u db' = Inr (res\<lparr>ag_Changed := False\<rparr>, db') \<and>
    filter (\<lambda>a. ak_MessageID a \<noteq> i \<or> ak_RecipientID a \<noteq> u) (nd_acks db') = filter (\<lambda>a. ak_MessageID a \<noteq> i \<or> ak_RecipientID a \<noteq> u) (nd_acks db) \<and>
    db' = db\<lparr>nd_acks := nd_acks db'\<rparr> \<and>
    (\<exists>a \<in> set (nd_acks db'). ak_MessageID a = i \<and> ak_RecipientID a = u \<and> ak_State a = as_ViewerState (ag_Summary res) \<and> ak_State a \<noteq> AcknowledgementStatePending)"
proof -
  note db' = Acknowledge_Inr [OF run]
  let ?g = "\<lambda>a. if acknowledgeStatement db ws u i a then resolve_row ''acknowledged'' now a else a"
  have acks: "nd_acks db' = map ?g (nd_acks db)" by (simp add: db')
  obtain m where m: "acknowledgementAuthorizedCTE db ws u i = Some m" "mr_ID m = i" "mr_AcknowledgementRequired m"
    and res: "res = \<lparr>ag_Summary = summarize m u (asked db' m) [], ag_Route = au_route (authorized_summary m u (summarize m u (asked db' m) [])),
           ag_Changed = list_ex (acknowledgeStatement db ws u i) (nd_acks db)\<rparr>" and own: "own_state u (asked db' m) \<noteq> ''''"
    by (rule Acknowledge_cases [OF run])
  have done': "ak_State a \<noteq> ''pending''" if "a \<in> set (nd_acks db')" "ak_MessageID a = i" "ak_RecipientID a = u" for a
    by (rule confirmed_not_pending [OF m(1,3) that(1) [unfolded acks] that(2,3)])
  have none: "\<not> acknowledgeStatement db' ws u i a" if "a \<in> set (nd_acks db')" for a
    unfolding acknowledgeStatement_def using done' [OF that] by blast
  have same: "map (\<lambda>a. if acknowledgeStatement db' ws u i a then resolve_row ''acknowledged'' now' a else a) (nd_acks db') = nd_acks db'"
    by (rule map_idI) (simp add: none)
  have no: "\<not> list_ex (acknowledgeStatement db' ws u i) (nd_acks db')" unfolding list_ex_iff using none by blast
  have auth: "acknowledgementAuthorizedCTE db' ws u i = Some m" using m(1) by (subst db') simp
  have "Acknowledge now' ws i u db' = Inr (res\<lparr>ag_Changed := False\<rparr>, db')"
    using own unfolding Acknowledge_def Let_def same acknowledgementSummaryQuery_def
    by (simp add: auth res no authorized_summary_def summarize_def)
  moreover have "filter (\<lambda>a. ak_MessageID a \<noteq> i \<or> ak_RecipientID a \<noteq> u) (map ?g xs) = filter (\<lambda>a. ak_MessageID a \<noteq> i \<or> ak_RecipientID a \<noteq> u) xs" for xs
    by (induction xs) (auto simp: acknowledgeStatement_def resolve_row_def)
  moreover obtain a where "a \<in> set (nd_acks db')" "ak_MessageID a = mr_ID m" "ak_RecipientID a = u" "own_state u (asked db' m) = ak_State a"
    using asked_own [OF own] by metis
  then have "\<exists>a \<in> set (nd_acks db'). ak_MessageID a = i \<and> ak_RecipientID a = u \<and> ak_State a = as_ViewerState (ag_Summary res) \<and> ak_State a \<noteq> ''pending''"
    using done' m(2) unfolding res summarize_def by (metis AcknowledgeResult.select_convs(1) AcknowledgementSummary.select_convs(8))
  moreover have "db' = db\<lparr>nd_acks := nd_acks db'\<rparr>" by (simp add: db')
  ultimately show ?thesis unfolding acks by blast
qed

section \<open>Reading\<close>

lemma readable_unique:
  assumes ok: "requests_ok db" and m: "m \<in> set (nd_messages db)" "readable_message db ws u m"
  shows "acknowledgementAuthorizedCTE db ws u (mr_ID m) = Some m"
proof -
  obtain x where x: "acknowledgementAuthorizedCTE db ws u (mr_ID m) = Some x"
    using m unfolding acknowledgementAuthorizedCTE_def by (cases "find (\<lambda>x. mr_ID x = mr_ID m \<and> readable_message db ws u x) (nd_messages db)") (auto simp: find_None_iff)
  then have "x \<in> set (nd_messages db)" "mr_ID x = mr_ID m" unfolding acknowledgementAuthorizedCTE_def find_Some_iff by (auto simp: in_set_conv_nth)
  then have "x = m" by (rule same_message [OF ok _ m(1)])
  with x show ?thesis by simp
qed

lemma find_appended: "find P (xs @ ys) = (case find P xs of None \<Rightarrow> find P ys | Some x \<Rightarrow> Some x)"
  by (induction xs) auto

lemma batch_fold:
  "fold (\<lambda>m out. out(mr_ID m \<mapsto> f m)) ms out i =
     (case find (\<lambda>m. mr_ID m = i) (rev ms) of None \<Rightarrow> out i | Some m \<Rightarrow> Some (f m))"
proof (induction ms arbitrary: out)
  case (Cons m ms)
  show ?case unfolding fold_Cons comp_def Cons by (simp add: find_appended split: option.split)
qed simp

lemma batch_rows_asked:
  assumes ok: "requests_ok db" and sub: "set ms \<subseteq> set (nd_messages db)" and m: "m \<in> set ms"
  shows "filter (\<lambda>a. ak_MessageID a = mr_ID m) (batch_rows db ms) = asked db m"
proof -
  have "list_ex (\<lambda>x. mr_ID x = mr_ID m \<and> mr_AcknowledgementRequired x) ms \<longleftrightarrow> mr_AcknowledgementRequired m"
    unfolding list_ex_iff using same_message [OF ok] sub m by blast
  then show ?thesis unfolding batch_rows_def asked_def filter_filter by (intro filter_cong refl) auto
qed

lemma states_partition:
  assumes "\<And>a. a \<in> set rows \<Longrightarrow> AcknowledgementState_Valid (ak_State a)"
  shows "int (length rows) = in_state ''pending'' rows + in_state ''acknowledged'' rows + in_state ''responded'' rows + in_state ''expired'' rows + in_state ''cancelled'' rows"
  using assms
proof (induction rows)
  case (Cons a rows)
  have "AcknowledgementState_Valid (ak_State a)" using Cons.prems by simp
  then consider "ak_State a = ''pending''" | "ak_State a = ''acknowledged''" | "ak_State a = ''responded''" | "ak_State a = ''expired''" | "ak_State a = ''cancelled''"
    unfolding AcknowledgementState_Valid_def by blast
  moreover have "int (length rows) = in_state ''pending'' rows + in_state ''acknowledged'' rows + in_state ''responded'' rows + in_state ''expired'' rows + in_state ''cancelled'' rows"
    using Cons by simp
  ultimately show ?case by cases (simp_all add: in_state_def)
qed (simp add: in_state_def)

lemma batch_value:
  assumes ok: "requests_ok db"
  shows "ReadAcknowledgementBatch db ws viewer ids i =
     (if i \<in> set ids then map_option (\<lambda>m. summarize m viewer (asked db m) []) (acknowledgementAuthorizedCTE db ws viewer i) else None)"
proof (cases "ids = []")
  case False
  let ?ms = "batch_authorized db ws viewer ids"
  have sub: "set ?ms \<subseteq> set (nd_messages db)" by (auto simp: batch_authorized_def)
  have in_ms: "m \<in> set ?ms \<longleftrightarrow> m \<in> set (nd_messages db) \<and> mr_ID m \<in> set ids \<and> readable_message db ws viewer m" for m by (auto simp: batch_authorized_def)
  have val: "ReadAcknowledgementBatch db ws viewer ids i =
      (case find (\<lambda>m. mr_ID m = i) (rev ?ms) of None \<Rightarrow> None
       | Some m \<Rightarrow> Some (summarize m viewer (filter (\<lambda>a. ak_MessageID a = mr_ID m) (batch_rows db ?ms)) []))"
    using False unfolding ReadAcknowledgementBatch_def Let_def if_not_P [OF False] batch_fold by simp
  show ?thesis
  proof (cases "find (\<lambda>m. mr_ID m = i) (rev ?ms)")
    case None
    then have "\<not> (\<exists>m. m \<in> set ?ms \<and> mr_ID m = i)" unfolding find_None_iff set_rev .
    then have "i \<notin> set ids \<or> acknowledgementAuthorizedCTE db ws viewer i = None"
      unfolding acknowledgementAuthorizedCTE_def find_None_iff in_ms by blast
    then show ?thesis unfolding val None by (elim disjE) simp_all
  next
    case (Some m)
    then have "m \<in> set (rev ?ms)" and id: "mr_ID m = i" unfolding find_Some_iff in_set_conv_nth by blast+
    then have m: "m \<in> set ?ms" by (simp only: set_rev)
    then have "i \<in> set ids" "acknowledgementAuthorizedCTE db ws viewer i = Some m" using readable_unique [OF ok, of m ws viewer] in_ms id by blast+
    then show ?thesis unfolding val Some option.case batch_rows_asked [OF ok sub m] by simp
  qed
qed (simp add: ReadAcknowledgementBatch_def)

text \<open>
  Claim C36. The reads agree. The page's answer for a message is the single read without its list, and nothing for a message
  not asked about or that the single read refuses; the counts of an answer add up to its total; and the list of recipients is,
  for the message's sender, everybody who was asked with the state of their request, each once and in order and as many as the total, and
  empty for everybody else.
\<close>

theorem reads_agree:
  assumes "initial_requests db0" and "request_step\<^sup>*\<^sup>* db0 db"
  shows "ReadAcknowledgementBatch db ws viewer ids i =
      (case ReadAcknowledgement db ws viewer i of Inr s \<Rightarrow> if i \<in> set ids then Some (s\<lparr>as_Recipients := []\<rparr>) else None | Inl _ \<Rightarrow> None) \<and>
    (\<forall>s. ReadAcknowledgement db ws viewer i = Inr s \<longrightarrow>
       as_Total s = as_Pending s + as_Acknowledged s + as_Responded s + as_Expired s + as_Cancelled s \<and>
       sorted (map ar_RecipientID (as_Recipients s)) \<and> distinct (map ar_RecipientID (as_Recipients s)) \<and>
       (\<exists>m \<in> set (nd_messages db). mr_ID m = i \<and>
          (if mr_SenderID m = viewer
           then int (length (as_Recipients s)) = as_Total s \<and>
             (\<lambda>r. (ar_RecipientID r, ar_State r)) ` set (as_Recipients s) =
             (\<lambda>a. (ak_RecipientID a, ak_State a)) ` {a \<in> set (nd_acks db). mr_AcknowledgementRequired m \<and> ak_MessageID a = i}
           else as_Recipients s = [])))"
proof -
  have ok: "requests_ok db" using requests_run [OF assms(2)] initial_requests_ok [OF assms(1)] by blast
  have read: "ReadAcknowledgement db ws viewer i = (case acknowledgementAuthorizedCTE db ws viewer i of None \<Rightarrow> Inl ErrRequestNotFound
     | Some m \<Rightarrow> Inr (summarize m viewer (asked db m) (if mr_SenderID m = viewer then map recipient_detail (sort_key ak_RecipientID (asked db m)) else [])))"
    by (simp add: ReadAcknowledgement_def acknowledgementReadQuery_def authorized_summary_def split: option.split)
  have "ReadAcknowledgementBatch db ws viewer ids i =
      (case ReadAcknowledgement db ws viewer i of Inr s \<Rightarrow> if i \<in> set ids then Some (s\<lparr>as_Recipients := []\<rparr>) else None | Inl _ \<Rightarrow> None)"
    unfolding batch_value [OF ok] read by (simp add: summarize_def split: option.split)
  moreover have "as_Total s = as_Pending s + as_Acknowledged s + as_Responded s + as_Expired s + as_Cancelled s \<and>
       sorted (map ar_RecipientID (as_Recipients s)) \<and> distinct (map ar_RecipientID (as_Recipients s)) \<and>
       (\<exists>m \<in> set (nd_messages db). mr_ID m = i \<and>
          (if mr_SenderID m = viewer
           then int (length (as_Recipients s)) = as_Total s \<and>
             (\<lambda>r. (ar_RecipientID r, ar_State r)) ` set (as_Recipients s) =
             (\<lambda>a. (ak_RecipientID a, ak_State a)) ` {a \<in> set (nd_acks db). mr_AcknowledgementRequired m \<and> ak_MessageID a = i}
           else as_Recipients s = []))"
    if s_read: "ReadAcknowledgement db ws viewer i = Inr s" for s
  proof -
    obtain m where m: "acknowledgementAuthorizedCTE db ws viewer i = Some m"
      and s: "s = summarize m viewer (asked db m) (if mr_SenderID m = viewer then map recipient_detail (sort_key ak_RecipientID (asked db m)) else [])"
    proof -
      from s_read obtain m where m: "acknowledgementAuthorizedCTE db ws viewer i = Some m"
        unfolding read by (cases "acknowledgementAuthorizedCTE db ws viewer i") simp_all
      show thesis by (rule that [OF m]) (use s_read in \<open>simp add: read m\<close>)
    qed
    have mem: "m \<in> set (nd_messages db)" "mr_ID m = i" using m unfolding acknowledgementAuthorizedCTE_def find_Some_iff by (auto simp: in_set_conv_nth)
    have "AcknowledgementState_Valid (ak_State a)" if "a \<in> set (asked db m)" for a
      using requests_okD(3) [OF ok, of a] that request_okD(2) unfolding asked_def by auto
    note total = states_partition [OF this]
    have "inj_on ak_RecipientID (set (asked db m))"
      using same_request [OF ok] unfolding asked_def inj_on_def request_key_def by auto
    moreover have "distinct (asked db m)" using requests_okD(2) [OF ok] unfolding asked_def by (simp add: distinct_map)
    ultimately have "distinct (map ak_RecipientID (sort_key ak_RecipientID (asked db m)))" by (simp add: distinct_map)
    moreover have "map ar_RecipientID (as_Recipients s) = (if mr_SenderID m = viewer then map ak_RecipientID (sort_key ak_RecipientID (asked db m)) else [])"
      by (simp add: s summarize_def recipient_detail_def)
    ultimately have "sorted (map ar_RecipientID (as_Recipients s))" "distinct (map ar_RecipientID (as_Recipients s))" by auto
    moreover have "as_Total s = as_Pending s + as_Acknowledged s + as_Responded s + as_Expired s + as_Cancelled s" using total unfolding s summarize_def by simp
    moreover have "set (asked db m) = {a \<in> set (nd_acks db). mr_AcknowledgementRequired m \<and> ak_MessageID a = i}"
      using mem(2) unfolding asked_def by auto
    then have "if mr_SenderID m = viewer
           then int (length (as_Recipients s)) = as_Total s \<and>
             (\<lambda>r. (ar_RecipientID r, ar_State r)) ` set (as_Recipients s) =
             (\<lambda>a. (ak_RecipientID a, ak_State a)) ` {a \<in> set (nd_acks db). mr_AcknowledgementRequired m \<and> ak_MessageID a = i}
           else as_Recipients s = []"
      unfolding s summarize_def by (simp add: recipient_detail_def image_image)
    ultimately show ?thesis using mem by blast
  qed
  ultimately show ?thesis by blast
qed

section \<open>Examples\<close>

theorem acknowledge_idempotent_witness: "\<exists>r. Acknowledge 9 ''w'' ''m'' ''u'' example_confirmed = Inr (r, example_confirmed)"
proof -
  have "map_sum id snd (Acknowledge 5 ''w'' ''m'' ''u'' example_sent) = Inr example_confirmed" by code_simp
  from map_sum_Inr_snd [OF this] show ?thesis
  proof (rule exE)
    fix r assume "Acknowledge 5 ''w'' ''m'' ''u'' example_sent = Inr (r, example_confirmed)"
    note acknowledge_idempotent [OF this, of 9]
    then show ?thesis by (elim conjE) (rule exI)
  qed
qed

theorem reads_agree_witness:
  "ReadAcknowledgementBatch example_confirmed ''w'' ''s'' [''m'', ''z''] ''m'' =
     (case ReadAcknowledgement example_confirmed ''w'' ''s'' ''m'' of Inr s \<Rightarrow> if ''m'' \<in> set [''m'', ''z''] then Some (s\<lparr>as_Recipients := []\<rparr>) else None | Inl _ \<Rightarrow> None) \<and>
   map_sum id (map ar_RecipientID \<circ> as_Recipients) (ReadAcknowledgement example_confirmed ''w'' ''s'' ''m'') = Inr [''u'', ''v'']"
proof
  show "map_sum id (map ar_RecipientID \<circ> as_Recipients) (ReadAcknowledgement example_confirmed ''w'' ''s'' ''m'') = Inr [''u'', ''v'']" by code_simp
qed (rule conjunct1 [OF reads_agree [OF example_initial example_runs(2)]])

end
