(* ===== verification/Auth_Tables.thy ===== *)
theory Auth_Tables
  imports Workspace_Policy
begin

text \<open>
  The tables of schema \<open>auth\<close> that \<open>auth-service\<close> writes (migrations 000001, 000002, 000004, 000005, 000007, 000009), the
  row updates its statements share, and the policy that governs passwords and logins (\<open>internal/domain/user.go\<close>,
  \<open>validation.go\<close>). A unique constraint or a primary key that a statement would break makes the statement fail, which rolls
  its transaction back. \<open>now\<close> is the database's clock, fixed for a transaction, and \<open>wall\<close> the clock of the process. E-mail
  addresses are of type \<open>citext\<close>, compared without regard to the case of ASCII letters.
\<close>

section \<open>Rows\<close>

record PolicySettings =
  po_MinPasswordLength :: int
  po_RequireUppercase :: bool
  po_RequireLowercase :: bool
  po_RequireNumber :: bool
  po_RequireSymbol :: bool
  po_FailedLoginLimit :: int
  po_FailedLoginWindowMinutes :: int
  po_FailedLoginLockoutMinutes :: int
  po_SessionIdleTimeoutMinutes :: int
  po_MaxDevicesPerUser :: int
  po_PasswordResetTokenTTLMinutes :: int
  po_InviteTokenTTLHours :: int
  po_PasswordExpirationDays :: int

record account_row =
  ac_ID :: string
  ac_Email :: string
  ac_DisplayName :: string
  ac_FullName :: "string option"
  ac_AvatarURL :: "string option"
  ac_Status :: string
  ac_AuthSource :: string
  ac_ExternalProvider :: "string option"
  ac_ExternalSubject :: "string option"
  ac_LastLoginAt :: "go_time option"
  ac_DeletedAt :: "go_time option"

record credential_row =
  pc_UserID :: string
  pc_PasswordHash :: string
  pc_PasswordChangedAt :: go_time
  pc_MustChangePassword :: bool

record device_row =
  de_ID :: string
  de_UserID :: string
  de_FingerprintHash :: string
  de_DisplayName :: "string option"
  de_Platform :: "string option"
  de_LastIP :: "string option"
  de_FirstSeenAt :: go_time
  de_LastSeenAt :: go_time
  de_RevokedAt :: "go_time option"

record session_row =
  se_ID :: string
  se_UserID :: string
  se_DeviceID :: "string option"
  se_RefreshTokenHash :: string
  se_IPAddress :: "string option"
  se_UserAgent :: "string option"
  se_CreatedAt :: go_time
  se_LastSeenAt :: go_time
  se_IdleExpiresAt :: go_time
  se_AbsoluteExpiresAt :: "go_time option"
  se_RevokedAt :: "go_time option"
  se_RevokedReason :: "string option"

record token_row =
  th_SessionID :: string
  th_RefreshTokenHash :: string
  th_Status :: string
  th_RotatedAt :: "go_time option"
  th_RevokedAt :: "go_time option"
  th_ReusedAt :: "go_time option"

record attempt_row =
  la_ID :: int
  la_UserID :: "string option"
  la_Email :: string
  la_Success :: bool
  la_FailureReason :: "string option"
  la_IPAddress :: "string option"
  la_UserAgent :: "string option"
  la_CreatedAt :: go_time

record reset_row =
  rt_ID :: string
  rt_UserID :: string
  rt_TokenHash :: string
  rt_ExpiresAt :: go_time
  rt_UsedAt :: "go_time option"

record invite_row =
  iv_ID :: string
  iv_Email :: string
  iv_TokenHash :: string
  iv_Status :: string
  iv_ExpiresAt :: go_time
  iv_AcceptedAt :: "go_time option"
  iv_AcceptedBy :: "string option"
  iv_RevokedAt :: "go_time option"
  iv_CreatedAt :: go_time

record email_row =
  em_Kind :: string
  em_ToEmail :: string
  em_Subject :: string
  em_TemplateKey :: string
  em_ResetTokenID :: "string option"
  em_InviteID :: "string option"
  em_UserID :: "string option"
  em_Payload :: string

record exchange_row =
  xc_ID :: string
  xc_Provider :: string
  xc_CodeHash :: string
  xc_AccessValueEncrypted :: string
  xc_RefreshValueEncrypted :: string
  xc_BearerScheme :: string
  xc_ExpiresIn :: int
  xc_UserID :: string
  xc_Email :: string
  xc_DisplayName :: string
  xc_MustChangePassword :: bool
  xc_ExpiresAt :: go_time
  xc_UsedAt :: "go_time option"

record request_row =
  aq_ID :: string
  aq_Provider :: string
  aq_StateHash :: string
  aq_NonceHash :: string
  aq_PKCEVerifierEncrypted :: string
  aq_RedirectAfter :: "string option"
  aq_AppContext :: string
  aq_ExpiresAt :: go_time
  aq_UsedAt :: "go_time option"

text \<open>
  The tables. \<open>td_workspaces\<close> and \<open>td_members\<close> are the two tables of the chat schema a first login by single sign-on
  touches: identifier, slug and status of a workspace, and workspace, user, role and status of a member.
\<close>

record adb =
  td_policy :: PolicySettings
  td_users :: "account_row list"
  td_credentials :: "credential_row list"
  td_devices :: "device_row list"
  td_sessions :: "session_row list"
  td_history :: "token_row list"
  td_attempts :: "attempt_row list"
  td_resets :: "reset_row list"
  td_invites :: "invite_row list"
  td_emails :: "email_row list"
  td_codes :: "exchange_row list"
  td_requests :: "request_row list"
  td_workspaces :: "(string \<times> string \<times> string) list"
  td_members :: "(string \<times> string \<times> string \<times> string) list"

datatype auth_error =
    ErrInvalidRefreshToken | ErrInvalidCredentials | ErrPasswordExpired | ErrInvalidToken | ErrAccountNotFound
  | ErrDuplicateEmail | ErrInviteAlreadyPending | ErrAuthInput | ErrPasswordPolicy | ErrStatusTransitionNotAllowed
  | ErrConversationOwnershipConflict | ErrEmailOutboxUnavailable | ErrOIDCAccountConflict | ErrOIDCProvisioningDisabled
  | errDefaultWorkspaceMissing | errDeviceRevoked | StatementFailed

section \<open>Statements\<close>

definition same_address :: "string \<Rightarrow> string \<Rightarrow> bool" where
  "same_address a b \<longleftrightarrow> map ascii_lower a = map ascii_lower b"

text \<open>An \<open>UPDATE\<close>: the rows its condition selects are changed.\<close>

definition update_rows :: "('r \<Rightarrow> bool) \<Rightarrow> ('r \<Rightarrow> 'r) \<Rightarrow> 'r list \<Rightarrow> 'r list" where
  "update_rows p f rows = map (\<lambda>r. if p r then f r else r) rows"

definition nullableString :: "string \<Rightarrow> string option" where
  "nullableString s = (if s = '''' then None else Some s)"

definition active_account :: "account_row \<Rightarrow> bool" where
  "active_account u \<longleftrightarrow> ac_Status u = ''active'' \<and> ac_DeletedAt u = None"

definition account_active :: "adb \<Rightarrow> string \<Rightarrow> bool" where
  "account_active db userID \<longleftrightarrow> list_ex (\<lambda>u. ac_ID u = userID \<and> active_account u) (td_users db)"

definition session_current :: "go_time \<Rightarrow> session_row \<Rightarrow> bool" where
  "session_current now s \<longleftrightarrow>
     se_RevokedAt s = None \<and> now < se_IdleExpiresAt s \<and>
     (case se_AbsoluteExpiresAt s of None \<Rightarrow> True | Some t \<Rightarrow> now < t)"

text \<open>
  Revoking sessions: the live ones among those selected get the instant and the reason, and the active tokens of a set of
  sessions become revoked. Every revoking transaction is made of these two updates.
\<close>

definition revoke_session :: "go_time \<Rightarrow> string \<Rightarrow> session_row \<Rightarrow> session_row" where
  "revoke_session now reason s = s\<lparr>se_RevokedAt := Some now, se_RevokedReason := Some reason\<rparr>"

definition revoke_sessions :: "go_time \<Rightarrow> string \<Rightarrow> (session_row \<Rightarrow> bool) \<Rightarrow> adb \<Rightarrow> adb" where
  "revoke_sessions now reason p db =
     db\<lparr>td_sessions := update_rows (\<lambda>s. p s \<and> se_RevokedAt s = None) (revoke_session now reason) (td_sessions db)\<rparr>"

definition revoke_tokens :: "go_time \<Rightarrow> (string \<Rightarrow> bool) \<Rightarrow> adb \<Rightarrow> adb" where
  "revoke_tokens now ids db =
     db\<lparr>td_history := update_rows (\<lambda>h. ids (th_SessionID h) \<and> th_Status h = ''active'')
          (\<lambda>h. h\<lparr>th_Status := ''revoked'', th_RevokedAt := Some now\<rparr>) (td_history db)\<rparr>"

text \<open>The form with \<open>WITH revoked AS (UPDATE ... RETURNING id)\<close>: only the tokens of the sessions just revoked.\<close>

definition revoke_with_tokens :: "go_time \<Rightarrow> string \<Rightarrow> (session_row \<Rightarrow> bool) \<Rightarrow> adb \<Rightarrow> adb" where
  "revoke_with_tokens now reason p db =
     revoke_tokens now (\<lambda>i. list_ex (\<lambda>s. se_ID s = i \<and> p s \<and> se_RevokedAt s = None) (td_sessions db))
       (revoke_sessions now reason p db)"

section \<open>Rules on passwords\<close>

definition minutes :: "int \<Rightarrow> go_duration" where
  "minutes n = signed_take_bit 63 (n * duration_minute)"

definition PasswordExpired :: "go_time \<Rightarrow> go_time \<Rightarrow> PolicySettings \<Rightarrow> bool" where
  "PasswordExpired changedAt now policy \<longleftrightarrow>
     \<not> (po_PasswordExpirationDays policy \<le> 0 \<or> IsZero changedAt) \<and>
     signed_take_bit 63 (po_PasswordExpirationDays policy * 24 * duration_hour) < time_sub now changedAt"

text \<open>The categories of a rune are those of package \<open>unicode\<close>'s tables, an argument.\<close>

record rune_tables =
  ru_upper :: "nat \<Rightarrow> bool"
  ru_lower :: "nat \<Rightarrow> bool"
  ru_digit :: "nat \<Rightarrow> bool"
  ru_letter :: "nat \<Rightarrow> bool"
  ru_space :: "nat \<Rightarrow> bool"

definition contains_rune :: "(nat \<Rightarrow> bool) \<Rightarrow> string \<Rightarrow> bool" where
  "contains_rune p s = list_ex (\<lambda>(r, _). p r) (go_runes s)"

definition containsUppercase :: "rune_tables \<Rightarrow> string \<Rightarrow> bool" where
  "containsUppercase tb = contains_rune (ru_upper tb)"

definition containsLowercase :: "rune_tables \<Rightarrow> string \<Rightarrow> bool" where
  "containsLowercase tb = contains_rune (ru_lower tb)"

definition containsDigit :: "rune_tables \<Rightarrow> string \<Rightarrow> bool" where
  "containsDigit tb = contains_rune (ru_digit tb)"

definition containsSymbol :: "rune_tables \<Rightarrow> string \<Rightarrow> bool" where
  "containsSymbol tb = contains_rune (\<lambda>r. \<not> ru_letter tb r \<and> \<not> ru_digit tb r \<and> \<not> ru_space tb r)"

definition ValidatePassword :: "rune_tables \<Rightarrow> string \<Rightarrow> PolicySettings \<Rightarrow> auth_error option" where
  "ValidatePassword tb password policy =
     (if int (RuneCountInString password) < po_MinPasswordLength policy then Some ErrPasswordPolicy
      else if po_RequireUppercase policy \<and> \<not> containsUppercase tb password then Some ErrPasswordPolicy
      else if po_RequireLowercase policy \<and> \<not> containsLowercase tb password then Some ErrPasswordPolicy
      else if po_RequireNumber policy \<and> \<not> containsDigit tb password then Some ErrPasswordPolicy
      else if po_RequireSymbol policy \<and> \<not> containsSymbol tb password then Some ErrPasswordPolicy
      else None)"

definition ValidateStatusTransition :: "string \<Rightarrow> string \<Rightarrow> auth_error option" where
  "ValidateStatusTransition src dst =
     (if src = ''active'' \<and> dst = ''suspended'' \<or> src = ''suspended'' \<and> dst = ''active'' then None
      else Some ErrStatusTransitionNotAllowed)"

section \<open>Facts about the statements\<close>

lemma set_update_rows: "set (update_rows p f rows) = (\<lambda>r. if p r then f r else r) ` set rows"
  by (simp add: update_rows_def)

lemma map_update_rows: "(\<And>r. p r \<Longrightarrow> g (f r) = g r) \<Longrightarrow> map g (update_rows p f rows) = map g rows"
  by (simp add: update_rows_def)

lemma update_rows_None [simp]: "update_rows (\<lambda>_. False) f rows = rows"
  by (simp add: update_rows_def)

lemma revoke_session_simps [simp]:
  "se_ID (revoke_session now reason s) = se_ID s" "se_UserID (revoke_session now reason s) = se_UserID s"
  "se_RefreshTokenHash (revoke_session now reason s) = se_RefreshTokenHash s"
  "se_DeviceID (revoke_session now reason s) = se_DeviceID s"
  "se_RevokedAt (revoke_session now reason s) = Some now" "se_RevokedReason (revoke_session now reason s) = Some reason"
  by (simp_all add: revoke_session_def)

lemma account_active_iff: "account_active db u \<longleftrightarrow> (\<exists>a \<in> set (td_users db). ac_ID a = u \<and> active_account a)"
  by (simp add: account_active_def list_ex_iff)

lemma minutes_exact: "\<bar>n\<bar> \<le> 153722867 \<Longrightarrow> minutes n = n * duration_minute"
  unfolding minutes_def by (rule signed_take_bit_int_eq_self) simp_all

end
