(* ===== verification/Auth_Login.thy ===== *)
theory Auth_Login
  imports Auth_Tables
begin

text \<open>
  Logging in: \<open>auth-service/internal/storage/login_store.go\<close> with the brute-force lockout and the device limit,
  and \<open>storage/oidc_store.go\<close>. The password verifier is an argument, as the
  store takes it: \<open>None\<close> is a malformed hash. The identifiers the database generates are arguments too. A login has two
  phases, authentication and grant, because the database may change between them; a refusal commits its record of the
  attempt, any other failure rolls back.
\<close>

section \<open>Temporary lockout\<close>

definition credentialFilter :: "string option \<Rightarrow> bool" where
  "credentialFilter reason \<longleftrightarrow> reason \<in> {Some ''invalid_credentials'', Some ''unknown_user'', Some ''invalid_password''}"

definition lookbackMinutes :: "PolicySettings \<Rightarrow> int" where
  "lookbackMinutes policy = po_FailedLoginWindowMinutes policy + po_FailedLoginLockoutMinutes policy"

definition attempt_of :: "bool \<Rightarrow> string \<Rightarrow> string \<Rightarrow> attempt_row \<Rightarrow> bool" where
  "attempt_of found userID email a = (if found then la_UserID a = Some userID else same_address (la_Email a) email)"

definition credential_failures :: "bool \<Rightarrow> string \<Rightarrow> string \<Rightarrow> adb \<Rightarrow> go_time list" where
  "credential_failures found userID email db =
     map la_CreatedAt (filter (\<lambda>a. attempt_of found userID email a \<and> \<not> la_Success a \<and> credentialFilter (la_FailureReason a))
       (td_attempts db))"

definition recent_failures :: "go_time \<Rightarrow> bool \<Rightarrow> string \<Rightarrow> string \<Rightarrow> PolicySettings \<Rightarrow> adb \<Rightarrow> go_time list" where
  "recent_failures now found userID email policy db =
     sort (filter (\<lambda>t. now - lookbackMinutes policy * duration_minute \<le> t) (credential_failures found userID email db))"

text \<open>The loop over the groups of \<open>n\<close> consecutive failures, the newest first; the counter is one more than Go's index.\<close>

fun lockout_loop :: "nat \<Rightarrow> go_time list \<Rightarrow> nat \<Rightarrow> go_duration \<Rightarrow> go_duration \<Rightarrow> go_time \<Rightarrow> bool" where
  "lockout_loop 0 failures n window lockout wall = False"
| "lockout_loop (Suc i) failures n window lockout wall =
     (let oldest = failures ! i; newest = failures ! (i + n - 1) in
      if window < time_sub newest oldest then lockout_loop i failures n window lockout wall
      else wall < newest + lockout)"

definition loginTemporarilyLocked ::
  "go_time \<Rightarrow> go_time \<Rightarrow> bool \<Rightarrow> string \<Rightarrow> string \<Rightarrow> PolicySettings \<Rightarrow> adb \<Rightarrow> bool" where
  "loginTemporarilyLocked now wall found userID email policy db =
     (if po_FailedLoginLimit policy \<le> 0 then False
      else let failures = recent_failures now found userID email policy db; n = nat (po_FailedLoginLimit policy) in
        if length failures < n then False
        else lockout_loop (length failures - n + 1) failures n (minutes (po_FailedLoginWindowMinutes policy))
               (minutes (po_FailedLoginLockoutMinutes policy)) wall)"

section \<open>Authentication\<close>

record LoginUser =
  lu_ID :: string
  lu_Email :: string
  lu_DisplayName :: string
  lu_MustChangePassword :: bool

record AuthSession =
  as_ID :: string
  as_UserID :: string

record CreateSessionInput =
  ci_Password :: string
  ci_Email :: string
  ci_RefreshTokenHash :: string
  ci_RefreshExpiresAt :: go_time
  ci_DeviceFingerprintHash :: string
  ci_DeviceName :: string
  ci_Platform :: string
  ci_IPAddress :: string
  ci_UserAgent :: string

record loginCandidate =
  lc_User :: LoginUser
  lc_Status :: string
  lc_Deleted :: bool
  lc_PasswordHash :: string
  lc_PasswordChangedAt :: go_time

definition zero_candidate :: loginCandidate where
  "zero_candidate =
     \<lparr>lc_User = \<lparr>lu_ID = '''', lu_Email = '''', lu_DisplayName = '''', lu_MustChangePassword = False\<rparr>,
      lc_Status = '''', lc_Deleted = False, lc_PasswordHash = '''', lc_PasswordChangedAt = time_zero\<rparr>"

definition selectLoginUser :: "string \<Rightarrow> adb \<Rightarrow> loginCandidate \<times> bool" where
  "selectLoginUser email db =
     (case find (\<lambda>u. same_address (ac_Email u) email \<and> ac_AuthSource u = ''manual'') (td_users db) of
        None \<Rightarrow> (zero_candidate, False)
      | Some u \<Rightarrow>
          let pc = find (\<lambda>c. pc_UserID c = ac_ID u) (td_credentials db) in
          (\<lparr>lc_User = \<lparr>lu_ID = ac_ID u, lu_Email = ac_Email u, lu_DisplayName = ac_DisplayName u,
                       lu_MustChangePassword = (case pc of None \<Rightarrow> False | Some c \<Rightarrow> pc_MustChangePassword c)\<rparr>,
            lc_Status = ac_Status u, lc_Deleted = (ac_DeletedAt u \<noteq> None),
            lc_PasswordHash = (case pc of None \<Rightarrow> '''' | Some c \<Rightarrow> pc_PasswordHash c),
            lc_PasswordChangedAt = (case pc of None \<Rightarrow> time_zero | Some c \<Rightarrow> pc_PasswordChangedAt c)\<rparr>, True))"

definition usableCredential :: "loginCandidate \<Rightarrow> bool \<Rightarrow> bool" where
  "usableCredential c found \<longleftrightarrow> found \<and> lc_Status c = ''active'' \<and> \<not> lc_Deleted c \<and> lc_PasswordHash c \<noteq> ''''"

definition nullableUserID :: "bool \<Rightarrow> string \<Rightarrow> string option" where
  "nullableUserID found userID = (if found then Some userID else None)"

text \<open>The identifier of an attempt comes from a sequence.\<close>

definition next_attempt_id :: "adb \<Rightarrow> int" where
  "next_attempt_id db = foldr max (map la_ID (td_attempts db)) 0 + 1"

definition recordLoginAttempt ::
  "go_time \<Rightarrow> string option \<Rightarrow> string \<Rightarrow> bool \<Rightarrow> string \<Rightarrow> string \<Rightarrow> string \<Rightarrow> adb \<Rightarrow> adb" where
  "recordLoginAttempt now userID email success failureReason ipAddress userAgent db =
     db\<lparr>td_attempts := td_attempts db @
       [\<lparr>la_ID = next_attempt_id db, la_UserID = userID, la_Email = email, la_Success = success,
         la_FailureReason = nullableString failureReason, la_IPAddress = nullableString ipAddress,
         la_UserAgent = nullableString userAgent, la_CreatedAt = now\<rparr>]\<rparr>"

definition commitRefusedLogin ::
  "go_time \<Rightarrow> string option \<Rightarrow> CreateSessionInput \<Rightarrow> string \<Rightarrow> auth_error \<Rightarrow> adb \<Rightarrow> (auth_error + 'a) \<times> adb" where
  "commitRefusedLogin now userID input failureReason outcome db =
     (Inl outcome,
      recordLoginAttempt now userID (ci_Email input) False failureReason (ci_IPAddress input) (ci_UserAgent input) db)"

definition commitFailedLoginAttempt ::
  "go_time \<Rightarrow> string option \<Rightarrow> CreateSessionInput \<Rightarrow> string \<Rightarrow> adb \<Rightarrow> (auth_error + 'a) \<times> adb" where
  "commitFailedLoginAttempt now userID input failureReason db =
     commitRefusedLogin now userID input failureReason ErrInvalidCredentials db"

type_synonym verifier = "string \<Rightarrow> string \<Rightarrow> bool option"

definition authenticate ::
  "verifier \<Rightarrow> go_time \<Rightarrow> go_time \<Rightarrow> CreateSessionInput \<Rightarrow> PolicySettings \<Rightarrow> adb \<Rightarrow> (auth_error + loginCandidate) \<times> adb" where
  "authenticate verify now wall input policy db =
     (let (candidate, found) = selectLoginUser (ci_Email input) db; userID = lu_ID (lc_User candidate) in
      if loginTemporarilyLocked now wall found userID (ci_Email input) policy db
        then commitFailedLoginAttempt now (nullableUserID found userID) input ''failed_login_limit_exceeded'' db
      else if \<not> usableCredential candidate found
        then commitFailedLoginAttempt now (nullableUserID found userID) input ''invalid_credentials'' db
      else if verify (ci_Password input) (lc_PasswordHash candidate) \<noteq> Some True
        then commitFailedLoginAttempt now (Some userID) input ''invalid_credentials'' db
      else if PasswordExpired (lc_PasswordChangedAt candidate) wall policy
        then commitRefusedLogin now (Some userID) input ''password_expired'' ErrPasswordExpired db
      else (Inr candidate, db))"

section \<open>Grant\<close>

definition revalidateUserActive :: "string \<Rightarrow> adb \<Rightarrow> auth_error option" where
  "revalidateUserActive userID db = (if account_active db userID then None else Some ErrInvalidCredentials)"

definition active_devices :: "adb \<Rightarrow> string \<Rightarrow> device_row list" where
  "active_devices db userID = filter (\<lambda>d. de_UserID d = userID \<and> de_RevokedAt d = None) (td_devices db)"

definition insert_device :: "device_row \<Rightarrow> adb \<Rightarrow> auth_error + adb" where
  "insert_device d db =
     (if list_ex (\<lambda>e. de_ID e = de_ID d \<or> de_UserID e = de_UserID d \<and> de_FingerprintHash e = de_FingerprintHash d) (td_devices db)
      then Inl StatementFailed else Inr (db\<lparr>td_devices := td_devices db @ [d]\<rparr>))"

definition resolveLoginDevice ::
  "string \<Rightarrow> go_time \<Rightarrow> string \<Rightarrow> CreateSessionInput \<Rightarrow> PolicySettings \<Rightarrow> adb \<Rightarrow> auth_error + string option \<times> adb" where
  "resolveLoginDevice newID now userID input policy db =
     (if ci_DeviceFingerprintHash input = '''' then Inr (None, db)
      else case find (\<lambda>d. de_UserID d = userID \<and> de_FingerprintHash d = ci_DeviceFingerprintHash input) (td_devices db) of
        Some d \<Rightarrow>
          if de_RevokedAt d \<noteq> None then Inl errDeviceRevoked
          else Inr (Some (de_ID d),
                 db\<lparr>td_devices := update_rows (\<lambda>e. de_ID e = de_ID d)
                      (\<lambda>e. e\<lparr>de_DisplayName := nullableString (ci_DeviceName input), de_Platform := nullableString (ci_Platform input),
                             de_LastIP := nullableString (ci_IPAddress input), de_LastSeenAt := now\<rparr>) (td_devices db)\<rparr>)
      | None \<Rightarrow>
          if po_MaxDevicesPerUser policy \<le> int (length (active_devices db userID)) then Inl ErrInvalidCredentials
          else bind_err (insert_device
                 \<lparr>de_ID = newID, de_UserID = userID, de_FingerprintHash = ci_DeviceFingerprintHash input,
                  de_DisplayName = nullableString (ci_DeviceName input), de_Platform = nullableString (ci_Platform input),
                  de_LastIP = nullableString (ci_IPAddress input), de_FirstSeenAt = now, de_LastSeenAt = now, de_RevokedAt = None\<rparr> db)
                 (\<lambda>db'. Inr (Some newID, db')))"

definition insertLoginSession ::
  "string \<Rightarrow> go_time \<Rightarrow> go_time \<Rightarrow> string \<Rightarrow> string option \<Rightarrow> CreateSessionInput \<Rightarrow> PolicySettings \<Rightarrow> adb \<Rightarrow>
   auth_error + AuthSession \<times> adb" where
  "insertLoginSession newID now wall userID deviceID input policy db =
     (if list_ex (\<lambda>s. se_ID s = newID \<or> se_RefreshTokenHash s = ci_RefreshTokenHash input) (td_sessions db) then Inl StatementFailed
      else Inr (\<lparr>as_ID = newID, as_UserID = userID\<rparr>,
        db\<lparr>td_sessions := td_sessions db @
          [\<lparr>se_ID = newID, se_UserID = userID, se_DeviceID = deviceID, se_RefreshTokenHash = ci_RefreshTokenHash input,
            se_IPAddress = nullableString (ci_IPAddress input), se_UserAgent = nullableString (ci_UserAgent input),
            se_CreatedAt = now, se_LastSeenAt = now,
            se_IdleExpiresAt = wall + minutes (po_SessionIdleTimeoutMinutes policy),
            se_AbsoluteExpiresAt = Some (ci_RefreshExpiresAt input), se_RevokedAt = None, se_RevokedReason = None\<rparr>]\<rparr>))"

text \<open>The insertion into the rotation history, by a first login or by a rotation: hashes are unique there.\<close>

definition insert_token :: "string \<Rightarrow> string \<Rightarrow> adb \<Rightarrow> auth_error + adb" where
  "insert_token sessionID hash db =
     (if list_ex (\<lambda>h. th_RefreshTokenHash h = hash) (td_history db) then Inl StatementFailed
      else Inr (db\<lparr>td_history := td_history db @
        [\<lparr>th_SessionID = sessionID, th_RefreshTokenHash = hash, th_Status = ''active'',
          th_RotatedAt = None, th_RevokedAt = None, th_ReusedAt = None\<rparr>]\<rparr>))"

definition insertInitialRefreshTokenHistory :: "string \<Rightarrow> string \<Rightarrow> adb \<Rightarrow> auth_error + adb" where
  "insertInitialRefreshTokenHistory sessionID refreshTokenHash db = insert_token sessionID refreshTokenHash db"

definition touch_last_login :: "go_time \<Rightarrow> string \<Rightarrow> adb \<Rightarrow> adb" where
  "touch_last_login now userID db =
     db\<lparr>td_users := update_rows (\<lambda>u. ac_ID u = userID) (\<lambda>u. u\<lparr>ac_LastLoginAt := Some now\<rparr>) (td_users db)\<rparr>"

definition commitDeviceRefusal ::
  "go_time \<Rightarrow> string \<Rightarrow> CreateSessionInput \<Rightarrow> auth_error \<Rightarrow> adb \<Rightarrow> (auth_error + 'a) \<times> adb" where
  "commitDeviceRefusal now userID input cause db =
     (if cause = errDeviceRevoked then commitFailedLoginAttempt now (Some userID) input ''device_revoked'' db
      else if cause = ErrInvalidCredentials then commitFailedLoginAttempt now (Some userID) input ''max_devices_exceeded'' db
      else (Inl cause, db))"

text \<open>The two new identifiers are the device's and the session's.\<close>

definition grantLoginSession ::
  "string \<Rightarrow> string \<Rightarrow> go_time \<Rightarrow> go_time \<Rightarrow> string \<Rightarrow> CreateSessionInput \<Rightarrow> PolicySettings \<Rightarrow> adb \<Rightarrow>
   (auth_error + AuthSession) \<times> adb" where
  "grantLoginSession newDevice newSession now wall userID input policy db =
     (case revalidateUserActive userID db of
        Some e \<Rightarrow> (Inl e, db)
      | None \<Rightarrow>
          (case resolveLoginDevice newDevice now userID input policy db of
             Inl cause \<Rightarrow> commitDeviceRefusal now userID input cause db
           | Inr (deviceID, db1) \<Rightarrow>
               let db2 = recordLoginAttempt now (Some userID) (ci_Email input) True '''' (ci_IPAddress input) (ci_UserAgent input) db1 in
               (case bind_err (insertLoginSession newSession now wall userID deviceID input policy db2) (\<lambda>(session, db3).
                     bind_err (insertInitialRefreshTokenHistory (as_ID session) (ci_RefreshTokenHash input) db3) (\<lambda>db4.
                     Inr (session, touch_last_login now userID db4))) of
                  Inl e \<Rightarrow> (Inl e, db)
                | Inr (session, db') \<Rightarrow> (Inr session, db'))))"

record CreatedLoginSession =
  cs_Session :: AuthSession
  cs_User :: LoginUser

text \<open>
  The transaction reads committed rows statement by statement, so others commit between the phases: \<open>meanwhile\<close> is what they
  did to the database. Both phases see the transaction's instant; the process's clock has moved on.
\<close>

definition CreateLoginSession ::
  "verifier \<Rightarrow> string \<Rightarrow> string \<Rightarrow> go_time \<Rightarrow> go_time \<Rightarrow> go_time \<Rightarrow> (adb \<Rightarrow> adb) \<Rightarrow> CreateSessionInput \<Rightarrow> adb \<Rightarrow>
   (auth_error + CreatedLoginSession) \<times> adb" where
  "CreateLoginSession verify newDevice newSession now wall wall' meanwhile input db =
     (let policy = td_policy db in
      case authenticate verify now wall input policy db of
        (Inl e, db') \<Rightarrow> (Inl e, db')
      | (Inr candidate, db1) \<Rightarrow>
          (case grantLoginSession newDevice newSession now wall' (lu_ID (lc_User candidate)) input policy (meanwhile db1) of
             (Inl e, db') \<Rightarrow> (Inl e, db')
           | (Inr session, db') \<Rightarrow> (Inr \<lparr>cs_Session = session, cs_User = lc_User candidate\<rparr>, db')))"

section \<open>Single sign-on\<close>

text \<open>
  A sign-on starts with a request row under the hash of its state, which the callback uses up. The statement that does so
  commits by itself, before the stored label of the application is read back.
\<close>

record OIDCLoginRequest =
  lq_ID :: string
  lq_Provider :: string
  lq_StateHash :: string
  lq_NonceHash :: string
  lq_PKCEVerifierEncrypted :: string
  lq_RedirectAfter :: string
  lq_AppContext :: string
  lq_ExpiresAt :: go_time

record OIDCConsumedAuthRequest =
  cr_ID :: string
  cr_Provider :: string
  cr_NonceHash :: string
  cr_PKCEVerifierEncrypted :: string
  cr_RedirectAfter :: string
  cr_AppContext :: string

definition ParseOIDCAppContext :: "string \<Rightarrow> string option" where
  "ParseOIDCAppContext raw =
     (if raw = '''' then Some ''chat'' else if raw = ''chat'' then Some ''chat'' else if raw = ''admin'' then Some ''admin'' else None)"

definition CreateAuthRequest :: "OIDCLoginRequest \<Rightarrow> adb \<Rightarrow> auth_error + adb" where
  "CreateAuthRequest req db =
     (if list_ex (\<lambda>q. aq_ID q = lq_ID req \<or> aq_StateHash q = lq_StateHash req) (td_requests db) then Inl StatementFailed
      else Inr (db\<lparr>td_requests := td_requests db @
        [\<lparr>aq_ID = lq_ID req, aq_Provider = lq_Provider req, aq_StateHash = lq_StateHash req, aq_NonceHash = lq_NonceHash req,
          aq_PKCEVerifierEncrypted = lq_PKCEVerifierEncrypted req, aq_RedirectAfter = nullableString (lq_RedirectAfter req),
          aq_AppContext = lq_AppContext req, aq_ExpiresAt = lq_ExpiresAt req, aq_UsedAt = None\<rparr>]\<rparr>))"

definition ConsumeAuthRequest :: "go_time \<Rightarrow> string \<Rightarrow> string \<Rightarrow> adb \<Rightarrow> (auth_error + OIDCConsumedAuthRequest) \<times> adb" where
  "ConsumeAuthRequest now provider stateHash db =
     (let open_request = (\<lambda>q. aq_Provider q = provider \<and> aq_StateHash q = stateHash \<and> aq_UsedAt q = None \<and> now < aq_ExpiresAt q) in
      case find open_request (td_requests db) of
        None \<Rightarrow> (Inl ErrInvalidToken, db)
      | Some q \<Rightarrow>
          (case ParseOIDCAppContext (aq_AppContext q) of
             None \<Rightarrow> Inl ErrInvalidToken
           | Some parsed \<Rightarrow>
               Inr \<lparr>cr_ID = aq_ID q, cr_Provider = aq_Provider q, cr_NonceHash = aq_NonceHash q,
                    cr_PKCEVerifierEncrypted = aq_PKCEVerifierEncrypted q,
                    cr_RedirectAfter = (case aq_RedirectAfter q of None \<Rightarrow> '''' | Some r \<Rightarrow> r), cr_AppContext = parsed\<rparr>,
           db\<lparr>td_requests := update_rows open_request (\<lambda>q. q\<lparr>aq_UsedAt := Some now\<rparr>) (td_requests db)\<rparr>))"

record OIDCSessionInput =
  oi_Provider :: string
  oi_Subject :: string
  oi_Email :: string
  oi_DisplayName :: string
  oi_FullName :: string
  oi_AvatarURL :: string
  oi_RefreshTokenHash :: string
  oi_RefreshExpiresAt :: go_time
  oi_DeviceFingerprintHash :: string
  oi_DeviceName :: string
  oi_Platform :: string
  oi_IPAddress :: string
  oi_UserAgent :: string
  oi_AutoProvision :: bool

definition oidc_account :: "string \<Rightarrow> string \<Rightarrow> account_row \<Rightarrow> bool" where
  "oidc_account provider subject u \<longleftrightarrow>
     ac_AuthSource u = ''oidc'' \<and> ac_ExternalProvider u = Some provider \<and> ac_ExternalSubject u = Some subject"

definition selectOIDCUserBySubject :: "string \<Rightarrow> string \<Rightarrow> adb \<Rightarrow> auth_error + LoginUser option" where
  "selectOIDCUserBySubject provider subject db =
     (case find (oidc_account provider subject) (td_users db) of
        None \<Rightarrow> Inr None
      | Some u \<Rightarrow>
          if active_account u
          then Inr (Some \<lparr>lu_ID = ac_ID u, lu_Email = ac_Email u, lu_DisplayName = ac_DisplayName u, lu_MustChangePassword = False\<rparr>)
          else Inl ErrInvalidCredentials)"

definition oidcEmailExists :: "string \<Rightarrow> adb \<Rightarrow> bool" where
  "oidcEmailExists email db = list_ex (\<lambda>u. same_address (ac_Email u) email) (td_users db)"

definition or_else :: "string \<Rightarrow> 'a \<Rightarrow> (string \<Rightarrow> 'a) \<Rightarrow> 'a" where
  "or_else s old f = (if s = '''' then old else f s)"

definition syncOIDCUserProfile :: "string \<Rightarrow> OIDCSessionInput \<Rightarrow> adb \<Rightarrow> auth_error + string \<times> adb" where
  "syncOIDCUserProfile userID input db =
     (let sync = (\<lambda>u. u\<lparr>ac_DisplayName := or_else (oi_DisplayName input) (ac_DisplayName u) id,
                        ac_FullName := or_else (oi_FullName input) (ac_FullName u) Some,
                        ac_AvatarURL := (case ac_AvatarURL u of None \<Rightarrow> nullableString (oi_AvatarURL input) | Some a \<Rightarrow> Some a)\<rparr>) in
      case find (\<lambda>u. ac_ID u = userID) (td_users db) of
        None \<Rightarrow> Inl StatementFailed
      | Some u \<Rightarrow> Inr (ac_DisplayName (sync u), db\<lparr>td_users := update_rows (\<lambda>u. ac_ID u = userID) sync (td_users db)\<rparr>))"

definition DefaultDisplayName :: string where
  "DefaultDisplayName = ''Usu'' @ [CHR 0xC3, CHR 0xA1] @ ''rio''"

definition account_conflict :: "account_row \<Rightarrow> account_row \<Rightarrow> bool" where
  "account_conflict u v \<longleftrightarrow>
     same_address (ac_Email u) (ac_Email v) \<or>
     ac_AuthSource u = ''oidc'' \<and> ac_AuthSource v = ''oidc'' \<and> ac_ExternalSubject u \<noteq> None \<and>
       ac_ExternalProvider u = ac_ExternalProvider v \<and> ac_ExternalSubject u = ac_ExternalSubject v"

definition oidc_user :: "string \<Rightarrow> OIDCSessionInput \<Rightarrow> account_row" where
  "oidc_user newID input =
     \<lparr>ac_ID = newID, ac_Email = oi_Email input, ac_DisplayName = or_else (oi_DisplayName input) DefaultDisplayName id,
      ac_FullName = nullableString (oi_FullName input), ac_AvatarURL = nullableString (oi_AvatarURL input),
      ac_Status = ''active'', ac_AuthSource = ''oidc'', ac_ExternalProvider = Some (oi_Provider input),
      ac_ExternalSubject = Some (oi_Subject input), ac_LastLoginAt = None, ac_DeletedAt = None\<rparr>"

definition insertOIDCUser :: "string \<Rightarrow> OIDCSessionInput \<Rightarrow> adb \<Rightarrow> (LoginUser \<times> adb) option" where
  "insertOIDCUser newID input db =
     (let u = oidc_user newID input in
      if list_ex (\<lambda>v. account_conflict u v \<or> ac_ID v = newID) (td_users db) then None
      else Some (\<lparr>lu_ID = newID, lu_Email = oi_Email input, lu_DisplayName = ac_DisplayName u, lu_MustChangePassword = False\<rparr>,
                 db\<lparr>td_users := td_users db @ [u]\<rparr>))"

definition enrollInDefaultWorkspace :: "string \<Rightarrow> adb \<Rightarrow> auth_error + adb" where
  "enrollInDefaultWorkspace userID db =
     (case filter (\<lambda>(w, slug, status). slug = ''default'' \<and> status = ''active'') (td_workspaces db) of
        [] \<Rightarrow> Inl errDefaultWorkspaceMissing
      | rows \<Rightarrow>
          if list_ex (\<lambda>(w, u, _). u = userID \<and> w \<in> set (map fst rows)) (td_members db) then Inl StatementFailed
          else Inr (db\<lparr>td_members := td_members db @ map (\<lambda>(w, _). (w, userID, ''member'', ''active'')) rows\<rparr>))"

definition resolveOIDCUser :: "string \<Rightarrow> OIDCSessionInput \<Rightarrow> adb \<Rightarrow> auth_error + LoginUser \<times> adb" where
  "resolveOIDCUser newID input db =
     bind_err (selectOIDCUserBySubject (oi_Provider input) (oi_Subject input) db) (\<lambda>found.
     case found of
       Some user \<Rightarrow>
         bind_err (syncOIDCUserProfile (lu_ID user) input db) (\<lambda>(displayName, db').
         Inr (user\<lparr>lu_DisplayName := displayName\<rparr>, db'))
     | None \<Rightarrow>
         if oidcEmailExists (oi_Email input) db then Inl ErrOIDCAccountConflict
         else if \<not> oi_AutoProvision input then Inl ErrOIDCProvisioningDisabled
         else (case insertOIDCUser newID input db of
             Some (user, db1) \<Rightarrow> bind_err (enrollInDefaultWorkspace (lu_ID user) db1) (\<lambda>db2. Inr (user, db2))
           | None \<Rightarrow>
               bind_err (selectOIDCUserBySubject (oi_Provider input) (oi_Subject input) db) (\<lambda>again.
               case again of None \<Rightarrow> Inl ErrOIDCAccountConflict | Some user \<Rightarrow> Inr (user, db))))"

definition oidc_session_input :: "OIDCSessionInput \<Rightarrow> CreateSessionInput" where
  "oidc_session_input input =
     \<lparr>ci_Password = '''', ci_Email = oi_Email input, ci_RefreshTokenHash = oi_RefreshTokenHash input,
      ci_RefreshExpiresAt = oi_RefreshExpiresAt input, ci_DeviceFingerprintHash = oi_DeviceFingerprintHash input,
      ci_DeviceName = oi_DeviceName input, ci_Platform = oi_Platform input, ci_IPAddress = oi_IPAddress input,
      ci_UserAgent = oi_UserAgent input\<rparr>"

definition insertOIDCExchange :: "exchange_row \<Rightarrow> adb \<Rightarrow> auth_error + adb" where
  "insertOIDCExchange exchange db =
     (if list_ex (\<lambda>x. xc_ID x = xc_ID exchange \<or> xc_CodeHash x = xc_CodeHash exchange) (td_codes db) then Inl StatementFailed
      else Inr (db\<lparr>td_codes := td_codes db @ [exchange\<lparr>xc_UsedAt := None\<rparr>]\<rparr>))"

text \<open>\<open>buildExchange\<close> is the caller's callback: it encrypts the tokens of the new session under a one-time code.\<close>

definition CreateOIDCSessionAndExchange ::
  "(AuthSession \<Rightarrow> LoginUser \<Rightarrow> auth_error + exchange_row) \<Rightarrow> string \<Rightarrow> string \<Rightarrow> string \<Rightarrow> go_time \<Rightarrow> go_time \<Rightarrow> OIDCSessionInput \<Rightarrow>
   adb \<Rightarrow> auth_error + (AuthSession \<times> LoginUser) \<times> adb" where
  "CreateOIDCSessionAndExchange buildExchange newUser newDevice newSession now wall input db =
     (let policy = td_policy db in
      bind_err (resolveOIDCUser newUser input db) (\<lambda>(user, db1).
      bind_err (case resolveLoginDevice newDevice now (lu_ID user) (oidc_session_input input) policy db1 of
                  Inl e \<Rightarrow> Inl (if e = errDeviceRevoked \<or> e = ErrInvalidCredentials then ErrInvalidCredentials else e)
                | Inr r \<Rightarrow> Inr r) (\<lambda>(deviceID, db2).
      let db3 = recordLoginAttempt now (Some (lu_ID user)) (oi_Email input) True '''' (oi_IPAddress input) (oi_UserAgent input) db2 in
      bind_err (insertLoginSession newSession now wall (lu_ID user) deviceID (oidc_session_input input) policy db3) (\<lambda>(session, db4).
      bind_err (insertInitialRefreshTokenHistory (as_ID session) (oi_RefreshTokenHash input) db4) (\<lambda>db5.
      bind_err (buildExchange session user) (\<lambda>exchange.
      bind_err (insertOIDCExchange exchange (touch_last_login now (lu_ID user) db5)) (\<lambda>db7.
      Inr ((session, user), db7))))))))"

definition live_code :: "go_time \<Rightarrow> exchange_row \<Rightarrow> bool" where
  "live_code now x \<longleftrightarrow> xc_UsedAt x = None \<and> now < xc_ExpiresAt x"

definition ConsumeExchange :: "go_time \<Rightarrow> string \<Rightarrow> string \<Rightarrow> adb \<Rightarrow> auth_error + exchange_row \<times> adb" where
  "ConsumeExchange now provider codeHash db =
     (let redeem = (\<lambda>x. xc_Provider x = provider \<and> xc_CodeHash x = codeHash \<and> live_code now x \<and> account_active db (xc_UserID x)) in
      case find redeem (td_codes db) of
        None \<Rightarrow> Inl ErrInvalidToken
      | Some x \<Rightarrow> Inr (x, db\<lparr>td_codes := update_rows redeem (\<lambda>x. x\<lparr>xc_UsedAt := Some now\<rparr>) (td_codes db)\<rparr>))"

end
