(* ===== verification/Auth_Session.thy ===== *)
theory Auth_Session
  imports Auth_Login Ownership_Invalidation
begin

text \<open>
  The transactions on sessions and accounts: refresh and logout (\<open>storage/session_store.go\<close>), sessions and devices
  (\<open>storage/device_session_store.go\<close>), password recovery (\<open>storage/password_reset_store.go\<close>), invitations
  (\<open>storage/invite_store.go\<close>), creation and suspension of accounts (\<open>storage/user_store.go\<close>), the same on the side of the
  administration (\<open>admin-service/internal/storage/user_store.go\<close>), and the validity of a session as every service reads it
  (\<open>libs/go/platform/authsession/query.go\<close>). A transaction that fails without committing leaves the tables alone.
\<close>

section \<open>Refresh and logout\<close>

definition has_active_token :: "session_row \<Rightarrow> adb \<Rightarrow> bool" where
  "has_active_token s db \<longleftrightarrow>
     list_ex (\<lambda>h. th_SessionID h = se_ID s \<and> th_RefreshTokenHash h = se_RefreshTokenHash s \<and> th_Status h = ''active'') (td_history db)"

definition revokeSessionForReusedToken :: "go_time \<Rightarrow> string \<Rightarrow> adb \<Rightarrow> bool \<times> adb" where
  "revokeSessionForReusedToken now hash db =
     (case find (\<lambda>h. th_RefreshTokenHash h = hash \<and> th_Status h = ''rotated'') (td_history db) of
        None \<Rightarrow> (False, db)
      | Some h \<Rightarrow>
          let db1 = db\<lparr>td_history := update_rows (\<lambda>h. th_RefreshTokenHash h = hash \<and> th_Status h = ''rotated'')
                         (\<lambda>h. h\<lparr>th_Status := ''reused'', th_ReusedAt := Some now\<rparr>) (td_history db)\<rparr> in
          (True, revoke_tokens now (\<lambda>i. i = th_SessionID h)
                   (revoke_sessions now ''refresh_token_reuse_detected'' (\<lambda>s. se_ID s = th_SessionID h) db1)))"

definition refresh_session :: "go_time \<Rightarrow> string \<Rightarrow> adb \<Rightarrow> session_row option" where
  "refresh_session now hash db =
     find (\<lambda>s. se_RefreshTokenHash s = hash \<and> session_current now s \<and> has_active_token s db \<and> account_active db (se_UserID s))
       (td_sessions db)"

definition RotateRefreshToken :: "go_time \<Rightarrow> go_time \<Rightarrow> string \<Rightarrow> string \<Rightarrow> adb \<Rightarrow> (auth_error + AuthSession) \<times> adb" where
  "RotateRefreshToken now wall oldHash newHash db =
     (case refresh_session now oldHash db of
        None \<Rightarrow>
          (let (revoked, db') = revokeSessionForReusedToken now oldHash db in
           (Inl ErrInvalidRefreshToken, if revoked then db' else db))
      | Some s \<Rightarrow>
          let idleExpiresAt = wall + minutes (po_SessionIdleTimeoutMinutes (td_policy db));
              old_token = (\<lambda>h. th_SessionID h = se_ID s \<and> th_RefreshTokenHash h = oldHash \<and> th_Status h = ''active'');
              target = (\<lambda>x. se_ID x = se_ID s \<and> se_RefreshTokenHash x = oldHash \<and> se_RevokedAt x = None);
              db1 = db\<lparr>td_history := update_rows old_token (\<lambda>h. h\<lparr>th_Status := ''rotated'', th_RotatedAt := Some now\<rparr>) (td_history db)\<rparr>;
              db2 = db1\<lparr>td_sessions := update_rows target
                          (\<lambda>x. x\<lparr>se_RefreshTokenHash := newHash, se_IdleExpiresAt := idleExpiresAt, se_LastSeenAt := now\<rparr>) (td_sessions db1)\<rparr> in
          if length (filter old_token (td_history db)) \<noteq> 1 then (Inl ErrInvalidRefreshToken, db)
          else if list_ex (\<lambda>x. \<not> target x \<and> se_RefreshTokenHash x = newHash) (td_sessions db) then (Inl StatementFailed, db)
          else if length (filter target (td_sessions db)) \<noteq> 1 then (Inl ErrInvalidRefreshToken, db)
          else (case insert_token (se_ID s) newHash db2 of
                  Inl e \<Rightarrow> (Inl e, db)
                | Inr db' \<Rightarrow> (Inr \<lparr>as_ID = se_ID s, as_UserID = se_UserID s\<rparr>, db')))"

definition RevokeRefreshToken :: "go_time \<Rightarrow> string \<Rightarrow> adb \<Rightarrow> auth_error + adb" where
  "RevokeRefreshToken now hash db =
     (case find (\<lambda>s. se_RefreshTokenHash s = hash \<and> se_RevokedAt s = None \<and> has_active_token s db) (td_sessions db) of
        None \<Rightarrow> Inl ErrInvalidRefreshToken
      | Some s \<Rightarrow>
          if length (filter (\<lambda>x. se_ID x = se_ID s \<and> se_RevokedAt x = None) (td_sessions db)) \<noteq> 1 then Inl ErrInvalidRefreshToken
          else Inr (revoke_tokens now (\<lambda>i. i = se_ID s) (revoke_sessions now ''logout'' (\<lambda>x. se_ID x = se_ID s) db)))"

section \<open>Sessions and devices\<close>

definition ActiveSessionCTE :: "go_time \<Rightarrow> string \<Rightarrow> string \<Rightarrow> adb \<Rightarrow> (string \<times> go_time) option" where
  "ActiveSessionCTE now sessionID userID db =
     map_option (\<lambda>s. (se_UserID s, case se_AbsoluteExpiresAt s of None \<Rightarrow> se_IdleExpiresAt s | Some t \<Rightarrow> min (se_IdleExpiresAt s) t))
       (find (\<lambda>s. se_ID s = sessionID \<and> se_UserID s = userID \<and> session_current now s \<and> account_active db (se_UserID s)) (td_sessions db))"

definition ValidateActiveSession :: "go_time \<Rightarrow> string \<Rightarrow> string \<Rightarrow> adb \<Rightarrow> auth_error option" where
  "ValidateActiveSession now userID sessionID db =
     (case ActiveSessionCTE now sessionID userID db of None \<Rightarrow> Some ErrInvalidToken | Some _ \<Rightarrow> None)"

definition ListSessions :: "string \<Rightarrow> bool \<Rightarrow> nat \<Rightarrow> adb \<Rightarrow> session_row list" where
  "ListSessions userID includeRevoked lim db =
     take lim (rev (sort_key (\<lambda>s. (se_CreatedAt s, se_ID s))
       (filter (\<lambda>s. se_UserID s = userID \<and> (includeRevoked \<or> se_RevokedAt s = None)) (td_sessions db))))"

definition RevokeSession :: "go_time \<Rightarrow> string \<Rightarrow> string \<Rightarrow> adb \<Rightarrow> auth_error + adb" where
  "RevokeSession now sessionID userID db =
     (if list_ex (\<lambda>s. se_ID s = sessionID \<and> se_UserID s = userID) (td_sessions db)
      then Inr (revoke_tokens now (\<lambda>i. i = sessionID)
                  (revoke_sessions now ''user_revoked'' (\<lambda>s. se_ID s = sessionID \<and> se_UserID s = userID) db))
      else Inl ErrAccountNotFound)"

definition RevokeAllSessionsExcept :: "go_time \<Rightarrow> string \<Rightarrow> string \<Rightarrow> adb \<Rightarrow> adb" where
  "RevokeAllSessionsExcept now userID exceptSessionID db =
     revoke_with_tokens now ''user_revoked_all'' (\<lambda>s. se_UserID s = userID \<and> se_ID s \<noteq> exceptSessionID) db"

record DeviceInfo =
  di_Device :: device_row
  di_SessionCount :: nat
  di_Current :: bool

definition device_info :: "string \<Rightarrow> string \<Rightarrow> adb \<Rightarrow> device_row \<Rightarrow> DeviceInfo" where
  "device_info userID currentSessionID db d =
     \<lparr>di_Device = d,
      di_SessionCount = length (filter (\<lambda>s. se_DeviceID s = Some (de_ID d) \<and> se_UserID s = de_UserID d \<and> se_RevokedAt s = None) (td_sessions db)),
      di_Current = (currentSessionID \<noteq> '''' \<and>
        (case find (\<lambda>s. se_ID s = currentSessionID \<and> se_UserID s = userID) (td_sessions db) of
           None \<Rightarrow> False | Some s \<Rightarrow> se_DeviceID s = Some (de_ID d)))\<rparr>"

definition ListDevices :: "string \<Rightarrow> string \<Rightarrow> bool \<Rightarrow> nat \<Rightarrow> adb \<Rightarrow> DeviceInfo list \<times> int" where
  "ListDevices userID currentSessionID includeRevoked lim db =
     (take lim (map (device_info userID currentSessionID db)
        (rev (sort_key (\<lambda>d. (de_LastSeenAt d, de_ID d))
          (filter (\<lambda>d. de_UserID d = userID \<and> (includeRevoked \<or> de_RevokedAt d = None)) (td_devices db))))),
      po_MaxDevicesPerUser (td_policy db))"

definition RevokeDevice :: "go_time \<Rightarrow> string \<Rightarrow> string \<Rightarrow> adb \<Rightarrow> auth_error + adb" where
  "RevokeDevice now deviceID userID db =
     (if list_ex (\<lambda>d. de_ID d = deviceID \<and> de_UserID d = userID) (td_devices db)
      then Inr (revoke_with_tokens now ''device_revoked'' (\<lambda>s. se_DeviceID s = Some deviceID \<and> se_UserID s = userID)
                  (db\<lparr>td_devices := update_rows (\<lambda>d. de_ID d = deviceID \<and> de_UserID d = userID \<and> de_RevokedAt d = None)
                        (\<lambda>d. d\<lparr>de_RevokedAt := Some now\<rparr>) (td_devices db)\<rparr>))
      else Inl ErrAccountNotFound)"

definition UpdateDeviceDisplayName :: "string \<Rightarrow> string \<Rightarrow> string \<Rightarrow> adb \<Rightarrow> auth_error + adb" where
  "UpdateDeviceDisplayName deviceID userID name db =
     (let target = (\<lambda>d. de_ID d = deviceID \<and> de_UserID d = userID \<and> de_RevokedAt d = None) in
      if list_ex target (td_devices db)
      then Inr (db\<lparr>td_devices := update_rows target (\<lambda>d. d\<lparr>de_DisplayName := nullableString name\<rparr>) (td_devices db)\<rparr>)
      else Inl ErrAccountNotFound)"

section \<open>Password recovery\<close>

definition manual_account :: "account_row \<Rightarrow> bool" where
  "manual_account u \<longleftrightarrow> active_account u \<and> ac_AuthSource u = ''manual''"

definition GetActiveUserForPasswordReset :: "string \<Rightarrow> adb \<Rightarrow> string option" where
  "GetActiveUserForPasswordReset email db =
     map_option ac_ID (find (\<lambda>u. same_address (ac_Email u) email \<and> manual_account u) (td_users db))"

definition CreatePasswordResetToken ::
  "string \<Rightarrow> go_time \<Rightarrow> string \<Rightarrow> string \<Rightarrow> string \<Rightarrow> go_time \<Rightarrow> string \<Rightarrow> adb \<Rightarrow> auth_error + adb" where
  "CreatePasswordResetToken newID now userID email tokenHash expiresAt payload db =
     (if \<not> list_ex (\<lambda>u. ac_ID u = userID \<and> same_address (ac_Email u) email \<and> manual_account u) (td_users db) then Inr db
      else if list_ex (\<lambda>t. rt_ID t = newID \<or> rt_TokenHash t = tokenHash) (td_resets db) then Inl StatementFailed
      else Inr (db\<lparr>
        td_resets := update_rows (\<lambda>t. rt_UserID t = userID \<and> rt_UsedAt t = None) (\<lambda>t. t\<lparr>rt_UsedAt := Some now\<rparr>) (td_resets db) @
          [\<lparr>rt_ID = newID, rt_UserID = userID, rt_TokenHash = tokenHash, rt_ExpiresAt = expiresAt, rt_UsedAt = None\<rparr>],
        td_emails := td_emails db @
          [\<lparr>em_Kind = ''password_reset'', em_ToEmail = email, em_Subject = ''Reset your NChat password'',
            em_TemplateKey = ''auth.password_reset'', em_ResetTokenID = Some newID, em_InviteID = None,
            em_UserID = Some userID, em_Payload = payload\<rparr>]\<rparr>))"

definition ResetPasswordTx :: "go_time \<Rightarrow> go_time \<Rightarrow> string \<Rightarrow> string \<Rightarrow> adb \<Rightarrow> auth_error + adb" where
  "ResetPasswordTx now wall tokenHash newPasswordHash db =
     (case find (\<lambda>t. rt_TokenHash t = tokenHash \<and> list_ex (\<lambda>u. ac_ID u = rt_UserID t \<and> manual_account u) (td_users db)) (td_resets db) of
        None \<Rightarrow> Inl ErrInvalidToken
      | Some t \<Rightarrow>
          if rt_UsedAt t \<noteq> None \<or> \<not> wall < rt_ExpiresAt t then Inl ErrInvalidToken
          else if length (filter (\<lambda>c. pc_UserID c = rt_UserID t) (td_credentials db)) \<noteq> 1 then Inl ErrInvalidToken
          else
            let db1 = db\<lparr>td_credentials := update_rows (\<lambda>c. pc_UserID c = rt_UserID t)
                           (\<lambda>c. c\<lparr>pc_PasswordHash := newPasswordHash, pc_PasswordChangedAt := now\<rparr>) (td_credentials db),
                         td_resets := update_rows (\<lambda>x. rt_ID x = rt_ID t \<and> rt_UsedAt x = None) (\<lambda>x. x\<lparr>rt_UsedAt := Some now\<rparr>) (td_resets db)\<rparr>;
                db2 = revoke_sessions now ''password_reset'' (\<lambda>s. se_UserID s = rt_UserID t) db1 in
            Inr (revoke_tokens now (\<lambda>i. list_ex (\<lambda>s. se_ID s = i \<and> se_UserID s = rt_UserID t) (td_sessions db2)) db2))"

section \<open>Accounts\<close>

definition insert_account :: "account_row \<Rightarrow> adb \<Rightarrow> auth_error + adb" where
  "insert_account u db =
     (if list_ex (\<lambda>v. account_conflict u v \<or> ac_ID v = ac_ID u) (td_users db) then Inl ErrDuplicateEmail
      else Inr (db\<lparr>td_users := td_users db @ [u]\<rparr>))"

definition insert_credential :: "go_time \<Rightarrow> string \<Rightarrow> string \<Rightarrow> bool \<Rightarrow> adb \<Rightarrow> auth_error + adb" where
  "insert_credential now userID passwordHash mustChange db =
     (if list_ex (\<lambda>c. pc_UserID c = userID) (td_credentials db) then Inl StatementFailed
      else Inr (db\<lparr>td_credentials := td_credentials db @
        [\<lparr>pc_UserID = userID, pc_PasswordHash = passwordHash, pc_PasswordChangedAt = now, pc_MustChangePassword = mustChange\<rparr>]\<rparr>))"

definition manual_user :: "string \<Rightarrow> string \<Rightarrow> string \<Rightarrow> string \<Rightarrow> account_row" where
  "manual_user newID email displayName fullName =
     \<lparr>ac_ID = newID, ac_Email = email, ac_DisplayName = displayName, ac_FullName = nullableString fullName, ac_AvatarURL = None,
      ac_Status = ''active'', ac_AuthSource = ''manual'', ac_ExternalProvider = None, ac_ExternalSubject = None,
      ac_LastLoginAt = None, ac_DeletedAt = None\<rparr>"

record CreateUserInput =
  cu_Email :: string
  cu_DisplayName :: string
  cu_FullName :: string
  cu_InitialPassword :: string
  cu_MustChangePassword :: bool

definition CreateUser :: "string \<Rightarrow> go_time \<Rightarrow> CreateUserInput \<Rightarrow> string \<Rightarrow> adb \<Rightarrow> auth_error + account_row \<times> adb" where
  "CreateUser newID now input passwordHash db =
     (let u = manual_user newID (cu_Email input) (cu_DisplayName input) (cu_FullName input) in
      bind_err (insert_account u db) (\<lambda>db1.
      bind_err (insert_credential now newID passwordHash (cu_MustChangePassword input) db1) (\<lambda>db2. Inr (u, db2))))"

definition userExistsByEmailTx :: "string \<Rightarrow> adb \<Rightarrow> bool" where
  "userExistsByEmailTx email db = list_ex (\<lambda>u. same_address (ac_Email u) email) (td_users db)"

definition activeInviteExistsByEmailTx :: "go_time \<Rightarrow> string \<Rightarrow> adb \<Rightarrow> bool" where
  "activeInviteExistsByEmailTx now email db =
     list_ex (\<lambda>i. same_address (iv_Email i) email \<and> iv_Status i = ''pending'' \<and> iv_AcceptedAt i = None \<and> iv_RevokedAt i = None \<and>
                  now < iv_ExpiresAt i) (td_invites db)"

definition CreateInvite ::
  "string \<Rightarrow> go_time \<Rightarrow> string \<Rightarrow> string \<Rightarrow> go_time \<Rightarrow> string \<Rightarrow> adb \<Rightarrow> auth_error + invite_row \<times> adb" where
  "CreateInvite newID now email tokenHash expiresAt payload db =
     (if userExistsByEmailTx email db then Inl ErrDuplicateEmail
      else if activeInviteExistsByEmailTx now email db then Inl ErrInviteAlreadyPending
      else if list_ex (\<lambda>i. iv_ID i = newID \<or> iv_TokenHash i = tokenHash) (td_invites db) then Inl StatementFailed
      else
        let i = \<lparr>iv_ID = newID, iv_Email = email, iv_TokenHash = tokenHash, iv_Status = ''pending'', iv_ExpiresAt = expiresAt,
                 iv_AcceptedAt = None, iv_AcceptedBy = None, iv_RevokedAt = None, iv_CreatedAt = now\<rparr> in
        Inr (i, db\<lparr>td_invites := td_invites db @ [i],
                   td_emails := td_emails db @
                     [\<lparr>em_Kind = ''invite'', em_ToEmail = email, em_Subject = ''You have been invited to NChat'',
                       em_TemplateKey = ''auth.invite'', em_ResetTokenID = None, em_InviteID = Some newID, em_UserID = None,
                       em_Payload = payload\<rparr>]\<rparr>))"

definition AcceptInviteTx ::
  "string \<Rightarrow> go_time \<Rightarrow> go_time \<Rightarrow> string \<Rightarrow> string \<Rightarrow> string \<Rightarrow> string \<Rightarrow> adb \<Rightarrow> auth_error + account_row \<times> adb" where
  "AcceptInviteTx newID now wall tokenHash displayName fullName passwordHash db =
     (case find (\<lambda>i. iv_TokenHash i = tokenHash) (td_invites db) of
        None \<Rightarrow> Inl ErrInvalidToken
      | Some i \<Rightarrow>
          if iv_AcceptedAt i \<noteq> None \<or> iv_RevokedAt i \<noteq> None \<or> iv_Status i \<noteq> ''pending'' \<or> \<not> wall < iv_ExpiresAt i then Inl ErrInvalidToken
          else
            let u = manual_user newID (iv_Email i) displayName fullName;
                target = (\<lambda>x. iv_ID x = iv_ID i \<and> iv_AcceptedAt x = None \<and> iv_RevokedAt x = None \<and> iv_Status x = ''pending'') in
            bind_err (insert_account u db) (\<lambda>db1.
            bind_err (insert_credential now newID passwordHash False db1) (\<lambda>db2.
            if length (filter target (td_invites db2)) \<noteq> 1 then Inl ErrInvalidToken
            else Inr (u, db2\<lparr>td_invites := update_rows target
                   (\<lambda>x. x\<lparr>iv_AcceptedAt := Some now, iv_AcceptedBy := Some newID, iv_Status := ''accepted''\<rparr>) (td_invites db2)\<rparr>))))"

section \<open>Suspension\<close>

definition closeOutSuspendedAccess :: "go_time \<Rightarrow> string \<Rightarrow> string \<Rightarrow> adb \<Rightarrow> adb" where
  "closeOutSuspendedAccess now userID newStatus db =
     (if newStatus \<noteq> ''suspended'' then db
      else let db1 = revoke_with_tokens now ''admin_suspension'' (\<lambda>s. se_UserID s = userID) db in
        db1\<lparr>td_codes := update_rows (\<lambda>x. live_code now x \<and> xc_UserID x = userID) (\<lambda>x. x\<lparr>xc_UsedAt := Some now\<rparr>) (td_codes db1)\<rparr>)"

definition set_status :: "string \<Rightarrow> string \<Rightarrow> adb \<Rightarrow> adb" where
  "set_status userID newStatus db =
     db\<lparr>td_users := update_rows (\<lambda>u. ac_ID u = userID \<and> ac_DeletedAt u = None) (\<lambda>u. u\<lparr>ac_Status := newStatus\<rparr>) (td_users db)\<rparr>"

definition succeedAccountSuspension :: "'s Session \<Rightarrow> string \<Rightarrow> string \<Rightarrow> bool \<Rightarrow> 's \<Rightarrow> store_error option \<times> 's" where
  "succeedAccountSuspension session userID newStatus available chat =
     (if \<not> available \<or> newStatus \<noteq> ''suspended'' then (None, chat) else Invalidate session userID '''' chat)"

text \<open>
  The transaction spans the conversations too, through the callbacks of the ownership protocol. Its outer error is one
  of that protocol, which \<open>Retry\<close> reads; the inner one is the service's own.
\<close>

definition updateUserStatusOnce ::
  "'s Session \<Rightarrow> ('s \<Rightarrow> bool) \<Rightarrow> go_time \<Rightarrow> string \<Rightarrow> string \<Rightarrow> 's \<times> adb \<Rightarrow> (store_error + (auth_error + account_row)) \<times> 's \<times> adb" where
  "updateUserStatusOnce session available now userID newStatus st =
     (let (chat, db) = st in
      case find (\<lambda>u. ac_ID u = userID \<and> ac_DeletedAt u = None) (td_users db) of
        None \<Rightarrow> (Inr (Inl ErrAccountNotFound), st)
      | Some u \<Rightarrow>
          (case ValidateStatusTransition (ac_Status u) newStatus of
             Some e \<Rightarrow> (Inr (Inl e), st)
           | None \<Rightarrow>
               (case succeedAccountSuspension session userID newStatus (available chat) chat of
                  (Some e, _) \<Rightarrow> (Inl e, st)
                | (None, chat') \<Rightarrow>
                    (Inr (Inr (u\<lparr>ac_Status := newStatus\<rparr>)), chat',
                     closeOutSuspendedAccess now userID newStatus (set_status userID newStatus db)))))"

definition UpdateUserStatus ::
  "'s Session \<Rightarrow> ('s \<Rightarrow> bool) \<Rightarrow> ('s \<times> adb \<Rightarrow> store_error option) \<Rightarrow> go_time \<Rightarrow> string \<Rightarrow> string \<Rightarrow> 's \<times> adb \<Rightarrow>
   (store_error + (auth_error + account_row)) \<times> 's \<times> adb" where
  "UpdateUserStatus session available ctx_err now userID newStatus st =
     (case Retry ctx_err (updateUserStatusOnce session available now userID newStatus) st of
        (Inl e, st') \<Rightarrow> (if SQLState e = ''P0953'' then Inr (Inl ErrConversationOwnershipConflict) else Inl e, st')
      | (Inr r, st') \<Rightarrow> (Inr r, st'))"

text \<open>The administration's forced sign-out, and its count of the sessions it closed.\<close>

definition RevokeUserSessions :: "go_time \<Rightarrow> string \<Rightarrow> adb \<Rightarrow> auth_error + nat \<times> adb" where
  "RevokeUserSessions now userID db =
     (if list_ex (\<lambda>u. ac_ID u = userID \<and> ac_DeletedAt u = None) (td_users db)
      then Inr (length (filter (\<lambda>s. se_UserID s = userID \<and> se_RevokedAt s = None) (td_sessions db)),
                revoke_with_tokens now ''admin_revocation'' (\<lambda>s. se_UserID s = userID) db)
      else Inl ErrAccountNotFound)"

end
