(* ===== verification/Auth_Lifecycle.thy ===== *)
theory Auth_Lifecycle
  imports Auth_Session "HOL-Library.Word"
begin

unbundle bit_operations_syntax

text \<open>
  Sessions over time. A step is one transaction of \<open>auth-service\<close> or of the administration. A password login is two
  steps, because between the verification of the password and the grant other transactions commit: the advisory lock it
  holds meanwhile only keeps out logins for an address with the same key. Every clock reading is arbitrary. The events of
  a step are what its caller is handed.
\<close>

section \<open>Steps\<close>

definition emailAdvisoryKey :: "string \<Rightarrow> int" where
  "emailAdvisoryKey email =
     sint (foldl (\<lambda>h c. (h XOR of_nat (of_char c)) * 1099511628211) (14695981039346656037 :: 64 word) email)"

record pending_login =
  pl_Input :: CreateSessionInput
  pl_UserID :: string
  pl_Policy :: PolicySettings

record asys =
  sy_db :: adb
  sy_logins :: "pending_login list"

datatype auth_event =
    Granted string string
  | Refreshed string string
  | Recovered string
  | Redeemed string
  | Joined string
  | Returned string
  | PolicySet PolicySettings

inductive auth_tx :: "adb \<Rightarrow> auth_event list \<Rightarrow> adb \<Rightarrow> bool" where
  Refused: "authenticate verify now wall input (td_policy db) db = (Inl e, db') \<Longrightarrow> auth_tx db [] db'"
| SignOn: "CreateOIDCSessionAndExchange build i j k now wall oidc db = Inr ((s, user), db') \<Longrightarrow> auth_tx db [Granted (as_ID s) (as_UserID s)] db'"
| Refresh: "RotateRefreshToken now wall old new db = (r, db') \<Longrightarrow>
    auth_tx db (case r of Inl e \<Rightarrow> [] | Inr s \<Rightarrow> [Refreshed old (as_ID s)]) db'"
| Logout: "RevokeRefreshToken now hash db = Inr db' \<Longrightarrow> auth_tx db [] db'"
| RevokeOne: "RevokeSession now sid uid db = Inr db' \<Longrightarrow> auth_tx db [] db'"
| RevokeOthers: "auth_tx db [] (RevokeAllSessionsExcept now uid sid db)"
| DropDevice: "RevokeDevice now did uid db = Inr db' \<Longrightarrow> auth_tx db [] db'"
| RenameDevice: "UpdateDeviceDisplayName did uid name db = Inr db' \<Longrightarrow> auth_tx db [] db'"
| Forgot: "CreatePasswordResetToken i now uid email hash expiry payload db = Inr db' \<Longrightarrow> auth_tx db [] db'"
| Reset: "ResetPasswordTx now wall hash password db = Inr db' \<Longrightarrow> auth_tx db [Recovered hash] db'"
| NewUser: "CreateUser i now create password db = Inr (u, db') \<Longrightarrow> auth_tx db [] db'"
| Invite: "CreateInvite i now email hash expiry payload db = Inr (iv, db') \<Longrightarrow> auth_tx db [] db'"
| Accept: "AcceptInviteTx i now wall hash name full password db = Inr (u, db') \<Longrightarrow> auth_tx db [Joined hash] db'"
| Status: "updateUserStatusOnce ownershipSuccessionSession db_enabled now uid status (chat, db) = (Inr (Inr u), chat', db') \<Longrightarrow> auth_tx db [] db'"
| SignOut: "RevokeUserSessions now uid db = Inr (n, db') \<Longrightarrow> auth_tx db [] db'"
| Redeem: "ConsumeExchange now provider code db = Inr (x, db') \<Longrightarrow> auth_tx db [Redeemed code] db'"
| Begin: "CreateAuthRequest req db = Inr db' \<Longrightarrow> auth_tx db [] db'"
| Callback: "ConsumeAuthRequest now provider state db = (cr, db') \<Longrightarrow>
    auth_tx db (case cr of Inl e \<Rightarrow> [] | Inr q \<Rightarrow> [Returned state]) db'"
| Policy: "auth_tx db [PolicySet p] (db\<lparr>td_policy := p\<rparr>)"

inductive auth_step :: "asys \<Rightarrow> auth_event list \<Rightarrow> asys \<Rightarrow> bool" where
  Tx: "auth_tx db evs db' \<Longrightarrow> auth_step \<lparr>sy_db = db, sy_logins = ls\<rparr> evs \<lparr>sy_db = db', sy_logins = ls\<rparr>"
| Authenticated: "\<forall>l \<in> set ls. emailAdvisoryKey (ci_Email (pl_Input l)) \<noteq> emailAdvisoryKey (ci_Email input) \<Longrightarrow>
    authenticate verify now wall input (td_policy db) db = (Inr c, db') \<Longrightarrow>
    auth_step \<lparr>sy_db = db, sy_logins = ls\<rparr> []
      \<lparr>sy_db = db', sy_logins = \<lparr>pl_Input = input, pl_UserID = lu_ID (lc_User c), pl_Policy = td_policy db\<rparr> # ls\<rparr>"
| Grant: "l \<in> set ls \<Longrightarrow> grantLoginSession j k now wall (pl_UserID l) (pl_Input l) (pl_Policy l) db = (r, db') \<Longrightarrow>
    auth_step \<lparr>sy_db = db, sy_logins = ls\<rparr> (case r of Inl e \<Rightarrow> [] | Inr s \<Rightarrow> [Granted (as_ID s) (as_UserID s)])
      \<lparr>sy_db = db', sy_logins = remove1 l ls\<rparr>"

inductive auth_run :: "asys \<Rightarrow> auth_event list \<Rightarrow> asys \<Rightarrow> bool" where
  run_refl: "auth_run s [] s"
| run_step: "auth_run s evs s' \<Longrightarrow> auth_step s' new s'' \<Longrightarrow> auth_run s (evs @ new) s''"

definition start :: "PolicySettings \<Rightarrow> (string \<times> string \<times> string) list \<Rightarrow> asys" where
  "start policy workspaces =
     \<lparr>sy_db = \<lparr>td_policy = policy, td_users = [], td_credentials = [], td_devices = [], td_sessions = [], td_history = [],
               td_attempts = [], td_resets = [], td_invites = [], td_emails = [], td_codes = [], td_requests = [], td_workspaces = workspaces,
               td_members = []\<rparr>,
      sy_logins = []\<rparr>"

inductive_cases auth_stepE: "auth_step s evs s'"

section \<open>The invariant\<close>

definition token_for :: "session_row \<Rightarrow> token_row \<Rightarrow> bool" where
  "token_for s h \<longleftrightarrow>
     th_SessionID h = se_ID s \<and> th_RefreshTokenHash h = se_RefreshTokenHash s \<and> (th_Status h = ''active'') = (se_RevokedAt s = None)"

definition session_for :: "token_row \<Rightarrow> session_row \<Rightarrow> bool" where
  "session_for h s \<longleftrightarrow> se_ID s = th_SessionID h \<and> (th_Status h = ''active'' \<longrightarrow> se_RefreshTokenHash s = th_RefreshTokenHash h)"

definition sessions_ok :: "adb \<Rightarrow> bool" where
  "sessions_ok db \<longleftrightarrow>
     distinct (map se_ID (td_sessions db)) \<and> distinct (map th_RefreshTokenHash (td_history db)) \<and>
     (\<forall>s \<in> set (td_sessions db). \<exists>h \<in> set (td_history db). token_for s h) \<and>
     (\<forall>h \<in> set (td_history db). \<exists>s \<in> set (td_sessions db). session_for h s)"

definition accounts_ok :: "adb \<Rightarrow> bool" where
  "accounts_ok db \<longleftrightarrow>
     distinct (map ac_ID (td_users db)) \<and> (\<forall>s \<in> set (td_sessions db). se_RevokedAt s = None \<longrightarrow> account_active db (se_UserID s))"

text \<open>How a transaction may change what is there: revoked sessions stay as they are, and a spent token only turns into a reused one.\<close>

definition session_kept :: "session_row \<Rightarrow> session_row \<Rightarrow> bool" where
  "session_kept s s' \<longleftrightarrow> se_ID s' = se_ID s \<and> se_UserID s' = se_UserID s \<and> (se_RevokedAt s \<noteq> None \<longrightarrow> s' = s)"

definition token_kept :: "adb \<Rightarrow> token_row \<Rightarrow> token_row \<Rightarrow> bool" where
  "token_kept db' h h' \<longleftrightarrow>
     th_SessionID h' = th_SessionID h \<and> th_RefreshTokenHash h' = th_RefreshTokenHash h \<and>
     (th_Status h' = th_Status h \<or> th_Status h = ''active'' \<or>
      th_Status h = ''rotated'' \<and> th_Status h' = ''reused'' \<and>
        (\<forall>s \<in> set (td_sessions db'). se_ID s = th_SessionID h \<longrightarrow> se_RevokedAt s \<noteq> None))"

definition evolves :: "adb \<Rightarrow> adb \<Rightarrow> bool" where
  "evolves db db' \<longleftrightarrow>
     (\<forall>s \<in> set (td_sessions db). \<exists>s' \<in> set (td_sessions db'). session_kept s s') \<and>
     (\<forall>h \<in> set (td_history db). \<exists>h' \<in> set (td_history db'). token_kept db' h h')"

lemma sessions_okD:
  assumes "sessions_ok db"
  shows "distinct (map se_ID (td_sessions db))" and "distinct (map th_RefreshTokenHash (td_history db))"
    and "s \<in> set (td_sessions db) \<Longrightarrow> \<exists>h \<in> set (td_history db). token_for s h"
    and "h \<in> set (td_history db) \<Longrightarrow> \<exists>s \<in> set (td_sessions db). session_for h s"
  using assms unfolding sessions_ok_def by blast+

lemma session_unique:
  "sessions_ok db \<Longrightarrow> s \<in> set (td_sessions db) \<Longrightarrow> t \<in> set (td_sessions db) \<Longrightarrow> se_ID s = se_ID t \<Longrightarrow> s = t"
  using sessions_okD(1) by (auto simp: distinct_map inj_on_def)

lemma token_unique:
  "sessions_ok db \<Longrightarrow> g \<in> set (td_history db) \<Longrightarrow> h \<in> set (td_history db) \<Longrightarrow> th_RefreshTokenHash g = th_RefreshTokenHash h \<Longrightarrow> g = h"
  using sessions_okD(2) by (auto simp: distinct_map inj_on_def)

lemma account_unique:
  "accounts_ok db \<Longrightarrow> u \<in> set (td_users db) \<Longrightarrow> v \<in> set (td_users db) \<Longrightarrow> ac_ID u = ac_ID v \<Longrightarrow> u = v"
  unfolding accounts_ok_def by (auto simp: distinct_map inj_on_def)

lemma session_kept_refl [simp]: "session_kept s s"
  by (simp add: session_kept_def)

lemma token_kept_refl [simp]: "token_kept db h h"
  by (simp add: token_kept_def)

section \<open>What each kind of transaction does to sessions\<close>

text \<open>Transactions that leave sessions and their tokens alone.\<close>

lemma untouched:
  assumes "sessions_ok db" and "td_sessions db' = td_sessions db" and "td_history db' = td_history db"
  shows "sessions_ok db' \<and> evolves db db'"
  using assms(1) unfolding sessions_ok_def evolves_def assms(2,3) using session_kept_refl token_kept_refl by blast

text \<open>A new session with its first token.\<close>

lemma session_added:
  assumes ok: "sessions_ok db" and s: "td_sessions db' = td_sessions db @ [s]" and h: "td_history db' = td_history db @ [h]"
    and fresh: "se_ID s \<notin> se_ID ` set (td_sessions db)" "th_RefreshTokenHash h \<notin> th_RefreshTokenHash ` set (td_history db)"
    and "token_for s h" and "th_Status h = ''active''"
  shows "sessions_ok db' \<and> evolves db db'"
proof -
  have "session_for h s" using assms(6) by (simp add: token_for_def session_for_def)
  then have "sessions_ok db'" using ok fresh assms(6) unfolding sessions_ok_def s h by auto
  moreover have "evolves db db'" unfolding evolves_def s h using session_kept_refl token_kept_refl by (metis UnCI set_append)
  ultimately show ?thesis ..
qed

text \<open>Revocation: the live sessions selected end, and exactly their active tokens with them.\<close>

lemma revoke_shapes [simp]:
  "td_sessions (revoke_sessions now reason p db) =
     update_rows (\<lambda>s. p s \<and> se_RevokedAt s = None) (revoke_session now reason) (td_sessions db)"
  "td_history (revoke_sessions now reason p db) = td_history db" "td_users (revoke_sessions now reason p db) = td_users db"
  "td_sessions (revoke_tokens now ids db) = td_sessions db" "td_users (revoke_tokens now ids db) = td_users db"
  "td_history (revoke_tokens now ids db) =
     update_rows (\<lambda>h. ids (th_SessionID h) \<and> th_Status h = ''active'')
       (\<lambda>h. h\<lparr>th_Status := ''revoked'', th_RevokedAt := Some now\<rparr>) (td_history db)"
  by (simp_all add: revoke_sessions_def revoke_tokens_def)

lemma sessions_revoked:
  assumes ok: "sessions_ok db" and S: "td_sessions db' = update_rows (\<lambda>s. p s \<and> se_RevokedAt s = None) (revoke_session now reason) (td_sessions db)"
    and H: "td_history db' = map f (td_history db)"
    and f: "\<And>h. th_SessionID (f h) = th_SessionID h" "\<And>h. th_RefreshTokenHash (f h) = th_RefreshTokenHash h"
    and act: "\<And>h. (th_Status (f h) = ''active'') = (th_Status h = ''active'' \<and> \<not> ids (th_SessionID h))"
    and kept: "\<And>h. h \<in> set (td_history db) \<Longrightarrow> token_kept db' h (f h)"
    and ends: "\<And>s. s \<in> set (td_sessions db) \<Longrightarrow> p s \<Longrightarrow> se_RevokedAt s = None \<Longrightarrow> ids (se_ID s)"
    and only: "\<And>s. s \<in> set (td_sessions db) \<Longrightarrow> ids (se_ID s) \<Longrightarrow> p s \<or> se_RevokedAt s \<noteq> None"
  shows "sessions_ok db' \<and> evolves db db'"
proof -
  let ?g = "\<lambda>s. if p s \<and> se_RevokedAt s = None then revoke_session now reason s else s"
  have set: "set (td_sessions db') = ?g ` set (td_sessions db)" unfolding S set_update_rows ..
  have "map se_ID (td_sessions db') = map se_ID (td_sessions db)" unfolding S by (rule map_update_rows) simp
  then have d1: "distinct (map se_ID (td_sessions db'))" using sessions_okD(1) [OF ok] by simp
  have d2: "distinct (map th_RefreshTokenHash (td_history db'))"
    using sessions_okD(2) [OF ok] unfolding H map_map comp_def f .
  have e1: "\<exists>h \<in> set (td_history db'). token_for s' h" if "s' \<in> set (td_sessions db')" for s'
  proof -
    obtain s where s: "s \<in> set (td_sessions db)" "s' = ?g s" using \<open>s' \<in> _\<close> unfolding set by (rule imageE)
    obtain h where h: "h \<in> set (td_history db)" "token_for s h" using sessions_okD(3) [OF ok s(1)] ..
    then have "ids (th_SessionID h) \<Longrightarrow> p s \<or> se_RevokedAt s \<noteq> None" "p s \<Longrightarrow> se_RevokedAt s = None \<Longrightarrow> ids (th_SessionID h)"
      using ends only s(1) by (auto simp: token_for_def)
    then have "token_for s' (f h)" using h(2) unfolding s(2) by (auto simp: token_for_def f act)
    then show ?thesis using h(1) unfolding H by auto
  qed
  have e2: "\<exists>s \<in> set (td_sessions db'). session_for h' s" if "h' \<in> set (td_history db')" for h'
  proof -
    obtain h where h: "h \<in> set (td_history db)" "h' = f h" using \<open>h' \<in> _\<close> unfolding H set_map by (rule imageE)
    obtain s where s: "s \<in> set (td_sessions db)" "session_for h s" using sessions_okD(4) [OF ok h(1)] ..
    then have "session_for h' (?g s)" unfolding h(2) by (auto simp: session_for_def f act)
    then show ?thesis using s(1) unfolding set by blast
  qed
  have "session_kept s (?g s)" for s by (auto simp: session_kept_def)
  then have "evolves db db'" unfolding evolves_def set H set_map using kept by blast
  then show ?thesis using d1 d2 e1 e2 unfolding sessions_ok_def by blast
qed

lemma revoke_kept:
  assumes ok: "sessions_ok db"
    and ends: "\<And>s. s \<in> set (td_sessions db) \<Longrightarrow> p s \<Longrightarrow> se_RevokedAt s = None \<Longrightarrow> ids (se_ID s)"
    and only: "\<And>s. s \<in> set (td_sessions db) \<Longrightarrow> ids (se_ID s) \<Longrightarrow> p s \<or> se_RevokedAt s \<noteq> None"
  shows "sessions_ok (revoke_tokens now ids (revoke_sessions now reason p db)) \<and>
    evolves db (revoke_tokens now ids (revoke_sessions now reason p db))"
proof (rule sessions_revoked [OF ok, where ids = ids and p = p])
  show "td_history (revoke_tokens now ids (revoke_sessions now reason p db)) =
      map (\<lambda>h. if ids (th_SessionID h) \<and> th_Status h = ''active'' then h\<lparr>th_Status := ''revoked'', th_RevokedAt := Some now\<rparr> else h) (td_history db)"
    by (simp add: update_rows_def)
qed (use ends only in \<open>auto simp: token_kept_def\<close>)

lemma revoke_with_kept:
  assumes ok: "sessions_ok db"
  shows "sessions_ok (revoke_with_tokens now reason p db) \<and> evolves db (revoke_with_tokens now reason p db)"
  unfolding revoke_with_tokens_def
proof (rule revoke_kept [OF ok])
  fix s assume s: "s \<in> set (td_sessions db)" "list_ex (\<lambda>t. se_ID t = se_ID s \<and> p t \<and> se_RevokedAt t = None) (td_sessions db)"
  then show "p s \<or> se_RevokedAt s \<noteq> None" using session_unique [OF ok] unfolding list_ex_iff by blast
qed (auto simp: list_ex_iff)

text \<open>Rotation: the current token is spent and its successor takes its place.\<close>

lemma rotated_kept:
  assumes ok: "sessions_ok db" and s: "s \<in> set (td_sessions db)" "se_RefreshTokenHash s = old" "se_RevokedAt s = None"
    and fresh: "new \<notin> th_RefreshTokenHash ` set (td_history db)"
    and S: "td_sessions db' = update_rows (\<lambda>x. se_ID x = se_ID s \<and> se_RefreshTokenHash x = old \<and> se_RevokedAt x = None)
        (\<lambda>x. x\<lparr>se_RefreshTokenHash := new, se_IdleExpiresAt := idle, se_LastSeenAt := now\<rparr>) (td_sessions db)"
    and H: "td_history db' = update_rows (\<lambda>h. th_SessionID h = se_ID s \<and> th_RefreshTokenHash h = old \<and> th_Status h = ''active'')
        (\<lambda>h. h\<lparr>th_Status := ''rotated'', th_RotatedAt := Some now\<rparr>) (td_history db) @
        [\<lparr>th_SessionID = se_ID s, th_RefreshTokenHash = new, th_Status = ''active'', th_RotatedAt = None, th_RevokedAt = None, th_ReusedAt = None\<rparr>]"
  shows "sessions_ok db' \<and> evolves db db'"
proof -
  let ?u = "\<lambda>x. x\<lparr>se_RefreshTokenHash := new, se_IdleExpiresAt := idle, se_LastSeenAt := now\<rparr>"
  let ?v = "\<lambda>h. h\<lparr>th_Status := ''rotated'', th_RotatedAt := Some now\<rparr>"
  let ?n = "\<lparr>th_SessionID = se_ID s, th_RefreshTokenHash = new, th_Status = ''active'', th_RotatedAt = None, th_RevokedAt = None, th_ReusedAt = None\<rparr>"
  let ?q = "\<lambda>h. th_SessionID h = se_ID s \<and> th_RefreshTokenHash h = old \<and> th_Status h = ''active''"
  have tgt: "(se_ID x = se_ID s \<and> se_RefreshTokenHash x = old \<and> se_RevokedAt x = None) = (x = s)" if "x \<in> set (td_sessions db)" for x
    using session_unique [OF ok that s(1)] s by blast
  have set: "set (td_sessions db') = (\<lambda>x. if x = s then ?u x else x) ` set (td_sessions db)"
    unfolding S set_update_rows using tgt by (intro image_cong) simp_all
  have hist: "set (td_history db') = insert ?n ((\<lambda>h. if ?q h then ?v h else h) ` set (td_history db))"
    unfolding H set_append set_update_rows by simp
  have d1: "distinct (map se_ID (td_sessions db'))"
    unfolding S using sessions_okD(1) [OF ok] by (subst map_update_rows) simp_all
  have d2: "distinct (map th_RefreshTokenHash (td_history db'))"
    unfolding H map_append using sessions_okD(2) [OF ok] fresh by (subst map_update_rows) simp_all
  have e1: "\<exists>h \<in> set (td_history db'). token_for x' h" if x': "x' \<in> set (td_sessions db')" for x'
  proof -
    obtain x where x: "x \<in> set (td_sessions db)" "x' = (if x = s then ?u x else x)" using x' unfolding set by (rule imageE)
    show ?thesis
    proof (cases "x = s")
      case True
      then have "token_for x' ?n" using s(3) unfolding x(2) by (simp add: token_for_def)
      then show ?thesis unfolding hist by blast
    next
      case False
      obtain h where h: "h \<in> set (td_history db)" "token_for x h" using sessions_okD(3) [OF ok x(1)] ..
      then have "th_SessionID h \<noteq> se_ID s" using False session_unique [OF ok x(1) s(1)] by (auto simp: token_for_def)
      then have "\<not> ?q h" by blast
      then show ?thesis using h False unfolding hist x(2) by auto
    qed
  qed
  have e2: "\<exists>x \<in> set (td_sessions db'). session_for h' x" if h': "h' \<in> set (td_history db')" for h'
  proof (cases "h' = ?n")
    case True
    have "session_for h' (?u s)" unfolding True by (simp add: session_for_def)
    then show ?thesis using s(1) unfolding set by auto
  next
    case False
    then obtain h where h: "h \<in> set (td_history db)" "h' = (if ?q h then ?v h else h)" using h' unfolding hist by blast
    obtain x where x: "x \<in> set (td_sessions db)" "session_for h x" using sessions_okD(4) [OF ok h(1)] ..
    have "session_for h' (if x = s then ?u x else x)" using x(2) s(2) unfolding h(2) by (auto simp: session_for_def)
    then show ?thesis using x(1) unfolding set by blast
  qed
  have "session_kept x (if x = s then ?u x else x)" "token_kept db' h (if ?q h then ?v h else h)" for x h
    using s(3) by (auto simp: session_kept_def token_kept_def)
  then have "evolves db db'" unfolding evolves_def set hist by blast
  then show ?thesis using d1 d2 e1 e2 unfolding sessions_ok_def by blast
qed

text \<open>The answers of a rotation.\<close>

lemma RotateRefreshToken_cases:
  assumes "RotateRefreshToken now wall old new db = (r, db')"
  obtains (refused) e where "r = Inl e" "db' = db"
  | (reuse) "r = Inl ErrInvalidRefreshToken" "refresh_session now old db = None" "revokeSessionForReusedToken now old db = (True, db')"
  | (rotated) s where "refresh_session now old db = Some s" "r = Inr \<lparr>as_ID = se_ID s, as_UserID = se_UserID s\<rparr>"
      "new \<notin> th_RefreshTokenHash ` set (td_history db)" "td_users db' = td_users db" "td_devices db' = td_devices db"
      "td_resets db' = td_resets db" "td_codes db' = td_codes db" "td_policy db' = td_policy db"
      "td_sessions db' = update_rows (\<lambda>x. se_ID x = se_ID s \<and> se_RefreshTokenHash x = old \<and> se_RevokedAt x = None)
        (\<lambda>x. x\<lparr>se_RefreshTokenHash := new, se_IdleExpiresAt := wall + minutes (po_SessionIdleTimeoutMinutes (td_policy db)), se_LastSeenAt := now\<rparr>) (td_sessions db)"
      "td_history db' = update_rows (\<lambda>h. th_SessionID h = se_ID s \<and> th_RefreshTokenHash h = old \<and> th_Status h = ''active'')
        (\<lambda>h. h\<lparr>th_Status := ''rotated'', th_RotatedAt := Some now\<rparr>) (td_history db) @
        [\<lparr>th_SessionID = se_ID s, th_RefreshTokenHash = new, th_Status = ''active'', th_RotatedAt = None, th_RevokedAt = None, th_ReusedAt = None\<rparr>]"
      "td_invites db' = td_invites db \<and> td_requests db' = td_requests db"
proof (cases "refresh_session now old db")
  case None
  then show ?thesis using assms refused reuse
    by (cases "revokeSessionForReusedToken now old db") (auto simp: RotateRefreshToken_def split: if_splits)
next
  case (Some s)
  let ?q = "\<lambda>h. th_SessionID h = se_ID s \<and> th_RefreshTokenHash h = old \<and> th_Status h = ''active''"
  let ?v = "\<lambda>h. h\<lparr>th_Status := ''rotated'', th_RotatedAt := Some now\<rparr>"
  have eq: "th_RefreshTokenHash ` set (update_rows ?q ?v (td_history db)) = th_RefreshTokenHash ` set (td_history db)"
    unfolding set_map [symmetric] by (subst map_update_rows) simp_all
  have im: "(\<forall>h \<in> set (update_rows ?q ?v (td_history db)). th_RefreshTokenHash h \<noteq> new) \<longleftrightarrow> new \<notin> th_RefreshTokenHash ` set (td_history db)"
    unfolding eq [symmetric] by blast
  show ?thesis
  proof (cases r)
    case (Inl e)
    then have "db' = db" using assms Some
      by (simp add: RotateRefreshToken_def Let_def insert_token_def split: if_splits)
    then show ?thesis using refused Inl by blast
  next
    case (Inr a)
    show ?thesis
      by (rule rotated [OF Some]; use assms Some Inr im in
        \<open>auto simp: RotateRefreshToken_def Let_def insert_token_def list_ex_iff split: if_splits\<close>)
  qed
qed

lemma refresh_sessionD:
  assumes "refresh_session now hash db = Some s"
  shows "s \<in> set (td_sessions db)" "se_RefreshTokenHash s = hash" "session_current now s" "has_active_token s db" "account_active db (se_UserID s)"
    "se_RevokedAt s = None"
  using find_SomeD [OF assms [unfolded refresh_session_def]] by (auto simp: session_current_def)

text \<open>A token presented after it was spent: its session ends.\<close>

lemma reuse_kept:
  assumes ok: "sessions_ok db" and r: "revokeSessionForReusedToken now hash db = (True, db')"
  obtains h where "h \<in> set (td_history db)" "th_RefreshTokenHash h = hash" "th_Status h = ''rotated''"
    "sessions_ok db' \<and> evolves db db'" "td_users db' = td_users db"
    "td_sessions db' = update_rows (\<lambda>s. se_ID s = th_SessionID h \<and> se_RevokedAt s = None)
       (revoke_session now ''refresh_token_reuse_detected'') (td_sessions db)"
    "td_devices db' = td_devices db" "td_resets db' = td_resets db" "td_codes db' = td_codes db" "td_policy db' = td_policy db"
    "td_invites db' = td_invites db \<and> td_requests db' = td_requests db"
proof -
  let ?q = "\<lambda>h. th_RefreshTokenHash h = hash \<and> th_Status h = ''rotated''"
  obtain h where find: "find ?q (td_history db) = Some h" using r
    by (auto simp: revokeSessionForReusedToken_def split: option.splits)
  have h: "h \<in> set (td_history db)" "th_RefreshTokenHash h = hash" "th_Status h = ''rotated''" using find_SomeD [OF find] by blast+
  let ?mark = "\<lambda>h. if ?q h then h\<lparr>th_Status := ''reused'', th_ReusedAt := Some now\<rparr> else h"
  let ?drop = "\<lambda>g. if th_SessionID g = th_SessionID h \<and> th_Status g = ''active'' then g\<lparr>th_Status := ''revoked'', th_RevokedAt := Some now\<rparr> else g"
  have db': "db' = revoke_tokens now (\<lambda>i. i = th_SessionID h) (revoke_sessions now ''refresh_token_reuse_detected'' (\<lambda>s. se_ID s = th_SessionID h)
      (db\<lparr>td_history := update_rows ?q (\<lambda>h. h\<lparr>th_Status := ''reused'', th_ReusedAt := Some now\<rparr>) (td_history db)\<rparr>))"
    using r unfolding revokeSessionForReusedToken_def find option.case Let_def by simp
  have S: "td_sessions db' = update_rows (\<lambda>s. se_ID s = th_SessionID h \<and> se_RevokedAt s = None)
       (revoke_session now ''refresh_token_reuse_detected'') (td_sessions db)" unfolding db' by simp
  have H: "td_history db' = map (\<lambda>g. ?drop (?mark g)) (td_history db)" unfolding db' by (simp add: update_rows_def comp_def)
  have gone: "se_RevokedAt s \<noteq> None" if "s \<in> set (td_sessions db')" "se_ID s = th_SessionID h" for s
    using that unfolding S set_update_rows by (auto split: if_splits)
  have "sessions_ok db' \<and> evolves db db'"
  proof (rule sessions_revoked [OF ok S H, where ids = "\<lambda>i. i = th_SessionID h"])
    fix g assume g: "g \<in> set (td_history db)"
    show "token_kept db' g (?drop (?mark g))"
    proof (cases "?q g")
      case True
      then have "g = h" using token_unique [OF ok g h(1)] h(2) by simp
      then show ?thesis using True gone by (auto simp: token_kept_def)
    qed (auto simp: token_kept_def)
  qed auto
  moreover have "td_users db' = td_users db" "td_devices db' = td_devices db" "td_resets db' = td_resets db" "td_codes db' = td_codes db"
    "td_policy db' = td_policy db" "td_invites db' = td_invites db \<and> td_requests db' = td_requests db"
    unfolding db' by (simp_all add: revoke_tokens_def revoke_sessions_def)
  ultimately show ?thesis using that h S by blast
qed

text \<open>Accounts: a live session belongs to an active account as long as transactions revoke what they suspend.\<close>

lemma accounts_keep:
  assumes ok: "accounts_ok db" and "distinct (map ac_ID (td_users db'))"
    and live: "\<And>s'. s' \<in> set (td_sessions db') \<Longrightarrow> se_RevokedAt s' = None \<Longrightarrow>
      account_active db' (se_UserID s') \<or>
      (\<exists>s \<in> set (td_sessions db). se_RevokedAt s = None \<and> se_UserID s = se_UserID s' \<and>
         (account_active db (se_UserID s) \<longrightarrow> account_active db' (se_UserID s)))"
  shows "accounts_ok db'"
proof -
  have "account_active db' (se_UserID s')" if s': "s' \<in> set (td_sessions db')" "se_RevokedAt s' = None" for s'
    using live [OF s'] ok unfolding accounts_ok_def by auto
  then show ?thesis using assms(2) unfolding accounts_ok_def by blast
qed

lemma accounts_same:
  assumes "accounts_ok db" and "td_users db' = td_users db"
    and "\<And>s'. s' \<in> set (td_sessions db') \<Longrightarrow> se_RevokedAt s' = None \<Longrightarrow>
      \<exists>s \<in> set (td_sessions db). se_RevokedAt s = None \<and> se_UserID s = se_UserID s'"
  shows "accounts_ok db'"
proof (rule accounts_keep [OF assms(1)])
  show "distinct (map ac_ID (td_users db'))" using assms(1,2) by (simp add: accounts_ok_def)
qed (use assms(2,3) in \<open>simp add: account_active_def\<close>)

lemma live_after_update:
  assumes "s' \<in> set (update_rows p f rows)" "se_RevokedAt s' = None"
    and "\<And>s. p s \<Longrightarrow> se_RevokedAt (f s) = None \<Longrightarrow> se_RevokedAt s = None \<and> se_UserID (f s) = se_UserID s"
  shows "\<exists>s \<in> set rows. se_RevokedAt s = None \<and> se_UserID s = se_UserID s'"
proof -
  obtain s where "s \<in> set rows" "s' = (if p s then f s else s)" using assms(1) unfolding set_update_rows by (rule imageE)
  then show ?thesis using assms(2,3) by (intro bexI [of _ s]) (auto split: if_splits)
qed

definition tx_ok :: "adb \<Rightarrow> adb \<Rightarrow> bool" where
  "tx_ok db db' \<longleftrightarrow> sessions_ok db' \<and> evolves db db' \<and> accounts_ok db'"

lemma tx_untouched:
  assumes "sessions_ok db" "accounts_ok db" and "td_sessions db' = td_sessions db" "td_history db' = td_history db" "td_users db' = td_users db"
  shows "tx_ok db db'"
  unfolding tx_ok_def using untouched [OF assms(1,3,4)] accounts_same [OF assms(2,5)] assms(3) by auto

lemma tx_revoke:
  assumes "sessions_ok db" "accounts_ok db"
    and "\<And>s. s \<in> set (td_sessions db) \<Longrightarrow> p s \<Longrightarrow> se_RevokedAt s = None \<Longrightarrow> ids (se_ID s)"
    and "\<And>s. s \<in> set (td_sessions db) \<Longrightarrow> ids (se_ID s) \<Longrightarrow> p s \<or> se_RevokedAt s \<noteq> None"
  shows "tx_ok db (revoke_tokens now ids (revoke_sessions now reason p db))"
  unfolding tx_ok_def
proof (intro conjI)
  show "accounts_ok (revoke_tokens now ids (revoke_sessions now reason p db))"
    by (rule accounts_same [OF assms(2)]) (auto elim!: live_after_update)
qed (use revoke_kept [of db p ids now reason, OF assms(1,3,4)] in blast)+

lemma tx_revoke_with:
  assumes "sessions_ok db" "accounts_ok db"
  shows "tx_ok db (revoke_with_tokens now reason p db)"
  unfolding tx_ok_def
proof (intro conjI)
  show "accounts_ok (revoke_with_tokens now reason p db)" unfolding revoke_with_tokens_def
    by (rule accounts_same [OF assms(2)]) (auto elim!: live_after_update)
qed (use revoke_with_kept [OF assms(1)] in blast)+

lemma tx_rotate:
  assumes ok: "sessions_ok db" "accounts_ok db" and r: "RotateRefreshToken now wall old new db = (r, db')"
  shows "tx_ok db db'"
  using r
proof (cases rule: RotateRefreshToken_cases)
  case (refused e)
  then show ?thesis using tx_untouched [OF ok] by simp
next
  case reuse
  obtain h :: token_row where "sessions_ok db' \<and> evolves db db'" "td_users db' = td_users db"
      "td_sessions db' = update_rows (\<lambda>s. se_ID s = th_SessionID h \<and> se_RevokedAt s = None) (revoke_session now ''refresh_token_reuse_detected'') (td_sessions db)"
    by (rule reuse_kept [OF ok(1) reuse(3)]) blast
  moreover from this have "accounts_ok db'" by (intro accounts_same [OF ok(2)]) (auto elim!: live_after_update)
  ultimately show ?thesis unfolding tx_ok_def by blast
next
  case (rotated s)
  note s = refresh_sessionD [OF rotated(1)]
  have "sessions_ok db' \<and> evolves db db'" by (rule rotated_kept [OF ok(1) s(1,2,6) rotated(3,9,10)])
  moreover have "accounts_ok db'" by (rule accounts_same [OF ok(2) rotated(4)]) (auto simp: rotated(9) elim!: live_after_update)
  ultimately show ?thesis unfolding tx_ok_def by blast
qed

section \<open>Grants\<close>

lemma resolveLoginDevice_frame:
  assumes "resolveLoginDevice i now uid input policy db = Inr (dev, db')"
  shows "\<exists>ds. db' = db\<lparr>td_devices := ds\<rparr>"
proof -
  have "db' = db\<lparr>td_devices := td_devices db'\<rparr>"
    using assms by (auto simp: resolveLoginDevice_def insert_device_def bind_err_Inr_iff split: if_splits option.splits)
  then show ?thesis ..
qed

lemma account_active_update:
  assumes "\<And>u. p u \<Longrightarrow> ac_ID (f u) = ac_ID u \<and> active_account (f u) = active_account u"
  shows "account_active (db\<lparr>td_users := update_rows p f (td_users db)\<rparr>) uid = account_active db uid"
proof -
  let ?g = "\<lambda>u. if p u then f u else u"
  have "(ac_ID (?g u) = uid \<and> active_account (?g u)) = (ac_ID u = uid \<and> active_account u)" for u using assms by simp
  then show ?thesis by (simp add: account_active_iff set_update_rows del: if_image_distrib)
qed

text \<open>The tail every grant shares: device, record of the attempt, session, first token, time of the login.\<close>

lemma grant_shape:
  assumes "resolveLoginDevice i now uid input policy db = Inr (dev, db1)"
    and "insertLoginSession k now wall uid dev' input' policy (recordLoginAttempt now u e ok reason ip ua db1) = Inr (s, db2)"
    and "insertInitialRefreshTokenHistory (as_ID s) hash db2 = Inr db3" and "hash = ci_RefreshTokenHash input'"
    and "db' = touch_last_login now uid db3"
  obtains row h where "td_sessions db' = td_sessions db @ [row]" "td_history db' = td_history db @ [h]" "token_for row h"
    "th_Status h = ''active''" "se_ID row \<notin> se_ID ` set (td_sessions db)"
    "th_RefreshTokenHash h \<notin> th_RefreshTokenHash ` set (td_history db)" "se_UserID row = uid" "se_RevokedAt row = None"
    "s = \<lparr>as_ID = se_ID row, as_UserID = uid\<rparr>" "se_RefreshTokenHash row = hash" "se_DeviceID row = dev'"
    "td_users db' = td_users (touch_last_login now uid db)" "td_devices db' = td_devices db1" "td_resets db' = td_resets db"
    "td_codes db' = td_codes db" "td_policy db' = td_policy db" "td_credentials db' = td_credentials db" "td_invites db' = td_invites db \<and> td_requests db' = td_requests db"
    "se_IdleExpiresAt row = wall + minutes (po_SessionIdleTimeoutMinutes policy)" "se_AbsoluteExpiresAt row = Some (ci_RefreshExpiresAt input')"
proof -
  obtain ds where d1: "db1 = db\<lparr>td_devices := ds\<rparr>" using resolveLoginDevice_frame [OF assms(1)] ..
  let ?row = "\<lparr>se_ID = k, se_UserID = uid, se_DeviceID = dev', se_RefreshTokenHash = hash,
      se_IPAddress = nullableString (ci_IPAddress input'), se_UserAgent = nullableString (ci_UserAgent input'),
      se_CreatedAt = now, se_LastSeenAt = now, se_IdleExpiresAt = wall + minutes (po_SessionIdleTimeoutMinutes policy),
      se_AbsoluteExpiresAt = Some (ci_RefreshExpiresAt input'), se_RevokedAt = None, se_RevokedReason = None\<rparr>"
  let ?h = "\<lparr>th_SessionID = k, th_RefreshTokenHash = hash, th_Status = ''active'', th_RotatedAt = None, th_RevokedAt = None, th_ReusedAt = None\<rparr>"
  have f: "k \<notin> se_ID ` set (td_sessions db)" and s: "s = \<lparr>as_ID = k, as_UserID = uid\<rparr>"
    and d2: "db2 = (recordLoginAttempt now u e ok reason ip ua db1)\<lparr>td_sessions := td_sessions db @ [?row]\<rparr>"
    using assms(2,4) unfolding d1 by (auto simp: insertLoginSession_def recordLoginAttempt_def list_ex_iff split: if_splits)
  have g: "hash \<notin> th_RefreshTokenHash ` set (td_history db)" and d3: "db3 = db2\<lparr>td_history := td_history db @ [?h]\<rparr>"
    using assms(3) unfolding d2 d1 s
    by (auto simp: insertInitialRefreshTokenHistory_def insert_token_def recordLoginAttempt_def list_ex_iff split: if_splits)
  show ?thesis
    by (rule that [of ?row ?h])
      (use f g s in \<open>simp_all add: assms(5) d3 d2 d1 token_for_def touch_last_login_def recordLoginAttempt_def\<close>)
qed

lemma grant_ok:
  assumes ok: "sessions_ok db" "accounts_ok db"
    and "td_sessions db' = td_sessions db @ [row]" "td_history db' = td_history db @ [h]" "token_for row h"
    and "th_Status h = ''active''" "se_ID row \<notin> se_ID ` set (td_sessions db)"
    and "th_RefreshTokenHash h \<notin> th_RefreshTokenHash ` set (td_history db)" "se_UserID row = uid" "account_active db uid"
    and u: "td_users db' = td_users (touch_last_login now uid db)"
  shows "tx_ok db db'"
proof -
  have act: "account_active db' v = account_active db v" for v
    using account_active_update [of "\<lambda>u. ac_ID u = uid" "\<lambda>u. u\<lparr>ac_LastLoginAt := Some now\<rparr>" db v]
    by (simp add: account_active_def u touch_last_login_def active_account_def)
  have "map ac_ID (td_users db') = map ac_ID (td_users db)" unfolding u touch_last_login_def by (simp add: map_update_rows)
  then have "distinct (map ac_ID (td_users db'))" using ok(2) unfolding accounts_ok_def by simp
  then have "accounts_ok db'"
    by (rule accounts_keep [OF ok(2)]) (use assms(3,9,10) in \<open>auto simp: act\<close>)
  then show ?thesis using session_added [OF ok(1) assms(3,4,7,8,5,6)] unfolding tx_ok_def by blast
qed

lemma grantLoginSession_cases:
  assumes "grantLoginSession j k now wall uid input policy db = (r, db')"
  obtains (refused) e where "r = Inl e" "\<exists>as. db' = db\<lparr>td_attempts := as\<rparr>"
  | (granted) dev db1 db2 db3 s where "r = Inr s" "account_active db uid" "resolveLoginDevice j now uid input policy db = Inr (dev, db1)"
      "insertLoginSession k now wall uid dev input policy
         (recordLoginAttempt now (Some uid) (ci_Email input) True '''' (ci_IPAddress input) (ci_UserAgent input) db1) = Inr (s, db2)"
      "insertInitialRefreshTokenHistory (as_ID s) (ci_RefreshTokenHash input) db2 = Inr db3" "db' = touch_last_login now uid db3"
proof (cases r)
  case (Inl e)
  have same: "\<exists>as. db = db\<lparr>td_attempts := as\<rparr>" by (intro exI [of _ "td_attempts db"]) simp
  have "\<exists>as. db' = db\<lparr>td_attempts := as\<rparr>" using assms same unfolding Inl
    by (auto simp: grantLoginSession_def revalidateUserActive_def commitDeviceRefusal_def commitFailedLoginAttempt_def
      commitRefusedLogin_def recordLoginAttempt_def Let_def split: if_splits option.splits sum.splits)
  then show ?thesis by (rule refused [OF Inl])
next
  case (Inr s)
  then have act: "account_active db uid" using assms by (auto simp: grantLoginSession_def revalidateUserActive_def split: if_splits)
  then obtain dev db1 where r1: "resolveLoginDevice j now uid input policy db = Inr (dev, db1)"
    using assms Inr by (auto simp: grantLoginSession_def revalidateUserActive_def commitDeviceRefusal_def commitFailedLoginAttempt_def
      commitRefusedLogin_def split: if_splits sum.splits)
  obtain db2 db3 where "insertLoginSession k now wall uid dev input policy
         (recordLoginAttempt now (Some uid) (ci_Email input) True '''' (ci_IPAddress input) (ci_UserAgent input) db1) = Inr (s, db2)"
      "insertInitialRefreshTokenHistory (as_ID s) (ci_RefreshTokenHash input) db2 = Inr db3" "db' = touch_last_login now uid db3"
    using assms by (auto simp: grantLoginSession_def revalidateUserActive_def act r1 Inr Let_def bind_err_Inr_iff split: sum.splits)
  then show ?thesis by (rule granted [OF Inr act r1])
qed

lemma tx_grant:
  assumes ok: "sessions_ok db" "accounts_ok db" and g: "grantLoginSession j k now wall uid input policy db = (r, db')"
  shows "tx_ok db db'"
  using g
proof (cases rule: grantLoginSession_cases)
  case (refused e)
  then show ?thesis using tx_untouched [OF ok] by auto
next
  case (granted dev db1 db2 db3 s)
  show ?thesis
    by (rule grant_shape [OF granted(3-5) refl granted(6)]) (rule grant_ok [OF ok _ _ _ _ _ _ _ granted(2)])
qed

text \<open>Single sign-on: the account is found active, or made.\<close>

lemma accounts_appended:
  assumes "accounts_ok db" "ac_ID u \<notin> ac_ID ` set (td_users db)"
    and "td_users db' = td_users db @ [u]" "td_sessions db' = td_sessions db"
  shows "accounts_ok db'"
proof (rule accounts_keep [OF assms(1)])
  show "distinct (map ac_ID (td_users db'))" using assms(1,2) unfolding assms(3) by (auto simp: accounts_ok_def)
qed (auto simp: account_active_iff assms(3,4))

lemma resolveOIDCUser_ok:
  assumes ok: "accounts_ok db" and r: "resolveOIDCUser i input db = Inr (user, db')"
  shows "accounts_ok db' \<and> account_active db' (lu_ID user) \<and> td_sessions db' = td_sessions db \<and> td_history db' = td_history db \<and>
    td_devices db' = td_devices db \<and> td_resets db' = td_resets db \<and> td_codes db' = td_codes db \<and> td_policy db' = td_policy db \<and>
    td_invites db' = td_invites db \<and> td_requests db' = td_requests db"
proof -
  have sel: "account_active db (lu_ID x)" if "selectOIDCUserBySubject p q db = Inr (Some x)" for p q x
    using that unfolding selectOIDCUserBySubject_def
    by (auto simp: account_active_iff dest!: find_SomeD split: option.splits if_splits)
  consider (found) x where "selectOIDCUserBySubject (oi_Provider input) (oi_Subject input) db = Inr (Some x)"
      "\<exists>n. syncOIDCUserProfile (lu_ID x) input db = Inr (n, db')" "lu_ID user = lu_ID x"
    | (again) "selectOIDCUserBySubject (oi_Provider input) (oi_Subject input) db = Inr (Some user)" "db' = db"
    | (made) db1 where "insertOIDCUser i input db = Some (user, db1)" "enrollInDefaultWorkspace (lu_ID user) db1 = Inr db'"
    using r unfolding resolveOIDCUser_def by (auto simp: bind_err_Inr_iff split: option.splits if_splits)
  then show ?thesis
  proof cases
    case found
    let ?f = "\<lambda>u. u\<lparr>ac_DisplayName := or_else (oi_DisplayName input) (ac_DisplayName u) id,
                  ac_FullName := or_else (oi_FullName input) (ac_FullName u) Some,
                  ac_AvatarURL := (case ac_AvatarURL u of None \<Rightarrow> nullableString (oi_AvatarURL input) | Some a \<Rightarrow> Some a)\<rparr>"
    have db': "db' = db\<lparr>td_users := update_rows (\<lambda>u. ac_ID u = lu_ID x) ?f (td_users db)\<rparr>"
      using found(2) by (auto simp: syncOIDCUserProfile_def Let_def split: option.splits)
    have act: "account_active db' v = account_active db v" for v unfolding db'
      by (rule account_active_update) (simp add: active_account_def)
    have "map ac_ID (td_users db') = map ac_ID (td_users db)" unfolding db' by (simp add: map_update_rows)
    then have "distinct (map ac_ID (td_users db'))" using ok unfolding accounts_ok_def by simp
    moreover have "td_sessions db' = td_sessions db" unfolding db' by simp
    ultimately have "accounts_ok db'" using ok unfolding accounts_ok_def act by simp
    then show ?thesis using sel [OF found(1)] act found(3) unfolding db' by simp
  next
    case again
    then show ?thesis using ok sel by simp
  next
    case made
    let ?u = "oidc_user i input"
    have u: "db1 = db\<lparr>td_users := td_users db @ [?u]\<rparr>" "ac_ID ?u \<notin> ac_ID ` set (td_users db)" "active_account ?u" "lu_ID user = ac_ID ?u"
      using made(1) by (auto simp: insertOIDCUser_def Let_def list_ex_iff active_account_def oidc_user_def split: if_splits)
    have d: "db' = db1\<lparr>td_members := td_members db'\<rparr>"
      using made(2) by (auto simp: enrollInDefaultWorkspace_def split: list.splits if_splits)
    have users: "td_users db' = td_users db @ [?u]" and s: "td_sessions db' = td_sessions db" by (subst d, simp add: u(1))+
    have "accounts_ok db'" by (rule accounts_appended [OF ok u(2) users s])
    moreover have "account_active db' (lu_ID user)" using u(3,4) unfolding account_active_iff users by simp
    moreover have "td_history db' = td_history db" "td_devices db' = td_devices db" "td_resets db' = td_resets db"
      "td_codes db' = td_codes db" "td_policy db' = td_policy db" "td_invites db' = td_invites db \<and> td_requests db' = td_requests db"
      by (subst d, simp add: u(1))+
    ultimately show ?thesis using s by blast
  qed
qed

lemma OIDC_cases:
  assumes "CreateOIDCSessionAndExchange build i j k now wall input db = Inr ((s, user), db')"
  obtains db1 dev db2 db4 db5 x where "resolveOIDCUser i input db = Inr (user, db1)"
    "resolveLoginDevice j now (lu_ID user) (oidc_session_input input) (td_policy db) db1 = Inr (dev, db2)"
    "insertLoginSession k now wall (lu_ID user) dev (oidc_session_input input) (td_policy db)
       (recordLoginAttempt now (Some (lu_ID user)) (oi_Email input) True '''' (oi_IPAddress input) (oi_UserAgent input) db2) = Inr (s, db4)"
    "insertInitialRefreshTokenHistory (as_ID s) (oi_RefreshTokenHash input) db4 = Inr db5"
    "insertOIDCExchange x (touch_last_login now (lu_ID user) db5) = Inr db'"
proof -
  let ?device = "\<lambda>u db1. resolveLoginDevice j now (lu_ID u) (oidc_session_input input) (td_policy db) db1"
  obtain u db1 where r1: "resolveOIDCUser i input db = Inr (u, db1)"
    using assms unfolding CreateOIDCSessionAndExchange_def by (auto simp: bind_err_Inr_iff Let_def)
  obtain dev db2 where r2: "?device u db1 = Inr (dev, db2)"
    using assms r1 unfolding CreateOIDCSessionAndExchange_def by (cases "?device u db1") (auto simp: Let_def)
  show ?thesis using assms that [of db1 dev db2] r1 r2 unfolding CreateOIDCSessionAndExchange_def
    by (auto simp: bind_err_Inr_iff Let_def)
qed

lemma insertOIDCExchange_frame:
  "insertOIDCExchange x db = Inr db' \<Longrightarrow> db' = db\<lparr>td_codes := td_codes db @ [x\<lparr>xc_UsedAt := None\<rparr>]\<rparr> \<and> xc_CodeHash x \<notin> xc_CodeHash ` set (td_codes db)"
  by (auto simp: insertOIDCExchange_def list_ex_iff split: if_splits)

lemma tx_oidc:
  assumes ok: "sessions_ok db" "accounts_ok db"
    and "CreateOIDCSessionAndExchange build i j k now wall input db = Inr ((s, user), db')"
  shows "tx_ok db db'"
  using assms(3)
proof (cases rule: OIDC_cases)
  case (1 db1 dev db2 db4 db5 x)
  have hash: "oi_RefreshTokenHash input = ci_RefreshTokenHash (oidc_session_input input)" by (simp add: oidc_session_input_def)
  note r = resolveOIDCUser_ok [OF ok(2) 1(1)]
  have r1: "accounts_ok db1" "account_active db1 (lu_ID user)" using r by blast+
  have ok1: "sessions_ok db1" using untouched [OF ok(1)] r by blast
  have "tx_ok db1 (touch_last_login now (lu_ID user) db5)"
    by (rule grant_shape [OF 1(2-4) hash refl]) (rule grant_ok [OF ok1 r1(1) _ _ _ _ _ _ _ r1(2)])
  then have "tx_ok db1 db'" using insertOIDCExchange_frame [OF 1(5)]
    unfolding tx_ok_def sessions_ok_def accounts_ok_def evolves_def token_kept_def account_active_def by simp
  then show ?thesis using r unfolding tx_ok_def evolves_def by simp
qed

section \<open>Every transaction keeps the invariant\<close>

lemma authenticate_frame:
  assumes "authenticate verify now wall input policy db = (r, db')"
  shows "\<exists>as. db' = db\<lparr>td_attempts := as\<rparr>" and "r = Inr c \<Longrightarrow> db' = db"
proof -
  have same: "\<exists>as. db = db\<lparr>td_attempts := as\<rparr>" by (intro exI [of _ "td_attempts db"]) simp
  show "\<exists>as. db' = db\<lparr>td_attempts := as\<rparr>" "r = Inr c \<Longrightarrow> db' = db" using assms same
    by (auto simp: authenticate_def commitFailedLoginAttempt_def commitRefusedLogin_def recordLoginAttempt_def Let_def
      split: prod.splits if_splits)
qed

lemma tx_from:
  assumes "tx_ok db1 db'" and "td_sessions db1 = td_sessions db" "td_history db1 = td_history db"
  shows "tx_ok db db'"
  using assms unfolding tx_ok_def evolves_def by simp

lemma tx_logout:
  assumes ok: "sessions_ok db" "accounts_ok db" and "RevokeRefreshToken now hash db = Inr db'"
  shows "tx_ok db db'"
proof -
  obtain s where "s \<in> set (td_sessions db)"
      "db' = revoke_tokens now (\<lambda>i. i = se_ID s) (revoke_sessions now ''logout'' (\<lambda>x. se_ID x = se_ID s) db)"
    using assms(3) by (auto simp: RevokeRefreshToken_def dest!: find_SomeD split: option.splits if_splits)
  then show ?thesis using tx_revoke [OF ok, of "\<lambda>x. se_ID x = se_ID s" "\<lambda>i. i = se_ID s"] by simp
qed

lemma tx_revoke_one:
  assumes ok: "sessions_ok db" "accounts_ok db" and "RevokeSession now sid uid db = Inr db'"
  shows "tx_ok db db'"
proof -
  obtain s where s: "s \<in> set (td_sessions db)" "se_ID s = sid" "se_UserID s = uid"
    and db': "db' = revoke_tokens now (\<lambda>i. i = sid) (revoke_sessions now ''user_revoked'' (\<lambda>s. se_ID s = sid \<and> se_UserID s = uid) db)"
    using assms(3) by (auto simp: RevokeSession_def list_ex_iff split: if_splits)
  show ?thesis unfolding db' by (rule tx_revoke [OF ok]) (use session_unique [OF ok(1) _ s(1)] s in auto)
qed

lemma tx_drop_device:
  assumes ok: "sessions_ok db" "accounts_ok db" and "RevokeDevice now did uid db = Inr db'"
  shows "tx_ok db db'"
proof -
  obtain ds where db': "db' = revoke_with_tokens now ''device_revoked'' (\<lambda>s. se_DeviceID s = Some did \<and> se_UserID s = uid) (db\<lparr>td_devices := ds\<rparr>)"
    using assms(3) by (auto simp: RevokeDevice_def split: if_splits)
  have "tx_ok db (db\<lparr>td_devices := ds\<rparr>)" by (rule tx_untouched [OF ok]) simp_all
  then have "tx_ok (db\<lparr>td_devices := ds\<rparr>) db'" unfolding db' by (intro tx_revoke_with) (simp_all add: tx_ok_def)
  then show ?thesis by (rule tx_from) simp_all
qed

lemma ResetPasswordTx_cases:
  assumes "ResetPasswordTx now wall hash password db = Inr db'"
  obtains t where "t \<in> set (td_resets db)" "rt_TokenHash t = hash" "rt_UsedAt t = None" "wall < rt_ExpiresAt t"
    "\<exists>u \<in> set (td_users db). ac_ID u = rt_UserID t \<and> manual_account u"
    "length (filter (\<lambda>c. pc_UserID c = rt_UserID t) (td_credentials db)) = 1"
    "db' = revoke_tokens now (\<lambda>i. \<exists>s \<in> set (td_sessions db). se_ID s = i \<and> se_UserID s = rt_UserID t)
       (revoke_sessions now ''password_reset'' (\<lambda>s. se_UserID s = rt_UserID t)
         (db\<lparr>td_credentials := update_rows (\<lambda>c. pc_UserID c = rt_UserID t)
               (\<lambda>c. c\<lparr>pc_PasswordHash := password, pc_PasswordChangedAt := now\<rparr>) (td_credentials db),
             td_resets := update_rows (\<lambda>x. rt_ID x = rt_ID t \<and> rt_UsedAt x = None) (\<lambda>x. x\<lparr>rt_UsedAt := Some now\<rparr>) (td_resets db)\<rparr>))"
proof -
  have ids: "list_ex (\<lambda>s. se_ID s = i \<and> se_UserID s = u) (update_rows p (revoke_session now reason) rows) =
      (\<exists>s \<in> set rows. se_ID s = i \<and> se_UserID s = u)" for i u p reason rows
  proof -
    have "(se_ID (if p s then revoke_session now reason s else s) = i \<and> se_UserID (if p s then revoke_session now reason s else s) = u) =
        (se_ID s = i \<and> se_UserID s = u)" for s by simp
    then show ?thesis unfolding list_ex_iff set_update_rows bex_simps by (simp only:)
  qed
  let ?q = "\<lambda>t. rt_TokenHash t = hash \<and> list_ex (\<lambda>u. ac_ID u = rt_UserID t \<and> manual_account u) (td_users db)"
  obtain t where find: "find ?q (td_resets db) = Some t"
    using assms unfolding ResetPasswordTx_def by (cases "find ?q (td_resets db)") simp_all
  have g: "rt_UsedAt t = None" "wall < rt_ExpiresAt t" "length (filter (\<lambda>c. pc_UserID c = rt_UserID t) (td_credentials db)) = 1"
    using assms unfolding ResetPasswordTx_def find option.case by (simp_all split: if_splits)
  have f: "t \<in> set (td_resets db)" "rt_TokenHash t = hash" "\<exists>u \<in> set (td_users db). ac_ID u = rt_UserID t \<and> manual_account u"
    using find_SomeD [OF find] by (simp_all add: list_ex_iff)
  show ?thesis using assms g unfolding ResetPasswordTx_def find option.case Let_def revoke_shapes ids
    by (intro that [OF f(1,2) g(1,2) f(3) g(3)]) simp
qed

lemma tx_reset:
  assumes ok: "sessions_ok db" "accounts_ok db" and "ResetPasswordTx now wall hash password db = Inr db'"
  shows "tx_ok db db'"
  using assms(3)
proof (cases rule: ResetPasswordTx_cases)
  case (1 t)
  let ?db = "db\<lparr>td_credentials := update_rows (\<lambda>c. pc_UserID c = rt_UserID t)
               (\<lambda>c. c\<lparr>pc_PasswordHash := password, pc_PasswordChangedAt := now\<rparr>) (td_credentials db),
             td_resets := update_rows (\<lambda>x. rt_ID x = rt_ID t \<and> rt_UsedAt x = None) (\<lambda>x. x\<lparr>rt_UsedAt := Some now\<rparr>) (td_resets db)\<rparr>"
  have "tx_ok db ?db" by (rule tx_untouched [OF ok]) simp_all
  then have ok1: "sessions_ok ?db" "accounts_ok ?db" by (simp_all only: tx_ok_def)
  have "tx_ok ?db db'" unfolding 1(7) by (rule tx_revoke [OF ok1]) (use session_unique [OF ok(1)] in auto)
  then show ?thesis by (rule tx_from) simp_all
qed

lemma insert_account_frame:
  "insert_account u db = Inr db' \<Longrightarrow> db' = db\<lparr>td_users := td_users db @ [u]\<rparr> \<and> ac_ID u \<notin> ac_ID ` set (td_users db)"
  by (auto simp: insert_account_def list_ex_iff split: if_splits)

lemma tx_account_added:
  assumes ok: "sessions_ok db" "accounts_ok db" and "insert_account u db = Inr db1"
    and "td_users db' = td_users db1" "td_sessions db' = td_sessions db1" "td_history db' = td_history db1"
  shows "tx_ok db db'"
proof -
  note f = insert_account_frame [OF assms(3)]
  have "accounts_ok db'" by (rule accounts_appended [OF ok(2), of u]) (use f assms(4,5) in auto)
  then show ?thesis using untouched [OF ok(1), of db'] f assms(5,6) unfolding tx_ok_def by simp
qed

lemma insert_credential_frame: "insert_credential now i p m db = Inr db' \<Longrightarrow> \<exists>cs. db' = db\<lparr>td_credentials := cs\<rparr>"
  by (auto simp: insert_credential_def split: if_splits)

lemma tx_new_user:
  assumes ok: "sessions_ok db" "accounts_ok db" and "CreateUser i now input password db = Inr (u, db')"
  shows "tx_ok db db'"
proof -
  obtain db1 where 1: "insert_account u db = Inr db1" "insert_credential now i password (cu_MustChangePassword input) db1 = Inr db'"
    using assms(3) by (auto simp: CreateUser_def Let_def bind_err_Inr_iff)
  then show ?thesis using insert_credential_frame [OF 1(2)] by (intro tx_account_added [OF ok 1(1)]) auto
qed

lemma tx_accept:
  assumes ok: "sessions_ok db" "accounts_ok db" and "AcceptInviteTx i now wall hash name full password db = Inr (u, db')"
  shows "tx_ok db db'"
proof -
  obtain db1 db2 ivs where 1: "insert_account u db = Inr db1" "insert_credential now i password False db1 = Inr db2"
      "db' = db2\<lparr>td_invites := ivs\<rparr>"
    using assms(3) by (auto simp: AcceptInviteTx_def Let_def bind_err_Inr_iff split: option.splits if_splits)
  then show ?thesis using insert_credential_frame [OF 1(2)] by (intro tx_account_added [OF ok 1(1)]) auto
qed

lemma updateUserStatusOnce_cases:
  assumes "updateUserStatusOnce session available now uid status (chat, db) = (Inr (Inr u), chat', db')"
  obtains v where "v \<in> set (td_users db)" "ac_ID v = uid" "ac_DeletedAt v = None" "ValidateStatusTransition (ac_Status v) status = None"
    "succeedAccountSuspension session uid status (available chat) chat = (None, chat')"
    "db' = closeOutSuspendedAccess now uid status (set_status uid status db)"
proof -
  let ?q = "\<lambda>u. ac_ID u = uid \<and> ac_DeletedAt u = None"
  obtain v where find: "find ?q (td_users db) = Some v"
    using assms unfolding updateUserStatusOnce_def by (cases "find ?q (td_users db)") simp_all
  have t: "ValidateStatusTransition (ac_Status v) status = None"
    using assms unfolding updateUserStatusOnce_def Let_def prod.case find option.case
    by (cases "ValidateStatusTransition (ac_Status v) status") simp_all
  obtain e c where s: "succeedAccountSuspension session uid status (available chat) chat = (e, c)"
    by (cases "succeedAccountSuspension session uid status (available chat) chat")
  have "e = None" using assms unfolding updateUserStatusOnce_def Let_def prod.case find option.case t s by (cases e) simp_all
  then have "chat' = c" "db' = closeOutSuspendedAccess now uid status (set_status uid status db)"
    using assms unfolding updateUserStatusOnce_def Let_def prod.case find option.case t s by simp_all
  then show ?thesis using find_SomeD [OF find] t s \<open>e = None\<close> by (intro that [of v]) simp_all
qed

lemma account_active_set_status:
  assumes "accounts_ok db"
  shows "account_active (set_status uid status db) w =
    (if w = uid then status = ''active'' \<and> (\<exists>u \<in> set (td_users db). ac_ID u = uid \<and> ac_DeletedAt u = None) else account_active db w)"
proof -
  let ?g = "\<lambda>u. if ac_ID u = uid \<and> ac_DeletedAt u = None then u\<lparr>ac_Status := status\<rparr> else u"
  have "account_active (set_status uid status db) w = (\<exists>u \<in> set (td_users db). ac_ID (?g u) = w \<and> active_account (?g u))"
    unfolding account_active_iff set_status_def by (simp add: set_update_rows del: if_image_distrib)
  moreover have "(ac_ID (?g u) = w \<and> active_account (?g u)) =
      (if w = uid then ac_ID u = uid \<and> ac_DeletedAt u = None \<and> status = ''active'' else ac_ID u = w \<and> active_account u)" for u
    by (auto simp: active_account_def)
  ultimately show ?thesis by (auto simp: account_active_iff)
qed

lemma not_revoked:
  assumes "s' \<in> set (update_rows (\<lambda>s. p s \<and> se_RevokedAt s = None) (revoke_session now reason) rows)" "se_RevokedAt s' = None"
  shows "s' \<in> set rows \<and> \<not> p s'"
proof -
  obtain s where "s \<in> set rows" "s' = (if p s \<and> se_RevokedAt s = None then revoke_session now reason s else s)"
    using assms(1) unfolding set_update_rows by (rule imageE)
  then show ?thesis using assms(2) by (cases "p s \<and> se_RevokedAt s = None") auto
qed

lemma tx_status:
  assumes ok: "sessions_ok db" "accounts_ok db"
    and "updateUserStatusOnce session available now uid status (chat, db) = (Inr (Inr u), chat', db')"
  shows "tx_ok db db'"
  using assms(3)
proof (cases rule: updateUserStatusOnce_cases)
  case (1 v)
  let ?db = "set_status uid status db"
  have frame: "td_sessions ?db = td_sessions db" "td_history ?db = td_history db" by (simp_all add: set_status_def)
  have users: "map ac_ID (td_users ?db) = map ac_ID (td_users db)" unfolding set_status_def by (simp add: map_update_rows)
  have sok: "sessions_ok ?db" using untouched [OF ok(1) frame] by blast
  have dist: "distinct (map ac_ID (td_users ?db))" using ok(2) users unfolding accounts_ok_def by simp
  note act = account_active_set_status [OF ok(2), of uid status]
  show ?thesis
  proof (cases "status = ''suspended''")
    case False
    then have "status = ''active''" using 1(4) unfolding ValidateStatusTransition_def by (simp split: if_splits)
    then have "account_active db w \<Longrightarrow> account_active ?db w" for w using 1(1-3) unfolding act by (cases "w = uid") (simp_all, blast)
    then have "accounts_ok ?db" using ok(2) dist unfolding accounts_ok_def frame by blast
    then show ?thesis using sok untouched [OF ok(1) frame] False unfolding 1(6) closeOutSuspendedAccess_def tx_ok_def by simp
  next
    case True
    let ?db1 = "revoke_with_tokens now ''admin_suspension'' (\<lambda>s. se_UserID s = uid) ?db"
    have same: "td_sessions db' = td_sessions ?db1" "td_history db' = td_history ?db1" "td_users db' = td_users ?db"
      unfolding 1(6) closeOutSuspendedAccess_def Let_def using True by (simp_all add: revoke_with_tokens_def)
    have "sessions_ok ?db1 \<and> evolves ?db ?db1" by (rule revoke_with_kept [OF sok])
    then have "sessions_ok db' \<and> evolves db db'"
      unfolding sessions_ok_def evolves_def token_kept_def same frame by simp
    moreover have "accounts_ok db'"
    proof (rule accounts_keep [OF ok(2)])
      show "distinct (map ac_ID (td_users db'))" unfolding same(3) by (rule dist)
    next
      fix s' assume s': "s' \<in> set (td_sessions db')" "se_RevokedAt s' = None"
      then have "s' \<in> set (td_sessions db)" "se_UserID s' \<noteq> uid"
        using not_revoked [of s' "\<lambda>s. se_UserID s = uid" now "''admin_suspension''" "td_sessions db"]
        unfolding same(1) revoke_with_tokens_def revoke_shapes frame by blast+
      moreover from this have "account_active db' (se_UserID s') = account_active db (se_UserID s')"
        using act [of "se_UserID s'"] by (simp add: account_active_def same(3))
      ultimately show "account_active db' (se_UserID s') \<or> (\<exists>s \<in> set (td_sessions db). se_RevokedAt s = None \<and>
          se_UserID s = se_UserID s' \<and> (account_active db (se_UserID s) \<longrightarrow> account_active db' (se_UserID s)))"
        using s'(2) by blast
    qed
    ultimately show ?thesis unfolding tx_ok_def by blast
  qed
qed

lemma auth_tx_ok:
  assumes "auth_tx db evs db'" and ok: "sessions_ok db" "accounts_ok db"
  shows "tx_ok db db'"
  using assms(1)
proof cases
  case (Refused verify now wall input e)
  then show ?thesis using authenticate_frame(1) tx_untouched [OF ok] by fastforce
next
  case RevokeOthers
  then show ?thesis unfolding RevokeAllSessionsExcept_def using tx_revoke_with [OF ok] by simp
next
  case RenameDevice
  then show ?thesis by (intro tx_untouched [OF ok]) (auto simp: UpdateDeviceDisplayName_def Let_def split: if_splits)
next
  case Forgot
  then show ?thesis by (intro tx_untouched [OF ok]) (auto simp: CreatePasswordResetToken_def split: if_splits)
next
  case Invite
  then show ?thesis by (intro tx_untouched [OF ok]) (auto simp: CreateInvite_def Let_def split: if_splits)
next
  case SignOut
  then show ?thesis using tx_revoke_with [OF ok] by (auto simp: RevokeUserSessions_def split: if_splits)
next
  case Redeem
  then show ?thesis by (intro tx_untouched [OF ok]) (auto simp: ConsumeExchange_def Let_def split: option.splits)
next
  case Begin
  then show ?thesis by (intro tx_untouched [OF ok]) (auto simp: CreateAuthRequest_def split: if_splits)
next
  case Callback
  then show ?thesis by (intro tx_untouched [OF ok]) (auto simp: ConsumeAuthRequest_def Let_def split: option.splits)
next
  case Policy
  then show ?thesis by (intro tx_untouched [OF ok]) simp_all
qed (erule tx_oidc [OF ok] tx_rotate [OF ok] tx_logout [OF ok] tx_revoke_one [OF ok] tx_drop_device [OF ok] tx_reset [OF ok]
  tx_new_user [OF ok] tx_accept [OF ok] tx_status [OF ok])+

lemma auth_step_ok:
  assumes "auth_step s evs s'" and ok: "sessions_ok (sy_db s)" "accounts_ok (sy_db s)"
  shows "tx_ok (sy_db s) (sy_db s')"
  using assms(1)
proof cases
  case (Tx db db' ls)
  then show ?thesis using auth_tx_ok ok by simp
next
  case (Authenticated ls input verify now wall db c db')
  then have "db' = db" using authenticate_frame(2) by blast
  then show ?thesis using Authenticated tx_untouched [OF ok] by simp
next
  case (Grant l ls j k now wall db r db')
  then show ?thesis using tx_grant ok by simp
qed

lemma start_ok: "sessions_ok (sy_db (start p ws))" "accounts_ok (sy_db (start p ws))"
  by (simp_all add: start_def sessions_ok_def accounts_ok_def)

lemma run_ok:
  assumes "auth_run s evs s'" and "sessions_ok (sy_db s)" "accounts_ok (sy_db s)"
  shows "sessions_ok (sy_db s') \<and> accounts_ok (sy_db s')"
  using assms by induction (auto dest: auth_step_ok simp: tx_ok_def)

lemmas reachable_ok = run_ok [OF _ start_ok]

section \<open>A run\<close>

text \<open>An account is created, signs in on a device and refreshes its token once.\<close>

definition demo_policy :: PolicySettings where
  "demo_policy =
     \<lparr>po_MinPasswordLength = 12, po_RequireUppercase = True, po_RequireLowercase = True, po_RequireNumber = True, po_RequireSymbol = True,
      po_FailedLoginLimit = 2, po_FailedLoginWindowMinutes = 15, po_FailedLoginLockoutMinutes = 15, po_SessionIdleTimeoutMinutes = 60,
      po_MaxDevicesPerUser = 1, po_PasswordResetTokenTTLMinutes = 60, po_InviteTokenTTLHours = 72, po_PasswordExpirationDays = 0\<rparr>"

definition demo_verify :: verifier where
  "demo_verify password hash = Some (password = hash)"

definition demo_input :: CreateSessionInput where
  "demo_input =
     \<lparr>ci_Password = ''old'', ci_Email = ''a@b.co'', ci_RefreshTokenHash = ''t1'', ci_RefreshExpiresAt = 9000, ci_DeviceFingerprintHash = ''f'',
      ci_DeviceName = '''', ci_Platform = '''', ci_IPAddress = '''', ci_UserAgent = ''''\<rparr>"

definition demo_login :: pending_login where
  "demo_login = \<lparr>pl_Input = demo_input, pl_UserID = ''u'', pl_Policy = demo_policy\<rparr>"

definition demo_created :: adb where
  "demo_created = snd (projr (CreateUser ''u'' 1
     \<lparr>cu_Email = ''a@b.co'', cu_DisplayName = ''A'', cu_FullName = '''', cu_InitialPassword = ''old'', cu_MustChangePassword = False\<rparr> ''old'' (sy_db (start demo_policy []))))"

definition demo_granted :: adb where
  "demo_granted = snd (grantLoginSession ''d'' ''s'' 2 2 ''u'' demo_input demo_policy demo_created)"

definition demo_refreshed :: adb where
  "demo_refreshed = snd (RotateRefreshToken 3 3 ''t1'' ''t2'' demo_granted)"

lemma Inr_pair: "\<not> isl x \<Longrightarrow> x = Inr (fst (projr x), snd (projr x))"
  by (cases x) simp_all

lemma run_txI: "auth_run s evs \<lparr>sy_db = db, sy_logins = ls\<rparr> \<Longrightarrow> auth_tx db new db' \<Longrightarrow> auth_run s (evs @ new) \<lparr>sy_db = db', sy_logins = ls\<rparr>"
  by (erule run_step) (rule auth_step.Tx)

lemma demo_pending: "auth_run (start demo_policy []) [] \<lparr>sy_db = demo_created, sy_logins = [demo_login]\<rparr>"
proof -
  let ?create = "CreateUser ''u'' 1 \<lparr>cu_Email = ''a@b.co'', cu_DisplayName = ''A'', cu_FullName = '''', cu_InitialPassword = ''old'', cu_MustChangePassword = False\<rparr> ''old''
      (sy_db (start demo_policy []))"
  have "\<not> isl ?create" by code_simp
  then have c: "?create = Inr (fst (projr ?create), demo_created)" unfolding demo_created_def by (rule Inr_pair)
  have "auth_run (start demo_policy []) [] \<lparr>sy_db = sy_db (start demo_policy []), sy_logins = []\<rparr>"
    using run_refl [of "start demo_policy []"] by (simp add: start_def)
  from run_txI [OF this auth_tx.NewUser [OF c]]
  have run: "auth_run (start demo_policy []) [] \<lparr>sy_db = demo_created, sy_logins = []\<rparr>" by simp
  have a: "\<not> isl (fst (authenticate demo_verify 2 2 demo_input (td_policy demo_created) demo_created)) \<and>
      lu_ID (lc_User (projr (fst (authenticate demo_verify 2 2 demo_input (td_policy demo_created) demo_created)))) = ''u''" by code_simp
  have pol: "td_policy demo_created = demo_policy" by code_simp
  obtain r db' where r: "authenticate demo_verify 2 2 demo_input (td_policy demo_created) demo_created = (r, db')"
    by (cases "authenticate demo_verify 2 2 demo_input (td_policy demo_created) demo_created")
  obtain cand where cand: "r = Inr cand" "lu_ID (lc_User cand) = ''u''" using a unfolding r fst_conv by (cases r) simp_all
  have same: "db' = demo_created" by (rule authenticate_frame(2) [OF r cand(1)])
  have "auth_step \<lparr>sy_db = demo_created, sy_logins = []\<rparr> []
      \<lparr>sy_db = db', sy_logins = [\<lparr>pl_Input = demo_input, pl_UserID = lu_ID (lc_User cand), pl_Policy = td_policy demo_created\<rparr>]\<rparr>"
    by (rule auth_step.Authenticated [OF _ r [unfolded cand(1)]]) simp
  then have "auth_step \<lparr>sy_db = demo_created, sy_logins = []\<rparr> [] \<lparr>sy_db = demo_created, sy_logins = [demo_login]\<rparr>"
    unfolding same cand(2) pol demo_login_def .
  from run_step [OF run this] show ?thesis by simp
qed

lemma demo_grant: "auth_run (start demo_policy []) [Granted ''s'' ''u''] \<lparr>sy_db = demo_granted, sy_logins = []\<rparr>"
proof -
  let ?g = "grantLoginSession ''d'' ''s'' 2 2 (pl_UserID demo_login) (pl_Input demo_login) (pl_Policy demo_login) demo_created"
  have g: "fst ?g = Inr \<lparr>as_ID = ''s'', as_UserID = ''u''\<rparr>" by code_simp
  then have "?g = (Inr \<lparr>as_ID = ''s'', as_UserID = ''u''\<rparr>, demo_granted)" unfolding demo_granted_def demo_login_def by (simp add: prod_eq_iff)
  from run_step [OF demo_pending auth_step.Grant [OF _ this]] show ?thesis by simp
qed

lemma demo_refresh: "auth_run (start demo_policy []) [Granted ''s'' ''u'', Refreshed ''t1'' ''s''] \<lparr>sy_db = demo_refreshed, sy_logins = []\<rparr>"
proof -
  let ?r = "RotateRefreshToken 3 3 ''t1'' ''t2'' demo_granted"
  have "fst ?r = Inr \<lparr>as_ID = ''s'', as_UserID = ''u''\<rparr>" by code_simp
  then have "?r = (Inr \<lparr>as_ID = ''s'', as_UserID = ''u''\<rparr>, demo_refreshed)" unfolding demo_refreshed_def by (simp add: prod_eq_iff)
  from run_txI [OF demo_grant auth_tx.Refresh [OF this]] show ?thesis by simp
qed

end
