(* ===== verification/Auth_Safety.thy ===== *)
theory Auth_Safety
  imports Auth_Lifecycle
begin

text \<open>
  What the transactions on sessions guarantee over any run: a refresh token is spent once and its replay ends the session,
  a revoked session never comes back, an account that is not active has no access left, and the number of devices of an
  account stays within the policy.
\<close>

section \<open>Tokens that were spent\<close>

definition session_ended :: "adb \<Rightarrow> string \<Rightarrow> bool" where
  "session_ended db sid \<longleftrightarrow> (\<exists>s \<in> set (td_sessions db). se_ID s = sid \<and> se_RevokedAt s \<noteq> None)"

definition spent :: "adb \<Rightarrow> string \<Rightarrow> string \<Rightarrow> bool" where
  "spent db hash sid \<longleftrightarrow>
     (\<exists>h \<in> set (td_history db). th_RefreshTokenHash h = hash \<and> th_SessionID h = sid \<and>
        (th_Status h = ''rotated'' \<or> th_Status h = ''reused'' \<and> session_ended db sid))"

lemma session_ended_kept: "evolves db db' \<Longrightarrow> session_ended db sid \<Longrightarrow> session_ended db' sid"
  unfolding session_ended_def evolves_def session_kept_def by metis

lemma spent_kept:
  assumes "tx_ok db db'" and "spent db hash sid"
  shows "spent db' hash sid"
proof -
  have e: "evolves db db'" and ok: "sessions_ok db'" using assms(1) unfolding tx_ok_def by blast+
  obtain h where h: "h \<in> set (td_history db)" "th_RefreshTokenHash h = hash" "th_SessionID h = sid"
      "th_Status h = ''rotated'' \<or> th_Status h = ''reused'' \<and> session_ended db sid"
    using assms(2) unfolding spent_def by blast
  obtain h' where h': "h' \<in> set (td_history db')" "token_kept db' h h'" using e h(1) unfolding evolves_def by blast
  have "session_ended db' sid" if "\<forall>s \<in> set (td_sessions db'). se_ID s = th_SessionID h \<longrightarrow> se_RevokedAt s \<noteq> None"
    using sessions_okD(4) [OF ok h'(1)] h'(2) that h(3) unfolding session_ended_def session_for_def token_kept_def by metis
  moreover have "th_Status h \<noteq> ''active''" using h(4) by auto
  ultimately have "th_Status h' = ''rotated'' \<or> th_Status h' = ''reused'' \<and> session_ended db' sid"
    using h'(2) h(4) session_ended_kept [OF e] unfolding token_kept_def by metis
  then show ?thesis using h' h(2,3) unfolding spent_def token_kept_def by metis
qed

lemma active_not_spent:
  assumes ok: "sessions_ok db" and h: "h \<in> set (td_history db)" "th_Status h = ''active''"
  shows "\<not> spent db (th_RefreshTokenHash h) sid"
proof
  assume "spent db (th_RefreshTokenHash h) sid"
  then obtain g where g: "g \<in> set (td_history db)" "th_RefreshTokenHash g = th_RefreshTokenHash h" "th_Status g = ''rotated'' \<or> th_Status g = ''reused''"
    unfolding spent_def by blast
  have "g = h" by (rule token_unique [OF ok g(1) h(1) g(2)])
  then show False using g(3) h(2) by simp
qed

lemma rotated_spent:
  assumes ok: "sessions_ok db" and "RotateRefreshToken now wall old new db = (Inr a, db')"
  shows "spent db' old (as_ID a)" and "\<not> spent db old sid"
proof -
  from assms(2) have "spent db' old (as_ID a) \<and> \<not> spent db old sid"
  proof (cases rule: RotateRefreshToken_cases)
    case (rotated s)
    note s = refresh_sessionD [OF rotated(1)]
    obtain h where h: "h \<in> set (td_history db)" "th_SessionID h = se_ID s" "th_RefreshTokenHash h = old" "th_Status h = ''active''"
      using s(4) s(2) unfolding has_active_token_def list_ex_iff by blast
    have "h\<lparr>th_Status := ''rotated'', th_RotatedAt := Some now\<rparr> \<in> set (td_history db')"
      unfolding rotated(10) set_append set_update_rows using h by (intro UnI1 image_eqI [of _ _ h]) simp_all
    then have "spent db' old (se_ID s)" unfolding spent_def using h(2,3) by (intro bexI) simp_all
    moreover have "\<not> spent db old sid" using active_not_spent [OF ok h(1,4)] unfolding h(3) .
    ultimately show ?thesis using rotated(2) by simp
  qed simp_all
  then show "spent db' old (as_ID a)" "\<not> spent db old sid" by blast+
qed

lemma step_refreshed:
  assumes "auth_step s evs s'" and "Refreshed h sid \<in> set evs"
  shows "\<exists>now wall new a. RotateRefreshToken now wall h new (sy_db s) = (Inr a, sy_db s') \<and> as_ID a = sid \<and> evs = [Refreshed h sid]"
  using assms(1)
proof cases
  case (Tx db db' ls)
  from Tx(3) show ?thesis using assms(2) Tx(1,2) by cases (auto split: sum.splits)
next
  case (Grant l ls j k now wall db r db')
  then show ?thesis using assms(2) by (auto split: sum.splits)
qed (use assms(2) in simp)

lemma run_spent:
  assumes "auth_run s0 evs s" and "s0 = start p ws" and "Refreshed h sid \<in> set evs"
  shows "spent (sy_db s) h sid"
  using assms
proof (induction arbitrary: h sid)
  case (run_step s0 evs s' new s'')
  then have ok: "sessions_ok (sy_db s')" "accounts_ok (sy_db s')" using reachable_ok by blast+
  show ?case
  proof (cases "Refreshed h sid \<in> set new")
    case True
    then show ?thesis using step_refreshed [OF run_step.hyps(2)] rotated_spent(1) [OF ok(1)] by blast
  next
    case False
    then have "spent (sy_db s') h sid" using run_step by simp
    then show ?thesis by (rule spent_kept [OF auth_step_ok [OF run_step.hyps(2) ok]])
  qed
qed simp

lemma spent_replay:
  assumes ok: "sessions_ok db" "accounts_ok db" and "spent db hash sid" and r: "RotateRefreshToken now wall hash new db = (r, db')"
  shows "r = Inl ErrInvalidRefreshToken \<and> session_ended db' sid"
proof -
  obtain h where h: "h \<in> set (td_history db)" "th_RefreshTokenHash h = hash" "th_SessionID h = sid"
      "th_Status h = ''rotated'' \<or> th_Status h = ''reused'' \<and> session_ended db sid"
    using assms(3) unfolding spent_def by blast
  have "refresh_session now hash db = None"
  proof (rule ccontr)
    assume "refresh_session now hash db \<noteq> None"
    then obtain s where s: "refresh_session now hash db = Some s" by blast
    obtain g where g: "g \<in> set (td_history db)" "th_RefreshTokenHash g = hash" "th_Status g = ''active''"
      using refresh_sessionD(2,4) [OF s] unfolding has_active_token_def list_ex_iff by metis
    then show False using active_not_spent [OF ok(1) g(1,3)] assms(3) by simp
  qed
  then have eq: "r = Inl ErrInvalidRefreshToken" "db' = (if fst (revokeSessionForReusedToken now hash db) then snd (revokeSessionForReusedToken now hash db) else db)"
    using r unfolding RotateRefreshToken_def by (auto split: prod.splits)
  have "session_ended db' sid"
  proof (cases "fst (revokeSessionForReusedToken now hash db)")
    case True
    then have "revokeSessionForReusedToken now hash db = (True, db')" unfolding eq(2) by (simp add: prod_eq_iff)
    then obtain g where g: "g \<in> set (td_history db)" "th_RefreshTokenHash g = hash"
        "td_sessions db' = update_rows (\<lambda>s. se_ID s = th_SessionID g \<and> se_RevokedAt s = None) (revoke_session now ''refresh_token_reuse_detected'') (td_sessions db)"
      by (rule reuse_kept [OF ok(1)]) blast
    then have sid: "th_SessionID g = sid" using token_unique [OF ok(1) g(1) h(1)] h(2,3) by simp
    obtain s where "s \<in> set (td_sessions db)" "se_ID s = sid" using sessions_okD(4) [OF ok(1) h(1)] h(3) unfolding session_for_def by blast
    then have "(if se_ID s = sid \<and> se_RevokedAt s = None then revoke_session now ''refresh_token_reuse_detected'' s else s) \<in> set (td_sessions db')"
      unfolding g(3) set_update_rows sid by blast
    then show ?thesis using \<open>se_ID s = sid\<close> unfolding session_ended_def by (intro bexI) auto
  next
    case False
    then have "find (\<lambda>h. th_RefreshTokenHash h = hash \<and> th_Status h = ''rotated'') (td_history db) = None"
      unfolding revokeSessionForReusedToken_def by (simp add: Let_def split: option.splits)
    then have "th_Status h \<noteq> ''rotated''" using h(1,2) unfolding find_None_iff by blast
    then show ?thesis using h(4) False unfolding eq(2) by simp
  qed
  then show ?thesis using eq(1) by blast
qed

lemma ended_tokens:
  assumes ok: "sessions_ok db" and "session_ended db sid" and t: "t \<in> set (td_history db)" "th_SessionID t = sid"
  shows "th_Status t \<noteq> ''active''"
proof
  assume a: "th_Status t = ''active''"
  obtain x where x: "x \<in> set (td_sessions db)" "se_ID x = sid" "se_RevokedAt x \<noteq> None" using assms(2) unfolding session_ended_def by blast
  obtain y where y: "y \<in> set (td_sessions db)" "session_for t y" using sessions_okD(4) [OF ok t(1)] ..
  then have "y = x" using session_unique [OF ok y(1) x(1)] x(2) t(2) unfolding session_for_def by simp
  obtain g where g: "g \<in> set (td_history db)" "token_for x g" using sessions_okD(3) [OF ok x(1)] ..
  then have "g = t" using token_unique [OF ok g(1) t(1)] y(2) a \<open>y = x\<close> unfolding session_for_def token_for_def by simp
  then show False using g(2) a x(3) unfolding token_for_def by simp
qed

section \<open>Revocation is final\<close>

lemma grant_shape_ids:
  assumes "resolveLoginDevice i now uid input policy db = Inr (dev, db1)"
    and "insertLoginSession k now wall uid dev' input' policy (recordLoginAttempt now u e ok reason ip ua db1) = Inr (s, db2)"
  shows "as_ID s \<notin> se_ID ` set (td_sessions db) \<and> as_UserID s = uid"
proof -
  obtain ds where d1: "db1 = db\<lparr>td_devices := ds\<rparr>" using resolveLoginDevice_frame [OF assms(1)] ..
  show ?thesis using assms(2) unfolding d1 by (auto simp: insertLoginSession_def recordLoginAttempt_def list_ex_iff split: if_splits)
qed

lemma step_granted:
  assumes "auth_step s evs s'" and ok: "accounts_ok (sy_db s)" and g: "Granted sid uid \<in> set evs"
  shows "sid \<notin> se_ID ` set (td_sessions (sy_db s))"
  using assms(1)
proof cases
  case (Tx db db' ls)
  have "\<exists>build i j k now wall oidc a user. CreateOIDCSessionAndExchange build i j k now wall oidc db = Inr ((a, user), db') \<and> as_ID a = sid"
    using Tx(3) g by cases (simp_all split: sum.splits, blast)
  then obtain build i j k now wall oidc a user
    where c: "CreateOIDCSessionAndExchange build i j k now wall oidc db = Inr ((a, user), db')" "as_ID a = sid" by blast
  from c(1) show ?thesis
  proof (cases rule: OIDC_cases)
    case (1 db1 dev db2 db4 db5 x)
    have "td_sessions db1 = td_sessions db" using resolveOIDCUser_ok [OF _ 1(1)] ok Tx(1) by simp
    then show ?thesis using grant_shape_ids [OF 1(2,3)] c(2) Tx(1) by simp
  qed
next
  case (Grant l ls j k now wall db r db')
  obtain a where a: "r = Inr a" "as_ID a = sid" using g Grant(2) by (cases r) auto
  from Grant(5) show ?thesis
  proof (cases rule: grantLoginSession_cases)
    case (granted dev db1 db2 db3 b)
    then show ?thesis using grant_shape_ids [OF granted(3,4)] a Grant(1) by simp
  qed (use a in simp)
qed (use g in simp)

lemma revoked_stays:
  assumes "auth_run s evs s'" and "sessions_ok (sy_db s)" "accounts_ok (sy_db s)"
    and "x \<in> set (td_sessions (sy_db s))" "se_RevokedAt x \<noteq> None"
  shows "x \<in> set (td_sessions (sy_db s')) \<and> (\<forall>h. Refreshed h (se_ID x) \<notin> set evs) \<and> (\<forall>u. Granted (se_ID x) u \<notin> set evs)"
  using assms
proof induction
  case (run_step s evs s' new s'')
  then have IH: "x \<in> set (td_sessions (sy_db s'))" "\<And>h. Refreshed h (se_ID x) \<notin> set evs" "\<And>u. Granted (se_ID x) u \<notin> set evs" by blast+
  have ok: "sessions_ok (sy_db s')" "accounts_ok (sy_db s')" using run_ok [OF run_step.hyps(1)] run_step.prems by blast+
  have "evolves (sy_db s') (sy_db s'')" using auth_step_ok [OF run_step.hyps(2) ok] unfolding tx_ok_def by blast
  then have "x \<in> set (td_sessions (sy_db s''))"
    using IH(1) run_step.prems(4) unfolding evolves_def session_kept_def by metis
  moreover have "Refreshed h (se_ID x) \<notin> set new" for h
  proof
    assume "Refreshed h (se_ID x) \<in> set new"
    then obtain now wall h' a where r: "RotateRefreshToken now wall h h' (sy_db s') = (Inr a, sy_db s'')" "as_ID a = se_ID x"
      using step_refreshed [OF run_step.hyps(2)] by blast
    from r(1) show False
    proof (cases rule: RotateRefreshToken_cases)
      case (rotated y)
      have "y = x" using session_unique [OF ok(1) refresh_sessionD(1) [OF rotated(1)] IH(1)] rotated(2) r(2) by simp
      then show ?thesis using refresh_sessionD(6) [OF rotated(1)] run_step.prems(4) by simp
    qed simp_all
  qed
  moreover have "Granted (se_ID x) u \<notin> set new" for u using step_granted [OF run_step.hyps(2) ok(2)] IH(1) by blast
  ultimately show ?case using IH(2,3) unfolding set_append by blast
qed simp

lemma ended_invalid:
  assumes ok: "sessions_ok db" and "session_ended db sid"
  shows "ValidateActiveSession now uid sid db = Some ErrInvalidToken" and "refresh_session now h db = Some y \<Longrightarrow> se_ID y \<noteq> sid"
proof -
  obtain x where x: "x \<in> set (td_sessions db)" "se_ID x = sid" "se_RevokedAt x \<noteq> None" using assms(2) unfolding session_ended_def by blast
  have one: "se_RevokedAt y \<noteq> None" if "y \<in> set (td_sessions db)" "se_ID y = sid" for y using session_unique [OF ok that(1) x(1)] that(2) x(2,3) by simp
  then have "find (\<lambda>s. se_ID s = sid \<and> se_UserID s = uid \<and> session_current now s \<and> account_active db (se_UserID s)) (td_sessions db) = None"
    unfolding find_None_iff session_current_def by blast
  then show "ValidateActiveSession now uid sid db = Some ErrInvalidToken" unfolding ValidateActiveSession_def ActiveSessionCTE_def by simp
  show "se_ID y \<noteq> sid" if "refresh_session now h db = Some y" using one refresh_sessionD(1,6) [OF that] by blast
qed

text \<open>
  Claim C6. The replay of a refresh token ends the session for good. However logins, refreshes, logouts, revocations,
  suspensions and password resets interleave, presenting a token that was exchanged before answers
  \<open>ErrInvalidRefreshToken\<close>; and in everything that can follow, the session it belonged to is valid for no service, has no
  active token, whichever token it had been given since, and is never refreshed.
\<close>

theorem replay_ends_session:
  assumes "auth_run (start p ws) evs s" and "Refreshed h sid \<in> set evs"
    and "RotateRefreshToken now wall h new (sy_db s) = (r, db')" and "auth_run \<lparr>sy_db = db', sy_logins = sy_logins s\<rparr> later s'"
  shows "r = Inl ErrInvalidRefreshToken \<and> ValidateActiveSession now' uid sid (sy_db s') = Some ErrInvalidToken \<and>
    (\<forall>t \<in> set (td_history (sy_db s')). th_SessionID t = sid \<longrightarrow> th_Status t \<noteq> ''active'') \<and>
    (\<forall>h' x. refresh_session now' h' (sy_db s') = Some x \<longrightarrow> se_ID x \<noteq> sid) \<and> (\<forall>h'. Refreshed h' sid \<notin> set later)"
proof -
  have ok: "sessions_ok (sy_db s)" "accounts_ok (sy_db s)" using reachable_ok [OF assms(1)] by blast+
  have ok1: "sessions_ok db'" "accounts_ok db'" using tx_rotate [OF ok assms(3)] unfolding tx_ok_def by blast+
  have r: "r = Inl ErrInvalidRefreshToken" "session_ended db' sid"
    using spent_replay [OF ok run_spent [OF assms(1) refl assms(2)] assms(3)] by blast+
  then obtain x where x: "x \<in> set (td_sessions db')" "se_ID x = sid" "se_RevokedAt x \<noteq> None" unfolding session_ended_def by blast
  have st: "x \<in> set (td_sessions (sy_db s'))" "\<And>h'. Refreshed h' sid \<notin> set later" using revoked_stays [OF assms(4)] ok1 x by auto
  have ok': "sessions_ok (sy_db s')" using run_ok [OF assms(4)] ok1 by simp
  have "session_ended (sy_db s') sid" using st(1) x(2,3) unfolding session_ended_def by blast
  then show ?thesis using r(1) st(2) ended_invalid [OF ok'] ended_tokens [OF ok'] by blast
qed

theorem replay_ends_session_witness:
  "\<exists>db'. RotateRefreshToken 4 4 ''t1'' ''t3'' demo_refreshed = (Inl ErrInvalidRefreshToken, db') \<and>
     ValidateActiveSession 5 ''u'' ''s'' (db'\<lparr>td_policy := demo_policy\<rparr>) = Some ErrInvalidToken"
proof -
  obtain r db' where r: "RotateRefreshToken 4 4 ''t1'' ''t3'' demo_refreshed = (r, db')" by (cases "RotateRefreshToken 4 4 ''t1'' ''t3'' demo_refreshed")
  have later: "auth_run \<lparr>sy_db = db', sy_logins = []\<rparr> ([] @ [PolicySet demo_policy]) \<lparr>sy_db = db'\<lparr>td_policy := demo_policy\<rparr>, sy_logins = []\<rparr>"
    by (rule run_txI [OF run_refl auth_tx.Policy])
  from replay_ends_session [OF demo_refresh, of "''t1''" "''s''" 4 4 "''t3''" r db' _ _ 5 "''u''"] r later show ?thesis
    unfolding asys.simps by (metis asys.select_convs list.set_intros)
qed

lemma run_keeps_sessions:
  assumes "auth_run s evs s'" and "sessions_ok (sy_db s)" "accounts_ok (sy_db s)" and "y \<in> set (td_sessions (sy_db s))"
  shows "\<exists>y' \<in> set (td_sessions (sy_db s')). se_ID y' = se_ID y \<and> se_UserID y' = se_UserID y"
  using assms
proof induction
  case (run_step s evs s' new s'')
  then obtain y' where y': "y' \<in> set (td_sessions (sy_db s'))" "se_ID y' = se_ID y" "se_UserID y' = se_UserID y" by blast
  have "sessions_ok (sy_db s')" "accounts_ok (sy_db s')" using run_ok [OF run_step.hyps(1)] run_step.prems by blast+
  from auth_step_ok [OF run_step.hyps(2) this] show ?case using y' unfolding tx_ok_def evolves_def session_kept_def by metis
qed blast

text \<open>
  Claim C18. Sessions keep their identity and revocation is final. Whatever follows, a session keeps its identifier and its
  owner. Once it is revoked, whatever ended it, its row never changes again: no later login, refresh, reactivation of
  the account or anything else brings it back, none of its tokens is exchanged, and every service that asks whether the
  session is valid is told that it is not.
\<close>

theorem revoked_final:
  assumes "auth_run (start p ws) evs s" and "auth_run s later s'"
    and "x \<in> set (td_sessions (sy_db s))" and "se_RevokedAt x = Some t"
  shows "(\<forall>y \<in> set (td_sessions (sy_db s)). (\<exists>y' \<in> set (td_sessions (sy_db s')). se_ID y' = se_ID y) \<and>
      (\<forall>y' \<in> set (td_sessions (sy_db s')). se_ID y' = se_ID y \<longrightarrow> se_UserID y' = se_UserID y)) \<and>
    x \<in> set (td_sessions (sy_db s')) \<and> Refreshed h (se_ID x) \<notin> set later \<and> Granted (se_ID x) u \<notin> set later \<and>
    ValidateActiveSession now uid (se_ID x) (sy_db s') = Some ErrInvalidToken \<and>
    (\<forall>k \<in> set (td_history (sy_db s')). th_SessionID k = se_ID x \<longrightarrow> th_Status k \<noteq> ''active'')"
proof -
  have ok: "sessions_ok (sy_db s)" "accounts_ok (sy_db s)" using reachable_ok [OF assms(1)] by blast+
  have ok': "sessions_ok (sy_db s')" using run_ok [OF assms(2) ok] by blast
  have rev: "se_RevokedAt x \<noteq> None" using assms(4) by simp
  note st = revoked_stays [OF assms(2) ok assms(3) rev]
  have "find (\<lambda>s. se_ID s = se_ID x \<and> se_UserID s = uid \<and> session_current now s \<and> account_active (sy_db s') (se_UserID s)) (td_sessions (sy_db s')) = None"
    unfolding find_None_iff session_current_def using session_unique [OF ok' _ conjunct1 [OF st]] rev by metis
  then have "ValidateActiveSession now uid (se_ID x) (sy_db s') = Some ErrInvalidToken"
    unfolding ValidateActiveSession_def ActiveSessionCTE_def by simp
  moreover have "session_ended (sy_db s') (se_ID x)" using st rev unfolding session_ended_def by blast
  moreover have "(\<exists>y' \<in> set (td_sessions (sy_db s')). se_ID y' = se_ID y) \<and>
      (\<forall>y' \<in> set (td_sessions (sy_db s')). se_ID y' = se_ID y \<longrightarrow> se_UserID y' = se_UserID y)" if "y \<in> set (td_sessions (sy_db s))" for y
    using run_keeps_sessions [OF assms(2) ok that] session_unique [OF ok'] by metis
  ultimately show ?thesis using st ended_tokens [OF ok'] by blast
qed

definition demo_signed_out :: adb where
  "demo_signed_out = projr (RevokeRefreshToken 4 ''t2'' demo_refreshed)"

lemma demo_sign_out:
  "auth_run (start demo_policy []) [Granted ''s'' ''u'', Refreshed ''t1'' ''s''] \<lparr>sy_db = demo_signed_out, sy_logins = []\<rparr>"
proof -
  have "\<not> isl (RevokeRefreshToken 4 ''t2'' demo_refreshed)" by code_simp
  then have "RevokeRefreshToken 4 ''t2'' demo_refreshed = Inr demo_signed_out" unfolding demo_signed_out_def by simp
  from run_txI [OF demo_refresh auth_tx.Logout [OF this]] show ?thesis by simp
qed

theorem revoked_final_witness:
  "\<exists>x. x \<in> set (td_sessions demo_signed_out) \<and> se_ID x = ''s'' \<and>
    ValidateActiveSession 5 ''u'' (se_ID x) (demo_signed_out\<lparr>td_policy := demo_policy\<lparr>po_MaxDevicesPerUser := 2\<rparr>\<rparr>) = Some ErrInvalidToken"
proof -
  let ?s = "\<lparr>sy_db = demo_signed_out, sy_logins = []\<rparr>"
  let ?p = "demo_policy\<lparr>po_MaxDevicesPerUser := 2\<rparr>"
  have "list_ex (\<lambda>x. se_ID x = ''s'' \<and> se_RevokedAt x = Some 4) (td_sessions demo_signed_out)" by code_simp
  then obtain x where x: "x \<in> set (td_sessions demo_signed_out)" "se_ID x = ''s''" "se_RevokedAt x = Some 4" unfolding list_ex_iff by blast
  have later: "auth_run ?s ([] @ [PolicySet ?p]) \<lparr>sy_db = demo_signed_out\<lparr>td_policy := ?p\<rparr>, sy_logins = []\<rparr>"
    by (rule run_txI [OF run_refl auth_tx.Policy])
  from revoked_final [OF demo_sign_out later _ x(3), of "''t2''" "''u''" 5 "''u''"] x show ?thesis unfolding asys.simps by blast
qed

section \<open>Accounts that are not active\<close>

text \<open>
  Claim C4. An account that is not active has no access. In every state any run reaches, an account that is suspended or
  gone has no live session; none of its tokens refreshes, none of its sessions validates, its exchange codes are refused,
  and a login that had already verified its password when the suspension committed is refused too.
\<close>

theorem suspended_has_no_access:
  assumes "auth_run (start p ws) evs s" and "\<not> account_active (sy_db s) uid"
  shows "(\<forall>x \<in> set (td_sessions (sy_db s)). se_UserID x = uid \<longrightarrow> se_RevokedAt x \<noteq> None) \<and>
    ValidateActiveSession now uid sid (sy_db s) = Some ErrInvalidToken \<and>
    (\<forall>x. refresh_session now h (sy_db s) = Some x \<longrightarrow> se_UserID x \<noteq> uid) \<and>
    (\<forall>x db'. ConsumeExchange now provider code (sy_db s) = Inr (x, db') \<longrightarrow> xc_UserID x \<noteq> uid) \<and>
    (\<forall>l \<in> set (sy_logins s). pl_UserID l = uid \<longrightarrow>
       grantLoginSession j k now wall uid (pl_Input l) (pl_Policy l) (sy_db s) = (Inl ErrInvalidCredentials, sy_db s))"
proof (intro conjI)
  have ok: "accounts_ok (sy_db s)" using reachable_ok [OF assms(1)] by blast
  then show "\<forall>x \<in> set (td_sessions (sy_db s)). se_UserID x = uid \<longrightarrow> se_RevokedAt x \<noteq> None"
    using assms(2) unfolding accounts_ok_def by blast
  have "find (\<lambda>s'. se_ID s' = sid \<and> se_UserID s' = uid \<and> session_current now s' \<and> account_active (sy_db s) (se_UserID s')) (td_sessions (sy_db s)) = None"
    unfolding find_None_iff using assms(2) by blast
  then show "ValidateActiveSession now uid sid (sy_db s) = Some ErrInvalidToken"
    unfolding ValidateActiveSession_def ActiveSessionCTE_def by simp
  show "\<forall>x. refresh_session now h (sy_db s) = Some x \<longrightarrow> se_UserID x \<noteq> uid"
    using refresh_sessionD(5) assms(2) by blast
  show "\<forall>x db'. ConsumeExchange now provider code (sy_db s) = Inr (x, db') \<longrightarrow> xc_UserID x \<noteq> uid"
    using assms(2) unfolding ConsumeExchange_def Let_def by (auto dest!: find_SomeD split: option.splits)
  show "\<forall>l \<in> set (sy_logins s). pl_UserID l = uid \<longrightarrow>
       grantLoginSession j k now wall uid (pl_Input l) (pl_Policy l) (sy_db s) = (Inl ErrInvalidCredentials, sy_db s)"
    using assms(2) by (simp add: grantLoginSession_def revalidateUserActive_def)
qed

text \<open>A login is authenticated, the account is suspended, and the grant is refused.\<close>

definition demo_suspended :: adb where
  "demo_suspended = snd (snd (updateUserStatusOnce ownershipSuccessionSession db_enabled 3 ''u'' ''suspended''
     (\<lparr>db_enabled = False, db_rows = [], db_resource = \<lambda>_ _. None, db_requests = [], db_audit = [], db_events = [], db_names = \<lambda>_ _. None\<rparr>,
      demo_created)))"

lemma demo_suspend: "auth_run (start demo_policy []) [] \<lparr>sy_db = demo_suspended, sy_logins = [demo_login]\<rparr>"
proof -
  let ?chat = "\<lparr>db_enabled = False, db_rows = [], db_resource = \<lambda>_ _. None, db_requests = [], db_audit = [], db_events = [], db_names = \<lambda>_ _. None\<rparr>"
  let ?u = "updateUserStatusOnce ownershipSuccessionSession db_enabled 3 ''u'' ''suspended'' (?chat, demo_created)"
  have "case fst ?u of Inr (Inr u) \<Rightarrow> True | _ \<Rightarrow> False" by code_simp
  then obtain u chat' where "?u = (Inr (Inr u), chat', demo_suspended)"
    unfolding demo_suspended_def by (cases ?u) (auto split: sum.splits)
  from run_txI [OF demo_pending auth_tx.Status [OF this]] show ?thesis by simp
qed

theorem suspended_has_no_access_witness:
  "\<not> account_active demo_suspended ''u'' \<and>
   grantLoginSession ''d'' ''s'' 4 4 ''u'' (pl_Input demo_login) (pl_Policy demo_login) demo_suspended = (Inl ErrInvalidCredentials, demo_suspended)"
proof -
  have n: "\<not> account_active demo_suspended ''u''" by code_simp
  moreover have "pl_UserID demo_login = ''u''" by (simp add: demo_login_def)
  ultimately show ?thesis using suspended_has_no_access [OF demo_suspend, of "''u''" 4 "''s''" "''t1''" "''p''" "''c''" "''d''" "''s''" 4]
    unfolding asys.simps by simp
qed

section \<open>Devices\<close>

definition devices_within :: "int \<Rightarrow> adb \<Rightarrow> bool" where
  "devices_within L db \<longleftrightarrow> (\<forall>u. int (length (active_devices db u)) \<le> L)"

lemma devices_within_cong: "td_devices db' = td_devices db \<Longrightarrow> devices_within L db' = devices_within L db"
  by (simp add: devices_within_def active_devices_def)

lemma active_devices_update:
  assumes "\<And>d. p d \<Longrightarrow> de_UserID (f d) = de_UserID d" and "\<And>d. p d \<Longrightarrow> de_RevokedAt (f d) = None \<Longrightarrow> de_RevokedAt d = None"
  shows "length (active_devices (db\<lparr>td_devices := update_rows p f (td_devices db)\<rparr>) u) \<le> length (active_devices db u)"
proof -
  have "length (filter (\<lambda>d. de_UserID d = u \<and> de_RevokedAt d = None) (update_rows p f ds)) \<le> length (filter (\<lambda>d. de_UserID d = u \<and> de_RevokedAt d = None) ds)" for ds
    by (induction ds) (use assms in \<open>auto simp: update_rows_def\<close>)
  then show ?thesis by (simp add: active_devices_def)
qed

lemma devices_updated:
  assumes "devices_within L db" and "\<And>d. p d \<Longrightarrow> de_UserID (f d) = de_UserID d" "\<And>d. p d \<Longrightarrow> de_RevokedAt (f d) = None \<Longrightarrow> de_RevokedAt d = None"
  shows "devices_within L (db\<lparr>td_devices := update_rows p f (td_devices db)\<rparr>)"
  unfolding devices_within_def
proof
  fix u
  have "length (active_devices (db\<lparr>td_devices := update_rows p f (td_devices db)\<rparr>) u) \<le> length (active_devices db u)"
    by (rule active_devices_update [OF assms(2,3)])
  then show "int (length (active_devices (db\<lparr>td_devices := update_rows p f (td_devices db)\<rparr>) u)) \<le> L"
    using assms(1) unfolding devices_within_def by (meson of_nat_le_iff order_trans)
qed

lemma resolve_devices:
  assumes "resolveLoginDevice i now uid input policy db = Inr (dev, db')" and "devices_within L db" and "po_MaxDevicesPerUser policy \<le> L"
  shows "devices_within L db'"
proof -
  let ?q = "\<lambda>d. de_UserID d = uid \<and> de_FingerprintHash d = ci_DeviceFingerprintHash input"
  let ?new = "\<lparr>de_ID = i, de_UserID = uid, de_FingerprintHash = ci_DeviceFingerprintHash input,
      de_DisplayName = nullableString (ci_DeviceName input), de_Platform = nullableString (ci_Platform input),
      de_LastIP = nullableString (ci_IPAddress input), de_FirstSeenAt = now, de_LastSeenAt = now, de_RevokedAt = None\<rparr>"
  consider (none) "db' = db"
    | (known) d :: device_row where "db' = db\<lparr>td_devices := update_rows (\<lambda>e. de_ID e = de_ID d)
          (\<lambda>e. e\<lparr>de_DisplayName := nullableString (ci_DeviceName input), de_Platform := nullableString (ci_Platform input),
                 de_LastIP := nullableString (ci_IPAddress input), de_LastSeenAt := now\<rparr>) (td_devices db)\<rparr>"
    | (new) "int (length (active_devices db uid)) < po_MaxDevicesPerUser policy" "db' = db\<lparr>td_devices := td_devices db @ [?new]\<rparr>"
  proof (cases "ci_DeviceFingerprintHash input = ''''")
    case True
    then show ?thesis using assms(1) none unfolding resolveLoginDevice_def by simp
  next
    case False
    show ?thesis
    proof (cases "find ?q (td_devices db)")
      case None
      then show ?thesis using assms(1) False new unfolding resolveLoginDevice_def
        by (simp add: insert_device_def bind_err_Inr_iff split: if_splits)
    next
      case (Some d)
      then show ?thesis using assms(1) False known [of d] unfolding resolveLoginDevice_def by (simp split: if_splits)
    qed
  qed
  then show ?thesis
  proof cases
    case none
    then show ?thesis using assms(2) by simp
  next
    case known
    show ?thesis unfolding known by (rule devices_updated [OF assms(2)]) simp_all
  next
    case new
    have "int (length (active_devices db' u)) \<le> L" for u
    proof (cases "u = uid")
      case True
      have "length (active_devices db' u) \<le> Suc (length (active_devices db uid))"
        unfolding new(2) active_devices_def True by simp
      then show ?thesis using new(1) assms(3) by linarith
    next
      case False
      then have "active_devices db' u = active_devices db u" unfolding new(2) active_devices_def by simp
      then show ?thesis using assms(2) unfolding devices_within_def by simp
    qed
    then show ?thesis unfolding devices_within_def ..
  qed
qed

lemma grant_devices:
  assumes "grantLoginSession j k now wall uid input policy db = (r, db')" and "devices_within L db" and "po_MaxDevicesPerUser policy \<le> L"
  shows "devices_within L db' \<and> td_policy db' = td_policy db"
  using assms(1)
proof (cases rule: grantLoginSession_cases)
  case (refused e)
  then obtain as where "db' = db\<lparr>td_attempts := as\<rparr>" by blast
  then show ?thesis using assms(2) unfolding devices_within_def active_devices_def by simp
next
  case (granted dev db1 db2 db3 s)
  show ?thesis
    by (rule grant_shape [OF granted(3-5) refl granted(6)])
      (use resolve_devices [OF granted(3) assms(2,3)] devices_within_cong [of db' db1] in blast)
qed

lemma revoke_frames [simp]:
  "td_devices (revoke_tokens now ids db) = td_devices db" "td_devices (revoke_sessions now reason p db) = td_devices db"
  "td_resets (revoke_tokens now ids db) = td_resets db" "td_resets (revoke_sessions now reason p db) = td_resets db"
  "td_codes (revoke_tokens now ids db) = td_codes db" "td_codes (revoke_sessions now reason p db) = td_codes db"
  "td_policy (revoke_tokens now ids db) = td_policy db" "td_policy (revoke_sessions now reason p db) = td_policy db"
  "td_credentials (revoke_tokens now ids db) = td_credentials db" "td_credentials (revoke_sessions now reason p db) = td_credentials db"
  "td_devices (revoke_with_tokens now reason p db) = td_devices db" "td_resets (revoke_with_tokens now reason p db) = td_resets db"
  "td_codes (revoke_with_tokens now reason p db) = td_codes db" "td_policy (revoke_with_tokens now reason p db) = td_policy db"
  "td_invites (revoke_tokens now ids db) = td_invites db \<and> td_requests (revoke_tokens now ids db) = td_requests db" "td_invites (revoke_sessions now reason p db) = td_invites db \<and> td_requests (revoke_sessions now reason p db) = td_requests db"
  "td_invites (revoke_with_tokens now reason p db) = td_invites db \<and> td_requests (revoke_with_tokens now reason p db) = td_requests db"
  by (simp_all add: revoke_tokens_def revoke_sessions_def revoke_with_tokens_def)

lemma rotate_frames:
  assumes "sessions_ok db" "RotateRefreshToken now wall old new db = (r, db')"
  shows "td_devices db' = td_devices db \<and> td_resets db' = td_resets db \<and> td_codes db' = td_codes db \<and> td_policy db' = td_policy db \<and>
    td_invites db' = td_invites db \<and> td_requests db' = td_requests db"
  using assms(2)
proof (cases rule: RotateRefreshToken_cases)
  case reuse
  show ?thesis by (rule reuse_kept [OF assms(1) reuse(3)]) blast
qed auto

lemma new_user_frames:
  assumes "CreateUser i now create password db = Inr (u, db')"
  shows "td_devices db' = td_devices db \<and> td_resets db' = td_resets db \<and> td_codes db' = td_codes db \<and> td_policy db' = td_policy db \<and>
    td_invites db' = td_invites db \<and> td_requests db' = td_requests db"
proof -
  obtain db1 where 1: "insert_account u db = Inr db1" "insert_credential now i password (cu_MustChangePassword create) db1 = Inr db'"
    using assms by (auto simp: CreateUser_def Let_def bind_err_Inr_iff)
  then show ?thesis using insert_account_frame [OF 1(1)] insert_credential_frame [OF 1(2)] by auto
qed

lemma accept_frames:
  assumes "AcceptInviteTx i now wall hash name full password db = Inr (u, db')"
  shows "td_devices db' = td_devices db \<and> td_resets db' = td_resets db \<and> td_codes db' = td_codes db \<and> td_policy db' = td_policy db"
proof -
  obtain db1 db2 ivs where 1: "insert_account u db = Inr db1" "insert_credential now i password False db1 = Inr db2"
      "db' = db2\<lparr>td_invites := ivs\<rparr>"
    using assms by (auto simp: AcceptInviteTx_def Let_def bind_err_Inr_iff split: option.splits if_splits)
  then show ?thesis using insert_account_frame [OF 1(1)] insert_credential_frame [OF 1(2)] by auto
qed

lemma status_frames:
  assumes "updateUserStatusOnce session available now uid status (chat, db) = (Inr (Inr u), chat', db')"
  shows "td_devices db' = td_devices db \<and> td_resets db' = td_resets db \<and> td_policy db' = td_policy db \<and> td_invites db' = td_invites db \<and> td_requests db' = td_requests db \<and>
    (td_codes db' = td_codes db \<or>
     td_codes db' = update_rows (\<lambda>x. live_code now x \<and> xc_UserID x = uid) (\<lambda>x. x\<lparr>xc_UsedAt := Some now\<rparr>) (td_codes db))"
  using assms
proof (cases rule: updateUserStatusOnce_cases)
  case (1 v)
  then show ?thesis unfolding closeOutSuspendedAccess_def Let_def by (simp add: set_status_def)
qed

lemma oidc_devices:
  assumes ok: "accounts_ok db" and "CreateOIDCSessionAndExchange build i j k now wall input db = Inr ((s, user), db')"
  shows "(devices_within L db \<longrightarrow> po_MaxDevicesPerUser (td_policy db) \<le> L \<longrightarrow> devices_within L db') \<and>
    td_resets db' = td_resets db \<and> td_policy db' = td_policy db \<and> td_invites db' = td_invites db \<and> td_requests db' = td_requests db \<and>
    (\<exists>x. td_codes db' = td_codes db @ [x] \<and> xc_CodeHash x \<notin> xc_CodeHash ` set (td_codes db) \<and> xc_UsedAt x = None)"
  using assms(2)
proof (cases rule: OIDC_cases)
  case (1 db1 dev db2 db4 db5 x)
  have hash: "oi_RefreshTokenHash input = ci_RefreshTokenHash (oidc_session_input input)" by (simp add: oidc_session_input_def)
  note r = resolveOIDCUser_ok [OF ok 1(1)] and f = insertOIDCExchange_frame [OF 1(5)]
  let ?t = "touch_last_login now (lu_ID user) db5"
  have g: "td_devices ?t = td_devices db2 \<and> td_resets ?t = td_resets db \<and> td_policy ?t = td_policy db \<and> td_codes ?t = td_codes db \<and>
      td_invites ?t = td_invites db \<and> td_requests ?t = td_requests db"
    by (rule grant_shape [OF 1(2-4) hash refl]) (use r in simp)
  have d: "td_devices db' = td_devices db2" "td_devices db1 = td_devices db" using f g r by simp_all
  have "devices_within L db \<Longrightarrow> po_MaxDevicesPerUser (td_policy db) \<le> L \<Longrightarrow> devices_within L db'"
    using resolve_devices [OF 1(2), of L] unfolding devices_within_cong [OF d(1)] devices_within_cong [OF d(2)] by blast
  moreover have "td_resets db' = td_resets db" "td_policy db' = td_policy db" "td_invites db' = td_invites db \<and> td_requests db' = td_requests db" "td_codes db' = td_codes db @ [x\<lparr>xc_UsedAt := None\<rparr>]"
    "xc_CodeHash (x\<lparr>xc_UsedAt := None\<rparr>) \<notin> xc_CodeHash ` set (td_codes db)" "xc_UsedAt (x\<lparr>xc_UsedAt := None\<rparr>) = None"
    using f g by simp_all
  ultimately show ?thesis by blast
qed

lemma tx_devices:
  assumes "auth_tx db evs db'" and ok: "sessions_ok db" "accounts_ok db" and d: "devices_within L db" and L: "po_MaxDevicesPerUser (td_policy db) \<le> L"
    and sets: "\<And>q. PolicySet q \<in> set evs \<Longrightarrow> po_MaxDevicesPerUser q \<le> L"
  shows "devices_within L db' \<and> po_MaxDevicesPerUser (td_policy db') \<le> L"
proof -
  have same: ?thesis if "td_devices db' = td_devices db" "td_policy db' = td_policy db"
    using d L devices_within_cong [OF that(1)] that(2) by simp
  show ?thesis using assms(1)
  proof cases
    case (Refused verify now wall input e)
    then obtain as where "db' = db\<lparr>td_attempts := as\<rparr>" using authenticate_frame(1) by blast
    then show ?thesis by (intro same) simp_all
  next
    case SignOn
    then show ?thesis using oidc_devices [OF ok(2) SignOn(2)] d L by auto
  next
    case Refresh
    then show ?thesis using rotate_frames [OF ok(1) Refresh(2)] by (intro same) simp_all
  next
    case (DropDevice now did uid)
    have f: "td_devices db' = update_rows (\<lambda>d. de_ID d = did \<and> de_UserID d = uid \<and> de_RevokedAt d = None) (\<lambda>d. d\<lparr>de_RevokedAt := Some now\<rparr>) (td_devices db)"
        "td_policy db' = td_policy db"
      using DropDevice(2) unfolding RevokeDevice_def by (auto split: if_splits)
    show ?thesis
      using devices_updated [OF d, of "\<lambda>d. de_ID d = did \<and> de_UserID d = uid \<and> de_RevokedAt d = None" "\<lambda>d. d\<lparr>de_RevokedAt := Some now\<rparr>"] L f
      unfolding devices_within_def active_devices_def by simp
  next
    case (RenameDevice did uid name)
    have f: "db' = db\<lparr>td_devices := update_rows (\<lambda>d. de_ID d = did \<and> de_UserID d = uid \<and> de_RevokedAt d = None)
        (\<lambda>d. d\<lparr>de_DisplayName := nullableString name\<rparr>) (td_devices db)\<rparr>"
      using RenameDevice(2) unfolding UpdateDeviceDisplayName_def Let_def by (simp split: if_splits)
    show ?thesis
      using devices_updated [OF d, of "\<lambda>d. de_ID d = did \<and> de_UserID d = uid \<and> de_RevokedAt d = None" "\<lambda>d. d\<lparr>de_DisplayName := nullableString name\<rparr>"] L
      unfolding f by simp
  next
    case Policy
    then show ?thesis using d sets unfolding devices_within_def active_devices_def by simp
  next
    case Status
    then show ?thesis using status_frames [OF Status(2)] by (intro same) simp_all
  next
    case NewUser
    then show ?thesis using new_user_frames by (intro same) blast+
  next
    case Accept
    then show ?thesis using accept_frames by (intro same) blast+
  next
    case Reset
    from Reset(2) show ?thesis by (cases rule: ResetPasswordTx_cases) (intro same; simp)
  qed (intro same; auto simp: RevokeRefreshToken_def RevokeSession_def RevokeAllSessionsExcept_def CreatePasswordResetToken_def
      CreateInvite_def RevokeUserSessions_def ConsumeExchange_def CreateAuthRequest_def ConsumeAuthRequest_def Let_def split: option.splits if_splits)+
qed

lemma run_devices:
  assumes "auth_run s0 evs s" and "s0 = start p ws" and "po_MaxDevicesPerUser p \<le> L" and "0 \<le> L"
    and "\<forall>q. PolicySet q \<in> set evs \<longrightarrow> po_MaxDevicesPerUser q \<le> L"
  shows "devices_within L (sy_db s) \<and> po_MaxDevicesPerUser (td_policy (sy_db s)) \<le> L \<and>
    (\<forall>l \<in> set (sy_logins s). po_MaxDevicesPerUser (pl_Policy l) \<le> L)"
  using assms
proof induction
  case (run_refl s)
  then show ?case by (simp add: start_def devices_within_def active_devices_def)
next
  case (run_step s0 evs s' new s'')
  then have ok: "sessions_ok (sy_db s')" "accounts_ok (sy_db s')" using reachable_ok by blast+
  have IH: "devices_within L (sy_db s')" "po_MaxDevicesPerUser (td_policy (sy_db s')) \<le> L"
      "\<forall>l \<in> set (sy_logins s'). po_MaxDevicesPerUser (pl_Policy l) \<le> L"
    using run_step by simp_all
  from run_step.hyps(2) show ?case
  proof cases
    case (Tx db db' ls)
    have "\<And>q. PolicySet q \<in> set new \<Longrightarrow> po_MaxDevicesPerUser q \<le> L" using run_step.prems(4) by simp
    then show ?thesis using tx_devices [OF Tx(3)] ok IH Tx(1,2) by simp
  next
    case (Authenticated ls input verify now wall db c db')
    then have "db' = db" using authenticate_frame(2) by blast
    then show ?thesis using IH Authenticated by simp
  next
    case (Grant l ls j k now wall db r db')
    then show ?thesis using grant_devices [OF Grant(5)] IH by (auto dest: notin_set_remove1)
  qed
qed

text \<open>
  Claim C24. The device limit holds against concurrent logins. If no policy ever allowed more than \<open>L\<close> devices, then at no
  time does any account have more than \<open>L\<close> devices that are not revoked, however password logins, each granted under the
  policy it read when it started, and single sign-on logins interleave.
\<close>

theorem devices_bounded:
  assumes "auth_run (start p ws) evs s" and "0 \<le> L" and "po_MaxDevicesPerUser p \<le> L"
    and "\<forall>q. PolicySet q \<in> set evs \<longrightarrow> po_MaxDevicesPerUser q \<le> L"
  shows "int (length (active_devices (sy_db s) u)) \<le> L"
  using run_devices [OF assms(1) refl assms(3,2,4)] unfolding devices_within_def by blast

theorem devices_bounded_witness: "int (length (active_devices demo_refreshed ''u'')) \<le> 1 \<and> active_devices demo_refreshed ''u'' \<noteq> []"
proof
  show "int (length (active_devices demo_refreshed ''u'')) \<le> 1"
    using devices_bounded [OF demo_refresh, of 1 "''u''"] by (simp add: demo_policy_def)
  show "active_devices demo_refreshed ''u'' \<noteq> []" by code_simp
qed

end
