(* ===== verification/Auth_Credentials.thy ===== *)
theory Auth_Credentials
  imports Auth_Safety
begin

text \<open>
  One-time credentials. A refresh token, the token of a password reset, that of an invitation, the state of a single sign-on
  and its exchange code are all rows that a transaction uses up. The locale states what one step owes such a ledger and
  shows that no credential is ever used twice; the five tables are its interpretations.
\<close>

section \<open>The ledger of a one-time credential\<close>

locale one_time =
  fixes rows :: "adb \<Rightarrow> 'r list" and key :: "'r \<Rightarrow> string" and used :: "'r \<Rightarrow> bool" and redeems :: "auth_event \<Rightarrow> string option"
  assumes none: "rows (sy_db (start p ws)) = []"
    and unique: "auth_step s evs s' \<Longrightarrow> sessions_ok (sy_db s) \<Longrightarrow> accounts_ok (sy_db s) \<Longrightarrow>
      distinct (map key (rows (sy_db s))) \<Longrightarrow> distinct (map key (rows (sy_db s')))"
    and kept: "auth_step s evs s' \<Longrightarrow> sessions_ok (sy_db s) \<Longrightarrow> accounts_ok (sy_db s) \<Longrightarrow> r \<in> set (rows (sy_db s)) \<Longrightarrow>
      \<exists>r' \<in> set (rows (sy_db s')). key r' = key r \<and> (used r \<longrightarrow> used r')"
    and redeemed: "auth_step s evs s' \<Longrightarrow> sessions_ok (sy_db s) \<Longrightarrow> accounts_ok (sy_db s) \<Longrightarrow> e \<in> set evs \<Longrightarrow> redeems e = Some k \<Longrightarrow>
      evs = [e] \<and> (\<exists>r \<in> set (rows (sy_db s)). key r = k \<and> \<not> used r) \<and> (\<exists>r \<in> set (rows (sy_db s')). key r = k \<and> used r)"
begin

lemma step_unused:
  assumes "auth_step s evs s'" "sessions_ok (sy_db s)" "accounts_ok (sy_db s)" "distinct (map key (rows (sy_db s)))"
    and "r \<in> set (rows (sy_db s))" "used r" "e \<in> set evs"
  shows "redeems e \<noteq> Some (key r)"
proof
  assume "redeems e = Some (key r)"
  then obtain q where "q \<in> set (rows (sy_db s))" "key q = key r" "\<not> used q" using redeemed [OF assms(1-3,7)] by blast
  moreover from this have "q = r" using assms(4,5) by (auto simp: distinct_map dest: inj_onD)
  ultimately show False using assms(6) by simp
qed

lemma never_again:
  assumes "auth_run s evs s'" and "sessions_ok (sy_db s)" "accounts_ok (sy_db s)" and "distinct (map key (rows (sy_db s)))"
    and "r \<in> set (rows (sy_db s))" "used r"
  shows "(\<exists>r' \<in> set (rows (sy_db s')). key r' = key r \<and> used r') \<and> distinct (map key (rows (sy_db s'))) \<and>
    (\<forall>e \<in> set evs. redeems e \<noteq> Some (key r))"
  using assms
proof induction
  case (run_step s evs s' new s'')
  have ok: "sessions_ok (sy_db s')" "accounts_ok (sy_db s')" using run_ok [OF run_step.hyps(1)] run_step.prems by blast+
  obtain r' where IH: "r' \<in> set (rows (sy_db s'))" "key r' = key r" "used r'" "distinct (map key (rows (sy_db s')))"
      "\<forall>e \<in> set evs. redeems e \<noteq> Some (key r)"
    using run_step by blast
  have "\<exists>q \<in> set (rows (sy_db s'')). key q = key r \<and> used q" using kept [OF run_step.hyps(2) ok IH(1)] IH(2,3) by auto
  moreover have "distinct (map key (rows (sy_db s'')))" by (rule unique [OF run_step.hyps(2) ok IH(4)])
  moreover have "\<forall>e \<in> set new. redeems e \<noteq> Some (key r)" using step_unused [OF run_step.hyps(2) ok IH(4,1,3)] IH(2) by simp
  ultimately show ?case using IH(5) by auto
qed auto

lemma run_used:
  assumes "auth_run s0 evs s" and "s0 = start p ws"
  shows "distinct (map key (rows (sy_db s))) \<and> length (filter (\<lambda>e. redeems e = Some k) evs) \<le> 1 \<and>
    ((\<exists>e \<in> set evs. redeems e = Some k) \<longrightarrow> (\<exists>r \<in> set (rows (sy_db s)). key r = k \<and> used r))"
  using assms
proof induction
  case (run_step s0 evs s' new s'')
  have ok: "sessions_ok (sy_db s')" "accounts_ok (sy_db s')" using reachable_ok run_step by blast+
  have IH: "distinct (map key (rows (sy_db s')))" "length (filter (\<lambda>e. redeems e = Some k) evs) \<le> 1"
      "(\<exists>e \<in> set evs. redeems e = Some k) \<Longrightarrow> \<exists>r \<in> set (rows (sy_db s')). key r = k \<and> used r" using run_step by blast+
  have u: "distinct (map key (rows (sy_db s'')))" by (rule unique [OF run_step.hyps(2) ok IH(1)])
  show ?case
  proof (cases "\<exists>e \<in> set new. redeems e = Some k")
    case True
    then obtain e where e: "e \<in> set new" "redeems e = Some k" by blast
    note n = redeemed [OF run_step.hyps(2) ok e]
    have "\<not> (\<exists>e \<in> set evs. redeems e = Some k)"
      using step_unused [OF run_step.hyps(2) ok IH(1) _ _ e(1)] IH(3) e(2) by blast
    then have "filter (\<lambda>e. redeems e = Some k) evs = []" unfolding filter_empty_conv by blast
    moreover have "new = [e]" using n by blast
    ultimately have "length (filter (\<lambda>e. redeems e = Some k) (evs @ new)) \<le> 1" by simp
    then show ?thesis using u n by blast
  next
    case False
    then have "filter (\<lambda>e. redeems e = Some k) new = []" unfolding filter_empty_conv by blast
    moreover have "\<exists>r \<in> set (rows (sy_db s'')). key r = k \<and> used r" if "\<exists>e \<in> set evs. redeems e = Some k"
      using IH(3) [OF that] kept [OF run_step.hyps(2) ok] by metis
    ultimately show ?thesis using u IH(2) False by auto
  qed
qed (simp add: none)

lemma once: "auth_run (start p ws) evs s \<Longrightarrow> length (filter (\<lambda>e. redeems e = Some k) evs) \<le> 1"
  using run_used [OF _ refl] by blast

lemma used_for_ever:
  assumes "auth_run (start p ws) evs s" and "auth_run s later s'" and "r \<in> set (rows (sy_db s))" "used r" and "e \<in> set later"
  shows "redeems e \<noteq> Some (key r)"
  using never_again [OF assms(2) _ _ _ assms(3,4)] reachable_ok [OF assms(1)] run_used [OF assms(1) refl] assms(5) by blast

end

section \<open>The five ledgers\<close>

definition ledger_step ::
  "('r \<Rightarrow> string) \<Rightarrow> ('r \<Rightarrow> bool) \<Rightarrow> (auth_event \<Rightarrow> string option) \<Rightarrow> 'r list \<Rightarrow> auth_event list \<Rightarrow> 'r list \<Rightarrow> bool" where
  "ledger_step key used redeems rs evs rs' \<longleftrightarrow>
     (distinct (map key rs) \<longrightarrow> distinct (map key rs')) \<and>
     (\<forall>r \<in> set rs. \<exists>r' \<in> set rs'. key r' = key r \<and> (used r \<longrightarrow> used r')) \<and>
     (\<forall>e \<in> set evs. \<forall>k. redeems e = Some k \<longrightarrow>
        evs = [e] \<and> (\<exists>r \<in> set rs. key r = k \<and> \<not> used r) \<and> (\<exists>r \<in> set rs'. key r = k \<and> used r))"

lemma ledger_stepI:
  assumes "distinct (map key rs) \<Longrightarrow> distinct (map key rs')"
    and "\<And>r. r \<in> set rs \<Longrightarrow> \<exists>r' \<in> set rs'. key r' = key r \<and> (used r \<longrightarrow> used r')"
    and "\<And>e k. e \<in> set evs \<Longrightarrow> redeems e = Some k \<Longrightarrow>
      evs = [e] \<and> (\<exists>r \<in> set rs. key r = k \<and> \<not> used r) \<and> (\<exists>r \<in> set rs'. key r = k \<and> used r)"
  shows "ledger_step key used redeems rs evs rs'"
  unfolding ledger_step_def using assms by blast

lemma ledger_quiet:
  assumes "\<And>r. p r \<Longrightarrow> key (f r) = key r" "\<And>r. p r \<Longrightarrow> used r \<Longrightarrow> used (f r)" "\<And>e. e \<in> set evs \<Longrightarrow> redeems e = None"
    and "rs' = update_rows p f rs @ new" "distinct (map key new)" "set (map key new) \<inter> set (map key rs) = {}"
  shows "ledger_step key used redeems rs evs rs'"
proof (rule ledger_stepI)
  assume "distinct (map key rs)"
  then show "distinct (map key rs')" unfolding assms(4) map_append using assms(1,5,6) by (subst map_update_rows) auto
next
  fix r assume "r \<in> set rs"
  then have "(if p r then f r else r) \<in> set rs'" unfolding assms(4) set_append set_update_rows by blast
  then show "\<exists>r' \<in> set rs'. key r' = key r \<and> (used r \<longrightarrow> used r')" using assms(1,2) by (intro bexI) auto
qed (use assms(3) in auto)

lemma ledger_same:
  assumes "\<And>e. e \<in> set evs \<Longrightarrow> redeems e = None"
  shows "ledger_step key used redeems rs evs rs"
  by (rule ledger_quiet [of "\<lambda>_. False" key id, where new = "[]"]) (use assms in simp_all)

lemma ledger_use:
  assumes "\<And>r. p r \<Longrightarrow> key (f r) = key r" "\<And>r. p r \<Longrightarrow> used (f r)" and "r \<in> set rs" "p r" "key r = k" "\<not> used r" and "redeems e = Some k"
  shows "ledger_step key used redeems rs [e] (update_rows p f rs)"
proof (rule ledger_stepI)
  assume "distinct (map key rs)"
  then show "distinct (map key (update_rows p f rs))" using assms(1) by (subst map_update_rows) auto
next
  fix q assume "q \<in> set rs"
  then have "(if p q then f q else q) \<in> set (update_rows p f rs)" unfolding set_update_rows by blast
  then show "\<exists>r' \<in> set (update_rows p f rs). key r' = key q \<and> (used q \<longrightarrow> used r')" using assms(1,2) by (intro bexI) auto
next
  fix e' k' assume "e' \<in> set [e]" "redeems e' = Some k'"
  then have "e' = e" "k' = k" using assms(7) by simp_all
  moreover have "f r \<in> set (update_rows p f rs)" unfolding set_update_rows using assms(3,4) by force
  ultimately show "[e] = [e'] \<and> (\<exists>r \<in> set rs. key r = k' \<and> \<not> used r) \<and> (\<exists>r \<in> set (update_rows p f rs). key r = k' \<and> used r)"
    using assms(1-6) by blast
qed

definition recovers :: "auth_event \<Rightarrow> string option" where
  "recovers e = (case e of Recovered h \<Rightarrow> Some h | _ \<Rightarrow> None)"

definition exchanges :: "auth_event \<Rightarrow> string option" where
  "exchanges e = (case e of Redeemed h \<Rightarrow> Some h | _ \<Rightarrow> None)"

definition joins :: "auth_event \<Rightarrow> string option" where
  "joins e = (case e of Joined h \<Rightarrow> Some h | _ \<Rightarrow> None)"

definition returns :: "auth_event \<Rightarrow> string option" where
  "returns e = (case e of Returned h \<Rightarrow> Some h | _ \<Rightarrow> None)"

definition rotates :: "auth_event \<Rightarrow> string option" where
  "rotates e = (case e of Refreshed h _ \<Rightarrow> Some h | _ \<Rightarrow> None)"

lemmas use_defs = recovers_def exchanges_def joins_def returns_def

abbreviation "reset_ledger \<equiv> ledger_step rt_TokenHash (\<lambda>t. rt_UsedAt t \<noteq> None) recovers"
abbreviation "code_ledger \<equiv> ledger_step xc_CodeHash (\<lambda>x. xc_UsedAt x \<noteq> None) exchanges"
abbreviation "invite_ledger \<equiv> ledger_step iv_TokenHash (\<lambda>i. iv_AcceptedAt i \<noteq> None) joins"
abbreviation "request_ledger \<equiv> ledger_step aq_StateHash (\<lambda>q. aq_UsedAt q \<noteq> None) returns"

text \<open>Of the reset tokens of an account at most one is open.\<close>

definition one_open :: "reset_row list \<Rightarrow> bool" where
  "one_open rs \<longleftrightarrow> (\<forall>u. length (filter (\<lambda>t. rt_UserID t = u \<and> rt_UsedAt t = None) rs) \<le> 1)"

lemma one_open_update:
  assumes "one_open rs" and "\<And>t. p t \<Longrightarrow> rt_UserID (f t) = rt_UserID t" "\<And>t. p t \<Longrightarrow> rt_UsedAt (f t) = None \<Longrightarrow> rt_UsedAt t = None"
  shows "one_open (update_rows p f rs)"
proof -
  have "length (filter (\<lambda>t. rt_UserID t = u \<and> rt_UsedAt t = None) (update_rows p f ts)) \<le> length (filter (\<lambda>t. rt_UserID t = u \<and> rt_UsedAt t = None) ts)" for u ts
    by (induction ts) (use assms(2,3) in \<open>auto simp: update_rows_def\<close>)
  then show ?thesis using assms(1) unfolding one_open_def by (meson order_trans)
qed

lemma one_open_superseded:
  assumes "one_open rs" and "\<And>t. rt_UserID (f t) = rt_UserID t \<and> rt_UsedAt (f t) \<noteq> None" and "rt_UserID x = uid"
  shows "one_open (update_rows (\<lambda>t. rt_UserID t = uid \<and> rt_UsedAt t = None) f rs @ [x])"
proof -
  let ?rs = "update_rows (\<lambda>t. rt_UserID t = uid \<and> rt_UsedAt t = None) f rs"
  have none: "filter (\<lambda>t. rt_UserID t = uid \<and> rt_UsedAt t = None) ?rs = []"
    unfolding filter_empty_conv set_update_rows using assms(2) by auto
  have up: "one_open ?rs" by (rule one_open_update [OF assms(1)]) (use assms(2) in blast)+
  have "length (filter (\<lambda>t. rt_UserID t = u \<and> rt_UsedAt t = None) (?rs @ [x])) \<le> 1" for u
    using none up assms(3) unfolding one_open_def by (cases "u = uid") simp_all
  then show ?thesis unfolding one_open_def ..
qed

definition ledgers_step :: "adb \<Rightarrow> auth_event list \<Rightarrow> adb \<Rightarrow> bool" where
  "ledgers_step db evs db' \<longleftrightarrow>
     reset_ledger (td_resets db) evs (td_resets db') \<and> code_ledger (td_codes db) evs (td_codes db') \<and>
     invite_ledger (td_invites db) evs (td_invites db') \<and> request_ledger (td_requests db) evs (td_requests db') \<and> (one_open (td_resets db) \<longrightarrow> one_open (td_resets db'))"

lemma ledgers_same:
  assumes "td_resets db' = td_resets db" "td_codes db' = td_codes db" "td_invites db' = td_invites db" "td_requests db' = td_requests db"
    and "\<And>e. e \<in> set evs \<Longrightarrow> recovers e = None \<and> exchanges e = None \<and> joins e = None \<and> returns e = None"
  shows "ledgers_step db evs db'"
  unfolding ledgers_step_def assms(1-4) using assms(5) by (blast intro: ledger_same)

lemma ledgers_oidc:
  assumes "accounts_ok db" and "CreateOIDCSessionAndExchange build i j k now wall input db = Inr ((s, user), db')"
  shows "ledgers_step db [Granted a u] db'"
proof -
  have quiet: "recovers e = None \<and> exchanges e = None \<and> joins e = None \<and> returns e = None" if "e \<in> set [Granted a u]" for e using that by (simp add: use_defs)
  obtain x where x: "td_codes db' = td_codes db @ [x]" "xc_CodeHash x \<notin> xc_CodeHash ` set (td_codes db)"
    and f: "td_resets db' = td_resets db" "td_invites db' = td_invites db" "td_requests db' = td_requests db" using oidc_devices [OF assms, of 0] by blast
  have "code_ledger (td_codes db) [Granted a u] (td_codes db')"
    by (rule ledger_quiet [of "\<lambda>_. False" _ id, where new = "[x]"]) (use x quiet in auto)
  then show ?thesis unfolding ledgers_step_def f using quiet by (blast intro: ledger_same)
qed

lemma ledgers_reset:
  assumes "ResetPasswordTx now wall hash password db = Inr db'"
  shows "ledgers_step db [Recovered hash] db'"
  using assms
proof (cases rule: ResetPasswordTx_cases)
  case (1 t)
  have f: "td_resets db' = update_rows (\<lambda>x. rt_ID x = rt_ID t \<and> rt_UsedAt x = None) (\<lambda>x. x\<lparr>rt_UsedAt := Some now\<rparr>) (td_resets db)"
      "td_codes db' = td_codes db" "td_invites db' = td_invites db" "td_requests db' = td_requests db" unfolding 1(7) by simp_all
  have "reset_ledger (td_resets db) [Recovered hash] (td_resets db')" unfolding f(1)
    by (rule ledger_use [where r = t and k = hash]) (use 1 in \<open>simp_all add: use_defs\<close>)
  moreover have "one_open (td_resets db) \<longrightarrow> one_open (td_resets db')" unfolding f(1) by (rule impI, erule one_open_update) simp_all
  ultimately show ?thesis unfolding ledgers_step_def f(2-4) by (auto simp: use_defs intro!: ledger_same)
qed

lemma ledgers_forgot:
  assumes "CreatePasswordResetToken i now uid email hash expiry payload db = Inr db'"
  shows "ledgers_step db [] db'"
proof (cases "td_resets db' = td_resets db")
  case True
  then show ?thesis using assms by (intro ledgers_same) (auto simp: CreatePasswordResetToken_def split: if_splits)
next
  case False
  let ?new = "\<lparr>rt_ID = i, rt_UserID = uid, rt_TokenHash = hash, rt_ExpiresAt = expiry, rt_UsedAt = None\<rparr>"
  have f: "td_resets db' = update_rows (\<lambda>t. rt_UserID t = uid \<and> rt_UsedAt t = None) (\<lambda>t. t\<lparr>rt_UsedAt := Some now\<rparr>) (td_resets db) @ [?new]"
      "hash \<notin> rt_TokenHash ` set (td_resets db)" "td_codes db' = td_codes db" "td_invites db' = td_invites db" "td_requests db' = td_requests db"
    using assms False by (auto simp: CreatePasswordResetToken_def list_ex_iff split: if_splits)
  have "reset_ledger (td_resets db) [] (td_resets db')" by (rule ledger_quiet [OF _ _ _ f(1)]) (use f(2) in auto)
  moreover have "one_open (td_resets db) \<longrightarrow> one_open (td_resets db')" unfolding f(1) by (simp add: one_open_superseded)
  ultimately show ?thesis unfolding ledgers_step_def f(3-5) by (auto intro: ledger_same)
qed

lemma ledgers_invite:
  assumes "CreateInvite i now email hash expiry payload db = Inr (row, db')"
  shows "ledgers_step db [] db'"
proof -
  have f: "td_invites db' = td_invites db @ [row]" "iv_TokenHash row \<notin> iv_TokenHash ` set (td_invites db)" "td_codes db' = td_codes db" "td_resets db' = td_resets db" "td_requests db' = td_requests db"
    using assms by (auto simp: CreateInvite_def Let_def list_ex_iff split: if_splits)
  have "invite_ledger (td_invites db) [] (td_invites db')"
    by (rule ledger_quiet [of "\<lambda>_. False" _ id, where new = "[row]"]) (use f(1,2) in auto)
  then show ?thesis unfolding ledgers_step_def f(3-5) by (auto intro: ledger_same)
qed

lemma ledgers_redeem:
  assumes "ConsumeExchange now provider code db = Inr (x, db')"
  shows "ledgers_step db [Redeemed code] db'"
proof -
  let ?p = "\<lambda>x. xc_Provider x = provider \<and> xc_CodeHash x = code \<and> live_code now x \<and> account_active db (xc_UserID x)"
  have find: "find ?p (td_codes db) = Some x" and f: "td_codes db' = update_rows ?p (\<lambda>x. x\<lparr>xc_UsedAt := Some now\<rparr>) (td_codes db)"
      "td_resets db' = td_resets db" "td_invites db' = td_invites db" "td_requests db' = td_requests db"
    using assms by (auto simp: ConsumeExchange_def Let_def split: option.splits)
  have "code_ledger (td_codes db) [Redeemed code] (td_codes db')" unfolding f(1)
    by (rule ledger_use [where r = x and k = code]) (use find_SomeD [OF find] in \<open>simp_all add: use_defs live_code_def\<close>)
  then show ?thesis unfolding ledgers_step_def f(2-4) by (auto simp: use_defs intro!: ledger_same)
qed

lemma ledgers_begin:
  assumes "CreateAuthRequest req db = Inr db'"
  shows "ledgers_step db [] db'"
proof -
  let ?q = "\<lparr>aq_ID = lq_ID req, aq_Provider = lq_Provider req, aq_StateHash = lq_StateHash req, aq_NonceHash = lq_NonceHash req,
    aq_PKCEVerifierEncrypted = lq_PKCEVerifierEncrypted req, aq_RedirectAfter = nullableString (lq_RedirectAfter req),
    aq_AppContext = lq_AppContext req, aq_ExpiresAt = lq_ExpiresAt req, aq_UsedAt = None\<rparr>"
  have f: "db' = db\<lparr>td_requests := td_requests db @ [?q]\<rparr>" "lq_StateHash req \<notin> aq_StateHash ` set (td_requests db)"
    using assms by (auto simp: CreateAuthRequest_def list_ex_iff split: if_splits)
  have "request_ledger (td_requests db) [] (td_requests db')"
    by (rule ledger_quiet [of "\<lambda>_. False" _ id, where new = "[?q]"]) (use f in auto)
  then show ?thesis unfolding ledgers_step_def f(1) by (auto intro: ledger_same)
qed

lemma ledgers_callback:
  assumes "ConsumeAuthRequest now provider state db = (r, db')"
  shows "ledgers_step db (case r of Inl e \<Rightarrow> [] | Inr q \<Rightarrow> [Returned state]) db'"
proof (cases "find (\<lambda>q. aq_Provider q = provider \<and> aq_StateHash q = state \<and> aq_UsedAt q = None \<and> now < aq_ExpiresAt q) (td_requests db)")
  case None
  then show ?thesis using assms by (intro ledgers_same) (auto simp: ConsumeAuthRequest_def)
next
  case (Some q)
  let ?p = "\<lambda>q. aq_Provider q = provider \<and> aq_StateHash q = state \<and> aq_UsedAt q = None \<and> now < aq_ExpiresAt q"
  have f: "db' = db\<lparr>td_requests := update_rows ?p (\<lambda>q. q\<lparr>aq_UsedAt := Some now\<rparr>) (td_requests db)\<rparr>"
    using assms Some by (auto simp: ConsumeAuthRequest_def Let_def)
  have "request_ledger (td_requests db) [] (td_requests db')"
    by (rule ledger_quiet [of ?p _ "\<lambda>q. q\<lparr>aq_UsedAt := Some now\<rparr>", where new = "[]"]) (use f in auto)
  moreover have "td_requests db' = update_rows ?p (\<lambda>q. q\<lparr>aq_UsedAt := Some now\<rparr>) (td_requests db)" unfolding f by simp
  then have "request_ledger (td_requests db) [Returned state] (td_requests db')"
    by (elim ssubst, intro ledger_use [where r = q and k = state]) (use find_SomeD [OF Some] in \<open>simp_all add: use_defs\<close>)
  ultimately show ?thesis unfolding ledgers_step_def f by (cases r) (auto simp: use_defs intro!: ledger_same)
qed

lemma ledgers_accept:
  assumes "AcceptInviteTx i now wall hash name full password db = Inr (u, db')"
  shows "ledgers_step db [Joined hash] db'"
proof -
  obtain iv where find: "find (\<lambda>i. iv_TokenHash i = hash) (td_invites db) = Some iv"
    using assms unfolding AcceptInviteTx_def by (cases "find (\<lambda>i. iv_TokenHash i = hash) (td_invites db)") simp_all
  let ?p = "\<lambda>x. iv_ID x = iv_ID iv \<and> iv_AcceptedAt x = None \<and> iv_RevokedAt x = None \<and> iv_Status x = ''pending''"
  let ?f = "\<lambda>x. x\<lparr>iv_AcceptedAt := Some now, iv_AcceptedBy := Some i, iv_Status := ''accepted''\<rparr>"
  have open_iv: "iv_AcceptedAt iv = None \<and> iv_RevokedAt iv = None \<and> iv_Status iv = ''pending''"
    using assms unfolding AcceptInviteTx_def find option.case by (simp split: if_splits)
  obtain db1 db2 where 1: "insert_account u db = Inr db1" "insert_credential now i password False db1 = Inr db2"
      "db' = db2\<lparr>td_invites := update_rows ?p ?f (td_invites db2)\<rparr>"
    using assms unfolding AcceptInviteTx_def find option.case by (auto simp: Let_def bind_err_Inr_iff split: if_splits)
  have f: "td_invites db' = update_rows ?p ?f (td_invites db)" "td_resets db' = td_resets db" "td_codes db' = td_codes db" "td_requests db' = td_requests db"
    using insert_account_frame [OF 1(1)] insert_credential_frame [OF 1(2)] unfolding 1(3) by auto
  have "invite_ledger (td_invites db) [Joined hash] (td_invites db')" unfolding f(1)
    by (rule ledger_use [where r = iv and k = hash]) (use find_SomeD [OF find] open_iv in \<open>simp_all add: use_defs\<close>)
  then show ?thesis unfolding ledgers_step_def f(2-4) by (auto simp: use_defs intro!: ledger_same)
qed

lemma ledgers_status:
  assumes "updateUserStatusOnce session available now uid status (chat, db) = (Inr (Inr u), chat', db')"
  shows "ledgers_step db [] db'"
proof -
  have f: "td_resets db' = td_resets db" "td_invites db' = td_invites db" "td_requests db' = td_requests db" using status_frames [OF assms] by blast+
  have "code_ledger (td_codes db) [] (td_codes db')"
  proof (cases "td_codes db' = td_codes db")
    case False
    then have c: "td_codes db' = update_rows (\<lambda>x. live_code now x \<and> xc_UserID x = uid) (\<lambda>x. x\<lparr>xc_UsedAt := Some now\<rparr>) (td_codes db) @ []"
      using status_frames [OF assms] by simp
    show ?thesis by (rule ledger_quiet [OF _ _ _ c]) simp_all
  next
    case True
    show ?thesis unfolding True by (rule ledger_same) simp
  qed
  then show ?thesis unfolding ledgers_step_def f by (auto intro: ledger_same)
qed

lemma tx_ledgers:
  assumes "auth_tx db evs db'" and ok: "sessions_ok db" "accounts_ok db"
  shows "ledgers_step db evs db'"
  using assms(1)
proof cases
  case (Refused verify now wall input e)
  then obtain as where "db' = db\<lparr>td_attempts := as\<rparr>" using authenticate_frame(1) by blast
  then show ?thesis using Refused by (intro ledgers_same) simp_all
next
  case SignOn
  then show ?thesis using ledgers_oidc [OF ok(2)] by blast
next
  case (Refresh now wall old new r)
  then show ?thesis using rotate_frames [OF ok(1) Refresh(2)] by (intro ledgers_same) (auto simp: use_defs split: sum.splits)
next
  case NewUser
  then show ?thesis using new_user_frames [OF NewUser(2)] by (intro ledgers_same) simp_all
next
  case Forgot
  then show ?thesis using ledgers_forgot by blast
next
  case Reset
  then show ?thesis using ledgers_reset by blast
next
  case Invite
  then show ?thesis using ledgers_invite by blast
next
  case Accept
  then show ?thesis using ledgers_accept by blast
next
  case Status
  then show ?thesis using ledgers_status [OF Status(2)] by simp
next
  case Redeem
  then show ?thesis using ledgers_redeem by blast
next
  case Begin
  then show ?thesis using ledgers_begin by blast
next
  case Callback
  then show ?thesis using ledgers_callback by blast
next
  case Policy
  then show ?thesis by (intro ledgers_same) (simp_all add: use_defs)
qed (intro ledgers_same; auto simp: RevokeRefreshToken_def RevokeSession_def RevokeAllSessionsExcept_def RevokeDevice_def
  UpdateDeviceDisplayName_def RevokeUserSessions_def Let_def use_defs split: option.splits if_splits)+

lemma step_ledgers:
  assumes "auth_step s evs s'" "sessions_ok (sy_db s)" "accounts_ok (sy_db s)"
  shows "ledgers_step (sy_db s) evs (sy_db s')"
  using assms(1)
proof cases
  case (Tx db db' ls)
  then show ?thesis using tx_ledgers assms(2,3) by simp
next
  case (Authenticated ls input verify now wall db c db')
  then have "db' = db" using authenticate_frame(2) by blast
  then show ?thesis using Authenticated by (intro ledgers_same) simp_all
next
  case (Grant l ls j k now wall db r db')
  have "td_resets db' = td_resets db \<and> td_codes db' = td_codes db \<and> td_invites db' = td_invites db \<and> td_requests db' = td_requests db" using Grant(5)
  proof (cases rule: grantLoginSession_cases)
    case (granted dev db1 db2 db3 a)
    show ?thesis by (rule grant_shape [OF granted(3-5) refl granted(6)]) blast
  qed auto
  then show ?thesis using Grant by (intro ledgers_same) (auto simp: use_defs split: sum.splits)
qed

lemma step_tokens:
  assumes "auth_step s evs s'" "sessions_ok (sy_db s)" "accounts_ok (sy_db s)"
  shows "ledger_step th_RefreshTokenHash (\<lambda>h. th_Status h \<noteq> ''active'') rotates (td_history (sy_db s)) evs (td_history (sy_db s'))"
proof (rule ledger_stepI)
  have t: "tx_ok (sy_db s) (sy_db s')" by (rule auth_step_ok [OF assms])
  then show "distinct (map th_RefreshTokenHash (td_history (sy_db s')))" unfolding tx_ok_def using sessions_okD(2) by blast
  fix r assume "r \<in> set (td_history (sy_db s))"
  then obtain r' where r': "r' \<in> set (td_history (sy_db s'))" "token_kept (sy_db s') r r'" using t unfolding tx_ok_def evolves_def by blast
  have "th_Status r' \<noteq> ''active''" if "th_Status r \<noteq> ''active''" using r'(2) that unfolding token_kept_def by auto
  then show "\<exists>r' \<in> set (td_history (sy_db s')). th_RefreshTokenHash r' = th_RefreshTokenHash r \<and> (th_Status r \<noteq> ''active'' \<longrightarrow> th_Status r' \<noteq> ''active'')"
    using r' unfolding token_kept_def by blast
next
  fix e k assume e: "e \<in> set evs" "rotates e = Some k"
  then obtain sid where sid: "e = Refreshed k sid" by (auto simp: rotates_def split: auth_event.splits)
  then obtain now wall new a where r: "RotateRefreshToken now wall k new (sy_db s) = (Inr a, sy_db s')" "evs = [e]"
    using step_refreshed [OF assms(1)] e(1) by blast
  have "\<exists>h \<in> set (td_history (sy_db s')). th_RefreshTokenHash h = k \<and> th_Status h \<noteq> ''active''"
    using rotated_spent(1) [OF assms(2) r(1)] unfolding spent_def by force
  moreover have "\<exists>h \<in> set (td_history (sy_db s)). th_RefreshTokenHash h = k \<and> \<not> th_Status h \<noteq> ''active''"
    using r(1)
  proof (cases rule: RotateRefreshToken_cases)
    case (rotated x)
    then show ?thesis using refresh_sessionD(2,4) [OF rotated(1)] unfolding has_active_token_def list_ex_iff by blast
  qed simp_all
  ultimately show "evs = [e] \<and> (\<exists>r \<in> set (td_history (sy_db s)). th_RefreshTokenHash r = k \<and> \<not> th_Status r \<noteq> ''active'') \<and>
      (\<exists>r \<in> set (td_history (sy_db s')). th_RefreshTokenHash r = k \<and> th_Status r \<noteq> ''active'')" using r(2) by blast
qed

lemma ledger_laws:
  assumes "ledger_step key used redeems rs evs rs'"
  shows "distinct (map key rs) \<Longrightarrow> distinct (map key rs')" "r \<in> set rs \<Longrightarrow> \<exists>r' \<in> set rs'. key r' = key r \<and> (used r \<longrightarrow> used r')"
    "e \<in> set evs \<Longrightarrow> redeems e = Some k \<Longrightarrow> evs = [e] \<and> (\<exists>r \<in> set rs. key r = k \<and> \<not> used r) \<and> (\<exists>r \<in> set rs'. key r = k \<and> used r)"
  using assms unfolding ledger_step_def by blast+

lemma one_timeI:
  assumes "\<And>s evs s'. auth_step s evs s' \<Longrightarrow> sessions_ok (sy_db s) \<Longrightarrow> accounts_ok (sy_db s) \<Longrightarrow>
      ledger_step key used redeems (rows (sy_db s)) evs (rows (sy_db s'))"
    and "\<And>p ws. rows (sy_db (start p ws)) = []"
  shows "one_time rows key used redeems"
  by unfold_locales (use assms(2) ledger_laws [OF assms(1)] in \<open>blast+\<close>)

interpretation tokens: one_time td_history th_RefreshTokenHash "\<lambda>h. th_Status h \<noteq> ''active''" rotates
  by (rule one_timeI, erule (2) step_tokens) (simp add: start_def)

interpretation resets: one_time td_resets rt_TokenHash "\<lambda>t. rt_UsedAt t \<noteq> None" recovers
  by (rule one_timeI) (use step_ledgers in \<open>auto simp: start_def ledgers_step_def\<close>)

interpretation codes: one_time td_codes xc_CodeHash "\<lambda>x. xc_UsedAt x \<noteq> None" exchanges
  by (rule one_timeI) (use step_ledgers in \<open>auto simp: start_def ledgers_step_def\<close>)

interpretation invites: one_time td_invites iv_TokenHash "\<lambda>i. iv_AcceptedAt i \<noteq> None" joins
  by (rule one_timeI) (use step_ledgers in \<open>auto simp: start_def ledgers_step_def\<close>)

interpretation states: one_time td_requests aq_StateHash "\<lambda>q. aq_UsedAt q \<noteq> None" returns
  by (rule one_timeI) (use step_ledgers in \<open>auto simp: start_def ledgers_step_def\<close>)

lemma run_one_open: "auth_run s0 evs s \<Longrightarrow> s0 = start p ws \<Longrightarrow> one_open (td_resets (sy_db s))"
proof (induction rule: auth_run.induct)
  case (run_step s0 evs s' new s'')
  then have "sessions_ok (sy_db s') \<and> accounts_ok (sy_db s')" using reachable_ok by blast
  then show ?case using run_step step_ledgers [OF run_step.hyps(2)] unfolding ledgers_step_def by blast
qed (simp add: start_def one_open_def)

text \<open>
  Claim C10. Every one-time credential is used at most once. In any run no refresh token, password reset token, invitation,
  state of a single sign-on or exchange code is accepted twice; and one that is found used, because it was presented, superseded by a
  later one or closed by a suspension, is never accepted afterwards, not even after the account is reactivated.
\<close>

theorem credentials_used_once:
  assumes "auth_run (start p ws) evs s" and "auth_run s later s'"
  shows "length (filter (\<lambda>e. rotates e = Some k) evs) \<le> 1 \<and> length (filter (\<lambda>e. recovers e = Some k) evs) \<le> 1 \<and>
    length (filter (\<lambda>e. joins e = Some k) evs) \<le> 1 \<and> length (filter (\<lambda>e. exchanges e = Some k) evs) \<le> 1 \<and>
    length (filter (\<lambda>e. returns e = Some k) evs) \<le> 1 \<and>
    (\<forall>h \<in> set (td_history (sy_db s)). th_Status h \<noteq> ''active'' \<longrightarrow> (\<forall>sid. Refreshed (th_RefreshTokenHash h) sid \<notin> set later)) \<and>
    (\<forall>t \<in> set (td_resets (sy_db s)). rt_UsedAt t \<noteq> None \<longrightarrow> Recovered (rt_TokenHash t) \<notin> set later) \<and>
    (\<forall>i \<in> set (td_invites (sy_db s)). iv_AcceptedAt i \<noteq> None \<longrightarrow> Joined (iv_TokenHash i) \<notin> set later) \<and>
    (\<forall>x \<in> set (td_codes (sy_db s)). xc_UsedAt x \<noteq> None \<longrightarrow> Redeemed (xc_CodeHash x) \<notin> set later) \<and>
    (\<forall>q \<in> set (td_requests (sy_db s)). aq_UsedAt q \<noteq> None \<longrightarrow> Returned (aq_StateHash q) \<notin> set later)"
proof (intro conjI)
  show "length (filter (\<lambda>e. rotates e = Some k) evs) \<le> 1" by (rule tokens.once [OF assms(1)])
  show "length (filter (\<lambda>e. recovers e = Some k) evs) \<le> 1" by (rule resets.once [OF assms(1)])
  show "length (filter (\<lambda>e. joins e = Some k) evs) \<le> 1" by (rule invites.once [OF assms(1)])
  show "length (filter (\<lambda>e. exchanges e = Some k) evs) \<le> 1" by (rule codes.once [OF assms(1)])
  show "length (filter (\<lambda>e. returns e = Some k) evs) \<le> 1" by (rule states.once [OF assms(1)])
  show "\<forall>h \<in> set (td_history (sy_db s)). th_Status h \<noteq> ''active'' \<longrightarrow> (\<forall>sid. Refreshed (th_RefreshTokenHash h) sid \<notin> set later)"
    using tokens.used_for_ever [OF assms] unfolding rotates_def by fastforce
  show "\<forall>t \<in> set (td_resets (sy_db s)). rt_UsedAt t \<noteq> None \<longrightarrow> Recovered (rt_TokenHash t) \<notin> set later"
    using resets.used_for_ever [OF assms] unfolding recovers_def by fastforce
  show "\<forall>i \<in> set (td_invites (sy_db s)). iv_AcceptedAt i \<noteq> None \<longrightarrow> Joined (iv_TokenHash i) \<notin> set later"
    using invites.used_for_ever [OF assms] unfolding joins_def by fastforce
  show "\<forall>x \<in> set (td_codes (sy_db s)). xc_UsedAt x \<noteq> None \<longrightarrow> Redeemed (xc_CodeHash x) \<notin> set later"
    using codes.used_for_ever [OF assms] unfolding exchanges_def by fastforce
  show "\<forall>q \<in> set (td_requests (sy_db s)). aq_UsedAt q \<noteq> None \<longrightarrow> Returned (aq_StateHash q) \<notin> set later"
    using states.used_for_ever [OF assms] unfolding returns_def by fastforce
qed

theorem credentials_used_once_witness:
  "length (filter (\<lambda>e. rotates e = Some ''t1'') [Granted ''s'' ''u'', Refreshed ''t1'' ''s'']) = 1 \<and>
   (\<exists>h \<in> set (td_history demo_refreshed). th_RefreshTokenHash h = ''t1'' \<and> th_Status h \<noteq> ''active'' \<and>
      (\<forall>sid. Refreshed ''t1'' sid \<notin> set [PolicySet demo_policy]))"
proof -
  let ?s = "\<lparr>sy_db = demo_refreshed, sy_logins = []\<rparr>"
  have later: "auth_run ?s ([] @ [PolicySet demo_policy]) \<lparr>sy_db = demo_refreshed\<lparr>td_policy := demo_policy\<rparr>, sy_logins = []\<rparr>"
    by (rule run_txI [OF run_refl auth_tx.Policy])
  have "list_ex (\<lambda>h. th_RefreshTokenHash h = ''t1'' \<and> th_Status h \<noteq> ''active'') (td_history demo_refreshed)" by code_simp
  then obtain h where h: "h \<in> set (td_history demo_refreshed)" "th_RefreshTokenHash h = ''t1''" "th_Status h \<noteq> ''active''" unfolding list_ex_iff by blast
  note c = credentials_used_once [OF demo_refresh later, of "''t1''"]
  have "length (filter (\<lambda>e. rotates e = Some ''t1'') [Granted ''s'' ''u'', Refreshed ''t1'' ''s'']) \<le> 1" using c by blast
  moreover have "\<forall>sid. Refreshed ''t1'' sid \<notin> set ([] @ [PolicySet demo_policy])" using c h unfolding asys.simps by metis
  ultimately show ?thesis using h by (auto simp: rotates_def)
qed

section \<open>Password recovery\<close>

lemma open_alone:
  assumes "length (filter q xs) \<le> 1" "x \<in> set xs" "q x" "y \<in> set xs" "q y"
  shows "y = x"
proof -
  have "set [x] \<subseteq> set (filter q xs)" "y \<in> set (filter q xs)" using assms by simp_all
  then show ?thesis using assms(1) by (cases "filter q xs") auto
qed

text \<open>
  Claim C22. A password reset takes over the account. When a reset succeeds, the new password replaces the old one, every
  session of the account that exists is revoked with its tokens, no reset token of the account is left open, the same token
  is refused from then on, and the sessions of everyone else are as they were.
\<close>

theorem reset_takes_over:
  assumes "auth_run (start p ws) evs s" and "ResetPasswordTx now wall hash password (sy_db s) = Inr db'"
  shows "\<exists>uid. (\<exists>t \<in> set (td_resets (sy_db s)). rt_TokenHash t = hash \<and> rt_UserID t = uid) \<and>
    (\<forall>c \<in> set (td_credentials db'). pc_UserID c = uid \<longrightarrow> pc_PasswordHash c = password) \<and>
    (\<forall>x \<in> set (td_sessions db'). se_UserID x = uid \<longrightarrow> se_RevokedAt x \<noteq> None) \<and>
    (\<forall>h \<in> set (td_history db'). \<forall>x \<in> set (td_sessions db'). th_SessionID h = se_ID x \<and> se_UserID x = uid \<longrightarrow> th_Status h \<noteq> ''active'') \<and>
    (\<forall>t \<in> set (td_resets db'). rt_UserID t = uid \<longrightarrow> rt_UsedAt t \<noteq> None) \<and>
    ResetPasswordTx now' wall' hash password' db' = Inl ErrInvalidToken \<and>
    (\<forall>x \<in> set (td_sessions (sy_db s)). se_UserID x \<noteq> uid \<longrightarrow> x \<in> set (td_sessions db'))"
  using assms(2)
proof (cases rule: ResetPasswordTx_cases)
  case (1 t)
  let ?uid = "rt_UserID t"
  have ok: "sessions_ok (sy_db s)" "accounts_ok (sy_db s)" using reachable_ok [OF assms(1)] by blast+
  have ok': "sessions_ok db'" using tx_reset [OF ok assms(2)] unfolding tx_ok_def by blast
  have S: "td_sessions db' = update_rows (\<lambda>x. se_UserID x = ?uid \<and> se_RevokedAt x = None) (revoke_session now ''password_reset'') (td_sessions (sy_db s))"
    and C: "td_credentials db' = update_rows (\<lambda>c. pc_UserID c = ?uid) (\<lambda>c. c\<lparr>pc_PasswordHash := password, pc_PasswordChangedAt := now\<rparr>) (td_credentials (sy_db s))"
    and R: "td_resets db' = update_rows (\<lambda>x. rt_ID x = rt_ID t \<and> rt_UsedAt x = None) (\<lambda>x. x\<lparr>rt_UsedAt := Some now\<rparr>) (td_resets (sy_db s))"
    unfolding 1(7) by simp_all
  have revoked: "se_RevokedAt x \<noteq> None" if "x \<in> set (td_sessions db')" "se_UserID x = ?uid" for x
    using not_revoked [of x "\<lambda>x. se_UserID x = ?uid"] that unfolding S by blast
  have used: "rt_UsedAt r \<noteq> None" if r: "r \<in> set (td_resets db')" "rt_UserID r = ?uid" for r
  proof
    assume u: "rt_UsedAt r = None"
    obtain q where q: "q \<in> set (td_resets (sy_db s))" "r = (if rt_ID q = rt_ID t \<and> rt_UsedAt q = None then q\<lparr>rt_UsedAt := Some now\<rparr> else q)"
      using r(1) unfolding R set_update_rows by (rule imageE)
    then have "r = q" "\<not> (rt_ID q = rt_ID t \<and> rt_UsedAt q = None)" using u by (auto split: if_splits)
    moreover have "length (filter (\<lambda>t. rt_UserID t = ?uid \<and> rt_UsedAt t = None) (td_resets (sy_db s))) \<le> 1"
      using run_one_open [OF assms(1) refl] unfolding one_open_def by blast
    ultimately have "q = t" using open_alone [OF _ 1(1) _ q(1)] 1(3) r(2) u by blast
    then show False using \<open>\<not> _\<close> 1(3) by simp
  qed
  have "ResetPasswordTx now' wall' hash password' db' = Inl ErrInvalidToken"
  proof (cases "ResetPasswordTx now' wall' hash password' db'")
    case (Inl e)
    then show ?thesis by (auto simp: ResetPasswordTx_def Let_def split: option.splits if_splits)
  next
    case (Inr db'')
    then obtain t' where t': "t' \<in> set (td_resets db')" "rt_TokenHash t' = hash" "rt_UsedAt t' = None" by (rule ResetPasswordTx_cases) blast
    have "distinct (map rt_TokenHash (td_resets (sy_db s)))" using resets.run_used [OF assms(1) refl] by blast
    moreover have "map rt_TokenHash (td_resets db') = map rt_TokenHash (td_resets (sy_db s))" unfolding R by (rule map_update_rows) simp
    ultimately have "distinct (map rt_TokenHash (td_resets db'))" by (simp only:)
    then have inj: "inj_on rt_TokenHash (set (td_resets db'))" by (simp add: distinct_map)
    have "t\<lparr>rt_UsedAt := Some now\<rparr> \<in> set (td_resets db')" unfolding R set_update_rows using 1(1,3) by force
    then have "t' = t\<lparr>rt_UsedAt := Some now\<rparr>" using inj_onD [OF inj _ t'(1)] t'(2) 1(2) by simp
    then show ?thesis using t'(3) by simp
  qed
  moreover have "th_Status h \<noteq> ''active''" if "h \<in> set (td_history db')" "x \<in> set (td_sessions db')" "th_SessionID h = se_ID x" "se_UserID x = ?uid" for h x
    using ended_tokens [OF ok' _ that(1)] revoked [OF that(2,4)] that(2,3) unfolding session_ended_def by blast
  moreover have "x \<in> set (td_sessions db')" if "x \<in> set (td_sessions (sy_db s))" "se_UserID x \<noteq> ?uid" for x
    using that unfolding S set_update_rows by force
  moreover have "pc_PasswordHash c = password" if "c \<in> set (td_credentials db')" "pc_UserID c = ?uid" for c
    using that unfolding C set_update_rows by (auto split: if_splits)
  ultimately show ?thesis using revoked used 1(1,2) by (intro exI [of _ ?uid]) blast
qed

text \<open>While a login waits for its grant, the same account asks for a reset and completes it.\<close>

definition demo_forgot :: adb where
  "demo_forgot = projr (CreatePasswordResetToken ''r'' 3 ''u'' ''a@b.co'' ''rt'' 9000 ''{}'' demo_created)"

definition demo_reset :: adb where
  "demo_reset = projr (ResetPasswordTx 4 4 ''rt'' ''new'' demo_forgot)"

definition demo_late :: adb where
  "demo_late = snd (grantLoginSession ''d'' ''s'' 5 5 ''u'' demo_input demo_policy demo_reset)"

lemma demo_forgotten: "auth_run (start demo_policy []) [] \<lparr>sy_db = demo_forgot, sy_logins = [demo_login]\<rparr>"
proof -
  have "\<not> isl (CreatePasswordResetToken ''r'' 3 ''u'' ''a@b.co'' ''rt'' 9000 ''{}'' demo_created)" by code_simp
  then have "CreatePasswordResetToken ''r'' 3 ''u'' ''a@b.co'' ''rt'' 9000 ''{}'' demo_created = Inr demo_forgot" unfolding demo_forgot_def by simp
  from run_txI [OF demo_pending auth_tx.Forgot [OF this]] show ?thesis by simp
qed

lemma demo_resets: "ResetPasswordTx 4 4 ''rt'' ''new'' demo_forgot = Inr demo_reset"
proof -
  have "\<not> isl (ResetPasswordTx 4 4 ''rt'' ''new'' demo_forgot)" by code_simp
  then show ?thesis unfolding demo_reset_def by simp
qed

theorem reset_takes_over_witness:
  "ResetPasswordTx 4 4 ''rt'' ''new'' demo_forgot = Inr demo_reset \<and> ResetPasswordTx 5 5 ''rt'' ''other'' demo_reset = Inl ErrInvalidToken"
proof -
  have "ResetPasswordTx 4 4 ''rt'' ''new'' (sy_db \<lparr>sy_db = demo_forgot, sy_logins = [demo_login]\<rparr>) = Inr demo_reset" using demo_resets by simp
  from reset_takes_over [OF demo_forgotten this, of 5 5 "''other''"] show ?thesis using demo_resets by blast
qed

text \<open>
  Claim C40. A login in flight outlives a password reset. A reset locks its token and not the account, and the second phase of
  a login checks the account and not the password. In the run below a login verifies its password and waits for its grant; a
  reset then replaces the password, and the login's password is refused from then on; yet the waiting login is granted, and
  its session, opened with a password that no longer counts, is valid after the reset that was to end every session.
\<close>

theorem login_outlives_reset:
  "\<exists>c db db' db3.
     authenticate demo_verify 2 2 demo_input demo_policy demo_created = (Inr c, demo_created) \<and> lu_ID (lc_User c) = ''u'' \<and>
     auth_run (start demo_policy []) [] \<lparr>sy_db = db, sy_logins = [\<lparr>pl_Input = demo_input, pl_UserID = ''u'', pl_Policy = demo_policy\<rparr>]\<rparr> \<and>
     ResetPasswordTx 4 4 ''rt'' ''new'' db = Inr db' \<and>
     fst (authenticate demo_verify 5 5 demo_input demo_policy db') = Inl ErrInvalidCredentials \<and>
     grantLoginSession ''d'' ''s'' 5 5 ''u'' demo_input demo_policy db' = (Inr \<lparr>as_ID = ''s'', as_UserID = ''u''\<rparr>, db3) \<and>
     auth_run (start demo_policy []) [Recovered ''rt'', Granted ''s'' ''u''] \<lparr>sy_db = db3, sy_logins = []\<rparr> \<and>
     ValidateActiveSession 6 ''u'' ''s'' db3 = None"
proof -
  let ?a = "authenticate demo_verify 2 2 demo_input demo_policy demo_created"
  have a: "\<not> isl (fst ?a) \<and> lu_ID (lc_User (projr (fst ?a))) = ''u''" by code_simp
  obtain r d where r: "?a = (r, d)" by (cases ?a)
  obtain c where c: "r = Inr c" "lu_ID (lc_User c) = ''u''" using a unfolding r fst_conv by (cases r) simp_all
  have auth: "?a = (Inr c, demo_created)" using r c(1) authenticate_frame(2) [OF r c(1)] by simp
  let ?g = "grantLoginSession ''d'' ''s'' 5 5 (pl_UserID demo_login) (pl_Input demo_login) (pl_Policy demo_login) demo_reset"
  have run: "auth_run (start demo_policy []) [Recovered ''rt''] \<lparr>sy_db = demo_reset, sy_logins = [demo_login]\<rparr>"
    using run_txI [OF demo_forgotten auth_tx.Reset [OF demo_resets]] by simp
  have "fst ?g = Inr \<lparr>as_ID = ''s'', as_UserID = ''u''\<rparr>" by code_simp
  then have g: "?g = (Inr \<lparr>as_ID = ''s'', as_UserID = ''u''\<rparr>, demo_late)" unfolding demo_late_def demo_login_def by (simp add: prod_eq_iff)
  from run_step [OF run auth_step.Grant [OF _ g]]
  have late: "auth_run (start demo_policy []) [Recovered ''rt'', Granted ''s'' ''u''] \<lparr>sy_db = demo_late, sy_logins = []\<rparr>" by simp
  have "fst (authenticate demo_verify 5 5 demo_input demo_policy demo_reset) = Inl ErrInvalidCredentials"
    "ValidateActiveSession 6 ''u'' ''s'' demo_late = None" by code_simp+
  then show ?thesis using auth c(2) demo_forgotten demo_resets g late unfolding demo_login_def pending_login.simps by blast
qed

end
