(* ===== verification/Auth_Lockout.thy ===== *)
theory Auth_Lockout
  imports Auth_Lifecycle
begin

text \<open>
  The brute-force lockout of \<open>loginTemporarilyLocked\<close> against a specification that knows neither the look-back nor the order
  of the loop, and what a password login answers in every case.
\<close>

section \<open>The lockout\<close>

text \<open>
  The specification: some credential failure has so many others in the window before it that it reached the limit, and the
  lockout that began with it is still running.
\<close>

definition locked_out :: "go_time \<Rightarrow> PolicySettings \<Rightarrow> go_time list \<Rightarrow> bool" where
  "locked_out wall policy failures \<longleftrightarrow>
     (\<exists>t \<in> set failures. wall < t + po_FailedLoginLockoutMinutes policy * duration_minute \<and>
        po_FailedLoginLimit policy \<le>
          int (length (filter (\<lambda>u. t - po_FailedLoginWindowMinutes policy * duration_minute \<le> u \<and> u \<le> t) failures)))"

lemma window_exceeded: "min_duration \<le> W \<Longrightarrow> W < max_duration \<Longrightarrow> W < time_sub a b \<longleftrightarrow> W < a - b"
  by (auto simp: time_sub_def)

lemma lockout_loop_iff:
  assumes "sorted fs" "0 < n" "min_duration \<le> W" "W < max_duration" "i + n \<le> Suc (length fs)"
  shows "lockout_loop i fs n W K wall \<longleftrightarrow> (\<exists>j < i. fs ! (j + n - 1) - fs ! j \<le> W \<and> wall < fs ! (j + n - 1) + K)"
  using assms(5)
proof (induction i)
  case (Suc i)
  have le: "fs ! (j + n - 1) \<le> fs ! (i + n - 1)" if "j \<le> i" for j
    by (rule sorted_nth_mono [OF assms(1)]) (use that Suc.prems assms(2) in auto)
  show ?case
  proof (cases "W < fs ! (i + n - 1) - fs ! i")
    case True
    then show ?thesis using Suc window_exceeded [OF assms(3,4)] by (auto simp: Let_def less_Suc_eq)
  next
    case False
    then have "lockout_loop (Suc i) fs n W K wall \<longleftrightarrow> wall < fs ! (i + n - 1) + K"
      using window_exceeded [OF assms(3,4)] by (simp add: Let_def)
    moreover have "wall < fs ! (i + n - 1) + K" if "j < Suc i" "wall < fs ! (j + n - 1) + K" for j
      using le [of j] that by linarith
    ultimately show ?thesis using False by (auto simp: not_less)
  qed
qed simp

lemma group_iff_count:
  fixes fs :: "int list"
  assumes s: "sorted fs" and n: "0 < n"
  shows "(\<exists>j. j + n \<le> length fs \<and> fs ! (j + n - 1) - fs ! j \<le> W \<and> wall < fs ! (j + n - 1) + K) \<longleftrightarrow>
    (\<exists>t \<in> set fs. wall < t + K \<and> n \<le> length (filter (\<lambda>u. t - W \<le> u \<and> u \<le> t) fs))"
proof
  assume "\<exists>j. j + n \<le> length fs \<and> fs ! (j + n - 1) - fs ! j \<le> W \<and> wall < fs ! (j + n - 1) + K"
  then obtain j where j: "j + n \<le> length fs" "fs ! (j + n - 1) - fs ! j \<le> W" "wall < fs ! (j + n - 1) + K" by blast
  let ?t = "fs ! (j + n - 1)"
  have "{j..<j + n} \<subseteq> {i. i < length fs \<and> ?t - W \<le> fs ! i \<and> fs ! i \<le> ?t}"
  proof
    fix i assume i: "i \<in> {j..<j + n}"
    have "fs ! j \<le> fs ! i" "fs ! i \<le> ?t" by (rule sorted_nth_mono [OF s]; use i j(1) in auto)+
    then show "i \<in> {i. i < length fs \<and> ?t - W \<le> fs ! i \<and> fs ! i \<le> ?t}" using i j(1,2) by auto
  qed
  then have "card {j..<j + n} \<le> card {i. i < length fs \<and> ?t - W \<le> fs ! i \<and> fs ! i \<le> ?t}" by (intro card_mono) simp_all
  moreover have "?t \<in> set fs" using j(1) n by (intro nth_mem) linarith
  ultimately show "\<exists>t \<in> set fs. wall < t + K \<and> n \<le> length (filter (\<lambda>u. t - W \<le> u \<and> u \<le> t) fs)"
    using j(3) by (intro bexI [of _ ?t]) (simp_all add: length_filter_conv_card)
next
  assume "\<exists>t \<in> set fs. wall < t + K \<and> n \<le> length (filter (\<lambda>u. t - W \<le> u \<and> u \<le> t) fs)"
  then obtain t where t: "t \<in> set fs" "wall < t + K" "n \<le> length (filter (\<lambda>u. t - W \<le> u \<and> u \<le> t) fs)" by blast
  let ?A = "{i. i < length fs \<and> t - W \<le> fs ! i \<and> fs ! i \<le> t}"
  have card: "n \<le> card ?A" using t(3) by (simp add: length_filter_conv_card)
  have fin: "finite ?A" by simp
  have ne: "?A \<noteq> {}" using card n by (metis card.empty not_less)
  obtain q where q: "q < length fs" "fs ! q = t" using t(1) by (auto simp: in_set_conv_nth)
  have "q \<in> ?A" using ne q by auto
  let ?m = "Max ?A" and ?lo = "Min ?A"
  have mA: "?m \<in> ?A" and lA: "?lo \<in> ?A" using Max_in [OF fin ne] Min_in [OF fin ne] by blast+
  have "?A \<subseteq> {?lo..?m}" using fin by auto
  then have "card ?A \<le> Suc ?m - ?lo" using card_mono [of "{?lo..?m}" ?A] by simp
  then have lo: "?lo + n \<le> Suc ?m" using card n by linarith
  let ?j = "Suc ?m - n"
  have "fs ! q \<le> fs ! ?m" by (rule sorted_nth_mono [OF s]) (use Max_ge [OF fin \<open>q \<in> ?A\<close>] mA in auto)
  then have m: "fs ! ?m = t" using mA q(2) by auto
  have "fs ! ?lo \<le> fs ! ?j" by (rule sorted_nth_mono [OF s]) (use lo mA n in auto)
  then have "fs ! ?m - fs ! ?j \<le> W" using lA m by auto
  moreover have "?j + n - 1 = ?m" "?j + n \<le> length fs" using lo mA n by auto
  ultimately show "\<exists>j. j + n \<le> length fs \<and> fs ! (j + n - 1) - fs ! j \<le> W \<and> wall < fs ! (j + n - 1) + K"
    using t(2) m by (intro exI [of _ ?j]) simp
qed

lemma recent_enough:
  fixes W K :: int
  assumes "now \<le> wall" "0 < n"
  shows "(\<exists>t \<in> set (filter (\<lambda>t. now - (W + K) \<le> t) cf). wall < t + K \<and> n \<le> length (filter (\<lambda>u. t - W \<le> u \<and> u \<le> t) (filter (\<lambda>t. now - (W + K) \<le> t) cf))) \<longleftrightarrow>
    (\<exists>t \<in> set cf. wall < t + K \<and> n \<le> length (filter (\<lambda>u. t - W \<le> u \<and> u \<le> t) cf))"
proof -
  have same: "filter (\<lambda>u. t - W \<le> u \<and> u \<le> t) (filter (\<lambda>t. now - (W + K) \<le> t) cf) = filter (\<lambda>u. t - W \<le> u \<and> u \<le> t) cf" if "wall < t + K" for t
    unfolding filter_filter by (rule filter_cong) (use that assms(1) in auto)
  have recent: "now - (W + K) \<le> t" if t: "wall < t + K" "n \<le> length (filter (\<lambda>u. t - W \<le> u \<and> u \<le> t) cf)" for t
  proof -
    have "filter (\<lambda>u. t - W \<le> u \<and> u \<le> t) cf \<noteq> []" using t(2) assms(2) by auto
    then obtain u where "t - W \<le> u" "u \<le> t" unfolding filter_empty_conv by blast
    then show ?thesis using t(1) assms(1) by linarith
  qed
  show ?thesis using same recent by auto
qed

lemma locked_iff:
  assumes lim: "0 < po_FailedLoginLimit policy" and W: "\<bar>po_FailedLoginWindowMinutes policy\<bar> \<le> 153722867"
    and K: "\<bar>po_FailedLoginLockoutMinutes policy\<bar> \<le> 153722867" and clock: "now \<le> wall"
  shows "loginTemporarilyLocked now wall found uid email policy db = locked_out wall policy (credential_failures found uid email db)"
proof -
  let ?W = "po_FailedLoginWindowMinutes policy * duration_minute" and ?K = "po_FailedLoginLockoutMinutes policy * duration_minute"
  let ?n = "nat (po_FailedLoginLimit policy)" and ?cf = "credential_failures found uid email db"
  let ?rf = "filter (\<lambda>t. now - (?W + ?K) \<le> t) ?cf"
  let ?fs = "sort ?rf"
  have fs: "recent_failures now found uid email policy db = ?fs" by (simp add: recent_failures_def lookbackMinutes_def distrib_right)
  have n: "0 < ?n" using lim by simp
  have bounds: "min_duration \<le> ?W" "?W < max_duration" using W by linarith+
  have "loginTemporarilyLocked now wall found uid email policy db \<longleftrightarrow>
      (\<exists>j. j + ?n \<le> length ?fs \<and> ?fs ! (j + ?n - 1) - ?fs ! j \<le> ?W \<and> wall < ?fs ! (j + ?n - 1) + ?K)"
  proof (cases "length ?fs < ?n")
    case True
    then show ?thesis unfolding loginTemporarilyLocked_def fs Let_def using lim by auto
  next
    case False
    have "lockout_loop (length ?fs - ?n + 1) ?fs ?n ?W ?K wall \<longleftrightarrow>
        (\<exists>j < length ?fs - ?n + 1. ?fs ! (j + ?n - 1) - ?fs ! j \<le> ?W \<and> wall < ?fs ! (j + ?n - 1) + ?K)"
      by (rule lockout_loop_iff [OF _ n bounds]) (use False in simp_all)
    moreover have "j < length ?fs - ?n + 1 \<longleftrightarrow> j + ?n \<le> length ?fs" for j using False by linarith
    ultimately show ?thesis unfolding loginTemporarilyLocked_def fs Let_def minutes_exact [OF W] minutes_exact [OF K] using lim False by simp
  qed
  also have "\<dots> \<longleftrightarrow> (\<exists>t \<in> set ?fs. wall < t + ?K \<and> ?n \<le> length (filter (\<lambda>u. t - ?W \<le> u \<and> u \<le> t) ?fs))"
    by (rule group_iff_count [OF sorted_sort n])
  also have "\<dots> \<longleftrightarrow> (\<exists>t \<in> set ?rf. wall < t + ?K \<and> ?n \<le> length (filter (\<lambda>u. t - ?W \<le> u \<and> u \<le> t) ?rf))"
    by (simp only: set_sort filter_sort length_sort)
  also have "\<dots> \<longleftrightarrow> (\<exists>t \<in> set ?cf. wall < t + ?K \<and> ?n \<le> length (filter (\<lambda>u. t - ?W \<le> u \<and> u \<le> t) ?cf))"
    by (rule recent_enough [OF clock n])
  also have "\<dots> \<longleftrightarrow> locked_out wall policy ?cf" unfolding locked_out_def using lim by (simp add: nat_le_iff)
  finally show ?thesis .
qed

text \<open>
  Claim C14. The lockout is exactly its rule. With a limit in force and a database clock that is not ahead of the process, a login
  is locked out if and only if some credential failure of the account, or of the address when there is no account, had
  reached the limit within the window and its lockout has not run out, over everything ever recorded: neither the look-back of
  the query nor the early end of the loop loses a case. A login refused this way is refused whatever its password, and is
  not counted, so trying during a lockout does not prolong it.
\<close>

theorem lockout_exact:
  assumes "0 < po_FailedLoginLimit policy" and "\<bar>po_FailedLoginWindowMinutes policy\<bar> \<le> 153722867"
    and "\<bar>po_FailedLoginLockoutMinutes policy\<bar> \<le> 153722867" and "now \<le> wall"
    and "selectLoginUser (ci_Email input) db = (c, found)"
  shows "loginTemporarilyLocked now wall found (lu_ID (lc_User c)) (ci_Email input) policy db =
      locked_out wall policy (credential_failures found (lu_ID (lc_User c)) (ci_Email input) db) \<and>
    (locked_out wall policy (credential_failures found (lu_ID (lc_User c)) (ci_Email input) db) \<longrightarrow>
      fst (authenticate verify now wall input policy db) = Inl ErrInvalidCredentials \<and>
      credential_failures f u e (snd (authenticate verify now wall input policy db)) = credential_failures f u e db)"
proof -
  note eq = locked_iff [OF assms(1-4), of found "lu_ID (lc_User c)" "ci_Email input" db]
  have reason: "\<not> credentialFilter (Some ''failed_login_limit_exceeded'')" by code_simp
  have "fst (authenticate verify now wall input policy db) = Inl ErrInvalidCredentials \<and>
      credential_failures f u e (snd (authenticate verify now wall input policy db)) = credential_failures f u e db"
    if "loginTemporarilyLocked now wall found (lu_ID (lc_User c)) (ci_Email input) policy db"
    unfolding authenticate_def assms(5) using that reason
    by (simp add: Let_def commitFailedLoginAttempt_def commitRefusedLogin_def recordLoginAttempt_def credential_failures_def nullableString_def)
  then show ?thesis using eq by simp
qed

definition demo_failed :: adb where
  "demo_failed = snd (authenticate demo_verify 3 3 (demo_input\<lparr>ci_Password := ''x''\<rparr>) demo_policy
     (snd (authenticate demo_verify 2 2 (demo_input\<lparr>ci_Password := ''y''\<rparr>) demo_policy demo_created)))"

theorem lockout_exact_witness:
  "locked_out 4 demo_policy (credential_failures True ''u'' ''a@b.co'' demo_failed) \<and>
   fst (authenticate demo_verify 4 4 demo_input demo_policy demo_failed) = Inl ErrInvalidCredentials \<and>
   demo_verify (ci_Password demo_input) ''old'' = Some True"
proof -
  obtain c found where s: "selectLoginUser (ci_Email demo_input) demo_failed = (c, found)" by (cases "selectLoginUser (ci_Email demo_input) demo_failed")
  have "snd (selectLoginUser (ci_Email demo_input) demo_failed) = True" "lu_ID (lc_User (fst (selectLoginUser (ci_Email demo_input) demo_failed))) = ''u''"
    by code_simp+
  then have f: "found = True" "lu_ID (lc_User c) = ''u''" unfolding s by simp_all
  have l: "loginTemporarilyLocked 4 4 True ''u'' (ci_Email demo_input) demo_policy demo_failed" by code_simp
  have p: "0 < po_FailedLoginLimit demo_policy" "\<bar>po_FailedLoginWindowMinutes demo_policy\<bar> \<le> 153722867" "\<bar>po_FailedLoginLockoutMinutes demo_policy\<bar> \<le> 153722867"
    by (simp_all add: demo_policy_def)
  have "ci_Email demo_input = ''a@b.co''" "demo_verify (ci_Password demo_input) ''old'' = Some True" by code_simp+
  then show ?thesis using lockout_exact [OF p _ s, of 4 4 demo_verify True "''u''" "''a@b.co''"] l unfolding f by simp
qed

section \<open>What a login answers\<close>

lemma selectLoginUser_found:
  assumes "selectLoginUser email db = (c, True)"
  obtains u where "u \<in> set (td_users db)" "same_address (ac_Email u) email" "ac_AuthSource u = ''manual''" "lu_ID (lc_User c) = ac_ID u"
    "lc_Status c = ac_Status u" "lc_Deleted c = (ac_DeletedAt u \<noteq> None)"
    "lc_PasswordHash c \<noteq> '''' \<Longrightarrow> \<exists>pc \<in> set (td_credentials db). pc_UserID pc = ac_ID u \<and> pc_PasswordHash pc = lc_PasswordHash c \<and>
       pc_PasswordChangedAt pc = lc_PasswordChangedAt c"
proof -
  let ?q = "\<lambda>u. same_address (ac_Email u) email \<and> ac_AuthSource u = ''manual''"
  obtain u where find: "find ?q (td_users db) = Some u"
    using assms unfolding selectLoginUser_def by (cases "find ?q (td_users db)") simp_all
  let ?pc = "find (\<lambda>c. pc_UserID c = ac_ID u) (td_credentials db)"
  have c: "lu_ID (lc_User c) = ac_ID u" "lc_Status c = ac_Status u" "lc_Deleted c = (ac_DeletedAt u \<noteq> None)"
      "lc_PasswordHash c = (case ?pc of None \<Rightarrow> '''' | Some p \<Rightarrow> pc_PasswordHash p)"
      "lc_PasswordChangedAt c = (case ?pc of None \<Rightarrow> time_zero | Some p \<Rightarrow> pc_PasswordChangedAt p)"
    using assms unfolding selectLoginUser_def find option.case Let_def by auto
  have "\<exists>pc \<in> set (td_credentials db). pc_UserID pc = ac_ID u \<and> pc_PasswordHash pc = lc_PasswordHash c \<and> pc_PasswordChangedAt pc = lc_PasswordChangedAt c"
    if "lc_PasswordHash c \<noteq> ''''"
  proof (cases ?pc)
    case None
    then show ?thesis using that c(4) by simp
  next
    case (Some pc)
    then show ?thesis using find_SomeD [OF Some] c(4,5) by auto
  qed
  then show ?thesis using that find_SomeD [OF find] c(1-3) by blast
qed

lemma authenticate_Inr:
  assumes "authenticate verify now wall input policy db = (Inr c, db')"
  obtains u pc where "u \<in> set (td_users db)" "same_address (ac_Email u) (ci_Email input)" "ac_AuthSource u = ''manual''" "active_account u"
    "lu_ID (lc_User c) = ac_ID u" "pc \<in> set (td_credentials db)" "pc_UserID pc = ac_ID u" "verify (ci_Password input) (pc_PasswordHash pc) = Some True"
    "\<not> PasswordExpired (pc_PasswordChangedAt pc) wall policy"
    "\<not> loginTemporarilyLocked now wall True (ac_ID u) (ci_Email input) policy db"
proof -
  obtain c' found where s: "selectLoginUser (ci_Email input) db = (c', found)" by (cases "selectLoginUser (ci_Email input) db")
  have a: "\<not> loginTemporarilyLocked now wall found (lu_ID (lc_User c')) (ci_Email input) policy db" "usableCredential c' found"
      "verify (ci_Password input) (lc_PasswordHash c') = Some True" "\<not> PasswordExpired (lc_PasswordChangedAt c') wall policy" "c = c'"
    using assms unfolding authenticate_def s Let_def prod.case commitFailedLoginAttempt_def commitRefusedLogin_def by (simp_all split: if_splits)
  have found: "found = True" and us: "lc_Status c' = ''active''" "\<not> lc_Deleted c'" "lc_PasswordHash c' \<noteq> ''''"
    using a(2) unfolding usableCredential_def by blast+
  obtain u where u: "u \<in> set (td_users db)" "same_address (ac_Email u) (ci_Email input)" "ac_AuthSource u = ''manual''" "lu_ID (lc_User c') = ac_ID u"
      "lc_Status c' = ac_Status u" "lc_Deleted c' = (ac_DeletedAt u \<noteq> None)"
    and pc: "\<exists>pc \<in> set (td_credentials db). pc_UserID pc = ac_ID u \<and> pc_PasswordHash pc = lc_PasswordHash c' \<and> pc_PasswordChangedAt pc = lc_PasswordChangedAt c'"
    using selectLoginUser_found [OF s [unfolded found]] us(3) by metis
  have "active_account u" using us u(5,6) by (simp add: active_account_def)
  then show ?thesis using that [of u] u(1-4) pc a(1,3-5) unfolding found by metis
qed

lemma recordLoginAttempt_frame:
  "recordLoginAttempt now u e ok reason ip ua db = db\<lparr>td_attempts := td_attempts (recordLoginAttempt now u e ok reason ip ua db)\<rparr> \<and>
   length (td_attempts (recordLoginAttempt now u e ok reason ip ua db)) = Suc (length (td_attempts db))"
  by (simp add: recordLoginAttempt_def)

lemma refused_frame:
  "commitRefusedLogin now u input reason outcome db = (r, db') \<Longrightarrow>
   r = Inl outcome \<and> db' = db\<lparr>td_attempts := td_attempts db'\<rparr> \<and> length (td_attempts db') = Suc (length (td_attempts db))"
  unfolding commitRefusedLogin_def prod.inject using recordLoginAttempt_frame by metis

lemma authenticate_Inl:
  assumes "authenticate verify now wall input policy db = (Inl e, db')"
  shows "(e = ErrInvalidCredentials \<or> e = ErrPasswordExpired) \<and> db' = db\<lparr>td_attempts := td_attempts db'\<rparr> \<and>
    length (td_attempts db') = Suc (length (td_attempts db))"
proof -
  have "\<exists>u reason outcome. commitRefusedLogin now u input reason outcome db = (Inl e :: auth_error + loginCandidate, db') \<and>
      (outcome = ErrInvalidCredentials \<or> outcome = ErrPasswordExpired)"
    using assms unfolding authenticate_def Let_def commitFailedLoginAttempt_def by (simp split: prod.splits if_splits) blast+
  then show ?thesis using refused_frame by fastforce
qed

lemma resolveLoginDevice_Inl:
  "resolveLoginDevice i now uid input policy db = Inl e \<Longrightarrow> e = errDeviceRevoked \<or> e = ErrInvalidCredentials \<or> e = StatementFailed"
  unfolding resolveLoginDevice_def insert_device_def by (auto simp: bind_err_Inl_iff split: if_splits option.splits)

lemma grant_Inl:
  assumes "account_active db uid" and g: "grantLoginSession j k now wall uid input policy db = (Inl e, db')"
  shows "e = ErrInvalidCredentials \<and> db' = db\<lparr>td_attempts := td_attempts db'\<rparr> \<and> length (td_attempts db') = Suc (length (td_attempts db)) \<or>
    e = StatementFailed \<and> db' = db"
proof (cases "resolveLoginDevice j now uid input policy db")
  case (Inl cause)
  then have c: "commitDeviceRefusal now uid input cause db = (Inl e :: auth_error + AuthSession, db')"
    using g assms(1) unfolding grantLoginSession_def revalidateUserActive_def by simp
  have refusal: "e = ErrInvalidCredentials \<and> db' = db\<lparr>td_attempts := td_attempts db'\<rparr> \<and> length (td_attempts db') = Suc (length (td_attempts db))"
    if "commitRefusedLogin now u input reason ErrInvalidCredentials db = (Inl e :: auth_error + AuthSession, db')" for u reason
    using refused_frame [OF that] by blast
  show ?thesis
  proof (cases "cause = StatementFailed")
    case True
    then show ?thesis using c unfolding commitDeviceRefusal_def by simp
  next
    case False
    have "\<exists>u reason. commitRefusedLogin now u input reason ErrInvalidCredentials db = (Inl e :: auth_error + AuthSession, db')"
      using c False resolveLoginDevice_Inl [OF Inl] unfolding commitDeviceRefusal_def commitFailedLoginAttempt_def
      by (metis auth_error.distinct)
    then show ?thesis using refusal by blast
  qed
next
  case (Inr r)
  obtain dev db1 where r: "r = (dev, db1)" by (cases r)
  then show ?thesis using g assms(1) Inr unfolding grantLoginSession_def revalidateUserActive_def
    by (auto simp: Let_def bind_err_def insertLoginSession_def insertInitialRefreshTokenHistory_def insert_token_def
      split: sum.splits if_splits)
qed

lemma grant_refused:
  assumes "grantLoginSession j k now wall uid input policy db = (Inl e, db')"
  shows "e = ErrInvalidCredentials \<and> \<not> account_active db uid \<and> db' = db \<or>
    e = ErrInvalidCredentials \<and> account_active db uid \<and> db' = db\<lparr>td_attempts := td_attempts db'\<rparr> \<and> length (td_attempts db') = Suc (length (td_attempts db)) \<or>
    e = StatementFailed \<and> account_active db uid \<and> db' = db"
proof (cases "account_active db uid")
  case True
  then show ?thesis using grant_Inl [OF True assms] by blast
next
  case False
  then show ?thesis using assms unfolding grantLoginSession_def revalidateUserActive_def by simp
qed

lemma grant_Inr:
  assumes "grantLoginSession j k now wall uid input policy db = (Inr s, db')"
  shows "account_active db uid \<and> (\<exists>x. td_sessions db' = td_sessions db @ [x] \<and> se_UserID x = uid \<and> se_RevokedAt x = None \<and>
    se_RefreshTokenHash x = ci_RefreshTokenHash input \<and> s = \<lparr>as_ID = se_ID x, as_UserID = uid\<rparr>)"
  using assms
proof (cases rule: grantLoginSession_cases)
  case (granted dev d1 d2 d3 s')
  show ?thesis by (rule grant_shape [OF granted(3-5) refl granted(6)]) (use granted(1,2) in auto)
qed simp

text \<open>
  Claim C21. What a password login answers, whatever other transactions commit between its two phases. A session is granted
  only to an account that was manual and active, whose password at the time verified, was not expired and not locked out,
  and that is still active when the session is made; it is one new live session of that account. A refusal of the first phase
  answers that the credentials are invalid, or that the password expired, and records exactly one attempt. In the second
  phase an account that is no longer active is refused the same way, without a record; a device that is revoked or one too many is
  refused the same way, with one record; a failed statement leaves no trace. A refusal changes nothing else.
\<close>

theorem login_outcomes:
  assumes "CreateLoginSession verify j k now wall wall' meanwhile input db = (r, db')"
  shows "case r of
      Inl e \<Rightarrow>
        (e = ErrInvalidCredentials \<or> e = ErrPasswordExpired) \<and> db' = db\<lparr>td_attempts := td_attempts db'\<rparr> \<and>
          length (td_attempts db') = Suc (length (td_attempts db)) \<or>
        (\<exists>c. authenticate verify now wall input (td_policy db) db = (Inr c, db) \<and>
          (e = ErrInvalidCredentials \<and> \<not> account_active (meanwhile db) (lu_ID (lc_User c)) \<and> db' = meanwhile db \<or>
           e = ErrInvalidCredentials \<and> account_active (meanwhile db) (lu_ID (lc_User c)) \<and>
             db' = (meanwhile db)\<lparr>td_attempts := td_attempts db'\<rparr> \<and> length (td_attempts db') = Suc (length (td_attempts (meanwhile db))) \<or>
           e = StatementFailed \<and> account_active (meanwhile db) (lu_ID (lc_User c)) \<and> db' = meanwhile db))
    | Inr c \<Rightarrow>
        (\<exists>u \<in> set (td_users db). \<exists>pc \<in> set (td_credentials db).
           same_address (ac_Email u) (ci_Email input) \<and> ac_AuthSource u = ''manual'' \<and> active_account u \<and>
           pc_UserID pc = ac_ID u \<and> verify (ci_Password input) (pc_PasswordHash pc) = Some True \<and>
           \<not> PasswordExpired (pc_PasswordChangedAt pc) wall (td_policy db) \<and>
           \<not> loginTemporarilyLocked now wall True (ac_ID u) (ci_Email input) (td_policy db) db \<and>
           account_active (meanwhile db) (ac_ID u) \<and>
           (\<exists>x. td_sessions db' = td_sessions (meanwhile db) @ [x] \<and> se_UserID x = ac_ID u \<and> se_RevokedAt x = None \<and>
              se_RefreshTokenHash x = ci_RefreshTokenHash input \<and> cs_Session c = \<lparr>as_ID = se_ID x, as_UserID = ac_ID u\<rparr>))"
proof -
  obtain a db1 where a: "authenticate verify now wall input (td_policy db) db = (a, db1)" by (cases "authenticate verify now wall input (td_policy db) db")
  show ?thesis
  proof (cases a)
    case (Inl e)
    then have "r = Inl e" "db' = db1" using assms unfolding CreateLoginSession_def a Let_def by simp_all
    then show ?thesis using authenticate_Inl [OF a [unfolded Inl]] by auto
  next
    case (Inr cand)
    have same: "db1 = db" by (rule authenticate_frame(2) [OF a Inr])
    note au = a [unfolded Inr same]
    let ?uid = "lu_ID (lc_User cand)"
    obtain g db2 where g: "grantLoginSession j k now wall' ?uid input (td_policy db) (meanwhile db) = (g, db2)"
      by (cases "grantLoginSession j k now wall' ?uid input (td_policy db) (meanwhile db)")
    have r: "(r, db') = (case g of Inl e \<Rightarrow> (Inl e, db2) | Inr s \<Rightarrow> (Inr \<lparr>cs_Session = s, cs_User = lc_User cand\<rparr>, db2))"
      using assms unfolding CreateLoginSession_def Let_def au prod.case sum.case g by (cases g) simp_all
    show ?thesis
    proof (cases g)
      case (Inl e)
      then have re: "r = Inl e" "db' = db2" using r by simp_all
      from grant_refused [OF g [unfolded Inl]] au show ?thesis unfolding re sum.case by blast
    next
      case (Inr s)
      then have re: "r = Inr \<lparr>cs_Session = s, cs_User = lc_User cand\<rparr>" "db' = db2" using r by simp_all
      obtain u pc where u: "u \<in> set (td_users db)" "same_address (ac_Email u) (ci_Email input)" "ac_AuthSource u = ''manual''" "active_account u"
          "?uid = ac_ID u" "pc \<in> set (td_credentials db)" "pc_UserID pc = ac_ID u" "verify (ci_Password input) (pc_PasswordHash pc) = Some True"
          "\<not> PasswordExpired (pc_PasswordChangedAt pc) wall (td_policy db)"
          "\<not> loginTemporarilyLocked now wall True (ac_ID u) (ci_Email input) (td_policy db) db"
        by (rule authenticate_Inr [OF au])
      from grant_Inr [OF g [unfolded Inr u(5)]] show ?thesis unfolding re sum.case using u(1-4,6-10) by auto
    qed
  qed
qed

theorem login_outcomes_witness:
  "\<exists>c db'. CreateLoginSession demo_verify ''d'' ''s'' 2 2 2 id demo_input demo_created = (Inr c, db') \<and>
    (\<exists>x. td_sessions db' = td_sessions demo_created @ [x] \<and> se_RevokedAt x = None \<and> se_RefreshTokenHash x = ''t1'')"
proof -
  let ?l = "CreateLoginSession demo_verify ''d'' ''s'' 2 2 2 id demo_input demo_created"
  have "\<not> isl (fst ?l)" by code_simp
  then obtain c db' where l: "?l = (Inr c, db')" by (cases ?l; cases "fst ?l") auto
  have "ci_RefreshTokenHash demo_input = ''t1''" by code_simp
  then show ?thesis using login_outcomes [OF l] l by auto
qed

end
