(* ===== verification/Auth_Service.thy ===== *)
theory Auth_Service
  imports Auth_Credentials Auth_Lockout
begin

text \<open>
  The services above the stores, \<open>auth-service/internal/service\<close>: tokens (\<open>token_service.go\<close>), login
  (\<open>login_service.go\<close>), refresh and logout (\<open>auth_service.go\<close>), password recovery (\<open>password_reset_service.go\<close>),
  invitations (\<open>invite_service.go\<close>), sessions and devices (\<open>device_session_service.go\<close>) and the accounts of
  \<open>user_service.go\<close>; with the syntax of addresses of \<open>domain/validation.go\<close>. What is proved is what a person sees: a
  granted login can be used and refreshed with what the service handed out, and a forgotten password can be replaced with the
  token that was mailed.

  A service reads the policy and looks accounts up before its transaction starts, so an operation takes two databases: the
  one its reads saw and the one its transaction finds. Random bytes and clocks are arguments. \<open>StatementFailed\<close> also stands
  for an error of the random source, of the signer or of the hash.
\<close>

section \<open>Addresses\<close>

text \<open>
  \<open>emailRE\<close> is matched without regard to case, over runes: folding adds two letters outside ASCII to the classes, the long s
  and the Kelvin sign. \<open>strings.ToLower\<close> is an argument.
\<close>

definition fold_letter :: "nat \<Rightarrow> bool" where
  "fold_letter r \<longleftrightarrow> 0x61 \<le> r \<and> r \<le> 0x7A \<or> 0x41 \<le> r \<and> r \<le> 0x5A \<or> r = 0x17F \<or> r = 0x212A"

definition ascii_digit :: "nat \<Rightarrow> bool" where
  "ascii_digit r \<longleftrightarrow> 0x30 \<le> r \<and> r \<le> 0x39"

definition local_rune :: "nat \<Rightarrow> bool" where
  "local_rune r \<longleftrightarrow> fold_letter r \<or> ascii_digit r \<or> r \<in> {0x2E, 0x5F, 0x25, 0x2B, 0x2D}"

definition domain_rune :: "nat \<Rightarrow> bool" where
  "domain_rune r \<longleftrightarrow> fold_letter r \<or> ascii_digit r \<or> r \<in> {0x2E, 0x2D}"

definition emailRE :: "nat list \<Rightarrow> bool" where
  "emailRE rs =
     (let user = takeWhile (\<lambda>r. r \<noteq> 0x40) rs; host = tl (dropWhile (\<lambda>r. r \<noteq> 0x40) rs);
          top = takeWhile (\<lambda>r. r \<noteq> 0x2E) (rev host); rest = tl (dropWhile (\<lambda>r. r \<noteq> 0x2E) (rev host)) in
      user \<noteq> [] \<and> list_all local_rune user \<and> rest \<noteq> [] \<and> list_all domain_rune rest \<and> 2 \<le> length top \<and> list_all fold_letter top)"

definition ValidateEmail :: "string \<Rightarrow> auth_error option" where
  "ValidateEmail email =
     (if email = '''' then Some ErrAuthInput else if \<not> emailRE (map fst (go_runes email)) then Some ErrAuthInput else None)"

definition NormalizeEmail :: "(string \<Rightarrow> string) \<Rightarrow> string \<Rightarrow> string" where
  "NormalizeEmail to_lower email = to_lower (go_trim_space email)"

section \<open>Tokens\<close>

record TokenConfig =
  tc_HMACSecret :: string
  tc_Issuer :: string
  tc_Audience :: string
  tc_AccessTTL :: go_duration
  tc_RefreshTTL :: go_duration

record TokenManager =
  tm_secret :: string
  tm_issuer :: string
  tm_audience :: string
  tm_accessTTL :: go_duration
  tm_refreshTTL :: go_duration

definition NewTokenManager :: "TokenConfig \<Rightarrow> TokenManager option" where
  "NewTokenManager cfg =
     (if length (tc_HMACSecret cfg) < 32 then None
      else if tc_Issuer cfg = '''' then None
      else if tc_Audience cfg = '''' then None
      else if tc_AccessTTL cfg \<le> 0 then None
      else if tc_RefreshTTL cfg \<le> 0 then None
      else Some \<lparr>tm_secret = tc_HMACSecret cfg, tm_issuer = tc_Issuer cfg, tm_audience = tc_Audience cfg,
                 tm_accessTTL = tc_AccessTTL cfg, tm_refreshTTL = tc_RefreshTTL cfg\<rparr>)"

text \<open>The claims, with the instants that are handed to the library, which has its own precision.\<close>

record AccessClaims =
  ax_SessionID :: string
  ax_Subject :: string
  ax_Issuer :: string
  ax_Audience :: "string list"
  ax_IssuedAt :: "go_time option"
  ax_NotBefore :: "go_time option"
  ax_ExpiresAt :: "go_time option"
  ax_ID :: string

text \<open>
  What is outside the service. \<open>ev_mac\<close> is the hexadecimal HMAC-SHA256 of a message under a key; \<open>ev_sign\<close> signs claims under a
  key with HS256 and \<open>ev_parse\<close> checks a token against an issuer, an audience and a choice of key by signing method;
  \<open>ev_hash\<close> and \<open>ev_verify\<close> hash and verify passwords; \<open>ev_outbox\<close> encrypts what is mailed, and is absent when no key is
  configured: it is given the kind, the token, the path of the action, the address and the expiry.
\<close>

record auth_env =
  ev_lower :: "string \<Rightarrow> string"
  ev_mac :: "string \<Rightarrow> string \<Rightarrow> string"
  ev_sign :: "string \<Rightarrow> AccessClaims \<Rightarrow> string option"
  ev_parse :: "string \<Rightarrow> string \<Rightarrow> (string \<Rightarrow> string option) \<Rightarrow> string \<Rightarrow> AccessClaims option"
  ev_hash :: "string \<Rightarrow> string option"
  ev_verify :: verifier
  ev_outbox :: "(string \<Rightarrow> string \<Rightarrow> string \<Rightarrow> string \<Rightarrow> go_time \<Rightarrow> string option) option"
  ev_runes :: rune_tables
  ev_tokens :: TokenManager

definition of_option :: "'a option \<Rightarrow> auth_error + 'a" where
  "of_option x = (case x of None \<Rightarrow> Inl StatementFailed | Some y \<Rightarrow> Inr y)"

definition failing :: "auth_error option \<Rightarrow> auth_error + unit" where
  "failing x = (case x of None \<Rightarrow> Inr () | Some e \<Rightarrow> Inl e)"

definition requires :: "bool \<Rightarrow> auth_error + unit" where
  "requires b = (if b then Inr () else Inl ErrAuthInput)"

definition GenerateAccessToken :: "auth_env \<Rightarrow> string option \<Rightarrow> go_time \<Rightarrow> string \<Rightarrow> string \<Rightarrow> auth_error + string \<times> int" where
  "GenerateAccessToken ev random wall userID sessionID =
     (let m = ev_tokens ev in
      if userID = '''' then Inl StatementFailed
      else if sessionID = '''' then Inl StatementFailed
      else bind_err (of_option random) (\<lambda>jwtID.
        bind_err (of_option (ev_sign ev (tm_secret m)
          \<lparr>ax_SessionID = sessionID, ax_Subject = userID, ax_Issuer = tm_issuer m, ax_Audience = [tm_audience m],
           ax_IssuedAt = Some wall, ax_NotBefore = Some wall, ax_ExpiresAt = Some (wall + tm_accessTTL m), ax_ID = jwtID\<rparr>)) (\<lambda>signed.
        Inr (signed, tm_accessTTL m div duration_second))))"

definition ValidateAccessToken :: "auth_env \<Rightarrow> string \<Rightarrow> AccessClaims option" where
  "ValidateAccessToken ev raw =
     (let m = ev_tokens ev in
      case ev_parse ev (tm_issuer m) (tm_audience m) (\<lambda>alg. if alg \<noteq> ''HS256'' then None else Some (tm_secret m)) raw of
        None \<Rightarrow> None
      | Some claims \<Rightarrow>
          if ax_Subject claims = '''' \<or> ax_SessionID claims = '''' \<or> ax_ID claims = '''' \<or> ax_IssuedAt claims = None \<or>
             ax_NotBefore claims = None \<or> ax_ExpiresAt claims = None
          then None else Some claims)"

definition HashRefreshToken :: "auth_env \<Rightarrow> string \<Rightarrow> string" where
  "HashRefreshToken ev raw = ev_mac ev (tm_secret (ev_tokens ev)) raw"

definition GenerateRefreshToken :: "auth_env \<Rightarrow> string option \<Rightarrow> go_time \<Rightarrow> auth_error + string \<times> string \<times> go_time" where
  "GenerateRefreshToken ev random wall =
     bind_err (of_option random) (\<lambda>raw. Inr (raw, HashRefreshToken ev raw, wall + tm_refreshTTL (ev_tokens ev)))"

definition hashDomainToken :: "auth_env \<Rightarrow> string \<Rightarrow> string \<Rightarrow> string" where
  "hashDomainToken ev label raw = ev_mac ev (tm_secret (ev_tokens ev)) (label @ raw)"

definition HashPasswordResetToken :: "auth_env \<Rightarrow> string \<Rightarrow> string" where
  "HashPasswordResetToken ev = hashDomainToken ev ''nchat-password-reset-v1:''"

definition HashInviteToken :: "auth_env \<Rightarrow> string \<Rightarrow> string" where
  "HashInviteToken ev = hashDomainToken ev ''nchat-invite-v1:''"

definition HashDeviceFingerprint :: "auth_env \<Rightarrow> string \<Rightarrow> string" where
  "HashDeviceFingerprint ev raw =
     (if raw = '''' then '''' else ev_mac ev (tm_secret (ev_tokens ev)) (''nchat-device-fingerprint-v1:'' @ raw))"

section \<open>Login, refresh and logout\<close>

record LoginInput =
  li_Email :: string
  li_Password :: string
  li_DeviceFingerprint :: string
  li_DeviceName :: string
  li_Platform :: string
  li_IPAddress :: string
  li_UserAgent :: string

record TokenPair =
  tp_AccessToken :: string
  tp_RefreshToken :: string
  tp_TokenType :: string
  tp_ExpiresIn :: int

record LoginResult =
  lg_AccessToken :: string
  lg_RefreshToken :: string
  lg_TokenType :: string
  lg_ExpiresIn :: int
  lg_User :: LoginUser

definition session_input :: "auth_env \<Rightarrow> LoginInput \<Rightarrow> string \<Rightarrow> go_time \<Rightarrow> CreateSessionInput" where
  "session_input ev input refreshHash refreshExpiresAt =
     \<lparr>ci_Password = li_Password input, ci_Email = NormalizeEmail (ev_lower ev) (li_Email input), ci_RefreshTokenHash = refreshHash,
      ci_RefreshExpiresAt = refreshExpiresAt,
      ci_DeviceFingerprintHash = HashDeviceFingerprint ev (go_trim_space (li_DeviceFingerprint input)),
      ci_DeviceName = go_trim_space (li_DeviceName input), ci_Platform = go_trim_space (li_Platform input),
      ci_IPAddress = li_IPAddress input, ci_UserAgent = li_UserAgent input\<rparr>"

text \<open>
  The random strings are those of the refresh token and of the access token's identifier. When signing fails the session
  exists already: its transaction has committed.
\<close>

definition Login ::
  "auth_env \<Rightarrow> string option \<Rightarrow> string option \<Rightarrow> string \<Rightarrow> string \<Rightarrow> go_time \<Rightarrow> go_time \<Rightarrow> go_time \<Rightarrow> (adb \<Rightarrow> adb) \<Rightarrow>
   LoginInput \<Rightarrow> adb \<Rightarrow> (auth_error + LoginResult) \<times> adb" where
  "Login ev random jwtID newDevice newSession now wall wall' meanwhile input db =
     (case bind_err (failing (ValidateEmail (NormalizeEmail (ev_lower ev) (li_Email input)))) (\<lambda>_.
           bind_err (requires (li_Password input \<noteq> '''')) (\<lambda>_. GenerateRefreshToken ev random wall)) of
        Inl e \<Rightarrow> (Inl e, db)
      | Inr (refreshToken, refreshHash, refreshExpiresAt) \<Rightarrow>
          (case CreateLoginSession (ev_verify ev) newDevice newSession now wall wall' meanwhile
                  (session_input ev input refreshHash refreshExpiresAt) db of
             (Inl e, db') \<Rightarrow> (Inl e, db')
           | (Inr created, db') \<Rightarrow>
               (bind_err (GenerateAccessToken ev jwtID wall' (as_UserID (cs_Session created)) (as_ID (cs_Session created)))
                  (\<lambda>(accessToken, expiresIn). Inr
                     \<lparr>lg_AccessToken = accessToken, lg_RefreshToken = refreshToken, lg_TokenType = ''Bearer'',
                      lg_ExpiresIn = expiresIn, lg_User = cs_User created\<rparr>), db')))"

definition Refresh ::
  "auth_env \<Rightarrow> string option \<Rightarrow> string option \<Rightarrow> go_time \<Rightarrow> go_time \<Rightarrow> string \<Rightarrow> adb \<Rightarrow> (auth_error + TokenPair) \<times> adb" where
  "Refresh ev random jwtID now wall refreshToken db =
     (let token = go_trim_space refreshToken in
      case bind_err (requires (token \<noteq> '''')) (\<lambda>_. GenerateRefreshToken ev random wall) of
        Inl e \<Rightarrow> (Inl e, db)
      | Inr (newRefreshToken, newRefreshHash, _) \<Rightarrow>
          (case RotateRefreshToken now wall (HashRefreshToken ev token) newRefreshHash db of
             (Inl e, db') \<Rightarrow> (Inl e, db')
           | (Inr session, db') \<Rightarrow>
               (bind_err (GenerateAccessToken ev jwtID wall (as_UserID session) (as_ID session)) (\<lambda>(accessToken, expiresIn). Inr
                  \<lparr>tp_AccessToken = accessToken, tp_RefreshToken = newRefreshToken, tp_TokenType = ''Bearer'', tp_ExpiresIn = expiresIn\<rparr>),
                db')))"

definition Logout :: "auth_env \<Rightarrow> go_time \<Rightarrow> string \<Rightarrow> adb \<Rightarrow> auth_error + adb" where
  "Logout ev now refreshToken db =
     (let token = go_trim_space refreshToken in
      bind_err (requires (token \<noteq> '''')) (\<lambda>_. RevokeRefreshToken now (HashRefreshToken ev token) db))"

section \<open>Password recovery\<close>

definition resetTTLMinutes :: "PolicySettings \<Rightarrow> int" where
  "resetTTLMinutes policy = (if po_PasswordResetTokenTTLMinutes policy \<le> 0 then 60 else po_PasswordResetTokenTTLMinutes policy)"

definition ForgotPassword ::
  "auth_env \<Rightarrow> string option \<Rightarrow> string \<Rightarrow> go_time \<Rightarrow> go_time \<Rightarrow> string \<Rightarrow> adb \<Rightarrow> adb \<Rightarrow> auth_error + adb" where
  "ForgotPassword ev random newID now wall address seen db =
     (case ev_outbox ev of
        None \<Rightarrow> Inl ErrEmailOutboxUnavailable
      | Some encrypt \<Rightarrow>
          let email = NormalizeEmail (ev_lower ev) address in
          if ValidateEmail email \<noteq> None then Inr db
          else bind_err (of_option random) (\<lambda>rawToken.
            case GetActiveUserForPasswordReset email seen of
              None \<Rightarrow> Inr db
            | Some userID \<Rightarrow>
                let expiresAt = wall + minutes (resetTTLMinutes (td_policy seen)) in
                bind_err (of_option (encrypt ''password_reset'' rawToken ''/auth/password/reset'' email expiresAt)) (\<lambda>payload.
                CreatePasswordResetToken newID now userID email (HashPasswordResetToken ev rawToken) expiresAt payload db)))"

definition ResetPassword :: "auth_env \<Rightarrow> go_time \<Rightarrow> go_time \<Rightarrow> string \<Rightarrow> string \<Rightarrow> adb \<Rightarrow> adb \<Rightarrow> auth_error + adb" where
  "ResetPassword ev now wall token newPassword seen db =
     (let raw = go_trim_space token in
      bind_err (requires (raw \<noteq> '''')) (\<lambda>_.
      bind_err (requires (newPassword \<noteq> '''')) (\<lambda>_.
      bind_err (failing (ValidatePassword (ev_runes ev) newPassword (td_policy seen))) (\<lambda>_.
      bind_err (of_option (ev_hash ev newPassword)) (\<lambda>passwordHash.
      ResetPasswordTx now wall (HashPasswordResetToken ev raw) passwordHash db)))))"

section \<open>Invitations and accounts\<close>

definition inviteTTLHours :: "PolicySettings \<Rightarrow> int" where
  "inviteTTLHours policy = (if po_InviteTokenTTLHours policy \<le> 0 then 72 else po_InviteTokenTTLHours policy)"

definition service_CreateInvite ::
  "auth_env \<Rightarrow> string option \<Rightarrow> string \<Rightarrow> go_time \<Rightarrow> go_time \<Rightarrow> string \<Rightarrow> string \<Rightarrow> adb \<Rightarrow> adb \<Rightarrow> auth_error + invite_row \<times> adb" where
  "service_CreateInvite ev random newID now wall address displayName seen db =
     (case ev_outbox ev of
        None \<Rightarrow> Inl ErrEmailOutboxUnavailable
      | Some encrypt \<Rightarrow>
          let email = NormalizeEmail (ev_lower ev) address in
          bind_err (failing (ValidateEmail email)) (\<lambda>_.
          bind_err (requires (go_trim_space displayName \<noteq> '''')) (\<lambda>_.
          if userExistsByEmailTx email seen then Inl ErrDuplicateEmail
          else if activeInviteExistsByEmailTx now email seen then Inl ErrInviteAlreadyPending
          else bind_err (of_option random) (\<lambda>rawToken.
            let expiresAt = wall + signed_take_bit 63 (inviteTTLHours (td_policy seen) * duration_hour) in
            bind_err (of_option (encrypt ''invite'' rawToken ''/auth/invites/accept'' email expiresAt)) (\<lambda>payload.
            CreateInvite newID now email (HashInviteToken ev rawToken) expiresAt payload db)))))"

definition AcceptInvite ::
  "auth_env \<Rightarrow> string \<Rightarrow> go_time \<Rightarrow> go_time \<Rightarrow> string \<Rightarrow> string \<Rightarrow> string \<Rightarrow> string \<Rightarrow> adb \<Rightarrow> adb \<Rightarrow> auth_error + account_row \<times> adb" where
  "AcceptInvite ev newID now wall token displayName fullName password seen db =
     (let raw = go_trim_space token; name = go_trim_space displayName in
      bind_err (requires (raw \<noteq> '''')) (\<lambda>_.
      bind_err (requires (name \<noteq> '''')) (\<lambda>_.
      bind_err (requires (password \<noteq> '''')) (\<lambda>_.
      bind_err (failing (ValidatePassword (ev_runes ev) password (td_policy seen))) (\<lambda>_.
      bind_err (of_option (ev_hash ev password)) (\<lambda>passwordHash.
      AcceptInviteTx newID now wall (HashInviteToken ev raw) name (go_trim_space fullName) passwordHash db))))))"

definition service_CreateUser ::
  "auth_env \<Rightarrow> string \<Rightarrow> go_time \<Rightarrow> CreateUserInput \<Rightarrow> adb \<Rightarrow> adb \<Rightarrow> auth_error + account_row \<times> adb" where
  "service_CreateUser ev newID now input seen db =
     (let input = input\<lparr>cu_Email := NormalizeEmail (ev_lower ev) (cu_Email input), cu_DisplayName := go_trim_space (cu_DisplayName input),
                        cu_FullName := go_trim_space (cu_FullName input)\<rparr> in
      bind_err (failing (ValidateEmail (cu_Email input))) (\<lambda>_.
      bind_err (requires (cu_DisplayName input \<noteq> '''')) (\<lambda>_.
      bind_err (requires (cu_InitialPassword input \<noteq> '''')) (\<lambda>_.
      bind_err (failing (ValidatePassword (ev_runes ev) (cu_InitialPassword input) (td_policy seen))) (\<lambda>_.
      bind_err (of_option (ev_hash ev (cu_InitialPassword input))) (\<lambda>hash. CreateUser newID now input hash db))))))"

section \<open>Sessions and devices\<close>

definition encode_rune :: "nat \<Rightarrow> string" where
  "encode_rune r = map char_of
     (if r < 0x80 then [r]
      else if r < 0x800 then [0xC0 + r div 64, 0x80 + r mod 64]
      else if r < 0x10000 then [0xE0 + r div 4096, 0x80 + r div 64 mod 64, 0x80 + r mod 64]
      else [0xF0 + r div 262144, 0x80 + r div 4096 mod 64, 0x80 + r div 64 mod 64, 0x80 + r mod 64])"

definition sanitizeDisplayName :: "string \<Rightarrow> string" where
  "sanitizeDisplayName name = concat (map (\<lambda>(r, _). if IsControl r then '''' else encode_rune r) (go_runes (go_trim_space name)))"

definition clampDeviceSessionLimit :: "int \<Rightarrow> int" where
  "clampDeviceSessionLimit lim = (if lim \<le> 0 then 50 else if 100 < lim then 100 else lim)"

definition service_ListSessions :: "string \<Rightarrow> bool \<Rightarrow> int \<Rightarrow> adb \<Rightarrow> session_row list" where
  "service_ListSessions userID includeRevoked lim db = ListSessions userID includeRevoked (nat (clampDeviceSessionLimit lim)) db"

definition service_ListDevices :: "string \<Rightarrow> string \<Rightarrow> bool \<Rightarrow> int \<Rightarrow> adb \<Rightarrow> DeviceInfo list \<times> int" where
  "service_ListDevices userID currentSessionID includeRevoked lim db =
     ListDevices userID currentSessionID includeRevoked (nat (clampDeviceSessionLimit lim)) db"

definition service_UpdateDeviceDisplayName :: "string \<Rightarrow> string \<Rightarrow> string \<Rightarrow> adb \<Rightarrow> auth_error + adb" where
  "service_UpdateDeviceDisplayName deviceID userID name db =
     (let name = sanitizeDisplayName name in
      if RuneCountInString name < 1 then Inl ErrAuthInput
      else if 80 < RuneCountInString name then Inl ErrAuthInput
      else UpdateDeviceDisplayName deviceID userID name db)"

end
