(* ===== verification/Auth_Access.thy ===== *)
theory Auth_Access
  imports Auth_Service
begin

text \<open>
  What a person can rely on. The tokens a login hands out work, and a forgotten password can be replaced with what was
  mailed. Both rest on an invariant of accounts and their passwords that every transaction keeps.
\<close>

section \<open>The syntax of addresses\<close>

lemma cut_before: "k \<notin> set xs \<Longrightarrow> takeWhile (\<lambda>r. r \<noteq> k) (xs @ k # ys) = xs \<and> dropWhile (\<lambda>r. r \<noteq> k) (xs @ k # ys) = k # ys"
  by (induction xs) auto

lemma emailRE_iff:
  "emailRE rs \<longleftrightarrow> (\<exists>user host top. rs = user @ 0x40 # host @ 0x2E # top \<and> user \<noteq> [] \<and> list_all local_rune user \<and>
     host \<noteq> [] \<and> list_all domain_rune host \<and> 2 \<le> length top \<and> list_all fold_letter top)"
proof
  let ?u = "takeWhile (\<lambda>r. r \<noteq> 0x40) rs" and ?h = "tl (dropWhile (\<lambda>r. r \<noteq> 0x40) rs)"
  let ?t = "takeWhile (\<lambda>r. r \<noteq> 0x2E) (rev ?h)" and ?r = "tl (dropWhile (\<lambda>r. r \<noteq> 0x2E) (rev ?h))"
  have cut: "xs = takeWhile (\<lambda>r. r \<noteq> k) xs @ k # tl (dropWhile (\<lambda>r. r \<noteq> k) xs)" if "tl (dropWhile (\<lambda>r. r \<noteq> k) xs) \<noteq> []" for k :: nat and xs
  proof (cases "dropWhile (\<lambda>r. r \<noteq> k) xs")
    case Nil
    then have False using that by (simp only: list.sel)
    then show ?thesis ..
  next
    case (Cons y ys)
    then have "y = k" using hd_dropWhile [of "\<lambda>r. r \<noteq> k" xs] by simp
    then show ?thesis using takeWhile_dropWhile_id [of "\<lambda>r. r \<noteq> k" xs] Cons by simp
  qed
  assume e: "emailRE rs"
  then have r: "?r \<noteq> []" by (simp add: emailRE_def Let_def)
  then have "?h \<noteq> []" by auto
  then have "rs = ?u @ 0x40 # ?h" by (rule cut)
  moreover have "rev ?h = ?t @ 0x2E # ?r" by (rule cut [OF r])
  then have "?h = rev ?r @ 0x2E # rev ?t" by (metis rev.simps(2) rev_append rev_rev_ident append.assoc append_Cons append_Nil)
  ultimately show "\<exists>user host top. rs = user @ 0x40 # host @ 0x2E # top \<and> user \<noteq> [] \<and> list_all local_rune user \<and>
     host \<noteq> [] \<and> list_all domain_rune host \<and> 2 \<le> length top \<and> list_all fold_letter top"
    using e by (intro exI [of _ ?u] exI [of _ "rev ?r"] exI [of _ "rev ?t"]) (auto simp: emailRE_def Let_def list_all_iff)
next
  assume "\<exists>user host top. rs = user @ 0x40 # host @ 0x2E # top \<and> user \<noteq> [] \<and> list_all local_rune user \<and>
     host \<noteq> [] \<and> list_all domain_rune host \<and> 2 \<le> length top \<and> list_all fold_letter top"
  then obtain user host top where e: "rs = user @ 0x40 # host @ 0x2E # top" "user \<noteq> []" "list_all local_rune user" "host \<noteq> []"
    "list_all domain_rune host" "2 \<le> length top" "list_all fold_letter top" by blast
  have "0x40 \<notin> set user" using e(3) by (auto simp: list_all_iff local_rune_def fold_letter_def ascii_digit_def)
  then have "takeWhile (\<lambda>r. r \<noteq> 0x40) rs = user" "tl (dropWhile (\<lambda>r. r \<noteq> 0x40) rs) = host @ 0x2E # top" unfolding e(1) by (simp_all add: cut_before)
  moreover have "0x2E \<notin> set (rev top)" using e(7) by (auto simp: list_all_iff fold_letter_def)
  then have "takeWhile (\<lambda>r. r \<noteq> 0x2E) (rev (host @ 0x2E # top)) = rev top" "tl (dropWhile (\<lambda>r. r \<noteq> 0x2E) (rev (host @ 0x2E # top))) = rev host"
    using cut_before [of "0x2E" "rev top" "rev host"] by simp_all
  ultimately show "emailRE rs" using e by (simp add: emailRE_def Let_def list_all_iff)
qed

section \<open>Accounts and their passwords\<close>

definition account_sig :: "account_row \<Rightarrow> string \<times> string \<times> string" where
  "account_sig u = (ac_ID u, map ascii_lower (ac_Email u), ac_AuthSource u)"

definition logins_ok :: "adb \<Rightarrow> bool" where
  "logins_ok db \<longleftrightarrow>
     distinct (map (fst \<circ> snd \<circ> account_sig) (td_users db)) \<and> distinct (map pc_UserID (td_credentials db)) \<and>
     (\<forall>u \<in> set (td_users db). ac_AuthSource u = ''manual'' \<longrightarrow> ac_ID u \<in> pc_UserID ` set (td_credentials db))"

definition logins_kept :: "adb \<Rightarrow> adb \<Rightarrow> bool" where
  "logins_kept db db' \<longleftrightarrow>
     map account_sig (td_users db') = map account_sig (td_users db) \<and> map pc_UserID (td_credentials db') = map pc_UserID (td_credentials db)"

lemma logins_ok_sigs:
  "logins_ok db \<longleftrightarrow>
     distinct (map (fst \<circ> snd) (map account_sig (td_users db))) \<and> distinct (map pc_UserID (td_credentials db)) \<and>
     (\<forall>(i, e, s) \<in> set (map account_sig (td_users db)). s = ''manual'' \<longrightarrow> i \<in> set (map pc_UserID (td_credentials db)))"
  unfolding logins_ok_def map_map set_map by (simp add: account_sig_def comp_def)

lemma kept_ok: "logins_kept db db' \<Longrightarrow> logins_ok db \<Longrightarrow> logins_ok db'"
  unfolding logins_ok_sigs logins_kept_def by simp

lemma kept_refl: "td_users db' = td_users db \<Longrightarrow> td_credentials db' = td_credentials db \<Longrightarrow> logins_kept db db'"
  by (simp add: logins_kept_def)

lemma kept_trans: "logins_kept a b \<Longrightarrow> logins_kept b c \<Longrightarrow> logins_kept a c"
  by (simp add: logins_kept_def)

lemma kept_users:
  assumes "td_users db' = update_rows p f (td_users db)" "td_credentials db' = td_credentials db" "\<And>u. p u \<Longrightarrow> account_sig (f u) = account_sig u"
  shows "logins_kept db db'"
  using assms unfolding logins_kept_def by (simp add: map_update_rows)

lemma account_added_ok:
  assumes "logins_ok db" and "td_users db' = td_users db @ [u]" and "\<not> list_ex (account_conflict u) (td_users db)"
    and "td_credentials db' = td_credentials db \<and> ac_AuthSource u \<noteq> ''manual'' \<or>
      (\<exists>c. td_credentials db' = td_credentials db @ [c] \<and> pc_UserID c = ac_ID u \<and> ac_ID u \<notin> pc_UserID ` set (td_credentials db))"
  shows "logins_ok db'"
proof -
  have "map ascii_lower (ac_Email u) \<notin> (fst \<circ> snd \<circ> account_sig) ` set (td_users db)"
    using assms(3) by (auto simp: list_ex_iff account_conflict_def same_address_def account_sig_def)
  then show ?thesis using assms(1,2,4) unfolding logins_ok_def by (auto simp: account_sig_def)
qed

lemma credential_added: "insert_credential now i p m db = Inr db' \<Longrightarrow>
  \<exists>c. db' = db\<lparr>td_credentials := td_credentials db @ [c]\<rparr> \<and> pc_UserID c = i \<and> i \<notin> pc_UserID ` set (td_credentials db)"
  by (auto simp: insert_credential_def list_ex_iff split: if_splits)

lemma account_created_ok:
  assumes "logins_ok db" and "insert_account u db = Inr db1" and "insert_credential now (ac_ID u) p m db1 = Inr db'"
  shows "logins_ok db'"
proof -
  have u: "db1 = db\<lparr>td_users := td_users db @ [u]\<rparr>" "\<not> list_ex (account_conflict u) (td_users db)"
    using assms(2) by (auto simp: insert_account_def list_ex_iff split: if_splits)
  obtain c where c: "db' = db1\<lparr>td_credentials := td_credentials db1 @ [c]\<rparr>" "pc_UserID c = ac_ID u" "ac_ID u \<notin> pc_UserID ` set (td_credentials db1)"
    using credential_added [OF assms(3)] by blast
  show ?thesis by (rule account_added_ok [OF assms(1) _ u(2)]) (use c in \<open>auto simp: u(1)\<close>)
qed

lemma manual_user_ID [simp]: "ac_ID (manual_user i e n f) = i"
  by (simp add: manual_user_def)

lemma touch_kept: "td_users db' = td_users (touch_last_login now uid db) \<Longrightarrow> td_credentials db' = td_credentials db \<Longrightarrow> logins_kept db db'"
  by (rule kept_users [of _ "\<lambda>u. ac_ID u = uid" "\<lambda>u. u\<lparr>ac_LastLoginAt := Some now\<rparr>"]) (simp_all add: touch_last_login_def account_sig_def)

lemma rotate_kept: "RotateRefreshToken now wall old new db = (r, db') \<Longrightarrow> logins_kept db db'"
  by (rule kept_refl; auto simp: RotateRefreshToken_def revokeSessionForReusedToken_def revoke_tokens_def revoke_sessions_def insert_token_def Let_def
    split: option.splits if_splits prod.splits)

lemma oidc_logins_ok:
  assumes "logins_ok db" and "CreateOIDCSessionAndExchange build i j k now wall input db = Inr ((s, user), db')"
  shows "logins_ok db'"
  using assms(2)
proof (cases rule: OIDC_cases)
  case (1 db1 dev db2 db4 db5 x)
  have hash: "oi_RefreshTokenHash input = ci_RefreshTokenHash (oidc_session_input input)" by (simp add: oidc_session_input_def)
  let ?t = "touch_last_login now (lu_ID user) db5"
  have "logins_kept db1 ?t" by (rule grant_shape [OF 1(2-4) hash refl]) (rule touch_kept)
  moreover have "logins_kept ?t db'" using insertOIDCExchange_frame [OF 1(5)] by (intro kept_refl) auto
  moreover have "logins_ok db1"
  proof -
    consider (found) n uid where "syncOIDCUserProfile uid input db = Inr (n, db1)" | (again) "db1 = db"
      | (made) d where "insertOIDCUser i input db = Some (user, d)" "enrollInDefaultWorkspace (lu_ID user) d = Inr db1"
      using 1(1) unfolding resolveOIDCUser_def by (auto simp: bind_err_Inr_iff split: option.splits if_splits)
    then show ?thesis
    proof cases
      case found
      then obtain f where "db1 = db\<lparr>td_users := update_rows (\<lambda>u. ac_ID u = uid) f (td_users db)\<rparr>" "\<And>u. account_sig (f u) = account_sig u"
        by (auto simp: syncOIDCUserProfile_def Let_def account_sig_def split: option.splits)
      then have "logins_kept db db1" by (intro kept_users [of _ "\<lambda>u. ac_ID u = uid" f]) simp_all
      then show ?thesis using kept_ok assms(1) by blast
    next
      case made
      have u: "d = db\<lparr>td_users := td_users db @ [oidc_user i input]\<rparr>" "\<not> list_ex (account_conflict (oidc_user i input)) (td_users db)"
        using made(1) by (auto simp: insertOIDCUser_def Let_def list_ex_iff split: if_splits)
      have "td_users db1 = td_users d" "td_credentials db1 = td_credentials d"
        using made(2) by (auto simp: enrollInDefaultWorkspace_def split: list.splits if_splits)
      then show ?thesis by (intro account_added_ok [OF assms(1) _ u(2)]) (simp_all add: u(1) oidc_user_def)
    qed (use assms(1) in simp)
  qed
  ultimately show ?thesis using kept_ok by blast
qed

lemma status_kept:
  assumes "updateUserStatusOnce session available now uid status (chat, db) = (Inr (Inr u), chat', db')"
  shows "logins_kept db db'"
  using assms
proof (cases rule: updateUserStatusOnce_cases)
  case (1 v)
  have "td_users db' = td_users (set_status uid status db)" "td_credentials db' = td_credentials (set_status uid status db)"
    unfolding 1(6) closeOutSuspendedAccess_def Let_def by (simp_all add: revoke_with_tokens_def revoke_tokens_def revoke_sessions_def)
  then show ?thesis
    by (intro kept_users [of _ "\<lambda>u. ac_ID u = uid \<and> ac_DeletedAt u = None" "\<lambda>u. u\<lparr>ac_Status := status\<rparr>"]) (simp_all add: set_status_def account_sig_def)
qed

lemma tx_logins:
  assumes "auth_tx db evs db'" and ok: "logins_ok db"
  shows "logins_ok db'"
  using assms(1)
proof cases
  case (Refused verify now wall input e)
  then obtain as where "db' = db\<lparr>td_attempts := as\<rparr>" using authenticate_frame(1) by blast
  then show ?thesis using kept_ok [OF kept_refl ok] by simp
next
  case SignOn
  then show ?thesis using oidc_logins_ok [OF ok] by blast
next
  case Refresh
  then show ?thesis using kept_ok [OF rotate_kept ok] by blast
next
  case Reset
  from Reset(2) show ?thesis
  proof (cases rule: ResetPasswordTx_cases)
    case (1 t)
    have "logins_kept db db'" unfolding 1(7) logins_kept_def by (simp add: map_update_rows revoke_tokens_def revoke_sessions_def)
    then show ?thesis by (rule kept_ok [OF _ ok])
  qed
next
  case NewUser
  then show ?thesis by (auto simp: CreateUser_def Let_def bind_err_Inr_iff intro: account_created_ok [OF ok])
next
  case (Accept i now wall hash name full password u)
  then obtain db1 db2 ivs where 1: "insert_account u db = Inr db1" "insert_credential now (ac_ID u) password False db1 = Inr db2" "db' = db2\<lparr>td_invites := ivs\<rparr>"
    by (auto simp: AcceptInviteTx_def Let_def bind_err_Inr_iff split: option.splits if_splits)
  then show ?thesis using kept_ok [OF kept_refl account_created_ok [OF ok 1(1,2)]] by simp
next
  case Status
  then show ?thesis using kept_ok [OF status_kept [OF Status(2)] ok] by blast
qed (rule kept_ok [OF kept_refl ok]; auto simp: RevokeRefreshToken_def RevokeSession_def RevokeAllSessionsExcept_def RevokeDevice_def
  UpdateDeviceDisplayName_def CreatePasswordResetToken_def CreateInvite_def RevokeUserSessions_def ConsumeExchange_def CreateAuthRequest_def
  ConsumeAuthRequest_def revoke_with_tokens_def revoke_tokens_def revoke_sessions_def Let_def split: option.splits if_splits)+

lemma run_logins:
  assumes "auth_run s0 evs s" and "s0 = start p ws"
  shows "logins_ok (sy_db s)"
  using assms
proof induction
  case (run_refl s)
  then show ?case by (simp add: start_def logins_ok_def)
next
  case (run_step s0 evs s' new s'')
  have ok: "logins_ok (sy_db s')" by (rule run_step.IH [OF run_step.prems])
  from run_step.hyps(2) show ?case
  proof cases
    case (Tx db db' ls)
    then show ?thesis using tx_logins ok by simp
  next
    case (Authenticated ls input verify now wall db c db')
    then show ?thesis using authenticate_frame(2) ok by fastforce
  next
    case (Grant l ls j k now wall db r db')
    have "logins_kept db db'" using Grant(5)
    proof (cases rule: grantLoginSession_cases)
      case (refused e)
      then show ?thesis by (auto intro: kept_refl)
    next
      case (granted dev db1 db2 db3 a)
      show ?thesis by (rule grant_shape [OF granted(3-5) refl granted(6)]) (rule touch_kept)
    qed
    then show ?thesis using kept_ok ok Grant(1-3) by simp
  qed
qed

section \<open>Tokens that work\<close>

lemma filter_one:
  assumes "distinct (map f xs)" "x \<in> set xs" "q x" "\<And>y. y \<in> set xs \<Longrightarrow> q y \<Longrightarrow> f y = f x"
  shows "length (filter q xs) = 1"
proof -
  have inj: "inj_on f (set xs)" using assms(1) by (simp add: distinct_map)
  have same: "y = x" if "y \<in> set xs" "q y" for y by (rule inj_onD [OF inj assms(4) [OF that] that(1) assms(2)])
  have "set (filter q xs) = {x}" unfolding set_filter using assms(2,3) same by blast
  moreover have "distinct (filter q xs)" using assms(1) by (simp add: distinct_map)
  then have "length (filter q xs) = card (set (filter q xs))" by (rule distinct_card [symmetric])
  ultimately show ?thesis by simp
qed

lemma live_token:
  assumes ok: "sessions_ok db" and x: "x \<in> set (td_sessions db)" "se_RevokedAt x = None"
  shows "has_active_token x db" and "y \<in> set (td_sessions db) \<Longrightarrow> se_RefreshTokenHash y = se_RefreshTokenHash x \<Longrightarrow> has_active_token y db \<Longrightarrow> y = x"
proof -
  obtain h where h: "h \<in> set (td_history db)" "token_for x h" using sessions_okD(3) [OF ok x(1)] by blast
  then show "has_active_token x db" using x(2) unfolding has_active_token_def list_ex_iff token_for_def by blast
  assume y: "y \<in> set (td_sessions db)" "se_RefreshTokenHash y = se_RefreshTokenHash x" "has_active_token y db"
  then obtain g where g: "g \<in> set (td_history db)" "th_SessionID g = se_ID y" "th_RefreshTokenHash g = se_RefreshTokenHash y"
    unfolding has_active_token_def list_ex_iff by blast
  have "g = h" using token_unique [OF ok g(1) h(1)] g(3) y(2) h(2) unfolding token_for_def by simp
  then show "y = x" using session_unique [OF ok y(1) x(1)] g(2) h(2) unfolding token_for_def by simp
qed

lemma refresh_session_live:
  assumes ok: "sessions_ok db" and x: "x \<in> set (td_sessions db)" "session_current now x" "account_active db (se_UserID x)"
  shows "refresh_session now (se_RefreshTokenHash x) db = Some x"
proof -
  have rev: "se_RevokedAt x = None" using x(2) by (simp add: session_current_def)
  have "refresh_session now (se_RefreshTokenHash x) db \<noteq> None"
    unfolding refresh_session_def find_None_iff using x live_token(1) [OF ok x(1) rev] by blast
  then obtain y where y: "refresh_session now (se_RefreshTokenHash x) db = Some y" by blast
  then show ?thesis using live_token(2) [OF ok x(1) rev] refresh_sessionD(1,2,4) [OF y] by simp
qed

lemma rotate_succeeds:
  assumes ok: "sessions_ok db" and r: "refresh_session now old db = Some x" and new: "new \<notin> th_RefreshTokenHash ` set (td_history db)"
  shows "\<exists>db'. RotateRefreshToken now wall old new db = (Inr \<lparr>as_ID = se_ID x, as_UserID = se_UserID x\<rparr>, db')"
proof -
  note d = refresh_sessionD [OF r]
  let ?q = "\<lambda>h. th_SessionID h = se_ID x \<and> th_RefreshTokenHash h = old \<and> th_Status h = ''active''"
  let ?v = "\<lambda>h. h\<lparr>th_Status := ''rotated'', th_RotatedAt := Some now\<rparr>"
  let ?t = "\<lambda>y. se_ID y = se_ID x \<and> se_RefreshTokenHash y = old \<and> se_RevokedAt y = None"
  obtain h where h: "h \<in> set (td_history db)" "?q h" using d(2,4) unfolding has_active_token_def list_ex_iff by blast
  have "th_RefreshTokenHash y = th_RefreshTokenHash h" if "?q y" for y using that h(2) by (elim conjE) (simp only:)
  then have one: "length (filter ?q (td_history db)) = 1"
    by (intro filter_one [of th_RefreshTokenHash "td_history db" h ?q, OF sessions_okD(2) [OF ok] h])
  have target: "length (filter ?t (td_sessions db)) = 1"
    by (rule filter_one [of se_ID "td_sessions db" x ?t, OF sessions_okD(1) [OF ok] d(1)]) (use d(2,6) in simp_all)
  have "se_RefreshTokenHash y \<noteq> new" if "y \<in> set (td_sessions db)" for y
    using sessions_okD(3) [OF ok that] new unfolding token_for_def by (metis imageI)
  then have free: "\<not> list_ex (\<lambda>y. \<not> ?t y \<and> se_RefreshTokenHash y = new) (td_sessions db)" unfolding list_ex_iff by blast
  have hashes: "list_ex (\<lambda>h. th_RefreshTokenHash h = new) rows = (new \<in> th_RefreshTokenHash ` set rows)" for rows
    by (auto simp: list_ex_iff)
  have "th_RefreshTokenHash ` set (update_rows ?q ?v (td_history db)) = th_RefreshTokenHash ` set (td_history db)"
    unfolding set_update_rows image_image by (rule image_cong [OF refl]) (simp split: if_split)
  then have ins: "\<exists>d'. insert_token (se_ID x) new d = Inr d'" if "td_history d = update_rows ?q ?v (td_history db)" for d
    unfolding insert_token_def that using new by (simp only: hashes if_False not_False_eq_True) blast
  let ?d1 = "db\<lparr>td_history := update_rows ?q ?v (td_history db)\<rparr>"
  let ?w = "\<lambda>y. y\<lparr>se_RefreshTokenHash := new, se_IdleExpiresAt := wall + minutes (po_SessionIdleTimeoutMinutes (td_policy db)), se_LastSeenAt := now\<rparr>"
  obtain d' where d': "insert_token (se_ID x) new (?d1\<lparr>td_sessions := update_rows ?t ?w (td_sessions ?d1)\<rparr>) = Inr d'"
    using ins [of "?d1\<lparr>td_sessions := update_rows ?t ?w (td_sessions ?d1)\<rparr>"] by auto
  show ?thesis unfolding RotateRefreshToken_def r option.case Let_def one target
    by (simp only: free d' simp_thms if_False sum.case) blast
qed

lemma logout_succeeds:
  assumes ok: "sessions_ok db" "accounts_ok db" and x: "x \<in> set (td_sessions db)" "se_RevokedAt x = None"
  shows "\<exists>db'. RevokeRefreshToken now (se_RefreshTokenHash x) db = Inr db' \<and> ValidateActiveSession now' uid (se_ID x) db' = Some ErrInvalidToken"
proof -
  let ?q = "\<lambda>s. se_RefreshTokenHash s = se_RefreshTokenHash x \<and> se_RevokedAt s = None \<and> has_active_token s db"
  let ?db = "revoke_tokens now (\<lambda>i. i = se_ID x) (revoke_sessions now ''logout'' (\<lambda>y. se_ID y = se_ID x) db)"
  have "find ?q (td_sessions db) \<noteq> None" unfolding find_None_iff using x live_token(1) [OF ok(1) x] by blast
  then obtain y where y: "find ?q (td_sessions db) = Some y" by blast
  have "y = x" using live_token(2) [OF ok(1) x] find_SomeD [OF y] by blast
  moreover have "length (filter (\<lambda>y. se_ID y = se_ID x \<and> se_RevokedAt y = None) (td_sessions db)) = 1"
    by (rule filter_one [of se_ID "td_sessions db" x "\<lambda>y. se_ID y = se_ID x \<and> se_RevokedAt y = None", OF sessions_okD(1) [OF ok(1)] x(1)]) (use x in simp_all)
  ultimately have r: "RevokeRefreshToken now (se_RefreshTokenHash x) db = Inr ?db" unfolding RevokeRefreshToken_def y option.case by simp
  have "\<not> session_current now' z" if "z \<in> set (td_sessions ?db)" "se_ID z = se_ID x" for z
    using that by (auto simp: revoke_tokens_def revoke_sessions_def revoke_session_def set_update_rows session_current_def split: if_splits)
  then have "find (\<lambda>s. se_ID s = se_ID x \<and> se_UserID s = uid \<and> session_current now' s \<and> account_active ?db (se_UserID s)) (td_sessions ?db) = None"
    unfolding find_None_iff by blast
  then have "ValidateActiveSession now' uid (se_ID x) ?db = Some ErrInvalidToken" unfolding ValidateActiveSession_def ActiveSessionCTE_def by simp
  then show ?thesis using r by blast
qed

text \<open>
  What is relied on of the token library, at an instant at which the tokens in question have not expired: it signs any claims,
  and what was signed under a key is read back under the same key, issuer and audience, whatever the function that chooses
  the key, as long as it chooses this one for HS256.
\<close>

definition token_laws :: "auth_env \<Rightarrow> bool" where
  "token_laws ev \<longleftrightarrow>
     (\<forall>key c. ev_sign ev key c \<noteq> None) \<and>
     (\<forall>key c raw aud pick. ev_sign ev key c = Some raw \<and> aud \<in> set (ax_Audience c) \<and> pick ''HS256'' = Some key \<longrightarrow>
        ev_parse ev (ax_Issuer c) aud pick raw = Some c)"

lemma token_laws_read:
  "token_laws ev \<Longrightarrow> ev_sign ev key c = Some raw \<Longrightarrow> aud \<in> set (ax_Audience c) \<Longrightarrow> pick ''HS256'' = Some key \<Longrightarrow>
   ev_parse ev (ax_Issuer c) aud pick raw = Some c"
  unfolding token_laws_def by blast

lemma access_token_read:
  assumes "token_laws ev" and "GenerateAccessToken ev (Some jid) wall uid sid = Inr (tok, n)" and "jid \<noteq> ''''"
  shows "\<exists>claims. ValidateAccessToken ev tok = Some claims \<and> ax_Subject claims = uid \<and> ax_SessionID claims = sid"
proof -
  let ?m = "ev_tokens ev"
  let ?c = "\<lparr>ax_SessionID = sid, ax_Subject = uid, ax_Issuer = tm_issuer ?m, ax_Audience = [tm_audience ?m],
      ax_IssuedAt = Some wall, ax_NotBefore = Some wall, ax_ExpiresAt = Some (wall + tm_accessTTL ?m), ax_ID = jid\<rparr>"
  have g: "uid \<noteq> ''''" "sid \<noteq> ''''" "ev_sign ev (tm_secret ?m) ?c = Some tok"
    using assms(2) unfolding GenerateAccessToken_def Let_def of_option_def
    by (auto simp: bind_err_Inr_iff split: if_splits option.splits)
  have "ev_parse ev (ax_Issuer ?c) (tm_audience ?m) (\<lambda>alg. if alg \<noteq> ''HS256'' then None else Some (tm_secret ?m)) tok = Some ?c"
    by (rule token_laws_read [OF assms(1) g(3)]) simp_all
  then show ?thesis using g(1,2) assms(3) unfolding ValidateAccessToken_def Let_def by simp
qed

lemma access_token_issued:
  assumes "token_laws ev" and "uid \<noteq> ''''" "sid \<noteq> ''''"
  shows "\<exists>tok n. GenerateAccessToken ev (Some jid) wall uid sid = Inr (tok, n)"
  using assms unfolding GenerateAccessToken_def token_laws_def Let_def of_option_def
  by (simp add: bind_err_def split: option.splits)

lemma GenerateAccessToken_ids: "GenerateAccessToken ev random wall uid sid = Inr y \<Longrightarrow> uid \<noteq> '''' \<and> sid \<noteq> ''''"
  unfolding GenerateAccessToken_def Let_def by (simp split: if_splits)

lemma CreateLoginSession_cases:
  assumes ok: "sessions_ok (meanwhile db)" "accounts_ok (meanwhile db)" and l: "CreateLoginSession verify j k now wall wall' meanwhile input db = (Inr c, db')"
  obtains x where "tx_ok (meanwhile db) db'" "x \<in> set (td_sessions db')" "se_RevokedAt x = None" "se_RefreshTokenHash x = ci_RefreshTokenHash input"
    "cs_Session c = \<lparr>as_ID = se_ID x, as_UserID = se_UserID x\<rparr>" "lu_ID (cs_User c) = se_UserID x"
    "se_IdleExpiresAt x = wall' + minutes (po_SessionIdleTimeoutMinutes (td_policy db))" "se_AbsoluteExpiresAt x = Some (ci_RefreshExpiresAt input)"
proof -
  obtain a db1 where a: "authenticate verify now wall input (td_policy db) db = (a, db1)" by (cases "authenticate verify now wall input (td_policy db) db")
  obtain cand where cand: "a = Inr cand" using l unfolding CreateLoginSession_def Let_def a by (cases a) simp_all
  have same: "db1 = db" by (rule authenticate_frame(2) [OF a cand])
  obtain g db2 where g: "grantLoginSession j k now wall' (lu_ID (lc_User cand)) input (td_policy db) (meanwhile db) = (g, db2)"
    by (cases "grantLoginSession j k now wall' (lu_ID (lc_User cand)) input (td_policy db) (meanwhile db)")
  obtain s where s: "g = Inr s" "db2 = db'" "c = \<lparr>cs_Session = s, cs_User = lc_User cand\<rparr>"
    using l unfolding CreateLoginSession_def Let_def a cand same prod.case sum.case g by (cases g) simp_all
  from g have ?thesis
  proof (cases rule: grantLoginSession_cases)
    case (granted dev d1 d2 d3 s')
    have tx: "tx_ok (meanwhile db) db'" using tx_grant [OF ok g] s(2) by simp
    have s': "s' = s" using granted(1) s(1) by simp
    show ?thesis
      by (rule grant_shape [OF granted(3-5) refl granted(6)]) (rule that [OF tx], use s s' in simp_all)
  qed (use s(1) in simp)
  then show ?thesis .
qed

lemma Login_cases:
  assumes "Login ev (Some raw) jid j k now wall wall' meanwhile input db = (Inr r, db')"
  obtains c n where "CreateLoginSession (ev_verify ev) j k now wall wall' meanwhile (session_input ev input (HashRefreshToken ev raw) (wall + tm_refreshTTL (ev_tokens ev))) db = (Inr c, db')"
    "GenerateAccessToken ev jid wall' (as_UserID (cs_Session c)) (as_ID (cs_Session c)) = Inr (lg_AccessToken r, n)"
    "lg_RefreshToken r = raw" "lg_User r = cs_User c"
  using assms unfolding Login_def GenerateRefreshToken_def of_option_def
  by (auto simp: bind_err_Inr_iff bind_err_Inl_iff split: sum.splits prod.splits)

text \<open>
  What a login hands out works until it expires, whatever happened between its check of the password and its grant. After a successful login the access token is accepted and names
  the account and a session that every service takes for valid; the refresh token is exchanged for a new pair about the same
  account and session, at any time before the session's idle and absolute expiry; and logging out with the newest refresh
  token is accepted and ends the session.
\<close>

theorem issued_tokens_work:
  assumes "auth_run (start p ws) evs s" and "token_laws ev" and "jid \<noteq> ''''" "jid' \<noteq> ''''"
    and "Login ev (Some raw) (Some jid) j k now wall wall1 meanwhile input db = (Inr r, db')" "meanwhile db = sy_db s"
    and "go_trim_space raw = raw" "raw \<noteq> ''''" "go_trim_space raw' = raw'" "raw' \<noteq> ''''"
    and "HashRefreshToken ev raw' \<notin> th_RefreshTokenHash ` set (td_history db')"
    and "now' < wall1 + minutes (po_SessionIdleTimeoutMinutes (td_policy db))" "now' < wall + tm_refreshTTL (ev_tokens ev)"
  shows "\<exists>claims pair db'' claims' db3.
    ValidateAccessToken ev (lg_AccessToken r) = Some claims \<and> ax_Subject claims = lu_ID (lg_User r) \<and>
    ValidateActiveSession now' (ax_Subject claims) (ax_SessionID claims) db' = None \<and>
    Refresh ev (Some raw') (Some jid') now' wall' (lg_RefreshToken r) db' = (Inr pair, db'') \<and>
    ValidateAccessToken ev (tp_AccessToken pair) = Some claims' \<and>
    ax_Subject claims' = ax_Subject claims \<and> ax_SessionID claims' = ax_SessionID claims \<and>
    Logout ev now3 (tp_RefreshToken pair) db'' = Inr db3 \<and>
    ValidateActiveSession now4 (ax_Subject claims) (ax_SessionID claims) db3 = Some ErrInvalidToken"
proof -
  let ?h = "HashRefreshToken ev raw" and ?h' = "HashRefreshToken ev raw'"
  have ok: "sessions_ok (meanwhile db)" "accounts_ok (meanwhile db)" using reachable_ok [OF assms(1)] unfolding assms(6) by blast+
  obtain c n where c: "CreateLoginSession (ev_verify ev) j k now wall wall1 meanwhile (session_input ev input ?h (wall + tm_refreshTTL (ev_tokens ev))) db = (Inr c, db')"
      "GenerateAccessToken ev (Some jid) wall1 (as_UserID (cs_Session c)) (as_ID (cs_Session c)) = Inr (lg_AccessToken r, n)"
      "lg_RefreshToken r = raw" "lg_User r = cs_User c"
    by (rule Login_cases [OF assms(5)])
  obtain x where x: "tx_ok (meanwhile db) db'" "x \<in> set (td_sessions db')" "se_RevokedAt x = None" "se_RefreshTokenHash x = ?h"
      "cs_Session c = \<lparr>as_ID = se_ID x, as_UserID = se_UserID x\<rparr>" "lu_ID (cs_User c) = se_UserID x"
      "se_IdleExpiresAt x = wall1 + minutes (po_SessionIdleTimeoutMinutes (td_policy db))" "se_AbsoluteExpiresAt x = Some (wall + tm_refreshTTL (ev_tokens ev))"
    by (rule CreateLoginSession_cases [OF ok c(1)]) (simp add: session_input_def)
  have ok': "sessions_ok db'" "accounts_ok db'" using x(1) unfolding tx_ok_def by blast+
  have act: "account_active db' (se_UserID x)" using ok'(2) x(2,3) unfolding accounts_ok_def by blast
  have cur: "session_current now' x" using x(3,7,8) assms(12,13) unfolding session_current_def by simp
  obtain claims where claims: "ValidateAccessToken ev (lg_AccessToken r) = Some claims" "ax_Subject claims = se_UserID x" "ax_SessionID claims = se_ID x"
    using access_token_read [OF assms(2) c(2) assms(3)] unfolding x(5) AuthSession.simps by blast
  have "find (\<lambda>y. se_ID y = se_ID x \<and> se_UserID y = se_UserID x \<and> session_current now' y \<and> account_active db' (se_UserID y)) (td_sessions db') \<noteq> None"
    unfolding find_None_iff using x(2) cur act by blast
  then have valid: "ValidateActiveSession now' (se_UserID x) (se_ID x) db' = None" unfolding ValidateActiveSession_def ActiveSessionCTE_def by auto
  note rs = refresh_session_live [OF ok'(1) x(2) cur act, unfolded x(4)]
  obtain db'' where rot: "RotateRefreshToken now' wall' ?h ?h' db' = (Inr \<lparr>as_ID = se_ID x, as_UserID = se_UserID x\<rparr>, db'')"
    using rotate_succeeds [OF ok'(1) rs assms(11)] by blast
  obtain tok m where tok: "GenerateAccessToken ev (Some jid') wall' (se_UserID x) (se_ID x) = Inr (tok, m)"
    using access_token_issued [OF assms(2)] GenerateAccessToken_ids [OF c(2)] unfolding x(5) AuthSession.simps by blast
  let ?pair = "\<lparr>tp_AccessToken = tok, tp_RefreshToken = raw', tp_TokenType = ''Bearer'', tp_ExpiresIn = m\<rparr>"
  have ref: "Refresh ev (Some raw') (Some jid') now' wall' raw db' = (Inr ?pair, db'')"
    unfolding Refresh_def Let_def assms(7) GenerateRefreshToken_def of_option_def requires_def using assms(8) rot tok by (simp add: bind_err_def)
  obtain claims' where claims': "ValidateAccessToken ev tok = Some claims'" "ax_Subject claims' = se_UserID x" "ax_SessionID claims' = se_ID x"
    using access_token_read [OF assms(2) tok assms(4)] by blast
  have ok'': "sessions_ok db''" "accounts_ok db''" using tx_rotate [OF ok' rot] unfolding tx_ok_def by blast+
  have "\<exists>y \<in> set (td_sessions db''). se_ID y = se_ID x \<and> se_RefreshTokenHash y = ?h' \<and> se_RevokedAt y = None"
    using rot
  proof (cases rule: RotateRefreshToken_cases)
    case (rotated y)
    have "y = x" using rotated(1) rs by simp
    then show ?thesis unfolding rotated(9) set_update_rows using x(3,4) by (intro bexI [OF _ imageI [OF x(2)]]) simp
  qed simp_all
  then obtain y where y: "y \<in> set (td_sessions db'')" "se_ID y = se_ID x" "se_RefreshTokenHash y = ?h'" "se_RevokedAt y = None" by blast
  obtain db3 where "RevokeRefreshToken now3 ?h' db'' = Inr db3" "ValidateActiveSession now4 (se_UserID x) (se_ID x) db3 = Some ErrInvalidToken"
    using logout_succeeds [OF ok'' y(1,4), of now3 now4 "se_UserID x"] unfolding y(2,3) by blast
  moreover from this have "Logout ev now3 raw' db'' = Inr db3" unfolding Logout_def Let_def assms(9) requires_def using assms(10) by (simp add: bind_err_def)
  ultimately show ?thesis unfolding c(3,4) x(6) using claims valid ref claims' by (intro exI [of _ claims] exI [of _ ?pair] exI [of _ db''] exI [of _ claims'] exI [of _ db3]) simp
qed

section \<open>Recovering a password\<close>

lemma run_append: "auth_run s' later s'' \<Longrightarrow> auth_run s evs s' \<Longrightarrow> auth_run s (evs @ later) s''"
proof (induction rule: auth_run.induct)
  case (run_step a es b new c)
  have "auth_run s ((evs @ es) @ new) c" by (rule auth_run.run_step [OF run_step.IH [OF run_step.prems] run_step.hyps(2)])
  then show ?case by simp
qed simp

lemma find_unique:
  assumes "x \<in> set xs" "q x" "\<And>y. y \<in> set xs \<Longrightarrow> q y \<Longrightarrow> y = x"
  shows "find q xs = Some x"
proof (cases "find q xs")
  case None
  then show ?thesis using assms(1,2) unfolding find_None_iff by blast
next
  case (Some y)
  then show ?thesis using find_SomeD [OF Some] assms(3) by blast
qed

text \<open>Under the invariant an address belongs to one account, and that account has one password.\<close>

lemma address_unique:
  assumes "logins_ok db" "u \<in> set (td_users db)" "v \<in> set (td_users db)" "same_address (ac_Email u) e" "same_address (ac_Email v) e"
  shows "v = u"
proof -
  have "inj_on (fst \<circ> snd \<circ> account_sig) (set (td_users db))" using assms(1) unfolding logins_ok_def distinct_map by blast
  then show ?thesis using assms(2-5) by (auto simp: inj_on_def same_address_def account_sig_def)
qed

lemma credential_unique:
  assumes "logins_ok db" "c \<in> set (td_credentials db)" "d \<in> set (td_credentials db)" "pc_UserID c = pc_UserID d"
  shows "d = c"
  using assms unfolding logins_ok_def by (auto simp: distinct_map inj_on_def)

lemma selectLoginUser_manual:
  assumes ok: "logins_ok db" and u: "u \<in> set (td_users db)" "same_address (ac_Email u) email" "manual_account u"
    and c: "c \<in> set (td_credentials db)" "pc_UserID c = ac_ID u"
  obtains cand where "selectLoginUser email db = (cand, True)" "lu_ID (lc_User cand) = ac_ID u" "lc_PasswordHash cand = pc_PasswordHash c"
    "lc_PasswordChangedAt cand = pc_PasswordChangedAt c" "lc_Status cand = ac_Status u" "lc_Deleted cand = (ac_DeletedAt u \<noteq> None)"
proof -
  have m: "ac_AuthSource u = ''manual''" using u(3) by (simp add: manual_account_def)
  have f: "find (\<lambda>u. same_address (ac_Email u) email \<and> ac_AuthSource u = ''manual'') (td_users db) = Some u"
    by (rule find_unique [OF u(1)]) (use u(2) m address_unique [OF ok u(1) _ u(2)] in blast)+
  have g: "find (\<lambda>d. pc_UserID d = ac_ID u) (td_credentials db) = Some c"
    by (rule find_unique [OF c(1)]) (use c(2) credential_unique [OF ok c(1)] in auto)
  show ?thesis by (rule that [of "fst (selectLoginUser email db)"]) (simp_all add: selectLoginUser_def f g Let_def)
qed

lemma recovery_account:
  assumes "logins_ok db" "GetActiveUserForPasswordReset email db = Some uid"
  obtains u c where "u \<in> set (td_users db)" "ac_ID u = uid" "same_address (ac_Email u) email" "manual_account u"
    "c \<in> set (td_credentials db)" "pc_UserID c = uid"
proof -
  obtain u where u: "find (\<lambda>u. same_address (ac_Email u) email \<and> manual_account u) (td_users db) = Some u" "ac_ID u = uid"
    using assms(2) unfolding GetActiveUserForPasswordReset_def by auto
  note d = find_SomeD [OF u(1)]
  have "ac_ID u \<in> pc_UserID ` set (td_credentials db)" using assms(1) d unfolding logins_ok_def manual_account_def by blast
  then show ?thesis using d u(2) by (auto intro: that)
qed

lemma reset_succeeds:
  assumes ok: "logins_ok db" "distinct (map rt_TokenHash (td_resets db))" and t: "t \<in> set (td_resets db)" "rt_UsedAt t = None" "wall < rt_ExpiresAt t"
    and u: "GetActiveUserForPasswordReset email db = Some (rt_UserID t)"
  shows "\<exists>db'. ResetPasswordTx now wall (rt_TokenHash t) password db = Inr db'"
proof -
  obtain u c where a: "u \<in> set (td_users db)" "ac_ID u = rt_UserID t" "manual_account u" "c \<in> set (td_credentials db)" "pc_UserID c = rt_UserID t"
    by (rule recovery_account [OF ok(1) u])
  have f: "find (\<lambda>x. rt_TokenHash x = rt_TokenHash t \<and> list_ex (\<lambda>u. ac_ID u = rt_UserID x \<and> manual_account u) (td_users db)) (td_resets db) = Some t"
  proof (rule find_unique [OF t(1)])
    show "y = t" if "y \<in> set (td_resets db)" "rt_TokenHash y = rt_TokenHash t \<and> list_ex (\<lambda>u. ac_ID u = rt_UserID y \<and> manual_account u) (td_users db)" for y
      using ok(2) t(1) that by (auto simp: distinct_map dest: inj_onD)
  qed (use a in \<open>auto simp: list_ex_iff\<close>)
  have d: "distinct (map pc_UserID (td_credentials db))" using ok(1) unfolding logins_ok_def by blast
  have "length (filter (\<lambda>c. pc_UserID c = rt_UserID t) (td_credentials db)) = 1"
    by (rule filter_one [of pc_UserID "td_credentials db" c "\<lambda>c. pc_UserID c = rt_UserID t", OF d a(4)]) (use a(5) in simp_all)
  then show ?thesis unfolding ResetPasswordTx_def f option.case Let_def using t(2,3) by simp
qed

text \<open>After a reset the new password, and only it, proves the account.\<close>

lemma reset_authenticates:
  assumes ok: "logins_ok db" and r: "ResetPasswordTx now1 wall1 (rt_TokenHash t) h db = Inr db'"
    and t: "t \<in> set (td_resets db)" "distinct (map rt_TokenHash (td_resets db))" and u: "GetActiveUserForPasswordReset email db = Some (rt_UserID t)"
  obtains cand where "selectLoginUser email db' = (cand, True)" "lu_ID (lc_User cand) = rt_UserID t" "lc_PasswordHash cand = h"
    "lc_PasswordChangedAt cand = now1" "usableCredential cand True = (h \<noteq> '''')"
  using r
proof (cases rule: ResetPasswordTx_cases)
  case (1 x)
  have "x = t" using 1(1,2) t by (auto simp: distinct_map dest: inj_onD)
  have f: "td_users db' = td_users db" "td_credentials db' = update_rows (\<lambda>c. pc_UserID c = rt_UserID t)
      (\<lambda>c. c\<lparr>pc_PasswordHash := h, pc_PasswordChangedAt := now1\<rparr>) (td_credentials db)"
    unfolding 1(7) \<open>x = t\<close> by (simp_all add: revoke_tokens_def revoke_sessions_def)
  obtain u c where a: "u \<in> set (td_users db)" "ac_ID u = rt_UserID t" "same_address (ac_Email u) email" "manual_account u"
      "c \<in> set (td_credentials db)" "pc_UserID c = rt_UserID t" by (rule recovery_account [OF ok u])
  let ?c = "c\<lparr>pc_PasswordHash := h, pc_PasswordChangedAt := now1\<rparr>"
  have ok': "logins_ok db'" by (rule kept_ok [OF _ ok]) (simp add: logins_kept_def f map_update_rows)
  have c: "?c \<in> set (td_credentials db')" unfolding f(2) set_update_rows using a(5,6) by force
  have act: "active_account u" using a(4) by (simp add: manual_account_def)
  show ?thesis
    by (rule selectLoginUser_manual [OF ok' a(1) [folded f(1)] a(3,4) c])
      (use a(2,6) act in \<open>auto intro!: that simp: usableCredential_def active_account_def\<close>)
qed

lemma token_recovers:
  assumes ok: "logins_ok db" "distinct (map rt_TokenHash (td_resets db))"
    and t: "t \<in> set (td_resets db)" "rt_UsedAt t = None" "rt_UserID t = uid" "rt_TokenHash t = HashPasswordResetToken ev raw" "wall1 < rt_ExpiresAt t"
    and u: "GetActiveUserForPasswordReset email db = Some uid" and raw: "go_trim_space raw = raw" "raw \<noteq> ''''"
    and new: "ValidatePassword (ev_runes ev) new (td_policy db) = None" "ev_hash ev new = Some h" "ev_verify ev new h = Some True" "h \<noteq> ''''" "new \<noteq> ''''"
  shows "\<exists>db2. ResetPassword ev now1 wall1 raw new db db = Inr db2 \<and>
         (\<forall>input policy. ci_Email input = email \<and> ci_Password input = new \<and> \<not> PasswordExpired now1 wall2 policy \<and>
            \<not> loginTemporarilyLocked now2 wall2 True uid email policy db2 \<longrightarrow>
            (\<exists>c. authenticate (ev_verify ev) now2 wall2 input policy db2 = (Inr c, db2) \<and> lu_ID (lc_User c) = uid)) \<and>
         (\<forall>input policy. ci_Email input = email \<and> ev_verify ev (ci_Password input) h \<noteq> Some True \<longrightarrow>
            fst (authenticate (ev_verify ev) now2 wall2 input policy db2) = Inl ErrInvalidCredentials)"
proof -
  have u': "GetActiveUserForPasswordReset email db = Some (rt_UserID t)" using u t(3) by simp
  obtain db2 where r: "ResetPasswordTx now1 wall1 (rt_TokenHash t) h db = Inr db2" using reset_succeeds [OF ok t(1,2,5) u'] by blast
  have "ResetPassword ev now1 wall1 raw new db db = Inr db2"
    unfolding ResetPassword_def Let_def raw(1) new(1,2) failing_def of_option_def requires_def option.case
    using raw(2) new(5) r t(4) by (simp add: bind_err_def)
  moreover obtain cand where cand: "selectLoginUser email db2 = (cand, True)" "lu_ID (lc_User cand) = uid" "lc_PasswordHash cand = h"
      "lc_PasswordChangedAt cand = now1" "usableCredential cand True"
    by (rule reset_authenticates [OF ok(1) r t(1) ok(2) u']) (use new(4) t(3) in simp)
  have "\<exists>c. authenticate (ev_verify ev) now2 wall2 input policy db2 = (Inr c, db2) \<and> lu_ID (lc_User c) = uid"
    if "ci_Email input = email" "ci_Password input = new" "\<not> PasswordExpired now1 wall2 policy" "\<not> loginTemporarilyLocked now2 wall2 True uid email policy db2" for input policy
    unfolding authenticate_def that(1,2) cand(1) prod.case Let_def cand(2-4) using that(3,4) new(3) cand(2,5) by simp
  moreover have "fst (authenticate (ev_verify ev) now2 wall2 input policy db2) = Inl ErrInvalidCredentials"
    if "ci_Email input = email" "ev_verify ev (ci_Password input) h \<noteq> Some True" for input policy
    unfolding authenticate_def that(1) cand(1) prod.case Let_def cand(2-4) using that(2) cand(5)
    by (simp add: commitFailedLoginAttempt_def commitRefusedLogin_def)
  ultimately show ?thesis by blast
qed

text \<open>
  A forgotten password can be recovered. When an active account asks for it, a token is mailed to its address in
  an encrypted message. However the system goes on, as long as that token was neither used nor superseded, has not expired
  and the account is still active, presenting it with a password the policy allows succeeds. From then on the new password
  proves the account in a login that is not locked out, until the password expires, and a password that does not verify
  against its hash, such as the forgotten one, is refused.
\<close>

theorem recovery_completes:
  assumes "auth_run (start p ws) evs s" and "NormalizeEmail (ev_lower ev) address = email" "ValidateEmail email = None"
    and "GetActiveUserForPasswordReset email (sy_db s) = Some uid"
    and "ev_outbox ev = Some encrypt" "encrypt ''password_reset'' raw ''/auth/password/reset'' email expiry = Some payload"
    and "expiry = wall + minutes (resetTTLMinutes (td_policy (sy_db s)))"
    and "go_trim_space raw = raw" "raw \<noteq> ''''" "hash = HashPasswordResetToken ev raw"
    and "i \<notin> rt_ID ` set (td_resets (sy_db s))" "hash \<notin> rt_TokenHash ` set (td_resets (sy_db s))"
    and "ev_hash ev new = Some h" "ev_verify ev new h = Some True" "h \<noteq> ''''" "new \<noteq> ''''"
  shows "\<exists>db1. ForgotPassword ev (Some raw) i now wall address (sy_db s) (sy_db s) = Inr db1 \<and>
    (\<exists>m. td_emails db1 = td_emails (sy_db s) @ [m] \<and> em_ToEmail m = email \<and> em_Payload m = payload) \<and>
    (\<forall>later s'. auth_run \<lparr>sy_db = db1, sy_logins = sy_logins s\<rparr> later s' \<and> wall1 < expiry \<and>
       \<lparr>rt_ID = i, rt_UserID = uid, rt_TokenHash = hash, rt_ExpiresAt = expiry, rt_UsedAt = None\<rparr> \<in> set (td_resets (sy_db s')) \<and>
       GetActiveUserForPasswordReset email (sy_db s') = Some uid \<and>
       ValidatePassword (ev_runes ev) new (td_policy (sy_db s')) = None \<longrightarrow>
       (\<exists>db2. ResetPassword ev now1 wall1 raw new (sy_db s') (sy_db s') = Inr db2 \<and>
         (\<forall>input policy. ci_Email input = email \<and> ci_Password input = new \<and> \<not> PasswordExpired now1 wall2 policy \<and>
            \<not> loginTemporarilyLocked now2 wall2 True uid email policy db2 \<longrightarrow>
            (\<exists>c. authenticate (ev_verify ev) now2 wall2 input policy db2 = (Inr c, db2) \<and> lu_ID (lc_User c) = uid)) \<and>
         (\<forall>input policy. ci_Email input = email \<and> ev_verify ev (ci_Password input) h \<noteq> Some True \<longrightarrow>
            fst (authenticate (ev_verify ev) now2 wall2 input policy db2) = Inl ErrInvalidCredentials)))"
proof -
  let ?t = "\<lparr>rt_ID = i, rt_UserID = uid, rt_TokenHash = hash, rt_ExpiresAt = expiry, rt_UsedAt = None\<rparr>"
  let ?m = "\<lparr>em_Kind = ''password_reset'', em_ToEmail = email, em_Subject = ''Reset your NChat password'',
            em_TemplateKey = ''auth.password_reset'', em_ResetTokenID = Some i, em_InviteID = None, em_UserID = Some uid, em_Payload = payload\<rparr>"
  have ok: "logins_ok (sy_db s)" by (rule run_logins [OF assms(1) refl])
  obtain u where u: "u \<in> set (td_users (sy_db s))" "ac_ID u = uid" "same_address (ac_Email u) email" "manual_account u"
    by (rule recovery_account [OF ok assms(4)])
  then have known: "list_ex (\<lambda>u. ac_ID u = uid \<and> same_address (ac_Email u) email \<and> manual_account u) (td_users (sy_db s))"
    unfolding list_ex_iff by blast
  have free: "\<not> list_ex (\<lambda>t. rt_ID t = i \<or> rt_TokenHash t = hash) (td_resets (sy_db s))" using assms(11,12) unfolding list_ex_iff by auto
  obtain db1 where c: "CreatePasswordResetToken i now uid email hash expiry payload (sy_db s) = Inr db1"
      and m: "td_emails db1 = td_emails (sy_db s) @ [?m]"
    unfolding CreatePasswordResetToken_def using known free by auto
  have f: "ForgotPassword ev (Some raw) i now wall address (sy_db s) (sy_db s) = Inr db1"
    unfolding ForgotPassword_def assms(5) Let_def option.case assms(2) of_option_def bind_err_simps assms(4)
      assms(7) [symmetric] assms(6) assms(10) [symmetric] c using assms(3) by simp
  have "auth_run (start p ws) evs \<lparr>sy_db = sy_db s, sy_logins = sy_logins s\<rparr>" using assms(1) by (cases s) simp
  from run_txI [OF this auth_tx.Forgot [OF c]] have run1: "auth_run (start p ws) evs \<lparr>sy_db = db1, sy_logins = sy_logins s\<rparr>" by simp
  have "\<exists>db2. ResetPassword ev now1 wall1 raw new (sy_db s') (sy_db s') = Inr db2 \<and>
         (\<forall>input policy. ci_Email input = email \<and> ci_Password input = new \<and> \<not> PasswordExpired now1 wall2 policy \<and>
            \<not> loginTemporarilyLocked now2 wall2 True uid email policy db2 \<longrightarrow>
            (\<exists>c. authenticate (ev_verify ev) now2 wall2 input policy db2 = (Inr c, db2) \<and> lu_ID (lc_User c) = uid)) \<and>
         (\<forall>input policy. ci_Email input = email \<and> ev_verify ev (ci_Password input) h \<noteq> Some True \<longrightarrow>
            fst (authenticate (ev_verify ev) now2 wall2 input policy db2) = Inl ErrInvalidCredentials)"
    if l: "auth_run \<lparr>sy_db = db1, sy_logins = sy_logins s\<rparr> later s'" and "wall1 < expiry" "?t \<in> set (td_resets (sy_db s'))"
      "GetActiveUserForPasswordReset email (sy_db s') = Some uid" "ValidatePassword (ev_runes ev) new (td_policy (sy_db s')) = None" for later s'
  proof -
    have run: "auth_run (start p ws) (evs @ later) s'" by (rule run_append [OF l run1])
    have "distinct (map rt_TokenHash (td_resets (sy_db s')))" using resets.run_used [OF run refl] by blast
    then show ?thesis
      by (rule token_recovers [OF run_logins [OF run refl] _ that(3)]) (use that(2,4,5) assms(8-10,13-16) in simp_all)
  qed
  then show ?thesis using f m by (intro exI [of _ db1]) auto
qed

end
