(* ===== verification/Spec2Isabelle.thy ===== *)
theory Spec2Isabelle
  imports Work_Schedule Notification_Event Notification_Policy Url_Fallback Keyring Conversation_Policy
    Ownership_Invalidation Meeting_Requests Call_Service Notification_Queue Request_Reads
    Auth_Access
begin

text \<open>
  \<^bold>\<open>nchat: a verification development of its policy and transaction core.\<close>

  nchat is a team chat platform written as Go services that share libraries and one PostgreSQL database. The services keep
  almost no state of their own: a request is authorised against rows, changes them in one transaction and publishes what it
  committed. What has to be right is therefore in four places, and they are what is modelled here, each as the code has it.

  \<^bold>\<open>The parts and their theories.\<close>

  \<^item> Decisions shared by the services (\<open>libs/go/platform\<close>). \<open>Notification_Event\<close> has the outbox
    vocabulary, its state machine and the dedupe key of \<open>notificationevent\<close>; \<open>Work_Schedule\<close> has
    \<open>workschedule\<close>: a weekly schedule, its validation and its evaluation at an instant in a time zone;
    \<open>Notification_Policy\<close> has \<open>notificationpolicy\<close>: the ordered rules that deny channels and the plan
    and reasons they leave. \<open>Workspace_Policy\<close> includes the limits of \<open>uploadpolicy\<close> and
    \<open>antispampolicy\<close>.
  \<^item> URL reputation (\<open>libs/go/platform/urlsafety\<close>). \<open>Url_Breaker\<close> is the circuit breaker,
    \<open>Url_Cache\<close> the bounded verdict cache, \<open>Url_Safety\<close> the service above both with its operations and
    counters, \<open>Url_Fallback\<close> the composition of a primary and a fallback provider with a breaker of its own.
    Providers are arguments: what an exchange answered.
  \<^item> Encryption of files (\<open>services/file-service/internal/crypto/envelope.go\<close>). \<open>Stream_Reader\<close>
    is the shared reader, \<open>Envelope\<close> the chunked envelope with its two streaming readers and random access,
    \<open>Keyring\<close> the configured master keys and key wrapping. The AEAD is a parameter; its laws are the assumptions of
    a locale, and interpreted on a concrete cipher for the witnesses.
  \<^item> Workspaces, conversations, meetings and calls (\<open>services/chat-service/internal\<close>).
    \<open>Workspace_Policy\<close> and \<open>Conversation_Policy\<close> are the authority rules of \<open>domain/\<close>
    (channels, private conversations, their owners and successors); \<open>Ownership_Session\<close>,
    \<open>Ownership_Store\<close> and \<open>Ownership_Invalidation\<close> are the succession protocol of
    \<open>libs/go/platform/conversationownership\<close> and the transactions of \<open>storage/ownership_*\<close> above it,
    with their proofs in \<open>Ownership_Safety\<close>. \<open>Meeting\<close> is the aggregate and policy of meetings,
    \<open>Meeting_Store\<close> the transactions of \<open>storage/meeting_*\<close> and \<open>Meeting_Service\<close> the
    service above them; \<open>Meeting_Safety\<close>, \<open>Meeting_Invariant\<close> and \<open>Meeting_Requests\<close>
    prove them. \<open>Call_Store\<close> is \<open>domain/call.go\<close> with \<open>storage/call_store.go\<close>,
    \<open>Call_Safety\<close> its proofs, \<open>Call_Service\<close> the service that publishes what the store committed.
  \<^item> The delivery of notifications (\<open>services/notification-service/internal\<close>).
    \<open>Notification_Outbox\<close> has every statement of \<open>storage/notification_outbox_store.go\<close> and
    \<open>storage/reminder_store.go\<close> on the tables they read and write, with the trigger and check of the outbox table;
    \<open>Notification_Worker\<close> has the worker of \<open>worker/notification_*.go\<close> with its configuration, retry
    policy and the adapter to the policy engine. \<open>Notification_Delivery\<close> is the system of many workers over one
    outbox, an inductive step relation that records every claim and outcome, with its invariant;
    \<open>Notification_Queue\<close> has what follows about the order of the queue, evaluation and reminders.
  \<^item> Requests for confirmation, which both services work on. \<open>Acknowledgement\<close> has
    \<open>domain/acknowledgement.go\<close>, \<open>storage/acknowledgement_store.go\<close> and the service above them, with
    the statements of \<open>storage/message_store.go\<close> that create, answer and withdraw requests, on the tables of
    \<open>Notification_Outbox\<close>; \<open>Request_Lifecycle\<close> is the relation of all the steps of either service that
    concern a request, and \<open>Request_Reads\<close> what its answers say.
  \<^item> Accounts and sessions (\<open>services/auth-service/internal\<close>). \<open>Auth_Tables\<close> has the tables, the
    rules on passwords and states of \<open>domain/\<close> and the statements the stores share; \<open>Auth_Login\<close> the
    two phases of a password login with lockout and device limit, and single sign-on (\<open>storage/login_store.go\<close>,
    \<open>storage/oidc_store.go\<close>); \<open>Auth_Session\<close> refresh, logout, sessions and devices, password recovery,
    invitations and suspension, which runs the ownership protocol of the conversations in the same transaction
    (\<open>storage/session_store.go\<close>, \<open>device_session_store.go\<close>, \<open>password_reset_store.go\<close>,
    \<open>invite_store.go\<close>, \<open>user_store.go\<close>), the forced sign-out of the administration and the validity of
    a session as every service reads it (\<open>libs/go/platform/authsession\<close>). \<open>Auth_Lifecycle\<close> is the
    relation of all these transactions, with logins whose two phases other transactions separate, and its invariant;
    \<open>Auth_Safety\<close>, \<open>Auth_Credentials\<close> and \<open>Auth_Lockout\<close> prove what follows.
    \<open>Auth_Service\<close> has the services above the stores: tokens, login, refresh and logout, recovery, invitations,
    accounts, sessions and devices (\<open>service/token_service.go\<close>, \<open>login_service.go\<close>,
    \<open>auth_service.go\<close>, \<open>password_reset_service.go\<close>, \<open>invite_service.go\<close>,
    \<open>user_service.go\<close>, \<open>device_session_service.go\<close>) and the syntax of addresses of
    \<open>domain/validation.go\<close>; \<open>Auth_Access\<close> proves that what they hand out works.

  \<open>Go_Prelude\<close> and \<open>Go_Utf8\<close> carry what the components share: instants and durations, error values as
  sums, the lemmas on lists, association lists and words, and UTF-8 decoding with the runes Go's library classifies.

  \<^bold>\<open>How code becomes definitions.\<close> A struct is a record whose fields keep the source's names behind a
  two-letter prefix; a string enumeration stays a string, because the code accepts any string and validates it; an error is a
  value of a datatype of the component, with \<open>Inl\<close> for the failing branch. Instants and durations are integers of
  nanoseconds, version counters and sizes have the width the code gives them where a bound is claimed (channel sets are 8-bit
  words, chunk indices 32-bit words). A store is a record of its tables as lists of rows; a statement is the list function with
  the same meaning, a transaction a function that answers an error, which is the rollback, or a result with the new tables. The
  statements that lock rows or take advisory locks have no effect on the tables: they are what justifies one transaction as one
  step, and the theorems about many requests range over arbitrary sequences of such steps, with arbitrary changes of the rest of
  the system in between where the theorem says so. Clocks, fresh identifiers, random bytes, UUID parsing, digests, the time zone
  database and map iteration order are arguments.

  \<^bold>\<open>What is shown.\<close>

  \<^item> Calls: over every sequence of operations a person is engaged in at most one call of a workspace, calls only move
    forward, where the presence layer is wired nobody's participation starts or ends unannounced, a superseded participation
    stays inert, and the service publishes what was committed.
  \<^item> Ownership: no sequence of mutations, retries and failures leaves a conversation without an owner while someone could
    own it; transfers are idempotent; the transaction, whose successor is chosen by SQL, does what the domain's preview
    announced; invalidating an account leaves an owner in every conversation it owned that has another member, and demotes
    nobody anywhere.
  \<^item> Meetings: one organizer, a unique roster and valid fields under every sequence of requests, and nobody comes onto a
    roster who might not attend in the meeting's workspace; what each capability demands; histories that only go forward;
    invisibility as not found; paging that ends and is complete; creation that can be retried.
  \<^item> URL safety: only a current, error-free exchange about exactly that URL, or a verdict its caller hands over, clears
    it; at most one probe of a half-open circuit is in flight once the exchanges from before it opened have settled; the cache
    stays within its bound; which source's answer stands.
  \<^item> Files: the two readers are inverse at any read sizes, only envelopes decrypt, random access agrees with sequential
    reading, reading ends after at most \<open>2 ^ 32\<close> chunks whatever is left of the source, and wrapped keys open only
    under the key and binding they were sealed for.
  \<^item> Schedules and notifications: an evaluation is what the local clock reads under any zone data, the next transition is
    the first change of state, the delivery plan in closed form, and every decision can be recorded.
  \<^item> Delivery: with any number of workers that crash, finish late and overlap, each claim of an event has its own attempt
    number and at most one outcome, claims do not overlap in time, a due event is claimed after at most the events before it,
    unless its late worker still reports, its limit retires it or its recipient has answered, evaluation follows the recipient's
    preferences, and the table's guards never refuse the worker. A reminder waiting for a retry when its recipient answers stays
    in the backlog for ever, which the cleanup's comment rules out.
  \<^item> Requests: each recipient is asked once, answers once and is reminded at most twelve times and never after answering,
    whatever both services do; the recipients are those of the send; confirming can be repeated; the reads agree.
  \<^item> Accounts: a replayed refresh token ends its session; what was revoked stays revoked; a suspended account has no
    session, token or code that works, also when the suspension falls between the phases of a login; every token, code and
    invitation is used at most once; a password reset ends every session there is; the lockout is exactly its rule and devices
    stay within their limit. A login that had checked the old password when a reset commits is granted after it, which is shown
    too. The tokens a login hands out work until they expire, and a forgotten password can be replaced with the token that was
    mailed.

  \<^bold>\<open>Interfaces.\<close> Locales state what a component relies on: the zone database's \<open>ZoneBounds\<close>,
  the AEAD, one refill of a stream reader, the order of map iteration, the canonical form of UUIDs, the transaction session of the succession protocol, a table of
  credentials that are used once. Each is interpreted on the definitions of the component that provides it.

  \<^bold>\<open>Bounds and fuel.\<close> Loops of the code are recursions over the data they consume. The loops over
  \<open>io.Reader\<close> are partial functions with no fuel, and the theorems state that they end; the loop over the pages of
  a roster carries fuel, one more than the length of the roster, and its theorem states that this much is enough. The retry loop
  of the ownership protocol has the code's own bound of attempts.

  \<^bold>\<open>Not modelled.\<close> HTTP handlers, decoding and wiring (no state of their own); the WebSocket hub, its
  fan-out and the presence directories, which are concurrent Redis and socket code; the rest of the message store and link
  scanning; the media and search services, the admin service but for its sign-out, the exchange with identity providers and
  avatars in the auth service, where the signing of tokens, the hashing of passwords and the encryption of what is mailed are
  arguments, and the notification service's adapters to push and mail providers; the web applications and the migrations. The
  providers' HTTP adapters and URL parsing are parameters of the URL safety model.
\<close>

end
